(* ===== verification/Prelude.thy ===== *)
theory Prelude
  imports Main "HOL-Library.Word" "HOL-Library.AList" "HOL-Library.Monad_Syntax"
begin

text \<open>
  The shared vocabulary of the development.  Go byte slices and strings are lists of
  \<^typ>\<open>char\<close>, one character per byte; a nil-able slice is an option of one.  Slice
  expressions \<open>xs[lo:hi]\<close> and the built-in \<open>copy\<close> are \<open>go_slice\<close> and \<open>go_copy\<close>;
  \<open>bytes.IndexByte\<close> is \<open>IndexByte\<close>.  Go computations that may fail return a sum whose
  left side is the error; computations that contain a loop that may not return give an
  option, with \<open>None\<close> for not returning.  Go maps are association lists with distinct
  keys, whose order stands for the unspecified iteration order.
\<close>

type_synonym bytes = "char list"

named_theorems go_simps \<open>slices, copies and byte searches\<close>
named_theorems reader_laws \<open>what a healthy buffered reader returns\<close>
named_theorems writer_laws \<open>what a healthy buffered writer accepts\<close>

subsection \<open>Slices and copies\<close>

definition go_slice :: "'a list \<Rightarrow> nat \<Rightarrow> nat \<Rightarrow> 'a list" where
  "go_slice xs lo hi = take (hi - lo) (drop lo xs)"

definition go_copy :: "'a list \<Rightarrow> nat \<Rightarrow> 'a list \<Rightarrow> 'a list" where
  "go_copy dst pos src =
     take pos dst @ take (length dst - pos) src @ drop (pos + length src) dst"

fun IndexByte :: "bytes \<Rightarrow> char \<Rightarrow> nat option" where
  "IndexByte [] c = None"
| "IndexByte (x # xs) c = (if x = c then Some 0 else map_option Suc (IndexByte xs c))"

lemma length_go_slice [simp]: "length (go_slice xs lo hi) = min (hi - lo) (length xs - lo)"
  by (simp add: go_slice_def min.commute)

lemma length_go_copy [simp]: "pos \<le> length dst \<Longrightarrow> length (go_copy dst pos src) = length dst"
  by (auto simp: go_copy_def)

lemma go_slice_copy_prefix [go_simps]:
  "pos + length src \<le> length dst \<Longrightarrow>
   go_slice (go_copy dst pos src) lo (pos + length src) =
   (if lo \<le> pos then go_slice dst lo pos @ src else drop (lo - pos) src)"
  by (auto simp: go_slice_def go_copy_def drop_take)

lemma go_slice_copy0 [go_simps]:
  "length src \<le> length dst \<Longrightarrow> go_slice (go_copy dst 0 src) 0 (length src) = src"
  by (simp add: go_slice_def go_copy_def)

lemma go_slice_same [go_simps]: "go_slice xs 0 (length xs) = xs"
  by (simp add: go_slice_def)

lemma go_slice_advance [go_simps]:
  "lo + k \<le> hi \<Longrightarrow> go_slice xs (lo + k) hi = drop k (go_slice xs lo hi)"
  by (simp add: go_slice_def drop_take add.commute)

lemma go_slice_front [go_simps]:
  "lo + k \<le> hi \<Longrightarrow> go_slice xs lo (lo + k) = take k (go_slice xs lo hi)"
  by (simp add: go_slice_def min_absorb1)

lemma IndexByte_None_iff: "IndexByte xs c = None \<longleftrightarrow> c \<notin> set xs"
  by (induction xs) auto

lemmas IndexByte_None [simp] = IndexByte_None_iff [THEN iffD2]

lemma IndexByte_append [simp]:
  "c \<notin> set l \<Longrightarrow> IndexByte (l @ c # s) c = Some (length l)"
  by (induction l) auto

lemma IndexByte_SomeD:
  "IndexByte xs c = Some i \<Longrightarrow> \<exists>s. xs = take i xs @ c # s \<and> c \<notin> set (take i xs) \<and> i < length xs"
proof (induction xs arbitrary: i)
  case Nil
  then show ?case by simp
next
  case (Cons x xs)
  show ?case
  proof (cases "x = c")
    case True
    with Cons.prems show ?thesis by simp
  next
    case False
    with Cons.prems obtain j where j: "IndexByte xs c = Some j" "i = Suc j" by auto
    from Cons.IH[OF j(1)] False j(2) show ?thesis by auto
  qed
qed

lemma prefix_without_delim:
  assumes "u @ v = l @ c # s" and "c \<notin> set u"
  shows "\<exists>k. l = u @ k \<and> v = k @ c # s"
  using assms by (auto simp: append_eq_append_conv2 append_eq_Cons_conv)

end
