(* ===== verification/Bufio2.thy ===== *)
theory Bufio2
  imports Prelude "HOL-Library.Sublist"
begin

text \<open>
  The buffered reader and writer of \<open>src/pkg/utils/bufio2\<close> and its slice allocator.  A
  \<open>Reader\<close> keeps its buffer, its two positions, its sticky error, its allocator and the
  behaviour still to come of the wrapped \<open>io.Reader\<close>: a list of events, each one result of a
  \<open>Read\<close> call, cut where the caller's slice is too short for it.  Any \<open>io.Reader\<close> is such a
  list, so a statement about all event lists is one about every way the network can split,
  delay or break the stream.  A \<open>Writer\<close> keeps what the wrapped \<open>io.Writer\<close> has accepted
  and the list of its results to come.  The lemmas show that a reader delivers exactly the
  bytes of its stream whatever the split, and that a writer puts a prefix of what was written
  on the wire, all of it when flushed without an error.
\<close>

section \<open>The wrapped io.Reader and io.Writer\<close>

datatype io_error = EOF | ErrUnexpectedEOF | ErrNoProgress | ErrBufferFull | ErrShortWrite
  | ErrIO string

datatype rd_event = RdData bytes | RdErr bytes io_error

text \<open>One \<open>Read(p)\<close> with \<open>len(p) = k\<close>: the bytes, the error and the events left.\<close>

fun rd_read :: "nat \<Rightarrow> rd_event list \<Rightarrow> (bytes \<times> io_error option) \<times> rd_event list" where
  "rd_read k [] = (([], Some EOF), [])"
| "rd_read k (RdData d # es) =
     (if length d \<le> k then ((d, None), es) else ((take k d, None), RdData (drop k d) # es))"
| "rd_read k (RdErr d e # es) =
     (if length d \<le> k then ((d, Some e), es)
      else ((take k d, None), RdErr (drop k d) e # es))"

datatype wr_event = WrAll | WrShort nat | WrErr nat io_error

text \<open>One \<open>Write(p)\<close>: the number of bytes accepted, the error and the events left.\<close>

fun wr_write :: "bytes \<Rightarrow> wr_event list \<Rightarrow> (nat \<times> io_error option) \<times> wr_event list" where
  "wr_write p [] = ((length p, None), [])"
| "wr_write p (WrAll # es) = ((length p, None), es)"
| "wr_write p (WrShort k # es) = ((min k (length p), None), es)"
| "wr_write p (WrErr k e # es) = ((min k (length p), Some e), es)"

section \<open>The slice allocator\<close>

text \<open>
  A backing array is named by a number; \<open>d.buf\<close> is the rest of array \<open>sa_arr\<close> from
  \<open>sa_off\<close>, of length \<open>sa_len\<close>; \<open>sa_next\<close> is the next unused name, which \<open>make\<close>
  takes.  A slice is its array, its offset and its length (and capacity).
\<close>

record sliceAlloc =
  sa_arr :: nat
  sa_off :: nat
  sa_len :: nat
  sa_next :: nat

type_synonym region = "nat \<times> nat \<times> nat"

definition sliceAlloc_Make :: "nat \<Rightarrow> sliceAlloc \<Rightarrow> region \<times> sliceAlloc" where
  "sliceAlloc_Make n d =
     (if n = 0 then ((0, 0, 0), d)
      else if n \<ge> 512 then ((sa_next d, 0, n), d\<lparr>sa_next := Suc (sa_next d)\<rparr>)
      else
        let d1 = (if sa_len d < n
                  then d\<lparr>sa_arr := sa_next d, sa_off := 0, sa_len := 8192, sa_next := Suc (sa_next d)\<rparr>
                  else d)
        in ((sa_arr d1, sa_off d1, n), d1\<lparr>sa_off := sa_off d1 + n, sa_len := sa_len d1 - n\<rparr>))"

fun sliceAlloc_run :: "nat list \<Rightarrow> sliceAlloc \<Rightarrow> region list \<times> sliceAlloc" where
  "sliceAlloc_run [] d = ([], d)"
| "sliceAlloc_run (n # ns) d =
     (let (r, d1) = sliceAlloc_Make n d; (rs, d2) = sliceAlloc_run ns d1 in (r # rs, d2))"

definition sliceAlloc_new :: sliceAlloc where
  "sliceAlloc_new = \<lparr>sa_arr = 0, sa_off = 0, sa_len = 0, sa_next = 1\<rparr>"

fun disjoint_regions :: "region \<Rightarrow> region \<Rightarrow> bool" where
  "disjoint_regions (a1, o1, n1) (a2, o2, n2) \<longleftrightarrow>
     a1 \<noteq> a2 \<or> n1 = 0 \<or> n2 = 0 \<or> o1 + n1 \<le> o2 \<or> o2 + n2 \<le> o1"

section \<open>The reader\<close>

record Reader =
  r_err :: "io_error option"
  r_buf :: bytes
  r_rd :: "rd_event list"
  r_rpos :: nat
  r_wpos :: nat
  r_slice :: sliceAlloc

definition DefaultBufferSize :: nat where
  "DefaultBufferSize = 1024"

definition NewReaderSize :: "rd_event list \<Rightarrow> int \<Rightarrow> Reader" where
  "NewReaderSize rd sz =
     (let n = (if sz \<le> 0 then DefaultBufferSize else nat sz)
      in \<lparr>r_err = None, r_buf = replicate n (CHR 0x00), r_rd = rd, r_rpos = 0, r_wpos = 0,
          r_slice = sliceAlloc_new\<rparr>)"

definition NewReader :: "rd_event list \<Rightarrow> Reader" where
  "NewReader rd = NewReaderSize rd (int DefaultBufferSize)"

definition NewReaderBuffer :: "rd_event list \<Rightarrow> bytes \<Rightarrow> Reader" where
  "NewReaderBuffer rd buf =
     (let buf = (if length buf = 0 then replicate DefaultBufferSize (CHR 0x00) else buf)
      in \<lparr>r_err = None, r_buf = buf, r_rd = rd, r_rpos = 0, r_wpos = 0,
          r_slice = sliceAlloc_new\<rparr>)"

text \<open>\<open>b.buf[b.rpos:b.wpos]\<close>\<close>

definition unread :: "Reader \<Rightarrow> bytes" where
  "unread b = go_slice (r_buf b) (r_rpos b) (r_wpos b)"

definition Reader_fill :: "Reader \<Rightarrow> io_error option \<times> Reader" where
  "Reader_fill b =
     (case r_err b of
        Some e \<Rightarrow> (Some e, b)
      | None \<Rightarrow>
         let b1 = (if r_rpos b > 0
                   then b\<lparr>r_buf := go_copy (r_buf b) 0 (unread b), r_rpos := 0,
                          r_wpos := length (unread b)\<rparr>
                   else b);
             ((d, err), rd') = rd_read (length (r_buf b1) - r_wpos b1) (r_rd b1);
             b2 = b1\<lparr>r_buf := go_copy (r_buf b1) (r_wpos b1) d, r_rd := rd'\<rparr>
         in case err of
              Some e \<Rightarrow> (Some e, b2\<lparr>r_err := Some e\<rparr>)
            | None \<Rightarrow>
                if length d = 0 then (Some ErrNoProgress, b2\<lparr>r_err := Some ErrNoProgress\<rparr>)
                else (None, b2\<lparr>r_wpos := r_wpos b2 + length d\<rparr>))"

definition Reader_buffered :: "Reader \<Rightarrow> nat" where
  "Reader_buffered b = r_wpos b - r_rpos b"

text \<open>\<open>Read(p)\<close> with \<open>len(p) = k\<close>: the bytes copied to \<open>p\<close> and the error.\<close>

definition Reader_copyOut :: "nat \<Rightarrow> Reader \<Rightarrow> (bytes \<times> io_error option) \<times> Reader" where
  "Reader_copyOut k b =
     (let d = take k (unread b) in ((d, None), b\<lparr>r_rpos := r_rpos b + length d\<rparr>))"

definition Reader_Read :: "nat \<Rightarrow> Reader \<Rightarrow> (bytes \<times> io_error option) \<times> Reader" where
  "Reader_Read k b =
     (if r_err b \<noteq> None \<or> k = 0 then (([], r_err b), b)
      else if Reader_buffered b = 0 then
        if k \<ge> length (r_buf b) then
          let ((d, err), rd') = rd_read k (r_rd b);
              b1 = b\<lparr>r_rd := rd'\<rparr>;
              b2 = (case err of Some e \<Rightarrow> b1\<lparr>r_err := Some e\<rparr> | None \<Rightarrow> b1)
          in ((d, r_err b2), b2)
        else
          (case Reader_fill b of
             (Some _, b1) \<Rightarrow> (([], r_err b1), b1)
           | (None, b1) \<Rightarrow> Reader_copyOut k b1)
      else Reader_copyOut k b)"

definition Reader_ReadByte :: "Reader \<Rightarrow> (io_error + char) \<times> Reader" where
  "Reader_ReadByte b =
     (case r_err b of
        Some e \<Rightarrow> (Inl e, b)
      | None \<Rightarrow>
         (case (if Reader_buffered b = 0 then Reader_fill b else (None, b)) of
            (Some e, b1) \<Rightarrow> (Inl e, b1)
          | (None, b1) \<Rightarrow> (Inr (r_buf b1 ! r_rpos b1), b1\<lparr>r_rpos := r_rpos b1 + 1\<rparr>)))"

definition Reader_PeekByte :: "Reader \<Rightarrow> (io_error + char) \<times> Reader" where
  "Reader_PeekByte b =
     (case r_err b of
        Some e \<Rightarrow> (Inl e, b)
      | None \<Rightarrow>
         (case (if Reader_buffered b = 0 then Reader_fill b else (None, b)) of
            (Some e, b1) \<Rightarrow> (Inl e, b1)
          | (None, b1) \<Rightarrow> (Inr (r_buf b1 ! r_rpos b1), b1)))"

text \<open>
  A successful \<open>fill\<close> leaves less free room in the buffer: the measure of the loop of
  \<open>ReadSlice\<close>.
\<close>

lemma rd_read_bound: "rd_read k es = ((d, err), es') \<Longrightarrow> length d \<le> k"
  by (induction k es rule: rd_read.induct) (auto split: if_splits)

lemma rd_read_progress:
  "rd_read k es = ((d, None), es') \<Longrightarrow>
   length es' < length es \<or> (length es' = length es \<and> length d = k)"
  by (induction k es rule: rd_read.induct) (auto split: if_splits)

lemma Reader_fill_room:
  assumes "Reader_fill b = (None, b')"
  shows "length (r_buf b') - length (unread b') < length (r_buf b) - length (unread b)"
    and "length (r_buf b') = length (r_buf b)"
proof -
  define b1 where "b1 = (if r_rpos b > 0
      then b\<lparr>r_buf := go_copy (r_buf b) 0 (unread b), r_rpos := 0, r_wpos := length (unread b)\<rparr>
      else b)"
  obtain d err rd' where rd: "rd_read (length (r_buf b1) - r_wpos b1) (r_rd b1) = ((d, err), rd')"
    by (metis prod.exhaust)
  have len1: "length (r_buf b1) = length (r_buf b)" by (simp add: b1_def)
  from assms rd have ok: "r_err b = None" "err = None" "d \<noteq> []"
      and b': "b' = b1\<lparr>r_buf := go_copy (r_buf b1) (r_wpos b1) d, r_rd := rd',
                       r_wpos := r_wpos b1 + length d\<rparr>"
    by (auto simp: Reader_fill_def b1_def[symmetric] Let_def split: option.splits if_splits)
  from rd_read_bound[OF rd] ok(3) have room: "r_wpos b1 + length d \<le> length (r_buf b1)"
    by (cases d) auto
  have rpos1: "r_rpos b1 = 0" by (simp add: b1_def)
  have un1: "unread b1 = unread b"
    using go_slice_copy0[of "unread b" "r_buf b"] by (auto simp: b1_def unread_def)
  have "unread b' = unread b1 @ d"
    using room rpos1 by (simp add: b' unread_def go_simps)
  with un1 have un': "unread b' = unread b @ d" by simp
  show "length (r_buf b') = length (r_buf b)"
    using room by (simp add: b' len1)
  moreover have "length (unread b1) + length d \<le> length (r_buf b1)"
    using room rpos1 by (simp add: unread_def)
  with un1 len1 have "length (unread b) + length d \<le> length (r_buf b)" by simp
  ultimately show "length (r_buf b') - length (unread b') < length (r_buf b) - length (unread b)"
    using un' ok(3) by (cases d) auto
qed

function Reader_sliceLoop :: "char \<Rightarrow> Reader \<Rightarrow> (bytes \<times> io_error option) \<times> Reader" where
  "Reader_sliceLoop delim b =
     (case IndexByte (unread b) delim of
        Some index \<Rightarrow>
          let limit = r_rpos b + index + 1
          in ((go_slice (r_buf b) (r_rpos b) limit, None), b\<lparr>r_rpos := limit\<rparr>)
      | None \<Rightarrow>
          if Reader_buffered b = length (r_buf b)
          then ((r_buf b, Some ErrBufferFull), b\<lparr>r_rpos := r_wpos b\<rparr>)
          else
            (case Reader_fill b of
               (Some e, b1) \<Rightarrow> (([], Some e), b1)
             | (None, b1) \<Rightarrow> Reader_sliceLoop delim b1))"
  by pat_completeness auto
termination
  by (relation "measure (\<lambda>(delim, b). length (r_buf b) - length (unread b))")
    (auto dest: Reader_fill_room sym)

declare Reader_sliceLoop.simps [simp del]

definition Reader_ReadSlice :: "char \<Rightarrow> Reader \<Rightarrow> (bytes \<times> io_error option) \<times> Reader" where
  "Reader_ReadSlice delim b =
     (case r_err b of Some e \<Rightarrow> (([], Some e), b) | None \<Rightarrow> Reader_sliceLoop delim b)"

text \<open>
  The loop of \<open>ReadBytes\<close>: \<open>full\<close> holds the copied fragments.  It ends because every
  fragment empties a buffer that is not of size 0; a reader whose buffer had size 0 would
  loop, hence the option.
\<close>

partial_function (option) Reader_bytesLoop ::
  "char \<Rightarrow> bytes list \<Rightarrow> nat \<Rightarrow> Reader \<Rightarrow> ((io_error + bytes) \<times> Reader) option" where
  "Reader_bytesLoop delim full sz b =
     (case Reader_ReadSlice delim b of
        ((f, Some e), b1) \<Rightarrow>
          if e \<noteq> ErrBufferFull then Some (Inl e, b1)
          else
            (case sliceAlloc_Make (length f) (r_slice b1) of
               (_, sl) \<Rightarrow>
                 Reader_bytesLoop delim (full @ [f]) (sz + length f) (b1\<lparr>r_slice := sl\<rparr>))
      | ((f, None), b1) \<Rightarrow>
          (case sliceAlloc_Make (sz + length f) (r_slice b1) of
             (_, sl) \<Rightarrow> Some (Inr (concat full @ f), b1\<lparr>r_slice := sl\<rparr>)))"

definition Reader_ReadBytes :: "char \<Rightarrow> Reader \<Rightarrow> ((io_error + bytes) \<times> Reader) option" where
  "Reader_ReadBytes delim b = Reader_bytesLoop delim [] 0 b"

text \<open>
  \<open>io.ReadFull(b, buf)\<close> for \<open>len(buf) = n\<close>: it calls \<open>b.Read\<close> on the part of \<open>buf\<close> not
  yet filled (\<open>acc\<close> is what is filled) until it is full or an error comes; an \<open>EOF\<close> after
  some bytes is \<open>ErrUnexpectedEOF\<close>.
\<close>

partial_function (option) Reader_fullLoop ::
  "nat \<Rightarrow> bytes \<Rightarrow> Reader \<Rightarrow> ((io_error + bytes) \<times> Reader) option" where
  "Reader_fullLoop n acc b =
     (case Reader_Read (n - length acc) b of
        ((d, err), b1) \<Rightarrow>
          if length (acc @ d) \<ge> n then Some (Inr (acc @ d), b1)
          else
            (case err of
               None \<Rightarrow> Reader_fullLoop n (acc @ d) b1
             | Some e \<Rightarrow>
                 Some (Inl (if acc @ d \<noteq> [] \<and> e = EOF then ErrUnexpectedEOF else e), b1)))"

definition Reader_ReadFull :: "nat \<Rightarrow> Reader \<Rightarrow> ((io_error + bytes) \<times> Reader) option" where
  "Reader_ReadFull n b =
     (if r_err b \<noteq> None \<or> n = 0
      then Some (case r_err b of Some e \<Rightarrow> (Inl e, b) | None \<Rightarrow> (Inr [], b))
      else
        (case sliceAlloc_Make n (r_slice b) of
           (_, sl) \<Rightarrow> Reader_fullLoop n [] (b\<lparr>r_slice := sl\<rparr>)))"

section \<open>The writer\<close>

record Writer =
  w_err :: "io_error option"
  w_buf :: bytes
  w_wpos :: nat
  w_out :: bytes
  w_script :: "wr_event list"

definition NewWriterSize :: "wr_event list \<Rightarrow> int \<Rightarrow> Writer" where
  "NewWriterSize wr sz =
     (let n = (if sz \<le> 0 then DefaultBufferSize else nat sz)
      in \<lparr>w_err = None, w_buf = replicate n (CHR 0x00), w_wpos = 0, w_out = [], w_script = wr\<rparr>)"

definition NewWriter :: "wr_event list \<Rightarrow> Writer" where
  "NewWriter wr = NewWriterSize wr (int DefaultBufferSize)"

definition NewWriterBuffer :: "wr_event list \<Rightarrow> bytes \<Rightarrow> Writer" where
  "NewWriterBuffer wr buf =
     (let buf = (if length buf = 0 then replicate DefaultBufferSize (CHR 0x00) else buf)
      in \<lparr>w_err = None, w_buf = buf, w_wpos = 0, w_out = [], w_script = wr\<rparr>)"

definition Writer_flush :: "Writer \<Rightarrow> io_error option \<times> Writer" where
  "Writer_flush b =
     (if w_err b \<noteq> None then (w_err b, b)
      else if w_wpos b = 0 then (None, b)
      else
        let p = take (w_wpos b) (w_buf b);
            ((n, err), wr') = wr_write p (w_script b);
            b1 = b\<lparr>w_out := w_out b @ take n p, w_script := wr'\<rparr>;
            b2 = (case err of
                    Some e \<Rightarrow> b1\<lparr>w_err := Some e\<rparr>
                  | None \<Rightarrow> if n < w_wpos b then b1\<lparr>w_err := Some ErrShortWrite\<rparr>
                            else b1\<lparr>w_wpos := 0\<rparr>)
        in (w_err b2, b2))"

definition Writer_Flush :: "Writer \<Rightarrow> io_error option \<times> Writer" where
  "Writer_Flush b = Writer_flush b"

definition Writer_available :: "Writer \<Rightarrow> nat" where
  "Writer_available b = length (w_buf b) - w_wpos b"

text \<open>\<open>n := copy(b.buf[b.wpos:], p); b.wpos += n\<close>\<close>

definition Writer_fill :: "bytes \<Rightarrow> Writer \<Rightarrow> nat \<times> Writer" where
  "Writer_fill p b =
     (let n = min (Writer_available b) (length p)
      in (n, b\<lparr>w_buf := go_copy (w_buf b) (w_wpos b) (take n p), w_wpos := w_wpos b + n\<rparr>))"

lemma wr_write_script:
  "wr_write p es = ((n, err), es') \<Longrightarrow>
   n \<le> length p \<and> (if es = [] then n = length p \<and> err = None \<and> es' = [] else length es' < length es)"
  by (induction p es rule: wr_write.induct) auto

lemma Writer_flush_script:
  "length (w_script (snd (Writer_flush b))) \<le> length (w_script b) \<and>
   (w_err b = None \<longrightarrow> w_wpos b \<noteq> 0 \<longrightarrow>
     length (w_script (snd (Writer_flush b))) < length (w_script b) \<or>
     (w_script b = [] \<and> w_script (snd (Writer_flush b)) = [] \<and>
      (w_wpos (snd (Writer_flush b)) = 0 \<or> w_err (snd (Writer_flush b)) \<noteq> None)))"
  by (cases "w_script b") (auto simp: Writer_flush_def Let_def split: option.splits prod.splits wr_event.splits elim!: wr_write.elims)

definition write_measure :: "bytes \<Rightarrow> Writer \<Rightarrow> nat" where
  "write_measure p b = 3 * length (w_script b)
     + (if w_wpos b = 0 \<or> w_err b \<noteq> None then 0 else 1) + (if p = [] then 0 else 1)"

lemma write_measure_direct:
  assumes "wr_write p (w_script b) = ((n, err), wr')" and "w_wpos b = 0" and "p \<noteq> []"
  shows "write_measure (drop n p) (b\<lparr>w_out := x, w_script := wr', w_err := err\<rparr>) < write_measure p b"
  using wr_write_script[OF assms(1)] assms(2,3) by (auto simp: write_measure_def split: if_splits)

lemma write_measure_flush:
  assumes "w_err b = None" and "w_wpos b \<noteq> 0" and "Writer_fill p b = (n, b1)" and "p \<noteq> []"
  shows "write_measure (drop n p) (snd (Writer_flush b1)) < write_measure p b"
proof -
  from assms have b1: "w_err b1 = None" "w_wpos b1 \<noteq> 0" "w_script b1 = w_script b"
    by (auto simp: Writer_fill_def Let_def)
  show ?thesis
    using Writer_flush_script[of b1] b1 assms(1,2,4) by (auto simp: write_measure_def)
qed

function Writer_writeLoop :: "bytes \<Rightarrow> nat \<Rightarrow> Writer \<Rightarrow> (bytes \<times> nat) \<times> Writer" where
  "Writer_writeLoop p nn b =
     (if w_err b = None \<and> length p > Writer_available b then
        if w_wpos b = 0 then
          (case wr_write p (w_script b) of
             ((n, err), wr') \<Rightarrow>
               Writer_writeLoop (drop n p) (nn + n)
                 (b\<lparr>w_out := w_out b @ take n p, w_script := wr', w_err := err\<rparr>))
        else
          (case Writer_fill p b of
             (n, b1) \<Rightarrow> Writer_writeLoop (drop n p) (nn + n) (snd (Writer_flush b1)))
      else ((p, nn), b))"
  by pat_completeness auto

termination
proof (relation "measure (\<lambda>(p, nn, b). write_measure p b)", goal_cases)
  case 1
  show ?case by simp
next
  case 2
  then show ?case
    using write_measure_direct
    by (metis case_prod_conv in_measure less_nat_zero_code list.size(3))
next
  case 3
  then show ?case
    using write_measure_flush
    by (metis case_prod_conv in_measure less_nat_zero_code list.size(3))
qed

declare Writer_writeLoop.simps [simp del]

definition Writer_Write :: "bytes \<Rightarrow> Writer \<Rightarrow> (nat \<times> io_error option) \<times> Writer" where
  "Writer_Write p b =
     (case Writer_writeLoop p 0 b of
        ((p1, nn), b1) \<Rightarrow>
          if w_err b1 \<noteq> None \<or> length p1 = 0 then ((nn, w_err b1), b1)
          else (case Writer_fill p1 b1 of (n, b2) \<Rightarrow> ((nn + n, None), b2)))"

definition Writer_WriteByte :: "char \<Rightarrow> Writer \<Rightarrow> io_error option \<times> Writer" where
  "Writer_WriteByte c b =
     (if w_err b \<noteq> None then (w_err b, b)
      else
        (case (if Writer_available b = 0 then Writer_flush b else (None, b)) of
           (Some _, b1) \<Rightarrow> (w_err b1, b1)
         | (None, b1) \<Rightarrow>
             (None, b1\<lparr>w_buf := (w_buf b1)[w_wpos b1 := c], w_wpos := w_wpos b1 + 1\<rparr>)))"

text \<open>
  \<open>WriteString\<close> has no shortcut past the buffer; with a buffer of size 0 its loop would not
  end, hence the option.
\<close>

partial_function (option) Writer_stringLoop ::
  "bytes \<Rightarrow> nat \<Rightarrow> Writer \<Rightarrow> ((bytes \<times> nat) \<times> Writer) option" where
  "Writer_stringLoop s nn b =
     (if w_err b = None \<and> length s > Writer_available b then
        (case Writer_fill s b of
           (n, b1) \<Rightarrow> Writer_stringLoop (drop n s) (nn + n) (snd (Writer_flush b1)))
      else Some ((s, nn), b))"

definition Writer_WriteString ::
  "bytes \<Rightarrow> Writer \<Rightarrow> ((nat \<times> io_error option) \<times> Writer) option" where
  "Writer_WriteString s b =
     (case Writer_stringLoop s 0 b of
        None \<Rightarrow> None
      | Some ((s1, nn), b1) \<Rightarrow>
          Some (if w_err b1 \<noteq> None \<or> length s1 = 0 then ((nn, w_err b1), b1)
                else (case Writer_fill s1 b1 of (n, b2) \<Rightarrow> ((nn + n, None), b2))))"

section \<open>What a reader delivers\<close>

text \<open>
  The bytes the wrapped reader delivers before its first error (or its first empty read, which
  \<open>fill\<close> turns into \<open>io.ErrNoProgress\<close>), and the stream of a reader: what is buffered, then
  what is delivered.
\<close>

fun delivered :: "rd_event list \<Rightarrow> bytes" where
  "delivered [] = []"
| "delivered (RdData d # es) = (if d = [] then [] else d @ delivered es)"
| "delivered (RdErr d e # es) = []"

definition stream :: "Reader \<Rightarrow> bytes" where
  "stream b = unread b @ delivered (r_rd b)"

definition reader_ok :: "Reader \<Rightarrow> bool" where
  "reader_ok b \<longleftrightarrow>
     r_err b = None \<and> r_rpos b \<le> r_wpos b \<and> r_wpos b \<le> length (r_buf b) \<and> r_buf b \<noteq> []"

definition reader_cap :: "Reader \<Rightarrow> nat" where
  "reader_cap b = length (r_buf b)"

text \<open>\<open>b'\<close> is \<open>b\<close> with the stream \<open>s\<close> left.\<close>

definition advanced :: "Reader \<Rightarrow> bytes \<Rightarrow> Reader \<Rightarrow> bool" where
  "advanced b s b' \<longleftrightarrow> reader_ok b' \<and> stream b' = s \<and> reader_cap b' = reader_cap b"

lemma rd_read_delivered:
  assumes "delivered es \<noteq> []" and "0 < k"
  obtains d es' where "rd_read k es = ((d, None), es')" "d \<noteq> []" "length d \<le> k"
    "delivered es = d @ delivered es'"
proof (cases es)
  case (Cons a es1)
  with assms(1) obtain d where d: "es = RdData d # es1" "d \<noteq> []"
    by (cases a) (auto split: if_splits)
  show ?thesis
  proof (cases "length d \<le> k")
    case True
    with d that show ?thesis by simp
  next
    case False
    with d that[of "take k d" "RdData (drop k d) # es1"] assms(2) show ?thesis by simp
  qed
qed (use assms in simp)

lemma reader_ok_unread:
  "reader_ok b \<Longrightarrow> length (unread b) = r_wpos b - r_rpos b"
  by (auto simp: reader_ok_def unread_def)

lemma reader_ok_buffered: "reader_ok b \<Longrightarrow> Reader_buffered b = length (unread b)"
  by (simp add: reader_ok_unread Reader_buffered_def)

lemma Reader_fill_ok:
  assumes ok: "reader_ok b" and more: "delivered (r_rd b) \<noteq> []"
    and room: "length (unread b) < length (r_buf b)"
  obtains b' where "Reader_fill b = (None, b')" "advanced b (stream b) b'"
    "length (unread b) < length (unread b')"
proof -
  define b1 where "b1 = (if r_rpos b > 0
      then b\<lparr>r_buf := go_copy (r_buf b) 0 (unread b), r_rpos := 0, r_wpos := length (unread b)\<rparr>
      else b)"
  have b1: "r_rpos b1 = 0" "r_wpos b1 = length (unread b)" "length (r_buf b1) = length (r_buf b)"
      "unread b1 = unread b" "r_rd b1 = r_rd b" "r_err b1 = None"
    using ok go_slice_copy0[of "unread b" "r_buf b"]
    by (auto simp: b1_def unread_def reader_ok_def)
  from more room obtain d es' where rd:
      "rd_read (length (r_buf b1) - r_wpos b1) (r_rd b1) = ((d, None), es')" "d \<noteq> []"
      "length d \<le> length (r_buf b1) - r_wpos b1" "delivered (r_rd b) = d @ delivered es'"
    by (metis b1(2,3,5) rd_read_delivered zero_less_diff)
  define b' where "b' = b1\<lparr>r_buf := go_copy (r_buf b1) (r_wpos b1) d, r_rd := es',
      r_wpos := r_wpos b1 + length d\<rparr>"
  have fill: "Reader_fill b = (None, b')"
    using ok rd(1,2) by (auto simp: Reader_fill_def b1_def[symmetric] b'_def Let_def reader_ok_def)
  have fits: "r_wpos b1 + length d \<le> length (r_buf b1)" using rd(3) room b1 by simp
  have "unread b' = unread b1 @ d"
    using fits b1(1) by (simp add: b'_def unread_def go_simps)
  then have un: "unread b' = unread b @ d" by (simp add: b1(4))
  have "length (r_buf b') = length (r_buf b)" "r_err b' = None" "r_rpos b' = 0" "r_rd b' = es'"
      "r_wpos b' \<le> length (r_buf b)"
    using fits b1(1,3,6) by (simp_all add: b'_def)
  then have "advanced b (stream b) b'"
    using un rd(4) ok by (auto simp: advanced_def reader_ok_def stream_def reader_cap_def)
  with fill un rd(2) that show ?thesis by simp
qed

text \<open>After the look into the buffer that \<open>ReadByte\<close> and \<open>PeekByte\<close> start with, there is a byte.\<close>

lemma Reader_ensure:
  assumes "reader_ok b" and "stream b \<noteq> []"
  obtains b1 where "(if Reader_buffered b = 0 then Reader_fill b else (None, b)) = (None, b1)"
    "advanced b (stream b) b1" "unread b1 \<noteq> []"
proof (cases "unread b = []")
  case True
  with assms have "delivered (r_rd b) \<noteq> []" "length (unread b) < length (r_buf b)"
    by (auto simp: stream_def reader_ok_def)
  with assms(1) obtain b1 where "Reader_fill b = (None, b1)" "advanced b (stream b) b1"
      "length (unread b) < length (unread b1)"
    by (metis Reader_fill_ok)
  with True assms(1) that show ?thesis by (auto simp: reader_ok_buffered)
next
  case False
  with assms(1) that[of b] show ?thesis by (auto simp: reader_ok_buffered advanced_def)
qed

lemma unread_head:
  assumes "reader_ok b" and "unread b \<noteq> []"
  shows "r_buf b ! r_rpos b = hd (stream b)" and "r_rpos b < r_wpos b"
proof -
  from assms show "r_rpos b < r_wpos b" by (auto simp: unread_def go_slice_def)
  with assms show "r_buf b ! r_rpos b = hd (stream b)"
    by (auto simp: stream_def unread_def go_slice_def reader_ok_def hd_append hd_drop_conv_nth)
qed

lemma advance_rpos:
  assumes "reader_ok b" and "k \<le> length (unread b)"
  shows "advanced b (drop k (stream b)) (b\<lparr>r_rpos := r_rpos b + k\<rparr>)"
  using assms by (auto simp: advanced_def reader_ok_def stream_def reader_cap_def unread_def go_simps)

lemma Reader_ReadByte_ok:
  assumes "reader_ok b" and "stream b = c # s"
  shows "\<exists>b'. Reader_ReadByte b = (Inr c, b') \<and> advanced b s b'"
proof -
  from assms obtain b1 where b1:
      "(if Reader_buffered b = 0 then Reader_fill b else (None, b)) = (None, b1)"
      "advanced b (stream b) b1" "unread b1 \<noteq> []"
    by (metis Reader_ensure list.distinct(1))
  from b1(2,3) have hd: "r_buf b1 ! r_rpos b1 = c"
    by (simp add: unread_head(1) advanced_def assms(2))
  have "advanced b1 (drop 1 (stream b1)) (b1\<lparr>r_rpos := r_rpos b1 + 1\<rparr>)"
    using b1(2,3) by (intro advance_rpos) (auto simp: advanced_def Suc_le_eq)
  then have "advanced b s (b1\<lparr>r_rpos := r_rpos b1 + 1\<rparr>)"
    using b1(2) assms(2) by (simp add: advanced_def)
  with b1(1) hd assms(1) show ?thesis
    by (auto simp: Reader_ReadByte_def reader_ok_def)
qed

lemma Reader_PeekByte_ok:
  assumes "reader_ok b" and "stream b = c # s"
  shows "\<exists>b'. Reader_PeekByte b = (Inr c, b') \<and> advanced b (c # s) b'"
proof -
  from assms obtain b1 where b1:
      "(if Reader_buffered b = 0 then Reader_fill b else (None, b)) = (None, b1)"
      "advanced b (stream b) b1" "unread b1 \<noteq> []"
    by (metis Reader_ensure list.distinct(1))
  from b1(2,3) have hd: "r_buf b1 ! r_rpos b1 = c"
    by (simp add: unread_head(1) advanced_def assms(2))
  with b1 assms show ?thesis
    by (auto simp: Reader_PeekByte_def reader_ok_def)
qed

lemma advanced_trans: "advanced b s b1 \<Longrightarrow> advanced b1 s' b2 \<Longrightarrow> advanced b s' b2"
  by (simp add: advanced_def)

lemma stream_prefix_unread:
  assumes "stream b = l @ c # s" and "c \<notin> set (unread b)"
  shows "length (unread b) \<le> length l" and "delivered (r_rd b) \<noteq> []"
  using prefix_without_delim[of "unread b" "delivered (r_rd b)" l c s] assms
  by (auto simp: stream_def)

lemma stream_found:
  assumes "stream b = l @ c # s" and "c \<notin> set l" and "IndexByte (unread b) c = Some i"
  shows "i = length l" and "i < length (unread b)" and "take (Suc i) (unread b) = l @ [c]"
proof -
  from IndexByte_SomeD[OF assms(3)] obtain t where t: "unread b = take i (unread b) @ c # t"
      "c \<notin> set (take i (unread b))" and i: "i < length (unread b)" by auto
  then have "IndexByte (stream b) c = Some i"
    by (metis IndexByte_append append.assoc append_Cons length_take less_imp_le_nat min.absorb2 stream_def)
  with assms(1,2) show il: "i = length l" by simp
  show "i < length (unread b)" by (rule i)
  have "take (Suc i) (stream b) = l @ [c]" by (simp add: assms(1) il)
  with i show "take (Suc i) (unread b) = l @ [c]" by (simp add: stream_def)
qed

lemma Reader_sliceLoop_ok:
  assumes "reader_ok b" and "stream b = l @ delim # s" and "delim \<notin> set l" and "length l < reader_cap b"
  shows "\<exists>b'. Reader_sliceLoop delim b = ((l @ [delim], None), b') \<and> advanced b s b'"
  using assms
proof (induction delim b rule: Reader_sliceLoop.induct)
  case (1 delim b)
  show ?case
  proof (cases "IndexByte (unread b) delim")
    case (Some i)
    note f = stream_found[OF 1(3,4) Some]
    let ?b' = "b\<lparr>r_rpos := r_rpos b + (i + 1)\<rparr>"
    have "advanced b (drop (i + 1) (stream b)) ?b'"
      using 1(2) f(2) by (intro advance_rpos) auto
    moreover have "go_slice (r_buf b) (r_rpos b) (r_rpos b + (i + 1)) = l @ [delim]"
      using f(2,3) go_slice_front[of "r_rpos b" "i + 1" "r_wpos b" "r_buf b"]
      by (auto simp: unread_def)
    ultimately show ?thesis using Some 1(3) f(1)
      by (simp add: Reader_sliceLoop.simps[of delim b] Let_def)
  next
    case None
    then have "delim \<notin> set (unread b)" by (simp add: IndexByte_None_iff)
    note p = stream_prefix_unread[OF 1(3) this]
    have room: "length (unread b) < length (r_buf b)" using p(1) 1(5) by (simp add: reader_cap_def)
    obtain b1 where b1: "Reader_fill b = (None, b1)" "advanced b (stream b) b1"
      using Reader_fill_ok[OF 1(2) p(2) room] by blast
    have "\<exists>b'. Reader_sliceLoop delim b1 = ((l @ [delim], None), b') \<and> advanced b1 s b'"
      using b1 room 1(2-5) None by (intro 1(1)) (auto simp: advanced_def reader_ok_buffered)
    moreover have "Reader_sliceLoop delim b = Reader_sliceLoop delim b1"
      using None room b1(1) 1(2) by (simp add: Reader_sliceLoop.simps[of delim b] reader_ok_buffered)
    ultimately show ?thesis using b1(2) advanced_trans by metis
  qed
qed

lemma Reader_sliceLoop_full:
  assumes "reader_ok b" and "stream b = l @ delim # s" and "delim \<notin> set l" and "reader_cap b \<le> length l"
  shows "\<exists>b'. Reader_sliceLoop delim b = ((take (reader_cap b) l, Some ErrBufferFull), b') \<and>
     advanced b (drop (reader_cap b) l @ delim # s) b'"
  using assms
proof (induction delim b rule: Reader_sliceLoop.induct)
  case (1 delim b)
  have None: "IndexByte (unread b) delim = None"
  proof (rule ccontr)
    assume "IndexByte (unread b) delim \<noteq> None"
    then obtain i where i: "IndexByte (unread b) delim = Some i" by auto
    note f = stream_found[OF 1(3,4) i]
    have "length (unread b) \<le> length (r_buf b)" by (simp add: unread_def)
    with f 1(5) show False by (simp add: reader_cap_def)
  qed
  show ?case
  proof (cases "length (unread b) = length (r_buf b)")
    case True
    with 1(2) have pos: "r_rpos b = 0" "r_wpos b = length (r_buf b)"
      by (auto simp: reader_ok_unread reader_ok_def)
    then have un: "unread b = r_buf b" by (simp add: unread_def go_simps)
    have st: "take (reader_cap b) l = r_buf b"
        "drop (reader_cap b) l @ delim # s = drop (length (unread b)) (stream b)"
      using 1(3,5) un by (auto simp: stream_def reader_cap_def append_eq_append_conv_if)
    have "advanced b (drop (length (unread b)) (stream b)) (b\<lparr>r_rpos := r_rpos b + length (unread b)\<rparr>)"
      by (rule advance_rpos[OF 1(2)]) simp
    then show ?thesis using None True 1(2) pos un st
      by (simp add: Reader_sliceLoop.simps[of delim b] reader_ok_buffered)
  next
    case False
    then have room: "length (unread b) < length (r_buf b)" by (simp add: unread_def)
    from None have "delim \<notin> set (unread b)" by (simp add: IndexByte_None_iff)
    note p = stream_prefix_unread[OF 1(3) this]
    obtain b1 where b1: "Reader_fill b = (None, b1)" "advanced b (stream b) b1"
      using Reader_fill_ok[OF 1(2) p(2) room] by blast
    have cap: "reader_cap b1 = reader_cap b" using b1(2) by (simp add: advanced_def)
    have "\<exists>b'. Reader_sliceLoop delim b1 = ((take (reader_cap b1) l, Some ErrBufferFull), b') \<and>
        advanced b1 (drop (reader_cap b1) l @ delim # s) b'"
      using b1 room 1(2-5) None by (intro 1(1)) (auto simp: advanced_def reader_ok_buffered)
    moreover have "Reader_sliceLoop delim b = Reader_sliceLoop delim b1"
      using None room b1(1) 1(2) by (simp add: Reader_sliceLoop.simps[of delim b] reader_ok_buffered)
    ultimately show ?thesis using b1(2) cap advanced_trans by metis
  qed
qed

lemma advanced_slice [simp]: "advanced b s (b'\<lparr>r_slice := x\<rparr>) = advanced b s b'"
  "advanced (b\<lparr>r_slice := x\<rparr>) s b' = advanced b s b'"
  "reader_ok (b\<lparr>r_slice := x\<rparr>) = reader_ok b" "stream (b\<lparr>r_slice := x\<rparr>) = stream b"
  "reader_cap (b\<lparr>r_slice := x\<rparr>) = reader_cap b"
  by (auto simp: advanced_def reader_ok_def stream_def reader_cap_def unread_def)

lemma Reader_bytesLoop_ok:
  assumes "reader_ok b" and "stream b = l @ delim # s" and "delim \<notin> set l"
  shows "\<exists>b'. Reader_bytesLoop delim full sz b = Some (Inr (concat full @ l @ [delim]), b') \<and>
     advanced b s b'"
  using assms
proof (induction "length l" arbitrary: l b full sz rule: less_induct)
  case less
  have slice: "Reader_ReadSlice delim b = Reader_sliceLoop delim b"
    using less.prems(1) by (simp add: Reader_ReadSlice_def reader_ok_def)
  show ?case
  proof (cases "length l < reader_cap b")
    case True
    then obtain b' where "Reader_sliceLoop delim b = ((l @ [delim], None), b')" "advanced b s b'"
      using Reader_sliceLoop_ok[OF less.prems] by blast
    then show ?thesis
      by (auto simp: Reader_bytesLoop.simps[of delim full sz b] slice split: prod.splits)
  next
    case False
    then obtain b1 where b1: "Reader_sliceLoop delim b = ((take (reader_cap b) l, Some ErrBufferFull), b1)"
        "advanced b (drop (reader_cap b) l @ delim # s) b1"
      using Reader_sliceLoop_full[OF less.prems] by (metis not_less)
    obtain r sl where sl: "sliceAlloc_Make (length (take (reader_cap b) l)) (r_slice b1) = (r, sl)"
      by (metis prod.exhaust)
    let ?l = "drop (reader_cap b) l"
    have "length ?l < length l"
      using False less.prems(1) by (cases "r_buf b") (auto simp: reader_ok_def reader_cap_def)
    moreover have "delim \<notin> set ?l" using less.prems(3) by (auto dest: in_set_dropD)
    ultimately have "\<exists>b'. Reader_bytesLoop delim (full @ [take (reader_cap b) l])
         (sz + length (take (reader_cap b) l)) (b1\<lparr>r_slice := sl\<rparr>) =
         Some (Inr (concat (full @ [take (reader_cap b) l]) @ ?l @ [delim]), b') \<and>
         advanced (b1\<lparr>r_slice := sl\<rparr>) s b'"
      using b1(2) by (intro less.hyps) (auto simp: advanced_def)
    then show ?thesis using b1 sl advanced_trans[OF b1(2)]
      by (auto simp: Reader_bytesLoop.simps[of delim full sz b] slice)
  qed
qed


lemma Reader_copyOut_ok:
  assumes "reader_ok b" and "unread b \<noteq> []" and "0 < k"
  obtains d b' where "Reader_copyOut k b = ((d, None), b')" "d \<noteq> []" "length d \<le> k"
    "stream b = d @ stream b'" "advanced b (stream b') b'"
proof -
  let ?d = "take k (unread b)"
  have "advanced b (drop (length ?d) (stream b)) (b\<lparr>r_rpos := r_rpos b + length ?d\<rparr>)"
    by (rule advance_rpos[OF assms(1)]) simp
  moreover have "stream b = ?d @ drop (length ?d) (stream b)"
    by (auto simp: stream_def min_def)
  ultimately show ?thesis
    using that[of ?d "b\<lparr>r_rpos := r_rpos b + length ?d\<rparr>"] assms(2,3)
    by (auto simp: Reader_copyOut_def Let_def advanced_def)
qed

lemma Reader_Read_ok:
  assumes "reader_ok b" and "stream b \<noteq> []" and "0 < k"
  obtains d b' where "Reader_Read k b = ((d, None), b')" "d \<noteq> []" "length d \<le> k"
    "stream b = d @ stream b'" "advanced b (stream b') b'"
proof (cases "unread b = []")
  case False
  then have "Reader_Read k b = Reader_copyOut k b"
    using assms by (auto simp: Reader_Read_def reader_ok_buffered reader_ok_def)
  with Reader_copyOut_ok[OF assms(1) False assms(3)] that show ?thesis by metis
next
  case True
  then have more: "delivered (r_rd b) \<noteq> []" and room: "length (unread b) < length (r_buf b)"
    using assms(1,2) by (auto simp: stream_def reader_ok_def)
  show ?thesis
  proof (cases "length (r_buf b) \<le> k")
    case direct: True
    obtain d es' where rd: "rd_read k (r_rd b) = ((d, None), es')" "d \<noteq> []" "length d \<le> k"
        "delivered (r_rd b) = d @ delivered es'"
      using rd_read_delivered[OF more assms(3)] by blast
    have "Reader_Read k b = ((d, None), b\<lparr>r_rd := es'\<rparr>)"
      using assms True direct rd(1)
      by (auto simp: Reader_Read_def reader_ok_buffered) (auto simp: reader_ok_def)
    moreover have "stream b = d @ stream (b\<lparr>r_rd := es'\<rparr>)"
        "advanced b (stream (b\<lparr>r_rd := es'\<rparr>)) (b\<lparr>r_rd := es'\<rparr>)"
      using True rd(4) assms(1)
      by (auto simp: stream_def unread_def advanced_def reader_ok_def reader_cap_def)
    ultimately show ?thesis using that rd(2,3) by blast
  next
    case False
    obtain b1 where b1: "Reader_fill b = (None, b1)" "advanced b (stream b) b1"
        "length (unread b) < length (unread b1)"
      using Reader_fill_ok[OF assms(1) more room] by blast
    then have "reader_ok b1" "unread b1 \<noteq> []" by (auto simp: advanced_def)
    then obtain d b' where c: "Reader_copyOut k b1 = ((d, None), b')" "d \<noteq> []" "length d \<le> k"
        "stream b1 = d @ stream b'" "advanced b1 (stream b') b'"
      using Reader_copyOut_ok assms(3) by metis
    moreover have "Reader_Read k b = Reader_copyOut k b1"
      using assms True False b1(1) by (auto simp: Reader_Read_def reader_ok_buffered) (auto simp: reader_ok_def)
    ultimately show ?thesis using that[of d b'] b1(2) by (simp add: advanced_def)
  qed
qed

lemma Reader_fullLoop_ok:
  assumes "reader_ok b" and "length acc < n" and "n - length acc \<le> length (stream b)"
  shows "\<exists>b'. Reader_fullLoop n acc b = Some (Inr (acc @ take (n - length acc) (stream b)), b') \<and>
     advanced b (drop (n - length acc) (stream b)) b'"
  using assms
proof (induction "n - length acc" arbitrary: acc b rule: less_induct)
  case less
  from less.prems have "stream b \<noteq> []" "0 < n - length acc" by auto
  then obtain d b1 where rd: "Reader_Read (n - length acc) b = ((d, None), b1)" "d \<noteq> []"
      "length d \<le> n - length acc" "stream b = d @ stream b1" "advanced b (stream b1) b1"
    using Reader_Read_ok[OF less.prems(1)] by metis
  show ?case
  proof (cases "length (acc @ d) \<ge> n")
    case True
    with rd show ?thesis by (auto simp: Reader_fullLoop.simps[of n acc b])
  next
    case False
    then have "\<exists>b'. Reader_fullLoop n (acc @ d) b1 =
         Some (Inr ((acc @ d) @ take (n - length (acc @ d)) (stream b1)), b') \<and>
         advanced b1 (drop (n - length (acc @ d)) (stream b1)) b'"
      using rd less.prems length_greater_0_conv[of d]
      by (intro less.hyps) (auto simp: advanced_def simp del: length_greater_0_conv)
    then show ?thesis using False rd advanced_trans[OF rd(5)]
      by (auto simp: Reader_fullLoop.simps[of n acc b])
  qed
qed

text \<open>
  The interface a reader offers its clients: which bytes are still to come, and that every
  operation returns and takes exactly the bytes it is specified to take.
\<close>

locale byte_reader =
  fixes ok :: "'r \<Rightarrow> bool"
    and cap :: "'r \<Rightarrow> nat"
    and strm :: "'r \<Rightarrow> bytes"
    and readByte :: "'r \<Rightarrow> (io_error + char) \<times> 'r"
    and peekByte :: "'r \<Rightarrow> (io_error + char) \<times> 'r"
    and readSlice :: "char \<Rightarrow> 'r \<Rightarrow> (bytes \<times> io_error option) \<times> 'r"
    and readBytes :: "char \<Rightarrow> 'r \<Rightarrow> ((io_error + bytes) \<times> 'r) option"
    and readFull :: "nat \<Rightarrow> 'r \<Rightarrow> ((io_error + bytes) \<times> 'r) option"
  assumes readByte_law: "ok r \<Longrightarrow> strm r = c # s \<Longrightarrow>
      \<exists>r'. readByte r = (Inr c, r') \<and> ok r' \<and> strm r' = s \<and> cap r' = cap r"
    and peekByte_law: "ok r \<Longrightarrow> strm r = c # s \<Longrightarrow>
      \<exists>r'. peekByte r = (Inr c, r') \<and> ok r' \<and> strm r' = c # s \<and> cap r' = cap r"
    and readSlice_law: "ok r \<Longrightarrow> strm r = l @ c # s \<Longrightarrow> c \<notin> set l \<Longrightarrow> length l < cap r \<Longrightarrow>
      \<exists>r'. readSlice c r = ((l @ [c], None), r') \<and> ok r' \<and> strm r' = s \<and> cap r' = cap r"
    and readBytes_law: "ok r \<Longrightarrow> strm r = l @ c # s \<Longrightarrow> c \<notin> set l \<Longrightarrow>
      \<exists>r'. readBytes c r = Some (Inr (l @ [c]), r') \<and> ok r' \<and> strm r' = s \<and> cap r' = cap r"
    and readFull_law: "ok r \<Longrightarrow> strm r = d @ s \<Longrightarrow> d \<noteq> [] \<Longrightarrow>
      \<exists>r'. readFull (length d) r = Some (Inr d, r') \<and> ok r' \<and> strm r' = s \<and> cap r' = cap r"
begin

text \<open>Lines that end in CR LF, read whole, and blocks of a known length followed by CR LF.\<close>

lemma read_line_slice:
  assumes "ok r" and "strm r = l @ ''\<newline>'' @ s" and "CHR ''\<newline>'' \<notin> set l" and "length l < cap r"
  obtains r' where "readSlice (CHR ''\<newline>'') r = ((l @ ''\<newline>'', None), r')" "ok r'" "strm r' = s"
    "cap r' = cap r"
  using readSlice_law[of r l "CHR ''\<newline>''" s] assms by auto

lemma read_line_bytes:
  assumes "ok r" and "strm r = l @ ''\<newline>'' @ s" and "CHR ''\<newline>'' \<notin> set l"
  obtains r' where "readBytes (CHR ''\<newline>'') r = Some (Inr (l @ ''\<newline>''), r')" "ok r'" "strm r' = s"
    "cap r' = cap r"
  using readBytes_law[of r l "CHR ''\<newline>''" s] assms by auto

lemma peek_then_read:
  assumes "ok r" and "strm r = c # s"
  obtains r1 r2 where "peekByte r = (Inr c, r1)" "readByte r1 = (Inr c, r2)" "ok r2" "strm r2 = s"
    "cap r2 = cap r"
  using peekByte_law[OF assms] readByte_law by metis

end

interpretation br: byte_reader reader_ok reader_cap stream Reader_ReadByte Reader_PeekByte
  Reader_ReadSlice Reader_ReadBytes Reader_ReadFull
proof unfold_locales
  fix r c s
  assume r: "reader_ok r" "stream r = c # s"
  from Reader_ReadByte_ok[OF r] show "\<exists>r'. Reader_ReadByte r = (Inr c, r') \<and> reader_ok r' \<and>
      stream r' = s \<and> reader_cap r' = reader_cap r" by (auto simp: advanced_def)
  from Reader_PeekByte_ok[OF r] show "\<exists>r'. Reader_PeekByte r = (Inr c, r') \<and> reader_ok r' \<and>
      stream r' = c # s \<and> reader_cap r' = reader_cap r" by (auto simp: advanced_def)
next
  fix r l c s
  assume r: "reader_ok r" "stream r = l @ c # s" "c \<notin> set l"
  from Reader_bytesLoop_ok[OF r, of "[]" 0]
  show "\<exists>r'. Reader_ReadBytes c r = Some (Inr (l @ [c]), r') \<and> reader_ok r' \<and> stream r' = s \<and>
      reader_cap r' = reader_cap r" by (auto simp: Reader_ReadBytes_def advanced_def)
  assume "length l < reader_cap r"
  from Reader_sliceLoop_ok[OF r this] r(1)
  show "\<exists>r'. Reader_ReadSlice c r = ((l @ [c], None), r') \<and> reader_ok r' \<and> stream r' = s \<and>
      reader_cap r' = reader_cap r"
    by (auto simp: Reader_ReadSlice_def advanced_def reader_ok_def)
next
  fix r d s
  assume r: "reader_ok r" "stream r = d @ s" "d \<noteq> []"
  obtain x sl where sl: "sliceAlloc_Make (length d) (r_slice r) = (x, sl)" by (metis prod.exhaust)
  have "\<exists>b'. Reader_fullLoop (length d) [] (r\<lparr>r_slice := sl\<rparr>) = Some (Inr d, b') \<and>
      advanced (r\<lparr>r_slice := sl\<rparr>) s b'"
    using Reader_fullLoop_ok[of "r\<lparr>r_slice := sl\<rparr>" "[]" "length d"] r by simp
  then show "\<exists>r'. Reader_ReadFull (length d) r = Some (Inr d, r') \<and> reader_ok r' \<and> stream r' = s \<and>
      reader_cap r' = reader_cap r"
    using r sl by (auto simp: Reader_ReadFull_def advanced_def reader_ok_def)
qed

section \<open>What a writer puts on the wire\<close>

text \<open>
  \<open>written L b\<close>: the bytes \<open>L\<close> have been handed to the writer so far.  What the wrapped
  writer has accepted is a prefix of \<open>L\<close>; without an error, that and the buffer are all of
  \<open>L\<close>.  A writer whose wrapped writer accepts everything is \<open>writer_healthy\<close>.
\<close>

definition writer_acc :: "Writer \<Rightarrow> bytes" where
  "writer_acc b = w_out b @ take (w_wpos b) (w_buf b)"

definition written :: "bytes \<Rightarrow> Writer \<Rightarrow> bool" where
  "written L b \<longleftrightarrow> w_wpos b \<le> length (w_buf b) \<and> w_buf b \<noteq> [] \<and> prefix (w_out b) L \<and>
     (w_err b = None \<longrightarrow> writer_acc b = L)"

definition writer_healthy :: "Writer \<Rightarrow> bool" where
  "writer_healthy b \<longleftrightarrow> w_err b = None \<and> set (w_script b) \<subseteq> {WrAll}"

lemma written_append: "written L b \<Longrightarrow> w_err b \<noteq> None \<Longrightarrow> written (L @ p) b"
  by (auto simp: written_def)

lemma take_go_copy:
  "i + length src \<le> length dst \<Longrightarrow> take (i + length src) (go_copy dst i src) = take i dst @ src"
  by (simp add: go_copy_def)

lemma take_take_drop: "(L @ take n p) @ take k (drop n p) = L @ take (n + k) p"
  by (simp add: take_add)

lemma drop_drop_add: "drop k (drop n p) = drop (n + k) p"
  by (simp add: add.commute)

lemma Writer_fill_written:
  assumes "written L b" and "Writer_fill p b = (n, b1)"
  shows "written (L @ take n p) b1" and "w_err b1 = w_err b" and "w_script b1 = w_script b"
    and "n = min (Writer_available b) (length p)" and "length (w_buf b1) = length (w_buf b)"
    and "w_wpos b1 = w_wpos b + n"
proof -
  let ?n = "min (Writer_available b) (length p)"
  from assms have wf: "w_wpos b + ?n \<le> length (w_buf b)"
    by (auto simp: written_def Writer_available_def)
  from assms(2) have b1: "n = ?n"
      "b1 = b\<lparr>w_buf := go_copy (w_buf b) (w_wpos b) (take ?n p), w_wpos := w_wpos b + ?n\<rparr>"
    by (auto simp: Writer_fill_def Let_def)
  show n: "n = ?n" by (fact b1(1))
  show "w_err b1 = w_err b" "w_script b1 = w_script b" "w_wpos b1 = w_wpos b + n"
    by (simp_all add: b1)
  show l: "length (w_buf b1) = length (w_buf b)"
    using wf by (simp add: b1(2) length_go_copy)
  have "take (w_wpos b1) (w_buf b1) = take (w_wpos b) (w_buf b) @ take n p"
    using take_go_copy[of "w_wpos b" "take ?n p" "w_buf b"] wf by (simp add: b1)
  with wf l assms(1) show "written (L @ take n p) b1"
    by (auto simp: written_def writer_acc_def b1 simp flip: length_greater_0_conv intro: prefix_prefix)
qed

lemma wr_write_healthy:
  "set es \<subseteq> {WrAll} \<Longrightarrow> \<exists>es'. wr_write p es = ((length p, None), es') \<and> set es' \<subseteq> {WrAll}"
  by (cases es) auto

lemma Writer_flush_written:
  assumes "written L b" and "Writer_flush b = (err, b1)"
  shows "written L b1" and "err = w_err b1" and "err = None \<Longrightarrow> w_out b1 = L \<and> w_wpos b1 = 0"
    and "length (w_buf b1) = length (w_buf b)" and "writer_healthy b \<Longrightarrow> writer_healthy b1"
proof -
  obtain n err1 wr' where wr: "wr_write (take (w_wpos b) (w_buf b)) (w_script b) = ((n, err1), wr')"
    by (metis prod.exhaust)
  have n: "n \<le> w_wpos b" using wr_write_script[OF wr] assms(1) by (auto simp: written_def)
  have h: "writer_healthy b \<Longrightarrow> err1 = None \<and> n = w_wpos b \<and> set wr' \<subseteq> {WrAll}"
    using wr wr_write_healthy[of "w_script b" "take (w_wpos b) (w_buf b)"] assms(1)
    by (auto simp: writer_healthy_def written_def)
  have p: "w_err b = None \<Longrightarrow> prefix (w_out b @ take n (take (w_wpos b) (w_buf b))) L"
    using assms(1) take_is_prefix[of n "take (w_wpos b) (w_buf b)"]
    by (auto simp: written_def writer_acc_def)
  show "written L b1" "err = w_err b1" "err = None \<Longrightarrow> w_out b1 = L \<and> w_wpos b1 = 0"
       "length (w_buf b1) = length (w_buf b)"
    using assms wr n p
    by (auto simp: Writer_flush_def written_def Let_def writer_acc_def split: option.splits if_splits)
  show "writer_healthy b1" if "writer_healthy b"
    using assms wr n h[OF that] that
    by (auto simp: Writer_flush_def Let_def writer_healthy_def split: if_splits)
qed

lemma Writer_writeLoop_written:
  assumes "written L b" and "Writer_writeLoop p nn b = ((p1, nn1), b1)"
  shows "\<exists>k \<le> length p. p1 = drop k p \<and> nn1 = nn + k \<and> written (L @ take k p) b1 \<and>
     (w_err b1 = None \<longrightarrow> length p1 \<le> Writer_available b1) \<and> (writer_healthy b \<longrightarrow> writer_healthy b1)"
  using assms
proof (induction p nn b arbitrary: L rule: Writer_writeLoop.induct)
  case (1 p nn b)
  consider (stop) "\<not> (w_err b = None \<and> length p > Writer_available b)"
    | (direct) "w_err b = None" "length p > Writer_available b" "w_wpos b = 0"
    | (fill) "w_err b = None" "length p > Writer_available b" "w_wpos b \<noteq> 0"
    by blast
  then show ?case
  proof cases
    case stop
    with 1(4) have "p1 = p" "nn1 = nn" "b1 = b"
      by (auto simp: Writer_writeLoop.simps[of p nn b])
    with stop 1(3) show ?thesis by (intro exI[of _ 0]) auto
  next
    case direct
    obtain n err wr' where wr: "wr_write p (w_script b) = ((n, err), wr')" by (metis prod.exhaust)
    let ?b = "b\<lparr>w_out := w_out b @ take n p, w_script := wr', w_err := err\<rparr>"
    have n: "n \<le> length p" using wr_write_script[OF wr] by simp
    have "w_out b = L" using 1(3) direct by (simp add: written_def writer_acc_def)
    then have "written (L @ take n p) ?b"
      using 1(3) direct by (auto simp: written_def writer_acc_def)
    moreover have "Writer_writeLoop (drop n p) (nn + n) ?b = ((p1, nn1), b1)"
      using 1(4) direct wr by (simp add: Writer_writeLoop.simps[of p nn b])
    moreover have "writer_healthy b \<longrightarrow> writer_healthy ?b"
      using wr wr_write_healthy[of "w_script b" p] by (auto simp: writer_healthy_def)
    moreover have "w_err b = None \<and> Writer_available b < length p" using direct by simp
    note 1(1)[OF this direct(3) wr[symmetric] refl]
    ultimately obtain k where "k \<le> length (drop n p)" "p1 = drop (n + k) p" "nn1 = nn + n + k"
        "written (L @ take (n + k) p) b1"
        "w_err b1 = None \<longrightarrow> length p1 \<le> Writer_available b1" "writer_healthy b \<longrightarrow> writer_healthy b1"
      unfolding drop_drop_add take_take_drop[symmetric] by meson
    with n show ?thesis by (intro exI[of _ "n + k"]) auto
  next
    case fill
    obtain n b2 where f: "Writer_fill p b = (n, b2)" by (metis prod.exhaust)
    obtain err b3 where fl: "Writer_flush b2 = (err, b3)" by (metis prod.exhaust)
    note w2 = Writer_fill_written[OF 1(3) f]
    note w3 = Writer_flush_written[OF w2(1) fl]
    have h: "writer_healthy b \<longrightarrow> writer_healthy b3"
      using w3(5) w2(2,3) by (auto simp: writer_healthy_def)
    have "Writer_writeLoop (drop n p) (nn + n) b3 = ((p1, nn1), b1)"
      using 1(4) fill f fl by (simp add: Writer_writeLoop.simps[of p nn b])
    then obtain k where "k \<le> length (drop n p)" "p1 = drop (n + k) p" "nn1 = nn + n + k"
        "written (L @ take (n + k) p) b1"
        "w_err b1 = None \<longrightarrow> length p1 \<le> Writer_available b1" "writer_healthy b \<longrightarrow> writer_healthy b1"
      using 1(2)[of n b2 "L @ take n p"] fill f fl w3(1) h
      unfolding take_take_drop drop_drop_add by fastforce
    with w2(4) show ?thesis by (intro exI[of _ "n + k"]) auto
  qed
qed

text \<open>The end of \<open>Write\<close> and \<open>WriteString\<close>: what is left fits into the buffer.\<close>

lemma write_tail:
  assumes "written (L @ take k p) b" and "k \<le> length p" and "p1 = drop k p"
    and "w_err b = None \<longrightarrow> length p1 \<le> Writer_available b"
    and "(if w_err b \<noteq> None \<or> length p1 = 0 then ((k, w_err b), b)
          else (case Writer_fill p1 b of (n, b2) \<Rightarrow> ((k + n, None), b2))) = ((nn, err), b')"
  shows "written (L @ p) b' \<and> err = w_err b' \<and> (err = None \<longrightarrow> nn = length p) \<and>
     (writer_healthy b \<longrightarrow> writer_healthy b')"
proof (cases "w_err b \<noteq> None \<or> length p1 = 0")
  case True
  with assms written_append[of "L @ take k p" b "drop k p"] show ?thesis by auto
next
  case False
  obtain n b2 where f: "Writer_fill p1 b = (n, b2)" by (metis prod.exhaust)
  note w = Writer_fill_written[OF assms(1) f]
  have "n = length p1" using w(4) assms(4) False by auto
  with False f w assms(2,3,5) show ?thesis by (auto simp: writer_healthy_def)
qed

lemma Writer_Write_written:
  assumes "written L b" and "Writer_Write p b = ((nn, err), b')"
  shows "written (L @ p) b' \<and> err = w_err b' \<and> (err = None \<longrightarrow> nn = length p) \<and>
     (writer_healthy b \<longrightarrow> writer_healthy b')"
proof -
  obtain p1 k b1 where loop: "Writer_writeLoop p 0 b = ((p1, k), b1)" by (metis prod.exhaust)
  from Writer_writeLoop_written[OF assms(1) loop]
  have k: "k \<le> length p" "p1 = drop k p" "written (L @ take k p) b1"
      "w_err b1 = None \<longrightarrow> length p1 \<le> Writer_available b1" "writer_healthy b \<longrightarrow> writer_healthy b1"
    by auto
  show ?thesis
    using write_tail[OF k(3,1,2,4), of nn err b'] assms(2) loop k(5)
    unfolding Writer_Write_def by simp
qed

lemma take_Suc_update: "i < length xs \<Longrightarrow> take (Suc i) (xs[i := c]) = take i xs @ [c]"
  by (simp add: take_Suc_conv_app_nth)

lemma Writer_WriteByte_written:
  assumes "written L b" and "Writer_WriteByte c b = (err, b')"
  shows "written (L @ [c]) b' \<and> err = w_err b' \<and> (writer_healthy b \<longrightarrow> writer_healthy b')"
proof (cases "w_err b")
  case (Some e)
  then have "b' = b" "err = w_err b" using assms(2) by (auto simp: Writer_WriteByte_def)
  with Some assms(1) written_append[of L b "[c]"] show ?thesis by simp
next
  case None
  obtain e b1 where f: "(if Writer_available b = 0 then Writer_flush b else (None, b)) = (e, b1)"
    by (metis prod.exhaust)
  have w1: "written L b1 \<and> e = w_err b1 \<and> (e = None \<longrightarrow> w_wpos b1 < length (w_buf b1)) \<and>
      (writer_healthy b \<longrightarrow> writer_healthy b1)"
  proof (cases "Writer_available b = 0")
    case True
    with f have "Writer_flush b = (e, b1)" by simp
    note w = Writer_flush_written[OF assms(1) this]
    with assms(1) show ?thesis by (auto simp: written_def)
  next
    case False
    with f None assms(1) show ?thesis by (simp add: Writer_available_def)
  qed
  show ?thesis
  proof (cases e)
    case (Some x)
    then have "b' = b1" "err = w_err b1" using assms(2) None f by (auto simp: Writer_WriteByte_def)
    with Some w1 written_append[of L b1 "[c]"] show ?thesis by simp
  next
    case e: None
    with assms(2) None f have b': "err = None"
        "b' = b1\<lparr>w_buf := (w_buf b1)[w_wpos b1 := c], w_wpos := w_wpos b1 + 1\<rparr>"
      by (auto simp: Writer_WriteByte_def)
    show ?thesis
      using e w1 take_Suc_update[of "w_wpos b1" "w_buf b1" c]
      by (auto simp: b' written_def writer_acc_def writer_healthy_def prefix_prefix)
  qed
qed

lemma Writer_stringLoop_written:
  assumes "written L b"
  shows "\<exists>s1 k b1. Writer_stringLoop s nn b = Some ((s1, nn + k), b1) \<and> k \<le> length s \<and> s1 = drop k s \<and>
     written (L @ take k s) b1 \<and> (w_err b1 = None \<longrightarrow> length s1 \<le> Writer_available b1) \<and>
     (writer_healthy b \<longrightarrow> writer_healthy b1)"
  using assms
proof (induction "2 * length s + (if w_wpos b = 0 \<or> w_err b \<noteq> None then 0 else 1)" arbitrary: s nn b L rule: less_induct)
  case less
  show ?case
  proof (cases "w_err b = None \<and> length s > Writer_available b")
    case False
    then show ?thesis using less.prems
      by (auto simp: Writer_stringLoop.simps[of s nn b] intro!: exI[of _ 0])
  next
    case True
    obtain n b2 where f: "Writer_fill s b = (n, b2)" by (metis prod.exhaust)
    obtain err b3 where fl: "Writer_flush b2 = (err, b3)" by (metis prod.exhaust)
    note w2 = Writer_fill_written[OF less.prems f]
    note w3 = Writer_flush_written[OF w2(1) fl]
    have h: "writer_healthy b \<longrightarrow> writer_healthy b3"
      using w3(5) w2(2,3) by (auto simp: writer_healthy_def)
    have "w_wpos b3 = 0 \<or> w_err b3 \<noteq> None" using w3(2,3) by auto
    moreover have "0 < n \<or> w_wpos b \<noteq> 0" "n \<le> length s"
      using w2(4) True less.prems by (auto simp: Writer_available_def written_def)
    ultimately obtain s1 k b1 where
        "Writer_stringLoop (drop n s) (nn + n) b3 = Some ((s1, nn + n + k), b1)"
        "k \<le> length (drop n s)" "s1 = drop (n + k) s" "written (L @ take (n + k) s) b1"
        "w_err b1 = None \<longrightarrow> length s1 \<le> Writer_available b1" "writer_healthy b3 \<longrightarrow> writer_healthy b1"
      using less.hyps[of "drop n s" b3 "L @ take n s" "nn + n"] True w3(1)
      unfolding take_take_drop drop_drop_add by fastforce
    with True f fl h w2(4) show ?thesis
      by (intro exI[of _ s1] exI[of _ "n + k"] exI[of _ b1])
        (auto simp: Writer_stringLoop.simps[of s nn b] add.assoc)
  qed
qed

lemma Writer_WriteString_written:
  assumes "written L b"
  shows "\<exists>nn err b'. Writer_WriteString s b = Some ((nn, err), b') \<and> written (L @ s) b' \<and>
     err = w_err b' \<and> (err = None \<longrightarrow> nn = length s) \<and> (writer_healthy b \<longrightarrow> writer_healthy b')"
proof -
  obtain s1 k b1 where loop: "Writer_stringLoop s 0 b = Some ((s1, k), b1)" "k \<le> length s"
      "s1 = drop k s" "written (L @ take k s) b1"
      "w_err b1 = None \<longrightarrow> length s1 \<le> Writer_available b1" "writer_healthy b \<longrightarrow> writer_healthy b1"
    using Writer_stringLoop_written[OF assms, of s 0] by auto
  obtain nn err b' where tail: "(if w_err b1 \<noteq> None \<or> length s1 = 0 then ((k, w_err b1), b1)
          else (case Writer_fill s1 b1 of (n, b2) \<Rightarrow> ((k + n, None), b2))) = ((nn, err), b')"
    by (metis prod.exhaust)
  from write_tail[OF loop(4,2,3,5) tail] tail loop(1,6) show ?thesis
    by (auto simp: Writer_WriteString_def)
qed

text \<open>
  What a client of a writer relies on: each operation appends to what has been handed over, an
  error is sticky and reported, a flush without an error puts everything on the wire, and a
  healthy writer stays healthy.
\<close>

locale byte_writer =
  fixes handed :: "bytes \<Rightarrow> 'w \<Rightarrow> bool"
    and healthy :: "'w \<Rightarrow> bool"
    and sent :: "'w \<Rightarrow> bytes"
    and failed :: "'w \<Rightarrow> io_error option"
    and put :: "bytes \<Rightarrow> 'w \<Rightarrow> (nat \<times> io_error option) \<times> 'w"
    and writeByte :: "char \<Rightarrow> 'w \<Rightarrow> io_error option \<times> 'w"
    and writeString :: "bytes \<Rightarrow> 'w \<Rightarrow> ((nat \<times> io_error option) \<times> 'w) option"
    and flush :: "'w \<Rightarrow> io_error option \<times> 'w"
  assumes write_law: "handed L w \<Longrightarrow> put p w = ((nn, e), w') \<Longrightarrow>
      handed (L @ p) w' \<and> e = failed w' \<and> (healthy w \<longrightarrow> healthy w')"
    and writeByte_law: "handed L w \<Longrightarrow> writeByte c w = (e, w') \<Longrightarrow>
      handed (L @ [c]) w' \<and> e = failed w' \<and> (healthy w \<longrightarrow> healthy w')"
    and writeString_law: "handed L w \<Longrightarrow> \<exists>nn e w'. writeString p w = Some ((nn, e), w') \<and>
      handed (L @ p) w' \<and> e = failed w' \<and> (healthy w \<longrightarrow> healthy w')"
    and flush_law: "handed L w \<Longrightarrow> flush w = (e, w') \<Longrightarrow>
      handed L w' \<and> e = failed w' \<and> (e = None \<longrightarrow> sent w' = L) \<and> (healthy w \<longrightarrow> healthy w')"
    and sent_law: "handed L w \<Longrightarrow> prefix (sent w) L"
    and healthy_law: "healthy w \<Longrightarrow> failed w = None"
begin

text \<open>Everything a healthy writer was handed is on the wire after a flush.\<close>

lemma flush_healthy:
  assumes "handed L w" and "healthy w"
  obtains w' where "flush w = (None, w')" "sent w' = L" "handed L w'" "healthy w'"
  using flush_law[OF assms(1)] healthy_law assms(2) by (metis prod.exhaust)

lemma write_healthy:
  assumes "handed L w" and "healthy w"
  obtains nn w' where "put p w = ((nn, None), w')" "handed (L @ p) w'" "healthy w'"
  using write_law[OF assms(1)] healthy_law assms(2) by (metis prod.exhaust)

lemma writeByte_healthy:
  assumes "handed L w" and "healthy w"
  obtains w' where "writeByte c w = (None, w')" "handed (L @ [c]) w'" "healthy w'"
  using writeByte_law[OF assms(1)] healthy_law assms(2) by (metis prod.exhaust)

lemma writeString_healthy:
  assumes "handed L w" and "healthy w"
  obtains nn w' where "writeString p w = Some ((nn, None), w')" "handed (L @ p) w'" "healthy w'"
  using writeString_law[OF assms(1)] healthy_law assms(2) by metis

end

interpretation bw: byte_writer written writer_healthy w_out w_err Writer_Write Writer_WriteByte
  Writer_WriteString Writer_Flush
proof unfold_locales
  fix L p w nn e w' c
  show "written L w \<Longrightarrow> Writer_Write p w = ((nn, e), w') \<Longrightarrow>
      written (L @ p) w' \<and> e = w_err w' \<and> (writer_healthy w \<longrightarrow> writer_healthy w')"
    using Writer_Write_written by blast
  show "written L w \<Longrightarrow> Writer_WriteByte c w = (e, w') \<Longrightarrow>
      written (L @ [c]) w' \<and> e = w_err w' \<and> (writer_healthy w \<longrightarrow> writer_healthy w')"
    by (rule Writer_WriteByte_written)
  show "written L w \<Longrightarrow> \<exists>nn e w'. Writer_WriteString p w = Some ((nn, e), w') \<and>
      written (L @ p) w' \<and> e = w_err w' \<and> (writer_healthy w \<longrightarrow> writer_healthy w')"
    using Writer_WriteString_written by blast
  show "written L w \<Longrightarrow> Writer_Flush w = (e, w') \<Longrightarrow>
      written L w' \<and> e = w_err w' \<and> (e = None \<longrightarrow> w_out w' = L) \<and>
      (writer_healthy w \<longrightarrow> writer_healthy w')"
    unfolding Writer_Flush_def using Writer_flush_written by metis
qed (auto simp: written_def writer_healthy_def)

lemma written_new: "buf \<noteq> [] \<Longrightarrow> written [] (NewWriterBuffer wr buf)"
  by (simp add: written_def NewWriterBuffer_def writer_acc_def)

section \<open>The slices of the allocator\<close>

text \<open>
  The regions handed out so far lie below the rest of the current array, and in arrays that
  have been made; so each new one is disjoint from all of them.
\<close>

fun region_used :: "sliceAlloc \<Rightarrow> region \<Rightarrow> bool" where
  "region_used d (a, off, n) \<longleftrightarrow> n = 0 \<or> (a < sa_next d \<and> (a = sa_arr d \<longrightarrow> off + n \<le> sa_off d))"

definition alloc_ok :: "sliceAlloc \<Rightarrow> bool" where
  "alloc_ok d \<longleftrightarrow> sa_arr d < sa_next d"

lemma sliceAlloc_Make_ok:
  assumes "alloc_ok d" and "sliceAlloc_Make n d = (r, d')"
  shows "alloc_ok d'" and "region_used d' r" and "snd (snd r) = n"
    and "region_used d q \<Longrightarrow> region_used d' q" and "region_used d q \<Longrightarrow> disjoint_regions q r"
  using assms
  by (cases q; auto simp: sliceAlloc_Make_def alloc_ok_def Let_def split: if_splits)+

lemma sliceAlloc_run_ok:
  assumes "alloc_ok d" and "sliceAlloc_run ns d = (rs, d')"
  shows "map (snd \<circ> snd) rs = ns \<and> (\<forall>q. region_used d q \<longrightarrow> list_all (disjoint_regions q) rs) \<and>
     sorted_wrt disjoint_regions rs"
  using assms
proof (induction ns arbitrary: d rs)
  case Nil
  then show ?case by auto
next
  case (Cons n ns)
  obtain r d1 where m: "sliceAlloc_Make n d = (r, d1)" by (metis prod.exhaust)
  obtain rs1 where rs: "sliceAlloc_run ns d1 = (rs1, d')" "rs = r # rs1"
    using Cons.prems(2) m by (auto split: prod.splits)
  note ok = sliceAlloc_Make_ok[OF Cons.prems(1) m]
  note IH = Cons.IH[OF ok(1) rs(1)]
  have "list_all (disjoint_regions q) rs" if "region_used d q" for q
    using IH ok(4)[OF that] ok(5)[OF that] unfolding rs(2) list.pred_inject by blast
  moreover have "sorted_wrt disjoint_regions rs"
    using IH ok(2) unfolding rs(2) sorted_wrt.simps list_all_iff by blast
  ultimately show ?case using IH ok(3) unfolding rs(2) by auto
qed

section \<open>Every reader returns\<close>

text \<open>
  Whatever the wrapped reader does, errors and empty reads included, the operations keep the
  positions within the buffer, never gain bytes and come to an end.  \<open>pending\<close> counts the
  bytes that are buffered or still to come.
\<close>

fun event_bytes :: "rd_event \<Rightarrow> nat" where
  "event_bytes (RdData d) = length d"
| "event_bytes (RdErr d e) = length d"

definition script_bytes :: "rd_event list \<Rightarrow> nat" where
  "script_bytes es = sum_list (map event_bytes es)"

definition pending :: "Reader \<Rightarrow> nat" where
  "pending b = length (unread b) + script_bytes (r_rd b)"

text \<open>
  \<open>bufio.ErrBufferFull\<close> is the reader's own signal; a wrapped reader that returned it as its
  error would make \<open>ReadBytes\<close> loop, so the invariant leaves it out of the script.
\<close>

fun own_signal :: "rd_event \<Rightarrow> bool" where
  "own_signal (RdErr d e) \<longleftrightarrow> e = ErrBufferFull"
| "own_signal (RdData d) \<longleftrightarrow> False"

definition reader_inv :: "Reader \<Rightarrow> bool" where
  "reader_inv b \<longleftrightarrow> r_rpos b \<le> r_wpos b \<and> r_wpos b \<le> length (r_buf b) \<and> 0 < length (r_buf b) \<and>
     r_err b \<noteq> Some ErrBufferFull \<and> (\<forall>ev \<in> set (r_rd b). \<not> own_signal ev)"

text \<open>\<open>stepped b b'\<close>: an operation took \<open>b\<close> to \<open>b'\<close> without gaining anything.\<close>

definition stepped :: "Reader \<Rightarrow> Reader \<Rightarrow> bool" where
  "stepped b b' \<longleftrightarrow> reader_inv b' \<and> pending b' \<le> pending b \<and>
     length (r_rd b') \<le> length (r_rd b) \<and> length (r_buf b') = length (r_buf b)"

lemma stepped_refl [simp]: "reader_inv b \<Longrightarrow> stepped b b"
  by (simp add: stepped_def)

lemma stepped_trans [trans]: "stepped a b \<Longrightarrow> stepped b c \<Longrightarrow> stepped a c"
  by (auto simp: stepped_def)

lemma stepped_slice [simp]: "stepped b (b'\<lparr>r_slice := x\<rparr>) = stepped b b'"
  "pending (b\<lparr>r_slice := x\<rparr>) = pending b" "reader_inv (b\<lparr>r_slice := x\<rparr>) = reader_inv b"
  "stepped (b\<lparr>r_slice := x\<rparr>) b' = stepped b b'"
  by (simp_all add: stepped_def pending_def reader_inv_def unread_def)

lemma reader_ok_inv:
  "reader_ok b \<Longrightarrow> (\<forall>ev \<in> set (r_rd b). \<not> own_signal ev) \<Longrightarrow> reader_inv b"
  by (simp add: reader_ok_def reader_inv_def)

lemma rd_read_bytes:
  "rd_read k es = ((d, err), es') \<Longrightarrow>
   length d + script_bytes es' \<le> script_bytes es \<and> length es' \<le> length es \<and>
   ((\<forall>ev \<in> set es. \<not> own_signal ev) \<longrightarrow> (\<forall>ev \<in> set es'. \<not> own_signal ev) \<and> err \<noteq> Some ErrBufferFull)"
  by (induction k es rule: rd_read.induct) (auto simp: script_bytes_def split: if_splits)

lemma unread_length: "reader_inv b \<Longrightarrow> length (unread b) = r_wpos b - r_rpos b"
  by (auto simp: reader_inv_def unread_def)

lemma pending_rpos:
  assumes "reader_inv b" and "k \<le> length (unread b)"
  shows "reader_inv (b\<lparr>r_rpos := r_rpos b + k\<rparr>)"
    and "pending (b\<lparr>r_rpos := r_rpos b + k\<rparr>) + k = pending b"
    and "stepped b (b\<lparr>r_rpos := r_rpos b + k\<rparr>)"
  using assms unread_length[OF assms(1)]
  by (auto simp: reader_inv_def pending_def unread_def stepped_def)

lemma Reader_fill_stepped:
  assumes inv: "reader_inv b" and fill: "Reader_fill b = (err, b')"
  shows "stepped b b'" and "err = None \<Longrightarrow> length (unread b) < length (unread b')"
proof -
  define b1 where "b1 = (if r_rpos b > 0
      then b\<lparr>r_buf := go_copy (r_buf b) 0 (unread b), r_rpos := 0, r_wpos := length (unread b)\<rparr>
      else b)"
  have b1: "r_rpos b1 = 0" "r_wpos b1 = length (unread b)" "length (r_buf b1) = length (r_buf b)"
      "unread b1 = unread b" "r_rd b1 = r_rd b"
    using inv go_slice_copy0[of "unread b" "r_buf b"]
    by (auto simp: b1_def unread_def reader_inv_def)
  have le: "length (unread b) \<le> length (r_buf b)" "0 < length (r_buf b)"
      "r_err b \<noteq> Some ErrBufferFull" "\<forall>ev \<in> set (r_rd b). \<not> own_signal ev"
    using inv by (auto simp: unread_length reader_inv_def)
  obtain d e es where rd: "rd_read (length (r_buf b1) - r_wpos b1) (r_rd b1) = ((d, e), es)"
    by (metis prod.exhaust)
  note rb = rd_read_bytes[OF rd]
  have fits: "r_wpos b1 + length d \<le> length (r_buf b1)" using rd_read_bound[OF rd] le b1 by simp
  define b2 where "b2 = b1\<lparr>r_buf := go_copy (r_buf b1) (r_wpos b1) d, r_rd := es\<rparr>"
  have b2: "length (r_buf b2) = length (r_buf b)" "r_rpos b2 = 0" "r_wpos b2 = length (unread b)"
      "r_rd b2 = es" "length (go_slice (r_buf b2) 0 n) = min n (length (r_buf b))"
      "r_err b2 = r_err b" for n
    using fits b1 by (auto simp: b2_def b1_def)
  have eq: "Reader_fill b = (case e of Some x \<Rightarrow> (Some x, b2\<lparr>r_err := Some x\<rparr>)
      | None \<Rightarrow> if d = [] then (Some ErrNoProgress, b2\<lparr>r_err := Some ErrNoProgress\<rparr>)
                else (None, b2\<lparr>r_wpos := r_wpos b2 + length d\<rparr>))" if "r_err b = None"
    using that rd by (simp add: Reader_fill_def b1_def[symmetric] b2_def Let_def split: option.split)
  have err2: "stepped b (b2\<lparr>r_err := x\<rparr>)" if "x \<noteq> Some ErrBufferFull" for x
    using b1 b2 le rb that by (simp add: stepped_def reader_inv_def pending_def unread_def del: length_greater_0_conv)
  have ok2: "stepped b (b2\<lparr>r_wpos := r_wpos b2 + length d\<rparr>)"
    using b1 b2 le rb fits
    by (simp add: stepped_def reader_inv_def pending_def unread_def del: length_greater_0_conv)
  have un2: "length (unread (b2\<lparr>r_wpos := r_wpos b2 + length d\<rparr>)) = length (unread b) + length d"
    using b1 b2 fits by (simp add: unread_def)
  have "stepped b b' \<and> (err = None \<longrightarrow> length (unread b) < length (unread b'))"
  proof (cases "r_err b")
    case (Some x)
    with fill have "err = Some x" "b' = b" by (simp_all add: Reader_fill_def)
    with inv show ?thesis by simp
  next
    case None
    show ?thesis
    proof (cases e)
      case (Some x)
      with eq[OF None] fill err2[of e] rb le(4) b1(5) show ?thesis by auto
    next
      case e: None
      with eq[OF None] fill err2[of "Some ErrNoProgress"] ok2 un2 show ?thesis
        by (cases "d = []") auto
    qed
  qed
  then show "stepped b b'" "err = None \<Longrightarrow> length (unread b) < length (unread b')" by auto
qed


lemma Reader_fill_err: "Reader_fill b = (Some e, b') \<Longrightarrow> r_err b' = Some e"
  by (auto simp: Reader_fill_def Let_def split: option.splits prod.splits if_splits)

lemma Reader_ReadByte_stepped:
  assumes "reader_inv b" and "Reader_ReadByte b = (res, b')"
  shows "stepped b b' \<and> (\<forall>c. res = Inr c \<longrightarrow> pending b' < pending b)"
proof (cases "r_err b")
    case (Some e)
    with assms show ?thesis by (auto simp: Reader_ReadByte_def)
  next
    case None
    obtain e b1 where f: "(if Reader_buffered b = 0 then Reader_fill b else (None, b)) = (e, b1)"
      by (metis prod.exhaust)
    have b1: "stepped b b1 \<and> (e = None \<longrightarrow> 0 < length (unread b1))"
    proof (cases "Reader_buffered b = 0")
      case True
      with f Reader_fill_stepped[OF assms(1), of e b1] show ?thesis by force
    next
      case False
      with f assms(1) show ?thesis by (simp add: unread_length Reader_buffered_def)
    qed
    then have inv1: "reader_inv b1" by (simp add: stepped_def)
    show ?thesis
      using None f b1 assms(2) pending_rpos[OF inv1, of 1]
      by (cases e) (auto simp: Reader_ReadByte_def stepped_def Suc_le_eq)
  qed

lemma Reader_PeekByte_stepped:
  assumes "reader_inv b" and "Reader_PeekByte b = (res, b')"
  shows "stepped b b'"
  using assms Reader_fill_stepped(1)[OF assms(1)]
  by (auto simp: Reader_PeekByte_def split: option.splits prod.splits if_splits)

lemma Reader_sliceLoop_stepped:
  assumes "reader_inv b" and "Reader_sliceLoop delim b = ((f, err), b')"
  shows "stepped b b' \<and> (err = Some ErrBufferFull \<or> err = None \<longrightarrow> pending b' < pending b)"
  using assms
proof (induction delim b rule: Reader_sliceLoop.induct)
  case (1 delim b)
  show ?case
  proof (cases "IndexByte (unread b) delim")
    case (Some i)
    from IndexByte_SomeD[OF this] have "i < length (unread b)" by blast
    with pending_rpos[OF 1(2), of "i + 1"] Some 1(3) show ?thesis
      by (auto simp: Reader_sliceLoop.simps[of delim b] Let_def)
  next
    case None
    show ?thesis
    proof (cases "Reader_buffered b = length (r_buf b)")
      case True
      have pos: "r_rpos b \<le> r_wpos b" "r_wpos b \<le> length (r_buf b)" "0 < length (r_buf b)"
        using 1(2) unfolding reader_inv_def by blast+
      with True have "r_rpos b = 0" unfolding Reader_buffered_def by linarith
      moreover from this pos True unread_length[OF 1(2)]
      have "r_wpos b = length (unread b)" "0 < length (unread b)"
        unfolding Reader_buffered_def by linarith+
      ultimately have "r_rpos b = 0" "r_wpos b = length (unread b)" "0 < length (unread b)"
        by blast+
      with pending_rpos[OF 1(2), of "length (unread b)"] None True 1(3) show ?thesis
        by (auto simp: Reader_sliceLoop.simps[of delim b] simp del: length_greater_0_conv)
    next
      case False
      obtain e b1 where f: "Reader_fill b = (e, b1)" by (metis prod.exhaust)
      note st = Reader_fill_stepped[OF 1(2) f]
      then have inv1: "reader_inv b1" by (simp add: stepped_def)
      show ?thesis
      proof (cases e)
        case e: None
        from f e have f': "(None, b1) = Reader_fill b" by simp
        have "Reader_sliceLoop delim b1 = ((f, err), b')"
          using 1(3) None False f e by (simp add: Reader_sliceLoop.simps[of delim b])
        from 1(1)[OF None False f' refl inv1 this] st(1) show ?thesis
          by (auto simp: stepped_def)
      next
        case (Some x)
        with 1(3) None False f have "err = Some x" "b' = b1"
          by (simp_all add: Reader_sliceLoop.simps[of delim b])
        moreover have "x \<noteq> ErrBufferFull"
          using Reader_fill_err[OF f[unfolded Some]] inv1 by (auto simp: reader_inv_def)
        ultimately show ?thesis using st(1) by simp
      qed
    qed
  qed
qed


lemma Reader_ReadSlice_stepped:
  assumes "reader_inv b" and "Reader_ReadSlice delim b = ((f, err), b')"
  shows "stepped b b' \<and> (err = Some ErrBufferFull \<or> err = None \<longrightarrow> pending b' < pending b)"
proof (cases "r_err b")
  case None
  with assms Reader_sliceLoop_stepped show ?thesis by (simp add: Reader_ReadSlice_def)
next
  case (Some e)
  with assms(2) have "err = Some e" "b' = b" by (simp_all add: Reader_ReadSlice_def)
  with Some assms(1) show ?thesis by (auto simp: reader_inv_def stepped_def)
qed

lemma Reader_bytesLoop_total:
  assumes "reader_inv b"
  shows "\<exists>res b'. Reader_bytesLoop delim full sz b = Some (res, b') \<and> stepped b b'"
  using assms
proof (induction "pending b" arbitrary: b full sz rule: less_induct)
  case less
  obtain f err b1 where sl: "Reader_ReadSlice delim b = ((f, err), b1)" by (metis prod.exhaust)
  note st = Reader_ReadSlice_stepped[OF less.prems sl]
  show ?case
  proof (cases "err = Some ErrBufferFull")
    case True
    obtain x sa where sa: "sliceAlloc_Make (length f) (r_slice b1) = (x, sa)" by (metis prod.exhaust)
    have "reader_inv (b1\<lparr>r_slice := sa\<rparr>)" "pending (b1\<lparr>r_slice := sa\<rparr>) < pending b"
      using st True by (auto simp: stepped_def)
    from less.hyps[OF this(2,1), of "full @ [f]" "sz + length f"] obtain res b' where
        "Reader_bytesLoop delim (full @ [f]) (sz + length f) (b1\<lparr>r_slice := sa\<rparr>) = Some (res, b')"
        "stepped b1 b'" by auto
    with True sl sa st show ?thesis
      by (auto simp: Reader_bytesLoop.simps[of delim full sz b] intro: stepped_trans)
  next
    case False
    with sl st show ?thesis
      by (auto simp: Reader_bytesLoop.simps[of delim full sz b] split: option.split prod.split)
  qed
qed

lemma Reader_ReadBytes_total:
  "reader_inv b \<Longrightarrow> \<exists>res b'. Reader_ReadBytes delim b = Some (res, b') \<and> stepped b b'"
  by (simp add: Reader_ReadBytes_def Reader_bytesLoop_total)

lemma Reader_Read_stepped:
  assumes inv: "reader_inv b" and k: "0 < k" and read: "Reader_Read k b = ((d, err), b')"
  shows "stepped b b' \<and> (err = None \<longrightarrow>
     pending b' + length (r_rd b') < pending b + length (r_rd b))"
proof (cases "r_err b")
  case (Some e)
  with read have "err = Some e" "b' = b" by (simp_all add: Reader_Read_def)
  with inv show ?thesis by simp
next
  case None
  have out: "stepped c c' \<and> pending c' < pending c"
    if "reader_inv c" "0 < length (unread c)" "Reader_copyOut k c = ((d, err), c')" for c c'
  proof -
    let ?d = "take k (unread c)"
    from that(3) have c': "c' = c\<lparr>r_rpos := r_rpos c + length ?d\<rparr>"
      by (auto simp: Reader_copyOut_def Let_def)
    have "0 < length ?d" using that(2) k by (cases "unread c") auto
    moreover have "length ?d \<le> length (unread c)" by simp
    ultimately show ?thesis
      using pending_rpos[OF that(1), of "length ?d"] unfolding c' by linarith
  qed
  consider (buffered) "Reader_buffered b \<noteq> 0"
    | (direct) "Reader_buffered b = 0" "length (r_buf b) \<le> k"
    | (fill) "Reader_buffered b = 0" "\<not> length (r_buf b) \<le> k" by blast
  then show ?thesis
  proof cases
    case buffered
    with None k read out[OF inv, of b'] unread_length[OF inv] show ?thesis
      by (auto simp: Reader_Read_def Reader_buffered_def stepped_def)
  next
    case direct
    obtain d1 e es where rd: "rd_read k (r_rd b) = ((d1, e), es)" by (metis prod.exhaust)
    have b': "b' = b\<lparr>r_rd := es, r_err := e\<rparr>" "err = e"
      using None k read direct rd by (auto simp: Reader_Read_def Let_def split: option.splits)
    have "err = None \<longrightarrow> length es < length (r_rd b) \<or> 0 < length d1"
      using rd_read_progress[of k "r_rd b" d1 es] rd b'(2) k by auto
    then have "err = None \<longrightarrow> script_bytes es + length es < script_bytes (r_rd b) + length (r_rd b)"
      using rd_read_bytes[OF rd] by linarith
    with inv rd_read_bytes[OF rd] show ?thesis
      by (auto simp: b' stepped_def reader_inv_def pending_def unread_def)
  next
    case fill
    obtain e b1 where f: "Reader_fill b = (e, b1)" by (metis prod.exhaust)
    note st = Reader_fill_stepped[OF inv f]
    show ?thesis
    proof (cases e)
      case e: None
      with None k read fill f have c: "Reader_copyOut k b1 = ((d, err), b')"
        by (auto simp: Reader_Read_def)
      have "reader_inv b1" "0 < length (unread b1)"
        using st e by (auto simp: stepped_def)
      from out[OF this c] st(1) show ?thesis by (auto simp: stepped_def)
    next
      case (Some x)
      with None k read fill f st(1) Reader_fill_err[of b x b1] show ?thesis
        by (auto simp: Reader_Read_def)
    qed
  qed
qed

lemma Reader_fullLoop_total:
  assumes "reader_inv b" and "length acc < n"
  shows "\<exists>res b'. Reader_fullLoop n acc b = Some (res, b') \<and> stepped b b' \<and>
     (\<forall>d. res = Inr d \<longrightarrow> n \<le> length d)"
  using assms
proof (induction "pending b + length (r_rd b)" arbitrary: b acc rule: less_induct)
  case less
  obtain d err b1 where rd: "Reader_Read (n - length acc) b = ((d, err), b1)" by (metis prod.exhaust)
  have "0 < n - length acc" using less.prems(2) by simp
  note st = Reader_Read_stepped[OF less.prems(1) this rd]
  show ?case
  proof (cases "length (acc @ d) < n \<and> err = None")
    case True
    then have "pending b1 + length (r_rd b1) < pending b + length (r_rd b)" "reader_inv b1"
      using st by (auto simp: stepped_def)
    from less.hyps[OF this, of "acc @ d"] True rd st show ?thesis
      by (auto simp: Reader_fullLoop.simps[of n acc b] intro: stepped_trans)
  next
    case False
    with rd st show ?thesis
      by (auto simp: Reader_fullLoop.simps[of n acc b] split: option.split)
  qed
qed

lemma Reader_ReadFull_total:
  assumes "reader_inv b"
  shows "\<exists>res b'. Reader_ReadFull n b = Some (res, b') \<and> stepped b b' \<and>
     (\<forall>d. res = Inr d \<longrightarrow> n \<le> length d)"
proof (cases "r_err b \<noteq> None \<or> n = 0")
  case True
  with assms show ?thesis by (auto simp: Reader_ReadFull_def split: option.split)
next
  case False
  obtain x sa where sa: "sliceAlloc_Make n (r_slice b) = (x, sa)" by (metis prod.exhaust)
  with False assms Reader_fullLoop_total[of "b\<lparr>r_slice := sa\<rparr>" "[]" n] show ?thesis
    by (simp add: Reader_ReadFull_def)
qed

end
