(* ===== verification/Strconv.thy ===== *)
theory Strconv
  imports Prelude
begin

text \<open>
  Decimal integers.  \<open>ParseUint\<close>, \<open>ParseInt\<close> and \<open>FormatInt\<close> are those of Go's
  \<open>strconv\<close> for base 10 and 64 bits.  \<open>Btoi64\<close> is the integer parser of
  \<open>src/pkg/proxy/redis/decoder.go\<close>, whose fast path for short inputs works on machine words,
  and \<open>itoa\<close> the printer of \<open>encoder.go\<close>, which cuts small numbers out of one string that
  \<open>init\<close> builds.  The lemmas show that both agree with the library routines on every input and
  that printing and parsing are inverse to each other.
\<close>

type_synonym int64 = "64 word"

datatype num_error = ErrSyntax | ErrRange

section \<open>strconv\<close>

definition is_digit :: "char \<Rightarrow> bool" where
  "is_digit c \<longleftrightarrow> 48 \<le> (of_char c :: nat) \<and> (of_char c :: nat) \<le> 57"

definition digit_val :: "char \<Rightarrow> nat" where
  "digit_val c = of_char c - 48"

definition digit_char :: "nat \<Rightarrow> char" where
  "digit_char d = char_of (48 + d)"

text \<open>
  The loop of \<open>ParseUint\<close>: \<open>cutoff\<close> is the smallest number with \<open>cutoff * 10 > maxUint64\<close>.
\<close>

fun ParseUint_loop :: "nat \<Rightarrow> bytes \<Rightarrow> num_error + nat" where
  "ParseUint_loop n [] = Inr n"
| "ParseUint_loop n (c # s) =
     (if \<not> is_digit c then Inl ErrSyntax
      else if n \<ge> (2 ^ 64 - 1) div 10 + 1 then Inl ErrRange
      else let n1 = n * 10 + digit_val c
           in if n1 > 2 ^ 64 - 1 then Inl ErrRange else ParseUint_loop n1 s)"

definition ParseUint :: "bytes \<Rightarrow> num_error + nat" where
  "ParseUint s = (if s = [] then Inl ErrSyntax else ParseUint_loop 0 s)"

definition ParseInt :: "bytes \<Rightarrow> num_error + int64" where
  "ParseInt s =
     (if s = [] then Inl ErrSyntax
      else
        let neg = (hd s = CHR ''-'');
            s1 = (if hd s = CHR ''+'' \<or> hd s = CHR ''-'' then tl s else s)
        in case ParseUint s1 of
             Inl e \<Rightarrow> Inl e
           | Inr un \<Rightarrow>
               if \<not> neg \<and> un \<ge> 2 ^ 63 then Inl ErrRange
               else if neg \<and> un > 2 ^ 63 then Inl ErrRange
               else Inr (if neg then - of_nat un else of_nat un))"

fun formatBits :: "nat \<Rightarrow> bytes" where
  "formatBits u = (if u < 10 then [digit_char u] else formatBits (u div 10) @ [digit_char (u mod 10)])"

declare formatBits.simps [simp del]

definition FormatInt :: "int64 \<Rightarrow> bytes" where
  "FormatInt i =
     (if sint i < 0 then CHR ''-'' # formatBits (nat (- sint i)) else formatBits (nat (sint i)))"

section \<open>Btoi64\<close>

text \<open>The scanning loop of the fast path, from index \<open>i\<close> with the number \<open>n\<close> so far.\<close>

function Btoi64_scan :: "bytes \<Rightarrow> nat \<Rightarrow> int64 \<Rightarrow> nat \<times> int64" where
  "Btoi64_scan b i n =
     (if i < length b \<and> is_digit (b ! i)
      then Btoi64_scan b (i + 1) (of_nat (digit_val (b ! i)) + n * 10)
      else (i, n))"
  by pat_completeness auto
termination by (relation "measure (\<lambda>(b, i, n). length b - i)") auto

declare Btoi64_scan.simps [simp del]

definition Btoi64_fast :: "bytes \<Rightarrow> int64 option" where
  "Btoi64_fast b =
     (if length b \<noteq> 0 \<and> length b < 10 then
        let neg = (b ! 0 = CHR ''-'');
            i = (if b ! 0 = CHR ''-'' \<or> b ! 0 = CHR ''+'' then 1 else 0)
        in if length b \<noteq> i then
             (case Btoi64_scan b i 0 of
                (j, n) \<Rightarrow> if length b = j then Some (if neg then - n else n) else None)
           else None
      else None)"

definition Btoi64 :: "bytes \<Rightarrow> num_error + int64" where
  "Btoi64 b = (case Btoi64_fast b of Some n \<Rightarrow> Inr n | None \<Rightarrow> ParseInt b)"

section \<open>itoa\<close>

definition minItoa :: int where
  "minItoa = -128"

definition maxItoa :: int where
  "maxItoa = 32768"

definition Itoa :: "int \<Rightarrow> bytes" where
  "Itoa i = FormatInt (word_of_int i)"

text \<open>The \<open>init\<close> function: the offsets and the buffer after the first \<open>k\<close> rounds.\<close>

primrec itoa_init :: "nat \<Rightarrow> 32 word list \<times> bytes" where
  "itoa_init 0 = ([], [])"
| "itoa_init (Suc k) =
     (case itoa_init k of
        (offs, b) \<Rightarrow> (offs @ [of_nat (length b)], b @ Itoa (int k + minItoa)))"

definition itoaOffset :: "32 word list" where
  "itoaOffset = fst (itoa_init (nat (maxItoa - minItoa + 1)))"

definition itoaBuffer :: bytes where
  "itoaBuffer = snd (itoa_init (nat (maxItoa - minItoa + 1)))"

definition itoa :: "int64 \<Rightarrow> bytes" where
  "itoa i =
     (if sint i \<ge> minItoa \<and> sint i \<le> maxItoa then
        let beg = unat (itoaOffset ! nat (sint i - minItoa))
        in if sint i = maxItoa then go_slice itoaBuffer beg (length itoaBuffer)
           else go_slice itoaBuffer beg (unat (itoaOffset ! nat (sint i - minItoa + 1)))
      else FormatInt i)"

section \<open>Digits\<close>

definition dec_val :: "nat \<Rightarrow> bytes \<Rightarrow> nat" where
  "dec_val = foldl (\<lambda>n c. n * 10 + digit_val c)"

lemma dec_val_simps [simp]:
  "dec_val n [] = n" "dec_val n (c # s) = dec_val (n * 10 + digit_val c) s"
  "dec_val n (s @ t) = dec_val (dec_val n s) t"
  by (simp_all add: dec_val_def)

lemma digit_char_digit [simp]: "d < 10 \<Longrightarrow> is_digit (digit_char d)"
  and digit_val_char [simp]: "d < 10 \<Longrightarrow> digit_val (digit_char d) = d"
  by (simp_all add: is_digit_def digit_val_def digit_char_def)

lemma digit_val_less: "is_digit c \<Longrightarrow> digit_val c \<le> 9"
  unfolding is_digit_def digit_val_def by linarith

lemma digit_not_sign: "is_digit c \<Longrightarrow> c \<noteq> CHR ''-'' \<and> c \<noteq> CHR ''+'' \<and> c \<noteq> CHR 0x0D \<and> c \<noteq> CHR 0x0A"
  by (auto simp: is_digit_def)

lemma dec_val_ge: "n \<le> dec_val n s"
proof (induction s arbitrary: n)
  case Nil
  then show ?case by simp
next
  case (Cons c s)
  from Cons[of "n * 10 + digit_val c"] show ?case by simp
qed

lemma dec_val_bound: "list_all is_digit s \<Longrightarrow> dec_val n s < (n + 1) * 10 ^ length s"
proof (induction s arbitrary: n)
  case Nil
  then show ?case by simp
next
  case (Cons c s)
  then have "dec_val (n * 10 + digit_val c) s < (n * 10 + digit_val c + 1) * 10 ^ length s" by simp
  also have "\<dots> \<le> ((n + 1) * 10) * 10 ^ length s"
    using Cons.prems digit_val_less[of c] by (intro mult_le_mono1) simp
  finally show ?case by (simp add: algebra_simps)
qed

lemma formatBits_digits: "list_all is_digit (formatBits u)" and formatBits_ne: "formatBits u \<noteq> []"
  and formatBits_val: "dec_val 0 (formatBits u) = u"
proof (induction u rule: formatBits.induct)
  case (1 u)
  {
    case 1
    show ?case using "1.IH"(1) by (subst formatBits.simps) auto
  next
    case 2
    show ?case by (subst formatBits.simps) auto
  next
    case 3
    show ?case using "1.IH"(3) by (subst formatBits.simps) auto
  }
qed

lemma ParseUint_loop_digits:
  assumes "list_all is_digit s" and "dec_val n s < 2 ^ 64"
  shows "ParseUint_loop n s = Inr (dec_val n s)"
  using assms
proof (induction s arbitrary: n)
  case Nil
  then show ?case by simp
next
  case (Cons c s)
  have "n * 10 + digit_val c < 2 ^ 64"
    using Cons.prems(2) dec_val_ge[of "n * 10 + digit_val c" s] by simp
  with Cons show ?case by (simp add: Let_def)
qed

lemma ParseUint_digits:
  "s \<noteq> [] \<Longrightarrow> list_all is_digit s \<Longrightarrow> dec_val 0 s < 2 ^ 64 \<Longrightarrow> ParseUint s = Inr (dec_val 0 s)"
  by (simp add: ParseUint_def ParseUint_loop_digits)

section \<open>The fast path agrees with the library\<close>

lemma Btoi64_scan_digits:
  assumes "list_all is_digit (drop i b)" and "i \<le> length b"
  shows "Btoi64_scan b i (of_nat n) = (length b, of_nat (dec_val n (drop i b)))"
  using assms
proof (induction "length b - i" arbitrary: i n)
  case 0
  then show ?case by (simp add: Btoi64_scan.simps)
next
  case (Suc k)
  then have i: "i < length b" by simp
  then have d: "drop i b = b ! i # drop (Suc i) b" by (simp add: Cons_nth_drop_Suc)
  have "Btoi64_scan b i (of_nat n) = Btoi64_scan b (Suc i) (of_nat (n * 10 + digit_val (b ! i)))"
    using Suc.prems i d by (simp add: Btoi64_scan.simps[of b i] algebra_simps)
  also have "\<dots> = (length b, of_nat (dec_val (n * 10 + digit_val (b ! i)) (drop (Suc i) b)))"
    using Suc.prems Suc.hyps(2) d by (intro Suc.hyps(1)) auto
  finally show ?case by (simp add: d)
qed

lemma Btoi64_scan_end:
  assumes "fst (Btoi64_scan b i n) = length b"
  shows "list_all is_digit (drop i b)"
  using assms
proof (induction b i n rule: Btoi64_scan.induct)
  case (1 b i n)
  show ?case
  proof (cases "i < length b \<and> is_digit (b ! i)")
    case True
    then have "list_all is_digit (drop (Suc i) b)"
      using 1 by (simp add: Btoi64_scan.simps[of b i])
    with True show ?thesis by (simp add: Cons_nth_drop_Suc[symmetric])
  next
    case False
    with 1(2) show ?thesis by (auto simp: Btoi64_scan.simps[of b i])
  qed
qed

lemma Btoi64_fast_ParseInt:
  assumes "Btoi64_fast b = Some n"
  shows "ParseInt b = Inr n"
proof -
  define i :: nat where "i = (if b ! 0 = CHR ''-'' \<or> b ! 0 = CHR ''+'' then 1 else 0)"
  from assms obtain m where b: "b \<noteq> []" "length b < 10" "length b \<noteq> i"
      and scan: "Btoi64_scan b i 0 = (length b, m)"
      and n: "n = (if b ! 0 = CHR ''-'' then - m else m)"
    by (auto simp: Btoi64_fast_def i_def[symmetric] Let_def split: if_splits prod.splits)
  have s1: "(if hd b = CHR ''+'' \<or> hd b = CHR ''-'' then tl b else b) = drop i b"
    using b(1) by (cases b) (auto simp: i_def)
  have ds: "list_all is_digit (drop i b)" by (rule Btoi64_scan_end[of b i 0]) (simp add: scan)
  have "i \<le> 1" "0 < length b" using b(1) by (auto simp: i_def)
  with b(3) have i: "i < length b" by presburger
  have "dec_val 0 (drop i b) < 10 ^ length (drop i b)"
    using dec_val_bound[OF ds, of 0] by simp
  also have "\<dots> \<le> (10::nat) ^ 9" using b(2) by (intro power_increasing) auto
  finally have v: "dec_val 0 (drop i b) < 10 ^ 9" .
  have "m = of_nat (dec_val 0 (drop i b))"
    using Btoi64_scan_digits[OF ds, of 0] i scan by simp
  moreover have "ParseUint (drop i b) = Inr (dec_val 0 (drop i b))"
    using i ds v by (intro ParseUint_digits) auto
  ultimately show ?thesis
    using b(1) v n unfolding ParseInt_def s1 Let_def by (simp add: hd_conv_nth)
qed

lemma Btoi64_eq_ParseInt: "Btoi64 b = ParseInt b"
  by (simp add: Btoi64_def Btoi64_fast_ParseInt split: option.split)

section \<open>Printing and parsing\<close>

lemma ParseInt_FormatInt: "ParseInt (FormatInt i) = Inr i"
proof (cases "sint i < 0")
  case True
  have r: "- (2 ^ 63) \<le> sint i" using sint_ge[of i] by simp
  let ?u = "nat (- sint i)"
  have u: "?u \<le> 2 ^ 63" using r by (simp add: nat_le_iff)
  have p: "ParseUint (formatBits ?u) = Inr ?u"
    using u ParseUint_digits[OF formatBits_ne formatBits_digits, of ?u]
    by (simp add: formatBits_val)
  have "- (of_nat ?u :: int64) = i" using True by simp
  with p u True show ?thesis by (simp add: ParseInt_def FormatInt_def Let_def)
next
  case False
  have r: "sint i < 2 ^ 63" using sint_lt[of i] by simp
  let ?u = "nat (sint i)"
  have u: "?u < 2 ^ 63" using r False by (simp add: nat_less_iff)
  have p: "ParseUint (formatBits ?u) = Inr ?u"
    using u ParseUint_digits[OF formatBits_ne formatBits_digits, of ?u]
    by (simp add: formatBits_val)
  have "hd (formatBits ?u) \<noteq> CHR ''-'' \<and> hd (formatBits ?u) \<noteq> CHR ''+''"
    using formatBits_ne[of ?u] formatBits_digits[of ?u] digit_not_sign
    by (cases "formatBits ?u") auto
  moreover have "(of_nat ?u :: int64) = i" using False by simp
  ultimately show ?thesis
    using p u False formatBits_ne[of ?u] by (simp add: ParseInt_def FormatInt_def Let_def)
qed

lemma Btoi64_FormatInt [simp]: "Btoi64 (FormatInt i) = Inr i"
  by (simp add: Btoi64_eq_ParseInt ParseInt_FormatInt)

lemma FormatInt_clean: "c \<in> set (FormatInt i) \<Longrightarrow> is_digit c \<or> c = CHR ''-''"
  using formatBits_digits[of "nat (sint i)"] formatBits_digits[of "nat (- sint i)"]
  by (auto simp: FormatInt_def list_all_iff split: if_splits)

lemma FormatInt_no_newline [simp]: "CHR 0x0A \<notin> set (FormatInt i)" "CHR 0x0D \<notin> set (FormatInt i)"
  using FormatInt_clean[of "CHR 0x0A" i] FormatInt_clean[of "CHR 0x0D" i]
  by (auto simp: is_digit_def)

lemma formatBits_length: "u < 10 ^ k \<Longrightarrow> 0 < k \<Longrightarrow> length (formatBits u) \<le> k"
proof (induction k arbitrary: u)
  case 0
  then show ?case by simp
next
  case (Suc k)
  show ?case
  proof (cases "u < 10")
    case True
    then show ?thesis by (simp add: formatBits.simps[of u])
  next
    case False
    then have "0 < k" using Suc.prems by (cases k) auto
    moreover have "u div 10 < 10 ^ k" using Suc.prems(1) by (simp add: less_mult_imp_div_less)
    ultimately show ?thesis using Suc.IH[of "u div 10"] False by (simp add: formatBits.simps[of u])
  qed
qed

lemma FormatInt_length: "length (FormatInt i) \<le> 20"
proof -
  have "nat (sint i) < 10 ^ 19" "nat (- sint i) < 10 ^ 19"
    using sint_lt[of i] sint_ge[of i] by auto
  then show ?thesis
    using formatBits_length[of "nat (sint i)" 19] formatBits_length[of "nat (- sint i)" 19]
    by (simp add: FormatInt_def)
qed

section \<open>The table of small numbers\<close>

lemma itoa_init_spec:
  "itoa_init k = (map (\<lambda>j. of_nat (length (concat (map (\<lambda>m. Itoa (int m + minItoa)) [0..<j])))) [0..<k],
     concat (map (\<lambda>m. Itoa (int m + minItoa)) [0..<k]))"
  by (induction k) simp_all

lemma Itoa_length: "length (Itoa i) \<le> 20"
  by (simp add: Itoa_def FormatInt_length)

lemma itoa_prefix_length:
  "length (concat (map (\<lambda>m. Itoa (int m + minItoa)) [0..<j])) \<le> 20 * j"
proof (induction j)
  case 0
  then show ?case by simp
next
  case (Suc j)
  then show ?case using Itoa_length[of "int j + minItoa"] by simp
qed

lemma itoa_eq_FormatInt: "itoa i = FormatInt i"
proof (cases "sint i \<ge> minItoa \<and> sint i \<le> maxItoa")
  case False
  then show ?thesis unfolding itoa_def by (rule if_not_P)
next
  case True
  define N where "N = nat (maxItoa - minItoa + 1)"
  define k where "k = nat (sint i - minItoa)"
  define pre where "pre = (\<lambda>j. concat (map (\<lambda>m. Itoa (int m + minItoa)) [0..<j]))"
  have N: "N = 32897" by (simp add: N_def maxItoa_def minItoa_def)
  have k: "k < N" "nat (sint i - minItoa + 1) = Suc k" "int k + minItoa = sint i"
      "sint i = maxItoa \<longleftrightarrow> Suc k = N"
    using True by (auto simp: k_def N_def maxItoa_def minItoa_def)
  have Ik: "Itoa (int k + minItoa) = FormatInt i" unfolding k(3) Itoa_def by simp
  have len: "length (pre j) < 2 ^ 32" if "j \<le> N" for j
  proof -
    have "length (pre j) \<le> 20 * N"
      using itoa_prefix_length[of j] that by (simp add: pre_def)
    then show ?thesis by (simp add: N)
  qed
  have off: "unat (itoaOffset ! j) = length (pre j)" if "j < N" for j
    using that len[of j] unfolding itoaOffset_def N_def[symmetric]
    by (simp add: itoa_init_spec pre_def unat_of_nat)
  have buf: "itoaBuffer = pre N"
    by (simp add: itoaBuffer_def N_def[symmetric] itoa_init_spec pre_def)
  have split: "pre N = pre k @ FormatInt i @ concat (map (\<lambda>m. Itoa (int m + minItoa)) [Suc k..<N])"
  proof -
    have "[0..<N] = [0..<k] @ k # [Suc k..<N]"
      using k(1) upt_add_eq_append[of 0 k "N - k"] upt_conv_Cons[of k N] by simp
    then show ?thesis by (simp add: pre_def Ik)
  qed
  have Suck: "pre (Suc k) = pre k @ FormatInt i" by (simp add: pre_def Ik)
  show ?thesis
  proof (cases "sint i = maxItoa")
    case last: True
    then have "pre N = pre k @ FormatInt i" using k(4) Suck by simp
    moreover have "nat (maxItoa - minItoa) = k" using last by (simp add: k_def)
    ultimately show ?thesis using True last off[OF k(1)]
      by (simp add: itoa_def Let_def buf go_slice_def)
  next
    case False
    then have "Suc k < N" using k(1,4) by linarith
    from off[OF this] have "unat (itoaOffset ! Suc k) = length (pre k) + length (FormatInt i)"
      by (simp add: Suck)
    with True False off[OF k(1)] show ?thesis
      by (simp add: itoa_def Let_def buf k_def[symmetric] k(2) go_slice_def split)
  qed
qed

section \<open>Properties\<close>

text \<open>
  C36.  The fast path of \<open>Btoi64\<close>, on machine words and without a check for overflow, and its
  fallback together are \<open>strconv.ParseInt\<close>, on every input and in every error.
\<close>

theorem Btoi64_is_ParseInt: "Btoi64 b = ParseInt b"
  by (rule Btoi64_eq_ParseInt)

text \<open>
  C37.  The table of \<open>itoa\<close> gives what \<open>strconv.FormatInt\<close> gives for every number, and
  \<open>Btoi64\<close> reads it back.
\<close>

theorem itoa_FormatInt_roundtrip: "itoa i = FormatInt i \<and> Btoi64 (itoa i) = Inr i"
  by (simp add: itoa_eq_FormatInt)

end
