(* ===== verification/Resp.thy ===== *)
theory Resp
  imports Bufio2 Strconv
begin

text \<open>
  The RESP protocol of \<open>src/pkg/proxy/redis\<close>: the reply type of \<open>resp.go\<close>, the decoder of
  \<open>decoder.go\<close> over the buffered reader and the encoder of \<open>encoder.go\<close> over the buffered
  writer.  Errors are values of \<open>resp_error\<close> (tracing wrappers are dropped, and a value that
  Go returns next to a non-nil error is not used by any caller and not kept).  A decoder
  result is an option because the loops of the reader are; \<open>decodeResp\<close> recurses on a bound for
  the nesting depth, and the bytes pending in the reader are such a bound.  The lemmas show that the
  decoder returns on every reader, that what it accepts is well formed, and that it inverts the encoder
  whatever the split of the stream.
\<close>

section \<open>resp.go\<close>

type_synonym RespType = char

definition TypeString :: RespType where "TypeString = CHR ''+''"
definition TypeError :: RespType where "TypeError = CHR ''-''"
definition TypeInt :: RespType where "TypeInt = CHR '':''"
definition TypeBulkBytes :: RespType where "TypeBulkBytes = CHR ''$''"
definition TypeArray :: RespType where "TypeArray = CHR ''*''"

lemmas resp_types = TypeString_def TypeError_def TypeInt_def TypeBulkBytes_def TypeArray_def

definition hex_digit :: "nat \<Rightarrow> char" where
  "hex_digit d = (if d < 10 then char_of (48 + d) else char_of (87 + d))"

definition RespType_String :: "RespType \<Rightarrow> string" where
  "RespType_String t =
     (if t = TypeString then ''<string>''
      else if t = TypeError then ''<error>''
      else if t = TypeInt then ''<int>''
      else if t = TypeBulkBytes then ''<bulkbytes>''
      else if t = TypeArray then ''<array>''
      else ''<unknown-0x'' @ [hex_digit (of_char t div 16), hex_digit (of_char t mod 16)] @ ''>'')"

datatype Resp = Resp (Resp_Type: RespType) (Resp_Value: "bytes option") (Resp_Array: "Resp list option")

definition IsString :: "Resp \<Rightarrow> bool" where "IsString r \<longleftrightarrow> Resp_Type r = TypeString"
definition IsError :: "Resp \<Rightarrow> bool" where "IsError r \<longleftrightarrow> Resp_Type r = TypeError"
definition IsInt :: "Resp \<Rightarrow> bool" where "IsInt r \<longleftrightarrow> Resp_Type r = TypeInt"
definition IsBulkBytes :: "Resp \<Rightarrow> bool" where "IsBulkBytes r \<longleftrightarrow> Resp_Type r = TypeBulkBytes"
definition IsArray :: "Resp \<Rightarrow> bool" where "IsArray r \<longleftrightarrow> Resp_Type r = TypeArray"

definition NewString :: "bytes option \<Rightarrow> Resp" where "NewString value = Resp TypeString value None"
definition NewError :: "bytes option \<Rightarrow> Resp" where "NewError value = Resp TypeError value None"
definition NewInt :: "bytes option \<Rightarrow> Resp" where "NewInt value = Resp TypeInt value None"
definition NewBulkBytes :: "bytes option \<Rightarrow> Resp" where
  "NewBulkBytes value = Resp TypeBulkBytes value None"
definition NewArray :: "Resp list option \<Rightarrow> Resp" where "NewArray array = Resp TypeArray None array"

section \<open>decoder.go\<close>

datatype resp_error =
    IOErr io_error
  | NumErr num_error
  | BadRespType RespType
  | ErrBadCRLFEnd
  | ErrBadArrayLen
  | ErrBadArrayLenTooLong
  | ErrBadBulkBytesLen
  | ErrBadBulkBytesLenTooLong
  | ErrBadMultiBulkLen
  | ErrBadMultiBulkContent
  | ErrFailedDecoder
  | ErrFailedEncoder

definition MaxBulkBytesLen :: int where "MaxBulkBytesLen = 1024 * 1024 * 512"
definition MaxArrayLen :: int where "MaxArrayLen = 1024 * 1024"

abbreviation CR :: char where "CR \<equiv> CHR 0x0D"
abbreviation LF :: char where "LF \<equiv> CHR 0x0A"

type_synonym 'a decoded = "((resp_error + 'a) \<times> Reader) option"

text \<open>\<open>if n := len(b) - 2; n < 0 || b[n] != '\r'\<close>, else \<open>b[:n]\<close>.\<close>

definition trimCRLF :: "bytes \<Rightarrow> resp_error + bytes" where
  "trimCRLF b =
     (if length b < 2 \<or> b ! (length b - 2) \<noteq> CR then Inl ErrBadCRLFEnd
      else Inr (take (length b - 2) b))"

definition decodeTextBytes :: "Reader \<Rightarrow> bytes decoded" where
  "decodeTextBytes br =
     (case Reader_ReadBytes LF br of
        None \<Rightarrow> None
      | Some (Inl e, br1) \<Rightarrow> Some (Inl (IOErr e), br1)
      | Some (Inr b, br1) \<Rightarrow> Some (trimCRLF b, br1))"

definition decodeInt :: "Reader \<Rightarrow> (resp_error + int64) \<times> Reader" where
  "decodeInt br =
     (case Reader_ReadSlice LF br of
        ((b, Some e), br1) \<Rightarrow> (Inl (IOErr e), br1)
      | ((b, None), br1) \<Rightarrow>
          (case trimCRLF b of
             Inl e \<Rightarrow> (Inl e, br1)
           | Inr s \<Rightarrow> (case Btoi64 s of Inl e \<Rightarrow> (Inl (NumErr e), br1) | Inr n \<Rightarrow> (Inr n, br1))))"

definition decodeBulkBytes :: "Reader \<Rightarrow> bytes option decoded" where
  "decodeBulkBytes br =
     (case decodeInt br of
        (Inl e, br1) \<Rightarrow> Some (Inl e, br1)
      | (Inr n, br1) \<Rightarrow>
          if sint n < -1 then Some (Inl ErrBadBulkBytesLen, br1)
          else if sint n > MaxBulkBytesLen then Some (Inl ErrBadBulkBytesLenTooLong, br1)
          else if sint n = -1 then Some (Inr None, br1)
          else
            (case Reader_ReadFull (nat (sint n) + 2) br1 of
               None \<Rightarrow> None
             | Some (Inl e, br2) \<Rightarrow> Some (Inl (IOErr e), br2)
             | Some (Inr b, br2) \<Rightarrow>
                 if b ! nat (sint n) \<noteq> CR \<or> b ! (nat (sint n) + 1) \<noteq> LF
                 then Some (Inl ErrBadCRLFEnd, br2)
                 else Some (Inr (Some (take (nat (sint n)) b)), br2)))"

text \<open>The loops of \<open>decodeArray\<close>, over the decoder of one element, and \<open>decodeArray\<close> itself.\<close>

primrec decodeElems :: "(Reader \<Rightarrow> Resp decoded) \<Rightarrow> nat \<Rightarrow> Reader \<Rightarrow> Resp list decoded" where
  "decodeElems dec 0 br = Some (Inr [], br)"
| "decodeElems dec (Suc n) br =
     (case dec br of
        None \<Rightarrow> None
      | Some (Inl e, br1) \<Rightarrow> Some (Inl e, br1)
      | Some (Inr r, br1) \<Rightarrow>
          (case decodeElems dec n br1 of
             None \<Rightarrow> None
           | Some (Inl e, br2) \<Rightarrow> Some (Inl e, br2)
           | Some (Inr rs, br2) \<Rightarrow> Some (Inr (r # rs), br2)))"

definition decodeArray :: "(Reader \<Rightarrow> Resp decoded) \<Rightarrow> Reader \<Rightarrow> Resp list option decoded" where
  "decodeArray dec br =
     (case decodeInt br of
        (Inl e, br1) \<Rightarrow> Some (Inl e, br1)
      | (Inr n, br1) \<Rightarrow>
          if sint n < -1 then Some (Inl ErrBadArrayLen, br1)
          else if sint n > MaxArrayLen then Some (Inl ErrBadArrayLenTooLong, br1)
          else if sint n = -1 then Some (Inr None, br1)
          else
            (case decodeElems dec (nat (sint n)) br1 of
               None \<Rightarrow> None
             | Some (Inl e, br2) \<Rightarrow> Some (Inl e, br2)
             | Some (Inr rs, br2) \<Rightarrow> Some (Inr (Some rs), br2)))"

text \<open>
  \<open>decodeResp\<close>, over the decoder of arrays, and its recursion, for replies nested less than the
  given bound.
\<close>

definition decodeResp_step :: "(Reader \<Rightarrow> Resp list option decoded) \<Rightarrow> Reader \<Rightarrow> Resp decoded" where
  "decodeResp_step arr br =
     (case Reader_ReadByte br of
        (Inl e, br1) \<Rightarrow> Some (Inl (IOErr e), br1)
      | (Inr b, br1) \<Rightarrow>
          if b = TypeString \<or> b = TypeError \<or> b = TypeInt then
            (case decodeTextBytes br1 of
               None \<Rightarrow> None
             | Some (Inl e, br2) \<Rightarrow> Some (Inl e, br2)
             | Some (Inr v, br2) \<Rightarrow> Some (Inr (Resp b (Some v) None), br2))
          else if b = TypeBulkBytes then
            (case decodeBulkBytes br1 of
               None \<Rightarrow> None
             | Some (Inl e, br2) \<Rightarrow> Some (Inl e, br2)
             | Some (Inr v, br2) \<Rightarrow> Some (Inr (Resp b v None), br2))
          else if b = TypeArray then
            (case arr br1 of
               None \<Rightarrow> None
             | Some (Inl e, br2) \<Rightarrow> Some (Inl e, br2)
             | Some (Inr a, br2) \<Rightarrow> Some (Inr (Resp b None a), br2))
          else Some (Inl (BadRespType b), br1))"

primrec decodeResp_depth :: "nat \<Rightarrow> Reader \<Rightarrow> Resp decoded" where
  "decodeResp_depth 0 br = None"
| "decodeResp_depth (Suc k) br = decodeResp_step (decodeArray (decodeResp_depth k)) br"

definition decodeResp :: "Reader \<Rightarrow> Resp decoded" where
  "decodeResp br = decodeResp_depth (Suc (pending br)) br"

text \<open>The loop of \<open>decodeSingleLineMultiBulk\<close>, with its two indices.\<close>

function splitLoop :: "bytes \<Rightarrow> nat \<Rightarrow> nat \<Rightarrow> Resp list \<Rightarrow> Resp list" where
  "splitLoop b l r multi =
     (if r \<le> length b then
        if r = length b \<or> b ! r = CHR '' '' then
          splitLoop b (r + 1) (r + 1)
            (if l < r then multi @ [NewBulkBytes (Some (go_slice b l r))] else multi)
        else splitLoop b l (r + 1) multi
      else multi)"
  by pat_completeness auto
termination by (relation "measure (\<lambda>(b, l, r, multi). Suc (length b) - r)") auto

declare splitLoop.simps [simp del]

definition decodeSingleLineMultiBulk :: "Reader \<Rightarrow> Resp list option decoded" where
  "decodeSingleLineMultiBulk br =
     (case decodeTextBytes br of
        None \<Rightarrow> None
      | Some (Inl e, br1) \<Rightarrow> Some (Inl e, br1)
      | Some (Inr b, br1) \<Rightarrow>
          if length b = 0 then Some (Inr None, br1)
          else
            let multi = splitLoop b 0 0 []
            in if length multi = 0 then Some (Inl ErrBadMultiBulkLen, br1)
               else Some (Inr (Some multi), br1))"

primrec decodeBulks :: "nat \<Rightarrow> Reader \<Rightarrow> Resp list decoded" where
  "decodeBulks 0 br = Some (Inr [], br)"
| "decodeBulks (Suc n) br =
     (case decodeResp br of
        None \<Rightarrow> None
      | Some (Inl e, br1) \<Rightarrow> Some (Inl e, br1)
      | Some (Inr r, br1) \<Rightarrow>
          if Resp_Type r \<noteq> TypeBulkBytes then Some (Inl ErrBadMultiBulkContent, br1)
          else
            (case decodeBulks n br1 of
               None \<Rightarrow> None
             | Some (Inl e, br2) \<Rightarrow> Some (Inl e, br2)
             | Some (Inr rs, br2) \<Rightarrow> Some (Inr (r # rs), br2)))"

definition decodeMultiBulk :: "Reader \<Rightarrow> Resp list option decoded" where
  "decodeMultiBulk br =
     (case Reader_PeekByte br of
        (Inl e, br1) \<Rightarrow> Some (Inl (IOErr e), br1)
      | (Inr b, br1) \<Rightarrow>
          if b \<noteq> TypeArray then decodeSingleLineMultiBulk br1
          else
            (case Reader_ReadByte br1 of
               (Inl e, br2) \<Rightarrow> Some (Inl (IOErr e), br2)
             | (Inr _, br2) \<Rightarrow>
                 (case decodeInt br2 of
                    (Inl e, br3) \<Rightarrow> Some (Inl e, br3)
                  | (Inr n, br3) \<Rightarrow>
                      if sint n \<le> 0 then Some (Inl ErrBadArrayLen, br3)
                      else if sint n > MaxArrayLen then Some (Inl ErrBadArrayLenTooLong, br3)
                      else
                        (case decodeBulks (nat (sint n)) br3 of
                           None \<Rightarrow> None
                         | Some (Inl e, br4) \<Rightarrow> Some (Inl e, br4)
                         | Some (Inr rs, br4) \<Rightarrow> Some (Inr (Some rs), br4)))))"

record Decoder =
  d_br :: Reader
  d_Err :: "resp_error option"

definition NewDecoderBuffer :: "Reader \<Rightarrow> Decoder" where
  "NewDecoderBuffer br = \<lparr>d_br = br, d_Err = None\<rparr>"

definition NewDecoderSize :: "rd_event list \<Rightarrow> int \<Rightarrow> Decoder" where
  "NewDecoderSize rd sz = NewDecoderBuffer (NewReaderSize rd sz)"

definition NewDecoder :: "rd_event list \<Rightarrow> Decoder" where
  "NewDecoder rd = NewDecoderBuffer (NewReaderSize rd 8192)"

definition Decoder_Decode :: "Decoder \<Rightarrow> ((resp_error + Resp) \<times> Decoder) option" where
  "Decoder_Decode d =
     (if d_Err d \<noteq> None then Some (Inl ErrFailedDecoder, d)
      else
        (case decodeResp (d_br d) of
           None \<Rightarrow> None
         | Some (Inl e, br1) \<Rightarrow> Some (Inl e, d\<lparr>d_br := br1, d_Err := Some e\<rparr>)
         | Some (Inr r, br1) \<Rightarrow> Some (Inr r, d\<lparr>d_br := br1\<rparr>)))"

definition Decoder_DecodeMultiBulk ::
  "Decoder \<Rightarrow> ((resp_error + Resp list option) \<times> Decoder) option" where
  "Decoder_DecodeMultiBulk d =
     (if d_Err d \<noteq> None then Some (Inl ErrFailedDecoder, d)
      else
        (case decodeMultiBulk (d_br d) of
           None \<Rightarrow> None
         | Some (Inl e, br1) \<Rightarrow> Some (Inl e, d\<lparr>d_br := br1, d_Err := Some e\<rparr>)
         | Some (Inr m, br1) \<Rightarrow> Some (Inr m, d\<lparr>d_br := br1\<rparr>)))"

text \<open>\<open>bytes.NewReader(p)\<close> delivers \<open>p\<close> and then \<open>io.EOF\<close>.\<close>

definition bytes_NewReader :: "bytes \<Rightarrow> rd_event list" where
  "bytes_NewReader p = (if p = [] then [] else [RdData p])"

definition Decode :: "rd_event list \<Rightarrow> ((resp_error + Resp) \<times> Decoder) option" where
  "Decode rd = Decoder_Decode (NewDecoder rd)"

definition DecodeFromBytes :: "bytes \<Rightarrow> ((resp_error + Resp) \<times> Decoder) option" where
  "DecodeFromBytes p = Decoder_Decode (NewDecoder (bytes_NewReader p))"

definition DecodeMultiBulkFromBytes ::
  "bytes \<Rightarrow> ((resp_error + Resp list option) \<times> Decoder) option" where
  "DecodeMultiBulkFromBytes p = Decoder_DecodeMultiBulk (NewDecoder (bytes_NewReader p))"

section \<open>encoder.go\<close>

type_synonym encoded = "(resp_error option \<times> Writer) option"

definition encodeTextString :: "bytes \<Rightarrow> Writer \<Rightarrow> encoded" where
  "encodeTextString s bw =
     (case Writer_WriteString s bw of
        None \<Rightarrow> None
      | Some ((_, Some e), bw1) \<Rightarrow> Some (Some (IOErr e), bw1)
      | Some ((_, None), bw1) \<Rightarrow>
          (case Writer_WriteString [CR, LF] bw1 of
             None \<Rightarrow> None
           | Some ((_, Some e), bw2) \<Rightarrow> Some (Some (IOErr e), bw2)
           | Some ((_, None), bw2) \<Rightarrow> Some (None, bw2)))"

text \<open>\<open>Write\<close> of a nil slice writes nothing.\<close>

definition encodeTextBytes :: "bytes option \<Rightarrow> Writer \<Rightarrow> encoded" where
  "encodeTextBytes b bw =
     (case Writer_Write (case b of None \<Rightarrow> [] | Some p \<Rightarrow> p) bw of
        ((_, Some e), bw1) \<Rightarrow> Some (Some (IOErr e), bw1)
      | ((_, None), bw1) \<Rightarrow>
          (case Writer_WriteString [CR, LF] bw1 of
             None \<Rightarrow> None
           | Some ((_, Some e), bw2) \<Rightarrow> Some (Some (IOErr e), bw2)
           | Some ((_, None), bw2) \<Rightarrow> Some (None, bw2)))"

definition encodeInt :: "int64 \<Rightarrow> Writer \<Rightarrow> encoded" where
  "encodeInt v bw = encodeTextString (itoa v) bw"

definition encodeBulkBytes :: "bytes option \<Rightarrow> Writer \<Rightarrow> encoded" where
  "encodeBulkBytes b bw =
     (case b of
        None \<Rightarrow> encodeInt (-1) bw
      | Some p \<Rightarrow>
          (case encodeInt (of_nat (length p)) bw of
             None \<Rightarrow> None
           | Some (Some e, bw1) \<Rightarrow> Some (Some e, bw1)
           | Some (None, bw1) \<Rightarrow> encodeTextBytes b bw1))"

fun encodeResp :: "Resp \<Rightarrow> Writer \<Rightarrow> encoded"
  and encodeArray :: "Resp list option \<Rightarrow> Writer \<Rightarrow> encoded"
  and encodeElems :: "Resp list \<Rightarrow> Writer \<Rightarrow> encoded" where
  "encodeResp (Resp t v a) bw =
     (case Writer_WriteByte t bw of
        (Some e, bw1) \<Rightarrow> Some (Some (IOErr e), bw1)
      | (None, bw1) \<Rightarrow>
          if t = TypeString \<or> t = TypeError \<or> t = TypeInt then encodeTextBytes v bw1
          else if t = TypeBulkBytes then encodeBulkBytes v bw1
          else if t = TypeArray then encodeArray a bw1
          else Some (Some (BadRespType t), bw1))"
| "encodeArray None bw = encodeInt (-1) bw"
| "encodeArray (Some rs) bw =
     (case encodeInt (of_nat (length rs)) bw of
        None \<Rightarrow> None
      | Some (Some e, bw1) \<Rightarrow> Some (Some e, bw1)
      | Some (None, bw1) \<Rightarrow> encodeElems rs bw1)"
| "encodeElems [] bw = Some (None, bw)"
| "encodeElems (r # rs) bw =
     (case encodeResp r bw of
        None \<Rightarrow> None
      | Some (Some e, bw1) \<Rightarrow> Some (Some e, bw1)
      | Some (None, bw1) \<Rightarrow> encodeElems rs bw1)"

definition encodeMultiBulk :: "Resp list option \<Rightarrow> Writer \<Rightarrow> encoded" where
  "encodeMultiBulk multi bw =
     (case Writer_WriteByte TypeArray bw of
        (Some e, bw1) \<Rightarrow> Some (Some (IOErr e), bw1)
      | (None, bw1) \<Rightarrow> encodeArray multi bw1)"

record Encoder =
  e_bw :: Writer
  e_Err :: "resp_error option"

definition NewEncoderBuffer :: "Writer \<Rightarrow> Encoder" where
  "NewEncoderBuffer bw = \<lparr>e_bw = bw, e_Err = None\<rparr>"

definition NewEncoderSize :: "wr_event list \<Rightarrow> int \<Rightarrow> Encoder" where
  "NewEncoderSize wr sz = NewEncoderBuffer (NewWriterSize wr sz)"

definition NewEncoder :: "wr_event list \<Rightarrow> Encoder" where
  "NewEncoder wr = NewEncoderBuffer (NewWriterSize wr 8192)"

text \<open>The common end of \<open>Encode\<close> and \<open>EncodeMultiBulk\<close>.\<close>

definition Encoder_finish ::
  "bool \<Rightarrow> encoded \<Rightarrow> Encoder \<Rightarrow> (resp_error option \<times> Encoder) option" where
  "Encoder_finish flush res e =
     (case res of
        None \<Rightarrow> None
      | Some (Some err, bw1) \<Rightarrow> Some (Some err, e\<lparr>e_bw := bw1, e_Err := Some err\<rparr>)
      | Some (None, bw1) \<Rightarrow>
          if flush then
            (case Writer_Flush bw1 of
               (err, bw2) \<Rightarrow>
                 Some (map_option IOErr err, e\<lparr>e_bw := bw2, e_Err := map_option IOErr err\<rparr>))
          else Some (None, e\<lparr>e_bw := bw1\<rparr>))"

definition Encoder_Encode :: "Resp \<Rightarrow> bool \<Rightarrow> Encoder \<Rightarrow> (resp_error option \<times> Encoder) option" where
  "Encoder_Encode r flush e =
     (if e_Err e \<noteq> None then Some (Some ErrFailedEncoder, e)
      else Encoder_finish flush (encodeResp r (e_bw e)) e)"

definition Encoder_EncodeMultiBulk ::
  "Resp list option \<Rightarrow> bool \<Rightarrow> Encoder \<Rightarrow> (resp_error option \<times> Encoder) option" where
  "Encoder_EncodeMultiBulk multi flush e =
     (if e_Err e \<noteq> None then Some (Some ErrFailedEncoder, e)
      else Encoder_finish flush (encodeMultiBulk multi (e_bw e)) e)"

definition Encoder_Flush :: "Encoder \<Rightarrow> resp_error option \<times> Encoder" where
  "Encoder_Flush e =
     (if e_Err e \<noteq> None then (Some ErrFailedEncoder, e)
      else
        (case Writer_Flush (e_bw e) of
           (Some err, bw1) \<Rightarrow> (Some (IOErr err), e\<lparr>e_bw := bw1, e_Err := Some (IOErr err)\<rparr>)
         | (None, bw1) \<Rightarrow> (None, e\<lparr>e_bw := bw1\<rparr>)))"

definition Encode :: "wr_event list \<Rightarrow> Resp \<Rightarrow> (resp_error option \<times> Encoder) option" where
  "Encode wr r = Encoder_Encode r True (NewEncoder wr)"

text \<open>A \<open>bytes.Buffer\<close> accepts everything.\<close>

definition EncodeToBytes :: "Resp \<Rightarrow> (resp_error + bytes) option" where
  "EncodeToBytes r =
     (case Encode [] r of
        None \<Rightarrow> None
      | Some (Some err, _) \<Rightarrow> Some (Inl err)
      | Some (None, e) \<Rightarrow> Some (Inr (w_out (e_bw e))))"

section \<open>The wire format\<close>

text \<open>
  The bytes of a reply, the replies whose types the encoder knows, and the replies that the
  decoder can return.
\<close>

definition crlf :: "bytes \<Rightarrow> bytes" where
  "crlf s = s @ [CR, LF]"

definition is_text :: "RespType \<Rightarrow> bool" where
  "is_text t \<longleftrightarrow> t = TypeString \<or> t = TypeError \<or> t = TypeInt"

fun wire_bulk :: "bytes option \<Rightarrow> bytes" where
  "wire_bulk None = crlf (FormatInt (-1))"
| "wire_bulk (Some p) = crlf (FormatInt (of_nat (length p))) @ crlf p"

fun wire :: "Resp \<Rightarrow> bytes" and wire_array :: "Resp list option \<Rightarrow> bytes"
  and wire_elems :: "Resp list \<Rightarrow> bytes" where
  "wire (Resp t v a) =
     t # (if is_text t then crlf (case v of None \<Rightarrow> [] | Some p \<Rightarrow> p)
          else if t = TypeBulkBytes then wire_bulk v
          else wire_array a)"
| "wire_array None = crlf (FormatInt (-1))"
| "wire_array (Some rs) = crlf (FormatInt (of_nat (length rs))) @ wire_elems rs"
| "wire_elems [] = []"
| "wire_elems (r # rs) = wire r @ wire_elems rs"

fun typed :: "Resp \<Rightarrow> bool" and typed_array :: "Resp list option \<Rightarrow> bool"
  and typed_elems :: "Resp list \<Rightarrow> bool" where
  "typed (Resp t v a) \<longleftrightarrow> is_text t \<or> t = TypeBulkBytes \<or> (t = TypeArray \<and> typed_array a)"
| "typed_array None \<longleftrightarrow> True"
| "typed_array (Some rs) \<longleftrightarrow> typed_elems rs"
| "typed_elems [] \<longleftrightarrow> True"
| "typed_elems (r # rs) \<longleftrightarrow> typed r \<and> typed_elems rs"

fun wf_bulk :: "bytes option \<Rightarrow> bool" where
  "wf_bulk None \<longleftrightarrow> True"
| "wf_bulk (Some p) \<longleftrightarrow> int (length p) \<le> MaxBulkBytesLen"

fun wf_resp :: "Resp \<Rightarrow> bool" and wf_array :: "Resp list option \<Rightarrow> bool"
  and wf_elems :: "Resp list \<Rightarrow> bool" where
  "wf_resp (Resp t v a) \<longleftrightarrow>
     (is_text t \<and> a = None \<and> (case v of None \<Rightarrow> False | Some p \<Rightarrow> LF \<notin> set p)) \<or>
     (t = TypeBulkBytes \<and> a = None \<and> wf_bulk v) \<or>
     (t = TypeArray \<and> v = None \<and> wf_array a)"
| "wf_array None \<longleftrightarrow> True"
| "wf_array (Some rs) \<longleftrightarrow> int (length rs) \<le> MaxArrayLen \<and> wf_elems rs"
| "wf_elems [] \<longleftrightarrow> True"
| "wf_elems (r # rs) \<longleftrightarrow> wf_resp r \<and> wf_elems rs"

lemma types_distinct [simp]:
  "\<not> is_text TypeBulkBytes" "\<not> is_text TypeArray" "TypeBulkBytes \<noteq> TypeArray" "TypeArray \<noteq> TypeBulkBytes"
  by (auto simp: is_text_def resp_types)

section \<open>What the encoder writes\<close>

text \<open>\<open>encodes f s\<close>: the encoding step \<open>f\<close> returns, hands \<open>s\<close> over and reports the error.\<close>

definition encodes :: "(Writer \<Rightarrow> encoded) \<Rightarrow> bytes \<Rightarrow> bool" where
  "encodes f s \<longleftrightarrow> (\<forall>L w. written L w \<and> w_err w = None \<longrightarrow> (\<exists>e w'. f w = Some (map_option IOErr e, w') \<and>
     written (L @ s) w' \<and> e = w_err w' \<and> (writer_healthy w \<longrightarrow> writer_healthy w')))"

lemma encodesI:
  assumes "\<And>L w. written L w \<Longrightarrow> w_err w = None \<Longrightarrow> \<exists>e w'. f w = Some (map_option IOErr e, w') \<and>
     written (L @ s) w' \<and> e = w_err w' \<and> (writer_healthy w \<longrightarrow> writer_healthy w')"
  shows "encodes f s"
  using assms by (simp add: encodes_def)

lemma encodesE:
  assumes "encodes f s" and "written L w" and "w_err w = None"
  obtains e w' where "f w = Some (map_option IOErr e, w')" "written (L @ s) w'" "e = w_err w'"
    "writer_healthy w \<Longrightarrow> writer_healthy w'"
  using assms unfolding encodes_def by blast

text \<open>Two steps one after the other, the second only without an error.\<close>

lemma encodes_seq:
  assumes "encodes f s" and "encodes g t"
  shows "encodes (\<lambda>w. case f w of None \<Rightarrow> None | Some (Some e, w1) \<Rightarrow> Some (Some e, w1)
     | Some (None, w1) \<Rightarrow> g w1) (s @ t)"
proof (rule encodesI)
  fix L w
  assume w: "written L w" "w_err w = None"
  obtain e w1 where f: "f w = Some (map_option IOErr e, w1)" "written (L @ s) w1" "e = w_err w1"
      "writer_healthy w \<Longrightarrow> writer_healthy w1"
    using encodesE[OF assms(1) w] by blast
  show "\<exists>e w'. (case f w of None \<Rightarrow> None | Some (Some e, w1) \<Rightarrow> Some (Some e, w1)
     | Some (None, w1) \<Rightarrow> g w1) = Some (map_option IOErr e, w') \<and>
     written (L @ s @ t) w' \<and> e = w_err w' \<and> (writer_healthy w \<longrightarrow> writer_healthy w')"
  proof (cases e)
    case None
    with f(3) have "w_err w1 = None" by simp
    then obtain e2 w2 where g: "g w1 = Some (map_option IOErr e2, w2)" "written ((L @ s) @ t) w2"
        "e2 = w_err w2" "writer_healthy w1 \<Longrightarrow> writer_healthy w2"
      using encodesE[OF assms(2) f(2)] by blast
    with None f(1,4) show ?thesis by (intro exI[of _ e2] exI[of _ w2]) simp
  next
    case (Some x)
    with f(3) have "w_err w1 = Some x" by simp
    with Some f(1,4) written_append[OF f(2), of t] show ?thesis
      by (intro exI[of _ e] exI[of _ w1]) simp
  qed
qed

lemma encodes_cong: "encodes f s \<Longrightarrow> f = g \<Longrightarrow> encodes g s"
  by simp

lemma encodes_raw: "encodes (\<lambda>w. case Writer_WriteString p w of None \<Rightarrow> None
      | Some ((_, Some e), w1) \<Rightarrow> Some (Some (IOErr e), w1)
      | Some ((_, None), w1) \<Rightarrow> Some (None, w1)) p"
proof (rule encodesI)
    fix L w
    assume "written L w"
    from bw.writeString_law[OF this, of p] obtain nn e w' where
      "Writer_WriteString p w = Some ((nn, e), w')" "written (L @ p) w'" "e = w_err w'"
      "writer_healthy w \<longrightarrow> writer_healthy w'" by blast
    then show "\<exists>e w'. (case Writer_WriteString p w of None \<Rightarrow> None
      | Some ((_, Some e), w1) \<Rightarrow> Some (Some (IOErr e), w1)
      | Some ((_, None), w1) \<Rightarrow> Some (None, w1)) = Some (map_option IOErr e, w') \<and>
      written (L @ p) w' \<and> e = w_err w' \<and> (writer_healthy w \<longrightarrow> writer_healthy w')"
      by (intro exI[of _ e] exI[of _ w']) (auto split: option.split)
qed

lemma encodes_string: "encodes (encodeTextString s) (crlf s)"
  using encodes_seq[OF encodes_raw[of s] encodes_raw[of "[CR, LF]"]] unfolding crlf_def
  by (rule encodes_cong) (auto simp: fun_eq_iff encodeTextString_def split: option.split prod.split)


lemma encodes_bytes: "encodes (encodeTextBytes v) (crlf (case v of None \<Rightarrow> [] | Some p \<Rightarrow> p))"
proof -
  let ?p = "case v of None \<Rightarrow> [] | Some p \<Rightarrow> p"
  have wr: "encodes (\<lambda>w. case Writer_Write ?p w of ((_, Some e), w1) \<Rightarrow> Some (Some (IOErr e), w1)
      | ((_, None), w1) \<Rightarrow> Some (None, w1)) ?p"
  proof (rule encodesI)
    fix L w
    assume w: "written L w"
    obtain nn e w' where "Writer_Write ?p w = ((nn, e), w')" by (metis prod.exhaust)
    with bw.write_law[OF w this] show "\<exists>e w'. (case Writer_Write ?p w of
        ((_, Some e), w1) \<Rightarrow> Some (Some (IOErr e), w1)
      | ((_, None), w1) \<Rightarrow> Some (None, w1)) = Some (map_option IOErr e, w') \<and>
      written (L @ ?p) w' \<and> e = w_err w' \<and> (writer_healthy w \<longrightarrow> writer_healthy w')"
      by (intro exI[of _ e] exI[of _ w']) (auto split: option.split)
  qed
  show ?thesis
    using encodes_seq[OF wr encodes_raw[of "[CR, LF]"]] unfolding crlf_def
    by (rule encodes_cong) (auto simp: fun_eq_iff encodeTextBytes_def split: option.split prod.split)
qed

lemma encodes_byte:
  assumes "encodes g s"
  shows "encodes (\<lambda>w. case Writer_WriteByte c w of (Some e, w1) \<Rightarrow> Some (Some (IOErr e), w1)
     | (None, w1) \<Rightarrow> g w1) (c # s)"
proof -
  have "encodes (\<lambda>w. case Writer_WriteByte c w of (Some e, w1) \<Rightarrow> Some (Some (IOErr e), w1)
      | (None, w1) \<Rightarrow> Some (None, w1)) [c]"
  proof (rule encodesI)
    fix L w
    assume w: "written L w"
    obtain e w' where "Writer_WriteByte c w = (e, w')" by (metis prod.exhaust)
    with bw.writeByte_law[OF w this] show "\<exists>e w'. (case Writer_WriteByte c w of
        (Some e, w1) \<Rightarrow> Some (Some (IOErr e), w1)
      | (None, w1) \<Rightarrow> Some (None, w1)) = Some (map_option IOErr e, w') \<and>
      written (L @ [c]) w' \<and> e = w_err w' \<and> (writer_healthy w \<longrightarrow> writer_healthy w')"
      by (intro exI[of _ e] exI[of _ w']) (auto split: option.split)
  qed
  from encodes_seq[OF this assms] show ?thesis unfolding append.simps
    by (rule encodes_cong) (auto simp: fun_eq_iff split: option.split prod.split)
qed

lemma encodes_int: "encodes (encodeInt n) (crlf (FormatInt n))"
proof -
  have "encodeInt n = encodeTextString (FormatInt n)"
    by (simp add: fun_eq_iff encodeInt_def itoa_eq_FormatInt)
  then show ?thesis by (simp add: encodes_string)
qed

lemma encodes_bulk: "encodes (encodeBulkBytes v) (wire_bulk v)"
proof (cases v)
  case None
  then have "encodeBulkBytes v = encodeInt (-1)" by (simp add: fun_eq_iff encodeBulkBytes_def)
  with None show ?thesis by (simp add: encodes_int)
next
  case (Some p)
  then show ?thesis
    using encodes_seq[OF encodes_int encodes_bytes[of "Some p"], of "of_nat (length p)"]
    by (simp add: encodeBulkBytes_def[abs_def])
qed

lemma encodeResp_encodes: "typed r \<Longrightarrow> encodes (encodeResp r) (wire r)"
  and encodeArray_encodes: "typed_array a \<Longrightarrow> encodes (encodeArray a) (wire_array a)"
  and encodeElems_encodes: "typed_elems rs \<Longrightarrow> encodes (encodeElems rs) (wire_elems rs)"
proof (induction r and a and rs rule: typed_typed_array_typed_elems.induct)
  case (1 t v a)
  have eq: "encodeResp (Resp t v a) = (\<lambda>w. case Writer_WriteByte t w of
      (Some e, w1) \<Rightarrow> Some (Some (IOErr e), w1) | (None, w1) \<Rightarrow>
      (if is_text t then encodeTextBytes v else if t = TypeBulkBytes then encodeBulkBytes v
       else encodeArray a) w1)"
    using 1(2) by (auto simp: fun_eq_iff is_text_def split: option.split prod.split)
  show ?case
    unfolding eq wire.simps
    by (rule encodes_byte) (use 1 encodes_bytes encodes_bulk in auto)
next
  case 2
  then show ?case using encodes_int[of "-1"] by (simp add: fun_eq_iff)
next
  case (3 rs)
  then show ?case
    using encodes_seq[OF encodes_int 3(1), of "of_nat (length rs)"] by simp
next
  case 4
  then show ?case by (auto intro!: encodesI)
next
  case (5 r rs)
  then show ?case using encodes_seq[OF 5(1,2)] by simp
qed

section \<open>What the decoder reads\<close>

text \<open>
  \<open>decodes f s x\<close>: on every healthy reader whose stream starts with \<open>s\<close>, however it is
  split, \<open>f\<close> returns \<open>x\<close> and leaves the rest.  A length line is at most 22 bytes, which
  \<open>ReadSlice\<close> must fit into the buffer.
\<close>

definition decodes :: "(Reader \<Rightarrow> 'a decoded) \<Rightarrow> bytes \<Rightarrow> 'a \<Rightarrow> bool" where
  "decodes f s x \<longleftrightarrow> (\<forall>b rest. reader_ok b \<and> 22 \<le> reader_cap b \<and> stream b = s @ rest \<longrightarrow>
     (\<exists>b'. f b = Some (Inr x, b') \<and> advanced b rest b'))"

lemma decodesI:
  assumes "\<And>b rest. reader_ok b \<Longrightarrow> 22 \<le> reader_cap b \<Longrightarrow> stream b = s @ rest \<Longrightarrow>
     \<exists>b'. f b = Some (Inr x, b') \<and> advanced b rest b'"
  shows "decodes f s x"
  using assms by (simp add: decodes_def)

lemma decodesE:
  assumes "decodes f s x" and "reader_ok b" and "22 \<le> reader_cap b" and "stream b = s @ rest"
  obtains b' where "f b = Some (Inr x, b')" "advanced b rest b'" "reader_ok b'" "22 \<le> reader_cap b'"
    "stream b' = rest"
  using assms unfolding decodes_def advanced_def by metis

lemma trimCRLF_crlf [simp]: "trimCRLF (l @ [CR, LF]) = Inr l"
  by (simp add: trimCRLF_def)

lemma decodes_text: "LF \<notin> set p \<Longrightarrow> decodes decodeTextBytes (crlf p) p"
proof (rule decodesI)
  fix b rest
  assume p: "LF \<notin> set p" and b: "reader_ok b" and s: "stream b = crlf p @ rest"
  have "stream b = (p @ [CR]) @ LF # rest" using s by (simp add: crlf_def)
  from br.readBytes_law[OF b this] p obtain b' where
    "Reader_ReadBytes LF b = Some (Inr (p @ [CR, LF]), b')" "reader_ok b'" "stream b' = rest"
    "reader_cap b' = reader_cap b" by auto
  then show "\<exists>b'. decodeTextBytes b = Some (Inr p, b') \<and> advanced b rest b'"
    by (simp add: decodeTextBytes_def advanced_def)
qed

lemma decodeInt_crlf:
  assumes "reader_ok b" and "22 \<le> reader_cap b" and "stream b = crlf (FormatInt n) @ rest"
  obtains b' where "decodeInt b = (Inr n, b')" "advanced b rest b'" "reader_ok b'"
    "22 \<le> reader_cap b'" "stream b' = rest"
proof -
  have "stream b = (FormatInt n @ [CR]) @ LF # rest" using assms(3) by (simp add: crlf_def)
  from br.readSlice_law[OF assms(1) this] FormatInt_length[of n] assms(2) obtain b' where
    "Reader_ReadSlice LF b = ((FormatInt n @ [CR, LF], None), b')" "reader_ok b'" "stream b' = rest"
    "reader_cap b' = reader_cap b" by auto
  with that assms(2) show ?thesis by (simp add: decodeInt_def advanced_def)
qed

lemma sint_of_length: "int n \<le> 2 ^ 30 \<Longrightarrow> sint (of_nat n :: int64) = int n"
  by (simp add: signed_of_nat signed_take_bit_int_eq_self)

lemma decodes_bulk: "wf_bulk v \<Longrightarrow> decodes decodeBulkBytes (wire_bulk v) v"
proof (rule decodesI)
  fix b rest
  assume v: "wf_bulk v" and b: "reader_ok b" "22 \<le> reader_cap b" "stream b = wire_bulk v @ rest"
  show "\<exists>b'. decodeBulkBytes b = Some (Inr v, b') \<and> advanced b rest b'"
  proof (cases v)
    case None
    then obtain b' where "decodeInt b = (Inr (-1), b')" "advanced b rest b'"
      using decodeInt_crlf[OF b(1,2), of "-1" rest] b(3) by auto
    with None show ?thesis by (simp add: decodeBulkBytes_def MaxBulkBytesLen_def)
  next
    case (Some p)
    have n: "sint (of_nat (length p) :: int64) = int (length p)"
      using v Some by (intro sint_of_length) (simp add: MaxBulkBytesLen_def)
    obtain b1 where b1: "decodeInt b = (Inr (of_nat (length p)), b1)" "advanced b (crlf p @ rest) b1"
        "reader_ok b1" "stream b1 = crlf p @ rest"
      using decodeInt_crlf[OF b(1,2), of "of_nat (length p)" "crlf p @ rest"] b(3) Some by auto
    from br.readFull_law[OF b1(3,4)] obtain b2 where
        b2: "Reader_ReadFull (length p + 2) b1 = Some (Inr (p @ [CR, LF]), b2)" "reader_ok b2"
        "stream b2 = rest" "reader_cap b2 = reader_cap b1" by (auto simp: crlf_def)
    have "advanced b rest b2" using b1(2) b2 by (simp add: advanced_def)
    with b1(1) b2(1) n Some v show ?thesis
      by (simp add: decodeBulkBytes_def nth_append)
  qed
qed

lemma decodes_elems:
  assumes "list_all2 (decodes dec) ss rs"
  shows "decodes (decodeElems dec (length rs)) (concat ss) rs"
  using assms
proof (induction ss rs rule: list_all2_induct)
  case Nil
  then show ?case by (auto intro!: decodesI simp: advanced_def)
next
  case (Cons s ss r rs)
  show ?case
  proof (rule decodesI)
    fix b rest
    assume b: "reader_ok b" "22 \<le> reader_cap b" "stream b = concat (s # ss) @ rest"
    then have "stream b = s @ concat ss @ rest" by simp
    with b(1,2) obtain b1 where b1: "dec b = Some (Inr r, b1)" "advanced b (concat ss @ rest) b1"
        "reader_ok b1" "22 \<le> reader_cap b1" "stream b1 = concat ss @ rest"
      using decodesE[OF Cons.hyps(1)] by metis
    obtain b2 where "decodeElems dec (length rs) b1 = Some (Inr rs, b2)" "advanced b1 rest b2"
      using decodesE[OF Cons.IH b1(3,4,5)] by metis
    with b1 show "\<exists>b'. decodeElems dec (length (r # rs)) b = Some (Inr (r # rs), b') \<and> advanced b rest b'"
      by (auto intro: advanced_trans)
  qed
qed

lemma decodes_array:
  assumes "wf_array a" and "\<And>rs. a = Some rs \<Longrightarrow> list_all2 (decodes dec) (map wire rs) rs"
  shows "decodes (decodeArray dec) (wire_array a) a"
proof (rule decodesI)
  fix b rest
  assume b: "reader_ok b" "22 \<le> reader_cap b" "stream b = wire_array a @ rest"
  show "\<exists>b'. decodeArray dec b = Some (Inr a, b') \<and> advanced b rest b'"
  proof (cases a)
    case None
    then obtain b' where "decodeInt b = (Inr (-1), b')" "advanced b rest b'"
      using decodeInt_crlf[OF b(1,2), of "-1" rest] b(3) by auto
    with None show ?thesis by (simp add: decodeArray_def MaxArrayLen_def)
  next
    case (Some rs)
    have w: "wire_elems rs = concat (map wire rs)" by (induction rs) auto
    have n: "sint (of_nat (length rs) :: int64) = int (length rs)"
      using assms(1) Some by (intro sint_of_length) (simp add: MaxArrayLen_def)
    obtain b1 where b1: "decodeInt b = (Inr (of_nat (length rs)), b1)"
        "advanced b (concat (map wire rs) @ rest) b1" "reader_ok b1" "22 \<le> reader_cap b1"
        "stream b1 = concat (map wire rs) @ rest"
      using decodeInt_crlf[OF b(1,2), of "of_nat (length rs)" "concat (map wire rs) @ rest"] b(3) Some w
      by auto
    obtain b2 where "decodeElems dec (length rs) b1 = Some (Inr rs, b2)" "advanced b1 rest b2"
      using decodesE[OF decodes_elems[OF assms(2)[OF Some]] b1(3,4,5)] by metis
    with b1 n Some assms(1) show ?thesis
      by (auto simp: decodeArray_def intro: advanced_trans)
  qed
qed

lemma wire_elem_shorter: "r \<in> set rs \<Longrightarrow> length (wire r) < length (wire_array (Some rs))"
proof -
  have "r \<in> set rs \<Longrightarrow> length (wire r) \<le> length (wire_elems rs)" for rs
    by (induction rs) auto
  moreover assume "r \<in> set rs"
  ultimately have "length (wire r) \<le> length (wire_elems rs)" by blast
  then show ?thesis by (simp add: crlf_def)
qed

lemma wf_elems_all: "wf_elems rs \<longleftrightarrow> list_all wf_resp rs"
  by (induction rs) auto

lemma decodes_depth:
  assumes "wf_resp r" and "length (wire r) \<le> k"
  shows "decodes (decodeResp_depth k) (wire r) r"
  using assms
proof (induction k arbitrary: r)
  case 0
  then show ?case by (cases r) simp
next
  case (Suc k)
  obtain t v a where r: "r = Resp t v a" by (metis Resp.exhaust)
  show ?case
  proof (rule decodesI)
    fix b rest
    assume b: "reader_ok b" "22 \<le> reader_cap b" "stream b = wire r @ rest"
    obtain s where s: "wire r = t # s" by (simp add: r)
    from br.readByte_law[OF b(1), of t "s @ rest"] b(3) s obtain b1 where
        b1: "Reader_ReadByte b = (Inr t, b1)" "reader_ok b1" "stream b1 = s @ rest"
        "reader_cap b1 = reader_cap b" by auto
    have adv: "advanced b1 rest b2 \<Longrightarrow> advanced b rest b2" for b2
      using b1(4) by (simp add: advanced_def)
    have cap1: "22 \<le> reader_cap b1" using b(2) b1(4) by simp
    consider (line) p where "is_text t" "a = None" "v = Some p" "LF \<notin> set p"
      | (bulk) "t = TypeBulkBytes" "a = None" "wf_bulk v"
      | (array) "t = TypeArray" "v = None" "wf_array a"
      using Suc.prems(1) by (auto simp: r split: option.splits)
    then show "\<exists>b'. decodeResp_depth (Suc k) b = Some (Inr r, b') \<and> advanced b rest b'"
    proof cases
      case line
      then have "s = crlf p" using s by (simp add: r)
      with b1 cap1 obtain b2 where "decodeTextBytes b1 = Some (Inr p, b2)" "advanced b1 rest b2"
        using decodesE[OF decodes_text[OF line(4)] b1(2) cap1] by metis
      with line b1(1) adv show ?thesis by (simp add: r is_text_def decodeResp_step_def)
    next
      case bulk
      then have "s = wire_bulk v" using s by (simp add: r)
      with b1 cap1 obtain b2 where "decodeBulkBytes b1 = Some (Inr v, b2)" "advanced b1 rest b2"
        using decodesE[OF decodes_bulk[OF bulk(3)] b1(2) cap1] by metis
      with bulk b1(1) adv show ?thesis by (simp add: r resp_types decodeResp_step_def)
    next
      case array
      then have sa: "s = wire_array a" using s by (simp add: r)
      have "list_all2 (decodes (decodeResp_depth k)) (map wire rs) rs" if rs: "a = Some rs" for rs
      proof -
        have "decodes (decodeResp_depth k) (wire q) q" if q: "q \<in> set rs" for q
        proof (rule Suc.IH)
          show "wf_resp q" using array(3) rs q by (simp add: wf_elems_all list_all_iff)
          show "length (wire q) \<le> k"
            using wire_elem_shorter[OF q] Suc.prems(2) s sa rs by simp
        qed
        then show ?thesis by (simp add: list_all2_conv_all_nth)
      qed
      then obtain b2 where "decodeArray (decodeResp_depth k) b1 = Some (Inr a, b2)" "advanced b1 rest b2"
        using decodesE[OF decodes_array[OF array(3)] b1(2) cap1] b1(3) sa by metis
      with array b1(1) adv show ?thesis by (simp add: r resp_types decodeResp_step_def)
    qed
  qed
qed

lemma delivered_script_bytes: "length (delivered es) \<le> script_bytes es"
  by (induction es rule: delivered.induct) (auto simp: script_bytes_def)

lemma stream_pending: "length (stream b) \<le> pending b"
  by (simp add: stream_def pending_def delivered_script_bytes)

lemma decodes_resp: "wf_resp r \<Longrightarrow> decodes decodeResp (wire r) r"
proof (rule decodesI)
  fix b rest
  assume r: "wf_resp r" and b: "reader_ok b" "22 \<le> reader_cap b" "stream b = wire r @ rest"
  have "length (wire r) \<le> Suc (pending b)" using stream_pending[of b] b(3) by simp
  from decodesE[OF decodes_depth[OF r this] b] show "\<exists>b'. decodeResp b = Some (Inr r, b') \<and>
      advanced b rest b'" unfolding decodeResp_def by metis
qed

lemma decodes_bulks:
  assumes "list_all (\<lambda>r. wf_resp r \<and> Resp_Type r = TypeBulkBytes) rs"
  shows "decodes (decodeBulks (length rs)) (wire_elems rs) rs"
  using assms
proof (induction rs)
  case Nil
  then show ?case by (auto intro!: decodesI simp: advanced_def)
next
  case (Cons r rs)
  show ?case
  proof (rule decodesI)
    fix b rest
    assume b: "reader_ok b" "22 \<le> reader_cap b" "stream b = wire_elems (r # rs) @ rest"
    then have st: "stream b = wire r @ wire_elems rs @ rest" by simp
    have "wf_resp r" using Cons.prems by simp
    from decodesE[OF decodes_resp[OF this] b(1,2) st] obtain b1 where
        b1: "decodeResp b = Some (Inr r, b1)" "advanced b (wire_elems rs @ rest) b1"
        "reader_ok b1" "22 \<le> reader_cap b1" "stream b1 = wire_elems rs @ rest" .
    obtain b2 where "decodeBulks (length rs) b1 = Some (Inr rs, b2)" "advanced b1 rest b2"
      using decodesE[OF Cons.IH b1(3,4,5)] Cons.prems by auto
    with b1 Cons.prems show "\<exists>b'. decodeBulks (length (r # rs)) b = Some (Inr (r # rs), b') \<and>
        advanced b rest b'"
      by (auto intro: advanced_trans)
  qed
qed

lemma decodes_multi:
  assumes "rs \<noteq> []" and "int (length rs) \<le> MaxArrayLen"
    and "list_all (\<lambda>r. wf_resp r \<and> Resp_Type r = TypeBulkBytes) rs"
  shows "decodes decodeMultiBulk (wire (NewArray (Some rs))) (Some rs)"
proof (rule decodesI)
  fix b rest
  let ?s = "wire_elems rs @ rest"
  assume b: "reader_ok b" "22 \<le> reader_cap b" "stream b = wire (NewArray (Some rs)) @ rest"
  then have "stream b = TypeArray # crlf (FormatInt (of_nat (length rs))) @ ?s"
    by (simp add: NewArray_def)
  from br.peek_then_read[OF b(1) this] obtain b1 b2 where
      b1: "Reader_PeekByte b = (Inr TypeArray, b1)" "Reader_ReadByte b1 = (Inr TypeArray, b2)"
      "reader_ok b2" "stream b2 = crlf (FormatInt (of_nat (length rs))) @ ?s"
      "reader_cap b2 = reader_cap b" .
  have n: "sint (of_nat (length rs) :: int64) = int (length rs)"
    using assms(2) by (intro sint_of_length) (simp add: MaxArrayLen_def)
  obtain b3 where b3: "decodeInt b2 = (Inr (of_nat (length rs)), b3)" "advanced b2 ?s b3"
      "reader_ok b3" "22 \<le> reader_cap b3" "stream b3 = ?s"
    using decodeInt_crlf[OF b1(3) _ b1(4)] b(2) b1(5) by metis
  obtain b4 where "decodeBulks (length rs) b3 = Some (Inr rs, b4)" "advanced b3 rest b4"
    using decodesE[OF decodes_bulks[OF assms(3)] b3(3,4,5)] by metis
  with b1 b3 n assms(1,2) show "\<exists>b'. decodeMultiBulk b = Some (Inr (Some rs), b') \<and> advanced b rest b'"
    by (auto simp: decodeMultiBulk_def advanced_def)
qed

section \<open>Inline commands\<close>

fun split_on :: "char \<Rightarrow> bytes \<Rightarrow> bytes list" where
  "split_on c [] = [[]]"
| "split_on c (x # xs) =
     (if x = c then [] # split_on c xs
      else case split_on c xs of [] \<Rightarrow> [[x]] | y # ys \<Rightarrow> (x # y) # ys)"

lemma split_on_none: "c \<notin> set s \<Longrightarrow> split_on c s = [s]"
  by (induction s) auto

lemma split_on_append: "c \<notin> set u \<Longrightarrow> split_on c (u @ c # v) = u # split_on c v"
  by (induction u) auto

definition inline_words :: "bytes \<Rightarrow> bytes list" where
  "inline_words s = filter (\<lambda>w. w \<noteq> []) (split_on (CHR '' '') s)"

lemma splitLoop_words:
  assumes "l \<le> r" and "r \<le> length b" and "CHR '' '' \<notin> set (go_slice b l r)"
  shows "splitLoop b l r multi = multi @ map (NewBulkBytes \<circ> Some) (inline_words (drop l b))"
  using assms
proof (induction b l r multi rule: splitLoop.induct)
  case (1 b l r multi)
  let ?m = "if l < r then multi @ [NewBulkBytes (Some (go_slice b l r))] else multi"
  have word: "go_slice b l r \<noteq> [] \<longleftrightarrow> l < r"
    using 1(3,4) by (auto simp: go_slice_def)
  consider (last) "r = length b" | (space) "r < length b" "b ! r = CHR '' ''"
    | (char) "r < length b" "b ! r \<noteq> CHR '' ''" using 1(4) by linarith
  then show ?case
  proof cases
    case last
    then have sl: "go_slice b l r = drop l b" by (simp add: go_slice_def)
    with 1(5) have "inline_words (drop l b) = (if l < r then [go_slice b l r] else [])"
      using word by (simp add: inline_words_def split_on_none)
    moreover have "splitLoop b l r multi = ?m"
      using last by (simp add: splitLoop.simps[of b l "length b"] splitLoop.simps[of b "Suc (length b)"])
    ultimately show ?thesis by simp
  next
    case space
    have "drop l b = go_slice b l r @ b ! r # drop (r + 1) b"
      using space(1) 1(3) id_take_nth_drop[of "r - l" "drop l b"] by (simp add: go_slice_def)
    with 1(5) space word have "inline_words (drop l b) =
        (if l < r then [go_slice b l r] else []) @ inline_words (drop (r + 1) b)"
      by (simp add: inline_words_def split_on_append)
    moreover have "splitLoop b (r + 1) (r + 1) ?m =
        ?m @ map (NewBulkBytes \<circ> Some) (inline_words (drop (r + 1) b))"
      using space 1(4) by (intro 1(1)) (auto simp: go_slice_def)
    ultimately show ?thesis
      using space by (simp add: splitLoop.simps[of b l r])
  next
    case char
    have "go_slice b l (r + 1) = go_slice b l r @ [b ! r]"
      using char(1) 1(3) take_Suc_conv_app_nth[of "r - l" "drop l b"]
      by (simp add: go_slice_def Suc_diff_le)
    with char 1(3-5) have "splitLoop b l (r + 1) multi =
        multi @ map (NewBulkBytes \<circ> Some) (inline_words (drop l b))"
      by (intro 1(2)) auto
    with char show ?thesis by (simp add: splitLoop.simps[of b l r])
  qed
qed

section \<open>The decoder returns on every reader\<close>

definition returns :: "(Reader \<Rightarrow> 'a decoded) \<Rightarrow> Reader \<Rightarrow> bool" where
  "returns f b \<longleftrightarrow> (\<exists>res b'. f b = Some (res, b') \<and> stepped b b')"

lemma returnsE:
  assumes "returns f b"
  obtains res b' where "f b = Some (res, b')" "stepped b b'" "reader_inv b'"
  using assms by (auto simp: returns_def stepped_def)

lemma returns_text: "reader_inv b \<Longrightarrow> returns decodeTextBytes b"
  using Reader_ReadBytes_total[of b LF]
  by (auto simp: returns_def decodeTextBytes_def split: sum.split)

lemma decodeInt_stepped:
  assumes "reader_inv b" and "decodeInt b = (res, b')"
  shows "stepped b b'"
proof -
  obtain f err b1 where "Reader_ReadSlice LF b = ((f, err), b1)" by (metis prod.exhaust)
  with Reader_ReadSlice_stepped[OF assms(1) this] assms(2) show ?thesis
    by (auto simp: decodeInt_def split: option.splits sum.splits)
qed

lemma returns_bulk:
  assumes "reader_inv b"
  shows "returns decodeBulkBytes b"
proof -
  obtain n b1 where d: "decodeInt b = (n, b1)" by (metis prod.exhaust)
  note st = decodeInt_stepped[OF assms d]
  then have "reader_inv b1" by (simp add: stepped_def)
  from Reader_ReadFull_total[OF this] obtain res b2 where
    "Reader_ReadFull (nat (sint (projr n)) + 2) b1 = Some (res, b2)" "stepped b1 b2" by blast
  with d st stepped_trans[OF st] show ?thesis
    by (cases n) (auto simp: returns_def decodeBulkBytes_def split: sum.split)
qed

lemma returns_elems:
  assumes "reader_inv b" and "\<And>c. stepped b c \<Longrightarrow> returns dec c"
  shows "returns (decodeElems dec n) b"
  using assms
proof (induction n arbitrary: b)
  case 0
  then show ?case by (simp add: returns_def)
next
  case (Suc n)
  from returnsE[OF Suc.prems(2)[OF stepped_refl[OF Suc.prems(1)]]] obtain res b1 where
    d: "dec b = Some (res, b1)" "stepped b b1" "reader_inv b1" .
  have "returns (decodeElems dec n) b1"
    using Suc.prems(2) d(2) by (intro Suc.IH d(3)) (blast intro: stepped_trans)
  then obtain res2 b2 where "decodeElems dec n b1 = Some (res2, b2)" "stepped b1 b2"
    by (auto simp: returns_def)
  with d stepped_trans[OF d(2)] show ?case
    by (auto simp: returns_def split: sum.split)
qed

lemma returns_array:
  assumes "reader_inv b" and "\<And>c. stepped b c \<Longrightarrow> returns dec c"
  shows "returns (decodeArray dec) b"
proof -
  obtain n b1 where d: "decodeInt b = (n, b1)" by (metis prod.exhaust)
  note st = decodeInt_stepped[OF assms(1) d]
  then have "reader_inv b1" by (simp add: stepped_def)
  moreover have "returns dec c" if "stepped b1 c" for c
    using assms(2) stepped_trans[OF st that] .
  ultimately have "returns (decodeElems dec (nat (sint (projr n)))) b1" by (rule returns_elems)
  then obtain res b2 where "decodeElems dec (nat (sint (projr n))) b1 = Some (res, b2)" "stepped b1 b2"
    by (auto simp: returns_def)
  with d st stepped_trans[OF st] show ?thesis
    by (cases n) (auto simp: returns_def decodeArray_def split: sum.split)
qed

lemma returns_depth:
  assumes "reader_inv b" and "pending b < k"
  shows "returns (decodeResp_depth k) b"
  using assms
proof (induction k arbitrary: b)
  case 0
  then show ?case by simp
next
  case (Suc k)
  obtain t b1 where rb: "Reader_ReadByte b = (t, b1)" by (metis prod.exhaust)
  note st = Reader_ReadByte_stepped[OF Suc.prems(1) rb]
  then have inv: "reader_inv b1" by (simp add: stepped_def)
  show ?case
  proof (cases t)
    case (Inl e)
    with rb st show ?thesis by (simp add: returns_def decodeResp_step_def)
  next
    case (Inr c)
    with st Suc.prems(2) have less: "pending b1 < k" by auto
    have elem: "returns (decodeResp_depth k) x" if "stepped b1 x" for x
      using that less by (intro Suc.IH) (auto simp: stepped_def)
    obtain r1 x1 where 1: "decodeTextBytes b1 = Some (r1, x1)" "stepped b1 x1" "reader_inv x1"
      using returnsE[OF returns_text[OF inv]] .
    obtain r2 x2 where 2: "decodeBulkBytes b1 = Some (r2, x2)" "stepped b1 x2" "reader_inv x2"
      using returnsE[OF returns_bulk[OF inv]] .
    obtain r3 x3 where 3: "decodeArray (decodeResp_depth k) b1 = Some (r3, x3)" "stepped b1 x3"
        "reader_inv x3"
      using returnsE[OF returns_array[OF inv elem]] .
    have "stepped b x1" "stepped b x2" "stepped b x3"
      using st 1(2) 2(2) 3(2) by (blast intro: stepped_trans)+
    with 1(1) 2(1) 3(1) rb Inr st show ?thesis
      by (simp add: returns_def decodeResp_step_def split: sum.split)
  qed
qed

lemma returns_resp: "reader_inv b \<Longrightarrow> returns decodeResp b"
  using returns_depth[of b "Suc (pending b)"] by (simp add: returns_def decodeResp_def)

lemma returns_single: "reader_inv b \<Longrightarrow> returns decodeSingleLineMultiBulk b"
proof -
  assume "reader_inv b"
  from returnsE[OF returns_text[OF this]] obtain res b1 where
    "decodeTextBytes b = Some (res, b1)" "stepped b b1" "reader_inv b1" .
  then show ?thesis
    by (simp add: returns_def decodeSingleLineMultiBulk_def Let_def split: sum.split)
qed

lemma returns_bulks: "reader_inv b \<Longrightarrow> returns (decodeBulks n) b"
proof (induction n arbitrary: b)
  case 0
  then show ?case by (simp add: returns_def)
next
  case (Suc n)
  from returnsE[OF returns_resp[OF Suc.prems]] obtain res b1 where
    d: "decodeResp b = Some (res, b1)" "stepped b b1" "reader_inv b1" .
  from returnsE[OF Suc.IH[OF d(3)]] obtain res2 b2 where
    "decodeBulks n b1 = Some (res2, b2)" "stepped b1 b2" "reader_inv b2" .
  with d stepped_trans[OF d(2)] show ?case
    by (auto simp: returns_def split: sum.split)
qed

lemma returns_multi:
  assumes "reader_inv b"
  shows "returns decodeMultiBulk b"
proof -
  obtain p b1 where pk: "Reader_PeekByte b = (p, b1)" by (metis prod.exhaust)
  note st1 = Reader_PeekByte_stepped[OF assms pk]
  then have inv1: "reader_inv b1" by (simp add: stepped_def)
  obtain t b2 where rb: "Reader_ReadByte b1 = (t, b2)" by (metis prod.exhaust)
  have st2: "stepped b1 b2" using Reader_ReadByte_stepped[OF inv1 rb] by blast
  then have inv2: "reader_inv b2" by (simp add: stepped_def)
  obtain n b3 where di: "decodeInt b2 = (n, b3)" by (metis prod.exhaust)
  note st3 = decodeInt_stepped[OF inv2 di]
  then have inv3: "reader_inv b3" by (simp add: stepped_def)
  obtain r4 b4 where 4: "decodeBulks (nat (sint (projr n))) b3 = Some (r4, b4)" "stepped b3 b4"
      "reader_inv b4" using returnsE[OF returns_bulks[OF inv3]] .
  obtain r5 b5 where 5: "decodeSingleLineMultiBulk b1 = Some (r5, b5)" "stepped b1 b5"
      "reader_inv b5" using returnsE[OF returns_single[OF inv1]] .
  have all: "stepped b b2" "stepped b b3" "stepped b b4" "stepped b b5"
    using st1 st2 st3 4(2) 5(2) by (blast intro: stepped_trans)+
  show ?thesis
    using pk rb di 4(1) 5(1) st1 all
    by (cases p; cases t; cases n) (auto simp: returns_def decodeMultiBulk_def split: sum.split)
qed

text \<open>
  The bound on the depth does not show: \<open>decodeResp\<close> satisfies the recursion of the source.
\<close>

lemma decodeElems_mono:
  assumes "\<And>b x. f b = Some x \<Longrightarrow> g b = Some x" and "decodeElems f n b = Some x"
  shows "decodeElems g n b = Some x"
  using assms(2)
proof (induction n arbitrary: b x)
  case 0
  then show ?case by simp
next
  case (Suc n)
  then obtain res b1 where "f b = Some (res, b1)" by (cases "f b") auto
  with Suc assms(1)[of b "(res, b1)"] show ?case
    by (auto split: sum.splits option.splits prod.splits)
qed

lemma decodeArray_mono:
  assumes "\<And>b x. f b = Some x \<Longrightarrow> g b = Some x" and "decodeArray f b = Some x"
  shows "decodeArray g b = Some x"
proof -
  obtain n b1 where di: "decodeInt b = (n, b1)" by (metis prod.exhaust)
  show ?thesis
  proof (cases n)
    case (Inl e)
    with di assms(2) show ?thesis by (simp add: decodeArray_def)
  next
    case (Inr m)
    show ?thesis
      using assms(2) di Inr decodeElems_mono[of f g, OF assms(1), of "nat (sint m)" b1]
      by (cases "decodeElems f (nat (sint m)) b1") (auto simp: decodeArray_def split: if_splits)
  qed
qed

lemma type_array_distinct: "TypeArray \<noteq> TypeString" "TypeArray \<noteq> TypeError" "TypeArray \<noteq> TypeInt"
  by (simp_all add: resp_types)

lemma decodeResp_step_mono:
  assumes "\<And>b x. f b = Some x \<Longrightarrow> g b = Some x" and "decodeResp_step f b = Some x"
  shows "decodeResp_step g b = Some x"
proof -
  obtain t b1 where rb: "Reader_ReadByte b = (t, b1)" by (metis prod.exhaust)
  show ?thesis
  proof (cases "t = Inr TypeArray")
    case True
    then have "decodeResp_step h b = (case h b1 of None \<Rightarrow> None | Some (Inl e, b2) \<Rightarrow> Some (Inl e, b2)
        | Some (Inr a, b2) \<Rightarrow> Some (Inr (Resp TypeArray None a), b2))" for h
      using type_array_distinct by (simp add: decodeResp_step_def rb)
    with assms show ?thesis by (cases "f b1") auto
  next
    case False
    then have "decodeResp_step f b = decodeResp_step g b"
      by (auto simp: decodeResp_step_def rb split: sum.split)
    with assms(2) show ?thesis by simp
  qed
qed

lemma decodeResp_depth_Suc:
  "decodeResp_depth k b = Some x \<Longrightarrow> decodeResp_depth (Suc k) b = Some x"
proof (induction k arbitrary: b x)
  case 0
  then show ?case by simp
next
  case (Suc k)
  have mono: "decodeArray (decodeResp_depth k) c = Some y \<Longrightarrow>
      decodeArray (decodeResp_depth (Suc k)) c = Some y" for c y
    by (rule decodeArray_mono[OF Suc.IH])
  show ?case
    unfolding decodeResp_depth.simps(2)[of "Suc k" b]
    by (rule decodeResp_step_mono[OF mono Suc.prems[unfolded decodeResp_depth.simps(2)[of k b]]])
qed

lemma decodeResp_depth_mono:
  "k \<le> k' \<Longrightarrow> decodeResp_depth k b = Some x \<Longrightarrow> decodeResp_depth k' b = Some x"
  by (induction k' rule: dec_induct) (use decodeResp_depth_Suc in blast)+


lemma decodeResp_depth_enough:
  assumes "reader_inv b" and "pending b < k"
  shows "decodeResp_depth k b = decodeResp b"
proof -
  from returns_resp[OF assms(1)] obtain x where x: "decodeResp b = Some x" by (auto simp: returns_def)
  with decodeResp_depth_mono[of "Suc (pending b)" k b x] assms(2) show ?thesis
    by (simp add: decodeResp_def)
qed

lemma decodeElems_cong:
  assumes "reader_inv b" and "\<And>c. stepped b c \<Longrightarrow> returns f c" and "\<And>c. stepped b c \<Longrightarrow> f c = g c"
  shows "decodeElems f n b = decodeElems g n b"
  using assms
proof (induction n arbitrary: b)
  case 0
  then show ?case by simp
next
  case (Suc n)
  from returnsE[OF Suc.prems(2)[OF stepped_refl[OF Suc.prems(1)]]] obtain res b1 where
    d: "f b = Some (res, b1)" "stepped b b1" "reader_inv b1" .
  have "decodeElems f n b1 = decodeElems g n b1"
    using Suc.prems(2,3) d(2) by (intro Suc.IH d(3)) (blast intro: stepped_trans)+
  with d(1) Suc.prems(3)[OF stepped_refl[OF Suc.prems(1)]] show ?case
    by (simp split: sum.split)
qed

lemma decodeResp_unfold:
  assumes "reader_inv b"
  shows "decodeResp b = decodeResp_step (decodeArray decodeResp) b"
proof -
  obtain t b1 where rb: "Reader_ReadByte b = (t, b1)" by (metis prod.exhaust)
  note st = Reader_ReadByte_stepped[OF assms rb]
  then have inv1: "reader_inv b1" by (simp add: stepped_def)
  have arr: "decodeArray (decodeResp_depth (pending b)) b1 = decodeArray decodeResp b1" if "t = Inr c" for c
  proof -
    obtain n b2 where di: "decodeInt b1 = (n, b2)" by (metis prod.exhaust)
    note st2 = decodeInt_stepped[OF inv1 di]
    then have inv2: "reader_inv b2" by (simp add: stepped_def)
    have less: "reader_inv c \<and> pending c < pending b" if "stepped b2 c" for c
      using that st2 st \<open>t = Inr _\<close> by (auto simp: stepped_def)
    have "decodeElems (decodeResp_depth (pending b)) m b2 = decodeElems decodeResp m b2" for m
      using less returns_depth decodeResp_depth_enough by (intro decodeElems_cong inv2) blast+
    with di show ?thesis by (simp add: decodeArray_def split: sum.split)
  qed
  have "decodeResp b = decodeResp_step (decodeArray (decodeResp_depth (pending b))) b"
    by (simp add: decodeResp_def)
  also have "\<dots> = decodeResp_step (decodeArray decodeResp) b"
    using rb arr by (cases t) (auto simp: decodeResp_step_def)
  finally show ?thesis .
qed

section \<open>What the decoder accepts\<close>

text \<open>
  A line that \<open>ReadBytes\<close> returns ends at its first delimiter; so the decoder returns
  well-formed replies only, within the limits on lengths.
\<close>

lemma Reader_sliceLoop_delim:
  assumes "reader_inv b" and "Reader_sliceLoop delim b = ((f, err), b')"
  shows "(err = None \<longrightarrow> (\<exists>l. f = l @ [delim] \<and> delim \<notin> set l)) \<and>
     (err = Some ErrBufferFull \<longrightarrow> delim \<notin> set f)"
  using assms
proof (induction delim b rule: Reader_sliceLoop.induct)
  case (1 delim b)
  show ?case
  proof (cases "IndexByte (unread b) delim")
    case (Some i)
    from IndexByte_SomeD[OF this] obtain s where i: "unread b = take i (unread b) @ delim # s"
        "delim \<notin> set (take i (unread b))" "i < length (unread b)" by blast
    have "take (Suc i) (unread b) = take i (unread b) @ [delim]"
      using i(3) arg_cong[OF i(1), of "\<lambda>x. x ! i"] by (simp add: take_Suc_conv_app_nth nth_append)
    moreover have "f = take (Suc i) (unread b)" "err = None"
      using 1(3) Some i(3) go_slice_front[of "r_rpos b" "Suc i" "r_wpos b" "r_buf b"]
      by (auto simp: Reader_sliceLoop.simps[of delim b] Let_def unread_def)
    ultimately show ?thesis using i(2) by auto
  next
    case None
    show ?thesis
    proof (cases "Reader_buffered b = length (r_buf b)")
      case True
      have "r_rpos b = 0" "r_wpos b = length (r_buf b)"
        using True 1(2) by (auto simp: Reader_buffered_def reader_inv_def)
      then have "unread b = r_buf b" by (simp add: unread_def go_simps)
      with None have "delim \<notin> set (r_buf b)" by (simp add: IndexByte_None_iff)
      with None True 1(3) show ?thesis by (auto simp: Reader_sliceLoop.simps[of delim b])
    next
      case False
      obtain e b1 where fl: "Reader_fill b = (e, b1)" by (metis prod.exhaust)
      have inv1: "reader_inv b1" using Reader_fill_stepped[OF 1(2) fl] by (simp add: stepped_def)
      show ?thesis
      proof (cases e)
        case e: None
        have "Reader_sliceLoop delim b1 = ((f, err), b')"
          using 1(3) None False fl e by (simp add: Reader_sliceLoop.simps[of delim b])
        from 1(1)[OF None False _ refl inv1 this] fl e show ?thesis by auto
      next
        case (Some x)
        with 1(3) None False fl have "f = []" "err = Some x"
          by (simp_all add: Reader_sliceLoop.simps[of delim b])
        then show ?thesis by simp
      qed
    qed
  qed
qed

lemma Reader_bytesLoop_delim:
  assumes "reader_inv b" and "Reader_bytesLoop delim full sz b = Some (Inr x, b')"
    and "delim \<notin> set (concat full)"
  shows "\<exists>l. x = l @ [delim] \<and> delim \<notin> set l"
  using assms
proof (induction "pending b" arbitrary: b full sz rule: less_induct)
  case less
  obtain f err b1 where sl: "Reader_ReadSlice delim b = ((f, err), b1)" by (metis prod.exhaust)
  note st = Reader_ReadSlice_stepped[OF less.prems(1) sl]
  have d: "(err = None \<longrightarrow> (\<exists>l. f = l @ [delim] \<and> delim \<notin> set l)) \<and>
     (err = Some ErrBufferFull \<longrightarrow> delim \<notin> set f)"
  proof (cases "r_err b")
    case None
    with sl Reader_sliceLoop_delim[OF less.prems(1)] show ?thesis by (simp add: Reader_ReadSlice_def)
  next
    case (Some e)
    with sl have "f = []" "err = Some e" by (simp_all add: Reader_ReadSlice_def)
    then show ?thesis by simp
  qed
  show ?case
  proof (cases "err = Some ErrBufferFull")
    case True
    obtain y sa where sa: "sliceAlloc_Make (length f) (r_slice b1) = (y, sa)" by (metis prod.exhaust)
    have "pending (b1\<lparr>r_slice := sa\<rparr>) < pending b" "reader_inv (b1\<lparr>r_slice := sa\<rparr>)"
      using st True by (auto simp: stepped_def)
    moreover have "Reader_bytesLoop delim (full @ [f]) (sz + length f) (b1\<lparr>r_slice := sa\<rparr>) =
        Some (Inr x, b')"
      using less.prems(2) sl True sa by (simp add: Reader_bytesLoop.simps[of delim full sz b])
    moreover have "delim \<notin> set (concat (full @ [f]))" using less.prems(3) d True by auto
    ultimately show ?thesis by (rule less.hyps)
  next
    case False
    have "err = None \<and> x = concat full @ f"
      using less.prems(2) sl False
      by (cases err) (auto simp: Reader_bytesLoop.simps[of delim full sz b] split: prod.splits)
    with d less.prems(3) show ?thesis by (metis Un_iff append.assoc set_append)
  qed
qed

lemma decodeTextBytes_line:
  assumes "reader_inv b" and "decodeTextBytes b = Some (Inr v, b')"
  shows "LF \<notin> set v"
proof -
  from assms(2) obtain x where x: "Reader_ReadBytes LF b = Some (Inr x, b')" "trimCRLF x = Inr v"
    by (auto simp: decodeTextBytes_def split: option.splits sum.splits)
  from Reader_bytesLoop_delim[OF assms(1), of LF "[]" 0 x b'] x(1) obtain l where
    "x = l @ [LF]" "LF \<notin> set l" by (auto simp: Reader_ReadBytes_def)
  with x(2) show ?thesis by (auto simp: trimCRLF_def split: if_splits dest: in_set_takeD)
qed

lemma decodeBulkBytes_wf:
  assumes "reader_inv b" and "decodeBulkBytes b = Some (Inr v, b')"
  shows "wf_bulk v"
proof -
  obtain n b1 where d: "decodeInt b = (n, b1)" by (metis prod.exhaust)
  have inv1: "reader_inv b1" using decodeInt_stepped[OF assms(1) d] by (simp add: stepped_def)
  show ?thesis
  proof (cases v)
    case (Some p)
    with assms(2) d obtain m x where n: "n = Inr m" "sint m \<le> MaxBulkBytesLen" "0 \<le> sint m"
        and x: "Reader_ReadFull (nat (sint m) + 2) b1 = Some (Inr x, b')" "p = take (nat (sint m)) x"
      by (auto simp: decodeBulkBytes_def split: sum.splits if_splits option.splits)
    from Reader_ReadFull_total[OF inv1, of "nat (sint m) + 2"] x(1)
    have "nat (sint m) + 2 \<le> length x" by auto
    with n x(2) Some show ?thesis by simp
  qed simp
qed

lemma decodeElems_wf:
  assumes "reader_inv b" and "\<And>c. stepped b c \<Longrightarrow> returns dec c"
    and "\<And>c r c'. stepped b c \<Longrightarrow> dec c = Some (Inr r, c') \<Longrightarrow> wf_resp r"
    and "decodeElems dec n b = Some (Inr rs, b')"
  shows "wf_elems rs \<and> length rs = n"
  using assms
proof (induction n arbitrary: b rs)
  case 0
  then show ?case by simp
next
  case (Suc n)
  have refl: "stepped b b" using Suc.prems(1) by simp
  from returnsE[OF Suc.prems(2)[OF refl]] obtain res b1 where
    d: "dec b = Some (res, b1)" "stepped b b1" "reader_inv b1" .
  with Suc.prems(4) obtain r rs1 where r: "res = Inr r" "rs = r # rs1"
      "decodeElems dec n b1 = Some (Inr rs1, b')"
    by (auto split: sum.splits option.splits)
  have "wf_elems rs1 \<and> length rs1 = n"
  proof (rule Suc.IH[OF d(3) _ _ r(3)])
    show "returns dec c" if "stepped b1 c" for c
      using Suc.prems(2) stepped_trans[OF d(2) that] .
    show "wf_resp q" if "stepped b1 c" "dec c = Some (Inr q, c')" for c q c'
      using Suc.prems(3) stepped_trans[OF d(2) that(1)] that(2) .
  qed
  with Suc.prems(3)[OF refl] d(1) r(1,2) show ?case by simp
qed

lemma decodeArray_wf:
  assumes "reader_inv b" and "\<And>c. stepped b c \<Longrightarrow> returns dec c"
    and "\<And>c r c'. stepped b c \<Longrightarrow> dec c = Some (Inr r, c') \<Longrightarrow> wf_resp r"
    and "decodeArray dec b = Some (Inr a, b')"
  shows "wf_array a"
proof (cases a)
  case (Some rs)
  obtain n b1 where d: "decodeInt b = (n, b1)" by (metis prod.exhaust)
  note st = decodeInt_stepped[OF assms(1) d]
  then have inv1: "reader_inv b1" by (simp add: stepped_def)
  from assms(4) d Some obtain m where n: "n = Inr m" "sint m \<le> MaxArrayLen" "0 \<le> sint m"
      "decodeElems dec (nat (sint m)) b1 = Some (Inr rs, b')"
    by (auto simp: decodeArray_def split: sum.splits if_splits option.splits)
  have "wf_elems rs \<and> length rs = nat (sint m)"
    using assms(2,3) stepped_trans[OF st] n(4) by (intro decodeElems_wf[OF inv1]) blast+
  with n Some show ?thesis by simp
qed simp

lemma decodeResp_depth_wf:
  assumes "reader_inv b" and "pending b < k" and "decodeResp_depth k b = Some (Inr r, b')"
  shows "wf_resp r"
  using assms
proof (induction k arbitrary: b r b')
  case 0
  then show ?case by simp
next
  case (Suc k)
  obtain t b1 where rb: "Reader_ReadByte b = (t, b1)" by (metis prod.exhaust)
  note st = Reader_ReadByte_stepped[OF Suc.prems(1) rb]
  then have inv1: "reader_inv b1" by (simp add: stepped_def)
  from Suc.prems(3) rb obtain c where c: "t = Inr c"
    by (cases t) (auto simp: decodeResp_step_def)
  have less: "reader_inv x \<and> pending x < k" if "stepped b1 x" for x
    using that st c Suc.prems(2) by (auto simp: stepped_def)
  have arr: "wf_array a" if "decodeArray (decodeResp_depth k) b1 = Some (Inr a, x)" for a x
    using less Suc.IH returns_depth that by (intro decodeArray_wf[OF inv1]) blast+
  consider (line) v where "is_text c" "r = Resp c (Some v) None" "decodeTextBytes b1 = Some (Inr v, b')"
    | (bulk) v where "c = TypeBulkBytes" "r = Resp c v None" "decodeBulkBytes b1 = Some (Inr v, b')"
    | (array) a where "c = TypeArray" "r = Resp c None a"
        "decodeArray (decodeResp_depth k) b1 = Some (Inr a, b')"
    using Suc.prems(3) rb c
    by (auto simp: decodeResp_step_def is_text_def split: if_splits option.splits sum.splits)
  then show ?case
  proof cases
    case line
    with decodeTextBytes_line[OF inv1] show ?thesis by simp
  next
    case bulk
    with decodeBulkBytes_wf[OF inv1] show ?thesis by simp
  next
    case array
    with arr show ?thesis by simp
  qed
qed

lemma decodeResp_wf:
  "reader_inv b \<Longrightarrow> decodeResp b = Some (Inr r, b') \<Longrightarrow> wf_resp r"
  using decodeResp_depth_wf[of b "Suc (pending b)"] by (simp add: decodeResp_def)

section \<open>Encoders and decoders\<close>

text \<open>A client that encodes replies one after the other and then flushes, and one that decodes them.\<close>

fun encode_all :: "Resp list \<Rightarrow> Encoder \<Rightarrow> (resp_error option \<times> Encoder) option" where
  "encode_all [] e = Some (Encoder_Flush e)"
| "encode_all (r # rs) e =
     (case Encoder_Encode r False e of
        None \<Rightarrow> None
      | Some (Some err, e1) \<Rightarrow> Some (Some err, e1)
      | Some (None, e1) \<Rightarrow> encode_all rs e1)"

fun decode_all :: "nat \<Rightarrow> Decoder \<Rightarrow> ((resp_error + Resp list) \<times> Decoder) option" where
  "decode_all 0 d = Some (Inr [], d)"
| "decode_all (Suc n) d =
     (case Decoder_Decode d of
        None \<Rightarrow> None
      | Some (Inl err, d1) \<Rightarrow> Some (Inl err, d1)
      | Some (Inr r, d1) \<Rightarrow>
          (case decode_all n d1 of
             None \<Rightarrow> None
           | Some (Inl err, d2) \<Rightarrow> Some (Inl err, d2)
           | Some (Inr rs, d2) \<Rightarrow> Some (Inr (r # rs), d2)))"

lemma wf_resp_typed: "wf_resp r \<Longrightarrow> typed r" and wf_array_typed: "wf_array a \<Longrightarrow> typed_array a"
  and wf_elems_typed: "wf_elems rs \<Longrightarrow> typed_elems rs"
  by (induction r and a and rs rule: typed_typed_array_typed_elems.induct) auto

lemma typed_elems_all: "typed_elems rs \<longleftrightarrow> list_all typed rs"
  by (induction rs) auto

lemma Encoder_Encode_healthy:
  assumes "typed r" and "e_Err e = None" and "written L (e_bw e)" and "writer_healthy (e_bw e)"
  obtains e' where "Encoder_Encode r False e = Some (None, e')" "e_Err e' = None"
    "written (L @ wire r) (e_bw e')" "writer_healthy (e_bw e')"
proof -
  have none: "w_err (e_bw e) = None" using bw.healthy_law[OF assms(4)] .
  obtain err w' where w: "encodeResp r (e_bw e) = Some (map_option IOErr err, w')"
      "written (L @ wire r) w'" "err = w_err w'" "writer_healthy (e_bw e) \<Longrightarrow> writer_healthy w'"
    using encodesE[OF encodeResp_encodes[OF assms(1)] assms(3) none] by blast
  have "err = None" using w(3) bw.healthy_law[OF w(4)[OF assms(4)]] by simp
  with that[of "e\<lparr>e_bw := w'\<rparr>"] w assms show ?thesis
    by (simp add: Encoder_Encode_def Encoder_finish_def)
qed

lemma encode_all_healthy:
  assumes "list_all typed rs" and "e_Err e = None" and "written L (e_bw e)" and "writer_healthy (e_bw e)"
  shows "\<exists>e'. encode_all rs e = Some (None, e') \<and> w_out (e_bw e') = L @ concat (map wire rs)"
  using assms
proof (induction rs arbitrary: e L)
  case Nil
  from bw.flush_healthy[OF Nil(3,4)] obtain w' where
    "Writer_Flush (e_bw e) = (None, w')" "w_out w' = L" "written L w'" "writer_healthy w'" .
  with Nil(2) show ?case by (simp add: Encoder_Flush_def)
next
  case (Cons r rs)
  have "typed r" using Cons.prems(1) by simp
  from Encoder_Encode_healthy[OF this Cons.prems(2-4)] obtain e1 where
    e1: "Encoder_Encode r False e = Some (None, e1)" "e_Err e1 = None"
    "written (L @ wire r) (e_bw e1)" "writer_healthy (e_bw e1)" .
  from Cons.IH[OF _ e1(2-4)] Cons.prems(1) e1(1) show ?case by auto
qed

lemma decode_all_wire:
  assumes "list_all wf_resp rs" and "d_Err d = None" and "reader_ok (d_br d)"
    and "22 \<le> reader_cap (d_br d)" and "stream (d_br d) = concat (map wire rs) @ rest"
  shows "\<exists>d'. decode_all (length rs) d = Some (Inr rs, d') \<and> d_Err d' = None \<and>
     stream (d_br d') = rest \<and> reader_ok (d_br d')"
  using assms
proof (induction rs arbitrary: d)
  case Nil
  then show ?case by simp
next
  case (Cons r rs)
  have r: "wf_resp r" "stream (d_br d) = wire r @ concat (map wire rs) @ rest"
    using Cons.prems by auto
  from decodesE[OF decodes_resp[OF r(1)] Cons.prems(3,4) r(2)] obtain b1 where
    b1: "decodeResp (d_br d) = Some (Inr r, b1)" "reader_ok b1" "22 \<le> reader_cap b1"
    "stream b1 = concat (map wire rs) @ rest" .
  from Cons.IH[of "d\<lparr>d_br := b1\<rparr>"] b1 Cons.prems(1,2) show ?case
    by (auto simp: Decoder_Decode_def)
qed

lemma NewReaderSize_ok:
  "reader_ok (NewReaderSize rd sz)" "stream (NewReaderSize rd sz) = delivered rd"
  "reader_cap (NewReaderSize rd sz) = (if sz \<le> 0 then DefaultBufferSize else nat sz)"
  "r_rd (NewReaderSize rd sz) = rd"
  by (auto simp: NewReaderSize_def reader_ok_def stream_def unread_def go_slice_def reader_cap_def
      DefaultBufferSize_def Let_def)

lemma NewWriterSize_ok: "written [] (NewWriterSize wr sz)"
  "set wr \<subseteq> {WrAll} \<Longrightarrow> writer_healthy (NewWriterSize wr sz)"
  by (auto simp: NewWriterSize_def written_def writer_acc_def writer_healthy_def DefaultBufferSize_def Let_def)

lemma NewDecoderSize_inv:
  "\<forall>ev \<in> set rd. \<not> own_signal ev \<Longrightarrow> reader_inv (d_br (NewDecoderSize rd sz))"
  by (simp add: NewDecoderSize_def NewDecoderBuffer_def reader_ok_inv NewReaderSize_ok)

section \<open>Properties\<close>

text \<open>
  C29.  Any list of well-formed replies that is encoded one after the other over a connection
  that accepts writes reaches the wire as their concatenation, and a decoder that receives these
  bytes in any fragmentation, followed by anything, returns exactly these replies and has
  consumed exactly these bytes.
\<close>

theorem pipeline_roundtrip:
  assumes "list_all wf_resp rs" and "set wr \<subseteq> {WrAll}" and "22 \<le> rsz"
    and "delivered chunks = concat (map wire rs) @ rest"
  shows "(\<exists>e. encode_all rs (NewEncoderSize wr wsz) = Some (None, e) \<and>
           w_out (e_bw e) = concat (map wire rs)) \<and>
     (\<exists>d. decode_all (length rs) (NewDecoderSize chunks rsz) = Some (Inr rs, d) \<and>
           d_Err d = None \<and> stream (d_br d) = rest)"
proof
  have "list_all typed rs" using assms(1) wf_resp_typed by (simp add: list_all_iff)
  then show "\<exists>e. encode_all rs (NewEncoderSize wr wsz) = Some (None, e) \<and>
      w_out (e_bw e) = concat (map wire rs)"
    using encode_all_healthy[of rs "NewEncoderSize wr wsz" "[]"] NewWriterSize_ok assms(2)
    by (simp add: NewEncoderSize_def NewEncoderBuffer_def)
  show "\<exists>d. decode_all (length rs) (NewDecoderSize chunks rsz) = Some (Inr rs, d) \<and>
      d_Err d = None \<and> stream (d_br d) = rest"
    using decode_all_wire[OF assms(1), of "NewDecoderSize chunks rsz" rest] assms(3,4)
    by (auto simp: NewDecoderSize_def NewDecoderBuffer_def NewReaderSize_ok le_nat_iff)
qed

definition example_replies :: "Resp list" where
  "example_replies =
     [NewArray (Some [NewBulkBytes (Some ''GET''), NewBulkBytes None, NewArray None]),
      NewInt (Some ''42''), NewString (Some ''OK'')]"

theorem pipeline_roundtrip_witness:
  "list_all wf_resp example_replies \<and>
   (\<exists>d. decode_all 3 (NewDecoderSize
      [RdData ''*3'', RdData [CR], RdData (LF # ''$3'' @ [CR, LF] @ ''GE''),
       RdData (''T'' @ [CR, LF] @ ''$-1'' @ [CR, LF] @ ''*-1'' @ [CR, LF, CHR '':'']),
       RdData (''42'' @ [CR, LF] @ ''+OK'' @ [CR, LF] @ ''junk'')] 32)
      = Some (Inr example_replies, d) \<and> d_Err d = None \<and> stream (d_br d) = ''junk'')"
proof -
  have wf: "list_all wf_resp example_replies" by code_simp
  have chunks: "delivered [RdData ''*3'', RdData [CR], RdData (LF # ''$3'' @ [CR, LF] @ ''GE''),
       RdData (''T'' @ [CR, LF] @ ''$-1'' @ [CR, LF] @ ''*-1'' @ [CR, LF, CHR '':'']),
       RdData (''42'' @ [CR, LF] @ ''+OK'' @ [CR, LF] @ ''junk'')] =
     concat (map wire example_replies) @ ''junk''" by code_simp
  have "length example_replies = 3" by code_simp
  with pipeline_roundtrip[OF wf _ _ chunks, of "[]" 32 16] wf show ?thesis by simp
qed


text \<open>
  C30.  Encoding a request (a multi-bulk of bulk strings) and flushing it puts its bytes on the
  wire, and the decoder of the other side reads the request back from any fragmentation.
\<close>

theorem request_roundtrip:
  assumes "rs \<noteq> []" and "int (length rs) \<le> MaxArrayLen"
    and "list_all (\<lambda>r. wf_resp r \<and> Resp_Type r = TypeBulkBytes) rs"
    and "set wr \<subseteq> {WrAll}" and "22 \<le> rsz"
    and "delivered chunks = wire (NewArray (Some rs)) @ rest"
  shows "(\<exists>e. Encoder_EncodeMultiBulk (Some rs) True (NewEncoderSize wr wsz) = Some (None, e) \<and>
           w_out (e_bw e) = wire (NewArray (Some rs))) \<and>
     (\<exists>d. Decoder_DecodeMultiBulk (NewDecoderSize chunks rsz) = Some (Inr (Some rs), d) \<and>
           stream (d_br d) = rest)"
proof
  let ?w = "NewWriterSize wr wsz"
  have "list_all typed rs" using assms(3) wf_resp_typed by (auto simp: list_all_iff)
  then have "typed_array (Some rs)" by (simp add: typed_elems_all)
  from encodes_byte[OF encodeArray_encodes[OF this], of TypeArray]
  have enc: "encodes (encodeMultiBulk (Some rs)) (wire (NewArray (Some rs)))"
    by (simp add: encodeMultiBulk_def[abs_def] NewArray_def)
  have w: "written [] ?w" "writer_healthy ?w" using NewWriterSize_ok assms(4) by auto
  obtain err w1 where w1: "encodeMultiBulk (Some rs) ?w = Some (map_option IOErr err, w1)"
      "written ([] @ wire (NewArray (Some rs))) w1" "err = w_err w1" "writer_healthy w1"
    using encodesE[OF enc w(1) bw.healthy_law[OF w(2)]] w(2) by blast
  from bw.flush_healthy[OF w1(2,4)] obtain w2 where
    "Writer_Flush w1 = (None, w2)" "w_out w2 = [] @ wire (NewArray (Some rs))" by metis
  with w1 bw.healthy_law[OF w1(4)]
  show "\<exists>e. Encoder_EncodeMultiBulk (Some rs) True (NewEncoderSize wr wsz) = Some (None, e) \<and>
      w_out (e_bw e) = wire (NewArray (Some rs))"
    by (auto simp: Encoder_EncodeMultiBulk_def Encoder_finish_def NewEncoderSize_def NewEncoderBuffer_def)
  have "22 \<le> reader_cap (NewReaderSize chunks rsz)"
    using assms(5) by (simp add: NewReaderSize_ok le_nat_iff)
  then obtain b where "decodeMultiBulk (NewReaderSize chunks rsz) = Some (Inr (Some rs), b)"
      "stream b = rest"
    using decodesE[OF decodes_multi[OF assms(1-3)] NewReaderSize_ok(1)] assms(6) NewReaderSize_ok(2)
    by metis
  then show "\<exists>d. Decoder_DecodeMultiBulk (NewDecoderSize chunks rsz) = Some (Inr (Some rs), d) \<and>
      stream (d_br d) = rest"
    by (simp add: Decoder_DecodeMultiBulk_def NewDecoderSize_def NewDecoderBuffer_def)
qed

theorem request_roundtrip_witness:
  "\<exists>d. Decoder_DecodeMultiBulk (NewDecoderSize
      [RdData (''*2'' @ [CR, LF] @ ''$3''), RdData ([CR, LF] @ ''GET'' @ [CR, LF] @ ''$1''),
       RdData ([CR, LF] @ ''k'' @ [CR, LF])] 64) =
     Some (Inr (Some [NewBulkBytes (Some ''GET''), NewBulkBytes (Some ''k'')]), d) \<and>
     stream (d_br d) = []"
proof -
  let ?rs = "[NewBulkBytes (Some ''GET''), NewBulkBytes (Some ''k'')]"
  have "delivered [RdData (''*2'' @ [CR, LF] @ ''$3''), RdData ([CR, LF] @ ''GET'' @ [CR, LF] @ ''$1''),
       RdData ([CR, LF] @ ''k'' @ [CR, LF])] = wire (NewArray (Some ?rs)) @ []" by code_simp
  moreover have "int (length ?rs) \<le> MaxArrayLen" by code_simp
  moreover have "list_all (\<lambda>r. wf_resp r \<and> Resp_Type r = TypeBulkBytes) ?rs" by code_simp
  ultimately show ?thesis using request_roundtrip[of ?rs "[]" 64] by simp
qed

text \<open>
  C31.  Over a connection that may fail at any point, what \<open>Encode\<close> puts on the wire is a prefix
  of the bytes of the reply, and all of them when it reports no error.
\<close>

theorem encode_prefix:
  assumes "typed r"
  shows "\<exists>err e. Encoder_Encode r True (NewEncoderSize wr wsz) = Some (err, e) \<and>
     prefix (w_out (e_bw e)) (wire r) \<and> (err = None \<longrightarrow> w_out (e_bw e) = wire r)"
proof -
  let ?w = "NewWriterSize wr wsz"
  have w: "written [] ?w" "w_err ?w = None" using NewWriterSize_ok by (auto simp: NewWriterSize_def Let_def)
  obtain err w1 where w1: "encodeResp r ?w = Some (map_option IOErr err, w1)"
      "written ([] @ wire r) w1" "err = w_err w1"
    using encodesE[OF encodeResp_encodes[OF assms] w] by blast
  obtain err2 w2 where fl: "Writer_Flush w1 = (err2, w2)" by (metis prod.exhaust)
  from bw.flush_law[OF w1(2) fl] have w2: "written (wire r) w2" "err2 = None \<longrightarrow> w_out w2 = wire r"
    by auto
  note e = Encoder_Encode_def Encoder_finish_def NewEncoderSize_def NewEncoderBuffer_def
  show ?thesis
  proof (cases err)
    case None
    with w1(1) fl w2 bw.sent_law[OF w2(1)] show ?thesis by (auto simp: e)
  next
    case (Some x)
    with w1(1) bw.sent_law[OF w1(2)] show ?thesis by (auto simp: e)
  qed
qed

theorem encode_prefix_witness:
  "\<exists>err e. Encoder_Encode (NewInt (Some ''7'')) True (NewEncoderSize [WrErr 2 EOF] 64) = Some (err, e) \<and>
     prefix (w_out (e_bw e)) (wire (NewInt (Some ''7''))) \<and>
     (err = None \<longrightarrow> w_out (e_bw e) = wire (NewInt (Some ''7'')))"
proof -
  have "typed (NewInt (Some ''7''))" by code_simp
  then show ?thesis by (rule encode_prefix)
qed

text \<open>
  C32.  A decoder returns on every connection, whatever it delivers and however it fails, with a
  reply or an error; a reply it returns is well formed, with its lengths within the limits.
\<close>

theorem decode_returns_wellformed:
  assumes "\<forall>ev \<in> set rd. \<not> own_signal ev"
  shows "\<exists>res d. Decoder_Decode (NewDecoderSize rd sz) = Some (res, d) \<and>
     (\<forall>r. res = Inr r \<longrightarrow> wf_resp r \<and> d_Err d = None) \<and> (\<forall>err. res = Inl err \<longrightarrow> d_Err d = Some err)"
proof -
  let ?d = "NewDecoderSize rd sz"
  have inv: "reader_inv (d_br ?d)" by (rule NewDecoderSize_inv[OF assms])
  have none: "d_Err ?d = None" by (simp add: NewDecoderSize_def NewDecoderBuffer_def)
  obtain res b where "decodeResp (d_br ?d) = Some (res, b)"
    using returnsE[OF returns_resp[OF inv]] by blast
  with none decodeResp_wf[OF inv, of _ b] show ?thesis
    by (cases res) (auto simp: Decoder_Decode_def)
qed

theorem decode_returns_wellformed_witness:
  "\<exists>res d. Decoder_Decode (NewDecoderSize [RdData ''*2'', RdErr '''' EOF] 16) = Some (res, d) \<and>
     (\<forall>r. res = Inr r \<longrightarrow> wf_resp r \<and> d_Err d = None) \<and> (\<forall>err. res = Inl err \<longrightarrow> d_Err d = Some err)"
  by (rule decode_returns_wellformed) simp



text \<open>
  C34.  An inline command, a line that does not start with an asterisk, is split at its blanks
  into its words, whatever the fragmentation; a line of blanks is an error and an empty line is no
  request.
\<close>

theorem inline_command:
  assumes "LF \<notin> set line" and "line \<noteq> []" and "hd line \<noteq> TypeArray" and "22 \<le> rsz"
    and "delivered chunks = crlf line @ rest"
  shows "\<exists>d. Decoder_DecodeMultiBulk (NewDecoderSize chunks rsz) =
     Some (if inline_words line = [] then Inl ErrBadMultiBulkLen
           else Inr (Some (map (NewBulkBytes \<circ> Some) (inline_words line))), d) \<and>
     stream (d_br d) = rest"
proof -
  let ?b = "NewReaderSize chunks rsz"
  have b: "reader_ok ?b" "stream ?b = hd line # tl line @ [CR, LF] @ rest" "22 \<le> reader_cap ?b"
    using assms(2,4,5) by (simp_all add: NewReaderSize_ok crlf_def le_nat_iff)
  from br.peekByte_law[OF b(1,2)] obtain b1 where
    b1: "Reader_PeekByte ?b = (Inr (hd line), b1)" "reader_ok b1" "stream b1 = crlf line @ rest"
    "22 \<le> reader_cap b1"
    using b(3) assms(2) by (auto simp: crlf_def)
  from decodesE[OF decodes_text[OF assms(1)] b1(2,4,3)] obtain b2 where
    "decodeTextBytes b1 = Some (Inr line, b2)" "stream b2 = rest" by metis
  moreover have "splitLoop line 0 0 [] = map (NewBulkBytes \<circ> Some) (inline_words line)"
    using splitLoop_words[of 0 0 line "[]"] by (simp add: go_slice_def)
  ultimately show ?thesis
    using b1(1) assms(2,3)
    by (simp add: Decoder_DecodeMultiBulk_def decodeMultiBulk_def decodeSingleLineMultiBulk_def
        NewDecoderSize_def NewDecoderBuffer_def Let_def)
qed

theorem inline_command_witness:
  "\<exists>d. Decoder_DecodeMultiBulk (NewDecoderSize [RdData ''set  a'', RdData ('' b'' @ [CR, LF])] 22) =
     Some (Inr (Some [NewBulkBytes (Some ''set''), NewBulkBytes (Some ''a''), NewBulkBytes (Some ''b'')]), d) \<and>
     stream (d_br d) = []"
proof -
  have "delivered [RdData ''set  a'', RdData ('' b'' @ [CR, LF])] = crlf ''set  a b'' @ []" by code_simp
  moreover have "inline_words ''set  a b'' = [''set'', ''a'', ''b'']" by code_simp
  moreover have "hd ''set  a b'' \<noteq> TypeArray" by code_simp
  ultimately show ?thesis
    using inline_command[of "''set  a b''" 22 "[RdData ''set  a'', RdData ('' b'' @ [CR, LF])]" "[]"]
    by simp
qed



end
