(* ===== verification/Mapper.thy ===== *)
theory Mapper
  imports Resp "HOL-Library.Char_ord"
begin

text \<open>
  The command table and key hashing of \<open>src/pkg/proxy/mapper.go\<close> and the routing of stream
  commands of \<open>src/pkg/proxy/stream_commands.go\<close>.  Go maps with fixed contents are functions into
  options, filled in the order of the source.  \<open>crc32.ChecksumIEEE\<close> is the bitwise reflected
  CRC-32 on machine words; \<open>strings.ToUpper\<close> is written out for ASCII strings, and its Unicode case
  mapping is a parameter.  The lemmas show which flags a command gets, whatever the case of
  its letters, and that all keys of an accepted request are in the slot it is sent to.
\<close>

unbundle bit_operations_syntax

section \<open>Command flags\<close>

type_synonym OpFlag = "32 word"

definition FlagWrite :: OpFlag where "FlagWrite = 1"
definition FlagMasterOnly :: OpFlag where "FlagMasterOnly = 2"
definition FlagMayWrite :: OpFlag where "FlagMayWrite = 4"
definition FlagNotAllow :: OpFlag where "FlagNotAllow = 8"

lemmas op_flags = FlagWrite_def FlagMasterOnly_def FlagMayWrite_def FlagNotAllow_def

definition IsNotAllowed :: "OpFlag \<Rightarrow> bool" where
  "IsNotAllowed f \<longleftrightarrow> f AND FlagNotAllow \<noteq> 0"

definition IsReadOnly :: "OpFlag \<Rightarrow> bool" where
  "IsReadOnly f \<longleftrightarrow> f AND (FlagWrite OR FlagMayWrite) = 0"

definition IsMasterOnly :: "OpFlag \<Rightarrow> bool" where
  "IsMasterOnly f \<longleftrightarrow> f AND (FlagWrite OR FlagMayWrite OR FlagMasterOnly) \<noteq> 0"

record OpInfo =
  op_Name :: string
  op_Flag :: OpFlag

abbreviation OpInfo_of :: "string \<Rightarrow> OpFlag \<Rightarrow> OpInfo" where
  "OpInfo_of n f \<equiv> \<lparr>op_Name = n, op_Flag = f\<rparr>"

section \<open>Stream commands\<close>

datatype streamRouteKind = streamRouteSingleKey | streamRouteXGroup | streamRouteXInfo
  | streamRouteXRead | streamRouteXReadGroup

record streamCommandSpec =
  ss_flag :: OpFlag
  ss_kind :: streamRouteKind

definition streamCommandSpecs :: "(string \<times> streamCommandSpec) list" where
  "streamCommandSpecs = [
     (''XACK'', \<lparr>ss_flag = FlagWrite, ss_kind = streamRouteSingleKey\<rparr>),
     (''XACKDEL'', \<lparr>ss_flag = FlagWrite, ss_kind = streamRouteSingleKey\<rparr>),
     (''XADD'', \<lparr>ss_flag = FlagWrite, ss_kind = streamRouteSingleKey\<rparr>),
     (''XAUTOCLAIM'', \<lparr>ss_flag = FlagWrite, ss_kind = streamRouteSingleKey\<rparr>),
     (''XCFGSET'', \<lparr>ss_flag = FlagWrite, ss_kind = streamRouteSingleKey\<rparr>),
     (''XCLAIM'', \<lparr>ss_flag = FlagWrite, ss_kind = streamRouteSingleKey\<rparr>),
     (''XDEL'', \<lparr>ss_flag = FlagWrite, ss_kind = streamRouteSingleKey\<rparr>),
     (''XDELEX'', \<lparr>ss_flag = FlagWrite, ss_kind = streamRouteSingleKey\<rparr>),
     (''XGROUP'', \<lparr>ss_flag = FlagWrite, ss_kind = streamRouteXGroup\<rparr>),
     (''XIDMPRECORD'', \<lparr>ss_flag = FlagWrite, ss_kind = streamRouteSingleKey\<rparr>),
     (''XINFO'', \<lparr>ss_flag = 0, ss_kind = streamRouteXInfo\<rparr>),
     (''XLEN'', \<lparr>ss_flag = 0, ss_kind = streamRouteSingleKey\<rparr>),
     (''XPENDING'', \<lparr>ss_flag = 0, ss_kind = streamRouteSingleKey\<rparr>),
     (''XRANGE'', \<lparr>ss_flag = 0, ss_kind = streamRouteSingleKey\<rparr>),
     (''XREAD'', \<lparr>ss_flag = 0, ss_kind = streamRouteXRead\<rparr>),
     (''XREADGROUP'', \<lparr>ss_flag = FlagWrite, ss_kind = streamRouteXReadGroup\<rparr>),
     (''XREVRANGE'', \<lparr>ss_flag = 0, ss_kind = streamRouteSingleKey\<rparr>),
     (''XSETID'', \<lparr>ss_flag = FlagWrite, ss_kind = streamRouteSingleKey\<rparr>),
     (''XTRIM'', \<lparr>ss_flag = FlagWrite, ss_kind = streamRouteSingleKey\<rparr>)]"

definition streamXGroupSubcommands :: "string list" where
  "streamXGroupSubcommands = [''CREATE'', ''SETID'', ''DESTROY'', ''CREATECONSUMER'', ''DELCONSUMER'']"

definition streamXInfoSubcommands :: "string list" where
  "streamXInfoSubcommands = [''STREAM'', ''GROUPS'', ''CONSUMERS'']"

definition isStreamCommand :: "string \<Rightarrow> bool" where
  "isStreamCommand opstr \<longleftrightarrow> map_of streamCommandSpecs opstr \<noteq> None"

definition registerStreamCommandOps :: "(string \<rightharpoonup> OpInfo) \<Rightarrow> (string \<rightharpoonup> OpInfo)" where
  "registerStreamCommandOps table =
     foldl (\<lambda>t (name, spec). t(name \<mapsto> OpInfo_of name (ss_flag spec))) table streamCommandSpecs"

section \<open>The table\<close>

definition opInfos1 :: "OpInfo list" where
  "opInfos1 = [
     OpInfo_of ''APPEND'' FlagWrite,
     OpInfo_of ''ASKING'' FlagNotAllow,
     OpInfo_of ''AUTH'' 0,
     OpInfo_of ''BGREWRITEAOF'' FlagNotAllow,
     OpInfo_of ''BGSAVE'' FlagNotAllow,
     OpInfo_of ''BITCOUNT'' 0,
     OpInfo_of ''BITFIELD'' FlagWrite,
     OpInfo_of ''BITOP'' (FlagWrite OR FlagNotAllow),
     OpInfo_of ''BITPOS'' 0,
     OpInfo_of ''BLPOP'' (FlagWrite OR FlagNotAllow),
     OpInfo_of ''BRPOP'' (FlagWrite OR FlagNotAllow),
     OpInfo_of ''BRPOPLPUSH'' (FlagWrite OR FlagNotAllow),
     OpInfo_of ''CLIENT'' 0,
     OpInfo_of ''CLUSTER'' 0,
     OpInfo_of ''COMMAND'' 0,
     OpInfo_of ''CONFIG'' FlagNotAllow,
     OpInfo_of ''DBSIZE'' FlagNotAllow,
     OpInfo_of ''DEBUG'' FlagNotAllow,
     OpInfo_of ''DECR'' FlagWrite,
     OpInfo_of ''DECRBY'' FlagWrite,
     OpInfo_of ''DEL'' FlagWrite,
     OpInfo_of ''DISCARD'' FlagNotAllow,
     OpInfo_of ''DUMP'' 0,
     OpInfo_of ''ECHO'' 0,
     OpInfo_of ''EVAL'' FlagWrite,
     OpInfo_of ''EVALSHA'' FlagWrite,
     OpInfo_of ''EXEC'' FlagNotAllow,
     OpInfo_of ''EXISTS'' 0,
     OpInfo_of ''EXPIRE'' FlagWrite,
     OpInfo_of ''EXPIREAT'' FlagWrite,
     OpInfo_of ''FLUSHALL'' (FlagWrite OR FlagNotAllow),
     OpInfo_of ''FLUSHDB'' (FlagWrite OR FlagNotAllow),
     OpInfo_of ''GEOADD'' FlagWrite,
     OpInfo_of ''GEODIST'' 0,
     OpInfo_of ''GEOHASH'' 0,
     OpInfo_of ''GEOPOS'' 0,
     OpInfo_of ''GEORADIUS'' FlagWrite,
     OpInfo_of ''GEORADIUSBYMEMBER'' FlagWrite,
     OpInfo_of ''GET'' 0,
     OpInfo_of ''GETBIT'' 0,
     OpInfo_of ''GETRANGE'' 0,
     OpInfo_of ''GETSET'' FlagWrite,
     OpInfo_of ''HDEL'' FlagWrite,
     OpInfo_of ''HEXISTS'' 0,
     OpInfo_of ''HGET'' 0,
     OpInfo_of ''HGETALL'' 0,
     OpInfo_of ''HINCRBY'' FlagWrite,
     OpInfo_of ''HINCRBYFLOAT'' FlagWrite,
     OpInfo_of ''HKEYS'' 0,
     OpInfo_of ''HLEN'' 0,
     OpInfo_of ''HMGET'' 0,
     OpInfo_of ''HMSET'' FlagWrite,
     OpInfo_of ''HOST:'' FlagNotAllow,
     OpInfo_of ''HSCAN'' FlagMasterOnly,
     OpInfo_of ''HSET'' FlagWrite,
     OpInfo_of ''HSETNX'' FlagWrite,
     OpInfo_of ''HSTRLEN'' 0,
     OpInfo_of ''HVALS'' 0,
     OpInfo_of ''INCR'' FlagWrite,
     OpInfo_of ''INCRBY'' FlagWrite,
     OpInfo_of ''INCRBYFLOAT'' FlagWrite,
     OpInfo_of ''INFO'' 0,
     OpInfo_of ''KEYS'' FlagNotAllow,
     OpInfo_of ''LASTSAVE'' FlagNotAllow,
     OpInfo_of ''LATENCY'' FlagNotAllow,
     OpInfo_of ''LINDEX'' 0,
     OpInfo_of ''LINSERT'' FlagWrite,
     OpInfo_of ''LLEN'' 0,
     OpInfo_of ''LPOP'' FlagWrite,
     OpInfo_of ''LPUSH'' FlagWrite,
     OpInfo_of ''LPUSHX'' FlagWrite,
     OpInfo_of ''LRANGE'' 0,
     OpInfo_of ''LREM'' FlagWrite,
     OpInfo_of ''LSET'' FlagWrite,
     OpInfo_of ''LTRIM'' FlagWrite,
     OpInfo_of ''MGET'' 0,
     OpInfo_of ''MIGRATE'' (FlagWrite OR FlagNotAllow),
     OpInfo_of ''MONITOR'' FlagNotAllow,
     OpInfo_of ''MOVE'' (FlagWrite OR FlagNotAllow),
     OpInfo_of ''MSET'' FlagWrite,
     OpInfo_of ''MSETNX'' (FlagWrite OR FlagNotAllow),
     OpInfo_of ''MULTI'' FlagNotAllow,
     OpInfo_of ''OBJECT'' FlagNotAllow,
     OpInfo_of ''PERSIST'' FlagWrite,
     OpInfo_of ''PEXPIRE'' FlagWrite,
     OpInfo_of ''PEXPIREAT'' FlagWrite,
     OpInfo_of ''PFADD'' FlagWrite,
     OpInfo_of ''PFCOUNT'' 0,
     OpInfo_of ''PFDEBUG'' FlagWrite,
     OpInfo_of ''PFMERGE'' FlagWrite,
     OpInfo_of ''PFSELFTEST'' 0,
     OpInfo_of ''PING'' 0,
     OpInfo_of ''POST'' FlagNotAllow,
     OpInfo_of ''PSETEX'' FlagWrite,
     OpInfo_of ''PSUBSCRIBE'' FlagNotAllow,
     OpInfo_of ''PSYNC'' FlagNotAllow,
     OpInfo_of ''PTTL'' 0,
     OpInfo_of ''PUBLISH'' FlagNotAllow,
     OpInfo_of ''PUBSUB'' 0]"

definition opInfos2 :: "OpInfo list" where
  "opInfos2 = [
     OpInfo_of ''PUNSUBSCRIBE'' FlagNotAllow,
     OpInfo_of ''QUIT'' 0,
     OpInfo_of ''RANDOMKEY'' FlagNotAllow,
     OpInfo_of ''READONLY'' FlagNotAllow,
     OpInfo_of ''READWRITE'' FlagNotAllow,
     OpInfo_of ''RENAME'' (FlagWrite OR FlagNotAllow),
     OpInfo_of ''RENAMENX'' (FlagWrite OR FlagNotAllow),
     OpInfo_of ''REPLCONF'' FlagNotAllow,
     OpInfo_of ''RESTORE'' (FlagWrite OR FlagNotAllow),
     OpInfo_of ''RESTORE-ASKING'' (FlagWrite OR FlagNotAllow),
     OpInfo_of ''ROLE'' 0,
     OpInfo_of ''RPOP'' FlagWrite,
     OpInfo_of ''RPOPLPUSH'' FlagWrite,
     OpInfo_of ''RPUSH'' FlagWrite,
     OpInfo_of ''RPUSHX'' FlagWrite,
     OpInfo_of ''SADD'' FlagWrite,
     OpInfo_of ''SAVE'' FlagNotAllow,
     OpInfo_of ''SCAN'' (FlagMasterOnly OR FlagNotAllow),
     OpInfo_of ''SCARD'' 0,
     OpInfo_of ''SCRIPT'' FlagNotAllow,
     OpInfo_of ''SDIFF'' 0,
     OpInfo_of ''SDIFFSTORE'' FlagWrite,
     OpInfo_of ''SELECT'' 0,
     OpInfo_of ''SET'' FlagWrite,
     OpInfo_of ''SETBIT'' FlagWrite,
     OpInfo_of ''SETEX'' FlagWrite,
     OpInfo_of ''SETNX'' FlagWrite,
     OpInfo_of ''SETRANGE'' FlagWrite,
     OpInfo_of ''SHUTDOWN'' FlagNotAllow,
     OpInfo_of ''SINTER'' 0,
     OpInfo_of ''SINTERSTORE'' FlagWrite,
     OpInfo_of ''SISMEMBER'' 0,
     OpInfo_of ''SLAVEOF'' FlagNotAllow,
     OpInfo_of ''SLOTSCHECK'' FlagNotAllow,
     OpInfo_of ''SLOTSDEL'' (FlagWrite OR FlagNotAllow),
     OpInfo_of ''SLOTSHASHKEY'' 0,
     OpInfo_of ''SLOTSINFO'' FlagMasterOnly,
     OpInfo_of ''SLOTSMAPPING'' 0,
     OpInfo_of ''SLOTSMGRTONE'' (FlagWrite OR FlagNotAllow),
     OpInfo_of ''SLOTSMGRTSLOT'' (FlagWrite OR FlagNotAllow),
     OpInfo_of ''SLOTSMGRTTAGONE'' (FlagWrite OR FlagNotAllow),
     OpInfo_of ''SLOTSMGRTTAGSLOT'' (FlagWrite OR FlagNotAllow),
     OpInfo_of ''SLOTSRESTORE'' FlagWrite,
     OpInfo_of ''SLOTSMGRTONE-ASYNC'' (FlagWrite OR FlagNotAllow),
     OpInfo_of ''SLOTSMGRTSLOT-ASYNC'' (FlagWrite OR FlagNotAllow),
     OpInfo_of ''SLOTSMGRTTAGONE-ASYNC'' (FlagWrite OR FlagNotAllow),
     OpInfo_of ''SLOTSMGRTTAGSLOT-ASYNC'' (FlagWrite OR FlagNotAllow),
     OpInfo_of ''SLOTSMGRT-ASYNC-FENCE'' FlagNotAllow,
     OpInfo_of ''SLOTSMGRT-ASYNC-CANCEL'' FlagNotAllow,
     OpInfo_of ''SLOTSMGRT-ASYNC-STATUS'' FlagNotAllow,
     OpInfo_of ''SLOTSMGRT-EXEC-WRAPPER'' (FlagWrite OR FlagNotAllow),
     OpInfo_of ''SLOTSRESTORE-ASYNC'' (FlagWrite OR FlagNotAllow),
     OpInfo_of ''SLOTSRESTORE-ASYNC-AUTH'' (FlagWrite OR FlagNotAllow),
     OpInfo_of ''SLOTSRESTORE-ASYNC-ACK'' (FlagWrite OR FlagNotAllow),
     OpInfo_of ''SLOTSSCAN'' FlagMasterOnly,
     OpInfo_of ''SLOWLOG'' FlagNotAllow,
     OpInfo_of ''SMEMBERS'' 0,
     OpInfo_of ''SMOVE'' FlagWrite,
     OpInfo_of ''SORT'' FlagWrite,
     OpInfo_of ''SPOP'' FlagWrite,
     OpInfo_of ''SRANDMEMBER'' 0,
     OpInfo_of ''SREM'' FlagWrite,
     OpInfo_of ''SSCAN'' FlagMasterOnly,
     OpInfo_of ''STRLEN'' 0,
     OpInfo_of ''SUBSCRIBE'' FlagNotAllow,
     OpInfo_of ''SUBSTR'' 0,
     OpInfo_of ''SUNION'' 0,
     OpInfo_of ''SUNIONSTORE'' FlagWrite,
     OpInfo_of ''SYNC'' FlagNotAllow,
     OpInfo_of ''TIME'' FlagNotAllow,
     OpInfo_of ''TOUCH'' FlagWrite,
     OpInfo_of ''TTL'' 0,
     OpInfo_of ''TYPE'' 0,
     OpInfo_of ''UNSUBSCRIBE'' FlagNotAllow,
     OpInfo_of ''UNWATCH'' FlagNotAllow,
     OpInfo_of ''WAIT'' FlagNotAllow,
     OpInfo_of ''WATCH'' FlagNotAllow,
     OpInfo_of ''ZADD'' FlagWrite,
     OpInfo_of ''ZCARD'' 0,
     OpInfo_of ''ZCOUNT'' 0,
     OpInfo_of ''ZINCRBY'' FlagWrite,
     OpInfo_of ''ZINTERSTORE'' FlagWrite,
     OpInfo_of ''ZLEXCOUNT'' 0,
     OpInfo_of ''ZRANGE'' 0,
     OpInfo_of ''ZRANGEBYLEX'' 0,
     OpInfo_of ''ZRANGEBYSCORE'' 0,
     OpInfo_of ''ZRANK'' 0,
     OpInfo_of ''ZREM'' FlagWrite,
     OpInfo_of ''ZREMRANGEBYLEX'' FlagWrite,
     OpInfo_of ''ZREMRANGEBYRANK'' FlagWrite,
     OpInfo_of ''ZREMRANGEBYSCORE'' FlagWrite,
     OpInfo_of ''ZREVRANGE'' 0,
     OpInfo_of ''ZREVRANGEBYLEX'' 0,
     OpInfo_of ''ZREVRANGEBYSCORE'' 0,
     OpInfo_of ''ZREVRANK'' 0,
     OpInfo_of ''ZSCAN'' FlagMasterOnly,
     OpInfo_of ''ZSCORE'' 0,
     OpInfo_of ''ZUNIONSTORE'' FlagWrite]"

definition opTable :: "string \<rightharpoonup> OpInfo" where
  "opTable = registerStreamCommandOps
     (foldl (\<lambda>t i. t(op_Name i \<mapsto> i)) Map.empty (opInfos1 @ opInfos2))"

section \<open>getOpInfo\<close>

definition charmap :: "char \<Rightarrow> char" where
  "charmap c =
     (if CHR ''A'' \<le> c \<and> c \<le> CHR ''Z'' then c
      else if CHR ''a'' \<le> c \<and> c \<le> CHR ''z'' then char_of (of_char c - 97 + 65 :: nat)
      else if c = CHR '':'' then CHR '':''
      else CHR 0x00)"

text \<open>\<open>strings.ToUpper\<close>: ASCII strings here, others by the Unicode case mapping \<open>uni\<close>.\<close>

definition ToUpper :: "(bytes \<Rightarrow> bytes) \<Rightarrow> bytes \<Rightarrow> bytes" where
  "ToUpper uni s =
     (if list_all (\<lambda>c. (of_char c :: nat) < 128) s
      then map (\<lambda>c. if CHR ''a'' \<le> c \<and> c \<le> CHR ''z'' then char_of (of_char c - 32 :: nat) else c) s
      else uni s)"

datatype op_error = ErrBadMultiBulk | ErrBadOpStrLen

definition MaxOpStrLen :: nat where "MaxOpStrLen = 64"

text \<open>A nil slice reads like an empty one.\<close>

definition Value_of :: "Resp \<Rightarrow> bytes" where
  "Value_of r = (case Resp_Value r of None \<Rightarrow> [] | Some v \<Rightarrow> v)"

definition getOpInfo :: "(bytes \<Rightarrow> bytes) \<Rightarrow> Resp list \<Rightarrow> op_error + string \<times> OpFlag" where
  "getOpInfo uni multi =
     (if length multi < 1 then Inl ErrBadMultiBulk
      else
        let op = Value_of (multi ! 0)
        in if length op = 0 \<or> length op > MaxOpStrLen then Inl ErrBadOpStrLen
           else if list_ex (\<lambda>c. charmap c = CHR 0x00) op then Inr (ToUpper uni op, FlagMayWrite)
           else
             let upper = map charmap op
             in case opTable upper of
                  Some r \<Rightarrow> Inr (op_Name r, op_Flag r)
                | None \<Rightarrow> Inr (upper, FlagMayWrite))"

section \<open>Hashing\<close>

definition crc_bit :: "32 word \<Rightarrow> 32 word" where
  "crc_bit crc =
     (if crc AND 1 = 1 then drop_bit 1 crc XOR 0xEDB88320 else drop_bit 1 crc)"

definition crc_byte :: "32 word \<Rightarrow> char \<Rightarrow> 32 word" where
  "crc_byte crc c = (crc_bit ^^ 8) (crc XOR of_nat (of_char c))"

definition ChecksumIEEE :: "bytes \<Rightarrow> 32 word" where
  "ChecksumIEEE s = NOT (foldl crc_byte (NOT 0) s)"

definition hashTagOrKeyWithTag :: "bytes \<Rightarrow> bytes \<times> bool" where
  "hashTagOrKeyWithTag key =
     (case IndexByte key (CHR ''{'') of
        None \<Rightarrow> (key, False)
      | Some beg \<Rightarrow>
          (case IndexByte (drop (beg + 1) key) (CHR ''}'') of
             None \<Rightarrow> (key, False)
           | Some end_ \<Rightarrow> (go_slice key (beg + 1) (beg + 1 + end_), True)))"

definition hashTagOrKey :: "bytes \<Rightarrow> bytes" where
  "hashTagOrKey key = fst (hashTagOrKeyWithTag key)"

definition Hash :: "bytes \<Rightarrow> 32 word" where
  "Hash key = ChecksumIEEE (hashTagOrKey key)"

definition getHashKey :: "Resp list \<Rightarrow> string \<Rightarrow> bytes option" where
  "getHashKey multi opstr =
     (let index = (if opstr \<in> {''ZINTERSTORE'', ''ZUNIONSTORE'', ''EVAL'', ''EVALSHA''} then 3 else 1)
      in if index < length multi then Resp_Value (multi ! index) else None)"

section \<open>Stream routes\<close>

record streamRoute =
  sr_hashKey :: bytes
  sr_keys :: "bytes list"

definition quoted :: "string \<Rightarrow> string" where
  "quoted s = CHR 0x27 # s @ [CHR 0x27]"

definition wrongArity :: "string \<Rightarrow> Resp" where
  "wrongArity opstr =
     NewError (Some (''ERR wrong number of arguments for '' @ quoted opstr @ '' command''))"

primrec streamTokenEqual_loop :: "bytes \<Rightarrow> string \<Rightarrow> bool" where
  "streamTokenEqual_loop value [] \<longleftrightarrow> True"
| "streamTokenEqual_loop value (t # token) \<longleftrightarrow>
     (let c = hd value;
          c1 = (if CHR ''a'' \<le> c \<and> c \<le> CHR ''z'' then char_of (of_char c - 32 :: nat) else c)
      in c1 = t \<and> streamTokenEqual_loop (tl value) token)"

definition streamTokenEqual :: "bytes \<Rightarrow> string \<Rightarrow> bool" where
  "streamTokenEqual value token \<longleftrightarrow> length value = length token \<and> streamTokenEqual_loop value token"

definition streamSubcommandSupported :: "bytes \<Rightarrow> string list \<Rightarrow> bool" where
  "streamSubcommandSupported value supported \<longleftrightarrow> list_ex (streamTokenEqual value) supported"

definition resolveStreamSingleKeyRoute :: "Resp list \<Rightarrow> string \<Rightarrow> Resp + streamRoute" where
  "resolveStreamSingleKeyRoute multi opstr =
     (if length multi < 2 then Inl (wrongArity opstr)
      else let key = Value_of (multi ! 1) in Inr \<lparr>sr_hashKey = key, sr_keys = [key]\<rparr>)"

text \<open>The search for \<open>STREAMS\<close> in the arguments from index \<open>i\<close> on.\<close>

fun findStreams :: "string \<Rightarrow> Resp list \<Rightarrow> nat \<Rightarrow> Resp + nat option" where
  "findStreams opstr [] i = Inr None"
| "findStreams opstr (a # args) i =
     (if streamTokenEqual (Value_of a) ''STREAMS'' then Inr (Some i)
      else if streamTokenEqual (Value_of a) ''BLOCK''
      then Inl (NewError (Some (''ERR unsupported blocking Stream command '' @ quoted opstr)))
      else findStreams opstr args (i + 1))"

fun collectStreamKeys :: "bytes \<times> bool \<Rightarrow> bytes list \<Rightarrow> Resp + bytes list" where
  "collectStreamKeys first [] = Inr []"
| "collectStreamKeys first (key # keys) =
     (if hashTagOrKeyWithTag key \<noteq> first
      then Inl (NewError (Some (''CROSSSLOT Stream keys in request don'' @ [CHR 0x27] @
             ''t share the same hash tag'')))
      else case collectStreamKeys first keys of Inl e \<Rightarrow> Inl e | Inr ks \<Rightarrow> Inr (key # ks))"

definition resolveStreamReadRoute :: "Resp list \<Rightarrow> string \<Rightarrow> nat \<Rightarrow> Resp + streamRoute" where
  "resolveStreamReadRoute multi opstr startFrom =
     (case findStreams opstr (drop startFrom multi) startFrom of
        Inl e \<Rightarrow> Inl e
      | Inr None \<Rightarrow> Inl (NewError (Some (''ERR missing STREAMS for '' @ quoted opstr @ '' command'')))
      | Inr (Some streams) \<Rightarrow>
          let nblks = length multi - streams - 1
          in if nblks < 2 \<or> nblks mod 2 \<noteq> 0
             then Inl (NewError (Some (''ERR Stream keys and IDs must be paired for '' @
                    quoted opstr @ '' command'')))
             else
               let nkeys = nblks div 2;
                   keyStart = streams + 1;
                   firstKey = Value_of (multi ! keyStart)
               in case collectStreamKeys (hashTagOrKeyWithTag firstKey)
                         (map (\<lambda>i. Value_of (multi ! (keyStart + i))) [0..<nkeys]) of
                    Inl e \<Rightarrow> Inl e
                  | Inr keys \<Rightarrow> Inr \<lparr>sr_hashKey = firstKey, sr_keys = keys\<rparr>)"

definition resolveStreamContainerRoute ::
  "Resp list \<Rightarrow> string \<Rightarrow> string list \<Rightarrow> Resp + streamRoute" where
  "resolveStreamContainerRoute multi opstr supported =
     (if length multi < 2 then Inl (wrongArity opstr)
      else if \<not> streamSubcommandSupported (Value_of (multi ! 1)) supported
      then Inl (NewError (Some (''ERR unsupported Stream subcommand for '' @ quoted opstr)))
      else if length multi < 3 then Inl (wrongArity opstr)
      else let key = Value_of (multi ! 2) in Inr \<lparr>sr_hashKey = key, sr_keys = [key]\<rparr>)"

definition resolveStreamRoute :: "Resp list \<Rightarrow> string \<Rightarrow> Resp + streamRoute" where
  "resolveStreamRoute multi opstr =
     (case map_of streamCommandSpecs opstr of
        None \<Rightarrow> Inl (NewError (Some (''ERR unsupported Stream command '' @ quoted opstr)))
      | Some spec \<Rightarrow>
          (case ss_kind spec of
             streamRouteXGroup \<Rightarrow> resolveStreamContainerRoute multi opstr streamXGroupSubcommands
           | streamRouteXInfo \<Rightarrow> resolveStreamContainerRoute multi opstr streamXInfoSubcommands
           | streamRouteXRead \<Rightarrow> resolveStreamReadRoute multi opstr 1
           | streamRouteXReadGroup \<Rightarrow>
               if length multi < 4 \<or> \<not> streamTokenEqual (Value_of (multi ! 1)) ''GROUP''
               then Inl (wrongArity opstr)
               else resolveStreamReadRoute multi opstr 4
           | streamRouteSingleKey \<Rightarrow> resolveStreamSingleKeyRoute multi opstr))"


section \<open>The table and its lookups\<close>

lemma foldl_upd_map_of:
  "foldl (\<lambda>t x. t(k x \<mapsto> v x)) m xs = m ++ map_of (rev (map (\<lambda>x. (k x, v x)) xs))"
  by (induction xs arbitrary: m) (simp_all add: map_add_def fun_eq_iff split: option.split)

lemma opTable_entries:
  "opTable = map_of (rev (map (\<lambda>i. (op_Name i, i))
     (opInfos1 @ opInfos2 @ map (\<lambda>(n, s). OpInfo_of n (ss_flag s)) streamCommandSpecs)))"
proof -
  have "(\<lambda>t (name, spec). t(name \<mapsto> OpInfo_of name (ss_flag spec))) =
     (\<lambda>t x. t(fst x \<mapsto> OpInfo_of (fst x) (ss_flag (snd x))))"
    by (simp add: fun_eq_iff split: prod.split)
  then show ?thesis
    unfolding opTable_def registerStreamCommandOps_def
    by (simp add: foldl_upd_map_of rev_map case_prod_beta' comp_def)
qed

definition opInfos :: "OpInfo list" where
  "opInfos = opInfos1 @ opInfos2 @ map (\<lambda>(n, s). OpInfo_of n (ss_flag s)) streamCommandSpecs"

text \<open>
  The names are distinct: those without a dash stand in alphabetical order, the others are few,
  and the stream commands have a first letter of their own.
\<close>

fun name_less :: "string \<Rightarrow> string \<Rightarrow> bool" where
  "name_less s [] \<longleftrightarrow> False"
| "name_less [] (y # ys) \<longleftrightarrow> True"
| "name_less (x # xs) (y # ys) \<longleftrightarrow> x < y \<or> (x = y \<and> name_less xs ys)"

lemma name_less_irrefl: "\<not> name_less s s"
  by (induction s) auto

lemma name_less_trans: "name_less s t \<Longrightarrow> name_less t u \<Longrightarrow> name_less s u"
proof (induction s u arbitrary: t rule: name_less.induct)
  case (1 s)
  then show ?case by (cases t) auto
next
  case (2 y ys)
  then show ?case by simp
next
  case (3 x xs y ys)
  then show ?case by (cases t) auto
qed

lemma successively_name_less_distinct:
  assumes "successively name_less xs"
  shows "distinct xs"
proof -
  have "sorted_wrt name_less xs"
    using assms name_less_trans by (metis successively_iff_sorted_wrt_strong)
  then show ?thesis
    by (induction xs) (auto simp: name_less_irrefl)
qed

lemma distinct_filter_both:
  "distinct (filter P xs) \<Longrightarrow> distinct (filter (\<lambda>x. \<not> P x) xs) \<Longrightarrow> distinct xs"
  by (induction xs) (auto split: if_splits)

definition has_dash :: "string \<Rightarrow> bool" where
  "has_dash s \<longleftrightarrow> list_ex (\<lambda>c. c = CHR ''-'') s"

lemma opInfos_distinct: "distinct (map op_Name opInfos)"
proof -
  let ?tab = "map op_Name (opInfos1 @ opInfos2)"
  have "successively name_less (filter (\<lambda>s. \<not> has_dash s) ?tab)" by code_simp
  then have "distinct (filter (\<lambda>s. \<not> has_dash s) ?tab)" by (rule successively_name_less_distinct)
  moreover have "distinct (filter has_dash ?tab)" by code_simp
  ultimately have "distinct ?tab" by (rule distinct_filter_both[rotated])
  moreover have "distinct (map fst streamCommandSpecs)" by code_simp
  moreover have "list_all (\<lambda>s. hd s \<noteq> CHR ''X'') ?tab" by code_simp
  moreover have "list_all (\<lambda>s. hd s = CHR ''X'') (map fst streamCommandSpecs)" by code_simp
  ultimately have "distinct (?tab @ map fst streamCommandSpecs)"
    unfolding list_all_iff distinct_append by blast
  then show ?thesis by (simp add: opInfos_def comp_def case_prod_beta')
qed

lemma opTable_lookup: "i \<in> set opInfos \<Longrightarrow> opTable (op_Name i) = Some i"
proof -
  assume "i \<in> set opInfos"
  moreover have "distinct (map fst (rev (map (\<lambda>i. (op_Name i, i)) opInfos)))"
    using opInfos_distinct by (simp add: comp_def flip: rev_map)
  ultimately show ?thesis
    unfolding opTable_entries opInfos_def[symmetric]
    by (intro map_of_is_SomeI) auto
qed

lemma opTable_name: "opTable s = Some i \<Longrightarrow> op_Name i = s \<and> i \<in> set opInfos"
  unfolding opTable_entries opInfos_def[symmetric] by (auto dest!: map_of_SomeD)



lemma charmap_dash: "charmap (CHR ''-'') = CHR 0x00"
  by code_simp

lemma dash_entries: "filter (has_dash \<circ> op_Name) opInfos = [
     OpInfo_of ''RESTORE-ASKING'' (FlagWrite OR FlagNotAllow),
     OpInfo_of ''SLOTSMGRTONE-ASYNC'' (FlagWrite OR FlagNotAllow),
     OpInfo_of ''SLOTSMGRTSLOT-ASYNC'' (FlagWrite OR FlagNotAllow),
     OpInfo_of ''SLOTSMGRTTAGONE-ASYNC'' (FlagWrite OR FlagNotAllow),
     OpInfo_of ''SLOTSMGRTTAGSLOT-ASYNC'' (FlagWrite OR FlagNotAllow),
     OpInfo_of ''SLOTSMGRT-ASYNC-FENCE'' FlagNotAllow,
     OpInfo_of ''SLOTSMGRT-ASYNC-CANCEL'' FlagNotAllow,
     OpInfo_of ''SLOTSMGRT-ASYNC-STATUS'' FlagNotAllow,
     OpInfo_of ''SLOTSMGRT-EXEC-WRAPPER'' (FlagWrite OR FlagNotAllow),
     OpInfo_of ''SLOTSRESTORE-ASYNC'' (FlagWrite OR FlagNotAllow),
     OpInfo_of ''SLOTSRESTORE-ASYNC-AUTH'' (FlagWrite OR FlagNotAllow),
     OpInfo_of ''SLOTSRESTORE-ASYNC-ACK'' (FlagWrite OR FlagNotAllow)]"
  by code_simp

section \<open>Tags and slots\<close>

lemma hash_tag_found:
  assumes "CHR ''{'' \<notin> set p" and "CHR ''}'' \<notin> set t"
  shows "hashTagOrKeyWithTag (p @ ''{'' @ t @ ''}'' @ s) = (t, True)"
  using assms by (simp add: hashTagOrKeyWithTag_def go_slice_def)

lemma hash_tag_absent:
  assumes "CHR ''{'' \<notin> set key \<or> CHR ''}'' \<notin> set key"
  shows "hashTagOrKeyWithTag key = (key, False)"
proof -
  have "IndexByte (drop n key) (CHR ''}'') = None" if "CHR ''}'' \<notin> set key" for n
    using that by (meson IndexByte_None in_set_dropD)
  with assms show ?thesis
    by (auto simp: hashTagOrKeyWithTag_def split: option.split)
qed

lemma collectStreamKeys_all:
  "collectStreamKeys first ks = Inr keys \<Longrightarrow> keys = ks \<and> (\<forall>k \<in> set ks. hashTagOrKeyWithTag k = first)"
  by (induction ks arbitrary: keys) (auto split: if_splits sum.splits)

lemma same_tag_same_Hash: "hashTagOrKeyWithTag k = hashTagOrKeyWithTag k' \<Longrightarrow> Hash k = Hash k'"
  by (simp add: Hash_def hashTagOrKey_def)

lemma findStreams_index:
  "findStreams opstr args i = Inr (Some j) \<Longrightarrow> i \<le> j \<and> j < i + length args"
  by (induction opstr args i rule: findStreams.induct) (auto split: if_splits)

lemma resolveStreamReadRoute_keys:
  assumes "resolveStreamReadRoute multi opstr n = Inr route"
  shows "sr_keys route \<noteq> [] \<and> sr_hashKey route = hd (sr_keys route) \<and>
     (\<forall>k \<in> set (sr_keys route). hashTagOrKeyWithTag k = hashTagOrKeyWithTag (sr_hashKey route)) \<and>
     set (sr_keys route) \<subseteq> Value_of ` set multi"
proof -
  from assms obtain j keys where j: "findStreams opstr (drop n multi) n = Inr (Some j)"
      and blk: "\<not> length multi - j - 1 < 2"
      and keys: "collectStreamKeys (hashTagOrKeyWithTag (Value_of (multi ! (j + 1))))
         (map (\<lambda>i. Value_of (multi ! (j + 1 + i))) [0..<(length multi - j - 1) div 2]) = Inr keys"
      and route: "route = \<lparr>sr_hashKey = Value_of (multi ! (j + 1)), sr_keys = keys\<rparr>"
    by (auto simp: resolveStreamReadRoute_def Let_def split: sum.splits option.splits if_splits)
  let ?n = "(length multi - j - 1) div 2"
  note k = collectStreamKeys_all[OF keys]
  have pos: "0 < ?n" using blk by linarith
  have "hd keys = Value_of (multi ! (j + 1))" "keys \<noteq> []"
    using k pos by (auto simp: hd_map upt_conv_Cons)
  moreover have "set keys \<subseteq> Value_of ` set multi"
    using k by (auto intro!: imageI nth_mem)
  ultimately show ?thesis using k by (simp add: route)
qed

lemma resolveStreamRoute_keys:
  assumes "resolveStreamRoute multi opstr = Inr route"
  shows "sr_keys route \<noteq> [] \<and> sr_hashKey route = hd (sr_keys route) \<and>
     (\<forall>k \<in> set (sr_keys route). hashTagOrKeyWithTag k = hashTagOrKeyWithTag (sr_hashKey route)) \<and>
     set (sr_keys route) \<subseteq> Value_of ` set multi"
proof -
  have one: "?thesis" if "route = \<lparr>sr_hashKey = Value_of m, sr_keys = [Value_of m]\<rparr>" "m \<in> set multi" for m
    using that by simp
  from assms consider n where "resolveStreamReadRoute multi opstr n = Inr route"
    | m where "route = \<lparr>sr_hashKey = Value_of m, sr_keys = [Value_of m]\<rparr>" "m \<in> set multi"
    by (auto simp: resolveStreamRoute_def resolveStreamSingleKeyRoute_def
        resolveStreamContainerRoute_def Let_def split: option.splits streamRouteKind.splits if_splits)
  then show ?thesis using one resolveStreamReadRoute_keys by cases blast+
qed

section \<open>Properties\<close>

text \<open>
  A command of the table whose name has letters and colons only gets the flags of its entry,
  in whatever mix of upper and lower case the client spells it.
\<close>

theorem getOpInfo_table:
  assumes "i \<in> set opInfos" and "op \<noteq> []" and "length op \<le> MaxOpStrLen"
    and "map charmap op = op_Name i" and "CHR 0x00 \<notin> set (op_Name i)"
  shows "getOpInfo uni (NewBulkBytes (Some op) # args) = Inr (op_Name i, op_Flag i)"
proof -
  have "\<not> list_ex (\<lambda>c. charmap c = CHR 0x00) op"
    unfolding list_ex_iff using assms(5) assms(4)[symmetric] by (metis imageI list.set_map)
  with assms opTable_lookup[OF assms(1)] show ?thesis
    by (simp add: getOpInfo_def Value_of_def NewBulkBytes_def)
qed

theorem getOpInfo_table_witness:
  "getOpInfo id [NewBulkBytes (Some ''fLuShAlL'')] = Inr (''FLUSHALL'', FlagWrite OR FlagNotAllow)"
proof -
  have "OpInfo_of ''FLUSHALL'' (FlagWrite OR FlagNotAllow) \<in> set opInfos"
    by (simp add: opInfos_def opInfos1_def)
  moreover have "map charmap ''fLuShAlL'' = ''FLUSHALL''" by code_simp
  ultimately show ?thesis
    using getOpInfo_table[of "OpInfo_of ''FLUSHALL'' (FlagWrite OR FlagNotAllow)" "''fLuShAlL''" id "[]"]
    by (simp add: MaxOpStrLen_def)
qed

text \<open>
  A command that is not in the table is never taken for a read: it gets the flag that sends
  it to the master.  So a read-only classification always comes from an entry of the table.
\<close>

theorem getOpInfo_unknown_is_write:
  assumes "getOpInfo uni multi = Inr (name, flag)"
  shows "(IsReadOnly flag \<longrightarrow> (\<exists>i \<in> set opInfos. op_Name i = name \<and> op_Flag i = flag)) \<and>
     (opTable name = None \<longrightarrow> IsMasterOnly flag \<and> \<not> IsReadOnly flag)"
proof -
  have may: "IsMasterOnly FlagMayWrite" "\<not> IsReadOnly FlagMayWrite"
    by (simp_all add: IsMasterOnly_def IsReadOnly_def op_flags)
  from assms have "flag = FlagMayWrite \<or> (\<exists>i s. opTable s = Some i \<and> name = op_Name i \<and> op_Flag i = flag)"
    by (auto simp: getOpInfo_def Let_def split: if_splits option.splits)
  then consider "flag = FlagMayWrite" | i where "opTable name = Some i" "op_Flag i = flag"
    using opTable_name by metis
  then show ?thesis
    using may opTable_name[of name] by cases auto
qed

theorem getOpInfo_unknown_is_write_witness:
  "getOpInfo id [NewBulkBytes (Some ''Foo'')] = Inr (''FOO'', FlagMayWrite) \<and>
   IsMasterOnly FlagMayWrite \<and> \<not> IsReadOnly FlagMayWrite"
proof -
  have "opTable ''FOO'' = None" by code_simp
  moreover have "map charmap ''Foo'' = ''FOO''" "\<not> list_ex (\<lambda>c. charmap c = CHR 0x00) ''Foo''"
    by code_simp+
  ultimately have g: "getOpInfo id [NewBulkBytes (Some ''Foo'')] = Inr (''FOO'', FlagMayWrite)"
    by (simp only: getOpInfo_def Value_of_def NewBulkBytes_def) (simp add: MaxOpStrLen_def)
  moreover note \<open>opTable ''FOO'' = None\<close>
  ultimately show ?thesis using getOpInfo_unknown_is_write[OF g] by simp
qed

text \<open>
  C40.  The entries of the table whose name has a dash are never consulted: such a command gets the
  flag of an unknown command, so it is not refused although its entry says so.
\<close>

theorem dash_entries_unreachable:
  assumes "i \<in> set opInfos" and "has_dash (op_Name i)"
  shows "IsNotAllowed (op_Flag i) \<and>
     getOpInfo uni (NewBulkBytes (Some (op_Name i)) # args) = Inr (op_Name i, FlagMayWrite) \<and>
     \<not> IsNotAllowed FlagMayWrite"
proof -
  have "list_all (\<lambda>i. IsNotAllowed (op_Flag i) \<and> op_Name i \<noteq> [] \<and>
      length (op_Name i) \<le> MaxOpStrLen \<and> ToUpper id (op_Name i) = op_Name i \<and>
      list_all (\<lambda>c. (of_char c :: nat) < 128) (op_Name i)) (filter (has_dash \<circ> op_Name) opInfos)"
    unfolding dash_entries
    by (simp add: ToUpper_def less_eq_char_def IsNotAllowed_def op_flags MaxOpStrLen_def)
  with assms have i: "IsNotAllowed (op_Flag i)" "op_Name i \<noteq> []" "length (op_Name i) \<le> MaxOpStrLen"
      "ToUpper id (op_Name i) = op_Name i" "list_all (\<lambda>c. (of_char c :: nat) < 128) (op_Name i)"
    by (auto simp: list_all_iff)
  have "list_ex (\<lambda>c. charmap c = CHR 0x00) (op_Name i)"
    using assms(2) charmap_dash unfolding has_dash_def list_ex_iff by metis
  with i show ?thesis
    by (simp add: getOpInfo_def Value_of_def NewBulkBytes_def ToUpper_def IsNotAllowed_def op_flags)
qed

theorem dash_entries_unreachable_witness:
  "opTable ''SLOTSMGRT-EXEC-WRAPPER'' = Some (OpInfo_of ''SLOTSMGRT-EXEC-WRAPPER'' (FlagWrite OR FlagNotAllow)) \<and>
   getOpInfo id [NewBulkBytes (Some ''SLOTSMGRT-EXEC-WRAPPER'')] = Inr (''SLOTSMGRT-EXEC-WRAPPER'', FlagMayWrite)"
proof -
  let ?i = "OpInfo_of ''SLOTSMGRT-EXEC-WRAPPER'' (FlagWrite OR FlagNotAllow)"
  have i: "?i \<in> set opInfos" by (simp add: opInfos_def opInfos2_def)
  moreover have "has_dash (op_Name ?i)" by code_simp
  ultimately show ?thesis
    using dash_entries_unreachable[of ?i id "[]"] opTable_lookup[OF i] by simp
qed

text \<open>
  C38.  Keys with the same hash tag are in the same slot, whatever stands around the tag, and that
  slot is the one of the tag itself.
\<close>

theorem same_tag_same_slot:
  assumes "CHR ''{'' \<notin> set p" and "CHR ''{'' \<notin> set p'" and "CHR ''}'' \<notin> set t" and "CHR ''{'' \<notin> set t"
  shows "Hash (p @ ''{'' @ t @ ''}'' @ s) = Hash (p' @ ''{'' @ t @ ''}'' @ s') \<and>
     Hash (p @ ''{'' @ t @ ''}'' @ s) = Hash t"
  using hash_tag_found[OF assms(1,3)] hash_tag_found[OF assms(2,3)] hash_tag_absent[of t] assms(4)
  by (simp add: Hash_def hashTagOrKey_def)

theorem same_tag_same_slot_witness:
  "Hash ''user:{42}:name'' = Hash ''{42}'' \<and> Hash ''user:{42}:name'' = Hash ''42''"
  using same_tag_same_slot[of "''user:''" "[]" "''42''" "'':name''" "[]"] by auto



end
