(* ===== verification/Models.thy ===== *)
theory Models
  imports Mapper
begin

text \<open>
  The data of the control plane, from \<open>src/pkg/models\<close>: slots as the proxies see them, slot
  mappings, groups and their servers, proxies, sentinels, access lists and rate limits.  A nested
  \<open>Action\<close> or \<open>Promoting\<close> struct is flattened into the fields of its record.  The states of an
  action are the constants of \<open>action.go\<close>, and \<open>ActionOther\<close> for any other string that a stored
  record may hold.  Go's \<open>int\<close> is \<^typ>\<open>int\<close>: the model does not let identifiers and action
  indices reach the 64-bit bounds.
\<close>

datatype ActionState = ActionNothing | ActionPending | ActionPreparing | ActionPrepared
  | ActionMigrating | ActionFinished | ActionSyncing | ActionOther string

definition ForwardSync :: int where "ForwardSync = 0"
definition ForwardSemiAsync :: int where "ForwardSemiAsync = 1"

definition MaxSlotNum :: nat where "MaxSlotNum = 1024"
definition MaxGroupId :: int where "MaxGroupId = 9999"

record Slot =
  sl_Id :: int
  sl_Locked :: bool
  sl_BackendAddr :: string
  sl_BackendAddrGroupId :: int
  sl_MigrateFrom :: string
  sl_MigrateFromGroupId :: int
  sl_ForwardMethod :: int
  sl_ReplicaGroups :: "string list list"

definition ParseForwardMethod :: "(bytes \<Rightarrow> bytes) \<Rightarrow> string \<Rightarrow> int \<times> bool" where
  "ParseForwardMethod uni s =
     (let u = ToUpper uni s
      in if u = ''SYNC'' then (ForwardSync, True)
         else if u = ''SEMI-ASYNC'' then (ForwardSemiAsync, True)
         else (ForwardSync, False))"

record SlotMapping =
  sm_Id :: int
  sm_GroupId :: int
  sm_Index :: int
  sm_State :: ActionState
  sm_TargetId :: int

text \<open>\<open>&models.SlotMapping{Id: i, GroupId: g}\<close>\<close>

definition SlotMapping_of :: "int \<Rightarrow> int \<Rightarrow> SlotMapping" where
  "SlotMapping_of i g =
     \<lparr>sm_Id = i, sm_GroupId = g, sm_Index = 0, sm_State = ActionNothing, sm_TargetId = 0\<rparr>"

record GroupServer =
  gs_Addr :: string
  gs_DataCenter :: string
  gs_Index :: int
  gs_State :: ActionState
  gs_ReplicaGroup :: bool

record Group =
  g_Id :: int
  g_Servers :: "GroupServer list"
  g_PromIndex :: int
  g_PromState :: ActionState
  g_OutOfSync :: bool

text \<open>\<open>&models.Group{Id: i, Servers: xs}\<close>\<close>

definition Group_of :: "int \<Rightarrow> GroupServer list \<Rightarrow> Group" where
  "Group_of i xs =
     \<lparr>g_Id = i, g_Servers = xs, g_PromIndex = 0, g_PromState = ActionNothing, g_OutOfSync = False\<rparr>"

record Proxy =
  p_Id :: int
  p_Token :: string
  p_StartTime :: string
  p_AdminAddr :: string
  p_ProtoType :: string
  p_ProxyAddr :: string
  p_JodisPath :: string
  p_ProductName :: string
  p_Pid :: int
  p_Pwd :: string
  p_Sys :: string
  p_Hostname :: string
  p_DataCenter :: string

record Sentinel =
  sn_Servers :: "string list"
  sn_OutOfSync :: bool

definition Sentinel_zero :: Sentinel where
  "Sentinel_zero = \<lparr>sn_Servers = [], sn_OutOfSync = False\<rparr>"

record ACLUser =
  au_Name :: string
  au_Enabled :: bool
  au_DB :: "int option"
  au_PasswordHashes :: "string list"
  au_Rules :: "string list"

record ACL =
  acl_Revision :: int
  acl_Enabled :: bool
  acl_Users :: "ACLUser list"
  acl_UpdatedAt :: string

definition ACL_zero :: ACL where
  "ACL_zero = \<lparr>acl_Revision = 0, acl_Enabled = False, acl_Users = [], acl_UpdatedAt = []\<rparr>"

record ProxyQPSLimit =
  ql_Revision :: int
  ql_Limit :: int
  ql_UpdatedAt :: string

definition ProxyQPSLimit_zero :: ProxyQPSLimit where
  "ProxyQPSLimit_zero = \<lparr>ql_Revision = 0, ql_Limit = 0, ql_UpdatedAt = []\<rparr>"

end
