(* ===== verification/Topom.thy ===== *)
theory Topom
  imports Models
begin

text \<open>
  The state of the dashboard (\<open>Topom\<close> in \<open>src/pkg/topom/topom.go\<close>), its store and its cache
  (\<open>topom_cache.go\<close>, \<open>src/pkg/models/store.go\<close>).

  The store holds the decoded records; a JSON encoding and its decoding are taken to be inverse.
  Every access to the outside, a read or a write of the store or a call of a proxy, takes the next
  outcome of a script: \<open>Done\<close>, or \<open>Failed k\<close>.  A failed write has not been applied for \<open>k = 0\<close> and
  has been applied otherwise, although an error is reported; a failed call of a proxy has been
  applied to its first \<open>k\<close> slots.  Statements about all scripts are statements about all
  failures, lost replies included.  What the proxies and the Redis servers have been told is part
  of the state: the slots (\<open>t_views\<close>), the access list (\<open>t_acls\<close>) and the limit (\<open>t_limits\<close>) of each
  proxy by its token, and the \<open>ACL\<close> commands sent to each server (\<open>t_sent\<close>).

  The cache has nil entries, which a refill loads again, and a list of hooks, which set entries to
  nil before the next refill.  A context of the code shares the records of the cache, so here
  it is the cache itself, and an assignment through a record of a context is an update of the
  cache.  A deferred call runs after the rest of the function, on every path.
\<close>

section \<open>Outcomes, store and state\<close>

datatype outcome = Done | Failed nat

record Store =
  st_slots :: "int \<rightharpoonup> SlotMapping"
  st_group :: "(int \<times> Group) list"
  st_proxy :: "(string \<times> Proxy) list"
  st_sentinel :: "Sentinel option"
  st_acl :: "ACL option"
  st_qps :: "ProxyQPSLimit option"

datatype hook = HookSlot int | HookGroup int | HookProxy string | HookSentinel | HookACL
  | HookQPS | HookAll

record Topom =
  t_xauth :: string
  t_online :: bool
  t_closed :: bool
  t_store :: Store
  t_hooks :: "hook list"
  t_slots :: "SlotMapping option list option"
  t_group :: "(int \<times> Group option) list option"
  t_proxy :: "(string \<times> Proxy option) list option"
  t_sentinel :: "Sentinel option"
  t_acl :: "ACL option"
  t_qps :: "ProxyQPSLimit option"
  t_disabled :: bool
  t_executor :: int
  t_interval :: int
  t_masters :: "(int \<times> string) list option"
  t_aclSync_revision :: int
  t_aclSync_failed :: "string list"
  t_MigrationMethod :: string
  t_BackendAuthUsername :: string
  t_BackendAuthPassword :: string
  t_env :: "outcome list"
  t_views :: "string \<Rightarrow> int \<rightharpoonup> Slot"
  t_acls :: "string \<rightharpoonup> ACL"
  t_limits :: "string \<rightharpoonup> int \<times> int"
  t_sent :: "(string \<times> string list) list"
  t_dns :: "string \<rightharpoonup> string"
  t_upper :: "bytes \<Rightarrow> bytes"

datatype acl_rule_error = PlainPasswordToken | ManagedToken string

datatype topom_error =
    ErrClosedTopom
  | ErrNotOnline
  | LoadFailed
  | UpdateFailed
  | ResyncFailed
  | InvalidSlots
  | SlotNotExist int
  | SlotActionExists int
  | SlotAlreadyInGroup int int
  | SlotActionNotExist int
  | SlotActionNotPending int
  | SlotActionInvalid int
  | SlotActionGiven int
  | SlotGroupNotZero int
  | InvalidSlotRange int int
  | GroupNotExist int
  | GroupExists int
  | GroupIdOutOfRange int
  | GroupEmpty int
  | GroupNotEmpty int
  | GroupPromoting int
  | GroupMasterInUse int
  | GroupPromoteMaster int
  | GroupPromoteIndex int
  | GroupStateInvalid int
  | MigrationRunning int
  | ServerNotExist string
  | ServerExists string
  | InvalidServerAddr
  | SyncActionExists string
  | SyncActionNotExist string
  | SyncActionInvalid string
  | ACLSyncFailed string
  | MissingRequest
  | NilACLUser
  | InvalidACLUserName string
  | ACLUserReserved string
  | ACLRulesInvalid string acl_rule_error
  | InvalidPasswordHash string
  | EmptyACLRules string
  | MissingPasswordHash string
  | InvalidACLUserDB string int
  | DuplicateACLUser string
  | ACLProxySyncFailed "string list"
  | InvalidQPSLimit
  | QPSLimitSyncFailed "string list"
  | InvalidSentinelAddr
  | SentinelExists string
  | SentinelNotFound string
  | SentinelFailed
  | StoreLockFailed
  | ProxyNotExist string
  | ProxyExists string
  | ProxyFetchFailed
  | ProxyAuthFailed
  | ProxyShutdownFailed string
  | ProxyCallFailed string
  | NoValidGroup
  | Panicked

section \<open>Operations that may fail\<close>

type_synonym 'a topom_op = "Topom \<Rightarrow> (topom_error + 'a) \<times> Topom"

definition returnT :: "'a \<Rightarrow> 'a topom_op" where
  "returnT x s = (Inr x, s)"

definition failT :: "topom_error \<Rightarrow> 'a topom_op" where
  "failT e s = (Inl e, s)"

definition bindT :: "'a topom_op \<Rightarrow> ('a \<Rightarrow> 'b topom_op) \<Rightarrow> 'b topom_op" where
  "bindT m f s = (case m s of (Inl e, s1) \<Rightarrow> (Inl e, s1) | (Inr x, s1) \<Rightarrow> f x s1)"

definition seqT :: "unit topom_op \<Rightarrow> 'b topom_op \<Rightarrow> 'b topom_op" where
  "seqT m n = bindT m (\<lambda>_. n)"

definition readT :: "(Topom \<Rightarrow> 'a) \<Rightarrow> 'a topom_op" where
  "readT f s = (Inr (f s), s)"

definition modifyT :: "(Topom \<Rightarrow> Topom) \<Rightarrow> unit topom_op" where
  "modifyT f s = (Inr (), f s)"

definition guardT :: "bool \<Rightarrow> topom_error \<Rightarrow> unit topom_op" where
  "guardT b e = (if b then returnT () else failT e)"

text \<open>\<open>defer d()\<close> before the rest \<open>m\<close> of the function.\<close>

definition deferT :: "(Topom \<Rightarrow> Topom) \<Rightarrow> 'a topom_op \<Rightarrow> 'a topom_op" where
  "deferT d m s = (case m s of (r, s1) \<Rightarrow> (r, d s1))"

text \<open>
  What follows an error of a call, and a call whose error is dropped.  \<open>Panicked\<close> is the exit of
  the process in \<open>log.Panicf\<close>, after which nothing follows.
\<close>

definition catchT :: "'a topom_op \<Rightarrow> (topom_error \<Rightarrow> 'a topom_op) \<Rightarrow> 'a topom_op" where
  "catchT m h s =
     (case m s of
        (Inl e, s1) \<Rightarrow> if e = Panicked then (Inl e, s1) else h e s1
      | (Inr x, s1) \<Rightarrow> (Inr x, s1))"

definition ignoreT :: "unit topom_op \<Rightarrow> unit topom_op" where
  "ignoreT m = catchT m (\<lambda>_. returnT ())"

definition next_outcome :: "Topom \<Rightarrow> outcome \<times> Topom" where
  "next_outcome s = (case t_env s of [] \<Rightarrow> (Done, s) | x # xs \<Rightarrow> (x, s\<lparr>t_env := xs\<rparr>))"

text \<open>A write of the store, with the error that is reported when it fails.\<close>

definition storeWrite :: "(Store \<Rightarrow> Store) \<Rightarrow> unit topom_op" where
  "storeWrite f s =
     (case next_outcome s of
        (Done, s1) \<Rightarrow> (Inr (), s1\<lparr>t_store := f (t_store s1)\<rparr>)
      | (Failed 0, s1) \<Rightarrow> (Inl UpdateFailed, s1)
      | (Failed (Suc _), s1) \<Rightarrow> (Inl UpdateFailed, s1\<lparr>t_store := f (t_store s1)\<rparr>))"

section \<open>topom_cache.go: hooks\<close>

definition pushHook :: "hook \<Rightarrow> Topom \<Rightarrow> Topom" where
  "pushHook h s = s\<lparr>t_hooks := t_hooks s @ [h]\<rparr>"

definition dirtySlotsCache :: "int \<Rightarrow> Topom \<Rightarrow> Topom" where
  "dirtySlotsCache sid = pushHook (HookSlot sid)"

definition dirtyGroupCache :: "int \<Rightarrow> Topom \<Rightarrow> Topom" where
  "dirtyGroupCache gid = pushHook (HookGroup gid)"

definition dirtyProxyCache :: "string \<Rightarrow> Topom \<Rightarrow> Topom" where
  "dirtyProxyCache token = pushHook (HookProxy token)"

definition dirtySentinelCache :: "Topom \<Rightarrow> Topom" where
  "dirtySentinelCache = pushHook HookSentinel"

definition dirtyACLCache :: "Topom \<Rightarrow> Topom" where
  "dirtyACLCache = pushHook HookACL"

definition dirtyProxyQPSLimitCache :: "Topom \<Rightarrow> Topom" where
  "dirtyProxyQPSLimitCache = pushHook HookQPS"

definition dirtyCacheAll :: "Topom \<Rightarrow> Topom" where
  "dirtyCacheAll = pushHook HookAll"

text \<open>The closures that the functions above push.\<close>

fun runHook :: "hook \<Rightarrow> Topom \<Rightarrow> Topom" where
  "runHook (HookSlot sid) s = s\<lparr>t_slots := map_option (\<lambda>l. l[nat sid := None]) (t_slots s)\<rparr>"
| "runHook (HookGroup gid) s = s\<lparr>t_group := map_option (AList.update gid None) (t_group s)\<rparr>"
| "runHook (HookProxy t) s = s\<lparr>t_proxy := map_option (AList.update t None) (t_proxy s)\<rparr>"
| "runHook HookSentinel s = s\<lparr>t_sentinel := None\<rparr>"
| "runHook HookACL s = s\<lparr>t_acl := None\<rparr>"
| "runHook HookQPS s = s\<lparr>t_qps := None\<rparr>"
| "runHook HookAll s =
     s\<lparr>t_slots := None, t_group := None, t_proxy := None, t_sentinel := None, t_acl := None,
       t_qps := None\<rparr>"

definition runHooks :: "Topom \<Rightarrow> Topom" where
  "runHooks s = fold runHook (t_hooks s) (s\<lparr>t_hooks := []\<rparr>)"

section \<open>store.go: loads\<close>

text \<open>A read of the store: the value, or an error.\<close>

definition storeRead :: "(Store \<Rightarrow> 'a) \<Rightarrow> Topom \<Rightarrow> 'a option \<times> Topom" where
  "storeRead f s =
     (case next_outcome s of (Done, s1) \<Rightarrow> (Some (f (t_store s1)), s1) | (Failed _, s1) \<Rightarrow> (None, s1))"

definition slot_at :: "Store \<Rightarrow> int \<Rightarrow> SlotMapping" where
  "slot_at st i = (case st_slots st i of Some m \<Rightarrow> m | None \<Rightarrow> SlotMapping_of i 0)"

text \<open>
  The loops of \<open>SlotMappings\<close> and \<open>refillCacheSlots\<close>: the nil entries from index \<open>i\<close> on are
  loaded until a load fails; the entries loaded before stay.
\<close>

fun loadSlots :: "int \<Rightarrow> SlotMapping option list \<Rightarrow> Topom \<Rightarrow> (bool \<times> SlotMapping option list) \<times> Topom" where
  "loadSlots i [] s = ((True, []), s)"
| "loadSlots i (Some m # ms) s =
     (case loadSlots (i + 1) ms s of ((ok, ms1), s1) \<Rightarrow> ((ok, Some m # ms1), s1))"
| "loadSlots i (None # ms) s =
     (case storeRead (\<lambda>st. slot_at st i) s of
        (None, s1) \<Rightarrow> ((False, None # ms), s1)
      | (Some m, s1) \<Rightarrow>
          (case loadSlots (i + 1) ms s1 of ((ok, ms1), s2) \<Rightarrow> ((ok, Some m # ms1), s2)))"

definition SlotMappings :: "Topom \<Rightarrow> SlotMapping option list option \<times> Topom" where
  "SlotMappings s =
     (case loadSlots 0 (replicate MaxSlotNum None) s of
        ((True, ms), s1) \<Rightarrow> (Some ms, s1)
      | ((False, _), s1) \<Rightarrow> (None, s1))"

text \<open>
  The loop of \<open>ListGroup\<close> and \<open>ListProxy\<close> over the listed records, each read on its own and
  entered under its own key; and the loop that loads nil entries of a map and deletes those
  that the store does not have.
\<close>

fun listRecords :: "('r \<Rightarrow> 'k) \<Rightarrow> 'r list \<Rightarrow> ('k \<times> 'r option) list \<Rightarrow> Topom \<Rightarrow>
    ('k \<times> 'r option) list option \<times> Topom" where
  "listRecords key [] m s = (Some m, s)"
| "listRecords key (r # rs) m s =
     (case storeRead (\<lambda>_. r) s of
        (None, s1) \<Rightarrow> (None, s1)
      | (Some r1, s1) \<Rightarrow> listRecords key rs (AList.update (key r1) (Some r1) m) s1)"

definition listStore :: "(Store \<Rightarrow> ('k \<times> 'r) list) \<Rightarrow> ('r \<Rightarrow> 'k) \<Rightarrow> Topom \<Rightarrow>
    ('k \<times> 'r option) list option \<times> Topom" where
  "listStore f key s =
     (case storeRead (\<lambda>st. map snd (f st)) s of
        (None, s1) \<Rightarrow> (None, s1)
      | (Some rs, s1) \<Rightarrow> listRecords key rs [] s1)"

definition ListGroup :: "Topom \<Rightarrow> (int \<times> Group option) list option \<times> Topom" where
  "ListGroup = listStore st_group g_Id"

definition ListProxy :: "Topom \<Rightarrow> (string \<times> Proxy option) list option \<times> Topom" where
  "ListProxy = listStore st_proxy p_Token"

fun loadNils :: "(Store \<Rightarrow> ('k \<times> 'r) list) \<Rightarrow> ('k \<times> 'r option) list \<Rightarrow> Topom \<Rightarrow>
    (bool \<times> ('k \<times> 'r option) list) \<times> Topom" where
  "loadNils f [] s = ((True, []), s)"
| "loadNils f ((k, Some r) # m) s =
     (case loadNils f m s of ((ok, m1), s1) \<Rightarrow> ((ok, (k, Some r) # m1), s1))"
| "loadNils f ((k, None) # m) s =
     (case storeRead (\<lambda>st. map_of (f st) k) s of
        (None, s1) \<Rightarrow> ((False, (k, None) # m), s1)
      | (Some None, s1) \<Rightarrow> loadNils f m s1
      | (Some (Some r), s1) \<Rightarrow>
          (case loadNils f m s1 of ((ok, m1), s2) \<Rightarrow> ((ok, (k, Some r) # m1), s2)))"

section \<open>topom_cache.go: refill\<close>

definition refillCacheSlots :: "unit topom_op" where
  "refillCacheSlots s =
     (case t_slots s of
        None \<Rightarrow>
          (case SlotMappings s of
             (None, s1) \<Rightarrow> (Inl LoadFailed, s1)
           | (Some ms, s1) \<Rightarrow> (Inr (), s1\<lparr>t_slots := Some ms\<rparr>))
      | Some ms \<Rightarrow>
          (case loadSlots 0 ms s of
             ((ok, ms1), s1) \<Rightarrow>
               (if ok then Inr () else Inl LoadFailed, s1\<lparr>t_slots := Some ms1\<rparr>)))"

definition refillCacheGroup :: "unit topom_op" where
  "refillCacheGroup s =
     (case t_group s of
        None \<Rightarrow>
          (case ListGroup s of
             (None, s1) \<Rightarrow> (Inl LoadFailed, s1)
           | (Some m, s1) \<Rightarrow> (Inr (), s1\<lparr>t_group := Some m\<rparr>))
      | Some m \<Rightarrow>
          (case loadNils st_group m s of
             ((ok, m1), s1) \<Rightarrow>
               (if ok then Inr () else Inl LoadFailed, s1\<lparr>t_group := Some m1\<rparr>)))"

definition refillCacheProxy :: "unit topom_op" where
  "refillCacheProxy s =
     (case t_proxy s of
        None \<Rightarrow>
          (case ListProxy s of
             (None, s1) \<Rightarrow> (Inl LoadFailed, s1)
           | (Some m, s1) \<Rightarrow> (Inr (), s1\<lparr>t_proxy := Some m\<rparr>))
      | Some m \<Rightarrow>
          (case loadNils st_proxy m s of
             ((ok, m1), s1) \<Rightarrow>
               (if ok then Inr () else Inl LoadFailed, s1\<lparr>t_proxy := Some m1\<rparr>)))"

definition refillCacheSentinel :: "unit topom_op" where
  "refillCacheSentinel s =
     (case t_sentinel s of
        Some _ \<Rightarrow> (Inr (), s)
      | None \<Rightarrow>
          (case storeRead st_sentinel s of
             (None, s1) \<Rightarrow> (Inl LoadFailed, s1)
           | (Some p, s1) \<Rightarrow>
               (Inr (), s1\<lparr>t_sentinel := Some (case p of Some x \<Rightarrow> x | None \<Rightarrow> Sentinel_zero)\<rparr>)))"

definition refillCacheACL :: "unit topom_op" where
  "refillCacheACL s =
     (case t_acl s of
        Some _ \<Rightarrow> (Inr (), s)
      | None \<Rightarrow>
          (case storeRead st_acl s of
             (None, s1) \<Rightarrow> (Inl LoadFailed, s1)
           | (Some p, s1) \<Rightarrow>
               (Inr (), s1\<lparr>t_acl := Some (case p of Some x \<Rightarrow> x | None \<Rightarrow> ACL_zero)\<rparr>)))"

definition refillCacheProxyQPSLimit :: "unit topom_op" where
  "refillCacheProxyQPSLimit s =
     (case t_qps s of
        Some _ \<Rightarrow> (Inr (), s)
      | None \<Rightarrow>
          (case storeRead st_qps s of
             (None, s1) \<Rightarrow> (Inl LoadFailed, s1)
           | (Some p, s1) \<Rightarrow>
               (Inr (), s1\<lparr>t_qps := Some (case p of Some x \<Rightarrow> x | None \<Rightarrow> ProxyQPSLimit_zero)\<rparr>)))"

definition refillCache :: "unit topom_op" where
  "refillCache =
     seqT (modifyT runHooks)
       (seqT refillCacheSlots
         (seqT refillCacheGroup
           (seqT refillCacheProxy
             (seqT refillCacheSentinel
               (seqT refillCacheACL refillCacheProxyQPSLimit)))))"

text \<open>\<open>newContext\<close> of \<open>topom.go\<close>: the context is the refilled cache.\<close>

definition newContext :: "unit topom_op" where
  "newContext s =
     (if t_closed s then (Inl ErrClosedTopom, s)
      else if t_online s then refillCache s
      else (Inl ErrNotOnline, s))"

section \<open>topom_cache.go: updates\<close>

definition storeUpdateSlotMapping :: "SlotMapping \<Rightarrow> unit topom_op" where
  "storeUpdateSlotMapping m = storeWrite (\<lambda>st. st\<lparr>st_slots := (st_slots st)(sm_Id m \<mapsto> m)\<rparr>)"

definition storeUpdateGroup :: "Group \<Rightarrow> unit topom_op" where
  "storeUpdateGroup g = storeWrite (\<lambda>st. st\<lparr>st_group := AList.update (g_Id g) g (st_group st)\<rparr>)"

definition storeCreateGroup :: "Group \<Rightarrow> unit topom_op" where
  "storeCreateGroup g = storeWrite (\<lambda>st. st\<lparr>st_group := AList.update (g_Id g) g (st_group st)\<rparr>)"

definition storeRemoveGroup :: "Group \<Rightarrow> unit topom_op" where
  "storeRemoveGroup g = storeWrite (\<lambda>st. st\<lparr>st_group := AList.delete (g_Id g) (st_group st)\<rparr>)"

definition storeUpdateProxy :: "Proxy \<Rightarrow> unit topom_op" where
  "storeUpdateProxy p = storeWrite (\<lambda>st. st\<lparr>st_proxy := AList.update (p_Token p) p (st_proxy st)\<rparr>)"

definition storeCreateProxy :: "Proxy \<Rightarrow> unit topom_op" where
  "storeCreateProxy p = storeWrite (\<lambda>st. st\<lparr>st_proxy := AList.update (p_Token p) p (st_proxy st)\<rparr>)"

definition storeRemoveProxy :: "Proxy \<Rightarrow> unit topom_op" where
  "storeRemoveProxy p = storeWrite (\<lambda>st. st\<lparr>st_proxy := AList.delete (p_Token p) (st_proxy st)\<rparr>)"

definition storeUpdateSentinel :: "Sentinel \<Rightarrow> unit topom_op" where
  "storeUpdateSentinel p = storeWrite (\<lambda>st. st\<lparr>st_sentinel := Some p\<rparr>)"

definition storeUpdateACL :: "ACL \<Rightarrow> unit topom_op" where
  "storeUpdateACL acl = storeWrite (\<lambda>st. st\<lparr>st_acl := Some acl\<rparr>)"

definition storeUpdateProxyQPSLimit :: "ProxyQPSLimit \<Rightarrow> unit topom_op" where
  "storeUpdateProxyQPSLimit config = storeWrite (\<lambda>st. st\<lparr>st_qps := Some config\<rparr>)"

end
