(* ===== verification/Context.thy ===== *)
theory Context
  imports Topom
begin

text \<open>
  The queries of \<open>src/pkg/topom/context.go\<close>, on the cache that the context shares.  After a
  refill the cache has no nil entries; a nil entry, which the code would dereference, reads as a zero
  record here.  A Go map is an association list, and a loop over it follows the list.  The
  address resolver with its memo is the function \<open>t_dns\<close> of the state.
\<close>

section \<open>The shared cache\<close>

definition ctx_slots :: "Topom \<Rightarrow> SlotMapping list" where
  "ctx_slots s =
     (case t_slots s of
        None \<Rightarrow> []
      | Some l \<Rightarrow> map (\<lambda>x. case x of Some m \<Rightarrow> m | None \<Rightarrow> SlotMapping_of 0 0) l)"

definition present :: "('k \<times> 'v option) list option \<Rightarrow> ('k \<times> 'v) list" where
  "present m =
     (case m of
        None \<Rightarrow> []
      | Some l \<Rightarrow> List.map_filter (\<lambda>(k, v). map_option (\<lambda>x. (k, x)) v) l)"

definition ctx_group :: "Topom \<Rightarrow> (int \<times> Group) list" where
  "ctx_group s = present (t_group s)"

definition ctx_proxy :: "Topom \<Rightarrow> (string \<times> Proxy) list" where
  "ctx_proxy s = present (t_proxy s)"

definition ctx_sentinel :: "Topom \<Rightarrow> Sentinel" where
  "ctx_sentinel s = (case t_sentinel s of Some x \<Rightarrow> x | None \<Rightarrow> Sentinel_zero)"

definition ctx_acl :: "Topom \<Rightarrow> ACL" where
  "ctx_acl s = (case t_acl s of Some x \<Rightarrow> x | None \<Rightarrow> ACL_zero)"

definition ctx_proxyQPSLimit :: "Topom \<Rightarrow> ProxyQPSLimit" where
  "ctx_proxyQPSLimit s = (case t_qps s of Some x \<Rightarrow> x | None \<Rightarrow> ProxyQPSLimit_zero)"

definition ctx_method :: "Topom \<Rightarrow> int" where
  "ctx_method s = fst (ParseForwardMethod (t_upper s) (t_MigrationMethod s))"

text \<open>Assignments through the records of the context.\<close>

definition setSlot :: "nat \<Rightarrow> SlotMapping \<Rightarrow> Topom \<Rightarrow> Topom" where
  "setSlot i m s = s\<lparr>t_slots := map_option (\<lambda>l. l[i := Some m]) (t_slots s)\<rparr>"

definition setGroup :: "int \<Rightarrow> Group \<Rightarrow> Topom \<Rightarrow> Topom" where
  "setGroup gid g s = s\<lparr>t_group := map_option (AList.update gid (Some g)) (t_group s)\<rparr>"

definition setSentinel :: "Sentinel \<Rightarrow> Topom \<Rightarrow> Topom" where
  "setSentinel p s = s\<lparr>t_sentinel := Some p\<rparr>"

section \<open>Slots\<close>

text \<open>The slot mapping with the given number and its place in the cache.\<close>

definition getSlotMapping :: "int \<Rightarrow> SlotMapping topom_op" where
  "getSlotMapping sid s =
     (if length (ctx_slots s) \<noteq> MaxSlotNum then (Inl InvalidSlots, s)
      else if 0 \<le> sid \<and> sid < int MaxSlotNum then (Inr (ctx_slots s ! nat sid), s)
      else (Inl (SlotNotExist sid), s))"

definition getSlotMappingsByGroupId :: "int \<Rightarrow> Topom \<Rightarrow> SlotMapping list" where
  "getSlotMappingsByGroupId gid s =
     filter (\<lambda>m. sm_GroupId m = gid \<or> sm_TargetId m = gid) (ctx_slots s)"

definition maxSlotActionIndex :: "Topom \<Rightarrow> int" where
  "maxSlotActionIndex s =
     foldl (\<lambda>mx m. if sm_State m \<noteq> ActionNothing then max mx (sm_Index m) else mx) 0 (ctx_slots s)"

section \<open>Groups\<close>

definition lookupGroup :: "int \<Rightarrow> Topom \<Rightarrow> Group option" where
  "lookupGroup gid s = map_of (ctx_group s) gid"

definition getGroup :: "int \<Rightarrow> Group topom_op" where
  "getGroup gid s =
     (case lookupGroup gid s of Some g \<Rightarrow> (Inr g, s) | None \<Rightarrow> (Inl (GroupNotExist gid), s))"

fun indexOfServer :: "GroupServer list \<Rightarrow> string \<Rightarrow> nat option" where
  "indexOfServer [] addr = None"
| "indexOfServer (x # xs) addr =
     (if gs_Addr x = addr then Some 0 else map_option Suc (indexOfServer xs addr))"

definition getGroupIndex :: "Group \<Rightarrow> string \<Rightarrow> nat topom_op" where
  "getGroupIndex g addr s =
     (case indexOfServer (g_Servers g) addr of
        Some i \<Rightarrow> (Inr i, s)
      | None \<Rightarrow> (Inl (ServerNotExist addr), s))"

text \<open>The key of the group, the group, and the index of the server.\<close>

fun findServer :: "(int \<times> Group) list \<Rightarrow> string \<Rightarrow> (int \<times> Group \<times> nat) option" where
  "findServer [] addr = None"
| "findServer ((k, g) # gs) addr =
     (case indexOfServer (g_Servers g) addr of
        Some i \<Rightarrow> Some (k, g, i)
      | None \<Rightarrow> findServer gs addr)"

definition getGroupByServer :: "string \<Rightarrow> (int \<times> Group \<times> nat) topom_op" where
  "getGroupByServer addr s =
     (case findServer (ctx_group s) addr of
        Some r \<Rightarrow> (Inr r, s)
      | None \<Rightarrow> (Inl (ServerNotExist addr), s))"

definition ctx_servers :: "Topom \<Rightarrow> GroupServer list" where
  "ctx_servers s = concat (map (g_Servers \<circ> snd) (ctx_group s))"

definition maxSyncActionIndex :: "Topom \<Rightarrow> int" where
  "maxSyncActionIndex s =
     foldl (\<lambda>mx x. if gs_State x = ActionPending then max mx (gs_Index x) else mx) 0 (ctx_servers s)"

definition minSyncActionIndex :: "Topom \<Rightarrow> string" where
  "minSyncActionIndex s =
     (case foldl (\<lambda>d x.
              if gs_State x = ActionPending
              then (case d of
                      None \<Rightarrow> Some x
                    | Some y \<Rightarrow> if gs_Index x < gs_Index y then Some x else d)
              else d) None (ctx_servers s) of
        None \<Rightarrow> []
      | Some x \<Rightarrow> gs_Addr x)"

definition getGroupMaster :: "int \<Rightarrow> Topom \<Rightarrow> string" where
  "getGroupMaster gid s =
     (case lookupGroup gid s of
        None \<Rightarrow> []
      | Some g \<Rightarrow> (case g_Servers g of [] \<Rightarrow> [] | x # _ \<Rightarrow> gs_Addr x))"

definition getGroupMasters :: "Topom \<Rightarrow> (int \<times> string) list" where
  "getGroupMasters s =
     foldl (\<lambda>m (_, g). case g_Servers g of [] \<Rightarrow> m | x # _ \<Rightarrow> AList.update (g_Id g) (gs_Addr x) m)
       [] (ctx_group s)"

definition getGroupIds :: "Topom \<Rightarrow> (int \<times> bool) list" where
  "getGroupIds s = foldl (\<lambda>m (_, g). AList.update (g_Id g) True m) [] (ctx_group s)"

definition isGroupInUse :: "int \<Rightarrow> Topom \<Rightarrow> bool" where
  "isGroupInUse gid s \<longleftrightarrow> list_ex (\<lambda>m. sm_GroupId m = gid \<or> sm_TargetId m = gid) (ctx_slots s)"

text \<open>\<open>None\<close> is the panic on a state that no group can have.\<close>

definition isGroupLocked :: "int \<Rightarrow> Topom \<Rightarrow> bool option" where
  "isGroupLocked gid s =
     (case lookupGroup gid s of
        None \<Rightarrow> Some False
      | Some g \<Rightarrow>
          (case g_PromState g of
             ActionNothing \<Rightarrow> Some False
           | ActionPreparing \<Rightarrow> Some False
           | ActionPrepared \<Rightarrow> Some True
           | ActionFinished \<Rightarrow> Some False
           | _ \<Rightarrow> None))"

definition isGroupPromoting :: "int \<Rightarrow> Topom \<Rightarrow> bool" where
  "isGroupPromoting gid s =
     (case lookupGroup gid s of None \<Rightarrow> False | Some g \<Rightarrow> g_PromState g \<noteq> ActionNothing)"

section \<open>Slots for a proxy\<close>

definition isSlotLocked :: "SlotMapping \<Rightarrow> Topom \<Rightarrow> bool option" where
  "isSlotLocked m s =
     (case sm_State m of
        ActionNothing \<Rightarrow> isGroupLocked (sm_GroupId m) s
      | ActionPending \<Rightarrow> isGroupLocked (sm_GroupId m) s
      | ActionPreparing \<Rightarrow> isGroupLocked (sm_GroupId m) s
      | ActionPrepared \<Rightarrow> Some True
      | ActionMigrating \<Rightarrow>
          (case isGroupLocked (sm_GroupId m) s of
             None \<Rightarrow> None
           | Some True \<Rightarrow> Some True
           | Some False \<Rightarrow> isGroupLocked (sm_TargetId m) s)
      | ActionFinished \<Rightarrow> isGroupLocked (sm_TargetId m) s
      | _ \<Rightarrow> None)"

definition getPriority :: "string option \<Rightarrow> string \<Rightarrow> GroupServer \<Rightarrow> Topom \<Rightarrow> nat" where
  "getPriority ip dc x s =
     (if ip = None \<or> dc \<noteq> gs_DataCenter x then 2
      else if ip = t_dns s (gs_Addr x) then 0 else 1)"

definition toReplicaGroups :: "int \<Rightarrow> Proxy option \<Rightarrow> Topom \<Rightarrow> string list list" where
  "toReplicaGroups gid p s =
     (case lookupGroup gid s of
        None \<Rightarrow> []
      | Some g \<Rightarrow>
          if g_PromState g \<noteq> ActionNothing then []
          else if length (g_Servers g) \<le> 1 then []
          else
            let (dc, ip) = (case p of None \<Rightarrow> ([], None) | Some q \<Rightarrow> (p_DataCenter q, t_dns s (p_AdminAddr q)));
                xs = filter gs_ReplicaGroup (g_Servers g);
                grp = (\<lambda>n. map gs_Addr (filter (\<lambda>x. getPriority ip dc x s = n) xs))
            in filter (\<lambda>l. l \<noteq> []) [grp 0, grp 1, grp 2])"

text \<open>\<open>None\<close> is the panic on an invalid state.\<close>

definition toSlot :: "SlotMapping \<Rightarrow> Proxy option \<Rightarrow> Topom \<Rightarrow> Slot option" where
  "toSlot m p s =
     (case isSlotLocked m s of
        None \<Rightarrow> None
      | Some locked \<Rightarrow>
          let slot = \<lparr>sl_Id = sm_Id m, sl_Locked = locked, sl_BackendAddr = [],
                sl_BackendAddrGroupId = 0, sl_MigrateFrom = [], sl_MigrateFromGroupId = 0,
                sl_ForwardMethod = ctx_method s, sl_ReplicaGroups = []\<rparr>;
              plain = slot\<lparr>sl_BackendAddr := getGroupMaster (sm_GroupId m) s,
                sl_BackendAddrGroupId := sm_GroupId m\<rparr>;
              target = slot\<lparr>sl_BackendAddr := getGroupMaster (sm_TargetId m) s,
                sl_BackendAddrGroupId := sm_TargetId m\<rparr>;
              migrating = target\<lparr>sl_MigrateFrom := getGroupMaster (sm_GroupId m) s,
                sl_MigrateFromGroupId := sm_GroupId m\<rparr>
          in (case sm_State m of
                ActionNothing \<Rightarrow> Some (plain\<lparr>sl_ReplicaGroups := toReplicaGroups (sm_GroupId m) p s\<rparr>)
              | ActionPending \<Rightarrow> Some (plain\<lparr>sl_ReplicaGroups := toReplicaGroups (sm_GroupId m) p s\<rparr>)
              | ActionPreparing \<Rightarrow> Some plain
              | ActionPrepared \<Rightarrow> Some migrating
              | ActionMigrating \<Rightarrow> Some migrating
              | ActionFinished \<Rightarrow> Some target
              | _ \<Rightarrow> None))"

definition toSlotSlice :: "SlotMapping list \<Rightarrow> Proxy option \<Rightarrow> Topom \<Rightarrow> Slot list option" where
  "toSlotSlice slots p s =
     (let l = map (\<lambda>m. toSlot m p s) slots
      in if list_all (\<lambda>x. x \<noteq> None) l then Some (List.map_filter id l) else None)"

section \<open>Proxies\<close>

definition getProxy :: "string \<Rightarrow> Proxy topom_op" where
  "getProxy token s =
     (case map_of (ctx_proxy s) token of Some p \<Rightarrow> (Inr p, s) | None \<Rightarrow> (Inl (ProxyNotExist token), s))"

definition maxProxyId :: "Topom \<Rightarrow> int" where
  "maxProxyId s = foldl (\<lambda>mx (_, p). max mx (p_Id p)) 0 (ctx_proxy s)"

end
