(* ===== verification/TopomProxy.thy ===== *)
theory TopomProxy
  imports Context
begin

text \<open>
  The operations on proxies of \<open>src/pkg/topom/topom_proxy.go\<close>.  A call of a proxy takes the next
  outcome; \<open>FillSlots\<close> changes what the proxy sees of the slots, and a failed one has been
  applied to some of them.  The calls that a resync makes at the same time, one per proxy, change
  each its own proxy, so the model makes them one after the other.  The record of a new
  proxy, which the proxy itself reports, is an argument.
\<close>

definition applySlots :: "string \<Rightarrow> Slot list \<Rightarrow> Topom \<Rightarrow> Topom" where
  "applySlots token slots s =
     s\<lparr>t_views := (t_views s)(token := foldl (\<lambda>v x. v(sl_Id x \<mapsto> x)) (t_views s token) slots)\<rparr>"

definition fillSlots :: "string \<Rightarrow> Slot list \<Rightarrow> unit topom_op" where
  "fillSlots token slots s =
     (case next_outcome s of
        (Done, s1) \<Rightarrow> (Inr (), applySlots token slots s1)
      | (Failed k, s1) \<Rightarrow> (Inl (ProxyCallFailed token), applySlots token (take k slots) s1))"

text \<open>
  A call with an effect outside, which a failed call may have had.  A proxy replaces its access list
  and its limit by what it is given.
\<close>

definition callWith :: "topom_error \<Rightarrow> (Topom \<Rightarrow> Topom) \<Rightarrow> unit topom_op" where
  "callWith e f s =
     (case next_outcome s of
        (Done, s1) \<Rightarrow> (Inr (), f s1)
      | (Failed 0, s1) \<Rightarrow> (Inl e, s1)
      | (Failed (Suc _), s1) \<Rightarrow> (Inl e, f s1))"

definition SetACL :: "string \<Rightarrow> ACL \<Rightarrow> unit topom_op" where
  "SetACL token acl = callWith (ProxyCallFailed token) (\<lambda>s. s\<lparr>t_acls := (t_acls s)(token \<mapsto> acl)\<rparr>)"

definition SetQPSLimit :: "string \<Rightarrow> int \<Rightarrow> int \<Rightarrow> unit topom_op" where
  "SetQPSLimit token revision limit =
     callWith (ProxyCallFailed token) (\<lambda>s. s\<lparr>t_limits := (t_limits s)(token \<mapsto> (revision, limit))\<rparr>)"

text \<open>The other calls of a proxy: \<open>XPing\<close>, \<open>Start\<close>, \<open>SetSentinels\<close>, \<open>Shutdown\<close>.\<close>

definition callProxy :: "topom_error \<Rightarrow> unit topom_op" where
  "callProxy e s = (case next_outcome s of (Done, s1) \<Rightarrow> (Inr (), s1) | (Failed _, s1) \<Rightarrow> (Inl e, s1))"

definition shouldSyncProxyQPSLimit :: "ProxyQPSLimit \<Rightarrow> bool" where
  "shouldSyncProxyQPSLimit config \<longleftrightarrow> ql_Revision config > 0"

definition reinitProxy :: "Proxy \<Rightarrow> unit topom_op" where
  "reinitProxy p =
     bindT (readT (\<lambda>s. toSlotSlice (ctx_slots s) (Some p) s)) (\<lambda>sl.
       case sl of
         None \<Rightarrow> failT Panicked
       | Some slots \<Rightarrow>
           seqT (fillSlots (p_Token p) slots)
             (seqT (bindT (readT ctx_acl) (SetACL (p_Token p)))
               (seqT (bindT (readT ctx_proxyQPSLimit) (\<lambda>config.
                        if shouldSyncProxyQPSLimit config
                        then SetQPSLimit (p_Token p) (ql_Revision config) (ql_Limit config)
                        else returnT ()))
                 (seqT (callProxy (ProxyCallFailed (p_Token p)))
                   (callProxy (ProxyCallFailed (p_Token p)))))))"

fun resyncProxies :: "SlotMapping list \<Rightarrow> (string \<times> Proxy) list \<Rightarrow> bool \<Rightarrow> unit topom_op" where
  "resyncProxies slots [] failed s = (if failed then Inl ResyncFailed else Inr (), s)"
| "resyncProxies slots ((_, p) # ps) failed s =
     (case toSlotSlice slots (Some p) s of
        None \<Rightarrow> (Inl Panicked, s)
      | Some l \<Rightarrow>
          (case fillSlots (p_Token p) l s of
             (r, s1) \<Rightarrow> resyncProxies slots ps (failed \<or> isl r) s1))"

definition resyncSlotMappings :: "SlotMapping list \<Rightarrow> unit topom_op" where
  "resyncSlotMappings slots s =
     (if length slots = 0 then (Inr (), s) else resyncProxies slots (ctx_proxy s) False s)"

definition resyncSlotMappingsByGroupId :: "int \<Rightarrow> unit topom_op" where
  "resyncSlotMappingsByGroupId gid s = resyncSlotMappings (getSlotMappingsByGroupId gid s) s"

text \<open>The model that the proxy at the address reports, if it answers.\<close>

definition fetchModel :: "Proxy \<Rightarrow> Proxy topom_op" where
  "fetchModel reported =
     seqT (callProxy ProxyFetchFailed) (seqT (callProxy ProxyAuthFailed) (returnT reported))"

definition CreateProxy :: "Proxy \<Rightarrow> unit topom_op" where
  "CreateProxy reported =
     seqT newContext
       (bindT (fetchModel reported) (\<lambda>p.
          bindT (readT (\<lambda>s. map_of (ctx_proxy s) (p_Token p))) (\<lambda>d.
            case d of
              Some _ \<Rightarrow> failT (ProxyExists (p_Token p))
            | None \<Rightarrow>
                bindT (readT maxProxyId) (\<lambda>n.
                  let p = p\<lparr>p_Id := n + 1\<rparr>
                  in deferT (dirtyProxyCache (p_Token p))
                       (seqT (storeCreateProxy p) (reinitProxy p))))))"

definition OnlineProxy :: "Proxy \<Rightarrow> unit topom_op" where
  "OnlineProxy reported =
     seqT newContext
       (bindT (fetchModel reported) (\<lambda>p.
          deferT (dirtyProxyCache (p_Token p))
            (bindT (readT (\<lambda>s. (map_of (ctx_proxy s) (p_Token p), maxProxyId s))) (\<lambda>(d, n).
               case d of
                 Some q \<Rightarrow>
                   let p = p\<lparr>p_Id := p_Id q\<rparr> in seqT (storeUpdateProxy p) (reinitProxy p)
               | None \<Rightarrow>
                   let p = p\<lparr>p_Id := n + 1\<rparr> in seqT (storeCreateProxy p) (reinitProxy p)))))"

definition RemoveProxy :: "string \<Rightarrow> bool \<Rightarrow> unit topom_op" where
  "RemoveProxy token force =
     seqT newContext
       (bindT (getProxy token) (\<lambda>p.
          seqT (if force then ignoreT (callProxy (ProxyShutdownFailed (p_Token p)))
                else callProxy (ProxyShutdownFailed (p_Token p)))
            (deferT (dirtyProxyCache (p_Token p)) (storeRemoveProxy p))))"

definition ReinitProxy :: "string \<Rightarrow> unit topom_op" where
  "ReinitProxy token = seqT newContext (bindT (getProxy token) reinitProxy)"

end
