(* ===== verification/TopomSlots.thy ===== *)
theory TopomSlots
  imports TopomProxy
begin

text \<open>
  The slot operations of \<open>src/pkg/topom/topom_slots.go\<close>: creating and removing migration actions,
  the steps that prepare and complete one, the executor that moves the keys, and the forced
  assignment of slots.  A slot action goes through the states pending, preparing, prepared, migrating and
  finished; each step first tells every proxy and then the store, or the other way round.  A
  record that the code changes in place is written back into the cache with \<open>setSlot\<close> at the
  place it was read from; a fresh record is not.
\<close>

section \<open>Creating and removing actions\<close>

text \<open>
  \<open>m.Action.State = pending; m.Action.Index = max + 1; m.Action.TargetId = gid\<close>, and the update of
  the store.
\<close>

definition createAction :: "nat \<Rightarrow> SlotMapping \<Rightarrow> int \<Rightarrow> unit topom_op" where
  "createAction i m gid =
     (let m1 = m\<lparr>sm_State := ActionPending\<rparr>
      in seqT (modifyT (setSlot i m1))
           (bindT (readT maxSlotActionIndex) (\<lambda>n.
              let m2 = m1\<lparr>sm_Index := n + 1, sm_TargetId := gid\<rparr>
              in seqT (modifyT (setSlot i m2)) (storeUpdateSlotMapping m2))))"

definition SlotCreateAction :: "int \<Rightarrow> int \<Rightarrow> unit topom_op" where
  "SlotCreateAction sid gid =
     seqT newContext
       (bindT (getGroup gid) (\<lambda>g.
          seqT (guardT (g_Servers g \<noteq> []) (GroupEmpty gid))
            (bindT (getSlotMapping sid) (\<lambda>m.
               seqT (guardT (sm_State m = ActionNothing) (SlotActionExists sid))
                 (seqT (guardT (sm_GroupId m \<noteq> gid) (SlotAlreadyInGroup sid gid))
                   (deferT (dirtySlotsCache (sm_Id m)) (createAction (nat sid) m (g_Id g))))))))"

text \<open>The loop over the pending slots, with a deferred call in each round.\<close>

primrec createActions :: "int list \<Rightarrow> int \<Rightarrow> unit topom_op" where
  "createActions [] gid = returnT ()"
| "createActions (sid # sids) gid =
     bindT (getSlotMapping sid) (\<lambda>m.
       deferT (dirtySlotsCache (sm_Id m))
         (seqT (createAction (nat sid) m gid) (createActions sids gid)))"

definition SlotCreateActionSome :: "int \<Rightarrow> int \<Rightarrow> int \<Rightarrow> unit topom_op" where
  "SlotCreateActionSome groupFrom groupTo numSlots =
     seqT newContext
       (bindT (getGroup groupTo) (\<lambda>g.
          seqT (guardT (g_Servers g \<noteq> []) (GroupEmpty (g_Id g)))
            (bindT (readT ctx_slots) (\<lambda>slots.
               createActions
                 (take (nat numSlots)
                   (map sm_Id (filter (\<lambda>m. sm_State m = ActionNothing \<and> sm_GroupId m = groupFrom \<and>
                                            sm_GroupId m \<noteq> g_Id g) slots)))
                 (g_Id g)))))"

text \<open>The first loop of \<open>SlotCreateActionRange\<close>, which collects the slots to move.\<close>

fun rangePending :: "int list \<Rightarrow> Group \<Rightarrow> bool \<Rightarrow> int list \<Rightarrow> int list topom_op" where
  "rangePending [] g must acc = returnT acc"
| "rangePending (sid # sids) g must acc =
     bindT (getSlotMapping sid) (\<lambda>m.
       if sm_State m \<noteq> ActionNothing then
         if \<not> must then rangePending sids g must acc else failT (SlotActionExists sid)
       else if sm_GroupId m = g_Id g then
         if \<not> must then rangePending sids g must acc else failT (SlotAlreadyInGroup sid (g_Id g))
       else rangePending sids g must (acc @ [sm_Id m]))"

definition SlotCreateActionRange :: "int \<Rightarrow> int \<Rightarrow> int \<Rightarrow> bool \<Rightarrow> unit topom_op" where
  "SlotCreateActionRange beg hi gid must =
     seqT newContext
       (seqT (guardT (beg \<ge> 0 \<and> beg \<le> hi \<and> hi < int MaxSlotNum) (InvalidSlotRange beg hi))
         (bindT (getGroup gid) (\<lambda>g.
            seqT (guardT (g_Servers g \<noteq> []) (GroupEmpty (g_Id g)))
              (bindT (rangePending [beg..hi] g must []) (\<lambda>pending.
                 createActions pending (g_Id g))))))"

definition SlotRemoveAction :: "int \<Rightarrow> unit topom_op" where
  "SlotRemoveAction sid =
     seqT newContext
       (bindT (getSlotMapping sid) (\<lambda>m.
          seqT (guardT (sm_State m \<noteq> ActionNothing) (SlotActionNotExist sid))
            (seqT (guardT (sm_State m = ActionPending) (SlotActionNotPending sid))
              (deferT (dirtySlotsCache (sm_Id m))
                (storeUpdateSlotMapping (SlotMapping_of (sm_Id m) (sm_GroupId m)))))))"

section \<open>Preparing an action\<close>

text \<open>
  \<open>minActionIndex\<close>: the accepted action with the smallest index, the last one of them when there
  are several, with its place in the cache.
\<close>

fun minActionIndex :: "(SlotMapping \<Rightarrow> bool) \<Rightarrow> (SlotMapping \<Rightarrow> bool) \<Rightarrow> nat \<Rightarrow> SlotMapping list \<Rightarrow>
    (nat \<times> SlotMapping) option \<Rightarrow> (nat \<times> SlotMapping) option" where
  "minActionIndex accept filt i [] picked = picked"
| "minActionIndex accept filt i (m # ms) picked =
     minActionIndex accept filt (i + 1) ms
       (if sm_State m = ActionNothing \<or> \<not> filt m then picked
        else if (case picked of None \<Rightarrow> False | Some (_, q) \<Rightarrow> sm_Index q < sm_Index m) then picked
        else if accept m then Some (i, m) else picked)"

definition pickAction :: "(SlotMapping \<Rightarrow> bool) \<Rightarrow> Topom \<Rightarrow> (nat \<times> SlotMapping) option" where
  "pickAction accept s =
     (case minActionIndex accept (\<lambda>m. sm_State m \<noteq> ActionPending) 0 (ctx_slots s) None of
        Some r \<Rightarrow> Some r
      | None \<Rightarrow>
          if t_disabled s then None
          else minActionIndex accept (\<lambda>m. sm_State m = ActionPending) 0 (ctx_slots s) None)"

text \<open>The cases of the switch, each with the ones it falls through to.\<close>

definition prepareFromPrepared :: "nat \<Rightarrow> SlotMapping \<Rightarrow> (int \<times> bool) topom_op" where
  "prepareFromPrepared i m =
     deferT (dirtySlotsCache (sm_Id m))
       (let m1 = m\<lparr>sm_State := ActionMigrating\<rparr>
        in seqT (modifyT (setSlot i m1))
             (seqT (resyncSlotMappings [m1])
               (seqT (storeUpdateSlotMapping m1) (returnT (sm_Id m1, True)))))"

definition prepareFromPreparing :: "nat \<Rightarrow> SlotMapping \<Rightarrow> (int \<times> bool) topom_op" where
  "prepareFromPreparing i m =
     deferT (dirtySlotsCache (sm_Id m))
       (let m1 = m\<lparr>sm_State := ActionPrepared\<rparr>
        in seqT (modifyT (setSlot i m1))
             (seqT (catchT (resyncSlotMappings [m1]) (\<lambda>e.
                let m2 = m1\<lparr>sm_State := ActionPreparing\<rparr>
                in seqT (modifyT (setSlot i m2))
                     (seqT (ignoreT (resyncSlotMappings [m2])) (failT e))))
               (seqT (storeUpdateSlotMapping m1) (prepareFromPrepared i m1))))"

definition prepareFromPending :: "nat \<Rightarrow> SlotMapping \<Rightarrow> (int \<times> bool) topom_op" where
  "prepareFromPending i m =
     deferT (dirtySlotsCache (sm_Id m))
       (let m1 = m\<lparr>sm_State := ActionPreparing\<rparr>
        in seqT (modifyT (setSlot i m1))
             (seqT (storeUpdateSlotMapping m1) (prepareFromPreparing i m1)))"

definition prepareSwitch :: "nat \<Rightarrow> SlotMapping \<Rightarrow> (int \<times> bool) topom_op" where
  "prepareSwitch i m =
     (case sm_State m of
        ActionPending \<Rightarrow> prepareFromPending i m
      | ActionPreparing \<Rightarrow> prepareFromPreparing i m
      | ActionPrepared \<Rightarrow> prepareFromPrepared i m
      | ActionMigrating \<Rightarrow> returnT (sm_Id m, True)
      | ActionFinished \<Rightarrow> returnT (sm_Id m, True)
      | _ \<Rightarrow> failT (SlotActionInvalid (sm_Id m)))"

text \<open>
  The variables that the closure \<open>update\<close> assigns are its state \<open>u\<close>, which a successful call returns;
  \<open>accept\<close> only reads them.
\<close>

definition SlotActionPrepareFilter ::
  "(SlotMapping \<Rightarrow> bool) \<Rightarrow> ('u \<Rightarrow> SlotMapping \<Rightarrow> bool \<times> 'u) \<Rightarrow> 'u \<Rightarrow> (int \<times> bool \<times> 'u) topom_op" where
  "SlotActionPrepareFilter accept update u =
     seqT newContext
       (bindT (readT (pickAction accept)) (\<lambda>picked.
          case picked of
            None \<Rightarrow> returnT (0, False, u)
          | Some (i, m) \<Rightarrow>
              (case update u m of
                 (False, u1) \<Rightarrow> returnT (0, False, u1)
               | (True, u1) \<Rightarrow> bindT (prepareSwitch i m) (\<lambda>(sid, ok). returnT (sid, ok, u1)))))"

definition SlotActionPrepare :: "(int \<times> bool) topom_op" where
  "SlotActionPrepare =
     bindT (SlotActionPrepareFilter (\<lambda>_. True) (\<lambda>u _. (True, u)) ()) (\<lambda>(sid, ok, _). returnT (sid, ok))"

section \<open>Completing an action\<close>

definition completeFromFinished :: "SlotMapping \<Rightarrow> unit topom_op" where
  "completeFromFinished m =
     seqT (resyncSlotMappings [m])
       (deferT (dirtySlotsCache (sm_Id m))
         (storeUpdateSlotMapping (SlotMapping_of (sm_Id m) (sm_TargetId m))))"

definition SlotActionComplete :: "int \<Rightarrow> unit topom_op" where
  "SlotActionComplete sid =
     seqT newContext
       (bindT (getSlotMapping sid) (\<lambda>m.
          case sm_State m of
            ActionMigrating \<Rightarrow>
              deferT (dirtySlotsCache (sm_Id m))
                (let m1 = m\<lparr>sm_State := ActionFinished\<rparr>
                 in seqT (modifyT (setSlot (nat sid) m1))
                      (seqT (storeUpdateSlotMapping m1) (completeFromFinished m1)))
          | ActionFinished \<Rightarrow> completeFromFinished m
          | _ \<Rightarrow> failT (SlotActionInvalid (sm_Id m))))"

section \<open>The executor\<close>

text \<open>
  What \<open>newSlotActionExecutor\<close> returns: nothing, a closure that migrates from one master to the
  other, or the closure of a finished action.
\<close>

datatype executor = ExecMigrate string string | ExecFinished

definition newSlotActionExecutor :: "int \<Rightarrow> executor option topom_op" where
  "newSlotActionExecutor sid =
     seqT newContext
       (bindT (getSlotMapping sid) (\<lambda>m.
          case sm_State m of
            ActionMigrating \<Rightarrow>
              bindT (readT (\<lambda>s. t_disabled s \<or> isGroupPromoting (sm_GroupId m) s \<or>
                                 isGroupPromoting (sm_TargetId m) s)) (\<lambda>stop.
                if stop then returnT None
                else
                  bindT (readT (\<lambda>s. (getGroupMaster (sm_GroupId m) s, getGroupMaster (sm_TargetId m) s)))
                    (\<lambda>(from, dest).
                       seqT (modifyT (\<lambda>s. s\<lparr>t_executor := t_executor s + 1\<rparr>))
                         (returnT (Some (ExecMigrate from dest)))))
          | ActionFinished \<Rightarrow> returnT (Some ExecFinished)
          | _ \<Rightarrow> failT (SlotActionInvalid (sm_Id m))))"

text \<open>
  One call of the closure for a database: the keys left in it, and the next database.  \<open>n\<close> and
  \<open>dbs\<close> are what the server answers to the migration command and to \<open>INFO keyspace\<close>.
\<close>

definition nextDB :: "int \<Rightarrow> int list \<Rightarrow> int" where
  "nextDB db dbs = foldl (\<lambda>nx i. if (nx = -1 \<or> i < nx) \<and> db < i then i else nx) (-1) dbs"

definition runExecutor :: "executor \<Rightarrow> int \<Rightarrow> int \<Rightarrow> int list \<Rightarrow> (int \<times> int) topom_op" where
  "runExecutor ex db n dbs =
     (case ex of
        ExecFinished \<Rightarrow> returnT (0, -1)
      | ExecMigrate from dest \<Rightarrow>
          deferT (\<lambda>s. s\<lparr>t_executor := t_executor s - 1\<rparr>)
            (if from = [] then returnT (0, -1)
             else
               seqT (callProxy UpdateFailed)
                 (seqT (callProxy UpdateFailed)
                   (seqT (callProxy UpdateFailed)
                     (if n \<noteq> 0 then returnT (n, db)
                      else seqT (callProxy UpdateFailed) (returnT (0, nextDB db dbs)))))))"

section \<open>Forced assignment\<close>

fun checkAssign :: "SlotMapping list \<Rightarrow> unit topom_op" where
  "checkAssign [] = returnT ()"
| "checkAssign (m # ms) =
     bindT (getSlotMapping (sm_Id m)) (\<lambda>_.
       bindT (getGroup (sm_GroupId m)) (\<lambda>g.
         seqT (guardT (g_Servers g \<noteq> []) (GroupEmpty (g_Id g)))
           (seqT (guardT (sm_State m = ActionNothing) (SlotActionGiven (sm_Id m)))
             (checkAssign ms))))"

text \<open>The loops that mark the groups and store the slots, with what comes after them.\<close>

primrec markOutOfSync :: "SlotMapping list \<Rightarrow> unit topom_op \<Rightarrow> unit topom_op" where
  "markOutOfSync [] rest = rest"
| "markOutOfSync (m # ms) rest =
     bindT (readT (lookupGroup (sm_GroupId m))) (\<lambda>x.
       case x of
         None \<Rightarrow> failT Panicked
       | Some g \<Rightarrow>
           if g_OutOfSync g then markOutOfSync ms rest
           else
             deferT (dirtyGroupCache (g_Id g))
               (let g1 = g\<lparr>g_OutOfSync := True\<rparr>
                in seqT (modifyT (setGroup (sm_GroupId m) g1))
                     (seqT (storeUpdateGroup g1) (markOutOfSync ms rest))))"

primrec storeSlots :: "SlotMapping list \<Rightarrow> unit topom_op \<Rightarrow> unit topom_op" where
  "storeSlots [] rest = rest"
| "storeSlots (m # ms) rest =
     deferT (dirtySlotsCache (sm_Id m)) (seqT (storeUpdateSlotMapping m) (storeSlots ms rest))"

definition SlotsAssignGroup :: "SlotMapping list \<Rightarrow> unit topom_op" where
  "SlotsAssignGroup slots =
     seqT newContext
       (seqT (checkAssign slots)
         (let slots1 = map (\<lambda>m. SlotMapping_of (sm_Id m) (sm_GroupId m)) slots
          in markOutOfSync slots (storeSlots slots1 (resyncSlotMappings slots1))))"

fun checkOffline :: "SlotMapping list \<Rightarrow> unit topom_op" where
  "checkOffline [] = returnT ()"
| "checkOffline (m # ms) =
     bindT (getSlotMapping (sm_Id m)) (\<lambda>_.
       seqT (guardT (sm_GroupId m = 0) (SlotGroupNotZero (sm_Id m))) (checkOffline ms))"

definition SlotsAssignOffline :: "SlotMapping list \<Rightarrow> unit topom_op" where
  "SlotsAssignOffline slots =
     seqT newContext
       (seqT (checkOffline slots)
         (let slots1 = map (\<lambda>m. SlotMapping_of (sm_Id m) 0) slots
          in storeSlots slots1 (resyncSlotMappings slots1)))"

end
