(* ===== verification/GoStrings.thy ===== *)
theory GoStrings
  imports Prelude "HOL-Library.Char_ord" "HOL-Library.List_Lexorder"
begin

text \<open>
  Go's package \<open>strings\<close>, as far as the modelled code calls it, on the bytes of UTF-8 strings:
  \<open>TrimSpace\<close> with the encoded Unicode spaces, \<open>TrimPrefix\<close>, \<open>HasPrefix\<close>, \<open>Join\<close>, the ASCII part of
  \<open>ToLower\<close>, and \<open>EqualFold\<close> against an ASCII word.  Strings are ordered byte by byte, as Go's
  \<open>sort.Strings\<close> and \<open><\<close> order them.
\<close>

section \<open>Trimming\<close>

text \<open>The encodings of the runes that \<open>unicode.IsSpace\<close> accepts.\<close>

definition space_runes :: "bytes list" where
  "space_runes =
     [[CHR 0x09], [CHR 0x0A], [CHR 0x0B], [CHR 0x0C], [CHR 0x0D], [CHR 0x20],
      [CHR 0xC2, CHR 0x85], [CHR 0xC2, CHR 0xA0], [CHR 0xE1, CHR 0x9A, CHR 0x80],
      [CHR 0xE2, CHR 0x80, CHR 0xA8], [CHR 0xE2, CHR 0x80, CHR 0xA9], [CHR 0xE2, CHR 0x80, CHR 0xAF],
      [CHR 0xE2, CHR 0x81, CHR 0x9F], [CHR 0xE3, CHR 0x80, CHR 0x80]] @
     map (\<lambda>n. [CHR 0xE2, CHR 0x80, char_of (128 + n)]) [0..<11]"

definition HasPrefix :: "bytes \<Rightarrow> bytes \<Rightarrow> bool" where
  "HasPrefix s p \<longleftrightarrow> take (length p) s = p"

definition TrimPrefix :: "bytes \<Rightarrow> bytes \<Rightarrow> bytes" where
  "TrimPrefix s p = (if HasPrefix s p then drop (length p) s else s)"

lemma length_space_rune: "p \<in> set space_runes \<Longrightarrow> 0 < length p"
  by (auto simp: space_runes_def)

function TrimLeftBy :: "(bytes \<Rightarrow> nat) \<Rightarrow> bytes \<Rightarrow> bytes" where
  "TrimLeftBy f s = (if f s = 0 \<or> s = [] then s else TrimLeftBy f (drop (f s) s))"
  by pat_completeness auto
termination by (relation "measure (\<lambda>(f, s). length s)") auto

declare TrimLeftBy.simps [simp del]

definition leading_space :: "bytes \<Rightarrow> nat" where
  "leading_space s = (case filter (HasPrefix s) space_runes of [] \<Rightarrow> 0 | p # _ \<Rightarrow> length p)"

definition trailing_space :: "bytes \<Rightarrow> nat" where
  "trailing_space s = (case filter (\<lambda>p. HasPrefix s (rev p)) space_runes of [] \<Rightarrow> 0 | p # _ \<Rightarrow> length p)"

definition TrimSpace :: "bytes \<Rightarrow> bytes" where
  "TrimSpace s = rev (TrimLeftBy trailing_space (rev (TrimLeftBy leading_space s)))"

lemma TrimLeftBy_done: "f (TrimLeftBy f s) = 0 \<or> TrimLeftBy f s = []"
proof (induction f s rule: TrimLeftBy.induct)
  case (1 f s)
  then show ?case by (cases "f s = 0 \<or> s = []") (simp_all add: TrimLeftBy.simps [of f s])
qed

lemma TrimLeftBy_id: "f s = 0 \<Longrightarrow> TrimLeftBy f s = s"
  by (simp add: TrimLeftBy.simps [of f s])

section \<open>Case\<close>

text \<open>
  Of the runes that are not ASCII, \<open>ToLower\<close> maps only the Kelvin sign and the dotted I into ASCII;
  the words it is compared with contain neither of their images, so the ASCII part decides.
\<close>

definition lower_char :: "char \<Rightarrow> char" where
  "lower_char c = (if CHR ''A'' \<le> c \<and> c \<le> CHR ''Z'' then char_of (of_char c + 32 :: nat) else c)"

definition ToLowerASCII :: "bytes \<Rightarrow> bytes" where
  "ToLowerASCII = map lower_char"

text \<open>
  \<open>EqualFold(s, w)\<close> for a lower-case ASCII word \<open>w\<close>.  Beside the case of ASCII letters, the long s
  folds to \<open>s\<close> and the Kelvin sign to \<open>k\<close>.
\<close>

fun EqualFoldASCII :: "bytes \<Rightarrow> bytes \<Rightarrow> bool" where
  "EqualFoldASCII [] w = (w = [])"
| "EqualFoldASCII (c # s) [] = False"
| "EqualFoldASCII (c # s) (d # w) =
     (if lower_char c = d then EqualFoldASCII s w
      else if d = CHR ''s'' \<and> HasPrefix (c # s) [CHR 0xC5, CHR 0xBF] then EqualFoldASCII (drop 1 s) w
      else if d = CHR ''k'' \<and> HasPrefix (c # s) [CHR 0xE2, CHR 0x84, CHR 0xAA] then EqualFoldASCII (drop 2 s) w
      else False)"

section \<open>Joining\<close>

fun Join :: "bytes list \<Rightarrow> bytes \<Rightarrow> bytes" where
  "Join [] sep = []"
| "Join [x] sep = x"
| "Join (x # y # xs) sep = x @ sep @ Join (y # xs) sep"

end
