(* ===== verification/TopomACL.thy ===== *)
theory TopomACL
  imports TopomProxy Sha256 GoStrings
begin

text \<open>
  The access list of \<open>src/pkg/topom/topom_acl.go\<close>: building a list from a request, sending it to the
  Redis servers and to the proxies, and reading it.  The pointers of a request that JSON may leave
  nil are options.  The formatted current time is an argument.
\<close>

section \<open>Requests and views\<close>

record ACLUserView =
  uv_Name :: string
  uv_Enabled :: bool
  uv_DB :: "int option"
  uv_PasswordCount :: nat
  uv_Rules :: "string list"

record ACLView =
  av_Revision :: int
  av_Enabled :: bool
  av_SyncStatus :: string
  av_Users :: "ACLUserView list"

record ACLUserUpdate =
  up_Name :: string
  up_Enabled :: bool
  up_DB :: "int option"
  up_NewPassword :: string
  up_PasswordHashes :: "string list"
  up_Rules :: "string list"

record ACLUpdateRequest =
  ar_Enabled :: bool
  ar_Users :: "ACLUserUpdate option list"

section \<open>Building a list\<close>

definition is_alnum :: "char \<Rightarrow> bool" where
  "is_alnum c \<longleftrightarrow> CHR ''A'' \<le> c \<and> c \<le> CHR ''Z'' \<or> CHR ''a'' \<le> c \<and> c \<le> CHR ''z'' \<or> CHR ''0'' \<le> c \<and> c \<le> CHR ''9''"

definition aclUserNameRe :: "string \<Rightarrow> bool" where
  "aclUserNameRe s \<longleftrightarrow>
     (case s of
        [] \<Rightarrow> False
      | c # cs \<Rightarrow> (is_alnum c \<or> c = CHR ''_'') \<and> list_all (\<lambda>c. is_alnum c \<or> c \<in> set ''_.@-'') cs)"

definition aclPasswordHashRe :: "string \<Rightarrow> bool" where
  "aclPasswordHashRe s \<longleftrightarrow> length s = 64 \<and>
     list_all (\<lambda>c. CHR ''0'' \<le> c \<and> c \<le> CHR ''9'' \<or> CHR ''a'' \<le> c \<and> c \<le> CHR ''f'' \<or> CHR ''A'' \<le> c \<and> c \<le> CHR ''F'') s"

fun normalizeACLRules :: "string list \<Rightarrow> acl_rule_error + (string list \<times> string list)" where
  "normalizeACLRules [] = Inr ([], [])"
| "normalizeACLRules (raw # input) =
     (let token = TrimSpace raw; lower = ToLowerASCII token
      in if token = [] then normalizeACLRules input
         else if HasPrefix token ''>'' then Inl PlainPasswordToken
         else if HasPrefix token ''#'' then
           map_sum id (\<lambda>(rules, hashes). (rules, drop 1 token # hashes)) (normalizeACLRules input)
         else if lower = ''on'' \<or> lower = ''off'' then normalizeACLRules input
         else if lower = ''reset'' \<or> lower = ''resetpass'' then Inl (ManagedToken token)
         else map_sum id (\<lambda>(rules, hashes). (token # rules, hashes)) (normalizeACLRules input))"

definition hasACLRule :: "string list \<Rightarrow> string \<Rightarrow> bool" where
  "hasACLRule rules rule \<longleftrightarrow> list_ex (\<lambda>r. EqualFoldASCII r rule) rules"

fun checkHashes :: "string list \<Rightarrow> string list option" where
  "checkHashes [] = Some []"
| "checkHashes (h # hs) =
     (let hash = TrimPrefix (TrimSpace h) ''#''
      in if \<not> aclPasswordHashRe hash then None
         else map_option (\<lambda>r. ToLowerASCII hash # r) (checkHashes hs))"

definition buildACLUser :: "string \<Rightarrow> (string \<rightharpoonup> ACLUser) \<Rightarrow> ACLUserUpdate option \<Rightarrow> topom_error + ACLUser" where
  "buildACLUser serviceUser current input_opt =
     (case input_opt of
        None \<Rightarrow> Inl NilACLUser
      | Some input \<Rightarrow>
          let name = TrimSpace (up_Name input)
          in if name = [] \<or> \<not> aclUserNameRe name then Inl (InvalidACLUserName (up_Name input))
             else if serviceUser \<noteq> [] \<and> name = serviceUser then Inl (ACLUserReserved name)
             else (case normalizeACLRules (up_Rules input) of
                Inl e \<Rightarrow> Inl (ACLRulesInvalid name e)
              | Inr (rules, ruleHashes) \<Rightarrow>
                  let hashes0 = up_PasswordHashes input @ ruleHashes;
                      hashes1 =
                        (if up_NewPassword input \<noteq> [] then [ACLPasswordHash (up_NewPassword input)]
                         else if length hashes0 = 0 then
                           (case current name of Some old \<Rightarrow> au_PasswordHashes old | None \<Rightarrow> hashes0)
                         else hashes0)
                  in (case checkHashes hashes1 of
                        None \<Rightarrow> Inl (InvalidPasswordHash name)
                      | Some hashes \<Rightarrow>
                          if length rules = 0 then Inl (EmptyACLRules name)
                          else if length hashes = 0 \<and> \<not> hasACLRule rules ''nopass'' then Inl (MissingPasswordHash name)
                          else (case up_DB input of
                             Some db \<Rightarrow>
                               if db < 0 then Inl (InvalidACLUserDB name db)
                               else Inr \<lparr>au_Name = name, au_Enabled = up_Enabled input, au_DB = Some db,
                                         au_PasswordHashes = hashes, au_Rules = rules\<rparr>
                           | None \<Rightarrow>
                               Inr \<lparr>au_Name = name, au_Enabled = up_Enabled input, au_DB = None,
                                    au_PasswordHashes = hashes, au_Rules = rules\<rparr>))))"

fun buildUsers :: "string \<Rightarrow> (string \<rightharpoonup> ACLUser) \<Rightarrow> ACLUserUpdate option list \<Rightarrow> string list \<Rightarrow>
    topom_error + ACLUser list" where
  "buildUsers serviceUser current [] seen = Inr []"
| "buildUsers serviceUser current (input # inputs) seen =
     (case buildACLUser serviceUser current input of
        Inl e \<Rightarrow> Inl e
      | Inr user \<Rightarrow>
          if au_Name user \<in> set seen then Inl (DuplicateACLUser (au_Name user))
          else map_sum id (\<lambda>users. user # users) (buildUsers serviceUser current inputs (au_Name user # seen)))"

definition usersByName :: "ACLUser list \<Rightarrow> string \<rightharpoonup> ACLUser" where
  "usersByName users = map_of (rev (map (\<lambda>u. (au_Name u, u)) users))"

text \<open>The names are distinct, so the order of \<open>sort.Slice\<close> is determined.\<close>

definition buildACL :: "string \<Rightarrow> string \<Rightarrow> ACL \<Rightarrow> ACLUpdateRequest option \<Rightarrow> topom_error + ACL" where
  "buildACL serviceUser now current req_opt =
     (case req_opt of
        None \<Rightarrow> Inl MissingRequest
      | Some req \<Rightarrow>
          (case buildUsers serviceUser (usersByName (acl_Users current)) (ar_Users req) [] of
             Inl e \<Rightarrow> Inl e
           | Inr users \<Rightarrow>
               Inr \<lparr>acl_Revision = (if acl_Revision current \<ge> 1 then acl_Revision current + 1 else 1),
                    acl_Enabled = ar_Enabled req, acl_Users = sort_key au_Name users, acl_UpdatedAt = now\<rparr>))"

section \<open>Redis servers\<close>

definition shouldSyncACLRuntime :: "ACL \<Rightarrow> bool" where
  "shouldSyncACLRuntime acl \<longleftrightarrow> acl_Revision acl \<noteq> 0 \<or> acl_Enabled acl \<or> acl_Users acl \<noteq> []"

text \<open>\<open>c.Do("ACL", args...)\<close>: the command is recorded as sent to the server.\<close>

definition redisACL :: "string \<Rightarrow> string list \<Rightarrow> unit topom_op" where
  "redisACL addr args = callWith (ACLSyncFailed addr) (\<lambda>s. s\<lparr>t_sent := t_sent s @ [(addr, args)]\<rparr>)"

definition ensureBackendServiceUser :: "string \<Rightarrow> unit topom_op" where
  "ensureBackendServiceUser addr =
     bindT (readT (\<lambda>s. (t_BackendAuthUsername s, t_BackendAuthPassword s))) (\<lambda>(username, password).
       if username = [] \<or> password = [] then returnT ()
       else redisACL addr [''SETUSER'', username, ''reset'', ''on'', ''#'' @ ACLPasswordHash password, ''+@all'', ''~*''])"

definition redisACLSetUser :: "string \<Rightarrow> ACLUser \<Rightarrow> unit topom_op" where
  "redisACLSetUser addr user =
     redisACL addr
       ([''SETUSER'', au_Name user, ''reset'', if au_Enabled user then ''on'' else ''off''] @
        map (\<lambda>hash. ''#'' @ hash) (au_PasswordHashes user) @ au_Rules user)"

primrec setUsers :: "string \<Rightarrow> ACLUser list \<Rightarrow> unit topom_op" where
  "setUsers addr [] = returnT ()"
| "setUsers addr (u # us) = seqT (redisACLSetUser addr u) (setUsers addr us)"

definition removedACLUsers :: "ACL option \<Rightarrow> ACL \<Rightarrow> string list" where
  "removedACLUsers current nx =
     (case current of
        None \<Rightarrow> []
      | Some acl \<Rightarrow>
          sort (filter (\<lambda>name. name \<notin> set (map au_Name (acl_Users nx))) (map au_Name (acl_Users acl))))"

primrec delUsers :: "string \<Rightarrow> string list \<Rightarrow> unit topom_op" where
  "delUsers addr [] = returnT ()"
| "delUsers addr (name # names) =
     bindT (readT t_BackendAuthUsername) (\<lambda>serviceUser.
       if serviceUser \<noteq> [] \<and> name = serviceUser then delUsers addr names
       else if name = ''default'' then
         seqT (redisACLSetUser addr \<lparr>au_Name = name, au_Enabled = False, au_DB = None,
                  au_PasswordHashes = [], au_Rules = [''nopass'']\<rparr>) (delUsers addr names)
       else seqT (redisACL addr [''DELUSER'', name]) (delUsers addr names))"

definition syncACLToRedisServer :: "string \<Rightarrow> ACL \<Rightarrow> ACL option \<Rightarrow> unit topom_op" where
  "syncACLToRedisServer addr acl current =
     seqT (callProxy (ACLSyncFailed addr))
       (seqT (ensureBackendServiceUser addr)
         (seqT (setUsers addr (acl_Users acl)) (delUsers addr (removedACLUsers current acl))))"

definition syncACLToRedisAddr :: "string \<Rightarrow> ACL \<Rightarrow> unit topom_op" where
  "syncACLToRedisAddr addr acl =
     (if \<not> shouldSyncACLRuntime acl then returnT () else syncACLToRedisServer addr acl None)"

definition aclTargetServerAddrs :: "Topom \<Rightarrow> string list" where
  "aclTargetServerAddrs s = sort (remdups (filter (\<lambda>a. a \<noteq> []) (map gs_Addr (ctx_servers s))))"

primrec syncServers :: "string list \<Rightarrow> ACL \<Rightarrow> ACL \<Rightarrow> unit topom_op" where
  "syncServers [] acl current = returnT ()"
| "syncServers (addr # addrs) acl current =
     seqT (syncACLToRedisServer addr acl (Some current)) (syncServers addrs acl current)"

definition syncACLToRedis :: "ACL \<Rightarrow> unit topom_op" where
  "syncACLToRedis acl =
     (if \<not> shouldSyncACLRuntime acl then returnT ()
      else bindT (readT (\<lambda>s. (aclTargetServerAddrs s, ctx_acl s))) (\<lambda>(addrs, current). syncServers addrs acl current))"

section \<open>Proxies\<close>

text \<open>The loop over the sorted tokens, which returns the tokens whose call failed.\<close>

fun aclToProxies :: "string list \<Rightarrow> ACL \<Rightarrow> string list topom_op" where
  "aclToProxies [] acl = returnT []"
| "aclToProxies (token # tokens) acl =
     bindT (readT (\<lambda>s. map_of (ctx_proxy s) token)) (\<lambda>p_opt.
       case p_opt of
         None \<Rightarrow> aclToProxies tokens acl
       | Some p \<Rightarrow>
           bindT (catchT (seqT (SetACL (p_Token p) acl) (returnT [])) (\<lambda>_. returnT [p_Token p])) (\<lambda>f.
             bindT (aclToProxies tokens acl) (\<lambda>failed. returnT (f @ failed))))"

definition syncACLToProxies :: "ACL \<Rightarrow> string list topom_op" where
  "syncACLToProxies acl = bindT (readT (\<lambda>s. sort (map fst (ctx_proxy s)))) (\<lambda>tokens. aclToProxies tokens acl)"

definition setACLSyncResult :: "int \<Rightarrow> string list \<Rightarrow> Topom \<Rightarrow> Topom" where
  "setACLSyncResult revision failed s = s\<lparr>t_aclSync_revision := revision, t_aclSync_failed := failed\<rparr>"

definition aclSyncStatus :: "ACL \<Rightarrow> Topom \<Rightarrow> string" where
  "aclSyncStatus acl s =
     (if t_aclSync_revision s = acl_Revision acl \<and> length (t_aclSync_failed s) \<noteq> 0
      then ''proxy_sync_failed:'' @ Join (t_aclSync_failed s) '','' else ''ready'')"

definition newACLView :: "ACL \<Rightarrow> string \<Rightarrow> ACLView" where
  "newACLView acl status =
     \<lparr>av_Revision = acl_Revision acl, av_Enabled = acl_Enabled acl,
      av_SyncStatus = (if acl_Revision acl = 0 \<and> \<not> acl_Enabled acl \<and> length (acl_Users acl) = 0
                       then ''not_configured'' else status),
      av_Users = map (\<lambda>u. \<lparr>uv_Name = au_Name u, uv_Enabled = au_Enabled u, uv_DB = au_DB u,
                           uv_PasswordCount = length (au_PasswordHashes u), uv_Rules = au_Rules u\<rparr>) (acl_Users acl)\<rparr>"

section \<open>The operations\<close>

definition GetACL :: "ACLView topom_op" where
  "GetACL = seqT newContext (readT (\<lambda>s. newACLView (ctx_acl s) (aclSyncStatus (ctx_acl s) s)))"

text \<open>The end of \<open>UpdateACL\<close> and \<open>SyncACL\<close>: the proxies, the result, and the view.\<close>

definition finishACL :: "ACL \<Rightarrow> ACLView topom_op" where
  "finishACL acl =
     bindT (syncACLToProxies acl) (\<lambda>failed.
       seqT (modifyT (setACLSyncResult (acl_Revision acl) failed))
         (seqT (guardT (failed = []) (ACLProxySyncFailed failed))
           (readT (\<lambda>s. newACLView acl (aclSyncStatus acl s)))))"

definition UpdateACL :: "string \<Rightarrow> ACLUpdateRequest option \<Rightarrow> ACLView topom_op" where
  "UpdateACL now req =
     seqT newContext
       (bindT (readT (\<lambda>s. buildACL (t_BackendAuthUsername s) now (ctx_acl s) req)) (\<lambda>r.
          case r of
            Inl e \<Rightarrow> failT e
          | Inr acl \<Rightarrow>
              seqT (syncACLToRedis acl)
                (seqT (storeUpdateACL acl)
                  (seqT (modifyT dirtyACLCache) (finishACL acl)))))"

definition SyncACL :: "ACLView topom_op" where
  "SyncACL =
     seqT newContext
       (bindT (readT ctx_acl) (\<lambda>acl. seqT (syncACLToRedis acl) (finishACL acl)))"

end
