(* ===== verification/TopomQPSLimit.thy ===== *)
theory TopomQPSLimit
  imports TopomProxy GoStrings
begin

text \<open>
  The limit of the requests per second of \<open>src/pkg/topom/topom_qps_limit.go\<close>: updating it, sending it
  to the proxies, and reading it with the state of the proxies.  What the proxies answer to the
  statistics request of a view is an argument; the formatted current time is one as well.
\<close>

record ProxyQPSLimitView =
  qv_Revision :: int
  qv_Limit :: int
  qv_Enabled :: bool
  qv_SyncStatus :: string

definition buildProxyQPSLimit :: "string \<Rightarrow> ProxyQPSLimit \<Rightarrow> int option \<Rightarrow> topom_error + ProxyQPSLimit" where
  "buildProxyQPSLimit now current req =
     (case req of
        None \<Rightarrow> Inl MissingRequest
      | Some limit \<Rightarrow>
          if limit < 0 then Inl InvalidQPSLimit
          else Inr \<lparr>ql_Revision = (if ql_Revision current \<ge> 1 then ql_Revision current + 1 else 1),
                    ql_Limit = limit, ql_UpdatedAt = now\<rparr>)"

definition newProxyQPSLimitView :: "ProxyQPSLimit \<Rightarrow> string \<Rightarrow> ProxyQPSLimitView" where
  "newProxyQPSLimitView config status =
     \<lparr>qv_Revision = ql_Revision config, qv_Limit = ql_Limit config, qv_Enabled = ql_Limit config > 0,
      qv_SyncStatus = (if ql_Revision config = 0 \<and> ql_Limit config = 0 then ''not_configured'' else status)\<rparr>"

text \<open>The answer of a proxy: nothing usable, or the revision and the limit it reports, if any.\<close>

type_synonym proxy_report = "(int \<times> int) option option"

definition proxyQPSLimitApplied :: "proxy_report \<Rightarrow> ProxyQPSLimit \<Rightarrow> bool" where
  "proxyQPSLimitApplied v config \<longleftrightarrow> v = Some (Some (ql_Revision config, ql_Limit config))"

definition proxyQPSLimitSyncStatus :: "(string \<Rightarrow> proxy_report) \<Rightarrow> string list \<Rightarrow> ProxyQPSLimit \<Rightarrow> string" where
  "proxyQPSLimitSyncStatus stats tokens config =
     (if \<not> shouldSyncProxyQPSLimit config then ''not_configured''
      else
        let failed = filter (\<lambda>token. \<not> proxyQPSLimitApplied (stats token) config) (sort tokens)
        in if length failed \<noteq> 0 then ''proxy_sync_failed:'' @ Join failed '','' else ''ready'')"

definition snapshotProxyQPSLimit :: "(ProxyQPSLimit \<times> string list) topom_op" where
  "snapshotProxyQPSLimit = seqT newContext (readT (\<lambda>s. (ctx_proxyQPSLimit s, map fst (ctx_proxy s))))"

definition GetProxyQPSLimit :: "(string \<Rightarrow> proxy_report) \<Rightarrow> ProxyQPSLimitView topom_op" where
  "GetProxyQPSLimit stats =
     bindT snapshotProxyQPSLimit (\<lambda>(config, tokens).
       returnT (newProxyQPSLimitView config (proxyQPSLimitSyncStatus stats tokens config)))"

fun limitToProxies :: "string list \<Rightarrow> ProxyQPSLimit \<Rightarrow> string list topom_op" where
  "limitToProxies [] config = returnT []"
| "limitToProxies (token # tokens) config =
     bindT (readT (\<lambda>s. map_of (ctx_proxy s) token)) (\<lambda>p_opt.
       case p_opt of
         None \<Rightarrow> limitToProxies tokens config
       | Some p \<Rightarrow>
           bindT (catchT (seqT (SetQPSLimit (p_Token p) (ql_Revision config) (ql_Limit config)) (returnT []))
                    (\<lambda>_. returnT [p_Token p])) (\<lambda>f.
             bindT (limitToProxies tokens config) (\<lambda>failed. returnT (f @ failed))))"

definition syncProxyQPSLimitToProxies :: "ProxyQPSLimit \<Rightarrow> unit topom_op" where
  "syncProxyQPSLimitToProxies config =
     (if \<not> shouldSyncProxyQPSLimit config then returnT ()
      else
        bindT (readT (\<lambda>s. sort (map fst (ctx_proxy s)))) (\<lambda>tokens.
          bindT (limitToProxies tokens config) (\<lambda>failed.
            guardT (failed = []) (QPSLimitSyncFailed failed))))"

definition UpdateProxyQPSLimit :: "string \<Rightarrow> int option \<Rightarrow> ProxyQPSLimitView topom_op" where
  "UpdateProxyQPSLimit now req =
     seqT newContext
       (bindT (readT (\<lambda>s. buildProxyQPSLimit now (ctx_proxyQPSLimit s) req)) (\<lambda>r.
          case r of
            Inl e \<Rightarrow> failT e
          | Inr config \<Rightarrow>
              seqT (storeUpdateProxyQPSLimit config)
                (seqT (modifyT dirtyProxyQPSLimitCache)
                  (seqT (syncProxyQPSLimitToProxies config)
                    (returnT (newProxyQPSLimitView config ''ready''))))))"

end
