(* ===== verification/TopomGroup.thy ===== *)
theory TopomGroup
  imports TopomSlots TopomACL TopomQPSLimit
begin

text \<open>
  The group operations of \<open>src/pkg/topom/topom_group.go\<close>: creating and removing groups, their
  servers, the promotion of a server to master, replica groups and synchronization actions.
  Calls of Redis servers and sentinels take an outcome of the script like those of proxies; their
  effect is outside the state.  \<open>GetRunId\<close> of a server is a function argument.
\<close>

section \<open>Groups\<close>

definition CreateGroup :: "int \<Rightarrow> unit topom_op" where
  "CreateGroup gid =
     seqT newContext
       (seqT (guardT (\<not> (gid \<le> 0 \<or> gid > MaxGroupId)) (GroupIdOutOfRange gid))
         (bindT (readT (lookupGroup gid)) (\<lambda>x.
            seqT (guardT (x = None) (GroupExists gid))
              (deferT (dirtyGroupCache gid) (storeCreateGroup (Group_of gid []))))))"

definition RemoveGroup :: "int \<Rightarrow> unit topom_op" where
  "RemoveGroup gid =
     seqT newContext
       (bindT (getGroup gid) (\<lambda>g.
          seqT (guardT (g_Servers g = []) (GroupNotEmpty gid))
            (deferT (dirtyGroupCache (g_Id g)) (storeRemoveGroup g))))"

definition ResyncGroup :: "int \<Rightarrow> unit topom_op" where
  "ResyncGroup gid =
     seqT newContext
       (bindT (getGroup gid) (\<lambda>g.
          seqT (resyncSlotMappingsByGroupId gid)
            (deferT (dirtyGroupCache gid)
              (let g1 = g\<lparr>g_OutOfSync := False\<rparr>
               in seqT (modifyT (setGroup gid g1)) (storeUpdateGroup g1)))))"

primrec resyncGroups :: "(int \<times> Group) list \<Rightarrow> unit topom_op" where
  "resyncGroups [] = returnT ()"
| "resyncGroups (kg # gs) =
     (case kg of
        (k, g) \<Rightarrow>
          seqT (resyncSlotMappingsByGroupId (g_Id g))
            (deferT (dirtyGroupCache (g_Id g))
              (let g1 = g\<lparr>g_OutOfSync := False\<rparr>
               in seqT (modifyT (setGroup k g1))
                    (seqT (storeUpdateGroup g1) (resyncGroups gs)))))"

definition ResyncGroupAll :: "unit topom_op" where
  "ResyncGroupAll = seqT newContext (bindT (readT ctx_group) resyncGroups)"

section \<open>Servers\<close>

text \<open>The block that marks the sentinels out of sync, before the rest of the function.\<close>

definition markSentinel :: "unit topom_op \<Rightarrow> unit topom_op" where
  "markSentinel rest =
     bindT (readT ctx_sentinel) (\<lambda>p.
       if sn_Servers p \<noteq> [] then
         deferT dirtySentinelCache
           (let p1 = p\<lparr>sn_OutOfSync := True\<rparr>
            in seqT (modifyT (setSentinel p1)) (seqT (storeUpdateSentinel p1) rest))
       else rest)"

definition GroupAddServer :: "int \<Rightarrow> string \<Rightarrow> string \<Rightarrow> unit topom_op" where
  "GroupAddServer gid dc addr =
     seqT newContext
       (seqT (guardT (addr \<noteq> []) InvalidServerAddr)
         (bindT (readT ctx_servers) (\<lambda>xs.
            seqT (guardT (\<not> list_ex (\<lambda>x. gs_Addr x = addr) xs) (ServerExists addr))
              (bindT (getGroup gid) (\<lambda>g.
                 seqT (guardT (g_PromState g = ActionNothing) (GroupPromoting (g_Id g)))
                   (markSentinel
                     (deferT (dirtyGroupCache (g_Id g))
                       (bindT (readT ctx_acl) (\<lambda>acl.
                          seqT (syncACLToRedisAddr addr acl)
                            (let g1 = g\<lparr>g_Servers := g_Servers g @
                                   [\<lparr>gs_Addr = addr, gs_DataCenter = dc, gs_Index = 0,
                                     gs_State = ActionNothing, gs_ReplicaGroup = False\<rparr>]\<rparr>
                             in seqT (modifyT (setGroup gid g1)) (storeUpdateGroup g1)))))))))))"

text \<open>The slice without the server at an index.\<close>

definition removeAt :: "nat \<Rightarrow> 'a list \<Rightarrow> 'a list" where
  "removeAt i xs = take i xs @ drop (i + 1) xs"

definition GroupDelServer :: "int \<Rightarrow> string \<Rightarrow> unit topom_op" where
  "GroupDelServer gid addr =
     seqT newContext
       (bindT (getGroup gid) (\<lambda>g.
          bindT (getGroupIndex g addr) (\<lambda>index.
            seqT (guardT (g_PromState g = ActionNothing) (GroupPromoting (g_Id g)))
              (bindT (readT (isGroupInUse (g_Id g))) (\<lambda>used.
                 seqT (guardT (\<not> (index = 0 \<and> (length (g_Servers g) \<noteq> 1 \<or> used)))
                        (GroupMasterInUse (g_Id g)))
                   (markSentinel
                     (deferT (dirtyGroupCache (g_Id g))
                       (let g1 = (if index \<noteq> 0 \<and> gs_ReplicaGroup (g_Servers g ! index)
                                  then g\<lparr>g_OutOfSync := True\<rparr> else g);
                            slice = removeAt index (g_Servers g);
                            g2 = (if slice = [] then g1\<lparr>g_OutOfSync := False\<rparr> else g1);
                            g3 = g2\<lparr>g_Servers := slice\<rparr>
                        in seqT (modifyT (setGroup gid g3)) (storeUpdateGroup g3)))))))))"

section \<open>Promotion\<close>

text \<open>The servers with the promoted one first and the old master last.\<close>

definition promoteServers :: "nat \<Rightarrow> GroupServer list \<Rightarrow> GroupServer list" where
  "promoteServers index xs =
     map (\<lambda>x. x\<lparr>gs_Index := 0, gs_State := ActionNothing\<rparr>)
       ([xs ! index] @
        map ((!) xs) (filter (\<lambda>i. i \<noteq> index \<and> i \<noteq> 0) [0..<length xs]) @
        [xs ! 0])"

definition promoteFromFinished :: "Group \<Rightarrow> unit topom_op" where
  "promoteFromFinished g =
     seqT (resyncSlotMappingsByGroupId (g_Id g))
       (deferT (dirtyGroupCache (g_Id g)) (storeUpdateGroup (Group_of (g_Id g) (g_Servers g))))"

definition removeMaster :: "int \<Rightarrow> Topom \<Rightarrow> Topom" where
  "removeMaster gid s = s\<lparr>t_masters := map_option (AList.delete gid) (t_masters s)\<rparr>"

text \<open>
  A server that cannot be reached or does not accept \<open>SLAVEOF NO ONE\<close> does not stop the promotion.
\<close>

definition promoteFromPrepared :: "int \<Rightarrow> Group \<Rightarrow> unit topom_op" where
  "promoteFromPrepared gid g =
     bindT (readT ctx_sentinel) (\<lambda>p.
       let rest =
         deferT (dirtyGroupCache (g_Id g))
           (if g_PromIndex g < 0 \<or> g_PromIndex g \<ge> int (length (g_Servers g)) then failT Panicked
            else
              let g1 = g\<lparr>g_Servers := promoteServers (nat (g_PromIndex g)) (g_Servers g),
                         g_PromIndex := 0, g_PromState := ActionFinished\<rparr>
              in seqT (modifyT (setGroup gid g1))
                   (seqT (storeUpdateGroup g1)
                     (seqT (ignoreT (seqT (callProxy UpdateFailed) (callProxy UpdateFailed)))
                       (promoteFromFinished g1))))
       in if sn_Servers p \<noteq> [] then
            deferT dirtySentinelCache
              (let p1 = p\<lparr>sn_OutOfSync := True\<rparr>
               in seqT (modifyT (setSentinel p1))
                    (seqT (storeUpdateSentinel p1)
                      (seqT (ignoreT (callProxy SentinelFailed))
                        (seqT (modifyT (removeMaster gid)) rest))))
          else rest)"

definition promoteFromPreparing :: "int \<Rightarrow> Group \<Rightarrow> unit topom_op" where
  "promoteFromPreparing gid g =
     deferT (dirtyGroupCache (g_Id g))
       (bindT (readT (getSlotMappingsByGroupId (g_Id g))) (\<lambda>slots.
          let g1 = g\<lparr>g_PromState := ActionPrepared\<rparr>
          in seqT (modifyT (setGroup gid g1))
               (seqT (catchT (resyncSlotMappings slots) (\<lambda>e.
                  let g2 = g1\<lparr>g_PromState := ActionPreparing\<rparr>
                  in seqT (modifyT (setGroup gid g2))
                       (seqT (ignoreT (resyncSlotMappings slots)) (failT e))))
                 (seqT (storeUpdateGroup g1) (promoteFromPrepared gid g1)))))"

definition promoteFromNothing :: "int \<Rightarrow> Group \<Rightarrow> nat \<Rightarrow> unit topom_op" where
  "promoteFromNothing gid g index =
     deferT (dirtyGroupCache (g_Id g))
       (let g1 = g\<lparr>g_PromIndex := int index, g_PromState := ActionPreparing\<rparr>
        in seqT (modifyT (setGroup gid g1))
             (seqT (storeUpdateGroup g1) (promoteFromPreparing gid g1)))"

definition GroupPromoteServer :: "int \<Rightarrow> string \<Rightarrow> unit topom_op" where
  "GroupPromoteServer gid addr =
     seqT newContext
       (bindT (getGroup gid) (\<lambda>g.
          bindT (getGroupIndex g addr) (\<lambda>index.
            seqT (if g_PromState g \<noteq> ActionNothing
                  then guardT (int index = g_PromIndex g) (GroupPromoteIndex (g_Id g))
                  else guardT (index \<noteq> 0) (GroupPromoteMaster (g_Id g)))
              (bindT (readT t_executor) (\<lambda>n.
                 seqT (guardT (n = 0) (MigrationRunning n))
                   (case g_PromState g of
                      ActionNothing \<Rightarrow> promoteFromNothing gid g index
                    | ActionPreparing \<Rightarrow> promoteFromPreparing gid g
                    | ActionPrepared \<Rightarrow> promoteFromPrepared gid g
                    | ActionFinished \<Rightarrow> promoteFromFinished g
                    | _ \<Rightarrow> failT (GroupStateInvalid gid)))))))"

text \<open>
  The index of the server with the address or, failing that, with the same run id; the swap of
  the master.
\<close>

definition findMaster :: "(string \<Rightarrow> string) \<Rightarrow> GroupServer list \<Rightarrow> string \<Rightarrow> nat option" where
  "findMaster runid xs master =
     (case indexOfServer xs master of
        Some i \<Rightarrow> Some i
      | None \<Rightarrow>
          List.find (\<lambda>i. runid master \<noteq> [] \<and> runid master = runid (gs_Addr (xs ! i))) [0..<length xs])"

definition trySwitchGroupMaster :: "int \<Rightarrow> string \<Rightarrow> (string \<Rightarrow> string) \<Rightarrow> unit topom_op" where
  "trySwitchGroupMaster gid master runid =
     seqT newContext
       (bindT (getGroup gid) (\<lambda>g.
          case findMaster runid (g_Servers g) master of
            None \<Rightarrow> failT (ServerNotExist master)
          | Some index \<Rightarrow>
              if index = 0 then returnT ()
              else
                deferT (dirtyGroupCache (g_Id g))
                  (let xs = g_Servers g;
                       g1 = g\<lparr>g_Servers := xs[0 := xs ! index, index := xs ! 0], g_OutOfSync := True\<rparr>
                   in seqT (modifyT (setGroup gid g1)) (storeUpdateGroup g1))))"

section \<open>Replica groups\<close>

definition EnableReplicaGroups :: "int \<Rightarrow> string \<Rightarrow> bool \<Rightarrow> unit topom_op" where
  "EnableReplicaGroups gid addr val =
     seqT newContext
       (bindT (getGroup gid) (\<lambda>g.
          bindT (getGroupIndex g addr) (\<lambda>index.
            seqT (guardT (g_PromState g = ActionNothing) (GroupPromoting (g_Id g)))
              (deferT (dirtyGroupCache (g_Id g))
                (bindT (readT (isGroupInUse (g_Id g))) (\<lambda>used.
                   let g1 = (if length (g_Servers g) \<noteq> 1 \<and> used then g\<lparr>g_OutOfSync := True\<rparr> else g);
                       x = g_Servers g ! index;
                       g2 = g1\<lparr>g_Servers := (g_Servers g)[index := x\<lparr>gs_ReplicaGroup := val\<rparr>]\<rparr>
                   in seqT (modifyT (setGroup gid g2)) (storeUpdateGroup g2)))))))"

primrec enableReplicaGroups :: "(int \<times> Group) list \<Rightarrow> bool \<Rightarrow> unit topom_op" where
  "enableReplicaGroups [] val = returnT ()"
| "enableReplicaGroups (kg # gs) val =
     (case kg of
        (k, g) \<Rightarrow>
          seqT (guardT (g_PromState g = ActionNothing) (GroupPromoting (g_Id g)))
            (deferT (dirtyGroupCache (g_Id g))
              (let dirty = list_ex (\<lambda>x. gs_ReplicaGroup x \<noteq> val) (g_Servers g);
                   g1 = g\<lparr>g_Servers := map (\<lambda>x. x\<lparr>gs_ReplicaGroup := val\<rparr>) (g_Servers g)\<rparr>
               in if \<not> dirty then enableReplicaGroups gs val
                  else
                    bindT (readT (isGroupInUse (g_Id g))) (\<lambda>used.
                      let g2 = (if length (g_Servers g) \<noteq> 1 \<and> used then g1\<lparr>g_OutOfSync := True\<rparr> else g1)
                      in seqT (modifyT (setGroup k g2))
                           (seqT (storeUpdateGroup g2) (enableReplicaGroups gs val))))))"

definition EnableReplicaGroupsAll :: "bool \<Rightarrow> unit topom_op" where
  "EnableReplicaGroupsAll val =
     seqT newContext (bindT (readT ctx_group) (\<lambda>gs. enableReplicaGroups gs val))"

section \<open>Synchronization actions\<close>

definition setServer :: "Group \<Rightarrow> nat \<Rightarrow> int \<Rightarrow> ActionState \<Rightarrow> Group" where
  "setServer g index n state =
     g\<lparr>g_Servers := (g_Servers g)[index := (g_Servers g ! index)\<lparr>gs_Index := n, gs_State := state\<rparr>]\<rparr>"

definition SyncCreateAction :: "string \<Rightarrow> unit topom_op" where
  "SyncCreateAction addr =
     seqT newContext
       (bindT (getGroupByServer addr) (\<lambda>(k, g, index).
          seqT (guardT (g_PromState g = ActionNothing) (GroupPromoting (g_Id g)))
            (seqT (guardT (gs_State (g_Servers g ! index) \<noteq> ActionPending) (SyncActionExists addr))
              (deferT (dirtyGroupCache (g_Id g))
                (bindT (readT maxSyncActionIndex) (\<lambda>n.
                   let g1 = setServer g index (n + 1) ActionPending
                   in seqT (modifyT (setGroup k g1)) (storeUpdateGroup g1)))))))"

definition SyncRemoveAction :: "string \<Rightarrow> unit topom_op" where
  "SyncRemoveAction addr =
     seqT newContext
       (bindT (getGroupByServer addr) (\<lambda>(k, g, index).
          seqT (guardT (g_PromState g = ActionNothing) (GroupPromoting (g_Id g)))
            (seqT (guardT (gs_State (g_Servers g ! index) \<noteq> ActionNothing) (SyncActionNotExist addr))
              (deferT (dirtyGroupCache (g_Id g))
                (let g1 = setServer g index 0 ActionNothing
                 in seqT (modifyT (setGroup k g1)) (storeUpdateGroup g1))))))"

definition SyncActionPrepare :: "string topom_op" where
  "SyncActionPrepare =
     seqT newContext
       (bindT (readT minSyncActionIndex) (\<lambda>addr.
          if addr = [] then returnT []
          else
            bindT (getGroupByServer addr) (\<lambda>(k, g, index).
              if g_PromState g \<noteq> ActionNothing then returnT []
              else
                seqT (guardT (gs_State (g_Servers g ! index) = ActionPending) (SyncActionInvalid addr))
                  (deferT (dirtyGroupCache (g_Id g))
                    (let g1 = setServer g index 0 ActionSyncing
                     in seqT (modifyT (setGroup k g1))
                          (seqT (storeUpdateGroup g1) (returnT addr)))))))"

definition SyncActionComplete :: "string \<Rightarrow> bool \<Rightarrow> unit topom_op" where
  "SyncActionComplete addr failed =
     seqT newContext
       (bindT (readT (\<lambda>s. findServer (ctx_group s) addr)) (\<lambda>x.
          case x of
            None \<Rightarrow> returnT ()
          | Some (k, g, index) \<Rightarrow>
              if g_PromState g \<noteq> ActionNothing then returnT ()
              else if gs_State (g_Servers g ! index) \<noteq> ActionSyncing then returnT ()
              else
                deferT (dirtyGroupCache (g_Id g))
                  (let state = ActionOther (if \<not> failed then ''synced'' else ''synced_failed'');
                       g1 = setServer g index (gs_Index (g_Servers g ! index)) state
                   in seqT (modifyT (setGroup k g1)) (storeUpdateGroup g1))))"

text \<open>The master that the executor of a synchronization sets, if there is one to run.\<close>

definition newSyncActionExecutor :: "string \<Rightarrow> string option topom_op" where
  "newSyncActionExecutor addr =
     seqT newContext
       (bindT (readT (\<lambda>s. findServer (ctx_group s) addr)) (\<lambda>x.
          case x of
            None \<Rightarrow> returnT None
          | Some (k, g, index) \<Rightarrow>
              if gs_State (g_Servers g ! index) \<noteq> ActionSyncing then returnT None
              else returnT (Some (if index \<noteq> 0 then gs_Addr (g_Servers g ! 0) else ''NO:ONE''))))"

text \<open>The closure: a connection to the server and \<open>SLAVEOF\<close>.\<close>

definition runSyncExecutor :: "unit topom_op" where
  "runSyncExecutor = seqT (callProxy UpdateFailed) (callProxy UpdateFailed)"

end
