(* ===== verification/TopomSentinel.thy ===== *)
theory TopomSentinel
  imports TopomGroup
begin

text \<open>
  The sentinel operations of \<open>src/pkg/topom/topom_sentinel.go\<close>, and the life cycle and the setters of
  \<open>src/pkg/topom/topom.go\<close>.  The watcher that \<open>rewatchSentinels\<close> starts reports masters through
  \<open>SwitchMasters\<close>; it has no other effect on the state.  The lock of the product in the store
  keeps a second dashboard out, so the state of the model is the only one that writes.
\<close>

section \<open>topom_sentinel.go\<close>

definition AddSentinel :: "string \<Rightarrow> unit topom_op" where
  "AddSentinel addr =
     seqT newContext
       (seqT (guardT (addr \<noteq> []) InvalidSentinelAddr)
         (bindT (readT ctx_sentinel) (\<lambda>p.
            seqT (guardT (addr \<notin> set (sn_Servers p)) (SentinelExists addr))
              (seqT (callProxy SentinelFailed)
                (deferT dirtySentinelCache
                  (let p1 = p\<lparr>sn_Servers := sn_Servers p @ [addr], sn_OutOfSync := True\<rparr>
                   in seqT (modifyT (setSentinel p1)) (storeUpdateSentinel p1)))))))"

definition DelSentinel :: "string \<Rightarrow> bool \<Rightarrow> unit topom_op" where
  "DelSentinel addr force =
     seqT newContext
       (seqT (guardT (addr \<noteq> []) InvalidSentinelAddr)
         (bindT (readT ctx_sentinel) (\<lambda>p.
            let slice = filter (\<lambda>x. x \<noteq> addr) (sn_Servers p)
            in seqT (guardT (length slice \<noteq> length (sn_Servers p)) (SentinelNotFound addr))
                 (deferT dirtySentinelCache
                   (let p1 = p\<lparr>sn_OutOfSync := True\<rparr>
                    in seqT (modifyT (setSentinel p1))
                         (seqT (storeUpdateSentinel p1)
                           (seqT (if force then ignoreT (callProxy SentinelFailed)
                                  else callProxy SentinelFailed)
                             (let p2 = p1\<lparr>sn_Servers := slice\<rparr>
                              in seqT (modifyT (setSentinel p2)) (storeUpdateSentinel p2)))))))))"

primrec switchMasters :: "(int \<times> string) list \<Rightarrow> (string \<Rightarrow> string) \<Rightarrow> unit topom_op" where
  "switchMasters [] runid = returnT ()"
| "switchMasters (gm # gms) runid =
     seqT (ignoreT (trySwitchGroupMaster (fst gm) (snd gm) runid)) (switchMasters gms runid)"

definition SwitchMasters :: "(int \<times> string) list option \<Rightarrow> (string \<Rightarrow> string) \<Rightarrow> unit topom_op" where
  "SwitchMasters masters runid =
     bindT (readT t_closed) (\<lambda>closed.
       seqT (guardT (\<not> closed) ErrClosedTopom)
         (seqT (modifyT (\<lambda>s. s\<lparr>t_masters := masters\<rparr>))
           (switchMasters (case masters of None \<Rightarrow> [] | Some m \<Rightarrow> m) runid)))"

definition rewatchSentinels :: "string list \<Rightarrow> Topom \<Rightarrow> Topom" where
  "rewatchSentinels servers s = (if servers = [] then s\<lparr>t_masters := None\<rparr> else s)"

text \<open>The calls of \<open>SetSentinels\<close>, all of which are made before an error is reported.\<close>

primrec setSentinels :: "(string \<times> Proxy) list \<Rightarrow> bool \<Rightarrow> unit topom_op" where
  "setSentinels [] failed = guardT (\<not> failed) ResyncFailed"
| "setSentinels (tp # ps) failed =
     bindT (\<lambda>s. case callProxy ResyncFailed s of (r, s1) \<Rightarrow> (Inr (isl r), s1)) (\<lambda>f.
       setSentinels ps (failed \<or> f))"

definition ResyncSentinels :: "unit topom_op" where
  "ResyncSentinels =
     seqT newContext
       (deferT dirtySentinelCache
         (bindT (readT ctx_sentinel) (\<lambda>p.
            let p1 = p\<lparr>sn_OutOfSync := True\<rparr>
            in seqT (modifyT (setSentinel p1))
                 (seqT (storeUpdateSentinel p1)
                   (seqT (ignoreT (callProxy SentinelFailed))
                     (seqT (callProxy SentinelFailed)
                       (seqT (modifyT (rewatchSentinels (sn_Servers p1)))
                         (bindT (readT ctx_proxy) (\<lambda>ps.
                            seqT (setSentinels ps False)
                              (let p2 = p1\<lparr>sn_OutOfSync := False\<rparr>
                               in seqT (modifyT (setSentinel p2)) (storeUpdateSentinel p2)))))))))))"

section \<open>topom.go\<close>

definition Start :: "bool \<Rightarrow> unit topom_op" where
  "Start routines =
     bindT (readT t_closed) (\<lambda>closed.
       seqT (guardT (\<not> closed) ErrClosedTopom)
         (bindT (readT t_online) (\<lambda>online.
            if online then returnT ()
            else
              seqT (callProxy StoreLockFailed)
                (seqT (modifyT (\<lambda>s. s\<lparr>t_online := True\<rparr>))
                  (if \<not> routines then returnT ()
                   else
                     seqT newContext
                       (bindT (readT ctx_sentinel) (\<lambda>p.
                          modifyT (rewatchSentinels (sn_Servers p)))))))))"

definition Close :: "unit topom_op" where
  "Close =
     bindT (readT (\<lambda>s. (t_closed s, t_online s))) (\<lambda>(closed, online).
       if closed then returnT ()
       else
         seqT (modifyT (\<lambda>s. s\<lparr>t_closed := True\<rparr>))
           (if online then callProxy StoreLockFailed else returnT ()))"

definition Reload :: "unit topom_op" where
  "Reload = seqT newContext (deferT dirtyCacheAll (returnT ()))"

definition IsOnline :: "Topom \<Rightarrow> bool" where
  "IsOnline s \<longleftrightarrow> t_online s \<and> \<not> t_closed s"

definition SetSlotActionInterval :: "int \<Rightarrow> Topom \<Rightarrow> Topom" where
  "SetSlotActionInterval us s = s\<lparr>t_interval := min (max us 0) 1000000\<rparr>"

definition SetSlotActionDisabled :: "bool \<Rightarrow> Topom \<Rightarrow> Topom" where
  "SetSlotActionDisabled val s = s\<lparr>t_disabled := val\<rparr>"

end
