(* ===== verification/Coherence.thy ===== *)
theory Coherence
  imports TopomSentinel
begin

text \<open>
  Coherence of the cache with the store.  An entry of the cache equals what the store holds
  unless it is nil or a hook that will set it to nil is pending.  The section on tables
  states what the groups and the proxies of the store share, as a locale with two interpretations; the
  refill of the cache is proved once over it.
\<close>

section \<open>Entries and the store\<close>

definition stale :: "hook set \<Rightarrow> hook \<Rightarrow> bool" where
  "stale D h \<longleftrightarrow> h \<in> D \<or> HookAll \<in> D"

definition slots_coh :: "hook set \<Rightarrow> Store \<Rightarrow> SlotMapping option list option \<Rightarrow> bool" where
  "slots_coh D st c \<longleftrightarrow>
     (\<forall>l. c = Some l \<longrightarrow> length l = MaxSlotNum \<and>
        (\<forall>i m. i < MaxSlotNum \<longrightarrow> l ! i = Some m \<longrightarrow>
           sm_Id m = int i \<and> (stale D (HookSlot (int i)) \<or> m = slot_at st (int i))))"

definition entries_coh :: "('r \<Rightarrow> 'k) \<Rightarrow> ('k \<Rightarrow> bool) \<Rightarrow> ('k \<rightharpoonup> 'r) \<Rightarrow> ('k \<rightharpoonup> 'r option) \<Rightarrow> bool" where
  "entries_coh key stl t m \<longleftrightarrow>
     (\<forall>k r. m k = Some (Some r) \<longrightarrow> key r = k) \<and>
     (\<forall>k. stl k \<or> m k = Some None \<or> m k = map_option Some (t k))"

definition map_coh :: "('r \<Rightarrow> 'k) \<Rightarrow> ('k \<Rightarrow> bool) \<Rightarrow> ('k \<times> 'r) list \<Rightarrow>
    ('k \<times> 'r option) list option \<Rightarrow> bool" where
  "map_coh key stl tab c \<longleftrightarrow>
     (\<forall>l. c = Some l \<longrightarrow> distinct (map fst l) \<and> entries_coh key stl (map_of tab) (map_of l))"

definition one_coh :: "bool \<Rightarrow> 'a \<Rightarrow> 'a option \<Rightarrow> 'a option \<Rightarrow> bool" where
  "one_coh b zero stored c \<longleftrightarrow> (\<forall>x. c = Some x \<longrightarrow> b \<or> x = case_option zero id stored)"

definition wf_table :: "('r \<Rightarrow> 'k) \<Rightarrow> ('k \<times> 'r) list \<Rightarrow> bool" where
  "wf_table key tab \<longleftrightarrow> distinct (map fst tab) \<and> (\<forall>(k, r) \<in> set tab. key r = k)"

definition wf_store :: "Store \<Rightarrow> bool" where
  "wf_store st \<longleftrightarrow>
     (\<forall>i m. st_slots st i = Some m \<longrightarrow> sm_Id m = i) \<and>
     wf_table g_Id (st_group st) \<and> wf_table p_Token (st_proxy st)"

definition coh :: "hook set \<Rightarrow> Topom \<Rightarrow> bool" where
  "coh D s \<longleftrightarrow>
     slots_coh D (t_store s) (t_slots s) \<and>
     map_coh g_Id (\<lambda>k. stale D (HookGroup k)) (st_group (t_store s)) (t_group s) \<and>
     map_coh p_Token (\<lambda>k. stale D (HookProxy k)) (st_proxy (t_store s)) (t_proxy s) \<and>
     one_coh (stale D HookSentinel) Sentinel_zero (st_sentinel (t_store s)) (t_sentinel s) \<and>
     one_coh (stale D HookACL) ACL_zero (st_acl (t_store s)) (t_acl s) \<and>
     one_coh (stale D HookQPS) ProxyQPSLimit_zero (st_qps (t_store s)) (t_qps s)"

text \<open>
  \<open>good X s\<close>: the hooks pending in the state and those of \<open>X\<close>, which deferred calls of the running
  operation will push, account for every difference between the cache and the store.
\<close>

definition good :: "hook set \<Rightarrow> Topom \<Rightarrow> bool" where
  "good X s \<longleftrightarrow> wf_store (t_store s) \<and> coh (X \<union> set (t_hooks s)) s"

lemma stale_mono: "stale D h \<Longrightarrow> D \<subseteq> E \<Longrightarrow> stale E h"
  by (auto simp: stale_def)

lemma slot_at_id [simp]: "wf_store st \<Longrightarrow> sm_Id (slot_at st i) = i"
  by (auto simp: wf_store_def slot_at_def SlotMapping_of_def split: option.splits)

section \<open>Tables of the store\<close>

lemma map_of_wf_table: "wf_table key tab \<Longrightarrow> map_of tab k = Some r \<Longrightarrow> key r = k"
  by (auto simp: wf_table_def dest!: map_of_SomeD)

lemma wf_table_iff:
  "wf_table key tab \<longleftrightarrow> distinct (map fst tab) \<and> (\<forall>k r. map_of tab k = Some r \<longrightarrow> key r = k)"
  by (auto simp: wf_table_def)

lemma wf_table_update: "wf_table key tab \<Longrightarrow> wf_table key (AList.update (key r) r tab)"
  unfolding wf_table_iff by (simp add: distinct_update update_conv' del: map_of_eq_Some_iff)

lemma wf_table_delete: "wf_table key tab \<Longrightarrow> wf_table key (AList.delete k tab)"
  unfolding wf_table_iff by (simp add: distinct_delete delete_conv' del: map_of_eq_Some_iff)

lemma entries_coh_upd:
  "entries_coh key stl t m \<Longrightarrow> stl k \<Longrightarrow> key r = k \<Longrightarrow> entries_coh key stl t (m(k \<mapsto> Some r))"
  by (auto simp: entries_coh_def)

lemma entries_coh_nil:
  assumes "entries_coh key stl t m" and "\<forall>j. stl j \<longrightarrow> stl' j \<or> j = k"
  shows "entries_coh key stl' t (m(k \<mapsto> None))"
proof -
  have "stl' j \<or> j = k \<or> m j = Some None \<or> m j = map_option Some (t j)" for j
    using assms unfolding entries_coh_def by metis
  with assms(1) show ?thesis unfolding entries_coh_def by simp blast
qed

text \<open>Reads of the store consume outcomes and change nothing else.\<close>

definition env_step :: "Topom \<Rightarrow> Topom \<Rightarrow> bool" where
  "env_step s s1 \<longleftrightarrow> (\<exists>e. s1 = s\<lparr>t_env := e\<rparr>)"

lemma env_step_refl [simp]: "env_step s s"
  unfolding env_step_def by (rule exI [of _ "t_env s"]) simp

lemma env_step_trans [trans]: "env_step s s1 \<Longrightarrow> env_step s1 s2 \<Longrightarrow> env_step s s2"
  by (auto simp: env_step_def)

lemma env_step_store: "env_step s s1 \<Longrightarrow> t_store s1 = t_store s"
  by (auto simp: env_step_def)

lemma next_outcome_env: "next_outcome s = (x, s1) \<Longrightarrow> env_step s s1"
  by (auto simp: next_outcome_def env_step_def split: list.splits intro: exI [of _ "t_env s"])

lemma storeRead_env: "storeRead f s = (r, s1) \<Longrightarrow> env_step s s1"
  by (auto simp: storeRead_def dest!: next_outcome_env split: prod.splits outcome.splits)

lemma storeRead_value: "storeRead f s = (Some x, s1) \<Longrightarrow> x = f (t_store s)"
  by (auto simp: storeRead_def env_step_store dest!: next_outcome_env split: prod.splits outcome.splits)

text \<open>
  What a refill makes of the entries of a map: nil entries are loaded or removed, all of them if it
  succeeds, and the others stay.
\<close>

definition loaded :: "bool \<Rightarrow> 'r option \<Rightarrow> 'r option option \<Rightarrow> 'r option option \<Rightarrow> bool" where
  "loaded ok t e e1 \<longleftrightarrow>
     (e1 = e \<and> (ok \<longrightarrow> e \<noteq> Some None)) \<or> (e = Some None \<and> e1 = map_option Some t)"

definition loads :: "('k \<rightharpoonup> 'r) \<Rightarrow> ('k \<times> 'r option) list \<Rightarrow> ('k \<times> 'r option) list \<Rightarrow> bool \<Rightarrow> bool" where
  "loads t m m1 ok \<longleftrightarrow>
     distinct (map fst m1) \<and> (\<forall>k. loaded ok (t k) (map_of m k) (map_of m1 k))"

lemma loads_absent: "loads t m m1 ok \<Longrightarrow> k \<notin> fst ` set m \<Longrightarrow> k \<notin> fst ` set m1"
  unfolding loads_def loaded_def by (metis map_of_eq_None_iff option.distinct(1))

lemma loads_keep:
  "loads t m m1 ok \<Longrightarrow> k \<notin> fst ` set m \<Longrightarrow> loads t ((k, Some r) # m) ((k, Some r) # m1) ok"
  using loads_absent [of t m m1 ok k] by (auto simp: loads_def loaded_def)

lemma loads_load:
  "loads t m m1 ok \<Longrightarrow> k \<notin> fst ` set m \<Longrightarrow> t k = Some r \<Longrightarrow>
   loads t ((k, None) # m) ((k, Some r) # m1) ok"
  using loads_absent [of t m m1 ok k] by (auto simp: loads_def loaded_def)

lemma loads_drop:
  "loads t m m1 ok \<Longrightarrow> k \<notin> fst ` set m \<Longrightarrow> t k = None \<Longrightarrow> loads t ((k, None) # m) m1 ok"
  using loads_absent [of t m m1 ok k] by (auto simp: loads_def loaded_def map_of_eq_None_iff [symmetric])

lemma loads_stop: "distinct (map fst m) \<Longrightarrow> loads t m m False"
  by (simp add: loads_def loaded_def)

text \<open>What the code relies on: a record is put under its own key, and removed by it.\<close>

locale table =
  fixes tab :: "Store \<Rightarrow> ('k \<times> 'r) list"
    and key :: "'r \<Rightarrow> 'k"
    and put :: "'r \<Rightarrow> Store \<Rightarrow> Store"
    and del :: "'k \<Rightarrow> Store \<Rightarrow> Store"
  assumes tab_put: "wf_table key (tab st) \<Longrightarrow> map_of (tab (put r st)) = (map_of (tab st))(key r \<mapsto> r)"
    and tab_del: "wf_table key (tab st) \<Longrightarrow> map_of (tab (del k st)) = (map_of (tab st))(k := None)"
    and wf_put: "wf_table key (tab st) \<Longrightarrow> wf_table key (tab (put r st))"
    and wf_del: "wf_table key (tab st) \<Longrightarrow> wf_table key (tab (del k st))"
begin

lemma put_coh:
  "wf_table key (tab st) \<Longrightarrow> map_coh key stl (tab st) c \<Longrightarrow> stl (key r) \<Longrightarrow>
   map_coh key stl (tab (put r st)) c"
  by (auto simp: map_coh_def entries_coh_def tab_put simp del: map_of_eq_Some_iff)

lemma del_coh:
  "wf_table key (tab st) \<Longrightarrow> map_coh key stl (tab st) c \<Longrightarrow> stl k \<Longrightarrow>
   map_coh key stl (tab (del k st)) c"
  by (auto simp: map_coh_def entries_coh_def tab_del simp del: map_of_eq_Some_iff)

lemma set_coh:
  "map_coh key stl (tab st) c \<Longrightarrow> stl k \<Longrightarrow> key r = k \<Longrightarrow>
   map_coh key stl (tab st) (map_option (AList.update k (Some r)) c)"
  by (auto simp: map_coh_def distinct_update update_conv' entries_coh_upd)

text \<open>Setting an entry to nil accounts for the hook that does it.\<close>

lemma nil_coh:
  "map_coh key stl (tab st) c \<Longrightarrow> \<forall>j. stl j \<longrightarrow> stl' j \<or> j = k \<Longrightarrow>
   map_coh key stl' (tab st) (map_option (AList.update k None) c)"
  by (auto simp: map_coh_def distinct_update update_conv' intro: entries_coh_nil)

text \<open>The list of the records enters each under its key.\<close>

lemma listRecords_ok:
  "listRecords key rs m s = (r, s1) \<Longrightarrow> distinct (map key rs) \<Longrightarrow> distinct (map fst m) \<Longrightarrow>
   env_step s s1 \<and> (\<forall>m1. r = Some m1 \<longrightarrow> distinct (map fst m1) \<and>
     map_of m1 = map_of m ++ map_of (map (\<lambda>x. (key x, Some x)) rs))"
proof (induction rs arbitrary: m s)
  case (Cons x rs)
  show ?case
  proof (cases "storeRead (\<lambda>_. x) s")
    case (Pair y s2)
    note env = storeRead_env [OF Pair]
    show ?thesis
    proof (cases y)
      case None
      with Cons.prems Pair env show ?thesis by auto
    next
      case (Some z)
      with Pair have "z = x" by (auto dest: storeRead_value)
      with Cons.prems(1) Some Pair have "listRecords key rs (AList.update (key x) (Some x) m) s2 = (r, s1)"
        by simp
      note IH = Cons.IH [OF this]
      have d: "distinct (map key rs)" "distinct (map fst (AList.update (key x) (Some x) m))"
        using Cons.prems(2,3) by (simp_all add: distinct_update)
      from IH [OF d] have *: "env_step s2 s1" "\<forall>m1. r = Some m1 \<longrightarrow> distinct (map fst m1) \<and>
          map_of m1 = map_of (AList.update (key x) (Some x) m) ++ map_of (map (\<lambda>x. (key x, Some x)) rs)"
        by blast+
      have "key x \<notin> dom (map_of (map (\<lambda>x. (key x, Some x)) rs))"
        using Cons.prems(2) by (simp add: dom_map_of_conv_image_fst image_image)
      then have "map_of (AList.update (key x) (Some x) m) ++ map_of (map (\<lambda>x. (key x, Some x)) rs) =
          map_of m ++ map_of (map (\<lambda>x. (key x, Some x)) (x # rs))"
        unfolding update_conv' by (simp add: map_add_upd_left)
      then show ?thesis
        using * env_step_trans [OF env *(1)] by (simp only: simp_thms)
    qed
  qed
qed auto

lemma listStore_ok:
  assumes wf: "wf_table key (tab (t_store s))" and l: "listStore tab key s = (r, s1)"
  shows "env_step s s1 \<and> (\<forall>m. r = Some m \<longrightarrow> distinct (map fst m) \<and>
     map_of m = (\<lambda>k. map_option Some (map_of (tab (t_store s)) k)))"
proof (cases "storeRead (\<lambda>st. map snd (tab st)) s")
  case (Pair y s2)
  note env = storeRead_env [OF Pair]
  show ?thesis
  proof (cases y)
    case None
    with l Pair env show ?thesis by (auto simp: listStore_def)
  next
    case (Some rs)
    let ?t = "tab (t_store s)"
    from Some Pair have rs: "rs = map snd ?t" by (auto dest: storeRead_value)
    from wf have pairs: "map (\<lambda>x. (key (snd x), Some (snd x))) ?t = map (\<lambda>(k, v). (k, Some v)) ?t"
        "map (key \<circ> snd) ?t = map fst ?t"
      by (auto simp: wf_table_def)
    have "distinct (map key rs)" using wf by (simp add: rs pairs(2) wf_table_def del: map_eq_conv)
    moreover have "map_of (map (\<lambda>x. (key x, Some x)) rs) = (\<lambda>k. map_option Some (map_of ?t k))"
      by (simp add: rs comp_def pairs(1) map_of_map)
    ultimately show ?thesis
      using l Pair Some env listRecords_ok [of rs "[]" s2 r s1] by (auto simp: listStore_def dest: env_step_trans)
  qed
qed

lemma loadNils_ok:
  "loadNils tab m s = ((ok, m1), s1) \<Longrightarrow> distinct (map fst m) \<Longrightarrow>
   env_step s s1 \<and> loads (map_of (tab (t_store s))) m m1 ok"
proof (induction m arbitrary: s ok m1)
  case Nil
  then show ?case by (auto simp: loads_def loaded_def)
next
  case (Cons kv m)
  show ?case
  proof (cases kv)
    case kv: (Pair k v)
    show ?thesis
    proof (cases v)
      case (Some r)
      with Cons kv show ?thesis by (auto split: prod.splits intro: loads_keep)
    next
      case None
      show ?thesis
      proof (cases "storeRead (\<lambda>st. map_of (tab st) k) s")
        case (Pair y s2)
        note env = storeRead_env [OF Pair]
        from Cons.prems kv None have d: "distinct (map fst m)" "k \<notin> fst ` set m" by auto
        show ?thesis
        proof (cases y)
          case y: None
          with Cons.prems Pair kv None env show ?thesis by (auto intro: loads_stop)
        next
          case y: (Some x)
          with Pair have x: "x = map_of (tab (t_store s)) k" by (auto dest: storeRead_value)
          show ?thesis
          proof (cases x)
            case None
            with Cons.prems Pair kv \<open>v = None\<close> y have "loadNils tab m s2 = ((ok, m1), s1)" by simp
            from Cons.IH [OF this d(1)] x None d env show ?thesis
              by (auto simp: kv \<open>v = None\<close> env_step_store intro: loads_drop env_step_trans)
          next
            case (Some z)
            with Cons.prems Pair kv \<open>v = None\<close> y obtain m2 where
              "loadNils tab m s2 = ((ok, m2), s1)" "m1 = (k, Some z) # m2" by (auto split: prod.splits)
            moreover have "map_of (tab (t_store s)) k = Some z" using x Some by simp
            ultimately show ?thesis
              using Cons.IH [of s2 ok m2] d env
              by (auto simp: kv \<open>v = None\<close> env_step_store intro: loads_load env_step_trans)
          qed
        qed
      qed
    qed
  qed
qed

end

interpretation group_table: table st_group g_Id
  "\<lambda>g st. st\<lparr>st_group := AList.update (g_Id g) g (st_group st)\<rparr>"
  "\<lambda>k st. st\<lparr>st_group := AList.delete k (st_group st)\<rparr>"
  by unfold_locales (simp_all add: update_conv' delete_conv' wf_table_update wf_table_delete)

interpretation proxy_table: table st_proxy p_Token
  "\<lambda>p st. st\<lparr>st_proxy := AList.update (p_Token p) p (st_proxy st)\<rparr>"
  "\<lambda>k st. st\<lparr>st_proxy := AList.delete k (st_proxy st)\<rparr>"
  by unfold_locales (simp_all add: update_conv' delete_conv' wf_table_update wf_table_delete)

section \<open>Running the hooks\<close>

lemma nth_set_nil: "l[k := None] ! i = Some m \<Longrightarrow> i < length l \<Longrightarrow> l ! i = Some m \<and> k \<noteq> i"
  by (cases "k = i") auto

lemma runHook_coh:
  assumes "coh (insert h D) s"
  shows "coh D (runHook h s)"
proof (cases h)
  case (HookSlot sid)
  with assms show ?thesis
    by (auto simp: coh_def slots_coh_def stale_def dest!: nth_set_nil) fastforce
next
  case (HookGroup gid)
  with assms show ?thesis
    by (auto simp: coh_def slots_coh_def stale_def intro!: group_table.nil_coh)
next
  case (HookProxy t)
  with assms show ?thesis
    by (auto simp: coh_def slots_coh_def stale_def intro!: proxy_table.nil_coh)
qed (use assms in \<open>auto simp: coh_def slots_coh_def map_coh_def one_coh_def stale_def\<close>)

lemma coh_hooks [simp]: "coh D (s\<lparr>t_hooks := h\<rparr>) = coh D s"
  by (simp add: coh_def)

lemma coh_env [simp]: "coh D (s\<lparr>t_env := e\<rparr>) = coh D s"
  by (simp add: coh_def)

lemma runHooks_coh: "coh (D \<union> set hs) s \<Longrightarrow> coh D (fold runHook hs s)"
  by (induction hs arbitrary: s) (auto simp: insert_commute intro: runHook_coh)

text \<open>What hooks and refills may change.\<close>

definition cache_step :: "Topom \<Rightarrow> Topom \<Rightarrow> bool" where
  "cache_step s s1 \<longleftrightarrow> (\<exists>h e c1 c2 c3 c4 c5 c6.
     s1 = s\<lparr>t_hooks := h, t_env := e, t_slots := c1, t_group := c2, t_proxy := c3,
            t_sentinel := c4, t_acl := c5, t_qps := c6\<rparr>)"

lemma cache_stepI:
  "s1\<lparr>t_hooks := [], t_env := [], t_slots := None, t_group := None, t_proxy := None,
     t_sentinel := None, t_acl := None, t_qps := None\<rparr> =
   s\<lparr>t_hooks := [], t_env := [], t_slots := None, t_group := None, t_proxy := None,
     t_sentinel := None, t_acl := None, t_qps := None\<rparr> \<Longrightarrow> cache_step s s1"
  unfolding cache_step_def
  by (rule exI [of _ "t_hooks s1"], rule exI [of _ "t_env s1"], rule exI [of _ "t_slots s1"],
      rule exI [of _ "t_group s1"], rule exI [of _ "t_proxy s1"], rule exI [of _ "t_sentinel s1"],
      rule exI [of _ "t_acl s1"], rule exI [of _ "t_qps s1"], cases s, cases s1) simp

lemma cache_step_trans [trans]: "cache_step s s1 \<Longrightarrow> cache_step s1 s2 \<Longrightarrow> cache_step s s2"
  by (rule cache_stepI) (auto simp: cache_step_def)

lemma env_cache_step: "env_step s s1 \<Longrightarrow> cache_step s s1"
  by (auto simp: env_step_def intro: cache_stepI)

lemma cache_step_fields:
  "cache_step s s1 \<Longrightarrow> t_store s1 = t_store s \<and> t_views s1 = t_views s \<and> t_online s1 = t_online s \<and>
   t_closed s1 = t_closed s"
  by (auto simp: cache_step_def)

lemma runHook_cache_step: "cache_step s (runHook h s)"
  by (cases h) (auto intro: cache_stepI)

lemma fold_runHook_cache_step: "cache_step s (fold runHook hs s)"
proof (induction hs arbitrary: s)
  case Nil
  show ?case by (simp add: cache_stepI)
next
  case (Cons h hs)
  show ?case using cache_step_trans [OF runHook_cache_step Cons.IH] by simp
qed

lemma runHook_hooks [simp]: "t_hooks (runHook h s) = t_hooks s"
  by (cases h) auto

lemma fold_runHook_hooks [simp]: "t_hooks (fold runHook hs s) = t_hooks s"
  by (induction hs arbitrary: s) auto

lemma runHooks_ok:
  assumes "good {} s"
  shows "good {} (runHooks s) \<and> t_hooks (runHooks s) = [] \<and> cache_step s (runHooks s)"
proof -
  let ?s = "s\<lparr>t_hooks := []\<rparr>"
  have step: "cache_step s (runHooks s)"
    unfolding runHooks_def by (rule cache_step_trans [OF _ fold_runHook_cache_step]) (simp add: cache_stepI)
  moreover have "coh {} (runHooks s)"
    using assms unfolding runHooks_def good_def by (auto intro: runHooks_coh)
  ultimately show ?thesis
    using assms cache_step_fields [OF step] by (simp add: good_def runHooks_def)
qed

section \<open>Refilling the cache\<close>

lemma loadSlots_ok:
  "loadSlots i l s = ((ok, l1), s1) \<Longrightarrow>
   env_step s s1 \<and> length l1 = length l \<and>
   (\<forall>j < length l. (l1 ! j = l ! j \<and> (ok \<longrightarrow> l ! j \<noteq> None)) \<or>
      l ! j = None \<and> l1 ! j = Some (slot_at (t_store s) (i + int j)))"
proof (induction i l s arbitrary: ok l1 s1 rule: loadSlots.induct)
  case (1 i s)
  then show ?case by simp
next
  case (2 i m ms s)
  then show ?case by (auto simp: All_less_Suc2 add.assoc split: prod.splits)
next
  case (3 i ms s)
  show ?case
  proof (cases "storeRead (\<lambda>st. slot_at st i) s")
    case (Pair y s2)
    note env = storeRead_env [OF Pair]
    show ?thesis
    proof (cases y)
      case None
      with "3.prems" Pair env show ?thesis by auto
    next
      case (Some m)
      with Pair have m: "m = slot_at (t_store s) i" by (auto dest: storeRead_value)
      from "3.prems" Pair Some obtain l2 where l2: "loadSlots (i + 1) ms s2 = ((ok, l2), s1)"
        "l1 = Some m # l2" by (auto split: prod.splits)
      with "3.IH" [OF Pair [symmetric] Some l2(1)] env m show ?thesis
        by (auto simp: All_less_Suc2 add.assoc env_step_store intro: env_step_trans)
    qed
  qed
qed

definition slots_filled :: "Topom \<Rightarrow> bool" where
  "slots_filled s \<longleftrightarrow> (\<exists>l. t_slots s = Some l \<and> None \<notin> set l)"

definition map_filled :: "('k \<times> 'r option) list option \<Rightarrow> bool" where
  "map_filled c \<longleftrightarrow> (\<exists>m. c = Some m \<and> (\<forall>k. map_of m k \<noteq> Some None))"

lemma refillCacheSlots_ok:
  assumes "slots_coh D (t_store s) (t_slots s)" and wf: "wf_store (t_store s)"
    and "refillCacheSlots s = (r, s1)"
  shows "\<exists>e c. s1 = s\<lparr>t_env := e, t_slots := c\<rparr> \<and> slots_coh D (t_store s) c \<and>
     (r = Inr () \<longrightarrow> slots_filled s1)"
proof (cases "t_slots s")
  case None
  obtain ok l s2 where l: "loadSlots 0 (replicate MaxSlotNum None) s = ((ok, l), s2)"
    by (metis surj_pair)
  from loadSlots_ok [OF l] have *: "env_step s s2" "length l = MaxSlotNum"
    "\<forall>j<MaxSlotNum. l ! j = None \<and> \<not> ok \<or> l ! j = Some (slot_at (t_store s) (int j))" by auto
  obtain e where e: "s2 = s\<lparr>t_env := e\<rparr>" using *(1) by (auto simp: env_step_def)
  show ?thesis
  proof (cases ok)
    case True
    with * have "slots_coh D (t_store s) (Some l)" "None \<notin> set l"
      using wf by (auto simp: slots_coh_def in_set_conv_nth)
    with True l e assms(3) None show ?thesis
      by (intro exI [of _ e] exI [of _ "Some l"])
        (auto simp: refillCacheSlots_def SlotMappings_def slots_filled_def)
  next
    case False
    with l e assms(3) None have r: "r = Inl LoadFailed" "s1 = s\<lparr>t_env := e\<rparr>"
      by (simp_all add: refillCacheSlots_def SlotMappings_def)
    moreover have "s\<lparr>t_env := e\<rparr> = s\<lparr>t_env := e, t_slots := None\<rparr>" using None by (cases s) simp
    ultimately have "s1 = s\<lparr>t_env := e, t_slots := None\<rparr>" by (rule_tac trans)
    with r(1) show ?thesis by (auto simp: slots_coh_def)
  qed
next
  case (Some l)
  obtain ok l1 s2 where l: "loadSlots 0 l s = ((ok, l1), s2)" by (metis surj_pair)
  from Some assms(1) have len: "length l = MaxSlotNum" by (simp add: slots_coh_def)
  from loadSlots_ok [OF l] len have *: "env_step s s2" "length l1 = MaxSlotNum"
    "\<forall>j<MaxSlotNum. (l1 ! j = l ! j \<and> (ok \<longrightarrow> l ! j \<noteq> None)) \<or>
       l ! j = None \<and> l1 ! j = Some (slot_at (t_store s) (int j))" by auto
  have "sm_Id m = int j \<and> (stale D (HookSlot (int j)) \<or> m = slot_at (t_store s) (int j))"
    if "j < MaxSlotNum" "l1 ! j = Some m" for j m
  proof -
    from *(3) [rule_format, OF that(1)] that(2) consider "l ! j = Some m" | "m = slot_at (t_store s) (int j)"
      by auto
    then show ?thesis
    proof cases
      case 1
      with assms(1) Some that(1) show ?thesis by (simp add: slots_coh_def)
    qed (simp add: wf)
  qed
  then have "slots_coh D (t_store s) (Some l1)" using *(2) by (simp add: slots_coh_def)
  moreover have "ok \<Longrightarrow> None \<notin> set l1" using * by (auto simp: in_set_conv_nth)
  moreover obtain e where "s2 = s\<lparr>t_env := e\<rparr>" using *(1) by (auto simp: env_step_def)
  ultimately show ?thesis
    using l assms(3) Some
    by (intro exI [of _ e] exI [of _ "Some l1"]) (auto simp: refillCacheSlots_def slots_filled_def split: if_splits)
qed

text \<open>The two cases of a refilled map, a fresh list and the nil entries of the old one.\<close>

lemma fresh_map_coh:
  "wf_table key tb \<Longrightarrow> distinct (map fst m) \<Longrightarrow> map_of m = (\<lambda>k. map_option Some (map_of tb k)) \<Longrightarrow>
   map_coh key stl tb (Some m) \<and> map_filled (Some m)"
  by (auto simp: map_coh_def entries_coh_def map_filled_def simp del: map_of_eq_Some_iff
      dest: map_of_wf_table)

lemma loads_map_coh:
  assumes wf: "wf_table key tb" and "map_coh key stl tb (Some m)" and l: "loads (map_of tb) m m1 ok"
  shows "map_coh key stl tb (Some m1) \<and> (ok \<longrightarrow> map_filled (Some m1))"
proof -
  have m: "\<forall>k r. map_of m k = Some (Some r) \<longrightarrow> key r = k"
    "\<forall>k. stl k \<or> map_of m k = Some None \<or> map_of m k = map_option Some (map_of tb k)"
    using assms(2) by (simp_all add: map_coh_def entries_coh_def del: map_of_eq_Some_iff)
  have l1: "loaded ok (map_of tb k) (map_of m k) (map_of m1 k)" for k
    using l by (simp add: loads_def)
  have "key r = k" if "map_of m1 k = Some (Some r)" for k r
    using l1 [of k] m(1) that map_of_wf_table [OF wf, of k]
    by (cases "map_of tb k") (auto simp: loaded_def simp del: map_of_eq_Some_iff)
  moreover have "stl k \<or> map_of m1 k = Some None \<or> map_of m1 k = map_option Some (map_of tb k)" for k
    using l1 [of k] m(2) by (auto simp: loaded_def simp del: map_of_eq_Some_iff)
  moreover have "map_of m1 k \<noteq> Some None" if ok for k
    using l1 [of k] that by (auto simp: loaded_def simp del: map_of_eq_Some_iff)
  ultimately show ?thesis
    using l by (simp add: map_coh_def entries_coh_def map_filled_def loads_def del: map_of_eq_Some_iff)
qed

definition refillTable :: "(Store \<Rightarrow> ('k \<times> 'r) list) \<Rightarrow> ('r \<Rightarrow> 'k) \<Rightarrow>
    ('k \<times> 'r option) list option \<Rightarrow> Topom \<Rightarrow> (bool \<times> ('k \<times> 'r option) list option) \<times> Topom" where
  "refillTable tb key c s =
     (case c of
        None \<Rightarrow> (case listStore tb key s of (x, s1) \<Rightarrow> ((x \<noteq> None, x), s1))
      | Some m \<Rightarrow> (case loadNils tb m s of ((ok, m1), s1) \<Rightarrow> ((ok, Some m1), s1)))"

context table
begin

lemma refillTable_ok:
  assumes wf: "wf_table key (tab (t_store s))" and c: "map_coh key stl (tab (t_store s)) c"
    and r: "refillTable tab key c s = ((ok, c1), s1)"
  shows "env_step s s1 \<and> map_coh key stl (tab (t_store s)) c1 \<and> (ok \<longrightarrow> map_filled c1) \<and>
     (c1 = None \<longrightarrow> c = None)"
proof (cases c)
  case None
  obtain x s2 where x: "listStore tab key s = (x, s2)" by fastforce
  show ?thesis
  proof (cases x)
    case (Some m)
    with None listStore_ok [OF wf x] fresh_map_coh [OF wf, of m stl] r x show ?thesis
      by (auto simp: refillTable_def)
  qed (use None listStore_ok [OF wf x] r x in \<open>auto simp: refillTable_def map_coh_def\<close>)
next
  case (Some m)
  obtain ok' m1 s2 where l: "loadNils tab m s = ((ok', m1), s2)" by (metis surj_pair)
  have "distinct (map fst m)" using c Some by (simp add: map_coh_def)
  from loadNils_ok [OF l this] loads_map_coh [OF wf] c Some l r show ?thesis
    by (auto simp: refillTable_def)
qed

end

lemma refillCacheGroup_alt:
  "refillCacheGroup s =
     (case refillTable st_group g_Id (t_group s) s of
        ((ok, c), s1) \<Rightarrow> (if ok then Inr () else Inl LoadFailed, s1\<lparr>t_group := c\<rparr>))"
  if "wf_store (t_store s)"
proof (cases "t_group s")
  case None
  obtain x s2 where x: "listStore st_group g_Id s = (x, s2)" by fastforce
  from group_table.listStore_ok [OF _ x] that None have "t_group s2 = None"
    by (auto simp: env_step_def wf_store_def)
  then have "s2\<lparr>t_group := None\<rparr> = s2" by (cases s2) simp
  with None x show ?thesis
    by (simp add: refillCacheGroup_def refillTable_def ListGroup_def split: option.splits)
qed (simp add: refillCacheGroup_def refillTable_def split: prod.splits)

lemma refillCacheProxy_alt:
  "refillCacheProxy s =
     (case refillTable st_proxy p_Token (t_proxy s) s of
        ((ok, c), s1) \<Rightarrow> (if ok then Inr () else Inl LoadFailed, s1\<lparr>t_proxy := c\<rparr>))"
  if "wf_store (t_store s)"
proof (cases "t_proxy s")
  case None
  obtain x s2 where x: "listStore st_proxy p_Token s = (x, s2)" by fastforce
  from proxy_table.listStore_ok [OF _ x] that None have "t_proxy s2 = None"
    by (auto simp: env_step_def wf_store_def)
  then have "s2\<lparr>t_proxy := None\<rparr> = s2" by (cases s2) simp
  with None x show ?thesis
    by (simp add: refillCacheProxy_def refillTable_def ListProxy_def split: option.splits)
qed (simp add: refillCacheProxy_def refillTable_def split: prod.splits)

text \<open>A refill keeps the cache good, changes nothing but the cache, and fills its part.\<close>

definition refills :: "(Topom \<Rightarrow> bool) \<Rightarrow> unit topom_op \<Rightarrow> (Topom \<Rightarrow> bool) \<Rightarrow> bool" where
  "refills P m Q \<longleftrightarrow> (\<forall>s r s1. good {} s \<longrightarrow> P s \<longrightarrow> m s = (r, s1) \<longrightarrow>
     good {} s1 \<and> t_hooks s1 = t_hooks s \<and> cache_step s s1 \<and> (r = Inr () \<longrightarrow> Q s1))"

lemma refillsI:
  assumes "\<And>s r s1. good {} s \<Longrightarrow> P s \<Longrightarrow> m s = (r, s1) \<Longrightarrow>
     good {} s1 \<and> t_hooks s1 = t_hooks s \<and> cache_step s s1 \<and> (r = Inr () \<longrightarrow> Q s1)"
  shows "refills P m Q"
  unfolding refills_def using assms by blast

lemma refills_seq: "refills P m Q \<Longrightarrow> refills Q n R \<Longrightarrow> refills P (seqT m n) R"
proof (rule refillsI)
  fix s r s1
  assume m: "refills P m Q" and n: "refills Q n R" and s: "good {} s" "P s" and r: "seqT m n s = (r, s1)"
  obtain r2 s2 where r2: "m s = (r2, s2)" by fastforce
  note m2 = m [unfolded refills_def, rule_format, OF s r2]
  show "good {} s1 \<and> t_hooks s1 = t_hooks s \<and> cache_step s s1 \<and> (r = Inr () \<longrightarrow> R s1)"
  proof (cases r2)
    case (Inl e)
    with r r2 m2 show ?thesis by (auto simp: seqT_def bindT_def)
  next
    case (Inr u)
    with r r2 have "n s2 = (r, s1)" by (simp add: seqT_def bindT_def)
    with m2 Inr n [unfolded refills_def, rule_format, of s2 r s1] show ?thesis
      by (auto intro: cache_step_trans)
  qed
qed

lemma refills_slots: "refills (\<lambda>_. True) refillCacheSlots slots_filled"
proof (rule refillsI)
  fix s r s1 assume "good {} s" and r: "refillCacheSlots s = (r, s1)"
  then obtain e c where "s1 = s\<lparr>t_env := e, t_slots := c\<rparr>" "slots_coh (set (t_hooks s)) (t_store s) c"
    "r = Inr () \<longrightarrow> slots_filled s1"
    using refillCacheSlots_ok [OF _ _ r, of "set (t_hooks s)"] by (auto simp: good_def coh_def)
  with \<open>good {} s\<close> show "good {} s1 \<and> t_hooks s1 = t_hooks s \<and> cache_step s s1 \<and> (r = Inr () \<longrightarrow> slots_filled s1)"
    by (simp add: good_def coh_def cache_stepI)
qed

lemma refills_group: "refills slots_filled refillCacheGroup (\<lambda>s. slots_filled s \<and> map_filled (t_group s))"
proof (rule refillsI)
  fix s r s1 assume s: "good {} s" "slots_filled s" and r: "refillCacheGroup s = (r, s1)"
  obtain ok c s2 where t: "refillTable st_group g_Id (t_group s) s = ((ok, c), s2)" by (metis surj_pair)
  from s have "wf_store (t_store s)" "map_coh g_Id (\<lambda>k. stale (set (t_hooks s)) (HookGroup k))
      (st_group (t_store s)) (t_group s)" by (simp_all add: good_def coh_def)
  moreover from this(1) have wf: "wf_table g_Id (st_group (t_store s))" by (simp add: wf_store_def)
  ultimately have c: "env_step s s2" "map_coh g_Id (\<lambda>k. stale (set (t_hooks s)) (HookGroup k))
      (st_group (t_store s)) c" "ok \<longrightarrow> map_filled c"
    using group_table.refillTable_ok [OF wf _ t] by auto
  from r t refillCacheGroup_alt [OF \<open>wf_store (t_store s)\<close>] have
    r1: "r = (if ok then Inr () else Inl LoadFailed)" "s1 = s2\<lparr>t_group := c\<rparr>" by simp_all
  from c(1) obtain e where "s2 = s\<lparr>t_env := e\<rparr>" by (auto simp: env_step_def)
  note c(2) moreover have "s1 = s\<lparr>t_env := e, t_group := c\<rparr>" "r = Inr () \<longrightarrow> map_filled c"
    using r1 c(3) \<open>s2 = _\<close> by (simp_all split: if_splits)
  ultimately show "good {} s1 \<and> t_hooks s1 = t_hooks s \<and> cache_step s s1 \<and>
      (r = Inr () \<longrightarrow> slots_filled s1 \<and> map_filled (t_group s1))"
    using s by (simp add: good_def coh_def slots_filled_def cache_stepI)
qed

lemma refills_proxy:
  "refills (\<lambda>s. slots_filled s \<and> map_filled (t_group s)) refillCacheProxy
     (\<lambda>s. slots_filled s \<and> map_filled (t_group s) \<and> map_filled (t_proxy s))"
proof (rule refillsI)
  fix s r s1
  assume s: "good {} s" "slots_filled s \<and> map_filled (t_group s)" and r: "refillCacheProxy s = (r, s1)"
  obtain ok c s2 where t: "refillTable st_proxy p_Token (t_proxy s) s = ((ok, c), s2)" by (metis surj_pair)
  from s have "wf_store (t_store s)" "map_coh p_Token (\<lambda>k. stale (set (t_hooks s)) (HookProxy k))
      (st_proxy (t_store s)) (t_proxy s)" by (simp_all add: good_def coh_def)
  moreover from this(1) have wf: "wf_table p_Token (st_proxy (t_store s))" by (simp add: wf_store_def)
  ultimately have c: "env_step s s2" "map_coh p_Token (\<lambda>k. stale (set (t_hooks s)) (HookProxy k))
      (st_proxy (t_store s)) c" "ok \<longrightarrow> map_filled c"
    using proxy_table.refillTable_ok [OF wf _ t] by auto
  from r t refillCacheProxy_alt [OF \<open>wf_store (t_store s)\<close>] have
    r1: "r = (if ok then Inr () else Inl LoadFailed)" "s1 = s2\<lparr>t_proxy := c\<rparr>" by simp_all
  from c(1) obtain e where "s2 = s\<lparr>t_env := e\<rparr>" by (auto simp: env_step_def)
  note c(2) moreover have "s1 = s\<lparr>t_env := e, t_proxy := c\<rparr>" "r = Inr () \<longrightarrow> map_filled c"
    using r1 c(3) \<open>s2 = _\<close> by (simp_all split: if_splits)
  ultimately show "good {} s1 \<and> t_hooks s1 = t_hooks s \<and> cache_step s s1 \<and>
      (r = Inr () \<longrightarrow> slots_filled s1 \<and> map_filled (t_group s1) \<and> map_filled (t_proxy s1))"
    using s by (simp add: good_def coh_def slots_filled_def cache_stepI)
qed

definition filled :: "Topom \<Rightarrow> bool" where
  "filled s \<longleftrightarrow> slots_filled s \<and> map_filled (t_group s) \<and> map_filled (t_proxy s) \<and>
     t_sentinel s \<noteq> None \<and> t_acl s \<noteq> None \<and> t_qps s \<noteq> None"

lemma storeRead_cases:
  obtains (fail) e where "storeRead f s = (None, s\<lparr>t_env := e\<rparr>)"
    | (ok) e where "storeRead f s = (Some (f (t_store s)), s\<lparr>t_env := e\<rparr>)"
proof (cases "storeRead f s")
  case (Pair y s1)
  then obtain e where e: "s1 = s\<lparr>t_env := e\<rparr>" using storeRead_env [OF Pair] by (auto simp: env_step_def)
  show ?thesis
  proof (cases y)
    case None
    with Pair e show ?thesis by (intro fail) simp
  next
    case (Some x)
    with Pair have "x = f (t_store s)" by (auto dest: storeRead_value)
    with Pair e Some show ?thesis by (intro ok) simp
  qed
qed

lemma refills_one:
  assumes "\<And>s. P s \<Longrightarrow> m s = (Inr (), s) \<and> Q s \<or>
      (\<exists>e. m s = (Inl LoadFailed, s\<lparr>t_env := e\<rparr>)) \<or>
      (\<exists>e. m s = (Inr (), upd (s\<lparr>t_env := e\<rparr>)) \<and> Q (upd (s\<lparr>t_env := e\<rparr>)))"
    and "\<And>s. good {} s \<Longrightarrow> good {} (upd s) \<and> t_hooks (upd s) = t_hooks s \<and> cache_step s (upd s)"
  shows "refills P m Q"
proof (rule refillsI)
  fix s r s1
  assume s: "good {} s" "P s" and r: "m s = (r, s1)"
  have e: "good {} (s\<lparr>t_env := e\<rparr>)" "cache_step s (s\<lparr>t_env := e\<rparr>)" for e
    using s by (auto simp: good_def intro: cache_stepI)
  have "cache_step s s" by (simp add: cache_stepI)
  with assms(1) [OF s(2)] assms(2) [OF e(1)] r s e show "good {} s1 \<and> t_hooks s1 = t_hooks s \<and> cache_step s s1 \<and> (r = Inr () \<longrightarrow> Q s1)"
    by (auto intro: cache_step_trans)
qed

lemma refills_sentinel:
  "refills (\<lambda>s. slots_filled s \<and> map_filled (t_group s) \<and> map_filled (t_proxy s)) refillCacheSentinel
     (\<lambda>s. slots_filled s \<and> map_filled (t_group s) \<and> map_filled (t_proxy s) \<and> t_sentinel s \<noteq> None)"
proof (rule refills_one [where upd =
    "\<lambda>s. s\<lparr>t_sentinel := Some (case_option Sentinel_zero id (st_sentinel (t_store s)))\<rparr>"], goal_cases)
  case (1 s)
  then show ?case
    by (cases rule: storeRead_cases [of st_sentinel s])
      (auto simp: refillCacheSentinel_def slots_filled_def id_def split: option.split)
qed (simp add: good_def coh_def one_coh_def cache_stepI)

lemma refills_acl:
  "refills (\<lambda>s. slots_filled s \<and> map_filled (t_group s) \<and> map_filled (t_proxy s) \<and> t_sentinel s \<noteq> None)
     refillCacheACL
     (\<lambda>s. slots_filled s \<and> map_filled (t_group s) \<and> map_filled (t_proxy s) \<and> t_sentinel s \<noteq> None \<and>
          t_acl s \<noteq> None)"
proof (rule refills_one [where upd = "\<lambda>s. s\<lparr>t_acl := Some (case_option ACL_zero id (st_acl (t_store s)))\<rparr>"],
    goal_cases)
  case (1 s)
  then show ?case
    by (cases rule: storeRead_cases [of st_acl s])
      (auto simp: refillCacheACL_def slots_filled_def id_def split: option.split)
qed (simp add: good_def coh_def one_coh_def cache_stepI)

lemma refills_qps:
  "refills (\<lambda>s. slots_filled s \<and> map_filled (t_group s) \<and> map_filled (t_proxy s) \<and> t_sentinel s \<noteq> None \<and>
          t_acl s \<noteq> None) refillCacheProxyQPSLimit filled"
proof (rule refills_one [where upd =
    "\<lambda>s. s\<lparr>t_qps := Some (case_option ProxyQPSLimit_zero id (st_qps (t_store s)))\<rparr>"], goal_cases)
  case (1 s)
  then show ?case
    by (cases rule: storeRead_cases [of st_qps s])
      (auto simp: refillCacheProxyQPSLimit_def slots_filled_def filled_def id_def split: option.split)
qed (simp add: good_def coh_def one_coh_def cache_stepI)

lemmas refills_all = refills_seq [OF refills_slots refills_seq [OF refills_group refills_seq [OF refills_proxy
  refills_seq [OF refills_sentinel refills_seq [OF refills_acl refills_qps]]]]]

text \<open>A context is the whole of the store, and getting one keeps the cache good even if it fails.\<close>

lemma newContext_ok:
  assumes "good {} s" and "newContext s = (r, s1)"
  shows "good {} s1 \<and> cache_step s s1 \<and> (r = Inr () \<longrightarrow> filled s1 \<and> t_hooks s1 = [])"
proof -
  have "cache_step s s" by (simp add: cache_stepI)
  note h = runHooks_ok [OF assms(1)]
  show ?thesis
  proof (cases "t_closed s \<or> \<not> t_online s")
    case True
    with assms \<open>cache_step s s\<close> show ?thesis by (auto simp: newContext_def split: if_splits)
  next
    case False
    with assms(2) have "seqT refillCacheSlots (seqT refillCacheGroup (seqT refillCacheProxy
       (seqT refillCacheSentinel (seqT refillCacheACL refillCacheProxyQPSLimit)))) (runHooks s) = (r, s1)"
      by (simp add: newContext_def refillCache_def seqT_def bindT_def modifyT_def)
    from refills_all [unfolded refills_def, rule_format, OF _ TrueI this] h
    show ?thesis using cache_step_trans by auto
  qed
qed

lemma ctx_slots_eq:
  assumes "good X s" and "filled s" and "t_hooks s = []" and "i < MaxSlotNum" and "\<not> stale X (HookSlot (int i))"
  shows "ctx_slots s ! i = slot_at (t_store s) (int i)"
proof -
  from assms obtain l where l: "t_slots s = Some l" "None \<notin> set l" "length l = MaxSlotNum"
    by (auto simp: filled_def slots_filled_def good_def coh_def slots_coh_def)
  then obtain m where "l ! i = Some m" using assms(4) nth_mem [of i l] by (cases "l ! i") auto
  with assms l show ?thesis by (auto simp: ctx_slots_def good_def coh_def slots_coh_def)
qed

lemma length_ctx_slots: "good X s \<Longrightarrow> filled s \<Longrightarrow> length (ctx_slots s) = MaxSlotNum"
  by (auto simp: ctx_slots_def filled_def slots_filled_def good_def coh_def slots_coh_def)

lemma ctx_slots_id:
  assumes "good X s" and "filled s" and "i < MaxSlotNum"
  shows "sm_Id (ctx_slots s ! i) = int i"
proof -
  from assms obtain l where l: "t_slots s = Some l" "None \<notin> set l" "length l = MaxSlotNum"
    by (auto simp: filled_def slots_filled_def good_def coh_def slots_coh_def)
  then obtain m where "l ! i = Some m" using assms(3) nth_mem [of i l] by (cases "l ! i") auto
  with assms l show ?thesis by (auto simp: ctx_slots_def good_def coh_def slots_coh_def)
qed

section \<open>What the context shows\<close>

lemma present_simps [simp]:
  "present (Some []) = []"
  "present (Some ((k, None) # l)) = present (Some l)"
  "present (Some ((k, Some r) # l)) = (k, r) # present (Some l)"
  by (simp_all add: present_def List.map_filter_simps)

lemma set_present: "(k, r) \<in> set (present (Some l)) \<longleftrightarrow> (k, Some r) \<in> set l"
proof (induction l)
  case (Cons x l)
  then show ?case by (cases x; cases "snd x") auto
qed simp

lemma present_keys: "fst ` set (present (Some l)) \<subseteq> fst ` set l"
  by (force simp: set_present)

lemma distinct_present: "distinct (map fst l) \<Longrightarrow> distinct (map fst (present (Some l)))"
proof (induction l)
  case (Cons x l)
  then show ?case using present_keys [of l] by (cases x; cases "snd x") auto
qed simp

lemma map_of_present:
  "distinct (map fst l) \<Longrightarrow> map_of (present (Some l)) k = Option.bind (map_of l k) id"
proof (induction l)
  case (Cons x l)
  have "map_of (present (Some l)) (fst x) = None"
    using Cons.prems present_keys [of l] by (auto simp: map_of_eq_None_iff)
  with Cons show ?case by (cases x; cases "snd x") auto
qed simp

lemma present_in:
  assumes "map_coh key stl tb c" and "(k, r) \<in> set (present c)"
  shows "key r = k \<and> map_of (present c) k = Some r"
proof (cases c)
  case (Some l)
  with assms have "distinct (map fst l)" "map_of l k = Some (Some r)"
    by (auto simp: map_coh_def set_present simp del: map_of_eq_Some_iff)
  with assms(1) Some show ?thesis by (simp add: map_coh_def entries_coh_def map_of_present del: map_of_eq_Some_iff)
qed (use assms in \<open>simp add: present_def\<close>)

lemma present_lookup:
  assumes "map_coh key stl tb c" and "map_filled c" and "\<not> stl k"
  shows "map_of (present c) k = map_of tb k"
proof -
  from assms(2) obtain l where l: "c = Some l" "map_of l k \<noteq> Some None" by (auto simp: map_filled_def)
  with assms(1,3) have "distinct (map fst l)" "map_of l k = map_option Some (map_of tb k)"
    by (auto simp: map_coh_def entries_coh_def simp del: map_of_eq_Some_iff)
  with l show ?thesis by (cases "map_of tb k") (simp_all add: map_of_present del: map_of_eq_Some_iff)
qed

lemma lookupGroup_id: "good X s \<Longrightarrow> lookupGroup gid s = Some g \<Longrightarrow> g_Id g = gid"
  unfolding lookupGroup_def ctx_group_def good_def coh_def
  by (blast dest: present_in map_of_SomeD)

lemma ctx_group_in: "good X s \<Longrightarrow> (k, g) \<in> set (ctx_group s) \<Longrightarrow> g_Id g = k \<and> lookupGroup k s = Some g"
  unfolding lookupGroup_def ctx_group_def good_def coh_def by (blast dest: present_in)

lemma ctx_proxy_in: "good X s \<Longrightarrow> (k, p) \<in> set (ctx_proxy s) \<Longrightarrow> p_Token p = k"
  unfolding ctx_proxy_def good_def coh_def by (blast dest: present_in)

lemma lookupGroup_store:
  "good X s \<Longrightarrow> filled s \<Longrightarrow> t_hooks s = [] \<Longrightarrow> \<not> stale X (HookGroup gid) \<Longrightarrow>
   lookupGroup gid s = map_of (st_group (t_store s)) gid"
  unfolding lookupGroup_def ctx_group_def good_def coh_def filled_def by (auto intro: present_lookup)

lemma ctx_proxy_store:
  "good X s \<Longrightarrow> filled s \<Longrightarrow> t_hooks s = [] \<Longrightarrow> \<not> stale X (HookProxy t) \<Longrightarrow>
   map_of (ctx_proxy s) t = map_of (st_proxy (t_store s)) t"
  unfolding ctx_proxy_def good_def coh_def filled_def by (auto intro: present_lookup)

lemma indexOfServer_bound: "indexOfServer xs a = Some i \<Longrightarrow> i < length xs \<and> gs_Addr (xs ! i) = a"
  by (induction xs arbitrary: i) (auto split: if_splits)

lemma findServer_in:
  "findServer gs a = Some (k, g, i) \<Longrightarrow> (k, g) \<in> set gs \<and> i < length (g_Servers g)"
  by (induction gs a rule: findServer.induct) (auto dest: indexOfServer_bound split: option.splits)

end
