(* ===== verification/Logic.thy ===== *)
theory Logic
  imports Coherence
begin

text \<open>
  The invariant of the dashboard and a small program logic for its operations.  The invariant has three parts:
  the cache is coherent with the store, no slot refers to a missing or empty group, and what every
  registered proxy has been told about a slot fits the stored state of the slot.  A triple \<open>keeps P m K Q\<close> has
  one postcondition for an error and one for success.
\<close>

section \<open>The invariant\<close>

definition slot_of :: "(int \<rightharpoonup> SlotMapping) \<Rightarrow> int \<Rightarrow> SlotMapping" where
  "slot_of sl i = (case sl i of Some m \<Rightarrow> m | None \<Rightarrow> SlotMapping_of i 0)"

lemma slot_at_slot_of: "slot_at st i = slot_of (st_slots st) i"
  by (simp add: slot_at_def slot_of_def)

definition group_ok :: "Store \<Rightarrow> int \<Rightarrow> bool" where
  "group_ok st gid \<longleftrightarrow> gid = 0 \<or> (\<exists>g. map_of (st_group st) gid = Some g \<and> g_Servers g \<noteq> [])"

definition refs :: "Store \<Rightarrow> bool" where
  "refs st \<longleftrightarrow> (\<forall>i < MaxSlotNum. group_ok st (sm_GroupId (slot_at st (int i))) \<and>
     group_ok st (sm_TargetId (slot_at st (int i))))"

text \<open>A proxy that sends a slot to a group, with or without moving its keys there first.\<close>

definition at_group :: "Slot \<Rightarrow> int \<Rightarrow> bool" where
  "at_group v gid \<longleftrightarrow> sl_BackendAddrGroupId v = gid \<and> sl_MigrateFromGroupId v = 0"

definition migrates :: "Slot \<Rightarrow> int \<Rightarrow> int \<Rightarrow> bool" where
  "migrates v from dest \<longleftrightarrow> sl_BackendAddrGroupId v = dest \<and> sl_MigrateFromGroupId v = from"

text \<open>What a proxy may have been told about a slot, by the stored state of the slot.\<close>

definition allowed :: "SlotMapping \<Rightarrow> Slot \<Rightarrow> bool" where
  "allowed m v =
     (case sm_State m of
        ActionNothing \<Rightarrow> at_group v (sm_GroupId m)
      | ActionPending \<Rightarrow> at_group v (sm_GroupId m)
      | ActionPreparing \<Rightarrow> at_group v (sm_GroupId m) \<or>
          sl_Locked v \<and> migrates v (sm_GroupId m) (sm_TargetId m)
      | ActionPrepared \<Rightarrow> migrates v (sm_GroupId m) (sm_TargetId m)
      | ActionMigrating \<Rightarrow> migrates v (sm_GroupId m) (sm_TargetId m)
      | ActionFinished \<Rightarrow> migrates v (sm_GroupId m) (sm_TargetId m) \<or> at_group v (sm_TargetId m)
      | _ \<Rightarrow> False)"

definition registered :: "Topom \<Rightarrow> string \<Rightarrow> bool" where
  "registered s t \<longleftrightarrow> map_of (st_proxy (t_store s)) t \<noteq> None"

definition safe :: "Topom \<Rightarrow> bool" where
  "safe s \<longleftrightarrow> (\<forall>t i v. registered s t \<longrightarrow> t_views s t i = Some v \<longrightarrow> allowed (slot_at (t_store s) i) v)"

definition topom_inv :: "hook set \<Rightarrow> Topom \<Rightarrow> bool" where
  "topom_inv X s \<longleftrightarrow> good X s \<and> refs (t_store s) \<and> safe s"

lemma inv_push: "topom_inv (insert h X) s \<Longrightarrow> topom_inv X (pushHook h s)"
  by (simp add: topom_inv_def good_def pushHook_def safe_def registered_def)

lemma coh_mono:
  assumes "coh D s" and "D \<subseteq> E"
  shows "coh E s"
proof -
  have stl: "stale D h \<Longrightarrow> stale E h" for h using assms(2) by (rule stale_mono [rotated])
  show ?thesis
    using assms(1) unfolding coh_def slots_coh_def map_coh_def entries_coh_def one_coh_def
    by (meson stl)
qed

lemma topom_inv_mono: "topom_inv X s \<Longrightarrow> X \<subseteq> Y \<Longrightarrow> topom_inv Y s"
  unfolding topom_inv_def good_def by (auto elim!: coh_mono)

lemma cache_step_inv: "cache_step s s1 \<Longrightarrow> good Y s1 \<Longrightarrow> topom_inv X s \<Longrightarrow> topom_inv Y s1"
  using cache_step_fields [of s s1] by (simp add: topom_inv_def safe_def registered_def)

section \<open>The logic\<close>

definition keeps :: "(Topom \<Rightarrow> bool) \<Rightarrow> 'a topom_op \<Rightarrow> (Topom \<Rightarrow> bool) \<Rightarrow> ('a \<Rightarrow> Topom \<Rightarrow> bool) \<Rightarrow> bool" where
  "keeps P m K Q \<longleftrightarrow>
     (\<forall>s. P s \<longrightarrow> (case m s of (Inr x, s1) \<Rightarrow> Q x s1 | (Inl e, s1) \<Rightarrow> K s1))"

named_theorems op_rules

lemma keeps_pre: "keeps P' m K Q \<Longrightarrow> (\<And>s. P s \<Longrightarrow> P' s) \<Longrightarrow> keeps P m K Q"
  by (simp add: keeps_def)

lemma keeps_post: "keeps P m K Q \<Longrightarrow> (\<And>x s. Q x s \<Longrightarrow> R x s) \<Longrightarrow> keeps P m K R"
  by (fastforce simp: keeps_def split: prod.splits sum.splits)

lemma keeps_fact: "(\<And>s. P s \<Longrightarrow> A) \<Longrightarrow> (A \<Longrightarrow> keeps P m K Q) \<Longrightarrow> keeps P m K Q"
  by (auto simp: keeps_def)

lemma keeps_return: "(\<And>s. P s \<Longrightarrow> Q x s) \<Longrightarrow> keeps P (returnT x) K Q"
  by (simp add: keeps_def returnT_def)

lemma keeps_fail: "(\<And>s. P s \<Longrightarrow> K s) \<Longrightarrow> keeps P (failT e) K Q"
  by (simp add: keeps_def failT_def)

lemma keeps_bind:
  "keeps P m K R \<Longrightarrow> (\<And>x. keeps (R x) (f x) K Q) \<Longrightarrow> keeps P (bindT m f) K Q"
  by (fastforce simp: keeps_def bindT_def split: prod.splits sum.splits)

lemma keeps_seq: "keeps P m K R \<Longrightarrow> keeps (R ()) n K Q \<Longrightarrow> keeps P (seqT m n) K Q"
  by (auto simp: seqT_def intro: keeps_bind)

lemma keeps_read: "(\<And>s. P s \<Longrightarrow> Q (f s) s) \<Longrightarrow> keeps P (readT f) K Q"
  by (simp add: keeps_def readT_def)

lemma keeps_bind_read:
  "(\<And>x. keeps (\<lambda>s. P s \<and> f s = x) (g x) K Q) \<Longrightarrow> keeps P (bindT (readT f) g) K Q"
  by (rule keeps_bind [OF keeps_read [where Q = "\<lambda>x s. P s \<and> f s = x"]]) auto

lemma keeps_modify: "(\<And>s. P s \<Longrightarrow> Q () (f s)) \<Longrightarrow> keeps P (modifyT f) K Q"
  by (simp add: keeps_def modifyT_def)

lemma keeps_guard: "(\<And>s. P s \<Longrightarrow> b \<Longrightarrow> Q () s) \<Longrightarrow> (\<And>s. P s \<Longrightarrow> K s) \<Longrightarrow> keeps P (guardT b e) K Q"
  by (auto simp: keeps_def guardT_def returnT_def failT_def)

text \<open>After a guard its condition is known.\<close>

lemma keeps_seq_guard:
  "(b \<Longrightarrow> keeps P n K Q) \<Longrightarrow> (\<And>s. P s \<Longrightarrow> K s) \<Longrightarrow> keeps P (seqT (guardT b e) n) K Q"
  by (auto simp: keeps_def seqT_def bindT_def guardT_def returnT_def failT_def)

lemma keeps_defer:
  "keeps P m (\<lambda>s. K (d s)) (\<lambda>x s. Q x (d s)) \<Longrightarrow> keeps P (deferT d m) K Q"
  by (fastforce simp: keeps_def deferT_def split: prod.splits sum.splits)

lemma keeps_catch:
  "keeps P m F Q \<Longrightarrow> (\<And>e. keeps F (h e) K Q) \<Longrightarrow> (\<And>s. F s \<Longrightarrow> K s) \<Longrightarrow> keeps P (catchT m h) K Q"
  by (fastforce simp: keeps_def catchT_def split: prod.splits sum.splits)

lemma keeps_ignore: "keeps P m P (\<lambda>_. P) \<Longrightarrow> (\<And>s. P s \<Longrightarrow> K s) \<Longrightarrow> keeps P (ignoreT m) K (\<lambda>_. P)"
  unfolding ignoreT_def by (rule keeps_catch [where F = P]) (auto intro: keeps_return)

text \<open>A write of the store, applied or not.\<close>

lemma keeps_write:
  assumes "\<And>s e. P s \<Longrightarrow> Q () (s\<lparr>t_env := e, t_store := f (t_store s)\<rparr>)"
    and "\<And>s e. P s \<Longrightarrow> K (s\<lparr>t_env := e\<rparr>)"
    and "\<And>s e. P s \<Longrightarrow> K (s\<lparr>t_env := e, t_store := f (t_store s)\<rparr>)"
  shows "keeps P (storeWrite f) K Q"
  unfolding keeps_def
proof (intro allI impI)
  fix s assume s: "P s"
  obtain x s1 where n: "next_outcome s = (x, s1)" by fastforce
  then obtain e where "s1 = s\<lparr>t_env := e\<rparr>" using next_outcome_env [OF n] by (auto simp: env_step_def)
  with n s assms show "case storeWrite f s of (Inl e, s1) \<Rightarrow> K s1 | (Inr x, s1) \<Rightarrow> Q x s1"
    by (auto simp: storeWrite_def split: outcome.splits nat.splits)
qed

lemma keeps_call:
  assumes "\<And>s e. P s \<Longrightarrow> Q () (s\<lparr>t_env := e\<rparr>)" and "\<And>s e. P s \<Longrightarrow> K (s\<lparr>t_env := e\<rparr>)"
  shows "keeps P (callProxy err) K Q"
  unfolding keeps_def
proof (intro allI impI)
  fix s assume s: "P s"
  obtain x s1 where n: "next_outcome s = (x, s1)" by fastforce
  then obtain e where "s1 = s\<lparr>t_env := e\<rparr>" using next_outcome_env [OF n] by (auto simp: env_step_def)
  with n s assms show "case callProxy err s of (Inl e, s1) \<Rightarrow> K s1 | (Inr x, s1) \<Rightarrow> Q x s1"
    by (auto simp: callProxy_def split: outcome.splits)
qed

text \<open>An operation starts with a context.\<close>

lemma op_inv:
  assumes "keeps (\<lambda>s. topom_inv {} s \<and> filled s \<and> t_hooks s = []) m (topom_inv {}) (\<lambda>_. topom_inv {})" and "topom_inv {} s"
  shows "topom_inv {} (snd (seqT newContext m s))"
proof -
  obtain r s1 where r: "newContext s = (r, s1)" by fastforce
  have "good {} s" using assms(2) by (simp add: topom_inv_def)
  from newContext_ok [OF this r] have
    s1: "topom_inv {} s1" "r = Inr () \<longrightarrow> filled s1 \<and> t_hooks s1 = []"
    using cache_step_inv [OF _ _ assms(2)] by blast+
  show ?thesis
  proof (cases r)
    case (Inr u)
    with r have "seqT newContext m s = m s1" by (simp add: seqT_def bindT_def)
    moreover have "topom_inv {} (snd (m s1))"
      using assms(1) [unfolded keeps_def, rule_format, of s1] s1 Inr by (auto split: prod.splits sum.splits)
    ultimately show ?thesis by simp
  qed (use r s1 in \<open>simp add: seqT_def bindT_def\<close>)
qed

section \<open>Operations that leave the slots alone\<close>

text \<open>
  \<open>grp sl X s\<close>: the state inside an operation that has a context and has not changed the slots \<open>sl\<close> of the
  store; \<open>X\<close> are the hooks that its deferred calls will push.
\<close>

definition grp :: "(int \<rightharpoonup> SlotMapping) \<Rightarrow> hook set \<Rightarrow> Topom \<Rightarrow> bool" where
  "grp sl X s \<longleftrightarrow> topom_inv X s \<and> filled s \<and> t_hooks s = [] \<and> st_slots (t_store s) = sl"

definition quiet :: "(int \<rightharpoonup> SlotMapping) \<Rightarrow> hook set \<Rightarrow> 'a topom_op \<Rightarrow> bool" where
  "quiet sl X m \<longleftrightarrow> keeps (grp sl X) m (topom_inv X) (\<lambda>_. grp sl X)"

definition body :: "(int \<rightharpoonup> SlotMapping) \<Rightarrow> hook set \<Rightarrow> 'a topom_op \<Rightarrow> bool" where
  "body sl X m \<longleftrightarrow> keeps (grp sl X) m (topom_inv X) (\<lambda>_. topom_inv X)"

text \<open>No slot refers to the group.\<close>

definition free :: "(int \<rightharpoonup> SlotMapping) \<Rightarrow> int \<Rightarrow> bool" where
  "free sl gid \<longleftrightarrow> gid = 0 \<or>
     (\<forall>i < MaxSlotNum. sm_GroupId (slot_of sl (int i)) \<noteq> gid \<and> sm_TargetId (slot_of sl (int i)) \<noteq> gid)"

definition slot_free :: "hook set \<Rightarrow> bool" where
  "slot_free X \<longleftrightarrow> HookAll \<notin> X \<and> (\<forall>i. HookSlot i \<notin> X)"

lemma slot_free_simps [simp]:
  "slot_free {}" "slot_free (insert (HookGroup g) X) = slot_free X"
  "slot_free (insert (HookProxy t) X) = slot_free X" "slot_free (insert HookSentinel X) = slot_free X"
  by (auto simp: slot_free_def)

lemma grp_iff:
  "grp sl X s \<longleftrightarrow> t_hooks s = [] \<and> wf_store (t_store s) \<and> coh X s \<and> refs (t_store s) \<and> safe s \<and>
     filled s \<and> st_slots (t_store s) = sl"
  by (auto simp: grp_def topom_inv_def good_def)

lemma grp_inv: "grp sl X s \<Longrightarrow> topom_inv X s"
  by (simp add: grp_def)

lemma op_group:
  assumes "\<And>sl. body sl {} m" and "topom_inv {} s"
  shows "topom_inv {} (snd (seqT newContext m s))"
  using assms(1) unfolding body_def grp_def
  by (intro op_inv [OF _ assms(2)]) (auto simp: keeps_def)

lemma body_quiet: "quiet sl X m \<Longrightarrow> body sl X m"
  unfolding body_def quiet_def by (erule keeps_post) (rule grp_inv)

lemma quiet_return: "quiet sl X (returnT x)"
  unfolding quiet_def by (rule keeps_return)

lemma quiet_fail: "quiet sl X (failT e)"
  unfolding quiet_def by (rule keeps_fail) (rule grp_inv)

lemma quiet_guard: "quiet sl X (guardT b e)"
  unfolding quiet_def by (rule keeps_guard) (auto simp: grp_inv)

lemma quiet_seq: "quiet sl X m \<Longrightarrow> quiet sl X n \<Longrightarrow> quiet sl X (seqT m n)"
  unfolding quiet_def by (rule keeps_seq)

lemma quiet_read: "(\<And>s. grp sl X s \<Longrightarrow> quiet sl X (g (f s))) \<Longrightarrow> quiet sl X (bindT (readT f) g)"
  unfolding quiet_def keeps_def by (fastforce simp: bindT_def readT_def)

lemma quiet_ignore: "keeps (grp sl X) m (grp sl X) (\<lambda>_. grp sl X) \<Longrightarrow> quiet sl X (ignoreT m)"
  unfolding quiet_def by (rule keeps_ignore) (auto simp: grp_inv)

lemma body_seq: "quiet sl X m \<Longrightarrow> body sl X n \<Longrightarrow> body sl X (seqT m n)"
  unfolding body_def quiet_def by (rule keeps_seq)

lemma body_bind: "quiet sl X m \<Longrightarrow> (\<And>x. body sl X (f x)) \<Longrightarrow> body sl X (bindT m f)"
  unfolding body_def quiet_def by (rule keeps_bind [where R = "\<lambda>_. grp sl X"]) blast+

lemma body_guard: "(b \<Longrightarrow> body sl X n) \<Longrightarrow> body sl X (seqT (guardT b e) n)"
  unfolding body_def by (rule keeps_seq_guard) (auto simp: grp_inv)

lemma body_read: "(\<And>s. grp sl X s \<Longrightarrow> body sl X (g (f s))) \<Longrightarrow> body sl X (bindT (readT f) g)"
  unfolding body_def keeps_def by (fastforce simp: bindT_def readT_def)

lemma body_getGroup:
  "(\<And>s g. grp sl X s \<Longrightarrow> lookupGroup gid s = Some g \<Longrightarrow> body sl X (f g)) \<Longrightarrow>
   body sl X (bindT (getGroup gid) f)"
  unfolding body_def keeps_def by (auto simp: bindT_def getGroup_def grp_inv split: option.splits)

lemma body_getGroupIndex:
  assumes "\<And>i. i < length (g_Servers g) \<Longrightarrow> gs_Addr (g_Servers g ! i) = addr \<Longrightarrow> body sl X (f i)"
  shows "body sl X (bindT (getGroupIndex g addr) f)"
proof (cases "indexOfServer (g_Servers g) addr")
  case (Some i)
  with indexOfServer_bound [OF this] assms show ?thesis
    by (simp add: body_def keeps_def bindT_def getGroupIndex_def)
qed (simp add: body_def keeps_def bindT_def getGroupIndex_def grp_inv)

lemma body_getGroupByServer:
  "(\<And>s k g i. grp sl X s \<Longrightarrow> lookupGroup k s = Some g \<Longrightarrow> i < length (g_Servers g) \<Longrightarrow>
     body sl X (f (k, g, i))) \<Longrightarrow> body sl X (bindT (getGroupByServer addr) f)"
  unfolding body_def keeps_def
  by (auto simp: bindT_def getGroupByServer_def grp_inv split: option.splits)
     (fastforce simp: grp_def topom_inv_def dest!: findServer_in dest: ctx_group_in)

lemma body_getProxy:
  "(\<And>s p. grp sl X s \<Longrightarrow> map_of (ctx_proxy s) t = Some p \<Longrightarrow> body sl X (f p)) \<Longrightarrow>
   body sl X (bindT (getProxy t) f)"
  unfolding body_def keeps_def by (auto simp: bindT_def getProxy_def grp_inv split: option.splits)

lemma grp_insert: "grp sl X s \<Longrightarrow> grp sl (insert h X) s"
  by (auto simp: grp_def elim: topom_inv_mono)

lemma body_defer_hook:
  "body sl (insert h X) m \<Longrightarrow> body sl X (deferT (pushHook h) m)"
  unfolding body_def
  by (rule keeps_defer, rule keeps_pre [OF _ grp_insert])
     (auto simp: keeps_def intro: inv_push split: prod.splits sum.splits)

lemmas body_defer =
  body_defer_hook [of _ "HookGroup g", folded dirtyGroupCache_def]
  body_defer_hook [of _ "HookProxy t", folded dirtyProxyCache_def]
  body_defer_hook [of _ HookSentinel, folded dirtySentinelCache_def]
  for g t

text \<open>What a lookup tells about the slots.\<close>

lemma grp_lookup_id: "grp sl X s \<Longrightarrow> lookupGroup gid s = Some g \<Longrightarrow> g_Id g = gid"
  by (auto simp: grp_def topom_inv_def dest: lookupGroup_id)

lemma grp_lookup_free:
  assumes "grp sl X s" and "lookupGroup gid s = Some g" and "\<not> stale X (HookGroup gid)" and "g_Servers g = []"
  shows "free sl gid"
proof -
  from assms(1) have s: "good X s" "filled s" "t_hooks s = []" "refs (t_store s)" "st_slots (t_store s) = sl"
    by (auto simp: grp_def topom_inv_def)
  from lookupGroup_store [OF s(1-3) assms(3)] assms(2) have "map_of (st_group (t_store s)) gid = Some g" by simp
  with s(4,5) assms(4) show ?thesis by (auto simp: refs_def group_ok_def free_def slot_at_slot_of)
qed

subsection \<open>Effects\<close>

lemma topom_inv_env [simp]: "topom_inv X (s\<lparr>t_env := e\<rparr>) = topom_inv X s"
  by (simp add: topom_inv_def good_def safe_def registered_def)

lemma filled_env [simp]: "filled (s\<lparr>t_env := e\<rparr>) = filled s"
  by (simp add: filled_def slots_filled_def)

lemma grp_env [simp]: "grp sl X (s\<lparr>t_env := e\<rparr>) = grp sl X s"
  by (simp add: grp_def)

lemma filled_store [simp]: "filled (s\<lparr>t_store := st\<rparr>) = filled s"
  by (simp add: filled_def slots_filled_def)

lemma quiet_call: "quiet sl X (callProxy e)"
  unfolding quiet_def by (rule keeps_call) (auto simp: grp_inv)

lemma quiet_ignore_call: "quiet sl X (ignoreT (callProxy e))"
  by (rule quiet_ignore, rule keeps_call) auto

text \<open>Updates of the store.\<close>

lemma group_ok_put:
  "group_ok st gid \<Longrightarrow> g_Servers g \<noteq> [] \<or> gid \<noteq> g_Id g \<or> gid = 0 \<Longrightarrow>
   group_ok (st\<lparr>st_group := AList.update (g_Id g) g (st_group st)\<rparr>) gid"
  by (auto simp: group_ok_def update_conv')

lemma slot_at_other [simp]:
  "slot_at (st\<lparr>st_group := a\<rparr>) = slot_at st" "slot_at (st\<lparr>st_proxy := b\<rparr>) = slot_at st"
  "slot_at (st\<lparr>st_sentinel := c\<rparr>) = slot_at st"
  by (auto simp: slot_at_def fun_eq_iff)

text \<open>The groups that the slots refer to are all that matters.\<close>

definition used :: "(int \<rightharpoonup> SlotMapping) \<Rightarrow> int \<Rightarrow> bool" where
  "used sl gid \<longleftrightarrow>
     (\<exists>i < MaxSlotNum. sm_GroupId (slot_of sl (int i)) = gid \<or> sm_TargetId (slot_of sl (int i)) = gid)"

lemma refs_used: "refs st \<longleftrightarrow> (\<forall>gid. used (st_slots st) gid \<longrightarrow> group_ok st gid)"
  by (auto simp: refs_def used_def slot_at_slot_of)

lemma free_used: "free sl gid \<longleftrightarrow> gid = 0 \<or> \<not> used sl gid"
  by (auto simp: free_def used_def)

lemma grp_store_group:
  assumes s: "grp sl X s" and X: "HookGroup (g_Id g) \<in> X" and free: "g_Servers g = [] \<longrightarrow> free sl (g_Id g)"
  shows "grp sl X (s\<lparr>t_env := e, t_store := (t_store s)\<lparr>st_group := AList.update (g_Id g) g (st_group (t_store s))\<rparr>\<rparr>)"
proof -
  let ?st = "(t_store s)\<lparr>st_group := AList.update (g_Id g) g (st_group (t_store s))\<rparr>"
  from s have i: "wf_store (t_store s)" "coh X s" "refs (t_store s)" "safe s" "st_slots (t_store s) = sl"
    by (auto simp: grp_iff)
  have "refs ?st"
    using i(3,5) free unfolding refs_used free_used by (auto intro!: group_ok_put)
  moreover have "wf_store ?st" using i(1) by (simp add: wf_store_def wf_table_update)
  moreover have "map_coh g_Id (\<lambda>k. stale X (HookGroup k)) (st_group ?st) (t_group s)"
    using i(1,2) X by (intro group_table.put_coh) (auto simp: coh_def wf_store_def stale_def)
  ultimately show ?thesis
    using s i by (simp add: grp_iff coh_def safe_def registered_def slots_coh_def)
qed

lemma grp_store_remove_group:
  assumes s: "grp sl X s" and X: "HookGroup gid \<in> X" and free: "free sl gid"
  shows "grp sl X (s\<lparr>t_env := e, t_store := (t_store s)\<lparr>st_group := AList.delete gid (st_group (t_store s))\<rparr>\<rparr>)"
proof -
  let ?st = "(t_store s)\<lparr>st_group := AList.delete gid (st_group (t_store s))\<rparr>"
  from s have i: "wf_store (t_store s)" "coh X s" "refs (t_store s)" "safe s" "st_slots (t_store s) = sl"
    by (auto simp: grp_iff)
  have "refs ?st"
    using i(3,5) free unfolding refs_used free_used by (auto simp: group_ok_def delete_conv')
  moreover have "wf_store ?st" using i(1) by (simp add: wf_store_def wf_table_delete)
  moreover have "map_coh g_Id (\<lambda>k. stale X (HookGroup k)) (st_group ?st) (t_group s)"
    using i(1,2) X by (intro group_table.del_coh) (auto simp: coh_def wf_store_def stale_def)
  ultimately show ?thesis
    using s i by (simp add: grp_iff coh_def safe_def registered_def slots_coh_def)
qed

lemma grp_store_sentinel:
  "grp sl X s \<Longrightarrow> HookSentinel \<in> X \<Longrightarrow>
   grp sl X (s\<lparr>t_env := e, t_store := (t_store s)\<lparr>st_sentinel := Some p\<rparr>\<rparr>)"
  by (simp add: grp_iff coh_def safe_def registered_def slots_coh_def wf_store_def
      refs_def group_ok_def one_coh_def [of True] stale_def)

lemma quiet_write:
  "(\<And>s e. grp sl X s \<Longrightarrow> grp sl X (s\<lparr>t_env := e, t_store := f (t_store s)\<rparr>)) \<Longrightarrow> quiet sl X (storeWrite f)"
  unfolding quiet_def by (rule keeps_write) (auto intro: grp_inv)

lemma quiet_store_group:
  "HookGroup (g_Id g) \<in> X \<Longrightarrow> g_Servers g = [] \<longrightarrow> free sl (g_Id g) \<Longrightarrow> quiet sl X (storeUpdateGroup g)"
  "HookGroup (g_Id g) \<in> X \<Longrightarrow> g_Servers g = [] \<longrightarrow> free sl (g_Id g) \<Longrightarrow> quiet sl X (storeCreateGroup g)"
  "HookGroup (g_Id g) \<in> X \<Longrightarrow> free sl (g_Id g) \<Longrightarrow> quiet sl X (storeRemoveGroup g)"
  by (simp_all add: storeUpdateGroup_def storeCreateGroup_def storeRemoveGroup_def quiet_write
      grp_store_group grp_store_remove_group)

lemma quiet_store_sentinel: "HookSentinel \<in> X \<Longrightarrow> quiet sl X (storeUpdateSentinel p)"
  by (simp add: storeUpdateSentinel_def quiet_write grp_store_sentinel)

text \<open>Assignments to the cache.\<close>

lemma map_filled_update:
  "map_filled c \<Longrightarrow> map_filled (map_option (AList.update k (Some r)) c)"
  by (auto simp: map_filled_def update_conv' simp del: map_of_eq_Some_iff)

lemma quiet_modify: "(\<And>s. grp sl X s \<Longrightarrow> grp sl X (f s)) \<Longrightarrow> quiet sl X (modifyT f)"
  unfolding quiet_def by (rule keeps_modify) (simp_all add: grp_inv)

lemma quiet_setGroup:
  assumes "HookGroup k \<in> X" and "g_Id g = k"
  shows "quiet sl X (modifyT (setGroup k g))"
proof (rule quiet_modify)
  fix s assume s: "grp sl X s"
  then have c: "coh X s" by (simp add: grp_iff)
  have "map_coh g_Id (\<lambda>k. stale X (HookGroup k)) (st_group (t_store s))
      (map_option (AList.update k (Some g)) (t_group s))"
    using c assms by (intro group_table.set_coh) (auto simp: coh_def stale_def)
  with s c show "grp sl X (setGroup k g s)"
    by (simp add: setGroup_def grp_iff coh_def safe_def registered_def filled_def
        slots_filled_def map_filled_update)
qed

lemma quiet_setSentinel: "HookSentinel \<in> X \<Longrightarrow> quiet sl X (modifyT (setSentinel p))"
  by (rule quiet_modify) (simp add: setSentinel_def grp_iff coh_def safe_def registered_def
      filled_def slots_filled_def one_coh_def [of True] stale_def)

lemma quiet_other:
  "quiet sl X (modifyT (removeMaster gid))" "quiet sl X (modifyT (rewatchSentinels xs))"
  by (rule quiet_modify, simp add: removeMaster_def rewatchSentinels_def grp_iff
      coh_def safe_def registered_def filled_def slots_filled_def)+

subsection \<open>Resyncs\<close>

text \<open>What a proxy is told about a slot fits the record it is computed from.\<close>

lemma toSlot_allowed: "toSlot m p s = Some v \<Longrightarrow> allowed m v \<and> sl_Id v = sm_Id m"
  by (auto simp: toSlot_def allowed_def at_group_def migrates_def Let_def split: option.splits ActionState.splits)

definition stored_slots :: "(int \<rightharpoonup> SlotMapping) \<Rightarrow> SlotMapping list \<Rightarrow> bool" where
  "stored_slots sl ms \<longleftrightarrow> (\<forall>m \<in> set ms. m = slot_of sl (sm_Id m))"

lemma toSlotSlice_in:
  "toSlotSlice ms p s = Some l \<Longrightarrow> v \<in> set l \<Longrightarrow> \<exists>m \<in> set ms. toSlot m p s = Some v"
  by (auto simp: toSlotSlice_def Let_def map_filter_def split: if_splits) metis

lemma foldl_view: "foldl (\<lambda>v x. v(sl_Id x \<mapsto> x)) w xs i = Some y \<Longrightarrow> w i = Some y \<or> (y \<in> set xs \<and> sl_Id y = i)"
proof (induction xs arbitrary: w)
  case (Cons a xs)
  from Cons.IH [of "w(sl_Id a \<mapsto> a)"] Cons.prems show ?case by (auto split: if_splits)
qed simp

lemma grp_apply:
  assumes "grp sl X s" and "\<And>v. v \<in> set l \<Longrightarrow> allowed (slot_of sl (sl_Id v)) v"
  shows "grp sl X (applySlots t l s)"
proof -
  from assms(1) have s: "safe s" "st_slots (t_store s) = sl" by (simp_all add: grp_iff)
  have "safe (applySlots t l s)"
    unfolding safe_def
  proof (intro allI impI)
    fix t' i v
    assume r: "registered (applySlots t l s) t'" and v: "t_views (applySlots t l s) t' i = Some v"
    show "allowed (slot_at (t_store (applySlots t l s)) i) v"
    proof (cases "t_views s t' i = Some v")
      case True
      with s r show ?thesis by (auto simp: safe_def applySlots_def registered_def)
    next
      case False
      with v have "v \<in> set l \<and> sl_Id v = i"
        using foldl_view [of "t_views s t'" l i v] by (auto simp: applySlots_def split: if_splits)
      with assms(2) s show ?thesis by (auto simp: slot_at_slot_of applySlots_def)
    qed
  qed
  with assms(1) show ?thesis
    by (simp add: grp_iff coh_def applySlots_def filled_def slots_filled_def)
qed

lemma fillSlots_apply:
  obtains k e where "snd (fillSlots t l s) = applySlots t (take k l) (s\<lparr>t_env := e\<rparr>)"
    "fst (fillSlots t l s) = Inr () \<longrightarrow> take k l = l"
proof (cases "next_outcome s")
  case (Pair x s1)
  then obtain e where e: "s1 = s\<lparr>t_env := e\<rparr>" using next_outcome_env [OF Pair] by (auto simp: env_step_def)
  show ?thesis
  proof (cases x)
    case Done
    with Pair e show ?thesis by (intro that [of "length l" e]) (auto simp: fillSlots_def)
  next
    case (Failed k)
    with Pair e show ?thesis by (intro that [of k e]) (auto simp: fillSlots_def)
  qed
qed

lemma grp_fillSlots:
  assumes "grp sl X s" and "\<And>v. v \<in> set l \<Longrightarrow> allowed (slot_of sl (sl_Id v)) v"
  shows "grp sl X (snd (fillSlots t l s))"
proof (rule fillSlots_apply [of t l s])
  fix k e assume "snd (fillSlots t l s) = applySlots t (take k l) (s\<lparr>t_env := e\<rparr>)"
  then show ?thesis using assms in_set_takeD [of _ k l] by (auto intro!: grp_apply)
qed

lemma toSlotSlice_allowed:
  assumes "toSlotSlice ms p s = Some l" and "stored_slots sl ms" and "v \<in> set l"
  shows "allowed (slot_of sl (sl_Id v)) v"
proof -
  from toSlotSlice_in [OF assms(1,3)] obtain m where m: "m \<in> set ms" "toSlot m p s = Some v" by blast
  with toSlot_allowed [OF m(2)] assms(2) show ?thesis unfolding stored_slots_def by metis
qed

lemma grp_resyncProxies:
  "grp sl X s \<Longrightarrow> stored_slots sl ms \<Longrightarrow> grp sl X (snd (resyncProxies ms ps f s))"
proof (induction ms ps f s rule: resyncProxies.induct)
  case (2 ms k p ps f s)
  show ?case
  proof (cases "toSlotSlice ms (Some p) s")
    case (Some l)
    obtain r s1 where r: "fillSlots (p_Token p) l s = (r, s1)" by fastforce
    with grp_fillSlots [OF "2.prems"(1), of l "p_Token p"] toSlotSlice_allowed [OF Some "2.prems"(2)]
    have "grp sl X s1" by simp
    with "2.IH" [OF Some r [symmetric]] "2.prems" Some r show ?thesis by simp
  qed (use 2 in simp)
qed simp

text \<open>An operation that stays inside on every path, and may be run for its effect alone.\<close>

definition silent :: "(int \<rightharpoonup> SlotMapping) \<Rightarrow> hook set \<Rightarrow> 'a topom_op \<Rightarrow> bool" where
  "silent sl X m \<longleftrightarrow> (\<forall>s. grp sl X s \<longrightarrow> grp sl X (snd (m s)))"

lemma quiet_silent: "silent sl X m \<Longrightarrow> quiet sl X m"
  unfolding silent_def quiet_def keeps_def by (force intro: grp_inv split: prod.splits sum.splits)

lemma quiet_ignore_silent: "silent sl X m \<Longrightarrow> quiet sl X (ignoreT m)"
  by (rule quiet_ignore) (force simp: silent_def keeps_def split: prod.splits sum.splits)

lemma silent_call: "silent sl X (callProxy e)"
  unfolding silent_def callProxy_def
  by (auto simp: env_step_def dest!: next_outcome_env split: prod.splits outcome.splits)

lemma silent_seq: "silent sl X m \<Longrightarrow> silent sl X n \<Longrightarrow> silent sl X (seqT m n)"
  unfolding silent_def seqT_def bindT_def by (force split: prod.splits sum.splits)

lemma silent_resync: "stored_slots sl ms \<Longrightarrow> silent sl X (resyncSlotMappings ms)"
  by (simp add: silent_def resyncSlotMappings_def grp_resyncProxies)

lemma body_catch:
  "silent sl X m \<Longrightarrow> (\<And>e. quiet sl X (h e)) \<Longrightarrow> quiet sl X (catchT m h)"
  unfolding quiet_def
  by (rule keeps_catch [where F = "grp sl X"])
     (force simp: silent_def keeps_def intro: grp_inv split: prod.splits sum.splits)+

lemma ctx_stored:
  assumes "grp sl X s" and "slot_free X"
  shows "stored_slots sl (ctx_slots s)"
  unfolding stored_slots_def
proof
  fix m assume "m \<in> set (ctx_slots s)"
  moreover from assms(1) have s: "good X s" "filled s" "t_hooks s = []" "st_slots (t_store s) = sl"
    by (simp_all add: grp_def topom_inv_def)
  ultimately obtain i where i: "i < MaxSlotNum" "m = ctx_slots s ! i"
    using length_ctx_slots by (metis in_set_conv_nth)
  have "\<not> stale X (HookSlot (int i))" using assms(2) by (auto simp: slot_free_def stale_def)
  from ctx_slots_eq [OF s(1-3) i(1) this] ctx_slots_id [OF s(1,2) i(1)] i s(4)
  show "m = slot_of sl (sm_Id m)" by (simp add: slot_at_slot_of)
qed

lemma stored_filter: "stored_slots sl ms \<Longrightarrow> stored_slots sl (filter f ms)"
  by (auto simp: stored_slots_def)

lemma stored_group: "grp sl X s \<Longrightarrow> slot_free X \<Longrightarrow> stored_slots sl (getSlotMappingsByGroupId gid s)"
  by (simp add: getSlotMappingsByGroupId_def stored_filter ctx_stored)

lemma silent_resync_group: "slot_free X \<Longrightarrow> silent sl X (resyncSlotMappingsByGroupId gid)"
  using silent_resync stored_group by (fastforce simp: silent_def resyncSlotMappingsByGroupId_def)

lemma grp_used_ctx:
  assumes "grp sl X s" and "slot_free X"
  shows "isGroupInUse gid s \<longleftrightarrow> used sl gid"
proof -
  from assms(1) have s: "good X s" "filled s" "t_hooks s = []" "st_slots (t_store s) = sl"
    by (simp_all add: grp_def topom_inv_def)
  have "ctx_slots s ! i = slot_of sl (int i)" if "i < MaxSlotNum" for i
    using ctx_slots_eq [OF s(1-3) that] assms(2) s(4) by (auto simp: slot_free_def stale_def slot_at_slot_of)
  with length_ctx_slots [OF s(1,2)] show ?thesis
    by (auto simp: isGroupInUse_def used_def list_ex_length)
qed

lemma grp_absent_free:
  assumes "grp sl X s" and "lookupGroup gid s = None" and "\<not> stale X (HookGroup gid)"
  shows "free sl gid"
proof -
  from assms(1) have s: "good X s" "filled s" "t_hooks s = []" "refs (t_store s)" "st_slots (t_store s) = sl"
    by (auto simp: grp_def topom_inv_def)
  from lookupGroup_store [OF s(1-3) assms(3)] assms(2) s(4,5) show ?thesis
    by (auto simp: refs_used free_used group_ok_def)
qed

section \<open>Operations on the outside only\<close>

text \<open>
  The calls that tell proxies and servers of an access list or a limit change the outside and the
  record of their result, and nothing the invariant speaks of.
\<close>

definition outside :: "Topom \<Rightarrow> Topom \<Rightarrow> bool" where
  "outside s s1 \<longleftrightarrow>
     s1\<lparr>t_env := t_env s, t_acls := t_acls s, t_limits := t_limits s, t_sent := t_sent s,
        t_aclSync_revision := t_aclSync_revision s, t_aclSync_failed := t_aclSync_failed s\<rparr> = s"

definition outer :: "'a topom_op \<Rightarrow> bool" where
  "outer m \<longleftrightarrow> (\<forall>s. outside s (snd (m s)))"

lemma outside_refl [simp]: "outside s s"
  by (simp add: outside_def)

lemma outside_trans: "outside s s1 \<Longrightarrow> outside s1 s2 \<Longrightarrow> outside s s2"
proof -
  assume 1: "outside s s1" and 2: "outside s1 s2"
  let ?f = "\<lambda>s s1. s1\<lparr>t_env := t_env s, t_acls := t_acls s, t_limits := t_limits s, t_sent := t_sent s,
        t_aclSync_revision := t_aclSync_revision s, t_aclSync_failed := t_aclSync_failed s\<rparr>"
  have "?f s s2 = ?f s (?f s1 s2)" by simp
  also have "\<dots> = s" using 1 2 by (simp only: outside_def)
  finally show ?thesis by (simp only: outside_def)
qed

lemma outside_updates [simp]:
  "outside s (s\<lparr>t_env := e\<rparr>)" "outside s (s\<lparr>t_acls := a\<rparr>)" "outside s (s\<lparr>t_limits := l\<rparr>)"
  "outside s (s\<lparr>t_sent := c\<rparr>)" "outside s (setACLSyncResult r f s)"
  by (simp_all add: outside_def setACLSyncResult_def)

lemma outer_leaves: "outer (returnT x)" "outer (failT e)" "outer (guardT b e)" "outer (readT f)"
    "outer (modifyT (setACLSyncResult r f'))"
  by (simp_all add: outer_def returnT_def failT_def guardT_def readT_def modifyT_def)

lemma outer_call: "outer (callProxy e)"
  by (auto simp: outer_def callProxy_def next_outcome_def split: list.splits outcome.splits)

lemma outer_callWith: "(\<And>s. outside s (f s)) \<Longrightarrow> outer (callWith e f)"
  unfolding outer_def callWith_def next_outcome_def
  by (auto split: list.splits outcome.splits nat.splits intro: outside_trans [OF outside_updates(1)])

lemma outer_bind: "outer m \<Longrightarrow> (\<And>x. outer (f x)) \<Longrightarrow> outer (bindT m f)"
  unfolding outer_def bindT_def by (force split: prod.splits sum.splits intro: outside_trans)

lemma outer_seq: "outer m \<Longrightarrow> outer n \<Longrightarrow> outer (seqT m n)"
  unfolding seqT_def by (rule outer_bind)

lemma outer_catch: "outer m \<Longrightarrow> (\<And>e. outer (h e)) \<Longrightarrow> outer (catchT m h)"
  unfolding outer_def catchT_def by (force split: prod.splits sum.splits intro: outside_trans)

lemma outer_if: "outer m \<Longrightarrow> outer n \<Longrightarrow> outer (if b then m else n)"
  by simp

lemma outer_option: "outer m \<Longrightarrow> (\<And>x. outer (f x)) \<Longrightarrow> outer (case z of None \<Rightarrow> m | Some x \<Rightarrow> f x)"
  by (cases z) simp_all

lemma outer_pair: "(\<And>x y. outer (f x y)) \<Longrightarrow> outer (case z of (x, y) \<Rightarrow> f x y)"
  by (cases z) simp

lemmas outer_rules = outer_leaves outer_call outer_if outer_option outer_pair outer_catch outer_seq outer_bind

lemma outer_told: "outer (SetACL t acl)" "outer (SetQPSLimit t r l)" "outer (redisACL addr args)"
  by (simp_all add: SetACL_def SetQPSLimit_def redisACL_def outer_callWith)

lemma outer_setUsers: "outer (setUsers addr us)"
  by (induction us) (auto simp: redisACLSetUser_def intro!: outer_rules outer_told)

lemma outer_delUsers: "outer (delUsers addr names)"
  by (induction names) (auto simp: redisACLSetUser_def intro!: outer_rules outer_told)

lemma outer_syncACLToRedisServer: "outer (syncACLToRedisServer addr acl current)"
  unfolding syncACLToRedisServer_def ensureBackendServiceUser_def
  by (intro outer_rules outer_told outer_setUsers outer_delUsers)

lemma outer_syncACLToRedis: "outer (syncACLToRedis acl)"
proof -
  have "outer (syncServers addrs acl current)" for addrs current
    by (induction addrs) (auto intro!: outer_rules outer_syncACLToRedisServer)
  then show ?thesis unfolding syncACLToRedis_def by (intro outer_rules)
qed

lemma outer_finishACL: "outer (finishACL acl)"
proof -
  have "outer (aclToProxies tokens acl)" for tokens
    by (induction tokens) (auto intro!: outer_rules outer_told)
  then show ?thesis unfolding finishACL_def syncACLToProxies_def by (intro outer_rules)
qed

lemma outer_syncProxyQPSLimitToProxies: "outer (syncProxyQPSLimitToProxies config)"
proof -
  have "outer (limitToProxies tokens config)" for tokens
    by (induction tokens) (auto intro!: outer_rules outer_told)
  then show ?thesis unfolding syncProxyQPSLimitToProxies_def by (intro outer_rules)
qed

lemma outside_inv:
  assumes "outside s s1"
  shows "topom_inv X s1 = topom_inv X s" "grp sl X s1 = grp sl X s"
proof -
  let ?s = "s1\<lparr>t_env := t_env s, t_acls := t_acls s, t_limits := t_limits s, t_sent := t_sent s,
        t_aclSync_revision := t_aclSync_revision s, t_aclSync_failed := t_aclSync_failed s\<rparr>"
  have "topom_inv X ?s = topom_inv X s1"
    by (simp add: topom_inv_def good_def coh_def safe_def registered_def)
  moreover have "grp sl X ?s = grp sl X s1"
    by (simp add: grp_iff coh_def safe_def registered_def filled_def slots_filled_def)
  moreover have "?s = s" using assms by (simp only: outside_def)
  ultimately show "topom_inv X s1 = topom_inv X s" "grp sl X s1 = grp sl X s" by simp_all
qed

lemma outer_silent: "outer m \<Longrightarrow> silent sl X m"
  unfolding outer_def silent_def using outside_inv(2) by blast

lemma outer_quiet: "outer m \<Longrightarrow> quiet sl X m"
  by (intro quiet_silent outer_silent)

lemma outer_inv: "outer m \<Longrightarrow> topom_inv X (snd (m s)) = topom_inv X s"
  by (rule outside_inv) (simp add: outer_def)

end
