(* ===== verification/GroupInv.thy ===== *)
theory GroupInv
  imports Logic
begin

text \<open>
  The operations on groups, sentinels and proxies keep the invariant, whatever fails: each proof
  follows the text of the operation through the rules of the logic.
\<close>

lemma seq_guard: "seqT (guardT b e) n = (if b then n else failT e)"
  by (auto simp: seqT_def bindT_def guardT_def returnT_def failT_def fun_eq_iff)

lemma body_if: "(b \<Longrightarrow> body sl X m) \<Longrightarrow> (\<not> b \<Longrightarrow> body sl X n) \<Longrightarrow> body sl X (if b then m else n)"
  by simp

lemma quiet_if: "(b \<Longrightarrow> quiet sl X m) \<Longrightarrow> (\<not> b \<Longrightarrow> quiet sl X n) \<Longrightarrow> quiet sl X (if b then m else n)"
  by simp

lemma body_option:
  "(x = None \<Longrightarrow> body sl X m) \<Longrightarrow> (\<And>y. x = Some y \<Longrightarrow> body sl X (f y)) \<Longrightarrow>
   body sl X (case x of None \<Rightarrow> m | Some y \<Rightarrow> f y)"
  by (cases x) auto

lemmas quiet_leaves = quiet_return quiet_fail quiet_guard quiet_call quiet_ignore_call quiet_store_group
  quiet_store_sentinel quiet_setGroup quiet_setSentinel quiet_other
  quiet_silent [OF silent_resync] quiet_silent [OF silent_resync_group]

lemmas body_rules = body_seq body_read body_getGroup body_getGroupIndex body_getGroupByServer
  body_getProxy body_defer body_if quiet_if body_option quiet_leaves quiet_leaves [THEN body_quiet]

lemma CreateGroup_inv: "topom_inv {} s \<Longrightarrow> topom_inv {} (snd (CreateGroup gid s))"
  unfolding CreateGroup_def seq_guard
  by (erule op_group [rotated], intro body_rules)
    (auto simp: Group_of_def stale_def intro: grp_absent_free)

lemma RemoveGroup_inv: "topom_inv {} s \<Longrightarrow> topom_inv {} (snd (RemoveGroup gid s))"
  unfolding RemoveGroup_def seq_guard
  by (erule op_group [rotated], intro body_rules)
    (auto simp: stale_def grp_lookup_id intro: grp_lookup_free)

lemma ResyncGroup_inv: "topom_inv {} s \<Longrightarrow> topom_inv {} (snd (ResyncGroup gid s))"
  unfolding ResyncGroup_def Let_def seq_guard
  by (erule op_group [rotated], intro body_rules)
    (auto simp: stale_def grp_lookup_id intro: grp_lookup_free)

text \<open>A group as the context has it: under its key, and not empty when a slot refers to it.\<close>

definition sound_group :: "(int \<rightharpoonup> SlotMapping) \<Rightarrow> int \<Rightarrow> Group \<Rightarrow> bool" where
  "sound_group sl k g \<longleftrightarrow> g_Id g = k \<and> (g_Servers g = [] \<longrightarrow> free sl k)"

lemma grp_lookup_sound:
  "grp sl X s \<Longrightarrow> lookupGroup k s = Some g \<Longrightarrow> \<not> stale X (HookGroup k) \<Longrightarrow> sound_group sl k g"
  by (auto simp: sound_group_def grp_lookup_id intro: grp_lookup_free)

lemma grp_ctx_sound:
  "grp sl {} s \<Longrightarrow> (k, g) \<in> set (ctx_group s) \<Longrightarrow> sound_group sl k g"
  by (rule grp_lookup_sound) (auto simp: grp_def topom_inv_def stale_def dest: ctx_group_in)

lemma resyncGroups_body:
  "slot_free X \<Longrightarrow> (\<And>k g. (k, g) \<in> set gs \<Longrightarrow> sound_group sl k g) \<Longrightarrow> body sl X (resyncGroups gs)"
proof (induction gs arbitrary: X)
  case (Cons kg gs)
  obtain k g where kg: "kg = (k, g)" by fastforce
  with Cons.prems(2) [of k g] have "sound_group sl k g" by simp
  then show ?case
    unfolding kg resyncGroups.simps prod.case Let_def
    using Cons.prems by (intro body_rules Cons.IH) (auto simp: sound_group_def)
qed (simp add: body_rules)

lemma ResyncGroupAll_inv: "topom_inv {} s \<Longrightarrow> topom_inv {} (snd (ResyncGroupAll s))"
  unfolding ResyncGroupAll_def
  by (erule op_group [rotated], intro body_rules resyncGroups_body) (auto intro: grp_ctx_sound)

lemma markSentinel_body:
  "body sl X rest \<Longrightarrow> body sl (insert HookSentinel X) rest \<Longrightarrow> body sl X (markSentinel rest)"
  unfolding markSentinel_def Let_def by (intro body_rules) auto

lemma quiet_syncACLToRedisAddr: "quiet sl X (syncACLToRedisAddr addr acl)"
  unfolding syncACLToRedisAddr_def by (intro outer_quiet outer_rules outer_syncACLToRedisServer)

lemma GroupAddServer_inv: "topom_inv {} s \<Longrightarrow> topom_inv {} (snd (GroupAddServer gid dc addr s))"
  unfolding GroupAddServer_def Let_def seq_guard
  by (erule op_group [rotated], intro body_rules markSentinel_body quiet_syncACLToRedisAddr)
    (auto simp: grp_lookup_id)

lemma removeAt_nil: "i < length xs \<Longrightarrow> removeAt i xs = [] \<longleftrightarrow> length xs = 1"
  by (cases xs; cases i) (auto simp: removeAt_def)

lemma GroupDelServer_inv: "topom_inv {} s \<Longrightarrow> topom_inv {} (snd (GroupDelServer gid addr s))"
  unfolding GroupDelServer_def Let_def seq_guard
  by (erule op_group [rotated], intro body_rules markSentinel_body)
    (auto simp: grp_lookup_id removeAt_nil grp_used_ctx free_used)

section \<open>Promotion\<close>

lemma promoteServers_nonempty: "promoteServers i xs \<noteq> []"
  by (simp add: promoteServers_def)

lemma promoteFromFinished_body:
  "slot_free X \<Longrightarrow> sound_group sl gid g \<Longrightarrow> body sl X (promoteFromFinished g)"
  unfolding promoteFromFinished_def
  by (intro body_rules) (auto simp: Group_of_def sound_group_def)

lemma promoteFromPrepared_body:
  assumes "slot_free X" and "sound_group sl gid g"
  shows "body sl X (promoteFromPrepared gid g)"
proof -
  have g: "g_Id g = gid" using assms(2) by (simp add: sound_group_def)
  have silent: "silent sl Y (seqT (callProxy UpdateFailed) (callProxy UpdateFailed))" for Y
    by (intro silent_seq silent_call)
  show ?thesis
    unfolding promoteFromPrepared_def Let_def
    by (intro body_rules promoteFromFinished_body quiet_ignore_silent silent)
      (auto simp: assms(1) g promoteServers_nonempty sound_group_def)
qed

lemma promoteFromPreparing_body:
  assumes "slot_free X" and "sound_group sl gid g"
  shows "body sl X (promoteFromPreparing gid g)"
  unfolding promoteFromPreparing_def Let_def
  using assms by (intro body_rules body_catch quiet_seq silent_resync quiet_ignore_silent promoteFromPrepared_body)
    (auto simp: sound_group_def intro: stored_group)

lemma promoteFromNothing_body:
  assumes "slot_free X" and "sound_group sl gid g"
  shows "body sl X (promoteFromNothing gid g i)"
  unfolding promoteFromNothing_def Let_def
  using assms by (intro body_rules promoteFromPreparing_body) (auto simp: sound_group_def)

lemma GroupPromoteServer_inv: "topom_inv {} s \<Longrightarrow> topom_inv {} (snd (GroupPromoteServer gid addr s))"
proof (unfold GroupPromoteServer_def seq_guard, erule op_group [rotated])
  fix sl
  have *: "body sl {} (case st of
       ActionNothing \<Rightarrow> promoteFromNothing gid g index | ActionPreparing \<Rightarrow> promoteFromPreparing gid g
     | ActionPrepared \<Rightarrow> promoteFromPrepared gid g | ActionFinished \<Rightarrow> promoteFromFinished g
     | _ \<Rightarrow> failT (GroupStateInvalid gid))" if "sound_group sl gid g" for st g index
    using that by (cases st)
      (auto intro: promoteFromNothing_body promoteFromPreparing_body promoteFromPrepared_body
        promoteFromFinished_body body_rules)
  show "body sl {} (bindT (getGroup gid) (\<lambda>g. bindT (getGroupIndex g addr) (\<lambda>index.
      seqT (if g_PromState g \<noteq> ActionNothing
            then guardT (int index = g_PromIndex g) (GroupPromoteIndex (g_Id g))
            else guardT (index \<noteq> 0) (GroupPromoteMaster (g_Id g)))
        (bindT (readT t_executor) (\<lambda>n.
           if n = 0 then
             (case g_PromState g of
                ActionNothing \<Rightarrow> promoteFromNothing gid g index
              | ActionPreparing \<Rightarrow> promoteFromPreparing gid g
              | ActionPrepared \<Rightarrow> promoteFromPrepared gid g
              | ActionFinished \<Rightarrow> promoteFromFinished g
              | _ \<Rightarrow> failT (GroupStateInvalid gid))
           else failT (MigrationRunning n))))))"
    by (intro body_rules *) (auto simp: stale_def intro: grp_lookup_sound)
qed

lemma findMaster_bound: "findMaster runid xs a = Some i \<Longrightarrow> i < length xs"
  by (auto simp: findMaster_def find_Some_iff dest: indexOfServer_bound split: option.splits)

lemma trySwitchGroupMaster_inv: "topom_inv {} s \<Longrightarrow> topom_inv {} (snd (trySwitchGroupMaster gid a runid s))"
  unfolding trySwitchGroupMaster_def Let_def
  by (erule op_group [rotated], intro body_rules) (auto simp: grp_lookup_id dest: findMaster_bound)

section \<open>Replica groups and synchronization\<close>

lemma EnableReplicaGroups_inv: "topom_inv {} s \<Longrightarrow> topom_inv {} (snd (EnableReplicaGroups gid a b s))"
  unfolding EnableReplicaGroups_def Let_def seq_guard
  by (erule op_group [rotated], intro body_rules) (auto simp: grp_lookup_id)

lemma enableReplicaGroups_body:
  "slot_free X \<Longrightarrow> (\<And>k g. (k, g) \<in> set gs \<Longrightarrow> sound_group sl k g) \<Longrightarrow> body sl X (enableReplicaGroups gs val)"
proof (induction gs arbitrary: X)
  case (Cons kg gs)
  obtain k g where kg: "kg = (k, g)" by fastforce
  with Cons.prems(2) [of k g] have "sound_group sl k g" by simp
  then show ?case
    unfolding kg enableReplicaGroups.simps prod.case Let_def seq_guard
    using Cons.prems by (intro body_rules Cons.IH) (auto simp: sound_group_def)
qed (simp add: body_rules)

lemma EnableReplicaGroupsAll_inv: "topom_inv {} s \<Longrightarrow> topom_inv {} (snd (EnableReplicaGroupsAll b s))"
  unfolding EnableReplicaGroupsAll_def
  by (erule op_group [rotated], intro body_rules enableReplicaGroups_body) (auto intro: grp_ctx_sound)

lemma setServer_simps [simp]: "g_Id (setServer g i n st) = g_Id g" "g_Servers (setServer g i n st) = [] \<longleftrightarrow> g_Servers g = []"
  by (simp_all add: setServer_def)

lemma SyncCreateAction_inv: "topom_inv {} s \<Longrightarrow> topom_inv {} (snd (SyncCreateAction addr s))"
  unfolding SyncCreateAction_def Let_def seq_guard
  by (erule op_group [rotated], rule body_getGroupByServer, unfold prod.case, intro body_rules)
    (auto simp: grp_lookup_id)

lemma SyncRemoveAction_inv: "topom_inv {} s \<Longrightarrow> topom_inv {} (snd (SyncRemoveAction addr s))"
  unfolding SyncRemoveAction_def Let_def seq_guard
  by (erule op_group [rotated], rule body_getGroupByServer, unfold prod.case, intro body_rules)
    (auto simp: grp_lookup_id)

lemma SyncActionPrepare_inv: "topom_inv {} s \<Longrightarrow> topom_inv {} (snd (SyncActionPrepare s))"
  unfolding SyncActionPrepare_def Let_def seq_guard
  by (erule op_group [rotated], rule body_read, rule body_if, intro body_rules, rule body_getGroupByServer,
      unfold prod.case, intro body_rules) (auto simp: grp_lookup_id)

lemma body_findServer:
  assumes "body sl X m" and "\<And>s k g i. grp sl X s \<Longrightarrow> lookupGroup k s = Some g \<Longrightarrow>
      i < length (g_Servers g) \<Longrightarrow> body sl X (f k g i)"
  shows "body sl X (bindT (readT (\<lambda>s. findServer (ctx_group s) addr)) (\<lambda>x.
      case x of None \<Rightarrow> m | Some (k, g, i) \<Rightarrow> f k g i))"
proof (rule body_read, rule body_option)
  fix s y assume s: "grp sl X s" and "findServer (ctx_group s) addr = Some y"
  then obtain k g i where "y = (k, g, i)" "(k, g) \<in> set (ctx_group s)" "i < length (g_Servers g)"
    by (cases y) (auto dest: findServer_in)
  moreover from this s have "lookupGroup k s = Some g" by (auto simp: grp_def topom_inv_def dest: ctx_group_in)
  ultimately show "body sl X (case y of (k, g, i) \<Rightarrow> f k g i)" using s assms(2) by simp
qed (rule assms(1))

lemma SyncActionComplete_inv: "topom_inv {} s \<Longrightarrow> topom_inv {} (snd (SyncActionComplete addr failed s))"
  unfolding SyncActionComplete_def Let_def
  by (erule op_group [rotated], intro body_findServer body_rules) (auto simp: grp_lookup_id)

lemma newSyncActionExecutor_inv: "topom_inv {} s \<Longrightarrow> topom_inv {} (snd (newSyncActionExecutor addr s))"
  unfolding newSyncActionExecutor_def
  by (erule op_group [rotated], intro body_findServer body_rules)

section \<open>Sentinels and the life cycle\<close>

lemma AddSentinel_inv: "topom_inv {} s \<Longrightarrow> topom_inv {} (snd (AddSentinel addr s))"
  unfolding AddSentinel_def Let_def seq_guard
  by (erule op_group [rotated], intro body_rules) auto

lemma DelSentinel_inv: "topom_inv {} s \<Longrightarrow> topom_inv {} (snd (DelSentinel addr force s))"
  unfolding DelSentinel_def Let_def seq_guard
  by (erule op_group [rotated], intro body_rules) auto

lemma quiet_setSentinels: "quiet sl X (setSentinels ps f)"
proof (induction ps arbitrary: f)
  case (Cons p ps)
  have "quiet sl X (\<lambda>s. case callProxy ResyncFailed s of (r, s1) \<Rightarrow> (Inr (isl r), s1))"
    using silent_call [of sl X ResyncFailed] by (force simp: quiet_def keeps_def silent_def split: prod.splits)
  then show ?case
    unfolding setSentinels.simps quiet_def
    by (rule keeps_bind) (use Cons.IH in \<open>simp add: quiet_def\<close>)
qed (simp add: quiet_leaves)

lemma ResyncSentinels_inv: "topom_inv {} s \<Longrightarrow> topom_inv {} (snd (ResyncSentinels s))"
  unfolding ResyncSentinels_def Let_def
  by (erule op_group [rotated], intro body_rules quiet_setSentinels) auto

lemma Reload_inv: "topom_inv {} s \<Longrightarrow> topom_inv {} (snd (Reload s))"
  unfolding Reload_def dirtyCacheAll_def
  by (erule op_group [rotated], intro body_defer_hook body_rules)

lemma topom_inv_other [simp]:
  "topom_inv X (s\<lparr>t_masters := a\<rparr>) = topom_inv X s" "topom_inv X (s\<lparr>t_online := b\<rparr>) = topom_inv X s"
  "topom_inv X (s\<lparr>t_closed := b\<rparr>) = topom_inv X s" "topom_inv X (s\<lparr>t_interval := i\<rparr>) = topom_inv X s"
  "topom_inv X (s\<lparr>t_disabled := b\<rparr>) = topom_inv X s" "topom_inv X (s\<lparr>t_executor := i\<rparr>) = topom_inv X s"
  "topom_inv X (s\<lparr>t_dns := d\<rparr>) = topom_inv X s"
  by (simp_all add: topom_inv_def good_def coh_def safe_def registered_def)

lemma switchMasters_inv: "topom_inv {} s \<Longrightarrow> topom_inv {} (snd (switchMasters ms runid s))"
proof (induction ms arbitrary: s)
  case (Cons m ms)
  obtain r s1 where r: "trySwitchGroupMaster (fst m) (snd m) runid s = (r, s1)" by fastforce
  with trySwitchGroupMaster_inv [OF Cons.prems, of "fst m" "snd m" runid] have "topom_inv {} s1" by simp
  with r Cons.IH [of s1] show ?case
    by (auto simp: seqT_def bindT_def ignoreT_def catchT_def returnT_def split: sum.splits)
qed (simp add: returnT_def)

lemma SwitchMasters_inv: "topom_inv {} s \<Longrightarrow> topom_inv {} (snd (SwitchMasters ms runid s))"
  by (simp add: SwitchMasters_def seq_guard bindT_def readT_def failT_def)
    (simp add: seqT_def bindT_def modifyT_def switchMasters_inv)

lemma callProxy_inv: "topom_inv {} s \<Longrightarrow> topom_inv {} (snd (callProxy e s))"
  by (auto simp: callProxy_def env_step_def dest!: next_outcome_env split: prod.splits outcome.splits)

lemma newContext_inv: "topom_inv {} s \<Longrightarrow> topom_inv {} (snd (newContext s))"
  using newContext_ok [of s "fst (newContext s)" "snd (newContext s)"] cache_step_inv
  by (auto simp: topom_inv_def)

lemma Close_inv: "topom_inv {} s \<Longrightarrow> topom_inv {} (snd (Close s))"
  by (simp add: Close_def seqT_def bindT_def readT_def modifyT_def returnT_def callProxy_inv)

lemma Start_inv: "topom_inv {} s \<Longrightarrow> topom_inv {} (snd (Start routines s))"
proof -
  assume s: "topom_inv {} s"
  obtain r s1 where r: "callProxy StoreLockFailed s = (r, s1)" by fastforce
  with callProxy_inv [OF s, of StoreLockFailed] have s1: "topom_inv {} (s1\<lparr>t_online := True\<rparr>)" "topom_inv {} s1"
    by simp_all
  have "topom_inv {} (snd (seqT newContext (bindT (readT ctx_sentinel) (\<lambda>p.
      modifyT (rewatchSentinels (sn_Servers p)))) (s1\<lparr>t_online := True\<rparr>)))"
    using s1(1) by (rule op_group [rotated]) (intro body_rules)
  with s s1 r show ?thesis
    by (auto simp: Start_def seq_guard bindT_def [of "readT _"] readT_def returnT_def failT_def)
      (auto simp: seqT_def bindT_def modifyT_def returnT_def split: sum.splits)
qed

section \<open>Proxies\<close>

text \<open>A proxy that registers has been told nothing yet, unless it is registered already.\<close>

definition fresh :: "string \<Rightarrow> Topom \<Rightarrow> bool" where
  "fresh t s \<longleftrightarrow> registered s t \<or> t_views s t = Map.empty"

lemma fresh_env [simp]: "fresh t (s\<lparr>t_env := e\<rparr>) = fresh t s"
  by (simp add: fresh_def registered_def)

lemma op_proxy:
  assumes "\<And>sl. keeps (\<lambda>s. grp sl {} s \<and> fresh t s) m (topom_inv {}) (\<lambda>_. topom_inv {})"
    and "topom_inv {} s" and "fresh t s"
  shows "topom_inv {} (snd (seqT newContext m s))"
proof -
  obtain r s1 where r: "newContext s = (r, s1)" by fastforce
  have "good {} s" using assms(2) by (simp add: topom_inv_def)
  from newContext_ok [OF this r] have
    s1: "topom_inv {} s1" "r = Inr () \<longrightarrow> filled s1 \<and> t_hooks s1 = []" "cache_step s s1"
    using cache_step_inv [OF _ _ assms(2)] by blast+
  show ?thesis
  proof (cases r)
    case (Inr u)
    with r have "seqT newContext m s = m s1" by (simp add: seqT_def bindT_def)
    moreover have "fresh t s1" using assms(3) cache_step_fields [OF s1(3)] by (simp add: fresh_def registered_def)
    with s1 Inr have "topom_inv {} (snd (m s1))"
      using assms(1) [unfolded keeps_def, rule_format, of _ s1] by (auto simp: grp_def split: prod.splits sum.splits)
    ultimately show ?thesis by simp
  qed (use r s1 in \<open>simp add: seqT_def bindT_def\<close>)
qed

lemma grp_store_proxy:
  assumes s: "grp sl X s" "fresh (p_Token p) s" and X: "HookProxy (p_Token p) \<in> X"
  shows "grp sl X (s\<lparr>t_env := e, t_store := (t_store s)\<lparr>st_proxy := AList.update (p_Token p) p (st_proxy (t_store s))\<rparr>\<rparr>)"
proof -
  let ?st = "(t_store s)\<lparr>st_proxy := AList.update (p_Token p) p (st_proxy (t_store s))\<rparr>"
  from s have i: "wf_store (t_store s)" "coh X s" "refs (t_store s)" "safe s" "st_slots (t_store s) = sl"
    by (auto simp: grp_iff)
  have "map_coh p_Token (\<lambda>k. stale X (HookProxy k)) (st_proxy ?st) (t_proxy s)"
    using i(1,2) X by (intro proxy_table.put_coh) (auto simp: coh_def wf_store_def stale_def)
  moreover have "wf_store ?st" using i(1) by (simp add: wf_store_def wf_table_update)
  moreover have "refs ?st" using i(3) by (simp add: refs_def group_ok_def)
  moreover have "safe (s\<lparr>t_env := e, t_store := ?st\<rparr>)"
    using i(4) s(2) by (auto simp: safe_def registered_def fresh_def update_conv' split: if_splits)
  ultimately show ?thesis
    using s i by (simp add: grp_iff coh_def slots_coh_def)
qed

lemma quiet_store_proxy:
  "HookProxy (p_Token p) \<in> X \<Longrightarrow>
   keeps (\<lambda>s. grp sl X s \<and> fresh (p_Token p) s) (storeCreateProxy p) (topom_inv X) (\<lambda>_. grp sl X)"
  "HookProxy (p_Token p) \<in> X \<Longrightarrow>
   keeps (\<lambda>s. grp sl X s \<and> fresh (p_Token p) s) (storeUpdateProxy p) (topom_inv X) (\<lambda>_. grp sl X)"
  unfolding storeCreateProxy_def storeUpdateProxy_def
  by (rule keeps_write; auto intro: grp_store_proxy grp_inv)+

lemma quiet_remove_proxy:
  assumes X: "HookProxy (p_Token p) \<in> X"
  shows "quiet sl X (storeRemoveProxy p)"
  unfolding storeRemoveProxy_def
proof (rule quiet_write)
  fix s e assume s: "grp sl X s"
  let ?st = "(t_store s)\<lparr>st_proxy := AList.delete (p_Token p) (st_proxy (t_store s))\<rparr>"
  from s have i: "wf_store (t_store s)" "coh X s" "refs (t_store s)" "safe s" "st_slots (t_store s) = sl"
    by (auto simp: grp_iff)
  have "map_coh p_Token (\<lambda>k. stale X (HookProxy k)) (st_proxy ?st) (t_proxy s)"
    using i(1,2) X by (intro proxy_table.del_coh) (auto simp: coh_def wf_store_def stale_def)
  moreover have "wf_store ?st" using i(1) by (simp add: wf_store_def wf_table_delete)
  moreover have "refs ?st" using i(3) by (simp add: refs_def group_ok_def)
  moreover have "safe (s\<lparr>t_env := e, t_store := ?st\<rparr>)"
    using i(4) by (auto simp: safe_def registered_def delete_conv' split: if_splits)
  ultimately show "grp sl X (s\<lparr>t_env := e, t_store := ?st\<rparr>)"
    using s i by (simp add: grp_iff coh_def slots_coh_def)
qed

lemma reinitProxy_body:
  assumes "slot_free X"
  shows "body sl X (reinitProxy p)"
  unfolding reinitProxy_def
proof (intro body_read body_option body_rules)
  fix s l assume s: "grp sl X s" and l: "toSlotSlice (ctx_slots s) (Some p) s = Some l"
  have "silent sl X (fillSlots (p_Token p) l)"
    using toSlotSlice_allowed [OF l ctx_stored [OF s assms]] grp_fillSlots by (auto simp: silent_def)
  then show "quiet sl X (fillSlots (p_Token p) l)" by (rule quiet_silent)
qed (intro outer_quiet outer_rules outer_told)+

lemma bind_fetchModel:
  "bindT (fetchModel p) f = seqT (callProxy ProxyFetchFailed) (seqT (callProxy ProxyAuthFailed) (f p))"
  by (auto simp: fetchModel_def seqT_def bindT_def returnT_def fun_eq_iff split: prod.splits sum.splits)

lemma keeps_fresh_call:
  "keeps (\<lambda>s. grp sl {} s \<and> fresh t s) (callProxy e) (topom_inv {}) (\<lambda>_ s. grp sl {} s \<and> fresh t s)"
  by (rule keeps_call) (auto simp: grp_inv)

lemma store_reinit:
  assumes "keeps (\<lambda>s. grp sl {HookProxy t} s \<and> fresh t s) m (topom_inv {HookProxy t}) (\<lambda>_. grp sl {HookProxy t})"
  shows "keeps (\<lambda>s. grp sl {} s \<and> fresh t s) (deferT (dirtyProxyCache t) (seqT m (reinitProxy p)))
     (topom_inv {}) (\<lambda>_. topom_inv {})"
proof (rule keeps_defer, rule keeps_pre)
  have "body sl {HookProxy t} (reinitProxy p)" by (rule reinitProxy_body) simp
  from keeps_seq [OF assms this [unfolded body_def]]
  show "keeps (\<lambda>s. grp sl {HookProxy t} s \<and> fresh t s) (seqT m (reinitProxy p))
     (\<lambda>s. topom_inv {} (dirtyProxyCache t s)) (\<lambda>_ s. topom_inv {} (dirtyProxyCache t s))"
    unfolding dirtyProxyCache_def by (auto simp: keeps_def intro!: inv_push split: prod.splits sum.splits)
qed (auto intro: grp_insert)

lemma keeps_any_read: "(\<And>x. keeps P (g x) K Q) \<Longrightarrow> keeps P (bindT (readT f) g) K Q"
  by (simp add: keeps_def bindT_def readT_def)

lemma store_proxy:
  "keeps (\<lambda>s. grp sl {} s \<and> fresh (p_Token p) s)
     (deferT (dirtyProxyCache (p_Token p)) (seqT (storeCreateProxy (p\<lparr>p_Id := n\<rparr>)) (reinitProxy (p\<lparr>p_Id := n\<rparr>))))
     (topom_inv {}) (\<lambda>_. topom_inv {})"
  "keeps (\<lambda>s. grp sl {} s \<and> fresh (p_Token p) s)
     (deferT (dirtyProxyCache (p_Token p)) (seqT (storeUpdateProxy (p\<lparr>p_Id := n\<rparr>)) (reinitProxy (p\<lparr>p_Id := n\<rparr>))))
     (topom_inv {}) (\<lambda>_. topom_inv {})"
  using store_reinit [OF quiet_store_proxy(1) [of "p\<lparr>p_Id := n\<rparr>"]]
    store_reinit [OF quiet_store_proxy(2) [of "p\<lparr>p_Id := n\<rparr>"]] by simp_all

lemma CreateProxy_inv:
  assumes "topom_inv {} s" and "fresh (p_Token p) s"
  shows "topom_inv {} (snd (CreateProxy p s))"
  unfolding CreateProxy_def bind_fetchModel Let_def
proof (rule op_proxy [OF _ assms], intro keeps_seq [OF keeps_fresh_call] keeps_any_read)
  fix sl d
  show "keeps (\<lambda>s. grp sl {} s \<and> fresh (p_Token p) s) (case d of
       None \<Rightarrow> bindT (readT maxProxyId)
         (\<lambda>n. deferT (dirtyProxyCache (p_Token (p\<lparr>p_Id := n + 1\<rparr>)))
            (seqT (storeCreateProxy (p\<lparr>p_Id := n + 1\<rparr>)) (reinitProxy (p\<lparr>p_Id := n + 1\<rparr>))))
     | Some _ \<Rightarrow> failT (ProxyExists (p_Token p))) (topom_inv {}) (\<lambda>_. topom_inv {})"
    by (cases d) (auto intro!: keeps_any_read store_proxy keeps_fail grp_inv)
qed

lemma OnlineProxy_inv:
  assumes "topom_inv {} s" and "fresh (p_Token p) s"
  shows "topom_inv {} (snd (OnlineProxy p s))"
  unfolding OnlineProxy_def bind_fetchModel Let_def
proof (rule op_proxy [OF _ assms], intro keeps_seq [OF keeps_fresh_call])
  fix sl
  show "keeps (\<lambda>s. grp sl {} s \<and> fresh (p_Token p) s) (deferT (dirtyProxyCache (p_Token p))
      (bindT (readT (\<lambda>s. (map_of (ctx_proxy s) (p_Token p), maxProxyId s))) (\<lambda>(d, n).
         case d of
           None \<Rightarrow> seqT (storeCreateProxy (p\<lparr>p_Id := n + 1\<rparr>)) (reinitProxy (p\<lparr>p_Id := n + 1\<rparr>))
         | Some q \<Rightarrow> seqT (storeUpdateProxy (p\<lparr>p_Id := p_Id q\<rparr>)) (reinitProxy (p\<lparr>p_Id := p_Id q\<rparr>)))))
     (topom_inv {}) (\<lambda>_. topom_inv {})"
    using store_proxy [of sl p]
    by (auto simp: keeps_def deferT_def bindT_def readT_def split: option.splits)
qed

lemma RemoveProxy_inv: "topom_inv {} s \<Longrightarrow> topom_inv {} (snd (RemoveProxy t force s))"
  unfolding RemoveProxy_def
  by (erule op_group [rotated], intro body_rules quiet_remove_proxy [THEN body_quiet]) auto

lemma ReinitProxy_inv: "topom_inv {} s \<Longrightarrow> topom_inv {} (snd (ReinitProxy t s))"
  unfolding ReinitProxy_def
  by (erule op_group [rotated], intro body_rules reinitProxy_body) auto

end
