(* ===== verification/TopomRebalance.thy ===== *)
theory TopomRebalance
  imports TopomSlots
begin

text \<open>
  \<open>SlotsRebalance\<close> of \<open>src/pkg/topom/topom_slots.go\<close>: which slots to move so that the groups get equally
  many.  The red-black tree of the package \<open>gods\<close> is an argument, a record of its operations; each
  takes the comparison as it is at the time of the call, since the code's closure reads the sizes
  that the loops change.  The maps of the function are functions with Go's default for absent
  keys; \<open>moveout\<close>, which is ranged over, is an association list.
\<close>

section \<open>The tree\<close>

record 't rbtree =
  rb_empty :: 't
  rb_Put :: "(int \<Rightarrow> int \<Rightarrow> int) \<Rightarrow> int \<Rightarrow> 't \<Rightarrow> 't"
  rb_Remove :: "(int \<Rightarrow> int \<Rightarrow> int) \<Rightarrow> int \<Rightarrow> 't \<Rightarrow> 't"
  rb_Left :: "'t \<Rightarrow> int option"
  rb_Right :: "'t \<Rightarrow> int option"
  rb_Size :: "'t \<Rightarrow> nat"

section \<open>Sizes\<close>

record sizes =
  rs_assigned :: "int \<Rightarrow> int"
  rs_pendings :: "int \<Rightarrow> int list"
  rs_moveout :: "(int \<times> int) list"

definition moveout_of :: "sizes \<Rightarrow> int \<Rightarrow> int" where
  "moveout_of z gid = (case map_of (rs_moveout z) gid of None \<Rightarrow> 0 | Some n \<Rightarrow> n)"

definition groupSize :: "sizes \<Rightarrow> int \<Rightarrow> int" where
  "groupSize z gid = rs_assigned z gid + int (length (rs_pendings z gid)) - moveout_of z gid"

definition addMoveout :: "int \<Rightarrow> int \<Rightarrow> sizes \<Rightarrow> sizes" where
  "addMoveout gid d z = z\<lparr>rs_moveout := AList.update gid (moveout_of z gid + d) (rs_moveout z)\<rparr>"

definition sizeCompare :: "sizes \<Rightarrow> int \<Rightarrow> int \<Rightarrow> int" where
  "sizeCompare z gid1 gid2 =
     (if gid1 \<noteq> gid2 then
        let d = groupSize z gid1 - groupSize z gid2 in if d \<noteq> 0 then d else gid1 - gid2
      else 0)"

definition validGroupIds :: "Topom \<Rightarrow> int list" where
  "validGroupIds s = sort (map (g_Id \<circ> snd) (filter (\<lambda>(k, g). g_Servers g \<noteq> []) (ctx_group s)))"

section \<open>The loops\<close>

definition countActions :: "SlotMapping list \<Rightarrow> sizes" where
  "countActions slots =
     foldl (\<lambda>z m. if sm_State m \<noteq> ActionNothing
                  then z\<lparr>rs_assigned := (rs_assigned z)(sm_TargetId m := rs_assigned z (sm_TargetId m) + 1)\<rparr> else z)
       \<lparr>rs_assigned = \<lambda>_. 0, rs_pendings = \<lambda>_. [], rs_moveout = []\<rparr> slots"

definition countSlots :: "int \<Rightarrow> SlotMapping list \<Rightarrow> sizes \<Rightarrow> sizes" where
  "countSlots lowerBound slots z0 =
     foldl (\<lambda>z m.
       if sm_State m \<noteq> ActionNothing then z
       else if sm_GroupId m \<noteq> 0 then
         (let g = sm_GroupId m
          in if groupSize z g < lowerBound
             then z\<lparr>rs_assigned := (rs_assigned z)(g := rs_assigned z g + 1)\<rparr>
             else z\<lparr>rs_pendings := (rs_pendings z)(g := rs_pendings z g @ [sm_Id m])\<rparr>)
       else z) z0 slots"

text \<open>Offline slots go to the smallest group; \<open>None\<close> is the panic on an empty tree.\<close>

primrec dockOffline :: "'t rbtree \<Rightarrow> SlotMapping list \<Rightarrow> 't \<Rightarrow> sizes \<Rightarrow> int list \<Rightarrow> ('t \<times> sizes \<times> int list) option" where
  "dockOffline T [] tree z docking = Some (tree, z, docking)"
| "dockOffline T (m # ms) tree z docking =
     (if sm_State m \<noteq> ActionNothing \<or> sm_GroupId m \<noteq> 0 then dockOffline T ms tree z docking
      else
        (case rb_Left T tree of
           None \<Rightarrow> None
         | Some dest \<Rightarrow>
             let tree1 = rb_Remove T (sizeCompare z) dest tree;
                 z1 = addMoveout dest (-1) z
             in dockOffline T ms (rb_Put T (sizeCompare z1) dest tree1) z1 (docking @ [sm_Id m])))"

text \<open>
  The loop between the groups, with fuel.  \<open>None\<close> is not finishing; \<open>Some None\<close> would be the panic on an
  empty tree.
\<close>

primrec rebalanceLoop :: "nat \<Rightarrow> 't rbtree \<Rightarrow> int \<Rightarrow> int \<Rightarrow> 't \<Rightarrow> sizes \<Rightarrow> sizes option option" where
  "rebalanceLoop 0 T lowerBound upperBound tree z = None"
| "rebalanceLoop (Suc fuel) T lowerBound upperBound tree z =
     (if rb_Size T tree < 2 then Some (Some z)
      else
        (case rb_Right T tree of
           None \<Rightarrow> Some None
         | Some src \<Rightarrow>
             let tree1 = rb_Remove T (sizeCompare z) src tree
             in if int (length (rs_pendings z src)) = moveout_of z src
                then rebalanceLoop fuel T lowerBound upperBound tree1 z
                else
                  (case rb_Left T tree1 of
                     None \<Rightarrow> Some None
                   | Some dest \<Rightarrow>
                       let tree2 = rb_Remove T (sizeCompare z) dest tree1;
                           fromSize = groupSize z src;
                           destSize = groupSize z dest
                       in if fromSize \<le> lowerBound \<or> destSize \<ge> upperBound \<or> fromSize - destSize \<le> 1
                          then Some (Some z)
                          else
                            let z1 = addMoveout dest (-1) (addMoveout src 1 z);
                                tree3 = rb_Put T (sizeCompare z1) src tree2
                            in rebalanceLoop fuel T lowerBound upperBound (rb_Put T (sizeCompare z1) dest tree3) z1)))"

text \<open>
  The range over \<open>moveout\<close>: the docked slots and the entries that stay.  A Go loop may visit the
  entries in any order; the result is sorted afterwards.
\<close>

fun dockMoved :: "(int \<times> int) list \<Rightarrow> (int \<Rightarrow> int list) \<Rightarrow> int list \<Rightarrow> int list \<times> (int \<times> int) list" where
  "dockMoved [] pendings docking = (docking, [])"
| "dockMoved ((gid, n) # rest) pendings docking =
     (if n < 0 then (case dockMoved rest pendings docking of (d, mo) \<Rightarrow> (d, (gid, n) # mo))
      else dockMoved rest pendings (docking @ take (nat n) (rev (sort (pendings gid)))))"

fun assignDocked :: "int list \<Rightarrow> (int \<Rightarrow> int) \<Rightarrow> int list \<Rightarrow> (int \<times> int) list" where
  "assignDocked [] moveout docking = []"
| "assignDocked (gid # gids) moveout docking =
     (let n = nat (- moveout gid)
      in map (\<lambda>sid. (sid, gid)) (take n docking) @ assignDocked gids moveout (drop n docking))"

text \<open>The plan, as the list of the slots with their new groups; the panic is \<open>Some None\<close>.\<close>

definition rebalancePlan :: "nat \<Rightarrow> 't rbtree \<Rightarrow> int list \<Rightarrow> SlotMapping list \<Rightarrow> (int \<times> int) list option option" where
  "rebalancePlan fuel T groupIds slots =
     (let lowerBound = int MaxSlotNum div int (length groupIds);
          z = countSlots lowerBound slots (countActions slots);
          tree = foldl (\<lambda>t gid. rb_Put T (sizeCompare z) gid t) (rb_empty T) groupIds
      in (case dockOffline T slots tree z [] of
            None \<Rightarrow> Some None
          | Some (tree1, z1, docking) \<Rightarrow>
              let upperBound = (int MaxSlotNum + int (length groupIds) - 1) div int (length groupIds)
              in (case rebalanceLoop fuel T lowerBound upperBound tree1 z1 of
                    None \<Rightarrow> None
                  | Some None \<Rightarrow> Some None
                  | Some (Some z2) \<Rightarrow>
                      (case dockMoved (rs_moveout z2) (rs_pendings z2) docking of
                         (docked, moveout) \<Rightarrow>
                           Some (Some (assignDocked groupIds
                             (\<lambda>gid. case map_of moveout gid of None \<Rightarrow> 0 | Some n \<Rightarrow> n) (sort docked)))))))"

primrec planSlots :: "(int \<times> int) list \<Rightarrow> unit topom_op" where
  "planSlots [] = returnT ()"
| "planSlots (p # ps) =
     bindT (getSlotMapping (fst p)) (\<lambda>m.
       deferT (dirtySlotsCache (sm_Id m))
         (seqT (createAction (nat (fst p)) m (snd p)) (planSlots ps)))"

text \<open>The whole function; \<open>None\<close> as a result is not finishing.\<close>

definition SlotsRebalance :: "nat \<Rightarrow> 't rbtree \<Rightarrow> bool \<Rightarrow> (int \<times> int) list option topom_op" where
  "SlotsRebalance fuel T confirm =
     seqT newContext
       (bindT (readT validGroupIds) (\<lambda>groupIds.
          seqT (guardT (length groupIds \<noteq> 0) NoValidGroup)
            (bindT (readT (\<lambda>s. rebalancePlan fuel T groupIds (ctx_slots s))) (\<lambda>r.
               case r of
                 None \<Rightarrow> returnT None
               | Some None \<Rightarrow> failT Panicked
               | Some (Some plans) \<Rightarrow>
                   if \<not> confirm then returnT (Some plans)
                   else seqT (planSlots (sort_key fst plans)) (returnT (Some plans))))))"

end
