(* ===== verification/SlotInv.thy ===== *)
theory SlotInv
  imports GroupInv TopomRebalance
begin

text \<open>
  The slot operations keep the invariant.  Creating and removing an action changes a record whose
  routes stay the same; preparing and completing one changes the routes, and the order in which
  the proxies and the store learn of it keeps every proxy within what the stored state allows.
\<close>

section \<open>Updates of a slot\<close>

definition running :: "hook set \<Rightarrow> Topom \<Rightarrow> bool" where
  "running X s \<longleftrightarrow> topom_inv X s \<and> filled s \<and> t_hooks s = []"

lemma running_iff:
  "running X s \<longleftrightarrow> t_hooks s = [] \<and> wf_store (t_store s) \<and> coh X s \<and> refs (t_store s) \<and> safe s \<and> filled s"
  by (auto simp: running_def topom_inv_def good_def)

lemma running_env [simp]: "running X (s\<lparr>t_env := e\<rparr>) = running X s"
  by (simp add: running_def)

lemma running_insert: "running X s \<Longrightarrow> running (insert h X) s"
  by (auto simp: running_def elim: topom_inv_mono)

lemma running_inv: "running X s \<Longrightarrow> topom_inv X s"
  by (simp add: running_def)

definition told :: "int \<Rightarrow> (Slot \<Rightarrow> bool) \<Rightarrow> Topom \<Rightarrow> bool" where
  "told i R s \<longleftrightarrow> (\<forall>t v. registered s t \<longrightarrow> t_views s t i = Some v \<longrightarrow> R v)"

lemma running_told: "running X s \<Longrightarrow> told i (allowed (slot_at (t_store s) i)) s"
  by (simp add: running_iff safe_def told_def)

abbreviation put_slot :: "SlotMapping \<Rightarrow> Store \<Rightarrow> Store" where
  "put_slot m st \<equiv> st\<lparr>st_slots := (st_slots st)(sm_Id m \<mapsto> m)\<rparr>"

lemma slot_at_put: "slot_at (put_slot m st) i = (if i = sm_Id m then m else slot_at st i)"
  by (simp add: slot_at_def)

lemma group_ok_put_slot [simp]: "group_ok (st\<lparr>st_slots := x\<rparr>) = group_ok st"
  by (simp add: group_ok_def fun_eq_iff)

lemma running_put_slot:
  assumes s: "running X s" and X: "HookSlot (sm_Id m) \<in> X"
    and "group_ok (t_store s) (sm_GroupId m)" "group_ok (t_store s) (sm_TargetId m)"
    and "told (sm_Id m) (allowed m) s"
  shows "running X (s\<lparr>t_env := e, t_store := put_slot m (t_store s)\<rparr>)"
proof -
  let ?st = "put_slot m (t_store s)"
  from s have i: "wf_store (t_store s)" "coh X s" "refs (t_store s)" "safe s" by (simp_all add: running_iff)
  have "refs ?st" using i(3) assms(3,4) by (simp add: refs_def slot_at_put)
  moreover have "wf_store ?st" using i(1) by (auto simp: wf_store_def)
  moreover have "stale X (HookSlot (sm_Id m))" using X by (simp add: stale_def)
  then have "stale X (HookSlot j) \<or> v = slot_at ?st j" if "stale X (HookSlot j) \<or> v = slot_at (t_store s) j" for j v
    using that by (cases "j = sm_Id m") (auto simp: slot_at_put)
  then have "slots_coh X ?st (t_slots s)" using i(2) unfolding coh_def slots_coh_def by blast
  moreover have "allowed (slot_at ?st j) v" if "registered s t" "t_views s t j = Some v" for t j v
    using i(4) assms(5) that by (cases "j = sm_Id m") (auto simp: safe_def told_def slot_at_put)
  then have "safe (s\<lparr>t_env := e, t_store := ?st\<rparr>)" by (simp add: safe_def registered_def)
  ultimately show ?thesis using s i by (simp add: running_iff coh_def)
qed

lemma nth_set_some:
  "l[k := x] ! i = Some m \<Longrightarrow> i < length l \<Longrightarrow> (k = i \<and> x = Some m) \<or> l ! i = Some m"
  by (cases "k = i") auto

lemma running_setSlot:
  assumes s: "running X s" and X: "HookSlot (int i) \<in> X" and "sm_Id m = int i"
  shows "running X (setSlot i m s)"
proof -
  from s have i: "coh X s" "filled s" by (simp_all add: running_iff)
  have "stale X (HookSlot (int i))" using X by (simp add: stale_def)
  then have "slots_coh X (t_store s) (map_option (\<lambda>l. l[i := Some m]) (t_slots s))"
    using i(1) assms(3) by (auto simp: coh_def slots_coh_def dest!: nth_set_some)
  moreover have "slots_filled (setSlot i m s)"
    using i(2) by (auto simp: filled_def slots_filled_def setSlot_def dest!: set_update_subset_insert [THEN subsetD])
  ultimately show ?thesis
    using s by (simp add: running_iff coh_def setSlot_def safe_def registered_def filled_def)
qed

lemma setSlot_fields [simp]:
  "t_store (setSlot i m s) = t_store s" "t_views (setSlot i m s) = t_views s"
  "registered (setSlot i m s) = registered s" "told j R (setSlot i m s) = told j R s"
  by (simp_all add: setSlot_def registered_def told_def fun_eq_iff)

section \<open>Resync of one slot\<close>

lemma view_after_fill:
  "t_views (applySlots t l s) t' i = Some v \<Longrightarrow> t_views s t' i = Some v \<or> (v \<in> set l \<and> sl_Id v = i)"
  using foldl_view [of "t_views s t'" l i v] by (auto simp: applySlots_def split: if_splits)

text \<open>
  After a resync with one record every view is the old one or comes from the record; after a
  successful one every proxy of the context has the record's.
\<close>

definition views_step :: "Topom \<Rightarrow> Topom \<Rightarrow> bool" where
  "views_step s s1 \<longleftrightarrow> (\<exists>e w. s1 = s\<lparr>t_env := e, t_views := w\<rparr>)"

lemma views_step_refl [simp]: "views_step s s"
  unfolding views_step_def by (rule exI [of _ "t_env s"], rule exI [of _ "t_views s"]) simp

lemma resyncProxies_one:
  assumes R: "\<And>p s v. toSlot m p s = Some v \<Longrightarrow> R v"
  shows "resyncProxies [m] ps f s = (r, s1) \<Longrightarrow>
    views_step s s1 \<and>
    (\<forall>t i v. t_views s1 t i = Some v \<longrightarrow> t_views s t i = Some v \<or> (i = sm_Id m \<and> R v)) \<and>
    (r = Inr () \<longrightarrow> \<not> f \<and> (\<forall>(k, p) \<in> set ps. \<forall>v. t_views s1 (p_Token p) (sm_Id m) = Some v \<longrightarrow> R v))"
proof (induction ps arbitrary: f s)
  case Nil
  then show ?case by (auto split: if_splits)
next
  case (Cons kp ps)
  obtain k p where kp: "kp = (k, p)" by fastforce
  show ?case
  proof (cases "toSlot m (Some p) s")
    case None
    with Cons.prems kp show ?thesis by (auto simp: toSlotSlice_def)
  next
    case (Some x)
    then have l: "toSlotSlice [m] (Some p) s = Some [x]" by (simp add: toSlotSlice_def List.map_filter_simps)
    have x: "R x" "sl_Id x = sm_Id m" using R [OF Some] toSlot_allowed [OF Some] by auto
    obtain r2 s2 where r2: "fillSlots (p_Token p) [x] s = (r2, s2)" by fastforce
    obtain n e where n: "s2 = applySlots (p_Token p) (take n [x]) (s\<lparr>t_env := e\<rparr>)"
      "r2 = Inr () \<longrightarrow> take n [x] = [x]"
      using r2 by (metis fillSlots_apply fst_conv snd_conv)
    have v2: "t_views s t i = Some v \<or> (i = sm_Id m \<and> R v)" if "t_views s2 t i = Some v" for t i v
      using view_after_fill [of "p_Token p" "take n [x]" "s\<lparr>t_env := e\<rparr>" t i v] that n(1) x
      by (auto dest: in_set_takeD)
    have p2: "t_views s2 (p_Token p) (sm_Id m) = Some x" if "r2 = Inr ()"
      using n that x by (simp add: applySlots_def)
    from Cons.prems kp l r2 have "resyncProxies [m] ps (f \<or> isl r2) s2 = (r, s1)" by simp
    note IH = Cons.IH [OF this]
    from IH n(1) have "views_step s s1" by (auto simp: applySlots_def views_step_def)
    moreover have "t_views s t i = Some v \<or> (i = sm_Id m \<and> R v)" if "t_views s1 t i = Some v" for t i v
      using IH v2 that by blast
    moreover have "R v" if "r = Inr ()" "t_views s1 (p_Token p) (sm_Id m) = Some v" for v
    proof -
      from IH that(1) have "r2 = Inr ()" by (cases r2) auto
      with p2 IH that(2) x(1) show ?thesis by force
    qed
    ultimately show ?thesis using IH kp by auto
  qed
qed

lemma resync_one:
  assumes s: "running X s" and p: "\<And>t. \<not> stale X (HookProxy t)"
    and R: "\<And>p s v. toSlot m p s = Some v \<Longrightarrow> R v"
    and allow: "\<And>v. R v \<Longrightarrow> allowed (slot_at (t_store s) (sm_Id m)) v"
    and r: "resyncSlotMappings [m] s = (r, s1)"
  shows "running X s1 \<and> t_store s1 = t_store s \<and> (r = Inr () \<longrightarrow> told (sm_Id m) R s1)"
proof -
  from r have r1: "resyncProxies [m] (ctx_proxy s) False s = (r, s1)" by (simp add: resyncSlotMappings_def)
  have "views_step s s1 \<and>
    (\<forall>t i v. t_views s1 t i = Some v \<longrightarrow> t_views s t i = Some v \<or> (i = sm_Id m \<and> R v)) \<and>
    (r = Inr () \<longrightarrow> (\<forall>(k, p) \<in> set (ctx_proxy s). \<forall>v. t_views s1 (p_Token p) (sm_Id m) = Some v \<longrightarrow> R v))"
    using resyncProxies_one [of m R, OF _ r1] R by blast
  then obtain e w where
    s1: "s1 = s\<lparr>t_env := e, t_views := w\<rparr>" and
    v: "\<forall>t i v. t_views s1 t i = Some v \<longrightarrow> t_views s t i = Some v \<or> (i = sm_Id m \<and> R v)" and
    fin: "r = Inr () \<longrightarrow> (\<forall>(k, p) \<in> set (ctx_proxy s). \<forall>v. t_views s1 (p_Token p) (sm_Id m) = Some v \<longrightarrow> R v)"
    unfolding views_step_def by blast
  have "safe s1"
    unfolding safe_def
  proof (intro allI impI)
    fix t i x assume t: "registered s1 t" "t_views s1 t i = Some x"
    from v t(2) consider "t_views s t i = Some x" | "i = sm_Id m" "R x" by blast
    then show "allowed (slot_at (t_store s1) i) x"
      using s t(1) allow by cases (auto simp: running_iff safe_def s1 registered_def)
  qed
  with s have run: "running X s1" by (simp add: running_iff s1 coh_def filled_def slots_filled_def)
  have "told (sm_Id m) R s1" if "r = Inr ()"
    unfolding told_def
  proof (intro allI impI)
    fix t x assume t: "registered s1 t" "t_views s1 t (sm_Id m) = Some x"
    have "map_of (ctx_proxy s) t = map_of (st_proxy (t_store s)) t"
      using s p by (intro ctx_proxy_store) (auto simp: running_def topom_inv_def)
    with t(1) obtain q where "map_of (ctx_proxy s) t = Some q" by (auto simp: registered_def s1)
    then have q: "(t, q) \<in> set (ctx_proxy s)" by (rule map_of_SomeD)
    then have "p_Token q = t" using s ctx_proxy_in [OF _ q] by (auto simp: running_def topom_inv_def)
    with fin that t(2) q show "R x" by auto
  qed
  with run s1 show ?thesis by simp
qed

section \<open>Rules for the steps of an action\<close>

definition proxy_free :: "hook set \<Rightarrow> bool" where
  "proxy_free X \<longleftrightarrow> HookAll \<notin> X \<and> (\<forall>t. HookProxy t \<notin> X)"

lemma proxy_free_simps [simp]:
  "proxy_free {}" "proxy_free (insert (HookSlot i) X) = proxy_free X" "proxy_free (insert (HookGroup g) X) = proxy_free X"
  by (auto simp: proxy_free_def)

lemma proxy_free_stale: "proxy_free X \<Longrightarrow> \<not> stale X (HookProxy t)"
  by (simp add: proxy_free_def stale_def)

text \<open>The store has the record at the place.\<close>

definition slot_is :: "hook set \<Rightarrow> nat \<Rightarrow> SlotMapping \<Rightarrow> Topom \<Rightarrow> bool" where
  "slot_is X i m s \<longleftrightarrow> running X s \<and> slot_at (t_store s) (int i) = m"

lemma slot_is_inv: "slot_is X i m s \<Longrightarrow> topom_inv X s"
  by (simp add: slot_is_def running_inv)

lemma slot_is_id: "slot_is X i m s \<Longrightarrow> sm_Id m = int i"
  by (auto simp: slot_is_def running_iff)

lemma slot_is_told: "slot_is X i m s \<Longrightarrow> told (int i) (allowed m) s"
  using running_told by (auto simp: slot_is_def)

lemma told_mono: "told i R s \<Longrightarrow> (\<And>v. R v \<Longrightarrow> R' v) \<Longrightarrow> told i R' s"
  by (auto simp: told_def)

lemma keeps_defer_slot:
  assumes "keeps (\<lambda>s. slot_is (insert (HookSlot (int i)) X) i m s \<and> A s) f (topom_inv (insert (HookSlot (int i)) X))
      (\<lambda>_. topom_inv (insert (HookSlot (int i)) X))"
  shows "keeps (\<lambda>s. slot_is X i m s \<and> A s) (deferT (dirtySlotsCache (int i)) f) (topom_inv X) (\<lambda>_. topom_inv X)"
proof (rule keeps_defer, rule keeps_pre)
  show "keeps (\<lambda>s. slot_is (insert (HookSlot (int i)) X) i m s \<and> A s) f
      (\<lambda>s. topom_inv X (dirtySlotsCache (int i) s)) (\<lambda>_ s. topom_inv X (dirtySlotsCache (int i) s))"
    using assms unfolding dirtySlotsCache_def
    by (auto simp: keeps_def intro!: inv_push split: prod.splits sum.splits)
qed (auto simp: slot_is_def intro: running_insert)

lemmas keeps_defer_is = keeps_defer_slot [where A = "\<lambda>_. True", simplified]

lemma keeps_setSlot:
  "HookSlot (int i) \<in> X \<Longrightarrow> sm_Id m1 = int i \<Longrightarrow> keeps (slot_is X i m) (modifyT (setSlot i m1)) K (\<lambda>_. slot_is X i m)"
  by (rule keeps_modify) (simp add: slot_is_def running_setSlot)

lemma keeps_resync_one:
  assumes "proxy_free X" and "sm_Id m1 = int i" and "\<And>p s v. toSlot m1 p s = Some v \<Longrightarrow> R v"
    and "\<And>v. R v \<Longrightarrow> allowed m v"
  shows "keeps (slot_is X i m) (resyncSlotMappings [m1]) (slot_is X i m) (\<lambda>_ s. slot_is X i m s \<and> told (int i) R s)"
  unfolding keeps_def
proof (intro allI impI)
  fix s assume s: "slot_is X i m s"
  obtain r s1 where r: "resyncSlotMappings [m1] s = (r, s1)" by fastforce
  have "running X s1 \<and> t_store s1 = t_store s \<and> (r = Inr () \<longrightarrow> told (sm_Id m1) R s1)"
    using s assms by (intro resync_one [OF _ _ _ _ r]) (auto simp: slot_is_def proxy_free_stale)
  with s r assms(2) show "case resyncSlotMappings [m1] s of (Inl e, s1) \<Rightarrow> slot_is X i m s1
      | (Inr x, s1) \<Rightarrow> slot_is X i m s1 \<and> told (int i) R s1"
    by (auto simp: slot_is_def split: sum.splits)
qed

lemma keeps_store_slot:
  assumes "i < MaxSlotNum" and "HookSlot (int i) \<in> X" and "sm_Id m1 = int i"
    and "sm_GroupId m1 \<in> {0, sm_GroupId m, sm_TargetId m}" and "sm_TargetId m1 \<in> {0, sm_GroupId m, sm_TargetId m}"
    and "\<And>v. R v \<Longrightarrow> allowed m1 v"
  shows "keeps (\<lambda>s. slot_is X i m s \<and> told (int i) R s) (storeUpdateSlotMapping m1) (topom_inv X)
     (\<lambda>_. slot_is X i m1)"
  unfolding storeUpdateSlotMapping_def
proof (rule keeps_write)
  fix s e assume s: "slot_is X i m s \<and> told (int i) R s"
  then have "refs (t_store s)" "slot_at (t_store s) (int i) = m" by (simp_all add: slot_is_def running_iff)
  then have "group_ok (t_store s) (sm_GroupId m)" "group_ok (t_store s) (sm_TargetId m)"
    using assms(1) by (auto simp: refs_def)
  then have "group_ok (t_store s) (sm_GroupId m1)" "group_ok (t_store s) (sm_TargetId m1)"
    using assms(4,5) by (auto simp: group_ok_def)
  moreover have "told (sm_Id m1) (allowed m1) s" using s assms(3,6) by (auto simp: told_def)
  ultimately have *: "running X (s\<lparr>t_env := e, t_store := put_slot m1 (t_store s)\<rparr>)"
    using s assms(2,3) by (intro running_put_slot) (auto simp: slot_is_def)
  then show "slot_is X i m1 (s\<lparr>t_env := e, t_store := put_slot m1 (t_store s)\<rparr>)"
    using slot_at_put [of "t_store s" m1 "int i"] assms(3) by (simp add: slot_is_def)
  from * show "topom_inv X (s\<lparr>t_env := e, t_store := put_slot m1 (t_store s)\<rparr>)" by (rule running_inv)
qed (auto simp: slot_is_inv)

lemma keeps_err: "keeps P m K Q \<Longrightarrow> (\<And>s. K s \<Longrightarrow> K' s) \<Longrightarrow> keeps P m K' Q"
  by (fastforce simp: keeps_def split: prod.splits sum.splits)

lemma keeps_ghost: "(\<And>x. keeps (\<lambda>s. P s \<and> f s = x) m K Q) \<Longrightarrow> keeps P m K Q"
  by (simp add: keeps_def)

lemma keeps_told:
  "keeps (\<lambda>s. slot_is X i m s \<and> told (int i) (allowed m) s) f K Q \<Longrightarrow> keeps (slot_is X i m) f K Q"
  by (erule keeps_pre) (simp add: slot_is_told)

section \<open>Preparing and completing\<close>

lemma prepareFromPrepared_keeps:
  assumes "proxy_free X" and "i < MaxSlotNum" and "sm_Id m = int i" and "sm_State m = ActionPrepared"
  shows "keeps (slot_is X i m) (prepareFromPrepared i m) (topom_inv X) (\<lambda>_. topom_inv X)"
proof -
  let ?X = "insert (HookSlot (int i)) X" and ?m = "m\<lparr>sm_State := ActionMigrating\<rparr>"
  have 1: "keeps (slot_is ?X i m) (modifyT (setSlot i ?m)) (topom_inv ?X) (\<lambda>_. slot_is ?X i m)"
    using assms by (intro keeps_setSlot) auto
  have 2: "keeps (slot_is ?X i m) (resyncSlotMappings [?m]) (topom_inv ?X)
      (\<lambda>_ s. slot_is ?X i m s \<and> told (int i) (allowed ?m) s)"
    using assms toSlot_allowed [of ?m]
    by (intro keeps_err [OF keeps_resync_one slot_is_inv]) (auto simp: allowed_def [of m] allowed_def [of ?m])
  have 3: "keeps (\<lambda>s. slot_is ?X i m s \<and> told (int i) (allowed ?m) s) (storeUpdateSlotMapping ?m) (topom_inv ?X)
     (\<lambda>_. slot_is ?X i ?m)"
    using assms by (intro keeps_store_slot) auto
  show ?thesis
    unfolding prepareFromPrepared_def Let_def assms(3)
    by (intro keeps_defer_is keeps_seq [OF 1] keeps_seq [OF 2] keeps_seq [OF 3] keeps_return) (rule slot_is_inv)
qed

lemma prepareFromPreparing_keeps:
  assumes "proxy_free X" and "i < MaxSlotNum" and "sm_Id m = int i" and "sm_State m = ActionPreparing"
  shows "keeps (slot_is X i m) (prepareFromPreparing i m) (topom_inv X) (\<lambda>_. topom_inv X)"
proof -
  let ?X = "insert (HookSlot (int i)) X" and ?m = "m\<lparr>sm_State := ActionPrepared\<rparr>"
  let ?R = "\<lambda>v. sl_Locked v \<and> allowed ?m v"
  have m2: "?m\<lparr>sm_State := ActionPreparing\<rparr> = m" using assms(4) by (cases m) simp
  have locked: "?R v" if "toSlot ?m p s = Some v" for p s v
    using toSlot_allowed [OF that] that
    by (auto simp: toSlot_def isSlotLocked_def Let_def)
  have set: "keeps (slot_is ?X i m) (modifyT (setSlot i m')) K (\<lambda>_. slot_is ?X i m)" if "sm_Id m' = int i" for m' K
    using that by (intro keeps_setSlot) auto
  have resync: "keeps (slot_is ?X i m) (resyncSlotMappings [?m]) (slot_is ?X i m)
      (\<lambda>_ s. slot_is ?X i m s \<and> told (int i) ?R s)"
    using assms locked
    by (intro keeps_resync_one) (auto simp: allowed_def [of m] allowed_def [of ?m])
  have rollback: "keeps (slot_is ?X i m) (resyncSlotMappings [m]) (slot_is ?X i m) (\<lambda>_. slot_is ?X i m)"
    using assms toSlot_allowed [of m]
    by (intro keeps_post [OF keeps_resync_one [where R = "allowed m"]]) auto
  have catch: "keeps (slot_is ?X i m) (catchT (resyncSlotMappings [?m]) (\<lambda>e.
        seqT (modifyT (setSlot i m)) (seqT (ignoreT (resyncSlotMappings [m])) (failT e))))
      (topom_inv ?X) (\<lambda>_ s. slot_is ?X i m s \<and> told (int i) ?R s)"
    by (intro keeps_catch [OF resync] keeps_seq [OF set] keeps_seq [OF keeps_ignore [OF rollback]] keeps_fail)
      (auto simp: assms(3) slot_is_inv)
  have store: "keeps (\<lambda>s. slot_is ?X i m s \<and> told (int i) ?R s) (storeUpdateSlotMapping ?m) (topom_inv ?X)
     (\<lambda>_. slot_is ?X i ?m)"
    using assms by (intro keeps_store_slot) auto
  have rest: "keeps (slot_is ?X i ?m) (prepareFromPrepared i ?m) (topom_inv ?X) (\<lambda>_. topom_inv ?X)"
    using assms by (intro prepareFromPrepared_keeps) auto
  show ?thesis
    unfolding prepareFromPreparing_def Let_def m2 assms(3)
    by (intro keeps_defer_is keeps_seq [OF set] keeps_seq [OF catch] keeps_seq [OF store] rest) (simp add: assms(3))
qed

lemma prepareFromPending_keeps:
  assumes "proxy_free X" and "i < MaxSlotNum" and "sm_Id m = int i" and "sm_State m = ActionPending"
  shows "keeps (slot_is X i m) (prepareFromPending i m) (topom_inv X) (\<lambda>_. topom_inv X)"
proof -
  let ?X = "insert (HookSlot (int i)) X" and ?m = "m\<lparr>sm_State := ActionPreparing\<rparr>"
  have 1: "keeps (slot_is ?X i m) (modifyT (setSlot i ?m)) (topom_inv ?X) (\<lambda>_. slot_is ?X i m)"
    using assms by (intro keeps_setSlot) auto
  have 2: "keeps (slot_is ?X i m) (storeUpdateSlotMapping ?m) (topom_inv ?X) (\<lambda>_. slot_is ?X i ?m)"
    using assms by (intro keeps_told [OF keeps_store_slot]) (auto simp: allowed_def [of m] allowed_def [of ?m])
  have 3: "keeps (slot_is ?X i ?m) (prepareFromPreparing i ?m) (topom_inv ?X) (\<lambda>_. topom_inv ?X)"
    using assms by (intro prepareFromPreparing_keeps) auto
  show ?thesis
    unfolding prepareFromPending_def Let_def assms(3)
    by (intro keeps_defer_is keeps_seq [OF 1] keeps_seq [OF 2] 3)
qed

lemma completeFromFinished_keeps:
  assumes "proxy_free X" and "i < MaxSlotNum" and "sm_Id m = int i" and "sm_State m = ActionFinished"
  shows "keeps (slot_is X i m) (completeFromFinished m) (topom_inv X) (\<lambda>_. topom_inv X)"
proof -
  let ?X = "insert (HookSlot (int i)) X" and ?m = "SlotMapping_of (int i) (sm_TargetId m)"
  let ?R = "\<lambda>v. at_group v (sm_TargetId m)"
  have target: "?R v" if "toSlot m p s = Some v" for p s v
    using that assms(4) by (auto simp: toSlot_def at_group_def Let_def split: option.splits)
  have 1: "keeps (slot_is X i m) (resyncSlotMappings [m]) (topom_inv X) (\<lambda>_ s. slot_is X i m s \<and> told (int i) ?R s)"
    using assms target
    by (intro keeps_err [OF keeps_resync_one slot_is_inv]) (auto simp: allowed_def [of m])
  have 2: "keeps (\<lambda>s. slot_is ?X i m s \<and> told (int i) ?R s) (storeUpdateSlotMapping ?m) (topom_inv ?X)
     (\<lambda>_. slot_is ?X i ?m)"
    using assms by (intro keeps_store_slot) (auto simp: SlotMapping_of_def allowed_def)
  have "keeps (\<lambda>s. slot_is X i m s \<and> told (int i) ?R s) (deferT (dirtySlotsCache (int i)) (storeUpdateSlotMapping ?m))
     (topom_inv X) (\<lambda>_. topom_inv X)"
    by (intro keeps_defer_slot keeps_post [OF 2 slot_is_inv])
  then show ?thesis
    unfolding completeFromFinished_def assms(3) by (intro keeps_seq [OF 1])
qed

section \<open>The operations\<close>

lemma op_slot:
  assumes "keeps (running {}) m (topom_inv {}) (\<lambda>_. topom_inv {})" and "topom_inv {} s"
  shows "topom_inv {} (snd (seqT newContext m s))"
  using assms unfolding running_def by (rule op_inv)

text \<open>A record read from a fresh entry of the cache is the stored one.\<close>

lemma running_ctx:
  assumes "running X s" and "i < MaxSlotNum" and "\<not> stale X (HookSlot (int i))"
  shows "slot_is X i (ctx_slots s ! i) s"
  using assms ctx_slots_eq [of X s i] by (simp add: slot_is_def running_def topom_inv_def)

lemma minActionIndex_in:
  "minActionIndex accept filt n ms picked = Some (i, m) \<Longrightarrow>
   picked = Some (i, m) \<or> (n \<le> i \<and> i < n + length ms \<and> m = ms ! (i - n))"
proof (induction ms arbitrary: n picked)
  case (Cons x ms)
  let ?p = "if sm_State x = ActionNothing \<or> \<not> filt x then picked
    else if (case picked of None \<Rightarrow> False | Some (_, q) \<Rightarrow> sm_Index q < sm_Index x) then picked
    else if accept x then Some (n, x) else picked"
  from Cons.prems have "minActionIndex accept filt (n + 1) ms ?p = Some (i, m)" by simp
  from Cons.IH [OF this] consider "?p = Some (i, m)" | "n + 1 \<le> i" "i < n + 1 + length ms" "m = ms ! (i - (n + 1))"
    by blast
  then show ?case
  proof cases
    case 1
    then show ?thesis by (auto split: if_splits)
  next
    case 2
    then have "i - n = Suc (i - (n + 1))" by simp
    with 2 show ?thesis by simp
  qed
qed simp

lemma pickAction_in: "pickAction accept s = Some (i, m) \<Longrightarrow> i < length (ctx_slots s) \<and> m = ctx_slots s ! i"
  unfolding pickAction_def
  by (auto dest!: minActionIndex_in split: option.splits if_splits)

lemma length_running: "running X s \<Longrightarrow> length (ctx_slots s) = MaxSlotNum"
  by (auto simp: running_def topom_inv_def intro: length_ctx_slots)

text \<open>A read whose value is a stored record, and what follows it.\<close>

lemma keeps_pick:
  assumes "\<And>i m. i < MaxSlotNum \<Longrightarrow> sm_Id m = int i \<Longrightarrow> keeps (slot_is {} i m) (f i m) (topom_inv {}) (\<lambda>_. topom_inv {})"
    and "keeps (running {}) n (topom_inv {}) (\<lambda>_. topom_inv {})"
  shows "keeps (running {}) (bindT (readT (pickAction accept)) (\<lambda>x. case x of None \<Rightarrow> n | Some (i, m) \<Rightarrow> f i m))
     (topom_inv {}) (\<lambda>_. topom_inv {})"
  unfolding keeps_def
proof (intro allI impI)
  fix s assume s: "running {} s"
  show "case bindT (readT (pickAction accept)) (\<lambda>x. case x of None \<Rightarrow> n | Some (i, m) \<Rightarrow> f i m) s of
      (Inl e, s1) \<Rightarrow> topom_inv {} s1 | (Inr x, s1) \<Rightarrow> topom_inv {} s1"
  proof (cases "pickAction accept s")
    case None
    with assms(2) s show ?thesis by (simp add: keeps_def bindT_def readT_def)
  next
    case (Some x)
    obtain i m where x: "x = (i, m)" by fastforce
    with Some pickAction_in [of accept s i m] length_running [OF s] have i: "i < MaxSlotNum" "m = ctx_slots s ! i" by auto
    with running_ctx [OF s] have "slot_is {} i m s" by (auto simp: stale_def)
    with assms(1) [OF i(1)] slot_is_id Some x show ?thesis by (auto simp: keeps_def bindT_def readT_def)
  qed
qed

lemma keeps_getSlotMapping:
  assumes "\<And>i m. i < MaxSlotNum \<Longrightarrow> sid = int i \<Longrightarrow> sm_Id m = sid \<Longrightarrow>
      keeps (slot_is {} i m) (f m) (topom_inv {}) (\<lambda>_. topom_inv {})"
  shows "keeps (running {}) (bindT (getSlotMapping sid) f) (topom_inv {}) (\<lambda>_. topom_inv {})"
  unfolding keeps_def
proof (intro allI impI)
  fix s assume s: "running {} s"
  show "case bindT (getSlotMapping sid) f s of (Inl e, s1) \<Rightarrow> topom_inv {} s1 | (Inr x, s1) \<Rightarrow> topom_inv {} s1"
  proof (cases "0 \<le> sid \<and> sid < int MaxSlotNum")
    case True
    then obtain i where i: "sid = int i" "i < MaxSlotNum" by (metis nonneg_int_cases of_nat_less_iff)
    with running_ctx [OF s i(2)] have "slot_is {} i (ctx_slots s ! i) s" by (auto simp: stale_def)
    with assms [OF i(2,1)] slot_is_id [OF this] i length_running [OF s] show ?thesis
      by (auto simp: keeps_def bindT_def getSlotMapping_def)
  next
    case False
    with length_running [OF s] s show ?thesis by (auto simp: bindT_def getSlotMapping_def running_inv)
  qed
qed

lemma keeps_stay: "keeps (slot_is X i m) (returnT x) (topom_inv X) (\<lambda>_. topom_inv X)"
    "keeps (slot_is X i m) (failT e) (topom_inv X) (\<lambda>_. topom_inv X)"
    "keeps (running X) (returnT x) (topom_inv X) (\<lambda>_. topom_inv X)"
    "keeps (running X) (failT e) (topom_inv X) (\<lambda>_. topom_inv X)"
  by (auto intro: keeps_return keeps_fail slot_is_inv running_inv)

lemma prepareSwitch_keeps:
  assumes "i < MaxSlotNum" and "sm_Id m = int i"
  shows "keeps (slot_is {} i m) (prepareSwitch i m) (topom_inv {}) (\<lambda>_. topom_inv {})"
  using assms unfolding prepareSwitch_def
  by (cases "sm_State m") (auto intro: keeps_stay prepareFromPending_keeps prepareFromPreparing_keeps
      prepareFromPrepared_keeps)

lemma SlotActionPrepareFilter_inv: "topom_inv {} s \<Longrightarrow> topom_inv {} (snd (SlotActionPrepareFilter accept update u s))"
  unfolding SlotActionPrepareFilter_def
proof (erule op_slot [rotated], rule keeps_pick)
  fix i and m :: SlotMapping
  assume m: "i < MaxSlotNum" "sm_Id m = int i"
  obtain b u1 where b: "update u m = (b, u1)" by fastforce
  have "keeps (slot_is {} i m) (bindT (prepareSwitch i m) (\<lambda>(sid, ok). returnT (sid, ok, u1)))
      (topom_inv {}) (\<lambda>_. topom_inv {})"
    by (rule keeps_bind [OF prepareSwitch_keeps [OF m]]) (auto intro: keeps_return split: prod.splits)
  with b keeps_stay(1) [of "{}" i m "(0, False, u1)"]
  show "keeps (slot_is {} i m) (case update u m of (False, u1) \<Rightarrow> returnT (0, False, u1)
      | (True, u1) \<Rightarrow> bindT (prepareSwitch i m) (\<lambda>(sid, ok). returnT (sid, ok, u1)))
    (topom_inv {}) (\<lambda>_. topom_inv {})" by (cases b) simp_all
qed (rule keeps_stay)

lemma SlotActionComplete_inv: "topom_inv {} s \<Longrightarrow> topom_inv {} (snd (SlotActionComplete sid s))"
  unfolding SlotActionComplete_def
proof (erule op_slot [rotated], rule keeps_getSlotMapping)
  fix i and m :: SlotMapping
  assume m: "i < MaxSlotNum" "sid = int i" "sm_Id m = sid"
  let ?X = "{HookSlot (int i)}" and ?m = "m\<lparr>sm_State := ActionFinished\<rparr>"
  have "keeps (slot_is {} i m) (deferT (dirtySlotsCache (int i))
      (seqT (modifyT (setSlot i ?m)) (seqT (storeUpdateSlotMapping ?m) (completeFromFinished ?m))))
      (topom_inv {}) (\<lambda>_. topom_inv {})" if st: "sm_State m = ActionMigrating"
  proof (rule keeps_defer_is)
    have 1: "keeps (slot_is ?X i m) (modifyT (setSlot i ?m)) (topom_inv ?X) (\<lambda>_. slot_is ?X i m)"
      using m by (intro keeps_setSlot) auto
    have 2: "keeps (slot_is ?X i m) (storeUpdateSlotMapping ?m) (topom_inv ?X) (\<lambda>_. slot_is ?X i ?m)"
      using m st by (intro keeps_told [OF keeps_store_slot]) (auto simp: allowed_def [of m] allowed_def [of ?m])
    have 3: "keeps (slot_is ?X i ?m) (completeFromFinished ?m) (topom_inv ?X) (\<lambda>_. topom_inv ?X)"
      using m by (intro completeFromFinished_keeps) auto
    show "keeps (slot_is ?X i m)
      (seqT (modifyT (setSlot i ?m)) (seqT (storeUpdateSlotMapping ?m) (completeFromFinished ?m)))
      (topom_inv ?X) (\<lambda>_. topom_inv ?X)"
      by (intro keeps_seq [OF 1] keeps_seq [OF 2] 3)
  qed
  with m show "keeps (slot_is {} i m) (case sm_State m of
       ActionMigrating \<Rightarrow> deferT (dirtySlotsCache (sm_Id m)) (let m1 = m\<lparr>sm_State := ActionFinished\<rparr>
         in seqT (modifyT (setSlot (nat sid) m1)) (seqT (storeUpdateSlotMapping m1) (completeFromFinished m1)))
     | ActionFinished \<Rightarrow> completeFromFinished m
     | _ \<Rightarrow> failT (SlotActionInvalid (sm_Id m))) (topom_inv {}) (\<lambda>_. topom_inv {})"
    by (cases "sm_State m") (auto simp: Let_def intro: keeps_stay completeFromFinished_keeps)
qed

lemma SlotRemoveAction_inv: "topom_inv {} s \<Longrightarrow> topom_inv {} (snd (SlotRemoveAction sid s))"
  unfolding SlotRemoveAction_def seq_guard
proof (erule op_slot [rotated], rule keeps_getSlotMapping)
  fix i and m :: SlotMapping
  assume m: "i < MaxSlotNum" "sid = int i" "sm_Id m = sid"
  let ?m = "SlotMapping_of (int i) (sm_GroupId m)" and ?X = "{HookSlot (int i)}"
  have "keeps (slot_is {} i m) (deferT (dirtySlotsCache (int i)) (storeUpdateSlotMapping ?m))
      (topom_inv {}) (\<lambda>_. topom_inv {})" if "sm_State m = ActionPending"
    using m that
    by (intro keeps_defer_is keeps_post [OF keeps_told [OF keeps_store_slot] slot_is_inv])
      (auto simp: SlotMapping_of_def allowed_def)
  with m show "keeps (slot_is {} i m) (if sm_State m \<noteq> ActionNothing then if sm_State m = ActionPending
        then deferT (dirtySlotsCache (sm_Id m)) (storeUpdateSlotMapping (SlotMapping_of (sm_Id m) (sm_GroupId m)))
        else failT (SlotActionNotPending sid) else failT (SlotActionNotExist sid))
      (topom_inv {}) (\<lambda>_. topom_inv {})"
    by (auto intro: keeps_stay)
qed

lemma newSlotActionExecutor_inv: "topom_inv {} s \<Longrightarrow> topom_inv {} (snd (newSlotActionExecutor sid s))"
  unfolding newSlotActionExecutor_def
proof (erule op_slot [rotated], rule keeps_getSlotMapping)
  fix i and m :: SlotMapping
  show "keeps (slot_is {} i m) (case sm_State m of
      ActionMigrating \<Rightarrow>
        bindT (readT (\<lambda>s. t_disabled s \<or> isGroupPromoting (sm_GroupId m) s \<or> isGroupPromoting (sm_TargetId m) s)) (\<lambda>stop.
          if stop then returnT None
          else bindT (readT (\<lambda>s. (getGroupMaster (sm_GroupId m) s, getGroupMaster (sm_TargetId m) s)))
            (\<lambda>(from, dest). seqT (modifyT (\<lambda>s. s\<lparr>t_executor := t_executor s + 1\<rparr>))
               (returnT (Some (ExecMigrate from dest)))))
    | ActionFinished \<Rightarrow> returnT (Some ExecFinished)
    | _ \<Rightarrow> failT (SlotActionInvalid (sm_Id m))) (topom_inv {}) (\<lambda>_. topom_inv {})"
    by (cases "sm_State m")
      (auto simp: keeps_def bindT_def readT_def seqT_def modifyT_def returnT_def failT_def intro: slot_is_inv)
qed

lemma seq_inv:
  assumes "\<And>s. topom_inv {} s \<Longrightarrow> topom_inv {} (snd (m s))" and "\<And>s. topom_inv {} s \<Longrightarrow> topom_inv {} (snd (n s))"
    and "topom_inv {} s"
  shows "topom_inv {} (snd (seqT m n s))"
  using assms(1) [OF assms(3)] assms(2) by (auto simp: seqT_def bindT_def split: prod.splits sum.splits)

lemma runExecutor_inv: "topom_inv {} s \<Longrightarrow> topom_inv {} (snd (runExecutor ex db n dbs s))"
proof (cases ex)
  case (ExecMigrate src dest)
  assume "topom_inv {} s"
  moreover have "topom_inv {} (snd ((if n \<noteq> 0 then returnT (n, db)
      else seqT (callProxy UpdateFailed) (returnT (0, nextDB db dbs))) s))" if "topom_inv {} s" for s
    using that by (auto simp: returnT_def intro!: seq_inv callProxy_inv)
  ultimately have "topom_inv {} (snd ((if src = [] then returnT (0, -1) else
      seqT (callProxy UpdateFailed) (seqT (callProxy UpdateFailed) (seqT (callProxy UpdateFailed)
       (if n \<noteq> 0 then returnT (n, db) else seqT (callProxy UpdateFailed) (returnT (0, nextDB db dbs)))))) s))"
    by (cases "src = []") (simp_all add: returnT_def seq_inv callProxy_inv)
  then show ?thesis
    unfolding runExecutor_def ExecMigrate executor.case deferT_def
    by (auto split: prod.splits)
qed (simp add: runExecutor_def returnT_def)

section \<open>Creating actions\<close>

definition same_slots :: "nat \<Rightarrow> (int \<rightharpoonup> SlotMapping) \<Rightarrow> Topom \<Rightarrow> bool" where
  "same_slots i sl s \<longleftrightarrow> (\<forall>j. j \<noteq> int i \<longrightarrow> slot_at (t_store s) j = slot_of sl j)"

definition groups_ok :: "int set \<Rightarrow> Store \<Rightarrow> bool" where
  "groups_ok G st \<longleftrightarrow> (\<forall>gid \<in> G. group_ok st gid)"

lemma createAction_keeps:
  assumes "i < MaxSlotNum" and "HookSlot (int i) \<in> X" and "sm_Id m = int i" and "sm_State m = ActionNothing"
    and "gid \<in> G"
  shows "keeps (\<lambda>s. slot_is X i m s \<and> groups_ok G (t_store s) \<and> same_slots i sl s) (createAction i m gid)
     (topom_inv X) (\<lambda>_ s. running X s \<and> groups_ok G (t_store s) \<and> same_slots i sl s)"
proof -
  let ?P = "\<lambda>s. slot_is X i m s \<and> groups_ok G (t_store s) \<and> same_slots i sl s"
  have set: "keeps ?P (modifyT (setSlot i m')) (topom_inv X) (\<lambda>_. ?P)" if "sm_Id m' = int i" for m'
    using that assms(2) by (intro keeps_modify) (auto simp: slot_is_def running_setSlot same_slots_def)
  have "keeps ?P (storeUpdateSlotMapping (m\<lparr>sm_State := ActionPending, sm_Index := n, sm_TargetId := gid\<rparr>))
     (topom_inv X) (\<lambda>_ s. running X s \<and> groups_ok G (t_store s) \<and> same_slots i sl s)" for n
    unfolding storeUpdateSlotMapping_def
  proof (rule keeps_write)
    fix s e assume s: "?P s"
    let ?m = "m\<lparr>sm_State := ActionPending, sm_Index := n, sm_TargetId := gid\<rparr>"
    have "group_ok (t_store s) (sm_GroupId m)"
      using s assms(1) by (auto simp: slot_is_def running_iff refs_def)
    moreover have "told (int i) (allowed ?m) s"
      using s assms(4) by (intro told_mono [OF slot_is_told]) (auto simp: allowed_def)
    ultimately have *: "running X (s\<lparr>t_env := e, t_store := put_slot ?m (t_store s)\<rparr>)"
      using s assms(2,3,5) by (intro running_put_slot) (auto simp: slot_is_def groups_ok_def)
    then show "topom_inv X (s\<lparr>t_env := e, t_store := put_slot ?m (t_store s)\<rparr>)" by (rule running_inv)
    show "running X (s\<lparr>t_env := e, t_store := put_slot ?m (t_store s)\<rparr>) \<and>
        groups_ok G (t_store (s\<lparr>t_env := e, t_store := put_slot ?m (t_store s)\<rparr>)) \<and>
        same_slots i sl (s\<lparr>t_env := e, t_store := put_slot ?m (t_store s)\<rparr>)"
      using * s assms(3) slot_at_put [of "t_store s" ?m] by (simp add: same_slots_def groups_ok_def)
  qed (auto simp: slot_is_inv)
  then show ?thesis
    unfolding createAction_def Let_def
    by (intro keeps_seq [OF set] keeps_any_read) (auto simp: assms(3))
qed

definition can_create :: "hook set \<Rightarrow> int list \<Rightarrow> int set \<Rightarrow> Topom \<Rightarrow> bool" where
  "can_create X sids G s \<longleftrightarrow> running X s \<and> groups_ok G (t_store s) \<and>
     (\<forall>sid \<in> set sids. \<not> stale X (HookSlot sid) \<and> sm_State (slot_at (t_store s) sid) = ActionNothing)"

lemma planSlots_keeps:
  "distinct (map fst ps) \<Longrightarrow> snd ` set ps \<subseteq> G \<Longrightarrow>
   keeps (can_create X (map fst ps) G) (planSlots ps) (topom_inv X) (\<lambda>_. topom_inv X)"
proof (induction ps arbitrary: X)
  case Nil
  show ?case by (simp add: keeps_def returnT_def can_create_def running_inv)
next
  case (Cons p ps)
  obtain sid gid where p: "p = (sid, gid)" by fastforce
  define sids where "sids = map fst ps"
  have fst: "map fst (p # ps) = sid # sids" and gid: "gid \<in> G" and ps: "snd ` set ps \<subseteq> G" and
    d: "distinct (sid # sids)"
    using Cons.prems p by (simp_all add: sids_def)
  let ?X = "insert (HookSlot sid) X"
  have get: "keeps (can_create X (sid # sids) G) (getSlotMapping sid) (topom_inv X)
      (\<lambda>m s. can_create X (sid # sids) G s \<and> slot_is X (nat sid) m s \<and> sm_State m = ActionNothing \<and>
        0 \<le> sid \<and> sid < int MaxSlotNum)"
    unfolding keeps_def
  proof (intro allI impI)
    fix s assume s: "can_create X (sid # sids) G s"
    then have run: "running X s" "\<not> stale X (HookSlot sid)" "sm_State (slot_at (t_store s) sid) = ActionNothing"
      by (simp_all add: can_create_def)
    have "slot_is X (nat sid) (ctx_slots s ! nat sid) s" if "0 \<le> sid" "sid < int MaxSlotNum"
      using running_ctx [OF run(1), of "nat sid"] run(2) that by simp
    with s run length_running [OF run(1)] show "case getSlotMapping sid s of (Inl e, s1) \<Rightarrow> topom_inv X s1
        | (Inr m, s1) \<Rightarrow> can_create X (sid # sids) G s1 \<and> slot_is X (nat sid) m s1 \<and> sm_State m = ActionNothing \<and>
          0 \<le> sid \<and> sid < int MaxSlotNum"
      by (auto simp: getSlotMapping_def running_inv slot_is_def)
  qed
  have body: "keeps (\<lambda>s. can_create X (sid # sids) G s \<and> slot_is X (nat sid) m s \<and> sm_State m = ActionNothing \<and>
        0 \<le> sid \<and> sid < int MaxSlotNum)
      (deferT (dirtySlotsCache (sm_Id m)) (seqT (createAction (nat sid) m gid) (planSlots ps)))
      (topom_inv X) (\<lambda>_. topom_inv X)" for m
  proof (rule keeps_ghost [where f = "st_slots \<circ> t_store"], rule keeps_fact)
    fix sl s
    assume "(can_create X (sid # sids) G s \<and> slot_is X (nat sid) m s \<and> sm_State m = ActionNothing \<and>
        0 \<le> sid \<and> sid < int MaxSlotNum) \<and> (st_slots \<circ> t_store) s = sl"
    with d slot_is_id [of X "nat sid" m s] show "nat sid < MaxSlotNum \<and> sm_Id m = sid \<and> 0 \<le> sid \<and>
        sm_State m = ActionNothing \<and>
        (\<forall>j \<in> set sids. \<not> stale ?X (HookSlot j) \<and> j \<noteq> sid \<and> sm_State (slot_of sl j) = ActionNothing)"
      by (auto simp: can_create_def stale_def slot_at_slot_of)
  next
    fix sl
    assume f: "nat sid < MaxSlotNum \<and> sm_Id m = sid \<and> 0 \<le> sid \<and> sm_State m = ActionNothing \<and>
        (\<forall>j \<in> set sids. \<not> stale ?X (HookSlot j) \<and> j \<noteq> sid \<and> sm_State (slot_of sl j) = ActionNothing)"
    have 1: "keeps (\<lambda>s. slot_is ?X (nat sid) m s \<and> groups_ok G (t_store s) \<and> same_slots (nat sid) sl s)
        (createAction (nat sid) m gid) (topom_inv ?X) (\<lambda>_. can_create ?X sids G)"
      using f gid by (intro keeps_post [OF createAction_keeps]) (auto simp: can_create_def same_slots_def)
    have "distinct (map fst ps)" using d by (simp add: sids_def)
    note 2 = keeps_seq [OF 1 Cons.IH [OF this ps, folded sids_def]]
    have e: "int (nat sid) = sid" and m: "sm_Id m = sid" using f by simp_all
    note 3 = keeps_defer_slot [where i = "nat sid" and X = X, unfolded e, OF 2]
    show "keeps (\<lambda>s. (can_create X (sid # sids) G s \<and> slot_is X (nat sid) m s \<and> sm_State m = ActionNothing \<and>
        0 \<le> sid \<and> sid < int MaxSlotNum) \<and> (st_slots \<circ> t_store) s = sl)
      (deferT (dirtySlotsCache (sm_Id m)) (seqT (createAction (nat sid) m gid) (planSlots ps)))
      (topom_inv X) (\<lambda>_. topom_inv X)"
      unfolding m by (rule keeps_pre [OF 3]) (auto simp: can_create_def same_slots_def slot_at_slot_of)
  qed
  show ?case unfolding planSlots.simps fst using keeps_bind [OF get body] by (simp add: p)
qed

lemma createActions_plan: "createActions sids gid = planSlots (map (\<lambda>sid. (sid, gid)) sids)"
  by (induction sids) simp_all

lemma keeps_if: "(b \<Longrightarrow> keeps P m K Q) \<Longrightarrow> (\<not> b \<Longrightarrow> keeps P n K Q) \<Longrightarrow> keeps P (if b then m else n) K Q"
  by simp

text \<open>A group that the context shows with a server is one a slot may refer to.\<close>

lemma keeps_getGroup:
  assumes "\<And>g. g_Id g = gid \<Longrightarrow> keeps (\<lambda>s. running {} s \<and> (g_Servers g \<noteq> [] \<longrightarrow> group_ok (t_store s) gid))
      (f g) (topom_inv {}) (\<lambda>_. topom_inv {})"
  shows "keeps (running {}) (bindT (getGroup gid) f) (topom_inv {}) (\<lambda>_. topom_inv {})"
  unfolding keeps_def
proof (intro allI impI)
  fix s assume s: "running {} s"
  show "case bindT (getGroup gid) f s of (Inl e, s1) \<Rightarrow> topom_inv {} s1 | (Inr x, s1) \<Rightarrow> topom_inv {} s1"
  proof (cases "lookupGroup gid s")
    case None
    with s show ?thesis by (simp add: bindT_def getGroup_def running_inv)
  next
    case (Some g)
    from s have good: "good {} s" "filled s" "t_hooks s = []" by (simp_all add: running_def topom_inv_def)
    have "g_Id g = gid" using good(1) Some by (rule lookupGroup_id)
    moreover have "map_of (st_group (t_store s)) gid = Some g"
      using lookupGroup_store [OF good] Some by (auto simp: stale_def)
    then have "g_Servers g \<noteq> [] \<longrightarrow> group_ok (t_store s) gid" by (auto simp: group_ok_def)
    ultimately show ?thesis
      using assms [of g] s Some by (auto simp: keeps_def bindT_def getGroup_def)
  qed
qed

lemma keeps_snd: "keeps P m K (\<lambda>_. K) \<longleftrightarrow> (\<forall>s. P s \<longrightarrow> K (snd (m s)))"
proof -
  have "(case x of (Inl e, s1) \<Rightarrow> K s1 | (Inr y, s1) \<Rightarrow> K s1) \<longleftrightarrow> K (snd x)" for x :: "(topom_error + 'a) \<times> Topom"
    by (cases x; cases "fst x") auto
  then show ?thesis by (simp add: keeps_def)
qed

lemma seq_return: "seqT m (returnT ()) = m"
  by (auto simp: seqT_def bindT_def returnT_def fun_eq_iff split: prod.splits sum.splits)

text \<open>A slot without an action, as the context shows it, can be given one.\<close>

lemma running_can_create:
  assumes "running {} s" and "groups_ok G (t_store s)"
    and "\<And>sid. sid \<in> set sids \<Longrightarrow> 0 \<le> sid \<and> sid < int MaxSlotNum \<and> sm_State (ctx_slots s ! nat sid) = ActionNothing"
  shows "can_create {} sids G s"
proof -
  have "sm_State (slot_at (t_store s) sid) = ActionNothing" if "sid \<in> set sids" for sid
    using running_ctx [OF assms(1), of "nat sid"] assms(3) [OF that] by (auto simp: slot_is_def stale_def)
  with assms(1,2) show ?thesis by (simp add: can_create_def stale_def)
qed

lemma planSlots_inv:
  "running {} s \<Longrightarrow> groups_ok (snd ` set ps) (t_store s) \<Longrightarrow> distinct (map fst ps) \<Longrightarrow>
   (\<And>sid. sid \<in> set (map fst ps) \<Longrightarrow>
      0 \<le> sid \<and> sid < int MaxSlotNum \<and> sm_State (ctx_slots s ! nat sid) = ActionNothing) \<Longrightarrow>
   topom_inv {} (snd (planSlots ps s))"
  using planSlots_keeps [of ps "snd ` set ps" "{}"] running_can_create [of s "snd ` set ps" "map fst ps"]
  unfolding keeps_snd by blast

lemma createActions_inv:
  "running {} s \<Longrightarrow> group_ok (t_store s) gid \<Longrightarrow> distinct sids \<Longrightarrow>
   (\<And>sid. sid \<in> set sids \<Longrightarrow> 0 \<le> sid \<and> sid < int MaxSlotNum \<and> sm_State (ctx_slots s ! nat sid) = ActionNothing) \<Longrightarrow>
   topom_inv {} (snd (createActions sids gid s))"
  unfolding createActions_plan by (rule planSlots_inv) (auto simp: groups_ok_def comp_def)

lemma SlotCreateAction_inv: "topom_inv {} s \<Longrightarrow> topom_inv {} (snd (SlotCreateAction sid gid s))"
proof (unfold SlotCreateAction_def seq_guard, erule op_slot [rotated], rule keeps_getGroup)
  fix g assume g: "g_Id g = gid"
  show "keeps (\<lambda>s. running {} s \<and> (g_Servers g \<noteq> [] \<longrightarrow> group_ok (t_store s) gid))
      (if g_Servers g \<noteq> [] then bindT (getSlotMapping sid) (\<lambda>m.
         if sm_State m = ActionNothing then
           if sm_GroupId m \<noteq> gid then deferT (dirtySlotsCache (sm_Id m)) (createAction (nat sid) m (g_Id g))
           else failT (SlotAlreadyInGroup sid gid)
         else failT (SlotActionExists sid)) else failT (GroupEmpty gid)) (topom_inv {}) (\<lambda>_. topom_inv {})"
    unfolding keeps_snd g
  proof (intro allI impI)
    fix s assume s: "running {} s \<and> (g_Servers g \<noteq> [] \<longrightarrow> group_ok (t_store s) gid)"
    then have inv: "topom_inv {} s" by (simp add: running_inv)
    have "topom_inv {} (snd (createActions [sid] gid s))"
      if "g_Servers g \<noteq> []" "0 \<le> sid" "sid < int MaxSlotNum" "sm_State (ctx_slots s ! nat sid) = ActionNothing"
      using s that by (intro createActions_inv) auto
    with inv length_running [of "{}" s] s show "topom_inv {} (snd ((if g_Servers g \<noteq> [] then bindT (getSlotMapping sid) (\<lambda>m.
         if sm_State m = ActionNothing then
           if sm_GroupId m \<noteq> gid then deferT (dirtySlotsCache (sm_Id m)) (createAction (nat sid) m gid)
           else failT (SlotAlreadyInGroup sid gid)
         else failT (SlotActionExists sid)) else failT (GroupEmpty gid)) s))"
      by (auto simp: bindT_def getSlotMapping_def failT_def seq_return split: if_splits)
  qed
qed

lemma distinct_slot_ids: "running {} s \<Longrightarrow> distinct (map sm_Id (ctx_slots s))"
proof -
  assume s: "running {} s"
  then have good: "good {} s" "filled s" by (simp_all add: running_def topom_inv_def)
  have "map sm_Id (ctx_slots s) = map int [0..<MaxSlotNum]"
    using ctx_slots_id [OF good] length_running [OF s] by (intro nth_equalityI) auto
  then show ?thesis by (simp add: distinct_map)
qed

lemma running_slot_in:
  assumes "running {} s" and "m \<in> set (ctx_slots s)"
  shows "0 \<le> sm_Id m \<and> sm_Id m < int MaxSlotNum \<and> ctx_slots s ! nat (sm_Id m) = m"
proof -
  from assms have good: "good {} s" "filled s" by (simp_all add: running_def topom_inv_def)
  from assms length_running obtain i where i: "i < MaxSlotNum" "m = ctx_slots s ! i"
    by (metis in_set_conv_nth)
  with ctx_slots_id [OF good i(1)] show ?thesis by simp
qed

lemma SlotCreateActionSome_inv: "topom_inv {} s \<Longrightarrow> topom_inv {} (snd (SlotCreateActionSome a b n s))"
proof (unfold SlotCreateActionSome_def seq_guard, erule op_slot [rotated], rule keeps_getGroup)
  fix g assume g: "g_Id g = b"
  show "keeps (\<lambda>s. running {} s \<and> (g_Servers g \<noteq> [] \<longrightarrow> group_ok (t_store s) b))
      (if g_Servers g \<noteq> [] then bindT (readT ctx_slots) (\<lambda>slots. createActions (take (nat n)
         (map sm_Id (filter (\<lambda>m. sm_State m = ActionNothing \<and> sm_GroupId m = a \<and> sm_GroupId m \<noteq> g_Id g) slots))) (g_Id g))
       else failT (GroupEmpty (g_Id g))) (topom_inv {}) (\<lambda>_. topom_inv {})"
    unfolding keeps_snd g
  proof (intro allI impI)
    fix s assume s: "running {} s \<and> (g_Servers g \<noteq> [] \<longrightarrow> group_ok (t_store s) b)"
    let ?l = "take (nat n) (map sm_Id (filter (\<lambda>m. sm_State m = ActionNothing \<and> sm_GroupId m = a \<and> sm_GroupId m \<noteq> b) (ctx_slots s)))"
    have d: "distinct ?l"
      using s by (intro distinct_take distinct_map_filter distinct_slot_ids) simp
    have st: "0 \<le> sid \<and> sid < int MaxSlotNum \<and> sm_State (ctx_slots s ! nat sid) = ActionNothing" if "sid \<in> set ?l" for sid
      using that s by (auto dest!: in_set_takeD running_slot_in [rotated])
    have "topom_inv {} (snd (createActions ?l b s))" if "g_Servers g \<noteq> []"
      using s that d st by (intro createActions_inv) auto
    with s show "topom_inv {} (snd ((if g_Servers g \<noteq> [] then bindT (readT ctx_slots) (\<lambda>slots. createActions (take (nat n)
         (map sm_Id (filter (\<lambda>m. sm_State m = ActionNothing \<and> sm_GroupId m = a \<and> sm_GroupId m \<noteq> b) slots))) b)
       else failT (GroupEmpty b)) s))"
      by (simp add: bindT_def readT_def failT_def running_inv)
  qed
qed

lemma rangePending_ok:
  "running {} s \<Longrightarrow> \<forall>sid \<in> set sids. 0 \<le> sid \<and> sid < int MaxSlotNum \<Longrightarrow> rangePending sids g must acc s = (r, s1) \<Longrightarrow>
   s1 = s \<and> (\<forall>l. r = Inr l \<longrightarrow> (\<exists>l'. l = acc @ l' \<and> (distinct sids \<longrightarrow> distinct l') \<and>
     set l' \<subseteq> {sid \<in> set sids. sm_State (ctx_slots s ! nat sid) = ActionNothing}))"
proof (induction sids arbitrary: acc)
  case Nil
  then show ?case by (auto simp: returnT_def)
next
  case (Cons sid sids)
  let ?m = "ctx_slots s ! nat sid"
  have get: "getSlotMapping sid s = (Inr ?m, s)"
    using Cons.prems(1,2) length_running by (simp add: getSlotMapping_def)
  have id: "sm_Id ?m = sid"
    using running_ctx [OF Cons.prems(1), of "nat sid"] Cons.prems(2) slot_is_id [of "{}" "nat sid" ?m s]
    by (auto simp: stale_def)
  note IH = Cons.IH [OF Cons.prems(1)]
  from Cons.prems(2) have ids: "\<forall>sid \<in> set sids. 0 \<le> sid \<and> sid < int MaxSlotNum" by simp
  show ?case
  proof (cases "sm_State ?m = ActionNothing \<and> sm_GroupId ?m \<noteq> g_Id g")
    case True
    with Cons.prems(3) get id have "rangePending sids g must (acc @ [sid]) s = (r, s1)" by (simp add: bindT_def)
    from IH [OF ids this] True show ?thesis by fastforce
  next
    case False
    with Cons.prems(3) get consider "rangePending sids g must acc s = (r, s1)" | e where "r = Inl e" "s1 = s"
      by (cases must) (auto simp: bindT_def failT_def split: if_splits)
    then show ?thesis using IH [OF ids] by cases fastforce+
  qed
qed

lemma SlotCreateActionRange_inv: "topom_inv {} s \<Longrightarrow> topom_inv {} (snd (SlotCreateActionRange beg hi gid must s))"
proof (unfold SlotCreateActionRange_def seq_guard, erule op_slot [rotated], rule keeps_if, rule keeps_getGroup)
  fix g :: Group assume g: "g_Id g = gid" and range: "beg \<ge> 0 \<and> beg \<le> hi \<and> hi < int MaxSlotNum"
  show "keeps (\<lambda>s. running {} s \<and> (g_Servers g \<noteq> [] \<longrightarrow> group_ok (t_store s) gid))
      (if g_Servers g \<noteq> [] then bindT (rangePending [beg..hi] g must []) (\<lambda>sids. createActions sids (g_Id g))
       else failT (GroupEmpty (g_Id g))) (topom_inv {}) (\<lambda>_. topom_inv {})"
    unfolding keeps_snd g
  proof (intro allI impI)
    fix s assume s: "running {} s \<and> (g_Servers g \<noteq> [] \<longrightarrow> group_ok (t_store s) gid)"
    obtain r s1 where r: "rangePending [beg..hi] g must [] s = (r, s1)" by fastforce
    have "\<forall>sid \<in> set [beg..hi]. 0 \<le> sid \<and> sid < int MaxSlotNum" using range by auto
    from rangePending_ok [OF _ this r] s have r1: "s1 = s" "\<And>l. r = Inr l \<Longrightarrow> distinct l \<and>
        set l \<subseteq> {sid \<in> set [beg..hi]. sm_State (ctx_slots s ! nat sid) = ActionNothing}" by auto
    have "topom_inv {} (snd (createActions l gid s))" if "r = Inr l" "g_Servers g \<noteq> []" for l
      using r1(2) [OF that(1)] s that(2) range by (intro createActions_inv) auto
    with r r1(1) s show "topom_inv {} (snd ((if g_Servers g \<noteq> [] then bindT (rangePending [beg..hi] g must [])
        (\<lambda>sids. createActions sids gid) else failT (GroupEmpty gid)) s))"
      by (auto simp: bindT_def failT_def running_inv split: sum.splits)
  qed
qed (rule keeps_stay)

end
