(* ===== verification/TopomAction.thy ===== *)
theory TopomAction
  imports TopomSentinel
begin

text \<open>
  The loops of \<open>src/pkg/topom/topom_action.go\<close> that run the pending actions.  A loop that runs while the
  dashboard is online has fuel, and gives \<open>None\<close> when it has used it up.  The goroutines of
  \<open>ProcessSlotAction\<close>, one per planned slot, run one after the other here; they work on slots of
  disjoint groups, and each step of theirs is an operation of its own under the lock, so what is
  proved of all sequences of operations covers their interleavings.  \<open>answers\<close> is what the servers
  report to a step of a migration: the keys that are left, and the databases that hold keys.
\<close>

section \<open>The plan\<close>

text \<open>The maps \<open>marks\<close> and \<open>plans\<close>, as the lists of the keys they hold.\<close>

type_synonym plan = "int list \<times> int list"

definition plan_accept :: "plan \<Rightarrow> SlotMapping \<Rightarrow> bool" where
  "plan_accept u m \<longleftrightarrow>
     (case u of (marks, plans) \<Rightarrow>
        \<not> (sm_GroupId m \<in> set marks \<or> sm_TargetId m \<in> set marks) \<and> sm_Id m \<notin> set plans)"

definition plan_update :: "plan \<Rightarrow> SlotMapping \<Rightarrow> bool \<times> plan" where
  "plan_update u m =
     (case u of (marks, plans) \<Rightarrow>
        let marks1 = (if sm_GroupId m \<noteq> 0 then List.insert (sm_GroupId m) marks else marks)
        in (True, List.insert (sm_TargetId m) marks1, List.insert (sm_Id m) plans))"

primrec planActions :: "nat \<Rightarrow> nat \<Rightarrow> plan \<Rightarrow> plan option topom_op" where
  "planActions 0 par u = returnT None"
| "planActions (Suc fuel) par u =
     (if par > length (snd u) then
        bindT (SlotActionPrepareFilter (plan_accept u) plan_update u) (\<lambda>(sid, ok, u1).
          if \<not> ok then returnT (Some u1) else planActions fuel par u1)
      else returnT (Some u))"

section \<open>Running an action\<close>

primrec processSlotAction :: "nat \<Rightarrow> int \<Rightarrow> int \<Rightarrow> (int \<times> int list) list \<Rightarrow> unit option topom_op" where
  "processSlotAction 0 sid db answers = returnT None"
| "processSlotAction (Suc fuel) sid db answers =
     bindT (readT IsOnline) (\<lambda>online.
       if \<not> online then returnT (Some ())
       else
         bindT (newSlotActionExecutor sid) (\<lambda>ex.
           case ex of
             None \<Rightarrow> processSlotAction fuel sid db answers
           | Some ex1 \<Rightarrow>
               (case (case answers of [] \<Rightarrow> ((0, []), []) | a # as \<Rightarrow> (a, as)) of
                  ((left, dbs), answers1) \<Rightarrow>
                    bindT (runExecutor ex1 db left dbs) (\<lambda>(n, nextdb).
                      if n = 0 \<and> nextdb = -1 then seqT (SlotActionComplete sid) (returnT (Some ()))
                      else processSlotAction fuel sid nextdb answers1))))"

text \<open>Every planned slot is processed; then one of the errors is returned, if there are any.\<close>

primrec processSlots :: "nat \<Rightarrow> (int \<Rightarrow> (int \<times> int list) list) \<Rightarrow> int list \<Rightarrow> unit option topom_op" where
  "processSlots fuel answers [] = returnT (Some ())"
| "processSlots fuel answers (sid # sids) =
     (\<lambda>s. case processSlotAction fuel sid 0 (answers sid) s of
        (Inr None, s1) \<Rightarrow> (Inr None, s1)
      | (Inr (Some _), s1) \<Rightarrow> processSlots fuel answers sids s1
      | (Inl e, s1) \<Rightarrow> seqT (bindT (processSlots fuel answers sids) (\<lambda>_. returnT ())) (failT e) s1)"

primrec ProcessSlotAction :: "nat \<Rightarrow> nat \<Rightarrow> (int \<Rightarrow> (int \<times> int list) list) \<Rightarrow> unit option topom_op" where
  "ProcessSlotAction 0 parSlots answers = returnT None"
| "ProcessSlotAction (Suc fuel) parSlots answers =
     bindT (readT IsOnline) (\<lambda>online.
       if \<not> online then returnT (Some ())
       else
         let par = max 1 parSlots
         in bindT (planActions (Suc par) par ([], [])) (\<lambda>u_opt.
              case u_opt of
                None \<Rightarrow> returnT None
              | Some (marks, plans) \<Rightarrow>
                  if length plans = 0 then returnT (Some ())
                  else
                    bindT (processSlots fuel answers plans) (\<lambda>r.
                      case r of None \<Rightarrow> returnT None | Some _ \<Rightarrow> ProcessSlotAction fuel parSlots answers)))"

section \<open>Synchronisation of a server\<close>

definition ProcessSyncAction :: "unit topom_op" where
  "ProcessSyncAction =
     bindT SyncActionPrepare (\<lambda>addr.
       if addr = [] then returnT ()
       else
         bindT (newSyncActionExecutor addr) (\<lambda>ex.
           case ex of
             None \<Rightarrow> returnT ()
           | Some _ \<Rightarrow>
               bindT (catchT (seqT runSyncExecutor (returnT False)) (\<lambda>_. returnT True)) (\<lambda>failed.
                 SyncActionComplete addr failed)))"

end
