(* ===== verification/OpInv.thy ===== *)
theory OpInv
  imports SlotInv TopomAction
begin

text \<open>
  The access list, the limit and the loops that run the actions keep the invariant.  The updates
  of the access list and of the limit do so unless the write of the store reports an error: the
  code marks the cached record as stale after a successful write only.
\<close>

section \<open>Access list and limit\<close>

lemma store_then_dirty:
  assumes "topom_inv {} s" and "\<And>e. topom_inv {h} (s\<lparr>t_env := e, t_store := f (t_store s)\<rparr>)" and "outer n"
    and "fst (seqT (storeWrite f) (seqT (modifyT (pushHook h)) n) s) \<noteq> Inl UpdateFailed"
  shows "topom_inv {} (snd (seqT (storeWrite f) (seqT (modifyT (pushHook h)) n) s))"
proof -
  obtain x s1 where x: "next_outcome s = (x, s1)" by fastforce
  then obtain e where s1: "s1 = s\<lparr>t_env := e\<rparr>" using next_outcome_env unfolding env_step_def by blast
  have "x = Done"
    using assms(4) x by (cases x) (auto simp: seqT_def bindT_def storeWrite_def split: nat.splits)
  with x s1 have "seqT (storeWrite f) (seqT (modifyT (pushHook h)) n) s =
      n (pushHook h (s\<lparr>t_env := e, t_store := f (t_store s)\<rparr>))"
    by (simp add: seqT_def bindT_def storeWrite_def modifyT_def)
  with assms(2) [of e] show ?thesis by (simp add: outer_inv [OF assms(3)] inv_push)
qed

lemma stored_acl: "topom_inv {} s \<Longrightarrow> topom_inv {HookACL} (s\<lparr>t_env := e, t_store := (t_store s)\<lparr>st_acl := Some acl\<rparr>\<rparr>)"
proof -
  assume "topom_inv {} s"
  then have "topom_inv {HookACL} s" by (rule topom_inv_mono) simp
  then show ?thesis
    by (simp add: topom_inv_def good_def coh_def safe_def registered_def wf_store_def slots_coh_def slot_at_def
        one_coh_def stale_def refs_def group_ok_def)
qed

lemma stored_limit: "topom_inv {} s \<Longrightarrow> topom_inv {HookQPS} (s\<lparr>t_env := e, t_store := (t_store s)\<lparr>st_qps := Some c\<rparr>\<rparr>)"
proof -
  assume "topom_inv {} s"
  then have "topom_inv {HookQPS} s" by (rule topom_inv_mono) simp
  then show ?thesis
    by (simp add: topom_inv_def good_def coh_def safe_def registered_def wf_store_def slots_coh_def slot_at_def
        one_coh_def stale_def refs_def group_ok_def)
qed

lemma UpdateACL_inv:
  assumes "topom_inv {} s" and "fst (UpdateACL now req s) \<noteq> Inl UpdateFailed"
  shows "topom_inv {} (snd (UpdateACL now req s))"
proof -
  obtain r1 s1 where r1: "newContext s = (r1, s1)" by fastforce
  with newContext_inv [OF assms(1)] have s1: "topom_inv {} s1" by simp
  show ?thesis
  proof (cases "\<exists>acl. r1 = Inr () \<and> buildACL (t_BackendAuthUsername s1) now (ctx_acl s1) req = Inr acl")
    case True
    then obtain acl where acl: "r1 = Inr ()" "buildACL (t_BackendAuthUsername s1) now (ctx_acl s1) req = Inr acl" by blast
    obtain r2 s2 where r2: "syncACLToRedis acl s1 = (r2, s2)" by fastforce
    with outer_inv [OF outer_syncACLToRedis, of "{}" acl s1] s1 have s2: "topom_inv {} s2" by simp
    let ?m = "seqT (storeUpdateACL acl) (seqT (modifyT dirtyACLCache) (finishACL acl))"
    have eq: "UpdateACL now req s = (case r2 of Inl e \<Rightarrow> (Inl e, s2) | Inr _ \<Rightarrow> ?m s2)"
      using r1 acl r2 by (simp add: UpdateACL_def seqT_def bindT_def readT_def split: sum.splits)
    have "topom_inv {} (snd (?m s2))" if "fst (?m s2) \<noteq> Inl UpdateFailed"
      using that unfolding storeUpdateACL_def dirtyACLCache_def
      by (intro store_then_dirty [OF s2 _ outer_finishACL]) (simp_all add: stored_acl [OF s2])
    with assms(2) s2 show ?thesis unfolding eq by (cases r2) simp_all
  next
    case False
    with r1 s1 show ?thesis
      by (auto simp: UpdateACL_def seqT_def bindT_def readT_def failT_def split: sum.splits)
  qed
qed

lemma UpdateProxyQPSLimit_inv:
  assumes "topom_inv {} s" and "fst (UpdateProxyQPSLimit now req s) \<noteq> Inl UpdateFailed"
  shows "topom_inv {} (snd (UpdateProxyQPSLimit now req s))"
proof -
  obtain r1 s1 where r1: "newContext s = (r1, s1)" by fastforce
  with newContext_inv [OF assms(1)] have s1: "topom_inv {} s1" by simp
  show ?thesis
  proof (cases "\<exists>c. r1 = Inr () \<and> buildProxyQPSLimit now (ctx_proxyQPSLimit s1) req = Inr c")
    case True
    then obtain c where c: "r1 = Inr ()" "buildProxyQPSLimit now (ctx_proxyQPSLimit s1) req = Inr c" by blast
    let ?n = "seqT (syncProxyQPSLimitToProxies c) (returnT (newProxyQPSLimitView c ''ready''))"
    let ?m = "seqT (storeUpdateProxyQPSLimit c) (seqT (modifyT dirtyProxyQPSLimitCache) ?n)"
    have eq: "UpdateProxyQPSLimit now req s = ?m s1"
      using r1 c by (simp add: UpdateProxyQPSLimit_def seqT_def bindT_def readT_def)
    have "outer ?n" by (intro outer_rules outer_syncProxyQPSLimitToProxies)
    then show ?thesis
      using assms(2) unfolding eq storeUpdateProxyQPSLimit_def dirtyProxyQPSLimitCache_def
      by (intro store_then_dirty [OF s1]) (simp_all add: stored_limit [OF s1])
  next
    case False
    with r1 s1 show ?thesis
      by (auto simp: UpdateProxyQPSLimit_def seqT_def bindT_def readT_def failT_def split: sum.splits)
  qed
qed

section \<open>Operations that keep the invariant\<close>

definition inv_op :: "'a topom_op \<Rightarrow> bool" where
  "inv_op m \<longleftrightarrow> (\<forall>s. topom_inv {} s \<longrightarrow> topom_inv {} (snd (m s)))"

lemma inv_op_bind: "inv_op m \<Longrightarrow> (\<And>x. inv_op (f x)) \<Longrightarrow> inv_op (bindT m f)"
  unfolding inv_op_def bindT_def by (force split: prod.splits sum.splits)

lemma inv_op_seq: "inv_op m \<Longrightarrow> inv_op n \<Longrightarrow> inv_op (seqT m n)"
  unfolding seqT_def by (rule inv_op_bind)

lemma inv_op_if: "(b \<Longrightarrow> inv_op m) \<Longrightarrow> (\<not> b \<Longrightarrow> inv_op n) \<Longrightarrow> inv_op (if b then m else n)"
  by simp

lemma inv_op_option: "inv_op m \<Longrightarrow> (\<And>x. inv_op (f x)) \<Longrightarrow> inv_op (case z of None \<Rightarrow> m | Some x \<Rightarrow> f x)"
  by (cases z) simp_all

lemma inv_op_pair: "(\<And>x y. inv_op (f x y)) \<Longrightarrow> inv_op (case z of (x, y) \<Rightarrow> f x y)"
  by (cases z) simp

lemma inv_op_outer: "outer m \<Longrightarrow> inv_op m"
  by (simp add: inv_op_def outer_inv)

lemma inv_op_newContext: "inv_op newContext"
  by (simp add: inv_op_def newContext_inv)

lemma inv_op_actions:
  "inv_op (SlotActionPrepareFilter accept update u)" "inv_op (newSlotActionExecutor sid)"
  "inv_op (runExecutor ex db n dbs)" "inv_op (SlotActionComplete sid)"
  by (simp_all add: inv_op_def SlotActionPrepareFilter_inv newSlotActionExecutor_inv runExecutor_inv SlotActionComplete_inv)

lemma inv_op_sync:
  "inv_op SyncActionPrepare" "inv_op (newSyncActionExecutor addr)" "inv_op (SyncActionComplete addr failed)"
  by (simp_all add: inv_op_def SyncActionPrepare_inv newSyncActionExecutor_inv SyncActionComplete_inv)

lemmas inv_op_rules = inv_op_if inv_op_option inv_op_pair outer_leaves [THEN inv_op_outer] inv_op_seq inv_op_bind

lemma inv_opD: "inv_op m \<Longrightarrow> topom_inv {} s \<Longrightarrow> topom_inv {} (snd (m s))"
  by (simp add: inv_op_def)

lemma GetACL_inv: "topom_inv {} s \<Longrightarrow> topom_inv {} (snd (GetACL s))"
  unfolding GetACL_def by (rule inv_opD) (intro inv_op_rules inv_op_newContext)

lemma SyncACL_inv: "topom_inv {} s \<Longrightarrow> topom_inv {} (snd (SyncACL s))"
  unfolding SyncACL_def
  by (rule inv_opD) (intro inv_op_rules inv_op_newContext outer_syncACLToRedis [THEN inv_op_outer]
      outer_finishACL [THEN inv_op_outer])

lemma GetProxyQPSLimit_inv: "topom_inv {} s \<Longrightarrow> topom_inv {} (snd (GetProxyQPSLimit stats s))"
  unfolding GetProxyQPSLimit_def snapshotProxyQPSLimit_def
  by (rule inv_opD) (intro inv_op_rules inv_op_newContext)

lemma SlotActionPrepare_inv: "topom_inv {} s \<Longrightarrow> topom_inv {} (snd (SlotActionPrepare s))"
  unfolding SlotActionPrepare_def by (rule inv_opD) (intro inv_op_rules inv_op_actions)

section \<open>The loops\<close>

lemma inv_op_planActions: "inv_op (planActions fuel par u)"
proof (induction fuel arbitrary: u)
  case (Suc fuel)
  then show ?case unfolding planActions.simps by (intro inv_op_rules inv_op_actions Suc.IH)
qed (simp add: inv_op_rules)

lemma inv_op_processSlotAction: "inv_op (processSlotAction fuel sid db answers)"
proof (induction fuel arbitrary: db answers)
  case (Suc fuel)
  then show ?case unfolding processSlotAction.simps by (intro inv_op_rules inv_op_actions Suc.IH)
qed (simp add: inv_op_rules)

lemma inv_op_processSlots: "inv_op (processSlots fuel answers sids)"
proof (induction sids)
  case (Cons sid sids)
  have 1: "inv_op (processSlotAction fuel sid 0 (answers sid))" by (rule inv_op_processSlotAction)
  have 2: "inv_op (seqT (bindT (processSlots fuel answers sids) (\<lambda>_. returnT ())) (failT e))" for e :: topom_error
    by (intro inv_op_rules Cons.IH)
  show ?case
    using 1 2 Cons.IH unfolding inv_op_def by (fastforce split: prod.splits sum.splits option.splits)
qed (simp add: inv_op_rules)

lemma inv_op_ProcessSlotAction: "inv_op (ProcessSlotAction fuel n answers)"
proof (induction fuel)
  case (Suc fuel)
  then show ?case
    unfolding ProcessSlotAction.simps Let_def by (intro inv_op_rules inv_op_planActions inv_op_processSlots)
qed (simp add: inv_op_rules)

lemma inv_op_ProcessSyncAction: "inv_op ProcessSyncAction"
  unfolding ProcessSyncAction_def runSyncExecutor_def
  by (intro inv_op_rules inv_op_sync outer_rules [THEN inv_op_outer] outer_rules)

end
