(* ===== verification/Rebalance.thy ===== *)
theory Rebalance
  imports OpInv
begin

text \<open>
  What \<open>SlotsRebalance\<close> plans.  Whatever the tree returns, the planned slots are distinct, have no
  action, and go to groups with servers; so the operation keeps the invariant.
\<close>

section \<open>Slots that may be moved\<close>

lemma pendings_addMoveout [simp]: "rs_pendings (addMoveout g d z) = rs_pendings z"
  "rs_assigned (addMoveout g d z) = rs_assigned z"
  by (simp_all add: addMoveout_def)

lemma moveout_addMoveout: "moveout_of (addMoveout g d z) h = moveout_of z h + (if h = g then d else 0)"
  by (simp add: moveout_of_def addMoveout_def update_conv')

lemma keys_addMoveout: "distinct (map fst (rs_moveout z)) \<Longrightarrow> distinct (map fst (rs_moveout (addMoveout g d z)))"
  by (simp add: addMoveout_def distinct_update)

lemma countActions_fields [simp]: "rs_pendings (countActions slots) = (\<lambda>_. [])" "rs_moveout (countActions slots) = []"
proof -
  have "rs_pendings (foldl (\<lambda>z m. if sm_State m \<noteq> ActionNothing
      then z\<lparr>rs_assigned := (rs_assigned z)(sm_TargetId m := rs_assigned z (sm_TargetId m) + 1)\<rparr> else z) z0 slots) =
    rs_pendings z0 \<and> rs_moveout (foldl (\<lambda>z m. if sm_State m \<noteq> ActionNothing
      then z\<lparr>rs_assigned := (rs_assigned z)(sm_TargetId m := rs_assigned z (sm_TargetId m) + 1)\<rparr> else z) z0 slots) =
    rs_moveout z0" for z0 :: sizes
    by (induction slots arbitrary: z0) simp_all
  then show "rs_pendings (countActions slots) = (\<lambda>_. [])" "rs_moveout (countActions slots) = []"
    by (simp_all add: countActions_def)
qed

lemma countSlots_moveout [simp]: "rs_moveout (countSlots lb slots z) = rs_moveout z"
  unfolding countSlots_def by (induction slots arbitrary: z) (simp_all add: Let_def)

lemma countSlots_pendings:
  "\<exists>l. rs_pendings (countSlots lb slots z) g = rs_pendings z g @ l \<and>
     subseq l (map sm_Id (filter (\<lambda>m. sm_State m = ActionNothing \<and> sm_GroupId m = g \<and> g \<noteq> 0) slots))"
proof (induction slots arbitrary: z)
  case (Cons m slots)
  show ?case
  proof (cases "sm_State m = ActionNothing \<and> sm_GroupId m = g \<and> g \<noteq> 0")
    case True
    show ?thesis
    proof (cases "groupSize z g < lb")
      case less: True
      let ?z = "z\<lparr>rs_assigned := (rs_assigned z)(g := rs_assigned z g + 1)\<rparr>"
      have "countSlots lb (m # slots) z = countSlots lb slots ?z"
        using True less by (simp add: countSlots_def Let_def)
      with Cons.IH [of ?z] True show ?thesis by auto
    next
      case False
      let ?z = "z\<lparr>rs_pendings := (rs_pendings z)(g := rs_pendings z g @ [sm_Id m])\<rparr>"
      have "countSlots lb (m # slots) z = countSlots lb slots ?z"
        using True False by (simp add: countSlots_def Let_def)
      with Cons.IH [of ?z] True show ?thesis by auto
    qed
  next
    case False
    have "\<exists>z1. countSlots lb (m # slots) z = countSlots lb slots z1 \<and> rs_pendings z1 g = rs_pendings z g"
      using False by (auto simp: countSlots_def Let_def)
    then obtain z1 where z1: "countSlots lb (m # slots) z = countSlots lb slots z1" "rs_pendings z1 g = rs_pendings z g"
      by blast
    with Cons.IH [of z1] False show ?thesis by auto
  qed
qed (simp add: countSlots_def)

lemma dockOffline_some:
  "dockOffline T slots tree z docking = Some (tree1, z1, docking1) \<Longrightarrow>
   docking1 = docking @ map sm_Id (filter (\<lambda>m. sm_State m = ActionNothing \<and> sm_GroupId m = 0) slots) \<and>
   rs_pendings z1 = rs_pendings z \<and> rs_assigned z1 = rs_assigned z \<and>
   (distinct (map fst (rs_moveout z)) \<longrightarrow> distinct (map fst (rs_moveout z1)))"
proof (induction slots arbitrary: tree z docking)
  case (Cons m slots)
  show ?case
  proof (cases "sm_State m \<noteq> ActionNothing \<or> sm_GroupId m \<noteq> 0")
    case True
    with Cons show ?thesis by auto
  next
    case False
    with Cons.prems obtain d where d: "rb_Left T tree = Some d" by (auto split: option.splits)
    from False d Cons.prems have "dockOffline T slots (rb_Put T (sizeCompare (addMoveout d (- 1) z)) d
        (rb_Remove T (sizeCompare z) d tree)) (addMoveout d (- 1) z) (docking @ [sm_Id m]) = Some (tree1, z1, docking1)"
      by (simp add: Let_def)
    from Cons.IH [OF this] False show ?thesis by (simp add: keys_addMoveout)
  qed
qed simp

lemma rebalanceLoop_some:
  "rebalanceLoop fuel T lb ub tree z = Some (Some z1) \<Longrightarrow>
   rs_pendings z1 = rs_pendings z \<and> rs_assigned z1 = rs_assigned z \<and>
   (distinct (map fst (rs_moveout z)) \<longrightarrow> distinct (map fst (rs_moveout z1)))"
  by (induction fuel arbitrary: tree z) (auto simp: Let_def keys_addMoveout split: if_splits option.splits)

definition part :: "(int \<Rightarrow> int list) \<Rightarrow> int \<times> int \<Rightarrow> int list" where
  "part pend x = (if snd x < 0 then [] else take (nat (snd x)) (rev (sort (pend (fst x)))))"

lemma dockMoved_fst: "fst (dockMoved mo pend docking) = docking @ concat (map (part pend) mo)"
  by (induction mo pend docking rule: dockMoved.induct) (auto simp: part_def split: prod.splits)

lemma part_in: "sid \<in> set (part pend x) \<Longrightarrow> sid \<in> set (pend (fst x))"
  by (auto simp: part_def dest: in_set_takeD split: if_splits)

lemma distinct_part: "distinct (pend (fst x)) \<Longrightarrow> distinct (part pend x)"
  by (simp add: part_def distinct_take)

lemma subseq_mem: "subseq xs ys \<Longrightarrow> x \<in> set xs \<Longrightarrow> x \<in> set ys"
  by (metis subseq_conv_nths in_set_nthsD)

lemma subseq_distinct: "subseq xs ys \<Longrightarrow> distinct ys \<Longrightarrow> distinct xs"
  by (metis subseq_conv_nths distinct_nthsI)

section \<open>The plan\<close>

lemma assignDocked_fst: "\<exists>k. map fst (assignDocked gids mo docking) = take k docking"
proof (induction gids mo docking rule: assignDocked.induct)
  case (2 gid gids mo docking)
  define n where "n = nat (- mo gid)"
  from 2 obtain k where k: "map fst (assignDocked gids mo (drop n docking)) = take k (drop n docking)"
    by (auto simp: n_def)
  then have "map fst (assignDocked (gid # gids) mo docking) = take (n + k) docking"
    by (simp add: Let_def n_def [symmetric] comp_def take_add)
  then show ?case by blast
qed (rule exI [of _ 0], simp)

lemma assignDocked_snd: "p \<in> set (assignDocked gids mo docking) \<Longrightarrow> snd p \<in> set gids"
  by (induction gids mo docking rule: assignDocked.induct) (auto simp: Let_def)

text \<open>Slots of different groups are different, and none is offline.\<close>

lemma distinct_parts:
  assumes "\<And>g. distinct (pend g)" and "\<And>g h. g \<noteq> h \<Longrightarrow> set (pend g) \<inter> set (pend h) = {}"
  shows "distinct (map fst mo) \<Longrightarrow> distinct (concat (map (part pend) mo))"
proof (induction mo)
  case (Cons x mo)
  have "sid \<notin> set (part pend y)" if "sid \<in> set (part pend x)" "y \<in> set mo" for sid y
  proof -
    have "fst x \<noteq> fst y" using Cons.prems that(2) by auto
    with assms(2) part_in [OF that(1)] show ?thesis by (meson disjoint_iff part_in)
  qed
  with Cons distinct_part [OF assms(1)] show ?case by (auto simp: disjoint_iff)
qed simp

lemma docked_distinct:
  assumes "distinct docking" and "distinct (map fst mo)" and "\<And>g. distinct (pend g)"
    and "\<And>g h. g \<noteq> h \<Longrightarrow> set (pend g) \<inter> set (pend h) = {}" and "\<And>g. set (pend g) \<inter> set docking = {}"
  shows "distinct (fst (dockMoved mo pend docking))"
  using assms(1,5) distinct_parts [OF assms(3,4,2)] unfolding dockMoved_fst
  by (auto simp: disjoint_iff dest: part_in)

definition movable :: "SlotMapping list \<Rightarrow> int \<Rightarrow> bool" where
  "movable slots sid \<longleftrightarrow> (\<exists>m \<in> set slots. sm_Id m = sid \<and> sm_State m = ActionNothing)"

theorem plan_ok:
  assumes "rebalancePlan fuel T gids slots = Some (Some plans)" and d: "distinct (map sm_Id slots)"
  shows "distinct (map fst plans)" and "\<And>sid gid. (sid, gid) \<in> set plans \<Longrightarrow> movable slots sid \<and> gid \<in> set gids"
proof -
  let ?lb = "int MaxSlotNum div int (length gids)" and ?ub = "(int MaxSlotNum + int (length gids) - 1) div int (length gids)"
  let ?z = "countSlots ?lb slots (countActions slots)"
  let ?off = "map sm_Id (filter (\<lambda>m. sm_State m = ActionNothing \<and> sm_GroupId m = 0) slots)"
  from assms(1) obtain tree1 z1 docking z2 docked mo where
    1: "dockOffline T slots (foldl (\<lambda>t gid. rb_Put T (sizeCompare ?z) gid t) (rb_empty T) gids) ?z [] = Some (tree1, z1, docking)" and
    2: "rebalanceLoop fuel T ?lb ?ub tree1 z1 = Some (Some z2)" and
    3: "dockMoved (rs_moveout z2) (rs_pendings z2) docking = (docked, mo)" and
    plans: "plans = assignDocked gids (\<lambda>gid. case map_of mo gid of None \<Rightarrow> 0 | Some n \<Rightarrow> n) (sort docked)"
    by (auto simp: rebalancePlan_def Let_def split: option.splits prod.splits)
  let ?p = "rs_pendings ?z"
  have z2: "docking = ?off" "rs_pendings z2 = ?p" "distinct (map fst (rs_moveout z2))"
    using dockOffline_some [OF 1] rebalanceLoop_some [OF 2] by simp_all
  have sub: "subseq (?p g) (map sm_Id (filter (\<lambda>m. sm_State m = ActionNothing \<and> sm_GroupId m = g \<and> g \<noteq> 0) slots))" for g
    using countSlots_pendings [of ?lb slots "countActions slots" g] by auto
  then have mem: "\<exists>m \<in> set slots. sm_Id m = sid \<and> sm_State m = ActionNothing \<and> sm_GroupId m = g \<and> g \<noteq> 0"
    if "sid \<in> set (?p g)" for sid g
    using subseq_mem [OF sub that] by auto
  have same: "m = m'" if "m \<in> set slots" "m' \<in> set slots" "sm_Id m = sm_Id m'" for m m'
    using d that by (meson distinct_map inj_onD)
  have dp: "distinct (?p g)" for g using sub [of g] d by (meson distinct_map_filter subseq_distinct)
  have disj: "set (?p g) \<inter> set (?p h) = {}" if gh: "g \<noteq> h" for g h
  proof -
    have "sid \<notin> set (?p h)" if "sid \<in> set (?p g)" for sid
      using mem [OF that] mem [of sid h] same gh by auto
    then show ?thesis by blast
  qed
  have disj0: "set (?p g) \<inter> set docking = {}" for g using mem same z2(1) by (fastforce simp: disjoint_iff)
  have docked: "docked = fst (dockMoved (rs_moveout z2) ?p docking)" using 3 z2(2) by simp
  have "distinct docking" using d z2(1) by (simp add: distinct_map_filter)
  from docked_distinct [OF this z2(3) dp disj disj0] have dd: "distinct docked" by (simp add: docked)
  obtain k where k: "map fst plans = take k (sort docked)" using assignDocked_fst plans by metis
  with dd show "distinct (map fst plans)" by (simp add: distinct_take)
  have in_docked: "movable slots sid" if "sid \<in> set docked" for sid
    using that z2(1) unfolding docked dockMoved_fst movable_def by (auto dest!: part_in mem)
  fix sid gid assume "(sid, gid) \<in> set plans"
  moreover from this have "sid \<in> set (map fst plans)" by force
  with k have "sid \<in> set docked" by (metis in_set_takeD set_sort)
  ultimately show "movable slots sid \<and> gid \<in> set gids" using in_docked plans assignDocked_snd by fastforce
qed

section \<open>The invariant\<close>

lemma validGroupIds_ok: "running {} s \<Longrightarrow> groups_ok (set (validGroupIds s)) (t_store s)"
proof -
  assume s: "running {} s"
  then have good: "good {} s" "filled s" "t_hooks s = []" by (simp_all add: running_def topom_inv_def)
  have "group_ok (t_store s) (g_Id g)" if "(k, g) \<in> set (ctx_group s)" "g_Servers g \<noteq> []" for k g
    using ctx_group_in [OF good(1) that(1)] lookupGroup_store [OF good, of k] that(2)
    by (auto simp: group_ok_def stale_def)
  then show ?thesis by (auto simp: groups_ok_def validGroupIds_def)
qed

lemma SlotsRebalance_inv: "topom_inv {} s \<Longrightarrow> topom_inv {} (snd (SlotsRebalance fuel T confirm s))"
proof (unfold SlotsRebalance_def seq_guard, erule op_slot [rotated], unfold keeps_snd, intro allI impI)
  fix s assume s: "running {} s"
  have plan: "topom_inv {} (snd (planSlots (sort_key fst plans) s))"
    if "rebalancePlan fuel T (validGroupIds s) (ctx_slots s) = Some (Some plans)" for plans
  proof (rule planSlots_inv [OF s])
    note ok = plan_ok [OF that distinct_slot_ids [OF s]]
    show "groups_ok (snd ` set (sort_key fst plans)) (t_store s)"
      using ok(2) validGroupIds_ok [OF s] by (force simp: groups_ok_def)
    show "distinct (map fst (sort_key fst plans))" using ok(1) by (simp add: distinct_map)
    fix sid assume "sid \<in> set (map fst (sort_key fst plans))"
    then obtain gid where "(sid, gid) \<in> set plans" by auto
    with ok(2) obtain m where "m \<in> set (ctx_slots s)" "sm_Id m = sid" "sm_State m = ActionNothing"
      by (auto simp: movable_def)
    with running_slot_in [OF s] show "0 \<le> sid \<and> sid < int MaxSlotNum \<and> sm_State (ctx_slots s ! nat sid) = ActionNothing"
      by auto
  qed
  have inv: "topom_inv {} s" using s by (rule running_inv)
  have "topom_inv {} (snd (seqT (planSlots (sort_key fst plans)) (returnT (Some plans)) s))"
    if "rebalancePlan fuel T (validGroupIds s) (ctx_slots s) = Some (Some plans)" for plans
    using plan [OF that] by (auto simp: seqT_def bindT_def returnT_def split: prod.splits sum.splits)
  with inv show "topom_inv {} (snd (bindT (readT validGroupIds) (\<lambda>groupIds.
      if length groupIds \<noteq> 0 then
        bindT (readT (\<lambda>s. rebalancePlan fuel T groupIds (ctx_slots s))) (\<lambda>r.
          case r of None \<Rightarrow> returnT None | Some None \<Rightarrow> failT Panicked
          | Some (Some plans) \<Rightarrow> if \<not> confirm then returnT (Some plans)
              else seqT (planSlots (sort_key fst plans)) (returnT (Some plans)))
      else failT NoValidGroup) s))"
    by (auto simp: bindT_def readT_def returnT_def failT_def split: option.splits)
qed

end
