(* ===== verification/Assign.thy ===== *)
theory Assign
  imports Rebalance
begin

text \<open>
  The forced assignments.  \<open>SlotsAssignGroup\<close> and \<open>SlotsAssignOffline\<close> store the new owner of a slot before
  the proxies learn of it, whatever action the slot has.  When they succeed every proxy has
  learned of it and the invariant holds again; when they fail the cache is still right and the
  slots still refer to groups with servers, but a proxy may serve a slot of another group.
\<close>

section \<open>Between the store and the proxies\<close>

definition kept :: "hook set \<Rightarrow> Topom \<Rightarrow> bool" where
  "kept X s \<longleftrightarrow> good X s \<and> refs (t_store s)"

definition halfway :: "int set \<Rightarrow> hook set \<Rightarrow> Topom \<Rightarrow> bool" where
  "halfway D X s \<longleftrightarrow> t_hooks s = [] \<and> wf_store (t_store s) \<and> coh X s \<and> refs (t_store s) \<and> filled s \<and>
     (\<forall>t i v. registered s t \<longrightarrow> i \<notin> D \<longrightarrow> t_views s t i = Some v \<longrightarrow> allowed (slot_at (t_store s) i) v)"

definition forced :: "(Topom \<Rightarrow> bool) \<Rightarrow> hook set \<Rightarrow> 'a topom_op \<Rightarrow> bool" where
  "forced P X m \<longleftrightarrow> keeps P m (kept X) (\<lambda>_. topom_inv X)"

lemma running_halfway: "running X s \<longleftrightarrow> halfway {} X s"
  by (auto simp: running_iff halfway_def safe_def)

lemma halfway_kept: "halfway D X s \<Longrightarrow> kept X s"
  by (simp add: halfway_def kept_def good_def)

lemma inv_kept: "topom_inv X s \<Longrightarrow> kept X s"
  by (simp add: topom_inv_def kept_def)

lemma kept_env [simp]: "kept X (s\<lparr>t_env := e\<rparr>) = kept X s"
  by (simp add: kept_def good_def coh_def)

lemma halfway_insert: "halfway D X s \<Longrightarrow> halfway D (insert h X) s"
  by (auto simp: halfway_def elim: coh_mono)

lemma kept_push: "kept (insert h X) s \<Longrightarrow> kept X (pushHook h s)"
  by (simp add: kept_def good_def pushHook_def)

lemma forced_defer:
  assumes "forced P (insert h X) m" and "\<And>s. P' s \<Longrightarrow> P s"
  shows "forced P' X (deferT (pushHook h) m)"
  unfolding forced_def
proof (rule keeps_defer, rule keeps_pre [of P])
  show "keeps P m (\<lambda>s. kept X (pushHook h s)) (\<lambda>_ s. topom_inv X (pushHook h s))"
    using assms(1) unfolding forced_def keeps_def
    by (fastforce intro: kept_push inv_push split: prod.splits sum.splits)
qed (rule assms(2))

lemma halfway_put:
  assumes s: "halfway D X s" and X: "HookSlot (sm_Id m) \<in> X"
    and "group_ok (t_store s) (sm_GroupId m)" "group_ok (t_store s) (sm_TargetId m)"
  shows "halfway (insert (sm_Id m) D) X (s\<lparr>t_env := e, t_store := put_slot m (t_store s)\<rparr>)"
proof -
  let ?st = "put_slot m (t_store s)"
  from s have i: "wf_store (t_store s)" "coh X s" "refs (t_store s)" by (simp_all add: halfway_def)
  have "refs ?st" using i(3) assms(3,4) by (simp add: refs_def slot_at_put)
  moreover have "wf_store ?st" using i(1) by (auto simp: wf_store_def)
  moreover have "stale X (HookSlot (sm_Id m))" using X by (simp add: stale_def)
  then have "stale X (HookSlot j) \<or> v = slot_at ?st j" if "stale X (HookSlot j) \<or> v = slot_at (t_store s) j" for j v
    using that by (cases "j = sm_Id m") (auto simp: slot_at_put)
  then have "slots_coh X ?st (t_slots s)" using i(2) unfolding coh_def slots_coh_def by blast
  ultimately show ?thesis
    using s i by (simp add: halfway_def coh_def registered_def slot_at_put)
qed

section \<open>Storing the slots\<close>

abbreviation put_all :: "(int \<rightharpoonup> SlotMapping) \<Rightarrow> SlotMapping list \<Rightarrow> int \<rightharpoonup> SlotMapping" where
  "put_all \<equiv> foldl (\<lambda>sl m. sl(sm_Id m \<mapsto> m))"

definition stage :: "(int \<rightharpoonup> SlotMapping) \<Rightarrow> int set \<Rightarrow> SlotMapping list \<Rightarrow> hook set \<Rightarrow> Topom \<Rightarrow> bool" where
  "stage sl G ms X s \<longleftrightarrow> halfway (sm_Id ` set ms) X s \<and> st_slots (t_store s) = put_all sl ms \<and> groups_ok G (t_store s)"

lemma storeSlots_forced:
  assumes "\<And>Y. proxy_free Y \<Longrightarrow> forced (stage sl G (ks @ ms) Y) Y rest" and "proxy_free X"
    and "\<And>m. m \<in> set ms \<Longrightarrow> sm_GroupId m \<in> insert 0 G \<and> sm_TargetId m = 0"
  shows "forced (stage sl G ks X) X (storeSlots ms rest)"
  using assms
proof (induction ms arbitrary: ks X)
  case (Cons m ms)
  let ?X = "insert (HookSlot (sm_Id m)) X"
  have "keeps (stage sl G ks ?X) (storeUpdateSlotMapping m) (kept ?X) (\<lambda>_. stage sl G (ks @ [m]) ?X)"
    unfolding storeUpdateSlotMapping_def
  proof (rule keeps_write)
    fix s e assume s: "stage sl G ks ?X s"
    let ?s = "s\<lparr>t_env := e, t_store := put_slot m (t_store s)\<rparr>"
    have h: "halfway (insert (sm_Id m) (sm_Id ` set ks)) ?X ?s"
      using s Cons.prems(3) [of m] by (intro halfway_put) (auto simp: stage_def groups_ok_def group_ok_def)
    with s show "stage sl G (ks @ [m]) ?X ?s"
      by (simp add: stage_def groups_ok_def)
    from h show "kept ?X ?s" by (rule halfway_kept)
    show "kept ?X (s\<lparr>t_env := e\<rparr>)" using s by (auto simp: stage_def dest: halfway_kept)
  qed
  moreover have "forced (stage sl G (ks @ [m]) ?X) ?X (storeSlots ms rest)"
    using Cons.prems by (intro Cons.IH) auto
  ultimately have "forced (stage sl G ks ?X) ?X (seqT (storeUpdateSlotMapping m) (storeSlots ms rest))"
    unfolding forced_def by (rule keeps_seq)
  then show ?case
    unfolding storeSlots.simps dirtySlotsCache_def
    by (rule forced_defer) (auto simp: stage_def intro: halfway_insert)
qed simp

section \<open>Telling the proxies\<close>

text \<open>Records and routes in the same order: the last route of a slot belongs to its last record.\<close>

lemma last_put:
  assumes "list_all2 (\<lambda>m x. sl_Id x = sm_Id m \<and> allowed m x) ms l" and "i \<in> sm_Id ` set ms"
  shows "\<exists>m x. put_all sl ms i = Some m \<and> foldl (\<lambda>v x. v(sl_Id x \<mapsto> x)) w l i = Some x \<and> allowed m x"
  using assms
proof (induction ms arbitrary: l rule: rev_induct)
  case (snoc m ms)
  from snoc.prems(1) obtain x l' where l: "l = l' @ [x]" "sl_Id x = sm_Id m" "allowed m x"
    "list_all2 (\<lambda>m x. sl_Id x = sm_Id m \<and> allowed m x) ms l'"
    by (auto simp: list_all2_append1 list_all2_Cons1)
  show ?case
  proof (cases "i = sm_Id m")
    case False
    with snoc.prems(2) have "i \<in> sm_Id ` set ms" by auto
    from snoc.IH [OF l(4) this] False l show ?thesis by simp
  qed (use l in simp)
qed simp

lemma toSlotSlice_all2:
  "toSlotSlice ms p s = Some l \<Longrightarrow> list_all2 (\<lambda>m x. sl_Id x = sm_Id m \<and> allowed m x) ms l"
proof (induction ms arbitrary: l)
  case (Cons m ms)
  then obtain x where x: "toSlot m p s = Some x" by (auto simp: toSlotSlice_def Let_def split: if_splits)
  with Cons.prems obtain l' where "l = x # l'" "toSlotSlice ms p s = Some l'"
    by (auto simp: toSlotSlice_def Let_def List.map_filter_simps split: if_splits)
  with Cons.IH toSlot_allowed [OF x] show ?case by simp
qed (simp add: toSlotSlice_def List.map_filter_simps)

definition settled :: "(int \<rightharpoonup> SlotMapping) \<Rightarrow> SlotMapping list \<Rightarrow> (string \<Rightarrow> int \<rightharpoonup> Slot) \<Rightarrow> string \<Rightarrow> bool" where
  "settled sl ms w t \<longleftrightarrow>
     (\<forall>i \<in> sm_Id ` set ms. \<exists>m x. put_all sl ms i = Some m \<and> w t i = Some x \<and> allowed m x)"

lemma settled_fill:
  assumes "toSlotSlice ms p s = Some l" and "settled sl ms (t_views s') t' \<or> t' = t"
  shows "settled sl ms (t_views (applySlots t l s')) t'"
  using assms(2) last_put [OF toSlotSlice_all2 [OF assms(1)], of _ sl "t_views s' t"]
  by (cases "t' = t") (auto simp: settled_def applySlots_def)

lemma resyncProxies_all:
  "resyncProxies ms ps f s = (r, s1) \<Longrightarrow>
    views_step s s1 \<and>
    (\<forall>t i v. t_views s1 t i = Some v \<longrightarrow> t_views s t i = Some v \<or> i \<in> sm_Id ` set ms) \<and>
    (r = Inr () \<longrightarrow> \<not> f \<and> (\<forall>t. settled sl ms (t_views s) t \<longrightarrow> settled sl ms (t_views s1) t) \<and>
       (\<forall>(k, p) \<in> set ps. settled sl ms (t_views s1) (p_Token p)))"
proof (induction ps arbitrary: f s)
  case Nil
  then show ?case by (auto split: if_splits)
next
  case (Cons kp ps)
  obtain k p where kp: "kp = (k, p)" by fastforce
  show ?case
  proof (cases "toSlotSlice ms (Some p) s")
    case None
    with Cons.prems kp show ?thesis by auto
  next
    case (Some l)
    obtain r2 s2 where r2: "fillSlots (p_Token p) l s = (r2, s2)" by fastforce
    obtain n e where n: "s2 = applySlots (p_Token p) (take n l) (s\<lparr>t_env := e\<rparr>)" "r2 = Inr () \<longrightarrow> take n l = l"
      using r2 by (metis fillSlots_apply fst_conv snd_conv)
    from Cons.prems kp Some r2 have "resyncProxies ms ps (f \<or> isl r2) s2 = (r, s1)" by simp
    note IH = Cons.IH [OF this]
    have ids: "sl_Id x \<in> sm_Id ` set ms" if "x \<in> set l" for x
      using toSlotSlice_in [OF Some that] toSlot_allowed by force
    have "views_step s s1" using IH n(1) by (auto simp: applySlots_def views_step_def)
    moreover have "t_views s t i = Some v \<or> i \<in> sm_Id ` set ms" if "t_views s2 t i = Some v" for t i v
      using that view_after_fill [of "p_Token p" "take n l" "s\<lparr>t_env := e\<rparr>" t i v] n(1) ids
      by (auto dest: in_set_takeD)
    then have "t_views s t i = Some v \<or> i \<in> sm_Id ` set ms" if "t_views s1 t i = Some v" for t i v
      using IH that by blast
    moreover have "\<not> f \<and> (\<forall>t. settled sl ms (t_views s) t \<longrightarrow> settled sl ms (t_views s1) t) \<and>
       settled sl ms (t_views s1) (p_Token p) \<and> (\<forall>(k, p) \<in> set ps. settled sl ms (t_views s1) (p_Token p))" if "r = Inr ()"
    proof -
      from IH that have "r2 = Inr ()" by (cases r2) auto
      with n have "settled sl ms (t_views s2) t" if "settled sl ms (t_views s) t \<or> t = p_Token p" for t
        using settled_fill [OF Some, of sl "s\<lparr>t_env := e\<rparr>" t "p_Token p"] that by simp
      with IH that show ?thesis by blast
    qed
    ultimately show ?thesis unfolding kp by auto
  qed
qed

lemma registered_ctx:
  assumes "good X s" "filled s" "t_hooks s = []" "proxy_free X" "registered s t"
  shows "\<exists>q. (t, q) \<in> set (ctx_proxy s) \<and> p_Token q = t"
proof -
  have "map_of (ctx_proxy s) t = map_of (st_proxy (t_store s)) t"
    using assms by (intro ctx_proxy_store) (auto simp: proxy_free_stale)
  with assms(5) obtain q where "map_of (ctx_proxy s) t = Some q" by (auto simp: registered_def)
  then have "(t, q) \<in> set (ctx_proxy s)" by (rule map_of_SomeD)
  with ctx_proxy_in [OF assms(1) this] show ?thesis by auto
qed

lemma resync_forced:
  assumes X: "proxy_free X"
  shows "forced (stage sl G ms X) X (resyncSlotMappings ms)"
  unfolding forced_def keeps_def
proof (intro allI impI)
  fix s assume st: "stage sl G ms X s"
  then have h: "halfway (sm_Id ` set ms) X s" and sl: "st_slots (t_store s) = put_all sl ms" by (auto simp: stage_def)
  show "case resyncSlotMappings ms s of (Inl e, s1) \<Rightarrow> kept X s1 | (Inr x, s1) \<Rightarrow> topom_inv X s1"
  proof (cases "ms = []")
    case True
    with h show ?thesis by (simp add: resyncSlotMappings_def running_inv flip: running_halfway)
  next
    case False
    obtain r s1 where r: "resyncProxies ms (ctx_proxy s) False s = (r, s1)" by fastforce
    note all = resyncProxies_all [OF r, of sl]
    then obtain e w where s1: "s1 = s\<lparr>t_env := e, t_views := w\<rparr>" unfolding views_step_def by blast
    have kept: "kept X s1" using halfway_kept [OF h] by (simp add: s1 kept_def good_def coh_def)
    have "safe s1" if "r = Inr ()"
      unfolding safe_def
    proof (intro allI impI)
      fix t i v assume t: "registered s1 t" "t_views s1 t i = Some v"
      have "registered s t" using t(1) by (simp add: s1 registered_def)
      then obtain q where q: "(t, q) \<in> set (ctx_proxy s)" "p_Token q = t"
        using registered_ctx [of X s t] X h by (auto simp: halfway_def good_def)
      show "allowed (slot_at (t_store s1) i) v"
      proof (cases "i \<in> sm_Id ` set ms")
        case True
        from all that q have "settled sl ms (t_views s1) t" by blast
        with True t(2) have "\<exists>m. put_all sl ms i = Some m \<and> allowed m v" by (fastforce simp: settled_def)
        then show ?thesis by (auto simp: s1 slot_at_def sl)
      next
        case False
        with all t(2) have "t_views s t i = Some v" by blast
        with h False \<open>registered s t\<close> show ?thesis by (auto simp: halfway_def s1)
      qed
    qed
    with kept have "r = Inr () \<longrightarrow> topom_inv X s1" by (auto simp: topom_inv_def kept_def)
    with kept r False show ?thesis by (cases r) (auto simp: resyncSlotMappings_def)
  qed
qed

section \<open>Marking the groups\<close>

definition marking :: "(int \<rightharpoonup> SlotMapping) \<Rightarrow> int set \<Rightarrow> hook set \<Rightarrow> Topom \<Rightarrow> bool" where
  "marking sl G X s \<longleftrightarrow> grp sl X s \<and> groups_ok G (t_store s) \<and>
     (\<forall>gid \<in> G. \<exists>g. lookupGroup gid s = Some g \<and> g_Servers g \<noteq> [])"

lemma marking_kept: "marking sl G X s \<Longrightarrow> kept X s"
  by (auto simp: marking_def dest: grp_inv inv_kept)

lemma present_update:
  "map_of (present (Some (AList.update k (Some r) l))) j = (if j = k then Some r else map_of (present (Some l)) j)"
proof (induction l)
  case (Cons x l)
  then show ?case by (cases x; cases "snd x") auto
qed simp

lemma lookupGroup_setGroup:
  "filled s \<Longrightarrow> lookupGroup gid (setGroup k g s) = (if gid = k then Some g else lookupGroup gid s)"
  by (auto simp: lookupGroup_def ctx_group_def setGroup_def filled_def map_filled_def present_update)

lemma groups_ok_put:
  "groups_ok G st \<Longrightarrow> g_Servers g \<noteq> [] \<Longrightarrow> groups_ok G (st\<lparr>st_group := AList.update k g (st_group st)\<rparr>)"
  by (auto simp: groups_ok_def group_ok_def update_conv' simp del: map_of_eq_Some_iff)

lemma mark_one:
  assumes "HookGroup k \<in> X" and "g_Id g = k" and "g_Servers g \<noteq> []"
  shows "keeps (marking sl G X) (seqT (modifyT (setGroup k g)) (storeUpdateGroup g)) (kept X) (\<lambda>_. marking sl G X)"
proof (rule keeps_seq)
  show "keeps (marking sl G X) (modifyT (setGroup k g)) (kept X) (\<lambda>_. marking sl G X)"
  proof (rule keeps_modify)
    fix s assume s: "marking sl G X s"
    have "quiet sl X (modifyT (setGroup k g))" using assms by (intro quiet_setGroup)
    with s have "grp sl X (setGroup k g s)" by (simp add: quiet_def keeps_def modifyT_def marking_def)
    moreover have "filled s" using s by (simp add: marking_def grp_iff)
    moreover have "t_store (setGroup k g s) = t_store s" by (simp add: setGroup_def)
    ultimately show "marking sl G X (setGroup k g s)"
      using s assms unfolding marking_def by (auto simp: lookupGroup_setGroup)
  qed
  show "keeps (marking sl G X) (storeUpdateGroup g) (kept X) (\<lambda>_. marking sl G X)"
    unfolding storeUpdateGroup_def
  proof (rule keeps_write)
    fix s e assume s: "marking sl G X s"
    let ?s = "s\<lparr>t_env := e, t_store := (t_store s)\<lparr>st_group := AList.update (g_Id g) g (st_group (t_store s))\<rparr>\<rparr>"
    have "grp sl X ?s" using s assms by (intro grp_store_group) (auto simp: marking_def)
    moreover have "lookupGroup gid ?s = lookupGroup gid s" for gid by (simp add: lookupGroup_def ctx_group_def)
    ultimately show "marking sl G X ?s"
      using s assms unfolding marking_def by (auto simp: groups_ok_put)
    then show "kept X ?s" by (rule marking_kept)
    show "kept X (s\<lparr>t_env := e\<rparr>)" using marking_kept [OF s] by simp
  qed
qed

lemma seq_assoc: "seqT (seqT l m) n = seqT l (seqT m n)"
  by (auto simp: seqT_def bindT_def fun_eq_iff split: prod.splits sum.splits)

lemma markOutOfSync_forced:
  assumes "\<And>Y. proxy_free Y \<Longrightarrow> forced (marking sl G Y) Y rest" and "proxy_free X"
    and "\<And>m. m \<in> set ms \<Longrightarrow> sm_GroupId m \<in> G"
  shows "forced (marking sl G X) X (markOutOfSync ms rest)"
  using assms
proof (induction ms arbitrary: X)
  case (Cons m ms)
  let ?k = "sm_GroupId m" and ?X = "insert (HookGroup (sm_GroupId m)) X"
  have IH: "forced (marking sl G Y) Y (markOutOfSync ms rest)" if "proxy_free Y" for Y
    using Cons that by simp
  show ?case
    unfolding markOutOfSync.simps forced_def
  proof (rule keeps_bind_read, rule keeps_fact)
    fix x s assume s: "marking sl G X s \<and> lookupGroup ?k s = x"
    have "?k \<in> G" using Cons.prems(3) by simp
    with s obtain g where g: "x = Some g" "g_Servers g \<noteq> []" by (auto simp: marking_def)
    have "good X s" using s by (auto simp: marking_def grp_def topom_inv_def)
    from lookupGroup_id [OF this] s g have "g_Id g = ?k" by auto
    with g show "\<exists>g. x = Some g \<and> g_Servers g \<noteq> [] \<and> g_Id g = ?k" by blast
  next
    fix x :: "Group option" assume "\<exists>g. x = Some g \<and> g_Servers g \<noteq> [] \<and> g_Id g = ?k"
    then obtain g :: Group where g: "x = Some g" "g_Servers g \<noteq> []" "g_Id g = ?k" by blast
    have "forced (marking sl G ?X) ?X (seqT (seqT (modifyT (setGroup ?k (g\<lparr>g_OutOfSync := True\<rparr>)))
        (storeUpdateGroup (g\<lparr>g_OutOfSync := True\<rparr>))) (markOutOfSync ms rest))"
      unfolding forced_def
      by (rule keeps_seq [OF mark_one]) (use g IH [of ?X] Cons.prems(2) in \<open>auto simp: forced_def\<close>)
    then have "forced (marking sl G X) X (deferT (pushHook (HookGroup ?k)) (seqT (seqT (modifyT (setGroup ?k (g\<lparr>g_OutOfSync := True\<rparr>)))
        (storeUpdateGroup (g\<lparr>g_OutOfSync := True\<rparr>))) (markOutOfSync ms rest)))"
      by (rule forced_defer) (auto simp: marking_def intro: grp_insert)
    with g IH [OF Cons.prems(2)] have "forced (marking sl G X) X (case x of None \<Rightarrow> failT Panicked | Some g \<Rightarrow>
        if g_OutOfSync g then markOutOfSync ms rest
        else deferT (dirtyGroupCache (g_Id g)) (let g1 = g\<lparr>g_OutOfSync := True\<rparr>
          in seqT (modifyT (setGroup ?k g1)) (seqT (storeUpdateGroup g1) (markOutOfSync ms rest))))"
      by (simp add: dirtyGroupCache_def Let_def seq_assoc)
    then show "keeps (\<lambda>s. marking sl G X s \<and> lookupGroup ?k s = x) (case x of None \<Rightarrow> failT Panicked | Some g \<Rightarrow>
        if g_OutOfSync g then markOutOfSync ms rest
        else deferT (dirtyGroupCache (g_Id g)) (let g1 = g\<lparr>g_OutOfSync := True\<rparr>
          in seqT (modifyT (setGroup ?k g1)) (seqT (storeUpdateGroup g1) (markOutOfSync ms rest))))
        (kept X) (\<lambda>_. topom_inv X)"
      unfolding forced_def by (rule keeps_pre) simp
  qed
qed simp

section \<open>The operations\<close>

lemma checkAssign_ok:
  "checkAssign ms s = (r, s1) \<Longrightarrow>
   s1 = s \<and> (r = Inr () \<longrightarrow> (\<forall>m \<in> set ms. \<exists>g. lookupGroup (sm_GroupId m) s = Some g \<and> g_Servers g \<noteq> []))"
  by (induction ms arbitrary: r)
    (auto simp: returnT_def bindT_def getSlotMapping_def getGroup_def seqT_def guardT_def failT_def
      split: if_splits option.splits prod.splits sum.splits)

lemma checkOffline_ok: "checkOffline ms s = (r, s1) \<Longrightarrow> s1 = s"
  by (induction ms arbitrary: r)
    (auto simp: returnT_def bindT_def getSlotMapping_def seqT_def guardT_def failT_def
      split: if_splits option.splits prod.splits sum.splits)

lemma op_forced:
  assumes "\<And>s. running {} s \<Longrightarrow> case m s of (Inl e, s1) \<Rightarrow> kept {} s1 | (Inr x, s1) \<Rightarrow> topom_inv {} s1"
    and "topom_inv {} s"
  shows "case seqT newContext m s of (Inl e, s1) \<Rightarrow> kept {} s1 | (Inr x, s1) \<Rightarrow> topom_inv {} s1"
proof -
  obtain r s1 where r: "newContext s = (r, s1)" by fastforce
  have "good {} s" using assms(2) by (simp add: topom_inv_def)
  from newContext_ok [OF this r] have s1: "topom_inv {} s1" "r = Inr () \<longrightarrow> running {} s1"
    using cache_step_inv [OF _ _ assms(2)] by (auto simp: running_def)
  show ?thesis
    using r s1 assms(1) [of s1] by (cases r) (auto simp: seqT_def bindT_def intro: inv_kept)
qed

lemma SlotsAssignGroup_forced:
  assumes "topom_inv {} s"
  shows "case SlotsAssignGroup ms s of (Inl e, s1) \<Rightarrow> kept {} s1 | (Inr x, s1) \<Rightarrow> topom_inv {} s1"
  unfolding SlotsAssignGroup_def
proof (rule op_forced [OF _ assms])
  fix s assume s: "running {} s"
  let ?ms = "map (\<lambda>m. SlotMapping_of (sm_Id m) (sm_GroupId m)) ms" and ?G = "sm_GroupId ` set ms" and ?sl = "st_slots (t_store s)"
  obtain r s1 where r: "checkAssign ms s = (r, s1)" by fastforce
  note ok = checkAssign_ok [OF r]
  have store: "forced (marking ?sl ?G Y) Y (storeSlots ?ms (resyncSlotMappings ?ms))" if "proxy_free Y" for Y
  proof -
    have "forced (stage ?sl ?G [] Y) Y (storeSlots ?ms (resyncSlotMappings ?ms))"
      by (rule storeSlots_forced [OF _ that]) (auto simp: SlotMapping_of_def intro: resync_forced)
    then show ?thesis
      unfolding forced_def by (rule keeps_pre) (auto simp: marking_def stage_def grp_iff halfway_def safe_def)
  qed
  have "marking ?sl ?G {} s" if "r = Inr ()"
  proof -
    from s have good: "good {} s" "filled s" "t_hooks s = []" by (simp_all add: running_def topom_inv_def)
    have "\<exists>g. lookupGroup gid s = Some g \<and> g_Servers g \<noteq> []" if "gid \<in> ?G" for gid using ok \<open>r = Inr ()\<close> that by auto
    moreover from this have "groups_ok ?G (t_store s)"
      using lookupGroup_store [OF good] by (fastforce simp: groups_ok_def group_ok_def stale_def)
    ultimately show ?thesis using s by (auto simp: marking_def grp_def running_def)
  qed
  moreover have "forced (marking ?sl ?G {}) {} (markOutOfSync ms (storeSlots ?ms (resyncSlotMappings ?ms)))"
    by (rule markOutOfSync_forced [OF store]) auto
  ultimately have "r = Inr () \<longrightarrow> (case markOutOfSync ms (storeSlots ?ms (resyncSlotMappings ?ms)) s of
      (Inl e, s1) \<Rightarrow> kept {} s1 | (Inr x, s1) \<Rightarrow> topom_inv {} s1)"
    by (simp add: forced_def keeps_def)
  with r ok s show "case seqT (checkAssign ms) (let slots1 = ?ms in markOutOfSync ms (storeSlots slots1 (resyncSlotMappings slots1))) s of
      (Inl e, s1) \<Rightarrow> kept {} s1 | (Inr x, s1) \<Rightarrow> topom_inv {} s1"
    by (cases r) (simp_all add: seqT_def bindT_def running_inv inv_kept Let_def)
qed

lemma SlotsAssignOffline_forced:
  assumes "topom_inv {} s"
  shows "case SlotsAssignOffline ms s of (Inl e, s1) \<Rightarrow> kept {} s1 | (Inr x, s1) \<Rightarrow> topom_inv {} s1"
  unfolding SlotsAssignOffline_def
proof (rule op_forced [OF _ assms])
  fix s assume s: "running {} s"
  let ?ms = "map (\<lambda>m. SlotMapping_of (sm_Id m) 0) ms" and ?sl = "st_slots (t_store s)"
  obtain r s1 where r: "checkOffline ms s = (r, s1)" by fastforce
  note ok = checkOffline_ok [OF r]
  have "forced (stage ?sl {} [] {}) {} (storeSlots ?ms (resyncSlotMappings ?ms))"
    by (rule storeSlots_forced) (auto simp: SlotMapping_of_def intro: resync_forced)
  moreover have "stage ?sl {} [] {} s" using s by (simp add: stage_def running_halfway groups_ok_def)
  ultimately have "case storeSlots ?ms (resyncSlotMappings ?ms) s of
      (Inl e, s1) \<Rightarrow> kept {} s1 | (Inr x, s1) \<Rightarrow> topom_inv {} s1"
    by (simp add: forced_def keeps_def)
  with r ok s show "case seqT (checkOffline ms) (let slots1 = ?ms in storeSlots slots1 (resyncSlotMappings slots1)) s of
      (Inl e, s1) \<Rightarrow> kept {} s1 | (Inr x, s1) \<Rightarrow> topom_inv {} s1"
    by (cases r) (simp_all add: seqT_def bindT_def running_inv inv_kept Let_def)
qed

end
