(* ===== verification/Progress.thy ===== *)
theory Progress
  imports Assign
begin

text \<open>
  What the operations do when nothing outside fails: the script of outcomes is empty, so every
  access succeeds.  Then a context is always made, and it shows the store.
\<close>

definition smooth :: "Topom \<Rightarrow> bool" where
  "smooth s \<longleftrightarrow> t_env s = []"

lemma next_outcome_smooth [simp]: "smooth s \<Longrightarrow> next_outcome s = (Done, s)"
  by (simp add: smooth_def next_outcome_def)

lemma storeRead_smooth [simp]: "smooth s \<Longrightarrow> storeRead f s = (Some (f (t_store s)), s)"
  by (simp add: storeRead_def)

lemma storeWrite_smooth [simp]: "smooth s \<Longrightarrow> storeWrite f s = (Inr (), s\<lparr>t_store := f (t_store s)\<rparr>)"
  by (simp add: storeWrite_def)

lemma callProxy_smooth [simp]: "smooth s \<Longrightarrow> callProxy e s = (Inr (), s)"
  by (simp add: callProxy_def)

lemma callWith_smooth [simp]: "smooth s \<Longrightarrow> callWith e f s = (Inr (), f s)"
  by (simp add: callWith_def)

lemma fillSlots_smooth [simp]: "smooth s \<Longrightarrow> fillSlots t l s = (Inr (), applySlots t l s)"
  by (simp add: fillSlots_def)

section \<open>A context\<close>

lemma loadSlots_smooth: "smooth s \<Longrightarrow> \<exists>ms1. loadSlots i ms s = ((True, ms1), s)"
  by (induction i ms s rule: loadSlots.induct) auto

lemma listRecords_smooth: "smooth s \<Longrightarrow> \<exists>m1. listRecords key rs m s = (Some m1, s)"
  by (induction rs arbitrary: m) auto

lemma loadNils_smooth: "smooth s \<Longrightarrow> \<exists>m1. loadNils f m s = ((True, m1), s)"
proof (induction m)
  case (Cons x m)
  then obtain m1 where m1: "loadNils f m s = ((True, m1), s)" by blast
  obtain k v where x: "x = (k, v)" by fastforce
  show ?case using Cons.prems m1 x by (cases v; cases "map_of (f (t_store s)) k") simp_all
qed simp

definition succeeds :: "unit topom_op \<Rightarrow> bool" where
  "succeeds m \<longleftrightarrow> (\<forall>s. smooth s \<longrightarrow> (\<exists>s1. m s = (Inr (), s1) \<and> smooth s1))"

lemma succeeds_seq: "succeeds m \<Longrightarrow> succeeds n \<Longrightarrow> succeeds (seqT m n)"
  unfolding succeeds_def seqT_def bindT_def by fastforce

lemma runHook_env: "t_env (runHook h s) = t_env s"
  by (cases h) simp_all

lemma fold_runHook_env: "t_env (fold runHook hs s) = t_env s"
  by (induction hs arbitrary: s) (simp_all add: runHook_env)

lemma succeeds_hooks: "succeeds (modifyT runHooks)"
  by (simp add: succeeds_def modifyT_def runHooks_def smooth_def fold_runHook_env)

lemma succeeds_slots: "succeeds refillCacheSlots"
  unfolding succeeds_def
proof (intro allI impI)
  fix s assume s: "smooth s"
  show "\<exists>s1. refillCacheSlots s = (Inr (), s1) \<and> smooth s1"
  proof (cases "t_slots s")
    case None
    from loadSlots_smooth [OF s] obtain ms1 where "loadSlots 0 (replicate MaxSlotNum None) s = ((True, ms1), s)" by blast
    with None s show ?thesis by (simp add: refillCacheSlots_def SlotMappings_def smooth_def)
  next
    case (Some ms)
    from loadSlots_smooth [OF s] obtain ms1 where "loadSlots 0 ms s = ((True, ms1), s)" by blast
    with Some s show ?thesis by (simp add: refillCacheSlots_def smooth_def)
  qed
qed

lemma listStore_smooth: "smooth s \<Longrightarrow> \<exists>m. listStore f key s = (Some m, s)"
  using listRecords_smooth [of s key "map snd (f (t_store s))" "[]"] by (simp add: listStore_def)

lemma succeeds_group: "succeeds refillCacheGroup"
  unfolding succeeds_def
proof (intro allI impI)
  fix s assume s: "smooth s"
  show "\<exists>s1. refillCacheGroup s = (Inr (), s1) \<and> smooth s1"
  proof (cases "t_group s")
    case None
    from listStore_smooth [OF s] obtain m where "listStore st_group g_Id s = (Some m, s)" by blast
    with None s show ?thesis by (simp add: refillCacheGroup_def ListGroup_def smooth_def)
  next
    case (Some m)
    from loadNils_smooth [OF s] obtain m1 where "loadNils st_group m s = ((True, m1), s)" by blast
    with Some s show ?thesis by (simp add: refillCacheGroup_def smooth_def)
  qed
qed

lemma succeeds_proxy: "succeeds refillCacheProxy"
  unfolding succeeds_def
proof (intro allI impI)
  fix s assume s: "smooth s"
  show "\<exists>s1. refillCacheProxy s = (Inr (), s1) \<and> smooth s1"
  proof (cases "t_proxy s")
    case None
    from listStore_smooth [OF s] obtain m where "listStore st_proxy p_Token s = (Some m, s)" by blast
    with None s show ?thesis by (simp add: refillCacheProxy_def ListProxy_def smooth_def)
  next
    case (Some m)
    from loadNils_smooth [OF s] obtain m1 where "loadNils st_proxy m s = ((True, m1), s)" by blast
    with Some s show ?thesis by (simp add: refillCacheProxy_def smooth_def)
  qed
qed

lemma succeeds_ones: "succeeds refillCacheSentinel" "succeeds refillCacheACL" "succeeds refillCacheProxyQPSLimit"
  by (auto simp: succeeds_def refillCacheSentinel_def refillCacheACL_def refillCacheProxyQPSLimit_def smooth_def
      split: option.splits)

lemma succeeds_refill: "succeeds refillCache"
  unfolding refillCache_def by (intro succeeds_seq succeeds_hooks succeeds_slots succeeds_group succeeds_proxy succeeds_ones)

text \<open>An online dashboard whose accesses succeed gets a context that shows the store.\<close>

lemma newContext_smooth:
  assumes "smooth s" "t_online s" "\<not> t_closed s" "topom_inv {} s"
  shows "\<exists>s1. newContext s = (Inr (), s1) \<and> smooth s1 \<and> running {} s1 \<and> cache_step s s1"
proof -
  from assms(1) succeeds_refill obtain s1 where s1: "refillCache s = (Inr (), s1)" "smooth s1"
    by (auto simp: succeeds_def)
  with assms(2,3) have r: "newContext s = (Inr (), s1)" by (simp add: newContext_def)
  have "good {} s" using assms(4) by (simp add: topom_inv_def)
  from newContext_ok [OF this r] have "cache_step s s1" "good {} s1" "filled s1" "t_hooks s1 = []" by auto
  with assms(4) have "running {} s1" by (auto simp: running_def intro: cache_step_inv)
  with r s1 \<open>cache_step s s1\<close> show ?thesis by blast
qed

end
