(* ===== verification/Liveness.thy ===== *)
theory Liveness
  imports Progress
begin

text \<open>
  Progress when nothing outside fails and no group is being promoted: a proxy that is initialised
  again learns of every slot, and an action that has been created is carried out.
\<close>

section \<open>Routes\<close>

definition calm :: "Store \<Rightarrow> bool" where
  "calm st \<longleftrightarrow> (\<forall>gid g. map_of (st_group st) gid = Some g \<longrightarrow> g_PromState g = ActionNothing)"

text \<open>\<open>easy s\<close>: every access will succeed, and the context shows no group that is being promoted.\<close>

definition easy :: "Topom \<Rightarrow> bool" where
  "easy s \<longleftrightarrow> smooth s \<and> (\<forall>gid g. lookupGroup gid s = Some g \<longrightarrow> g_PromState g = ActionNothing)"

definition routable :: "ActionState \<Rightarrow> bool" where
  "routable st \<longleftrightarrow> st \<in> {ActionNothing, ActionPending, ActionPreparing, ActionPrepared, ActionMigrating, ActionFinished}"

lemma running_easy:
  assumes "running {} s" and "smooth s" and "calm (t_store s)"
  shows "easy s"
proof -
  from assms have good: "good {} s" "filled s" "t_hooks s = []" by (simp_all add: running_def topom_inv_def)
  from lookupGroup_store [OF good] assms(2,3) show ?thesis by (auto simp: easy_def calm_def stale_def)
qed

lemma isGroupLocked_easy: "easy s \<Longrightarrow> isGroupLocked gid s = Some False"
  by (auto simp: isGroupLocked_def easy_def split: option.splits)

lemma isGroupPromoting_easy: "easy s \<Longrightarrow> \<not> isGroupPromoting gid s"
  by (auto simp: isGroupPromoting_def easy_def split: option.splits)

lemma toSlot_easy:
  "easy s \<Longrightarrow> routable (sm_State m) \<Longrightarrow>
   \<exists>v. toSlot m p s = Some v \<and> sl_Id v = sm_Id m \<and> (sl_Locked v \<longleftrightarrow> sm_State m = ActionPrepared)"
  by (cases "sm_State m")
    (auto simp: toSlot_def isSlotLocked_def isGroupLocked_easy routable_def Let_def)

lemma context_views [simp]:
  "lookupGroup gid (s\<lparr>t_views := w\<rparr>) = lookupGroup gid s" "ctx_method (s\<lparr>t_views := w\<rparr>) = ctx_method s"
  "t_dns (s\<lparr>t_views := w\<rparr>) = t_dns s"
  by (simp_all add: lookupGroup_def ctx_group_def ctx_method_def)

lemma routes_views [simp]:
  "isGroupLocked gid (s\<lparr>t_views := w\<rparr>) = isGroupLocked gid s"
  "getGroupMaster gid (s\<lparr>t_views := w\<rparr>) = getGroupMaster gid s"
  "getPriority ip dc x (s\<lparr>t_views := w\<rparr>) = getPriority ip dc x s"
  by (simp_all add: isGroupLocked_def getGroupMaster_def getPriority_def)

lemma slot_views [simp]:
  "isSlotLocked m (s\<lparr>t_views := w\<rparr>) = isSlotLocked m s"
  "toReplicaGroups gid p (s\<lparr>t_views := w\<rparr>) = toReplicaGroups gid p s"
  unfolding isSlotLocked_def toReplicaGroups_def routes_views context_views by simp_all

lemma toSlot_views [simp]: "toSlot m p (s\<lparr>t_views := w\<rparr>) = toSlot m p s"
  unfolding toSlot_def slot_views routes_views context_views ..

lemma smooth_updates [simp]:
  "smooth (s\<lparr>t_views := w\<rparr>) = smooth s" "smooth (s\<lparr>t_acls := a\<rparr>) = smooth s" "smooth (s\<lparr>t_limits := l\<rparr>) = smooth s"
  "smooth (s\<lparr>t_store := st\<rparr>) = smooth s" "smooth (setSlot i m s) = smooth s" "smooth (s\<lparr>t_executor := n\<rparr>) = smooth s"
  "smooth (pushHook h s) = smooth s"
  by (simp_all add: smooth_def setSlot_def pushHook_def)

lemma easy_updates [simp]:
  "easy (s\<lparr>t_views := w\<rparr>) = easy s" "easy (s\<lparr>t_store := st\<rparr>) = easy s" "easy (setSlot i m s) = easy s"
  "easy (pushHook h s) = easy s" "easy (s\<lparr>t_executor := n\<rparr>) = easy s"
  by (simp_all add: easy_def lookupGroup_def ctx_group_def setSlot_def pushHook_def smooth_def)

lemma toSlotSlice_some:
  "\<forall>m \<in> set ms. toSlot m p s \<noteq> None \<Longrightarrow> toSlotSlice ms p s = Some (map (\<lambda>m. the (toSlot m p s)) ms)"
proof (induction ms)
  case (Cons m ms)
  then obtain x where "toSlot m p s = Some x" by auto
  with Cons show ?case by (auto simp: toSlotSlice_def Let_def List.map_filter_simps split: if_splits)
qed (simp add: toSlotSlice_def List.map_filter_simps)

lemma foldl_view_distinct:
  "distinct (map sl_Id l) \<Longrightarrow> x \<in> set l \<Longrightarrow> foldl (\<lambda>v x. v(sl_Id x \<mapsto> x)) w l (sl_Id x) = Some x"
proof (induction l rule: rev_induct)
  case (snoc y l)
  show ?case
  proof (cases "x = y")
    case False
    with snoc.prems have x: "x \<in> set l" by simp
    moreover from x snoc.prems have "sl_Id x \<noteq> sl_Id y" by (auto simp: image_iff)
    ultimately have "x \<in> set l" "sl_Id x \<noteq> sl_Id y" by simp_all
    with snoc show ?thesis by simp
  qed simp
qed simp

section \<open>A proxy that is initialised again\<close>

lemma reinitProxy_easy:
  assumes s: "running {} s" "easy s" and ok: "\<And>i. i < MaxSlotNum \<Longrightarrow> routable (sm_State (slot_at (t_store s) (int i)))"
  shows "\<exists>w s1. reinitProxy p s = (Inr (), s1) \<and> smooth s1 \<and> outside (s\<lparr>t_views := (t_views s)(p_Token p := w)\<rparr>) s1 \<and>
     (\<forall>i < MaxSlotNum. w (int i) = toSlot (slot_at (t_store s) (int i)) (Some p) s)"
proof -
  from s have run: "running {} s" and sm: "smooth s" by (simp_all add: easy_def)
  have slot: "ctx_slots s ! i = slot_at (t_store s) (int i)" if "i < MaxSlotNum" for i
    using running_ctx [OF run that] by (auto simp: slot_is_def stale_def)
  let ?f = "\<lambda>m. the (toSlot m (Some p) s)"
  have some: "\<exists>v. toSlot m (Some p) s = Some v \<and> sl_Id v = sm_Id m" if "m \<in> set (ctx_slots s)" for m
  proof -
    from that length_running [OF run] obtain i where i: "i < MaxSlotNum" "m = ctx_slots s ! i" by (metis in_set_conv_nth)
    with ok slot toSlot_easy [OF s(2), of m "Some p"] show ?thesis by auto
  qed
  let ?l = "map ?f (ctx_slots s)"
  have l: "toSlotSlice (ctx_slots s) (Some p) s = Some ?l" using some by (intro toSlotSlice_some) auto
  have "map sl_Id ?l = map sm_Id (ctx_slots s)" using some by fastforce
  then have d: "distinct (map sl_Id ?l)" using distinct_slot_ids [OF run] by (simp only:)
  define w where "w = foldl (\<lambda>v x. v(sl_Id x \<mapsto> x)) (t_views s (p_Token p)) ?l"
  have "w (int i) = toSlot (slot_at (t_store s) (int i)) (Some p) s" if i: "i < MaxSlotNum" for i
  proof -
    let ?m = "slot_at (t_store s) (int i)"
    have m: "?m \<in> set (ctx_slots s)" using slot [OF i] length_running [OF run] i by (metis nth_mem)
    obtain v where v: "toSlot ?m (Some p) s = Some v" "sl_Id v = int i"
      using some [OF m] run by (auto simp: running_iff)
    have "v \<in> set ?l" using m v by (auto simp: image_iff intro!: bexI [of _ ?m])
    from foldl_view_distinct [OF d this] v show ?thesis by (simp add: w_def)
  qed
  moreover have a: "applySlots (p_Token p) ?l s = s\<lparr>t_views := (t_views s)(p_Token p := w)\<rparr>"
    by (simp add: applySlots_def w_def)
  define rest where "rest = seqT (bindT (readT ctx_acl) (SetACL (p_Token p)))
      (seqT (bindT (readT ctx_proxyQPSLimit) (\<lambda>config. if shouldSyncProxyQPSLimit config
         then SetQPSLimit (p_Token p) (ql_Revision config) (ql_Limit config) else returnT ()))
       (seqT (callProxy (ProxyCallFailed (p_Token p))) (callProxy (ProxyCallFailed (p_Token p)))))"
  have "outer rest" unfolding rest_def by (intro outer_rules outer_told)
  moreover have "fst (rest s') = Inr () \<and> smooth (snd (rest s'))" if "smooth s'" for s'
    using that by (simp add: rest_def seqT_def bindT_def readT_def returnT_def SetACL_def SetQPSLimit_def)
  moreover have "reinitProxy p s = rest (s\<lparr>t_views := (t_views s)(p_Token p := w)\<rparr>)"
    using l sm a by (simp add: reinitProxy_def rest_def bindT_def [of "readT _"] seqT_def [of "fillSlots _ _"] readT_def bindT_def)
  ultimately show ?thesis using sm by (intro exI [of _ w] exI [of _ "snd (reinitProxy p s)"]) (auto simp: outer_def prod_eq_iff)
qed

section \<open>Steps of an action\<close>

definition onward :: "Topom \<Rightarrow> Topom \<Rightarrow> bool" where
  "onward s s1 \<longleftrightarrow> easy s1 \<and> t_online s1 = t_online s \<and> t_closed s1 = t_closed s \<and> t_disabled s1 = t_disabled s"

lemma onward_trans: "onward s s1 \<Longrightarrow> onward s1 s2 \<Longrightarrow> onward s s2"
  by (simp add: onward_def)

lemma onward_updates [simp]:
  "easy s \<Longrightarrow> onward s (s\<lparr>t_views := w\<rparr>)" "easy s \<Longrightarrow> onward s (s\<lparr>t_store := st\<rparr>)"
  "easy s \<Longrightarrow> onward s (setSlot i m s)" "easy s \<Longrightarrow> onward s (pushHook h s)"
  by (simp_all add: onward_def) (simp_all add: setSlot_def pushHook_def)

lemma resyncProxies_easy:
  "easy s \<Longrightarrow> routable (sm_State m) \<Longrightarrow> \<exists>w. resyncProxies [m] ps False s = (Inr (), s\<lparr>t_views := w\<rparr>)"
proof (induction ps arbitrary: s)
  case Nil
  then show ?case by (intro exI [of _ "t_views s"]) simp
next
  case (Cons kp ps)
  obtain k p where kp: "kp = (k, p)" by fastforce
  obtain v where v: "toSlot m (Some p) s = Some v" using toSlot_easy [OF Cons.prems] by blast
  then have l: "toSlotSlice [m] (Some p) s = Some [v]" by (simp add: toSlotSlice_def List.map_filter_simps)
  have "smooth s" using Cons.prems by (simp add: easy_def)
  with l kp have "resyncProxies [m] (kp # ps) False s = resyncProxies [m] ps False (applySlots (p_Token p) [v] s)"
    by simp
  moreover obtain w0 where "applySlots (p_Token p) [v] s = s\<lparr>t_views := w0\<rparr>" by (simp add: applySlots_def)
  ultimately show ?case using Cons.IH [of "s\<lparr>t_views := w0\<rparr>"] Cons.prems by auto
qed

lemma resync_easy:
  "easy s \<Longrightarrow> routable (sm_State m) \<Longrightarrow> \<exists>w. resyncSlotMappings [m] s = (Inr (), s\<lparr>t_views := w\<rparr>)"
  by (simp add: resyncSlotMappings_def resyncProxies_easy)

lemma easy_smooth: "easy s \<Longrightarrow> smooth s"
  by (simp add: easy_def)

lemma store_slot_easy: "easy s \<Longrightarrow> storeUpdateSlotMapping m s = (Inr (), s\<lparr>t_store := put_slot m (t_store s)\<rparr>)"
  by (simp add: storeUpdateSlotMapping_def easy_smooth)

lemma setSlot_store [simp]: "(setSlot i m s)\<lparr>t_store := st\<rparr> = setSlot i m (s\<lparr>t_store := st\<rparr>)"
  by (simp add: setSlot_def)

lemma pushHook_store [simp]: "t_store (pushHook h s) = t_store s" "t_hooks (pushHook h s) = t_hooks s @ [h]"
  by (simp_all add: pushHook_def)

text \<open>The state in which an operation has moved the slot to \<open>m\<close>.\<close>

definition moved :: "Topom \<Rightarrow> SlotMapping \<Rightarrow> Topom \<Rightarrow> bool" where
  "moved s m s1 \<longleftrightarrow> onward s s1 \<and> t_store s1 = put_slot m (t_store s)"

lemma moved_defer:
  "m s = (Inr x, s1) \<Longrightarrow> moved s k s1 \<Longrightarrow> \<exists>s2. deferT (dirtySlotsCache i) m s = (Inr x, s2) \<and> moved s k s2"
  by (auto simp: deferT_def dirtySlotsCache_def moved_def onward_def) (simp add: pushHook_def)+

lemma moved_after:
  "moved s1 m s2 \<Longrightarrow> onward s s1 \<Longrightarrow> t_store s1 = t_store s \<or> (\<exists>k. sm_Id k = sm_Id m \<and> t_store s1 = put_slot k (t_store s)) \<Longrightarrow>
   moved s m s2"
  by (auto simp: moved_def onward_def)

lemma prepareFromPrepared_easy:
  assumes "easy s"
  shows "\<exists>s1. prepareFromPrepared i m s = (Inr (sm_Id m, True), s1) \<and> moved s (m\<lparr>sm_State := ActionMigrating\<rparr>) s1"
proof -
  let ?m = "m\<lparr>sm_State := ActionMigrating\<rparr>"
  obtain w where "resyncSlotMappings [?m] (setSlot i ?m s) = (Inr (), (setSlot i ?m s)\<lparr>t_views := w\<rparr>)"
    using resync_easy [of "setSlot i ?m s" ?m] assms by (auto simp: routable_def)
  then have "seqT (modifyT (setSlot i ?m)) (seqT (resyncSlotMappings [?m]) (seqT (storeUpdateSlotMapping ?m) (returnT (sm_Id ?m, True)))) s =
      (Inr (sm_Id m, True), (setSlot i ?m s)\<lparr>t_views := w, t_store := put_slot ?m (t_store s)\<rparr>)"
    using assms by (simp add: seqT_def bindT_def modifyT_def returnT_def store_slot_easy del: setSlot_store)
  moreover have "moved s ?m ((setSlot i ?m s)\<lparr>t_views := w, t_store := put_slot ?m (t_store s)\<rparr>)"
    using assms by (simp add: moved_def onward_def del: setSlot_store) (simp add: setSlot_def)
  ultimately show ?thesis unfolding prepareFromPrepared_def Let_def by (rule moved_defer)
qed

lemma prepareFromPreparing_easy:
  assumes "easy s"
  shows "\<exists>s1. prepareFromPreparing i m s = (Inr (sm_Id m, True), s1) \<and> moved s (m\<lparr>sm_State := ActionMigrating\<rparr>) s1"
proof -
  let ?m = "m\<lparr>sm_State := ActionPrepared\<rparr>"
  obtain w where w: "resyncSlotMappings [?m] (setSlot i ?m s) = (Inr (), (setSlot i ?m s)\<lparr>t_views := w\<rparr>)"
    using resync_easy [of "setSlot i ?m s" ?m] assms by (auto simp: routable_def)
  define s1 where "s1 = (setSlot i ?m s)\<lparr>t_views := w, t_store := put_slot ?m (t_store s)\<rparr>"
  have s1: "onward s s1" "t_store s1 = put_slot ?m (t_store s)"
    using assms by (simp_all add: s1_def onward_def del: setSlot_store) (simp_all add: setSlot_def)
  obtain s2 where s2: "prepareFromPrepared i ?m s1 = (Inr (sm_Id m, True), s2)" "moved s1 (m\<lparr>sm_State := ActionMigrating\<rparr>) s2"
    using prepareFromPrepared_easy [of s1 i ?m] s1(1) by (auto simp: onward_def)
  have "moved s (m\<lparr>sm_State := ActionMigrating\<rparr>) s2"
    using s2(2) s1(1) by (rule moved_after) (auto simp: s1(2) intro: exI [of _ ?m])
  moreover have "seqT (modifyT (setSlot i ?m)) (seqT (catchT (resyncSlotMappings [?m]) h)
      (seqT (storeUpdateSlotMapping ?m) (prepareFromPrepared i ?m))) s = (Inr (sm_Id m, True), s2)" for h
    using assms w s2(1)
    by (simp add: seqT_def bindT_def modifyT_def catchT_def store_slot_easy s1_def del: setSlot_store)
  ultimately show ?thesis unfolding prepareFromPreparing_def Let_def by (intro moved_defer) blast+
qed

lemma prepareFromPending_easy:
  assumes "easy s"
  shows "\<exists>s1. prepareFromPending i m s = (Inr (sm_Id m, True), s1) \<and> moved s (m\<lparr>sm_State := ActionMigrating\<rparr>) s1"
proof -
  let ?m = "m\<lparr>sm_State := ActionPreparing\<rparr>"
  define s1 where "s1 = (setSlot i ?m s)\<lparr>t_store := put_slot ?m (t_store s)\<rparr>"
  have s1: "onward s s1" "t_store s1 = put_slot ?m (t_store s)"
    using assms by (simp_all add: s1_def onward_def del: setSlot_store) (simp_all add: setSlot_def)
  obtain s2 where s2: "prepareFromPreparing i ?m s1 = (Inr (sm_Id m, True), s2)" "moved s1 (m\<lparr>sm_State := ActionMigrating\<rparr>) s2"
    using prepareFromPreparing_easy [of s1 i ?m] s1(1) by (auto simp: onward_def)
  have "moved s (m\<lparr>sm_State := ActionMigrating\<rparr>) s2"
    using s2(2) s1(1) by (rule moved_after) (auto simp: s1(2) intro: exI [of _ ?m])
  moreover have "seqT (modifyT (setSlot i ?m)) (seqT (storeUpdateSlotMapping ?m) (prepareFromPreparing i ?m)) s =
      (Inr (sm_Id m, True), s2)"
    using assms s2(1) by (simp add: seqT_def bindT_def modifyT_def store_slot_easy s1_def del: setSlot_store)
  ultimately show ?thesis unfolding prepareFromPending_def Let_def by (intro moved_defer)
qed

section \<open>The operations\<close>

definition live :: "Topom \<Rightarrow> bool" where
  "live s \<longleftrightarrow> topom_inv {} s \<and> smooth s \<and> t_online s \<and> \<not> t_closed s \<and> calm (t_store s) \<and> \<not> t_disabled s"

definition only_slot :: "int \<Rightarrow> Topom \<Rightarrow> Topom \<Rightarrow> bool" where
  "only_slot sid s s1 \<longleftrightarrow> (\<forall>j. j \<noteq> sid \<longrightarrow> slot_at (t_store s1) j = slot_at (t_store s) j) \<and>
     st_group (t_store s1) = st_group (t_store s)"

definition active :: "ActionState \<Rightarrow> bool" where
  "active st \<longleftrightarrow> st \<in> {ActionPending, ActionPreparing, ActionPrepared, ActionMigrating, ActionFinished}"

definition underway :: "ActionState \<Rightarrow> bool" where
  "underway st \<longleftrightarrow> st \<in> {ActionMigrating, ActionFinished}"

lemma only_slot_refl [simp]: "only_slot sid s s"
  by (simp add: only_slot_def)

lemma only_slot_trans: "only_slot sid s s1 \<Longrightarrow> only_slot sid s1 s2 \<Longrightarrow> only_slot sid s s2"
  by (simp add: only_slot_def)

lemma only_slot_store: "t_store s1 = t_store s \<Longrightarrow> only_slot sid s s1"
  by (simp add: only_slot_def)

lemma moved_only: "moved s m s1 \<Longrightarrow> only_slot (sm_Id m) s s1 \<and> slot_at (t_store s1) (sm_Id m) = m"
  by (auto simp: moved_def only_slot_def slot_at_put)

lemma live_context:
  assumes "live s"
  shows "\<exists>s1. newContext s = (Inr (), s1) \<and> running {} s1 \<and> easy s1 \<and> live s1 \<and> t_store s1 = t_store s"
proof -
  from assms have s: "smooth s" "t_online s" "\<not> t_closed s" "topom_inv {} s" by (simp_all add: live_def)
  from newContext_smooth [OF s] obtain s1 where
    s1: "newContext s = (Inr (), s1)" "smooth s1" "running {} s1" "cache_step s s1" by blast
  have "t_store s1 = t_store s" "t_online s1" "\<not> t_closed s1" "t_disabled s1 = t_disabled s"
    using s s1(4) by (auto simp: cache_step_def)
  with assms s1 show ?thesis by (auto simp: live_def running_inv intro: running_easy)
qed

lemma live_onward: "live s \<Longrightarrow> onward s s1 \<Longrightarrow> topom_inv {} s1 \<Longrightarrow> st_group (t_store s1) = st_group (t_store s) \<Longrightarrow> live s1"
  by (auto simp: live_def onward_def easy_def calm_def)

lemma prepareSwitch_easy:
  assumes "easy s" and "active (sm_State m)" and "slot_at (t_store s) (sm_Id m) = m"
  shows "\<exists>s1 st. prepareSwitch i m s = (Inr (sm_Id m, True), s1) \<and> onward s s1 \<and> only_slot (sm_Id m) s s1 \<and>
     underway st \<and> slot_at (t_store s1) (sm_Id m) = m\<lparr>sm_State := st\<rparr>"
proof -
  have stay: ?thesis if "underway (sm_State m)" "prepareSwitch i m s = (Inr (sm_Id m, True), s)"
    using that assms by (intro exI [of _ s] exI [of _ "sm_State m"]) (simp add: onward_def)
  have move: ?thesis if "\<exists>s1. prepareSwitch i m s = (Inr (sm_Id m, True), s1) \<and> moved s (m\<lparr>sm_State := ActionMigrating\<rparr>) s1"
  proof -
    from that obtain s1 where s1: "prepareSwitch i m s = (Inr (sm_Id m, True), s1)" "moved s (m\<lparr>sm_State := ActionMigrating\<rparr>) s1"
      by blast
    with moved_only [OF s1(2)] show ?thesis
      by (intro exI [of _ s1] exI [of _ ActionMigrating]) (simp add: moved_def underway_def)
  qed
  from assms(2) consider "sm_State m = ActionPending" | "sm_State m = ActionPreparing" | "sm_State m = ActionPrepared"
    | "sm_State m = ActionMigrating" | "sm_State m = ActionFinished" by (auto simp: active_def)
  then show ?thesis
  proof cases
    case 1
    then show ?thesis using prepareFromPending_easy [OF assms(1), of i m] by (intro move) (simp add: prepareSwitch_def)
  next
    case 2
    then show ?thesis using prepareFromPreparing_easy [OF assms(1), of i m] by (intro move) (simp add: prepareSwitch_def)
  next
    case 3
    then show ?thesis using prepareFromPrepared_easy [OF assms(1), of i m] by (intro move) (simp add: prepareSwitch_def)
  qed (intro stay; simp add: prepareSwitch_def underway_def returnT_def)+
qed

subsection \<open>The choice\<close>

lemma minActionIndex_some:
  "picked \<noteq> None \<or> (\<exists>m \<in> set ms. sm_State m \<noteq> ActionNothing \<and> filt m \<and> accept m) \<Longrightarrow>
   minActionIndex accept filt n ms picked \<noteq> None"
proof (induction ms arbitrary: n picked)
  case (Cons x ms)
  show ?case unfolding minActionIndex.simps
    by (rule Cons.IH) (use Cons.prems in \<open>auto split: option.splits\<close>)
qed simp

lemma minActionIndex_sat:
  "minActionIndex accept filt n ms picked = Some (i, m) \<Longrightarrow>
   picked = Some (i, m) \<or> sm_State m \<noteq> ActionNothing \<and> accept m"
proof (induction ms arbitrary: n picked)
  case (Cons x ms)
  from Cons.IH [OF Cons.prems [unfolded minActionIndex.simps]] show ?case by (auto split: if_splits)
qed simp

lemma pickAction_only:
  assumes s: "running {} s" and sid: "0 \<le> sid" "sid < int MaxSlotNum" and "\<not> t_disabled s"
    and others: "\<And>j. 0 \<le> j \<Longrightarrow> j < int MaxSlotNum \<Longrightarrow> j \<noteq> sid \<Longrightarrow> sm_State (slot_at (t_store s) j) = ActionNothing"
  defines "m \<equiv> slot_at (t_store s) sid"
  assumes act: "sm_State m \<noteq> ActionNothing"
  shows "pickAction accept s = (if accept m then Some (nat sid, m) else None)"
proof -
  have slot: "ctx_slots s ! i = slot_at (t_store s) (int i)" if "i < MaxSlotNum" for i
    using running_ctx [OF s that] by (auto simp: slot_is_def stale_def)
  have sat: "sm_State m' \<noteq> ActionNothing \<and> accept m'" if "pickAction accept s = Some (i, m')" for i m'
    using that by (auto simp: pickAction_def split: option.splits if_splits dest!: minActionIndex_sat)
  have only: "i = nat sid \<and> m' = m" if p: "pickAction accept s = Some (i, m')" for i m'
  proof -
    from pickAction_in [OF p] length_running [OF s] slot have i: "i < MaxSlotNum" "m' = slot_at (t_store s) (int i)" by auto
    with sat [OF p] others [of "int i"] have "int i = sid" by fastforce
    with i m_def show ?thesis by auto
  qed
  have "nat sid < MaxSlotNum" using sid by simp
  then have "m \<in> set (ctx_slots s)"
    using slot [of "nat sid"] length_running [OF s] sid m_def by (metis int_nat_eq nth_mem)
  then have some: "minActionIndex accept filt 0 (ctx_slots s) None \<noteq> None" if "accept m" "filt m" for filt
    using that act by (intro minActionIndex_some) blast
  have "pickAction accept s \<noteq> None" if "accept m"
    using some [OF that, of "\<lambda>m. sm_State m \<noteq> ActionPending"] some [OF that, of "\<lambda>m. sm_State m = ActionPending"]
      assms(4) unfolding pickAction_def by (cases "sm_State m = ActionPending") (auto split: option.split)
  then show ?thesis using only sat by (cases "pickAction accept s") auto
qed

lemma prepare_only:
  assumes s: "live s" and sid: "0 \<le> sid" "sid < int MaxSlotNum"
    and others: "\<And>j. 0 \<le> j \<Longrightarrow> j < int MaxSlotNum \<Longrightarrow> j \<noteq> sid \<Longrightarrow> sm_State (slot_at (t_store s) j) = ActionNothing"
    and m: "slot_at (t_store s) sid = m" "active (sm_State m)" "accept m" and u: "update u m = (True, u1)"
  shows "\<exists>s1 st. SlotActionPrepareFilter accept update u s = (Inr (sid, True, u1), s1) \<and> live s1 \<and>
     only_slot sid s s1 \<and> underway st \<and> slot_at (t_store s1) sid = m\<lparr>sm_State := st\<rparr>"
proof -
  from live_context [OF s] obtain s0 where
    s0: "newContext s = (Inr (), s0)" "running {} s0" "easy s0" "live s0" "t_store s0 = t_store s" by blast
  have "wf_store (t_store s)" using s by (simp add: live_def topom_inv_def good_def)
  then have id: "sm_Id m = sid" using m(1) by auto
  have "pickAction accept s0 = Some (nat sid, m)"
    using pickAction_only [OF s0(2) sid, of accept] s0(4,5) others m by (auto simp: live_def active_def)
  moreover from prepareSwitch_easy [OF s0(3) m(2)] m(1) s0(5) id obtain s1 st where
    s1: "prepareSwitch (nat sid) m s0 = (Inr (sid, True), s1)" "onward s0 s1" "only_slot sid s0 s1" "underway st"
      "slot_at (t_store s1) sid = m\<lparr>sm_State := st\<rparr>" by fastforce
  ultimately have r: "SlotActionPrepareFilter accept update u s = (Inr (sid, True, u1), s1)"
    using s0(1) u by (simp add: SlotActionPrepareFilter_def seqT_def bindT_def readT_def returnT_def)
  have "topom_inv {} s1"
    using SlotActionPrepareFilter_inv [of s accept update u] s r by (simp add: live_def)
  with live_onward [OF s0(4) s1(2)] s1(3) have "live s1" by (simp add: only_slot_def)
  with r s1 s0(5) show ?thesis by (auto simp: only_slot_def)
qed

lemma prepare_none:
  assumes s: "live s" and sid: "0 \<le> sid" "sid < int MaxSlotNum"
    and others: "\<And>j. 0 \<le> j \<Longrightarrow> j < int MaxSlotNum \<Longrightarrow> j \<noteq> sid \<Longrightarrow> sm_State (slot_at (t_store s) j) = ActionNothing"
    and m: "sm_State (slot_at (t_store s) sid) = ActionNothing \<or> \<not> accept (slot_at (t_store s) sid)"
  shows "\<exists>s1. SlotActionPrepareFilter accept update u s = (Inr (0, False, u), s1) \<and> live s1 \<and> t_store s1 = t_store s"
proof -
  from live_context [OF s] obtain s0 where
    s0: "newContext s = (Inr (), s0)" "running {} s0" "live s0" "t_store s0 = t_store s" by blast
  have "pickAction accept s0 = None"
  proof (cases "sm_State (slot_at (t_store s) sid) = ActionNothing")
    case True
    have slot: "ctx_slots s0 ! i = slot_at (t_store s0) (int i)" if "i < MaxSlotNum" for i
      using running_ctx [OF s0(2) that] by (auto simp: slot_is_def stale_def)
    have False if p: "pickAction accept s0 = Some (i, m')" for i m'
    proof -
      from pickAction_in [OF p] length_running [OF s0(2)] slot have "i < MaxSlotNum" "m' = slot_at (t_store s) (int i)"
        by (auto simp: s0(4))
      then have "sm_State m' = ActionNothing" using others [of "int i"] True by (cases "int i = sid") auto
      with p show False by (auto simp: pickAction_def split: option.splits if_splits dest!: minActionIndex_sat)
    qed
    then show ?thesis by (cases "pickAction accept s0") auto
  next
    case False
    with pickAction_only [OF s0(2) sid, of accept] s0(3,4) others m show ?thesis by (auto simp: live_def)
  qed
  with s0 show ?thesis by (auto simp: SlotActionPrepareFilter_def seqT_def bindT_def readT_def returnT_def)
qed

subsection \<open>Execution and completion\<close>

lemma executor_live:
  assumes s: "live s" and sid: "0 \<le> sid" "sid < int MaxSlotNum" and u: "underway (sm_State (slot_at (t_store s) sid))"
  shows "\<exists>ex s1. newSlotActionExecutor sid s = (Inr (Some ex), s1) \<and> live s1 \<and> t_store s1 = t_store s"
proof -
  from live_context [OF s] obtain s0 where
    s0: "newContext s = (Inr (), s0)" "running {} s0" "easy s0" "live s0" "t_store s0 = t_store s" by blast
  let ?m = "slot_at (t_store s) sid"
  have slot: "ctx_slots s0 ! nat sid = ?m"
    using running_ctx [OF s0(2), of "nat sid"] sid s0(5) by (auto simp: slot_is_def stale_def)
  have get: "getSlotMapping sid s0 = (Inr ?m, s0)"
    using length_running [OF s0(2)] sid slot by (simp add: getSlotMapping_def)
  have inv: "topom_inv {} (snd (newSlotActionExecutor sid s))"
    using s by (intro newSlotActionExecutor_inv) (simp add: live_def)
  from u consider "sm_State ?m = ActionMigrating" | "sm_State ?m = ActionFinished" by (auto simp: underway_def)
  then show ?thesis
  proof cases
    case 1
    let ?s = "s0\<lparr>t_executor := t_executor s0 + 1\<rparr>"
    have "newSlotActionExecutor sid s =
        (Inr (Some (ExecMigrate (getGroupMaster (sm_GroupId ?m) s0) (getGroupMaster (sm_TargetId ?m) s0))), ?s)"
      using s0(1,4) get 1 isGroupPromoting_easy [OF s0(3)]
      by (simp add: newSlotActionExecutor_def seqT_def bindT_def readT_def returnT_def modifyT_def live_def)
    with inv s0 show ?thesis by (simp add: live_def smooth_def)
  next
    case 2
    with s0 get show ?thesis by (simp add: newSlotActionExecutor_def seqT_def bindT_def returnT_def)
  qed
qed

lemma runExecutor_live:
  assumes "live s"
  shows "\<exists>n' db' s1. runExecutor ex db n dbs s = (Inr (n', db'), s1) \<and> live s1 \<and> t_store s1 = t_store s \<and>
     (n = 0 \<and> dbs = [] \<longrightarrow> n' = 0 \<and> db' = -1)"
proof (cases ex)
  case (ExecMigrate src dest)
  have "smooth s" using assms by (simp add: live_def)
  with assms ExecMigrate show ?thesis
    by (cases "src = []"; cases "n = 0")
      (auto simp: runExecutor_def deferT_def seqT_def bindT_def returnT_def live_def nextDB_def smooth_def
        callProxy_def next_outcome_def)
next
  case ExecFinished
  with assms show ?thesis by (simp add: runExecutor_def returnT_def)
qed

lemma completeFromFinished_easy:
  assumes "easy s" and "sm_State m = ActionFinished"
  shows "\<exists>s1. completeFromFinished m s = (Inr (), s1) \<and> moved s (SlotMapping_of (sm_Id m) (sm_TargetId m)) s1"
proof -
  obtain w where w: "resyncSlotMappings [m] s = (Inr (), s\<lparr>t_views := w\<rparr>)"
    using resync_easy [OF assms(1), of m] assms(2) by (auto simp: routable_def)
  let ?m = "SlotMapping_of (sm_Id m) (sm_TargetId m)"
  have B: "moved (s\<lparr>t_views := w\<rparr>) ?m (s\<lparr>t_views := w, t_store := put_slot ?m (t_store s)\<rparr>)"
    using assms by (simp add: moved_def)
  have A: "storeUpdateSlotMapping ?m (s\<lparr>t_views := w\<rparr>) =
      (Inr (), s\<lparr>t_views := w, t_store := put_slot ?m (t_store s)\<rparr>)"
    using assms(1) by (simp add: store_slot_easy)
  obtain s1 where s1: "deferT (dirtySlotsCache (sm_Id m)) (storeUpdateSlotMapping ?m) (s\<lparr>t_views := w\<rparr>) = (Inr (), s1)"
    "moved (s\<lparr>t_views := w\<rparr>) ?m s1"
    using moved_defer [of "storeUpdateSlotMapping ?m" "s\<lparr>t_views := w\<rparr>", OF A B] by blast
  have "moved s ?m s1" using s1(2) by (rule moved_after) (simp_all add: assms(1))
  with w s1(1) show ?thesis by (simp add: completeFromFinished_def seqT_def bindT_def)
qed

lemma complete_live:
  assumes s: "live s" and sid: "0 \<le> sid" "sid < int MaxSlotNum" and u: "underway (sm_State (slot_at (t_store s) sid))"
  shows "\<exists>s1. SlotActionComplete sid s = (Inr (), s1) \<and> live s1 \<and> only_slot sid s s1 \<and>
     slot_at (t_store s1) sid = SlotMapping_of sid (sm_TargetId (slot_at (t_store s) sid))"
proof -
  from live_context [OF s] obtain s0 where
    s0: "newContext s = (Inr (), s0)" "running {} s0" "easy s0" "live s0" "t_store s0 = t_store s" by blast
  let ?m = "slot_at (t_store s) sid" and ?n = "SlotMapping_of sid (sm_TargetId (slot_at (t_store s) sid))"
  have "wf_store (t_store s)" using s by (simp add: live_def topom_inv_def good_def)
  then have id: "sm_Id ?m = sid" by simp
  have slot: "ctx_slots s0 ! nat sid = ?m"
    using running_ctx [OF s0(2), of "nat sid"] sid s0(5) by (auto simp: slot_is_def stale_def)
  have get: "getSlotMapping sid s0 = (Inr ?m, s0)"
    using length_running [OF s0(2)] sid slot by (simp add: getSlotMapping_def)
  have "\<exists>s1. SlotActionComplete sid s = (Inr (), s1) \<and> moved s0 ?n s1"
  proof (cases "sm_State ?m = ActionFinished")
    case True
    with completeFromFinished_easy [OF s0(3), of ?m] s0(1) get id show ?thesis
      by (simp add: SlotActionComplete_def seqT_def bindT_def)
  next
    case False
    with u have st: "sm_State ?m = ActionMigrating" by (simp add: underway_def)
    let ?f = "?m\<lparr>sm_State := ActionFinished\<rparr>"
    define s2 where "s2 = (setSlot (nat sid) ?f s0)\<lparr>t_store := put_slot ?f (t_store s0)\<rparr>"
    have s2: "onward s0 s2" "t_store s2 = put_slot ?f (t_store s0)"
      using s0(3) by (simp_all add: s2_def onward_def del: setSlot_store) (simp_all add: setSlot_def)
    obtain s3 where s3: "completeFromFinished ?f s2 = (Inr (), s3)" "moved s2 ?n s3"
      using completeFromFinished_easy [of s2 ?f] s2(1) id by (auto simp: onward_def)
    let ?op = "seqT (modifyT (setSlot (nat sid) ?f)) (seqT (storeUpdateSlotMapping ?f) (completeFromFinished ?f))"
    have B: "moved s0 ?n s3" using s3(2) s2(1)
      by (rule moved_after) (auto simp: s2(2) id SlotMapping_of_def intro: exI [of _ ?f])
    have A: "?op s0 = (Inr (), s3)"
      using s0(3) s3(1) by (simp add: seqT_def bindT_def modifyT_def store_slot_easy s2_def del: setSlot_store)
    obtain s1 where "deferT (dirtySlotsCache sid) ?op s0 = (Inr (), s1)" "moved s0 ?n s1"
      using moved_defer [of ?op s0, OF A B] by blast
    with s0(1) get st id show ?thesis by (auto simp: SlotActionComplete_def seqT_def [of newContext] bindT_def Let_def)
  qed
  then obtain s1 where s1: "SlotActionComplete sid s = (Inr (), s1)" "moved s0 ?n s1" by blast
  have "sm_Id ?n = sid" by (simp add: SlotMapping_of_def)
  with moved_only [OF s1(2)] have o: "only_slot sid s0 s1" "slot_at (t_store s1) sid = ?n" by simp_all
  have "topom_inv {} s1" using SlotActionComplete_inv [of s sid] s s1(1) by (simp add: live_def)
  with live_onward [OF s0(4)] s1(2) o(1) have "live s1" by (simp add: moved_def only_slot_def)
  with s1 o s0(5) show ?thesis by (auto simp: only_slot_def)
qed

section \<open>The loops\<close>

lemma processSlotAction_live:
  "length answers < fuel \<Longrightarrow> live s \<Longrightarrow> 0 \<le> sid \<Longrightarrow> sid < int MaxSlotNum \<Longrightarrow>
   underway (sm_State (slot_at (t_store s) sid)) \<Longrightarrow>
   \<exists>s1. processSlotAction fuel sid db answers s = (Inr (Some ()), s1) \<and> live s1 \<and> only_slot sid s s1 \<and>
     slot_at (t_store s1) sid = SlotMapping_of sid (sm_TargetId (slot_at (t_store s) sid))"
proof (induction fuel arbitrary: db answers s)
  case (Suc fuel)
  obtain ex s1 where s1: "newSlotActionExecutor sid s = (Inr (Some ex), s1)" "live s1" "t_store s1 = t_store s"
    using executor_live [OF Suc.prems(2-5)] by blast
  obtain n dbs answers1 where a: "(case answers of [] \<Rightarrow> ((0, []), []) | a # as \<Rightarrow> (a, as)) = ((n, dbs), answers1)"
    by (metis surj_pair)
  obtain n' db' s2 where s2: "runExecutor ex db n dbs s1 = (Inr (n', db'), s2)" "live s2" "t_store s2 = t_store s1"
    "n = 0 \<and> dbs = [] \<longrightarrow> n' = 0 \<and> db' = -1"
    using runExecutor_live [OF s1(2)] by blast
  have store: "t_store s2 = t_store s" using s1(3) s2(3) by simp
  have "IsOnline s" using Suc.prems(2) by (simp add: IsOnline_def live_def)
  with s1(1) s2(1) a have step: "processSlotAction (Suc fuel) sid db answers s =
      (if n' = 0 \<and> db' = -1 then seqT (SlotActionComplete sid) (returnT (Some ()))
       else processSlotAction fuel sid db' answers1) s2"
    by (simp add: bindT_def readT_def)
  show ?case
  proof (cases "n' = 0 \<and> db' = -1")
    case True
    from complete_live [OF s2(2) Suc.prems(3,4)] Suc.prems(5) store obtain s3 where
      "SlotActionComplete sid s2 = (Inr (), s3)" "live s3" "only_slot sid s2 s3"
      "slot_at (t_store s3) sid = SlotMapping_of sid (sm_TargetId (slot_at (t_store s) sid))" by auto
    with step True store show ?thesis by (simp add: seqT_def bindT_def returnT_def only_slot_def)
  next
    case False
    with a s2(4) have "answers \<noteq> []" by (cases answers) auto
    with a Suc.prems(1) have "length answers1 < fuel" by (cases answers) auto
    from Suc.IH [OF this s2(2) Suc.prems(3,4)] Suc.prems(5) store step False show ?thesis
      by (auto simp: only_slot_def)
  qed
qed simp

text \<open>The slot is the only one with an action.\<close>

definition alone :: "int \<Rightarrow> Topom \<Rightarrow> bool" where
  "alone sid s \<longleftrightarrow> 0 \<le> sid \<and> sid < int MaxSlotNum \<and>
     (\<forall>j. 0 \<le> j \<longrightarrow> j < int MaxSlotNum \<longrightarrow> j \<noteq> sid \<longrightarrow> sm_State (slot_at (t_store s) j) = ActionNothing)"

lemma alone_only: "alone sid s \<Longrightarrow> only_slot sid s s1 \<Longrightarrow> alone sid s1"
  by (simp add: alone_def only_slot_def)

lemma plan_only:
  assumes s: "live s" "alone sid s" and act: "active (sm_State (slot_at (t_store s) sid))" and par: "0 < par"
  shows "\<exists>s1 marks st. planActions (Suc par) par ([], []) s = (Inr (Some (marks, [sid])), s1) \<and> live s1 \<and>
     only_slot sid s s1 \<and> underway st \<and> slot_at (t_store s1) sid = (slot_at (t_store s) sid)\<lparr>sm_State := st\<rparr>"
proof -
  let ?m = "slot_at (t_store s) sid"
  have sid: "0 \<le> sid" "sid < int MaxSlotNum" using s(2) by (simp_all add: alone_def)
  have id: "sm_Id ?m = sid" using s(1) by (simp add: live_def topom_inv_def good_def)
  have others: "\<And>j. 0 \<le> j \<Longrightarrow> j < int MaxSlotNum \<Longrightarrow> j \<noteq> sid \<Longrightarrow> sm_State (slot_at (t_store s) j) = ActionNothing"
    using s(2) by (simp add: alone_def)
  obtain marks where u: "plan_update ([], []) ?m = (True, marks, [sid])" by (simp add: plan_update_def Let_def id)
  obtain s1 st where s1: "SlotActionPrepareFilter (plan_accept ([], [])) plan_update ([], []) s = (Inr (sid, True, marks, [sid]), s1)"
    "live s1" "only_slot sid s s1" "underway st" "slot_at (t_store s1) sid = ?m\<lparr>sm_State := st\<rparr>"
    using prepare_only [OF s(1) sid others refl act, of "plan_accept ([], [])" plan_update "([], [])" "(marks, [sid])"] u
    by (auto simp: plan_accept_def)
  have al: "alone sid s1" using s(2) s1(3) by (rule alone_only)
  have "\<exists>s2. planActions par par (marks, [sid]) s1 = (Inr (Some (marks, [sid])), s2) \<and> live s2 \<and> t_store s2 = t_store s1"
  proof (cases "par > 1")
    case True
    then obtain k where k: "par = Suc k" using gr0_implies_Suc par by blast
    have "\<not> plan_accept (marks, [sid]) (slot_at (t_store s1) sid)" by (simp add: plan_accept_def s1(5) id)
    from prepare_none [OF s1(2) sid, where accept = "plan_accept (marks, [sid])" and update = plan_update and u = "(marks, [sid])"]
      al this obtain s2 where "SlotActionPrepareFilter (plan_accept (marks, [sid])) plan_update (marks, [sid]) s1 =
        (Inr (0, False, marks, [sid]), s2)" "live s2" "t_store s2 = t_store s1" by (auto simp: alone_def)
    with True k show ?thesis by (simp add: bindT_def returnT_def)
  next
    case False
    with par have "par = 1" by simp
    with s1(2) show ?thesis by (simp add: returnT_def)
  qed
  then obtain s2 where s2: "planActions par par (marks, [sid]) s1 = (Inr (Some (marks, [sid])), s2)" "live s2" "t_store s2 = t_store s1"
    by blast
  have "planActions (Suc par) par ([], []) s = (Inr (Some (marks, [sid])), s2)"
    using s1(1) s2(1) par by (simp add: bindT_def)
  with s2 s1 show ?thesis by (auto simp: only_slot_def)
qed

lemma plan_none:
  assumes s: "live s" "alone sid s" and none: "sm_State (slot_at (t_store s) sid) = ActionNothing" and par: "0 < par"
  shows "\<exists>s1. planActions (Suc par) par ([], []) s = (Inr (Some ([], [])), s1) \<and> live s1 \<and> t_store s1 = t_store s"
proof -
  have sid: "0 \<le> sid" "sid < int MaxSlotNum" using s(2) by (simp_all add: alone_def)
  from prepare_none [OF s(1) sid, where accept = "plan_accept ([], [])" and update = plan_update and u = "([], [])"] s(2) none
  obtain s1 where "SlotActionPrepareFilter (plan_accept ([], [])) plan_update ([], []) s = (Inr (0, False, [], []), s1)"
    "live s1" "t_store s1 = t_store s" by (auto simp: alone_def)
  with par show ?thesis by (simp add: bindT_def returnT_def)
qed

lemma ProcessSlotAction_live:
  assumes s: "live s" "alone sid s" and act: "active (sm_State (slot_at (t_store s) sid))"
    and fuel: "length (answers sid) + 2 \<le> fuel"
  shows "\<exists>s1. ProcessSlotAction fuel n answers s = (Inr (Some ()), s1) \<and> live s1 \<and> only_slot sid s s1 \<and>
     slot_at (t_store s1) sid = SlotMapping_of sid (sm_TargetId (slot_at (t_store s) sid))"
proof -
  obtain f where f: "fuel = Suc (Suc f)" "length (answers sid) < Suc f" using fuel by (cases fuel; cases "fuel - 1") auto
  define par where "par = max 1 n"
  have par: "0 < par" by (simp add: par_def)
  have sid: "0 \<le> sid" "sid < int MaxSlotNum" using s(2) by (simp_all add: alone_def)
  obtain s1 marks st where s1: "planActions (Suc par) par ([], []) s = (Inr (Some (marks, [sid])), s1)" "live s1"
    "only_slot sid s s1" "underway st" "slot_at (t_store s1) sid = (slot_at (t_store s) sid)\<lparr>sm_State := st\<rparr>"
    using plan_only [OF s act par] by blast
  obtain s2 where s2: "processSlotAction (Suc f) sid 0 (answers sid) s1 = (Inr (Some ()), s2)" "live s2" "only_slot sid s1 s2"
    "slot_at (t_store s2) sid = SlotMapping_of sid (sm_TargetId (slot_at (t_store s) sid))"
    using processSlotAction_live [OF f(2) s1(2) sid] s1(4,5) by auto
  have only: "only_slot sid s s2" using s1(3) s2(3) by (rule only_slot_trans)
  have "sm_State (slot_at (t_store s2) sid) = ActionNothing" by (simp add: s2(4) SlotMapping_of_def)
  from plan_none [OF s2(2) alone_only [OF s(2) only] this par] obtain s3 where
    s3: "planActions (Suc par) par ([], []) s2 = (Inr (Some ([], [])), s3)" "live s3" "t_store s3 = t_store s2" by blast
  have on: "IsOnline s" "IsOnline s2" using s(1) s2(2) by (simp_all add: IsOnline_def live_def)
  have "ProcessSlotAction (Suc f) n answers s2 = (Inr (Some ()), s3)"
    using on(2) s3(1) [unfolded par_def]
    by (simp add: bindT_def readT_def returnT_def Let_def del: planActions.simps)
  then have "ProcessSlotAction fuel n answers s = (Inr (Some ()), s3)"
    unfolding f(1) ProcessSlotAction.simps(2) [of "Suc f"] using on(1) s1(1) [unfolded par_def] s2(1)
    by (simp add: bindT_def readT_def returnT_def Let_def
        del: ProcessSlotAction.simps processSlotAction.simps planActions.simps)
  with s3 only s2(4) show ?thesis by (auto simp: only_slot_def)
qed

end
