(* ===== verification/TopomApi.thy ===== *)
theory TopomApi
  imports TopomAction TopomRebalance
begin

text \<open>
  The handlers of \<open>src/pkg/topom/topom_api.go\<close> that change the state of the dashboard or read the
  settings.  The parameters of a route are a map; an absent one is the empty string.  A response
  is an error (status 800) or a value (status 200).  What a proxy reports about itself when it is
  created is a function of its address.  The handlers that only render statistics, and those of
  the RDB analysis, the point-in-time recovery and the hot key cache, are not modelled.
\<close>

section \<open>Requests\<close>

type_synonym params = "string \<rightharpoonup> string"

datatype api_error =
    TopomError topom_error
  | MissingXAuth
  | InvalidXAuth
  | MissingEntry string
  | InvalidEntry string
  | ServerCheckFailed

datatype payload = ApiOK | ApiACL ACLView | ApiQPSLimit ProxyQPSLimitView | ApiPlans "(int \<times> int) list" | ApiNever

type_synonym 'a api_op = "Topom \<Rightarrow> (api_error + 'a) \<times> Topom"

definition bindA :: "'a api_op \<Rightarrow> ('a \<Rightarrow> 'b api_op) \<Rightarrow> 'b api_op" where
  "bindA m f s = (case m s of (Inl e, s1) \<Rightarrow> (Inl e, s1) | (Inr x, s1) \<Rightarrow> f x s1)"

definition callT :: "('a \<Rightarrow> 'b) \<Rightarrow> 'a topom_op \<Rightarrow> 'b api_op" where
  "callT f m s = (case m s of (Inl e, s1) \<Rightarrow> (Inl (TopomError e), s1) | (Inr x, s1) \<Rightarrow> (Inr (f x), s1))"

abbreviation reply_ok :: "unit topom_op \<Rightarrow> payload api_op" where
  "reply_ok \<equiv> callT (\<lambda>_. ApiOK)"

definition param :: "params \<Rightarrow> string \<Rightarrow> string" where
  "param ps k = (case ps k of None \<Rightarrow> [] | Some v \<Rightarrow> v)"

definition verifyXAuth :: "params \<Rightarrow> unit api_op" where
  "verifyXAuth ps s =
     (if t_closed s then (Inl (TopomError ErrClosedTopom), s)
      else if param ps ''xauth'' = [] then (Inl MissingXAuth, s)
      else if param ps ''xauth'' \<noteq> t_xauth s then (Inl InvalidXAuth, s)
      else (Inr (), s))"

definition authorized :: "params \<Rightarrow> 'a api_op \<Rightarrow> 'a api_op" where
  "authorized ps m = bindA (verifyXAuth ps) (\<lambda>_. m)"

definition parseAddr :: "params \<Rightarrow> string api_op" where
  "parseAddr ps s = (if param ps ''addr'' = [] then Inl (MissingEntry ''addr'') else Inr (param ps ''addr''), s)"

definition parseToken :: "params \<Rightarrow> string api_op" where
  "parseToken ps s = (if param ps ''token'' = [] then Inl (MissingEntry ''token'') else Inr (param ps ''token''), s)"

definition parseInteger :: "params \<Rightarrow> string \<Rightarrow> int api_op" where
  "parseInteger ps entry s =
     (if param ps entry = [] then Inl (MissingEntry entry)
      else (case ParseInt (param ps entry) of Inl _ \<Rightarrow> Inl (InvalidEntry entry) | Inr v \<Rightarrow> Inr (sint v)), s)"

section \<open>Settings\<close>

definition api_GetACL :: "params \<Rightarrow> payload api_op" where
  "api_GetACL ps = authorized ps (callT ApiACL GetACL)"

definition api_SetACL :: "string \<Rightarrow> ACLUpdateRequest \<Rightarrow> params \<Rightarrow> payload api_op" where
  "api_SetACL now req ps = authorized ps (callT ApiACL (UpdateACL now (Some req)))"

definition api_SyncACL :: "params \<Rightarrow> payload api_op" where
  "api_SyncACL ps = authorized ps (callT ApiACL SyncACL)"

definition api_GetProxyQPSLimit :: "(string \<Rightarrow> proxy_report) \<Rightarrow> params \<Rightarrow> payload api_op" where
  "api_GetProxyQPSLimit stats ps = authorized ps (callT ApiQPSLimit (GetProxyQPSLimit stats))"

definition api_SetProxyQPSLimit :: "string \<Rightarrow> int \<Rightarrow> params \<Rightarrow> payload api_op" where
  "api_SetProxyQPSLimit now limit ps = authorized ps (callT ApiQPSLimit (UpdateProxyQPSLimit now (Some limit)))"

section \<open>Dashboard and proxies\<close>

definition api_XPing :: "params \<Rightarrow> payload api_op" where
  "api_XPing ps = authorized ps (\<lambda>s. (Inr ApiOK, s))"

definition api_Reload :: "params \<Rightarrow> payload api_op" where
  "api_Reload ps = authorized ps (reply_ok Reload)"

definition api_Shutdown :: "params \<Rightarrow> payload api_op" where
  "api_Shutdown ps = authorized ps (reply_ok Close)"

definition api_CreateProxy :: "(string \<Rightarrow> Proxy) \<Rightarrow> params \<Rightarrow> payload api_op" where
  "api_CreateProxy model ps = authorized ps (bindA (parseAddr ps) (\<lambda>addr. reply_ok (CreateProxy (model addr))))"

definition api_OnlineProxy :: "(string \<Rightarrow> Proxy) \<Rightarrow> params \<Rightarrow> payload api_op" where
  "api_OnlineProxy model ps = authorized ps (bindA (parseAddr ps) (\<lambda>addr. reply_ok (OnlineProxy (model addr))))"

definition api_ReinitProxy :: "params \<Rightarrow> payload api_op" where
  "api_ReinitProxy ps = authorized ps (bindA (parseToken ps) (\<lambda>token. reply_ok (ReinitProxy token)))"

definition api_RemoveProxy :: "params \<Rightarrow> payload api_op" where
  "api_RemoveProxy ps =
     authorized ps (bindA (parseToken ps) (\<lambda>token.
       bindA (parseInteger ps ''force'') (\<lambda>force. reply_ok (RemoveProxy token (force \<noteq> 0)))))"

section \<open>Groups\<close>

definition api_CreateGroup :: "params \<Rightarrow> payload api_op" where
  "api_CreateGroup ps = authorized ps (bindA (parseInteger ps ''gid'') (\<lambda>gid. reply_ok (CreateGroup gid)))"

definition api_RemoveGroup :: "params \<Rightarrow> payload api_op" where
  "api_RemoveGroup ps = authorized ps (bindA (parseInteger ps ''gid'') (\<lambda>gid. reply_ok (RemoveGroup gid)))"

definition api_ResyncGroup :: "params \<Rightarrow> payload api_op" where
  "api_ResyncGroup ps = authorized ps (bindA (parseInteger ps ''gid'') (\<lambda>gid. reply_ok (ResyncGroup gid)))"

definition api_ResyncGroupAll :: "params \<Rightarrow> payload api_op" where
  "api_ResyncGroupAll ps = authorized ps (reply_ok ResyncGroupAll)"

text \<open>A connection to the server and \<open>SLOTSINFO\<close> come first.\<close>

definition checkServer :: "unit api_op" where
  "checkServer s = (case callProxy UpdateFailed s of (r, s1) \<Rightarrow> (case r of Inl _ \<Rightarrow> Inl ServerCheckFailed | Inr _ \<Rightarrow> Inr (), s1))"

definition api_GroupAddServer :: "params \<Rightarrow> payload api_op" where
  "api_GroupAddServer ps =
     authorized ps (bindA (parseInteger ps ''gid'') (\<lambda>gid.
       bindA (parseAddr ps) (\<lambda>addr.
         bindA checkServer (\<lambda>_. bindA checkServer (\<lambda>_.
           reply_ok (GroupAddServer gid (param ps ''datacenter'') addr))))))"

definition api_GroupDelServer :: "params \<Rightarrow> payload api_op" where
  "api_GroupDelServer ps =
     authorized ps (bindA (parseInteger ps ''gid'') (\<lambda>gid.
       bindA (parseAddr ps) (\<lambda>addr. reply_ok (GroupDelServer gid addr))))"

definition api_GroupPromoteServer :: "params \<Rightarrow> payload api_op" where
  "api_GroupPromoteServer ps =
     authorized ps (bindA (parseInteger ps ''gid'') (\<lambda>gid.
       bindA (parseAddr ps) (\<lambda>addr. reply_ok (GroupPromoteServer gid addr))))"

definition api_EnableReplicaGroups :: "params \<Rightarrow> payload api_op" where
  "api_EnableReplicaGroups ps =
     authorized ps (bindA (parseInteger ps ''gid'') (\<lambda>gid.
       bindA (parseAddr ps) (\<lambda>addr.
         bindA (parseInteger ps ''value'') (\<lambda>n. reply_ok (EnableReplicaGroups gid addr (n \<noteq> 0))))))"

definition api_EnableReplicaGroupsAll :: "params \<Rightarrow> payload api_op" where
  "api_EnableReplicaGroupsAll ps =
     authorized ps (bindA (parseInteger ps ''value'') (\<lambda>n. reply_ok (EnableReplicaGroupsAll (n \<noteq> 0))))"

definition api_SyncCreateAction :: "params \<Rightarrow> payload api_op" where
  "api_SyncCreateAction ps = authorized ps (bindA (parseAddr ps) (\<lambda>addr. reply_ok (SyncCreateAction addr)))"

definition api_SyncRemoveAction :: "params \<Rightarrow> payload api_op" where
  "api_SyncRemoveAction ps = authorized ps (bindA (parseAddr ps) (\<lambda>addr. reply_ok (SyncRemoveAction addr)))"

section \<open>Sentinels\<close>

definition api_AddSentinel :: "params \<Rightarrow> payload api_op" where
  "api_AddSentinel ps = authorized ps (bindA (parseAddr ps) (\<lambda>addr. reply_ok (AddSentinel addr)))"

definition api_DelSentinel :: "params \<Rightarrow> payload api_op" where
  "api_DelSentinel ps =
     authorized ps (bindA (parseAddr ps) (\<lambda>addr.
       bindA (parseInteger ps ''force'') (\<lambda>force. reply_ok (DelSentinel addr (force \<noteq> 0)))))"

definition api_ResyncSentinels :: "params \<Rightarrow> payload api_op" where
  "api_ResyncSentinels ps = authorized ps (reply_ok ResyncSentinels)"

section \<open>Slots\<close>

definition api_SlotCreateAction :: "params \<Rightarrow> payload api_op" where
  "api_SlotCreateAction ps =
     authorized ps (bindA (parseInteger ps ''sid'') (\<lambda>sid.
       bindA (parseInteger ps ''gid'') (\<lambda>gid. reply_ok (SlotCreateAction sid gid))))"

definition api_SlotCreateActionSome :: "params \<Rightarrow> payload api_op" where
  "api_SlotCreateActionSome ps =
     authorized ps (bindA (parseInteger ps ''src'') (\<lambda>groupFrom.
       bindA (parseInteger ps ''dst'') (\<lambda>groupTo.
         bindA (parseInteger ps ''num'') (\<lambda>numSlots. reply_ok (SlotCreateActionSome groupFrom groupTo numSlots)))))"

definition api_SlotCreateActionRange :: "params \<Rightarrow> payload api_op" where
  "api_SlotCreateActionRange ps =
     authorized ps (bindA (parseInteger ps ''beg'') (\<lambda>beg.
       bindA (parseInteger ps ''end'') (\<lambda>hi.
         bindA (parseInteger ps ''gid'') (\<lambda>gid. reply_ok (SlotCreateActionRange beg hi gid True)))))"

definition api_SlotRemoveAction :: "params \<Rightarrow> payload api_op" where
  "api_SlotRemoveAction ps = authorized ps (bindA (parseInteger ps ''sid'') (\<lambda>sid. reply_ok (SlotRemoveAction sid)))"

definition api_SetSlotActionInterval :: "params \<Rightarrow> payload api_op" where
  "api_SetSlotActionInterval ps =
     authorized ps (bindA (parseInteger ps ''value'') (\<lambda>v. reply_ok (modifyT (SetSlotActionInterval v))))"

definition api_SetSlotActionDisabled :: "params \<Rightarrow> payload api_op" where
  "api_SetSlotActionDisabled ps =
     authorized ps (bindA (parseInteger ps ''value'') (\<lambda>v. reply_ok (modifyT (SetSlotActionDisabled (v \<noteq> 0)))))"

definition api_SlotsAssignGroup :: "SlotMapping list \<Rightarrow> params \<Rightarrow> payload api_op" where
  "api_SlotsAssignGroup slots ps = authorized ps (reply_ok (SlotsAssignGroup slots))"

definition api_SlotsAssignOffline :: "SlotMapping list \<Rightarrow> params \<Rightarrow> payload api_op" where
  "api_SlotsAssignOffline slots ps = authorized ps (reply_ok (SlotsAssignOffline slots))"

text \<open>\<open>ApiNever\<close> stands for a rebalance that does not return.\<close>

definition api_SlotsRebalance :: "nat \<Rightarrow> 't rbtree \<Rightarrow> params \<Rightarrow> payload api_op" where
  "api_SlotsRebalance fuel T ps =
     authorized ps (bindA (parseInteger ps ''confirm'') (\<lambda>confirm.
       callT (\<lambda>r. case r of None \<Rightarrow> ApiNever | Some plans \<Rightarrow> ApiPlans plans) (SlotsRebalance fuel T (confirm \<noteq> 0))))"

section \<open>The routes\<close>

text \<open>The tree of a rebalance is kept in lists here; what is proved of it holds for every implementation.\<close>

datatype request =
    ReqXPing | ReqReload | ReqShutdown
  | ReqGetACL | ReqSetACL string ACLUpdateRequest | ReqSyncACL
  | ReqGetProxyQPSLimit "string \<Rightarrow> proxy_report" | ReqSetProxyQPSLimit string int
  | ReqCreateProxy "string \<Rightarrow> Proxy" | ReqOnlineProxy "string \<Rightarrow> Proxy" | ReqReinitProxy | ReqRemoveProxy
  | ReqCreateGroup | ReqRemoveGroup | ReqResyncGroup | ReqResyncGroupAll
  | ReqGroupAddServer | ReqGroupDelServer | ReqGroupPromoteServer
  | ReqEnableReplicaGroups | ReqEnableReplicaGroupsAll | ReqSyncCreateAction | ReqSyncRemoveAction
  | ReqAddSentinel | ReqDelSentinel | ReqResyncSentinels
  | ReqSlotCreateAction | ReqSlotCreateActionSome | ReqSlotCreateActionRange | ReqSlotRemoveAction
  | ReqSetSlotActionInterval | ReqSetSlotActionDisabled
  | ReqSlotsAssignGroup "SlotMapping list" | ReqSlotsAssignOffline "SlotMapping list"
  | ReqSlotsRebalance nat "int list rbtree"

primrec serve :: "request \<Rightarrow> params \<Rightarrow> payload api_op" where
  "serve ReqXPing = api_XPing"
| "serve ReqReload = api_Reload"
| "serve ReqShutdown = api_Shutdown"
| "serve ReqGetACL = api_GetACL"
| "serve (ReqSetACL now req) = api_SetACL now req"
| "serve ReqSyncACL = api_SyncACL"
| "serve (ReqGetProxyQPSLimit stats) = api_GetProxyQPSLimit stats"
| "serve (ReqSetProxyQPSLimit now limit) = api_SetProxyQPSLimit now limit"
| "serve (ReqCreateProxy model) = api_CreateProxy model"
| "serve (ReqOnlineProxy model) = api_OnlineProxy model"
| "serve ReqReinitProxy = api_ReinitProxy"
| "serve ReqRemoveProxy = api_RemoveProxy"
| "serve ReqCreateGroup = api_CreateGroup"
| "serve ReqRemoveGroup = api_RemoveGroup"
| "serve ReqResyncGroup = api_ResyncGroup"
| "serve ReqResyncGroupAll = api_ResyncGroupAll"
| "serve ReqGroupAddServer = api_GroupAddServer"
| "serve ReqGroupDelServer = api_GroupDelServer"
| "serve ReqGroupPromoteServer = api_GroupPromoteServer"
| "serve ReqEnableReplicaGroups = api_EnableReplicaGroups"
| "serve ReqEnableReplicaGroupsAll = api_EnableReplicaGroupsAll"
| "serve ReqSyncCreateAction = api_SyncCreateAction"
| "serve ReqSyncRemoveAction = api_SyncRemoveAction"
| "serve ReqAddSentinel = api_AddSentinel"
| "serve ReqDelSentinel = api_DelSentinel"
| "serve ReqResyncSentinels = api_ResyncSentinels"
| "serve ReqSlotCreateAction = api_SlotCreateAction"
| "serve ReqSlotCreateActionSome = api_SlotCreateActionSome"
| "serve ReqSlotCreateActionRange = api_SlotCreateActionRange"
| "serve ReqSlotRemoveAction = api_SlotRemoveAction"
| "serve ReqSetSlotActionInterval = api_SetSlotActionInterval"
| "serve ReqSetSlotActionDisabled = api_SetSlotActionDisabled"
| "serve (ReqSlotsAssignGroup slots) = api_SlotsAssignGroup slots"
| "serve (ReqSlotsAssignOffline slots) = api_SlotsAssignOffline slots"
| "serve (ReqSlotsRebalance fuel T) = api_SlotsRebalance fuel T"

section \<open>A new dashboard\<close>

text \<open>\<open>NewXAuth\<close> of \<open>src/pkg/utils/rpc/crypto.go\<close>, and \<open>New\<close> and \<open>setup\<close> of \<open>topom.go\<close> on the store and the outside of \<open>s\<close>.\<close>

definition NewXAuth :: "string list \<Rightarrow> string" where
  "NewXAuth segs =
     EncodeToString (take 16 (Sum256 (''Codis-XAuth'' @ concat (map (\<lambda>s. ''-['' @ s @ '']'') segs))))"

definition New :: "string \<Rightarrow> Topom \<Rightarrow> Topom" where
  "New product s =
     s\<lparr>t_xauth := NewXAuth [product], t_online := False, t_closed := False, t_hooks := [],
       t_slots := None, t_group := None, t_proxy := None, t_sentinel := None, t_acl := None, t_qps := None,
       t_disabled := False, t_executor := 0, t_interval := 0, t_masters := None,
       t_aclSync_revision := 0, t_aclSync_failed := []\<rparr>"

end
