(* ===== verification/Safety.thy ===== *)
theory Safety
  imports Liveness TopomApi
begin

text \<open>
  All the histories of a dashboard: requests of the API, the steps of its background routines in any
  interleaving, failures and lost replies of everything outside, restarts of the dashboard and of
  proxies.  In every state they reach the cache differs from the store only where a hook will
  reload it, slots refer to groups with servers, and the proxies agree on where a slot is served.
\<close>

section \<open>Steps\<close>

text \<open>
  The requests a history may contain.  A proxy that is created or comes online has been told
  nothing yet, unless it is registered.  An update of the access list or of the limit whose write
  is reported as failed leaves a stale record in the cache, and a forced assignment that fails
  leaves proxies behind; both are treated on their own.
\<close>

fun proper :: "request \<Rightarrow> params \<Rightarrow> Topom \<Rightarrow> bool" where
  "proper (ReqCreateProxy model) ps s = fresh (p_Token (model (param ps ''addr''))) s"
| "proper (ReqOnlineProxy model) ps s = fresh (p_Token (model (param ps ''addr''))) s"
| "proper (ReqSetACL now req) ps s =
     (fst (serve (ReqSetACL now req) ps s) \<noteq> Inl (TopomError UpdateFailed))"
| "proper (ReqSetProxyQPSLimit now limit) ps s =
     (fst (serve (ReqSetProxyQPSLimit now limit) ps s) \<noteq> Inl (TopomError UpdateFailed))"
| "proper (ReqSlotsAssignGroup slots) ps s = (\<exists>x. fst (serve (ReqSlotsAssignGroup slots) ps s) = Inr x)"
| "proper (ReqSlotsAssignOffline slots) ps s = (\<exists>x. fst (serve (ReqSlotsAssignOffline slots) ps s) = Inr x)"
| "proper r ps s = True"

inductive step :: "Topom \<Rightarrow> Topom \<Rightarrow> bool" where
  request: "proper r ps s \<Longrightarrow> step s (snd (serve r ps s))"
| start: "step s (snd (Start routines s))"
| plan: "step s (snd (SlotActionPrepareFilter (plan_accept u) plan_update u s))"
| prepare: "step s (snd (SlotActionPrepare s))"
| executor: "step s (snd (newSlotActionExecutor sid s))"
| execute: "step s (snd (runExecutor ex db n dbs s))"
| complete: "step s (snd (SlotActionComplete sid s))"
| sync_prepare: "step s (snd (SyncActionPrepare s))"
| sync_executor: "step s (snd (newSyncActionExecutor addr s))"
| sync_execute: "step s (snd (runSyncExecutor s))"
| sync_complete: "step s (snd (SyncActionComplete addr failed s))"
| switch_masters: "step s (snd (SwitchMasters masters runid s))"
| outside_changes: "step s (s\<lparr>t_env := e, t_dns := d\<rparr>)"
| proxy_restarts: "step s (s\<lparr>t_views := (t_views s)(t := Map.empty)\<rparr>)"
| dashboard_restarts: "step s (New product s)"

text \<open>A dashboard that starts on a store left by an earlier one, before any proxy has been told anything.\<close>

definition initial :: "Topom \<Rightarrow> bool" where
  "initial s \<longleftrightarrow> t_hooks s = [] \<and> t_slots s = None \<and> t_group s = None \<and> t_proxy s = None \<and> t_sentinel s = None \<and>
     t_acl s = None \<and> t_qps s = None \<and> wf_store (t_store s) \<and> refs (t_store s) \<and> t_views s = (\<lambda>_. Map.empty)"

inductive reachable :: "Topom \<Rightarrow> bool" where
  init: "initial s \<Longrightarrow> reachable s"
| more: "reachable s \<Longrightarrow> step s s1 \<Longrightarrow> reachable s1"

inductive_cases stepE: "step s s1"
inductive_simps reachable_iff: "reachable s"

section \<open>The invariant\<close>

lemma initial_inv: "initial s \<Longrightarrow> topom_inv {} s"
  by (simp add: initial_def topom_inv_def good_def coh_def slots_coh_def map_coh_def one_coh_def safe_def)

lemma New_inv: "topom_inv {} s \<Longrightarrow> topom_inv {} (New product s)"
  by (simp add: New_def topom_inv_def good_def coh_def slots_coh_def map_coh_def one_coh_def safe_def registered_def)

lemma proxy_restart_inv: "topom_inv {} s \<Longrightarrow> topom_inv {} (s\<lparr>t_views := (t_views s)(t := Map.empty)\<rparr>)"
  by (auto simp: topom_inv_def good_def coh_def safe_def registered_def split: if_splits)

text \<open>A handler checks and parses, and then runs one operation.\<close>

definition inv_api :: "'a api_op \<Rightarrow> bool" where
  "inv_api m \<longleftrightarrow> (\<forall>s. topom_inv {} s \<longrightarrow> topom_inv {} (snd (m s)))"

lemma inv_api_call: "inv_op m \<Longrightarrow> inv_api (callT f m)"
  unfolding inv_api_def inv_op_def callT_def by (force split: prod.splits sum.splits)

lemma inv_api_bind: "inv_api m \<Longrightarrow> (\<And>x. inv_api (f x)) \<Longrightarrow> inv_api (bindA m f)"
  unfolding inv_api_def bindA_def by (force split: prod.splits sum.splits)

lemma inv_api_parse: "inv_api (parseAddr ps)" "inv_api (parseToken ps)" "inv_api (parseInteger ps k)"
    "inv_api (verifyXAuth ps)" "inv_api checkServer"
  using callProxy_inv
  by (auto simp: inv_api_def parseAddr_def parseToken_def parseInteger_def verifyXAuth_def checkServer_def
      split: prod.splits) (metis snd_conv)

lemma inv_api_authorized: "inv_api m \<Longrightarrow> inv_api (authorized ps m)"
  unfolding authorized_def by (intro inv_api_bind inv_api_parse)

lemma inv_api_same: "inv_api (\<lambda>s. (r, s))"
  by (simp add: inv_api_def)

lemma inv_op_modify: "inv_op (modifyT (SetSlotActionInterval v))" "inv_op (modifyT (SetSlotActionDisabled b))"
  by (simp_all add: inv_op_def modifyT_def SetSlotActionInterval_def SetSlotActionDisabled_def)

lemmas operations_inv = CreateGroup_inv RemoveGroup_inv ResyncGroup_inv ResyncGroupAll_inv GroupAddServer_inv
  GroupDelServer_inv GroupPromoteServer_inv EnableReplicaGroups_inv EnableReplicaGroupsAll_inv
  SyncCreateAction_inv SyncRemoveAction_inv AddSentinel_inv DelSentinel_inv ResyncSentinels_inv Reload_inv
  Close_inv RemoveProxy_inv ReinitProxy_inv SlotCreateAction_inv SlotCreateActionSome_inv
  SlotCreateActionRange_inv SlotRemoveAction_inv SlotsRebalance_inv GetACL_inv SyncACL_inv GetProxyQPSLimit_inv

lemmas handler_defs = api_XPing_def api_Reload_def api_Shutdown_def api_GetACL_def api_SyncACL_def
  api_GetProxyQPSLimit_def api_ReinitProxy_def api_RemoveProxy_def api_CreateGroup_def api_RemoveGroup_def
  api_ResyncGroup_def api_ResyncGroupAll_def api_GroupAddServer_def api_GroupDelServer_def
  api_GroupPromoteServer_def api_EnableReplicaGroups_def api_EnableReplicaGroupsAll_def
  api_SyncCreateAction_def api_SyncRemoveAction_def api_AddSentinel_def api_DelSentinel_def
  api_ResyncSentinels_def api_SlotCreateAction_def api_SlotCreateActionSome_def
  api_SlotCreateActionRange_def api_SlotRemoveAction_def api_SetSlotActionInterval_def
  api_SetSlotActionDisabled_def api_SlotsRebalance_def

lemma inv_op_all: "(\<And>s. topom_inv {} s \<Longrightarrow> topom_inv {} (snd (m s))) \<Longrightarrow> inv_op m"
  by (simp add: inv_op_def)

text \<open>The requests without a condition.\<close>

definition plain :: "request \<Rightarrow> bool" where
  "plain r \<longleftrightarrow> (case r of ReqCreateProxy _ \<Rightarrow> False | ReqOnlineProxy _ \<Rightarrow> False | ReqSetACL _ _ \<Rightarrow> False
     | ReqSetProxyQPSLimit _ _ \<Rightarrow> False | ReqSlotsAssignGroup _ \<Rightarrow> False | ReqSlotsAssignOffline _ \<Rightarrow> False | _ \<Rightarrow> True)"

lemma plain_inv: "plain r \<Longrightarrow> inv_api (serve r ps)"
  by (cases r; simp only: plain_def request.simps serve.simps handler_defs simp_thms;
      intro inv_api_authorized inv_api_bind inv_api_parse inv_api_call inv_api_same inv_op_modify inv_op_all;
      erule operations_inv)

lemma verifyXAuth_state: "snd (verifyXAuth ps s) = s"
  by (simp add: verifyXAuth_def)

lemma authorized_cases:
  "authorized ps m s = m s \<or> (\<exists>e. authorized ps m s = (Inl e, s))"
  by (auto simp: authorized_def bindA_def verifyXAuth_def)

lemma snd_callT [simp]: "snd (callT f m s) = snd (m s)"
  by (auto simp: callT_def split: prod.splits sum.splits)

lemma fst_callT: "fst (callT f m s) = (case fst (m s) of Inl e \<Rightarrow> Inl (TopomError e) | Inr x \<Rightarrow> Inr (f x))"
  by (auto simp: callT_def split: prod.splits sum.splits)

lemma addr_cases: "bindA (parseAddr ps) f s = f (param ps ''addr'') s \<or> (\<exists>e. bindA (parseAddr ps) f s = (Inl e, s))"
  by (auto simp: bindA_def parseAddr_def)

lemma serve_proxy_inv:
  assumes "topom_inv {} s" and "fresh (p_Token (model (param ps ''addr''))) s"
  shows "topom_inv {} (snd (api_CreateProxy model ps s))" "topom_inv {} (snd (api_OnlineProxy model ps s))"
proof -
  have *: "topom_inv {} (snd (authorized ps (bindA (parseAddr ps) (\<lambda>addr. reply_ok (op (model addr)))) s))"
    if "topom_inv {} (snd (op (model (param ps ''addr'')) s))" for op :: "Proxy \<Rightarrow> unit topom_op"
    using authorized_cases [of ps "bindA (parseAddr ps) (\<lambda>addr. reply_ok (op (model addr)))" s]
      addr_cases [of ps "\<lambda>addr. reply_ok (op (model addr))" s] that assms(1) by auto
  show "topom_inv {} (snd (api_CreateProxy model ps s))" "topom_inv {} (snd (api_OnlineProxy model ps s))"
    unfolding api_CreateProxy_def api_OnlineProxy_def by (intro * CreateProxy_inv OnlineProxy_inv assms)+
qed

lemma serve_update_inv:
  assumes "topom_inv {} s" and "fst (authorized ps (callT f m) s) \<noteq> Inl (TopomError UpdateFailed)"
    and "fst (m s) \<noteq> Inl UpdateFailed \<Longrightarrow> topom_inv {} (snd (m s))"
  shows "topom_inv {} (snd (authorized ps (callT f m) s))"
  using authorized_cases [of ps "callT f m" s] assms by (cases "fst (m s)") (auto simp: fst_callT)

lemma serve_forced_inv:
  assumes "topom_inv {} s" and "\<exists>x. fst (authorized ps (callT f m) s) = Inr x"
    and "case m s of (Inl e, s1) \<Rightarrow> kept {} s1 | (Inr x, s1) \<Rightarrow> topom_inv {} s1"
  shows "topom_inv {} (snd (authorized ps (callT f m) s))"
  using authorized_cases [of ps "callT f m" s] assms
  by (auto simp: fst_callT split: prod.splits sum.splits)

lemma serve_inv:
  assumes s: "topom_inv {} s" and p: "proper r ps s"
  shows "topom_inv {} (snd (serve r ps s))"
proof (cases "plain r")
  case True
  with plain_inv s show ?thesis by (simp add: inv_api_def)
next
  case False
  then consider model where "r = ReqCreateProxy model" | model where "r = ReqOnlineProxy model"
    | now req where "r = ReqSetACL now req" | now limit where "r = ReqSetProxyQPSLimit now limit"
    | slots where "r = ReqSlotsAssignGroup slots" | slots where "r = ReqSlotsAssignOffline slots"
    by (cases r) (simp_all add: plain_def)
  then show ?thesis
  proof cases
    case 3
    with p show ?thesis by (auto simp: api_SetACL_def intro!: serve_update_inv [OF s] UpdateACL_inv [OF s])
  next
    case 4
    with p show ?thesis
      by (auto simp: api_SetProxyQPSLimit_def intro!: serve_update_inv [OF s] UpdateProxyQPSLimit_inv [OF s])
  next
    case 5
    with p show ?thesis
      by (auto simp: api_SlotsAssignGroup_def intro!: serve_forced_inv [OF s] SlotsAssignGroup_forced [OF s])
  next
    case 6
    with p show ?thesis
      by (auto simp: api_SlotsAssignOffline_def intro!: serve_forced_inv [OF s] SlotsAssignOffline_forced [OF s])
  qed (use p serve_proxy_inv [OF s] in auto)
qed

lemma step_inv: "step s s1 \<Longrightarrow> topom_inv {} s \<Longrightarrow> topom_inv {} s1"
proof (induction rule: step.induct)
  case (sync_execute s)
  have "inv_op runSyncExecutor" unfolding runSyncExecutor_def by (intro inv_op_rules outer_call [THEN inv_op_outer])
  with sync_execute show ?case by (simp add: inv_op_def)
next
  case (outside_changes s e d)
  then show ?case by (simp add: topom_inv_def good_def coh_def safe_def registered_def)
qed (auto intro: serve_inv Start_inv SlotActionPrepareFilter_inv SlotActionPrepare_inv newSlotActionExecutor_inv
    runExecutor_inv SlotActionComplete_inv SyncActionPrepare_inv newSyncActionExecutor_inv SyncActionComplete_inv
    SwitchMasters_inv proxy_restart_inv New_inv)

lemma reachable_inv: "reachable s \<Longrightarrow> topom_inv {} s"
  by (induction rule: reachable.induct) (auto intro: initial_inv step_inv)

section \<open>An example\<close>

text \<open>Two groups with a server each, two proxies, and a slot that waits to be moved from the first group to the second.\<close>

definition demo_group :: "int \<Rightarrow> string \<Rightarrow> Group" where
  "demo_group gid addr =
     Group_of gid [\<lparr>gs_Addr = addr, gs_DataCenter = [], gs_Index = 0, gs_State = ActionNothing, gs_ReplicaGroup = False\<rparr>]"

definition demo_proxy :: "string \<Rightarrow> Proxy" where
  "demo_proxy t = \<lparr>p_Id = 1, p_Token = t, p_StartTime = [], p_AdminAddr = t, p_ProtoType = [], p_ProxyAddr = [],
     p_JodisPath = [], p_ProductName = [], p_Pid = 1, p_Pwd = [], p_Sys = [], p_Hostname = [], p_DataCenter = []\<rparr>"

definition demo_store :: Store where
  "demo_store = \<lparr>st_slots = [0 \<mapsto> \<lparr>sm_Id = 0, sm_GroupId = 1, sm_Index = 1, sm_State = ActionPending, sm_TargetId = 2\<rparr>],
     st_group = [(1, demo_group 1 ''a:1''), (2, demo_group 2 ''b:1'')],
     st_proxy = [(''p1'', demo_proxy ''p1''), (''p2'', demo_proxy ''p2'')],
     st_sentinel = None, st_acl = None, st_qps = None\<rparr>"

definition demo :: Topom where
  "demo = \<lparr>t_xauth = ''x'', t_online = False, t_closed = False, t_store = demo_store, t_hooks = [], t_slots = None,
     t_group = None, t_proxy = None, t_sentinel = None, t_acl = None, t_qps = None, t_disabled = False,
     t_executor = 0, t_interval = 0, t_masters = None, t_aclSync_revision = 0, t_aclSync_failed = [],
     t_MigrationMethod = ''sync'', t_BackendAuthUsername = [], t_BackendAuthPassword = [], t_env = [],
     t_views = \<lambda>_. Map.empty, t_acls = Map.empty, t_limits = Map.empty, t_sent = [], t_dns = Map.empty, t_upper = id\<rparr>"

definition demo_online :: Topom where
  "demo_online = snd (Start False demo)"

lemma demo_online_eq: "demo_online = demo\<lparr>t_online := True\<rparr>"
  by (simp add: demo_online_def Start_def demo_def bindT_def readT_def seqT_def guardT_def returnT_def callProxy_def
      next_outcome_def modifyT_def)

lemma demo_slot: "slot_at demo_store j = (if j = 0
    then \<lparr>sm_Id = 0, sm_GroupId = 1, sm_Index = 1, sm_State = ActionPending, sm_TargetId = 2\<rparr> else SlotMapping_of j 0)"
  by (simp add: slot_at_def demo_store_def)

lemma demo_initial: "initial demo"
proof -
  have "group_ok demo_store 0" "group_ok demo_store 1" "group_ok demo_store 2"
    by (simp_all add: group_ok_def demo_store_def demo_group_def Group_of_def)
  then have "refs demo_store" by (simp add: refs_def demo_slot SlotMapping_of_def)
  moreover have "wf_store demo_store"
    by (simp add: wf_store_def wf_table_def demo_store_def demo_group_def demo_proxy_def Group_of_def)
  ultimately show ?thesis by (simp add: initial_def demo_def)
qed

lemma demo_reachable: "reachable demo_online"
  unfolding demo_online_def by (rule reachable.more [OF reachable.init [OF demo_initial] step.start])

lemma demo_live: "live demo_online"
  using reachable_inv [OF demo_reachable]
  by (simp add: live_def) (simp add: demo_online_eq demo_def smooth_def calm_def demo_store_def demo_group_def Group_of_def)

lemma demo_alone: "alone 0 demo_online" "active (sm_State (slot_at (t_store demo_online) 0))"
  "slot_at (t_store demo_online) 0 = \<lparr>sm_Id = 0, sm_GroupId = 1, sm_Index = 1, sm_State = ActionPending, sm_TargetId = 2\<rparr>"
  by (simp_all add: alone_def active_def demo_online_eq demo_def demo_slot SlotMapping_of_def MaxSlotNum_def)

lemma demo_context: "newContext demo_online = (Inr (), snd (newContext demo_online))"
    "t_store (snd (newContext demo_online)) = demo_store"
  using live_context [OF demo_live] by (auto simp: demo_online_eq demo_def)

section \<open>Properties\<close>



text \<open>
  C3. In every reachable state every slot of the store belongs to no group or to a stored group
  that has a server, and the same holds for the group it is being moved to: no history leaves a
  slot pointing to a group that has been removed or emptied.
\<close>

theorem slots_refer_to_groups:
  assumes "reachable s" and "i < MaxSlotNum" and "gid \<in> {sm_GroupId (slot_at (t_store s) (int i)), sm_TargetId (slot_at (t_store s) (int i))}"
  shows "gid = 0 \<or> (\<exists>g. map_of (st_group (t_store s)) gid = Some g \<and> g_Servers g \<noteq> [])"
  using reachable_inv [OF assms(1)] assms(2,3) by (auto simp: topom_inv_def refs_def group_ok_def)

theorem slots_refer_to_groups_witness:
  "(2::int) = 0 \<or> (\<exists>g. map_of (st_group (t_store demo_online)) 2 = Some g \<and> g_Servers g \<noteq> [])"
  using demo_alone(3) by (intro slots_refer_to_groups [OF demo_reachable, of 0]) (simp_all add: MaxSlotNum_def)

text \<open>A proxy that is initialised again when nothing fails has a route for every slot.\<close>

lemma outside_fields:
  "outside s s1 \<Longrightarrow> t_views s1 = t_views s \<and> t_store s1 = t_store s \<and> t_online s1 = t_online s \<and> t_closed s1 = t_closed s \<and>
   t_disabled s1 = t_disabled s \<and> t_xauth s1 = t_xauth s"
  unfolding outside_def
  by (frule arg_cong [of _ _ t_views], frule arg_cong [of _ _ t_store], frule arg_cong [of _ _ t_online],
      frule arg_cong [of _ _ t_closed], frule arg_cong [of _ _ t_disabled], drule arg_cong [of _ _ t_xauth]) simp

lemma ReinitProxy_live:
  assumes s: "live s" and p: "map_of (st_proxy (t_store s)) t = Some p"
    and ok: "\<And>i. i < MaxSlotNum \<Longrightarrow> routable (sm_State (slot_at (t_store s) (int i)))"
  shows "\<exists>s1 w. ReinitProxy t s = (Inr (), s1) \<and> live s1 \<and> t_store s1 = t_store s \<and> t_xauth s1 = t_xauth s \<and>
     t_views s1 = (t_views s)(t := w) \<and>
     (\<forall>i < MaxSlotNum. \<exists>v. w (int i) = Some v \<and> (sl_Locked v \<longleftrightarrow> sm_State (slot_at (t_store s) (int i)) = ActionPrepared))"
proof -
  from s have "smooth s" "t_online s" "\<not> t_closed s" "topom_inv {} s" by (simp_all add: live_def)
  from newContext_smooth [OF this] obtain s0 where
    s0: "newContext s = (Inr (), s0)" "smooth s0" "running {} s0" "cache_step s s0" by blast
  have f: "t_store s0 = t_store s" "t_views s0 = t_views s" "t_xauth s0 = t_xauth s" "t_online s0 = t_online s"
    "t_closed s0 = t_closed s" "t_disabled s0 = t_disabled s"
    using s0(4) by (auto simp: cache_step_def)
  have easy: "easy s0" using running_easy [OF s0(3,2)] s f(1) by (simp add: live_def)
  from s0(3) have good: "good {} s0" "filled s0" "t_hooks s0 = []" by (simp_all add: running_def topom_inv_def)
  have get: "map_of (ctx_proxy s0) t = Some p" using ctx_proxy_store [OF good, of t] p f(1) by (simp add: stale_def)
  have tok: "p_Token p = t" using ctx_proxy_in [OF good(1) map_of_SomeD [OF get]] by simp
  obtain w s1 where s1: "reinitProxy p s0 = (Inr (), s1)" "smooth s1" "outside (s0\<lparr>t_views := (t_views s0)(t := w)\<rparr>) s1"
    "\<forall>i < MaxSlotNum. w (int i) = toSlot (slot_at (t_store s) (int i)) (Some p) s0"
    using reinitProxy_easy [OF s0(3) easy, of p] ok f(1) tok by auto
  have r: "ReinitProxy t s = (Inr (), s1)"
    using s0(1) get s1(1) by (simp add: ReinitProxy_def seqT_def bindT_def getProxy_def)
  have o: "t_views s1 = (t_views s)(t := w)" "t_store s1 = t_store s" "t_xauth s1 = t_xauth s"
    "t_online s1 = t_online s" "t_closed s1 = t_closed s" "t_disabled s1 = t_disabled s"
    using outside_fields [OF s1(3)] f by simp_all
  have "topom_inv {} s1" using ReinitProxy_inv [of s t] r s by (simp add: live_def)
  with s s1(2) o have "live s1" by (simp add: live_def)
  moreover have "\<exists>v. w (int i) = Some v \<and> (sl_Locked v \<longleftrightarrow> sm_State (slot_at (t_store s) (int i)) = ActionPrepared)"
    if "i < MaxSlotNum" for i
    using toSlot_easy [OF easy ok [OF that], of "Some p"] s1(4) that by auto
  ultimately show ?thesis using r o by blast
qed

definition demo_params :: "string \<Rightarrow> params" where
  "demo_params t = [''xauth'' \<mapsto> ''x'', ''token'' \<mapsto> t]"

definition demo_told :: "string \<Rightarrow> Topom \<Rightarrow> Topom" where
  "demo_told t s = snd (serve ReqReinitProxy (demo_params t) s)"

lemma demo_routable: "routable (sm_State (slot_at demo_store j))"
  by (simp add: demo_slot routable_def SlotMapping_of_def)

lemma demo_told_live:
  assumes "live s" "t_store s = demo_store" "t_xauth s = ''x''" "t = ''p1'' \<or> t = ''p2''"
  shows "live (demo_told t s) \<and> t_store (demo_told t s) = demo_store \<and> t_xauth (demo_told t s) = ''x'' \<and>
     (\<exists>v. t_views (demo_told t s) t 0 = Some v \<and> \<not> sl_Locked v) \<and>
     (\<forall>t'. t' \<noteq> t \<longrightarrow> t_views (demo_told t s) t' = t_views s t')"
proof -
  have "map_of (st_proxy (t_store s)) t = Some (demo_proxy t)" using assms(2,4) by (auto simp: demo_store_def)
  from ReinitProxy_live [OF assms(1) this] demo_routable assms(2) obtain s1 w where
    s1: "ReinitProxy t s = (Inr (), s1)" "live s1" "t_store s1 = t_store s" "t_xauth s1 = t_xauth s"
      "t_views s1 = (t_views s)(t := w)" and
    w: "\<forall>i < MaxSlotNum. \<exists>v. w (int i) = Some v \<and> (sl_Locked v \<longleftrightarrow> sm_State (slot_at (t_store s) (int i)) = ActionPrepared)"
    by auto
  have "demo_told t s = s1"
    using s1(1) assms(1,3,4)
    by (auto simp: demo_told_def demo_params_def api_ReinitProxy_def authorized_def bindA_def verifyXAuth_def parseToken_def
        param_def callT_def live_def)
  moreover have "\<exists>v. w 0 = Some v \<and> \<not> sl_Locked v"
    using w [rule_format, of 0] assms(2) by (simp add: demo_slot MaxSlotNum_def)
  ultimately show ?thesis using s1 assms(2,3) by auto
qed

lemma demo_told_reachable: "reachable s \<Longrightarrow> reachable (demo_told t s)"
  unfolding demo_told_def by (erule reachable.more) (rule step.request, simp)

definition demo_both :: Topom where
  "demo_both = demo_told ''p2'' (demo_told ''p1'' demo_online)"

lemma demo_both_ok:
  "reachable demo_both" "registered demo_both ''p1''" "registered demo_both ''p2''"
  "\<exists>v. t_views demo_both ''p1'' 0 = Some v \<and> \<not> sl_Locked v" "\<exists>v. t_views demo_both ''p2'' 0 = Some v \<and> \<not> sl_Locked v"
proof -
  have on: "t_store demo_online = demo_store" "t_xauth demo_online = ''x''" by (simp_all add: demo_online_eq demo_def)
  note 1 = demo_told_live [OF demo_live on, of "''p1''"]
  note 2 = demo_told_live [of "demo_told ''p1'' demo_online" "''p2''"]
  show "reachable demo_both" unfolding demo_both_def by (intro demo_told_reachable demo_reachable)
  have "t_store demo_both = demo_store" using 1 2 by (auto simp: demo_both_def)
  then show "registered demo_both ''p1''" "registered demo_both ''p2''"
    by (simp_all add: registered_def demo_store_def)
  show "\<exists>v. t_views demo_both ''p1'' 0 = Some v \<and> \<not> sl_Locked v" "\<exists>v. t_views demo_both ''p2'' 0 = Some v \<and> \<not> sl_Locked v"
    using 1 2 by (auto simp: demo_both_def)
qed

text \<open>The group that executes the commands of a slot, by the stored record.\<close>

definition owner :: "SlotMapping \<Rightarrow> int" where
  "owner m = (if sm_State m \<in> {ActionNothing, ActionPending, ActionPreparing} then sm_GroupId m else sm_TargetId m)"

lemma allowed_owner: "allowed m v \<Longrightarrow> \<not> sl_Locked v \<Longrightarrow> sl_BackendAddrGroupId v = owner m"
  by (cases "sm_State m") (auto simp: allowed_def owner_def at_group_def migrates_def)





text \<open>
  C5. A forced assignment from a reachable state keeps the cache right and the references of the
  slots valid even when it fails half-way; when it reports success, every registered proxy serves
  every slot as the store says.
\<close>

theorem forced_assignment:
  assumes "reachable s" and "SlotsAssignGroup ms s = (r, s1)"
  shows "good {} s1 \<and> refs (t_store s1) \<and> (r = Inr () \<longrightarrow> safe s1)"
  using SlotsAssignGroup_forced [OF reachable_inv [OF assms(1)], of ms] assms(2)
  by (auto simp: kept_def topom_inv_def split: sum.splits)

theorem forced_assignment_witness:
  "refs (t_store (snd (SlotsAssignGroup [SlotMapping_of 5 2] demo_online)))"
  using forced_assignment [OF demo_reachable, of "[SlotMapping_of 5 2]" "fst (SlotsAssignGroup [SlotMapping_of 5 2] demo_online)"
      "snd (SlotsAssignGroup [SlotMapping_of 5 2] demo_online)"] by simp



end
