(* ===== verification/HotKeyCache.thy ===== *)
theory HotKeyCache
  imports Prelude
begin

text \<open>
  The cache of hot keys of \<open>src/pkg/proxy/hot_key_cache.go\<close>: \<open>HotKeyCache\<close> with its map of entries and its
  list of keys by time of use.  The list holds the keys of the entries; an entry's \<open>element\<close> is the place of
  its key.  Times are in nanoseconds.  The cache is proved to be a bounded table with expiry
  and least-recently-used eviction.
\<close>

section \<open>The cache\<close>

type_synonym hotKeyCacheKey = "int \<times> bytes"

record hotKeyCacheEntry =
  he_value :: bytes
  he_slot :: int
  he_expireAt :: int

record HotKeyCache =
  hc_enabled :: bool
  hc_ttl :: int
  hc_maxEntries :: int
  hc_maxValueSize :: int
  hc_keys :: "bytes list"
  hc_entries :: "(hotKeyCacheKey \<times> hotKeyCacheEntry) list"
  hc_lru :: "hotKeyCacheKey list"
  hc_hits :: int
  hc_misses :: int
  hc_stores :: int
  hc_invalidations :: int
  hc_evictions :: int
  hc_remoteInvalidations :: int
  hc_version :: int

record HotKeyCacheStats =
  hs_Enabled :: bool
  hs_Entries :: nat
  hs_Hits :: int
  hs_Misses :: int
  hs_Stores :: int
  hs_Invalidations :: int
  hs_Evictions :: int
  hs_RemoteInvalidations :: int

definition newHotKeyCache :: "bool \<Rightarrow> int \<Rightarrow> int \<Rightarrow> int \<Rightarrow> bytes list \<Rightarrow> HotKeyCache" where
  "newHotKeyCache enabled ttl maxEntries maxValueSize keys =
     \<lparr>hc_enabled = enabled, hc_ttl = ttl, hc_maxEntries = maxEntries, hc_maxValueSize = maxValueSize, hc_keys = keys,
      hc_entries = [], hc_lru = [], hc_hits = 0, hc_misses = 0, hc_stores = 0, hc_invalidations = 0, hc_evictions = 0,
      hc_remoteInvalidations = 0, hc_version = 0\<rparr>"

definition Enabled :: "HotKeyCache \<Rightarrow> bool" where
  "Enabled c \<longleftrightarrow> hc_enabled c \<and> hc_ttl c > 0 \<and> hc_maxEntries c > 0 \<and> hc_keys c \<noteq> []"

definition isConfigured :: "HotKeyCache \<Rightarrow> bytes \<Rightarrow> bool" where
  "isConfigured c key \<longleftrightarrow> Enabled c \<and> key \<in> set (hc_keys c)"

definition MoveToFront :: "'a \<Rightarrow> 'a list \<Rightarrow> 'a list" where
  "MoveToFront x xs = x # remove1 x xs"

definition removeElement :: "hotKeyCacheKey \<Rightarrow> bool \<Rightarrow> HotKeyCache \<Rightarrow> HotKeyCache" where
  "removeElement k eviction c =
     (let c1 = c\<lparr>hc_entries := AList.delete k (hc_entries c), hc_lru := remove1 k (hc_lru c)\<rparr>
      in if eviction then c1\<lparr>hc_evictions := hc_evictions c1 + 1\<rparr> else c1)"

definition cache_get :: "hotKeyCacheKey \<Rightarrow> int \<Rightarrow> HotKeyCache \<Rightarrow> bytes option \<times> HotKeyCache" where
  "cache_get k now c =
     (case map_of (hc_entries c) k of
        None \<Rightarrow> (None, c\<lparr>hc_misses := hc_misses c + 1\<rparr>)
      | Some e \<Rightarrow>
          if now \<ge> he_expireAt e then
            (let c1 = removeElement k False c in (None, c1\<lparr>hc_misses := hc_misses c1 + 1\<rparr>))
          else (Some (he_value e), c\<lparr>hc_lru := MoveToFront k (hc_lru c), hc_hits := hc_hits c + 1\<rparr>))"

text \<open>The loop that makes room.\<close>

function evict :: "HotKeyCache \<Rightarrow> HotKeyCache" where
  "evict c =
     (if int (length (hc_entries c)) > hc_maxEntries c \<and> hc_lru c \<noteq> []
      then evict (removeElement (last (hc_lru c)) True c) else c)"
  by pat_completeness auto
termination
  by (relation "measure (\<lambda>c. length (hc_lru c))") (auto simp: removeElement_def length_remove1 Let_def)

declare evict.simps [simp del]

definition cache_store :: "hotKeyCacheKey \<Rightarrow> int \<Rightarrow> bytes option \<Rightarrow> int \<Rightarrow> HotKeyCache \<Rightarrow> HotKeyCache" where
  "cache_store k slot val now c =
     (case val of
        None \<Rightarrow> c
      | Some v \<Rightarrow>
          if \<not> Enabled c \<or> int (length v) > hc_maxValueSize c then c
          else
            let e = \<lparr>he_value = v, he_slot = slot, he_expireAt = now + hc_ttl c\<rparr>
            in (case map_of (hc_entries c) k of
                  Some _ \<Rightarrow>
                    c\<lparr>hc_entries := AList.update k e (hc_entries c), hc_lru := MoveToFront k (hc_lru c),
                      hc_stores := hc_stores c + 1\<rparr>
                | None \<Rightarrow>
                    evict (c\<lparr>hc_lru := k # hc_lru c, hc_entries := AList.update k e (hc_entries c),
                             hc_stores := hc_stores c + 1\<rparr>)))"

definition invalidateKey :: "int \<Rightarrow> bytes \<Rightarrow> HotKeyCache \<Rightarrow> HotKeyCache" where
  "invalidateKey database key c =
     (if \<not> Enabled c then c
      else
        let c1 = c\<lparr>hc_version := hc_version c + 1\<rparr>
        in (case map_of (hc_entries c1) (database, key) of
              None \<Rightarrow> c1
            | Some _ \<Rightarrow>
                (let c2 = removeElement (database, key) False c1 in c2\<lparr>hc_invalidations := hc_invalidations c2 + 1\<rparr>)))"

text \<open>Removing all the entries that satisfy a condition, as the loops over the map do; the number is counted.\<close>

fun removeKeys :: "hotKeyCacheKey list \<Rightarrow> HotKeyCache \<Rightarrow> int \<times> HotKeyCache" where
  "removeKeys [] c = (0, c)"
| "removeKeys (k # ks) c =
     (case map_of (hc_entries c) k of
        None \<Rightarrow> removeKeys ks c
      | Some _ \<Rightarrow> (case removeKeys ks (removeElement k False c) of (n, c1) \<Rightarrow> (n + 1, c1)))"

definition removeIf :: "(hotKeyCacheKey \<Rightarrow> hotKeyCacheEntry \<Rightarrow> bool) \<Rightarrow> HotKeyCache \<Rightarrow> HotKeyCache" where
  "removeIf p c =
     (case removeKeys (map fst (filter (\<lambda>(k, e). p k e) (hc_entries c))) c of
        (n, c1) \<Rightarrow> c1\<lparr>hc_invalidations := hc_invalidations c1 + n\<rparr>)"

definition invalidateDatabase :: "int \<Rightarrow> HotKeyCache \<Rightarrow> HotKeyCache" where
  "invalidateDatabase database c =
     (if \<not> Enabled c then c else removeIf (\<lambda>k e. fst k = database) (c\<lparr>hc_version := hc_version c + 1\<rparr>))"

definition invalidateSlot :: "int \<Rightarrow> HotKeyCache \<Rightarrow> HotKeyCache" where
  "invalidateSlot slot c =
     (if \<not> Enabled c then c else removeIf (\<lambda>k e. he_slot e = slot) (c\<lparr>hc_version := hc_version c + 1\<rparr>))"

definition invalidateRemote :: "int \<Rightarrow> bytes list \<Rightarrow> HotKeyCache \<Rightarrow> int \<times> HotKeyCache" where
  "invalidateRemote database keys c =
     (if \<not> Enabled c \<or> \<not> list_ex (isConfigured c) keys then (0, c)
      else
        (case removeKeys (map (Pair database) (filter (\<lambda>key. key \<in> set (hc_keys c)) keys)) (c\<lparr>hc_version := hc_version c + 1\<rparr>) of
           (n, c1) \<Rightarrow> (n, c1\<lparr>hc_invalidations := hc_invalidations c1 + n, hc_remoteInvalidations := hc_remoteInvalidations c1 + n\<rparr>)))"

definition HotKeyCache_Stats :: "HotKeyCache \<Rightarrow> HotKeyCacheStats" where
  "HotKeyCache_Stats c =
     \<lparr>hs_Enabled = Enabled c, hs_Entries = length (hc_entries c), hs_Hits = hc_hits c, hs_Misses = hc_misses c,
      hs_Stores = hc_stores c, hs_Invalidations = hc_invalidations c, hs_Evictions = hc_evictions c,
      hs_RemoteInvalidations = hc_remoteInvalidations c\<rparr>"

section \<open>The table it implements\<close>

text \<open>
  What the cache holds, the most recently used first; and what an outsider may rely on: the map and
  the list have the same keys, without duplicates.
\<close>

definition table :: "HotKeyCache \<Rightarrow> (hotKeyCacheKey \<times> hotKeyCacheEntry) list" where
  "table c = map (\<lambda>k. (k, the (map_of (hc_entries c) k))) (hc_lru c)"

definition cache_ok :: "HotKeyCache \<Rightarrow> bool" where
  "cache_ok c \<longleftrightarrow> distinct (map fst (hc_entries c)) \<and> distinct (hc_lru c) \<and> set (hc_lru c) = fst ` set (hc_entries c)"

lemma length_entries: "cache_ok c \<Longrightarrow> length (hc_entries c) = length (hc_lru c)"
  unfolding cache_ok_def by (metis distinct_card length_map list.set_map)

lemma entry_in_lru: "cache_ok c \<Longrightarrow> k \<in> set (hc_lru c) \<longleftrightarrow> (\<exists>e. map_of (hc_entries c) k = Some e)"
  unfolding cache_ok_def by (metis domD domI dom_map_of_conv_image_fst)

lemma map_of_table: "cache_ok c \<Longrightarrow> map_of (table c) = map_of (hc_entries c)"
proof (rule ext)
  fix k
  assume ok: "cache_ok c"
  have "map_of (table c) k = (if k \<in> set (hc_lru c) then Some (the (map_of (hc_entries c) k)) else None)"
    unfolding table_def by (induction "hc_lru c") (auto simp: map_of_map_restrict restrict_map_def)
  then show "map_of (table c) k = map_of (hc_entries c) k"
    using entry_in_lru [OF ok, of k] by auto
qed

lemma removeElement_ok:
  assumes "cache_ok c"
  shows "cache_ok (removeElement k b c)" "table (removeElement k b c) = filter (\<lambda>(k', e). k' \<noteq> k) (table c)"
proof -
  have "fst ` set (AList.delete k (hc_entries c)) = fst ` set (hc_entries c) - {k}"
    by (metis delete_keys list.set_map set_removeAll)
  then show "cache_ok (removeElement k b c)"
    using assms by (auto simp: cache_ok_def removeElement_def Let_def distinct_delete)
  have "remove1 k (hc_lru c) = filter (\<lambda>k'. k' \<noteq> k) (hc_lru c)"
    using assms by (simp add: cache_ok_def distinct_remove1_removeAll removeAll_filter_not_eq eq_commute)
  then show "table (removeElement k b c) = filter (\<lambda>(k', e). k' \<noteq> k) (table c)"
    by (auto simp: table_def removeElement_def Let_def filter_map comp_def delete_conv')
qed

definition settings :: "HotKeyCache \<Rightarrow> bool \<times> int \<times> int \<times> int \<times> bytes list" where
  "settings c = (hc_enabled c, hc_ttl c, hc_maxEntries c, hc_maxValueSize c, hc_keys c)"

lemma settings_Enabled: "settings c1 = settings c \<Longrightarrow> Enabled c1 = Enabled c"
  by (simp add: settings_def Enabled_def)

lemma table_counters [simp]:
  "table (c\<lparr>hc_hits := n\<rparr>) = table c" "table (c\<lparr>hc_misses := n\<rparr>) = table c" "table (c\<lparr>hc_stores := n\<rparr>) = table c"
  "table (c\<lparr>hc_invalidations := n\<rparr>) = table c" "table (c\<lparr>hc_remoteInvalidations := n\<rparr>) = table c" "table (c\<lparr>hc_version := n\<rparr>) = table c"
  by (simp_all add: table_def)

lemma ok_counters [simp]:
  "cache_ok (c\<lparr>hc_hits := n\<rparr>) = cache_ok c" "cache_ok (c\<lparr>hc_misses := n\<rparr>) = cache_ok c" "cache_ok (c\<lparr>hc_stores := n\<rparr>) = cache_ok c"
  "cache_ok (c\<lparr>hc_invalidations := n\<rparr>) = cache_ok c" "cache_ok (c\<lparr>hc_remoteInvalidations := n\<rparr>) = cache_ok c"
  "cache_ok (c\<lparr>hc_version := n\<rparr>) = cache_ok c"
  by (simp_all add: cache_ok_def)

lemma settings_counters [simp]:
  "settings (c\<lparr>hc_hits := n\<rparr>) = settings c" "settings (c\<lparr>hc_misses := n\<rparr>) = settings c" "settings (c\<lparr>hc_stores := n\<rparr>) = settings c"
  "settings (c\<lparr>hc_invalidations := n\<rparr>) = settings c" "settings (c\<lparr>hc_remoteInvalidations := n\<rparr>) = settings c"
  "settings (c\<lparr>hc_version := n\<rparr>) = settings c" "settings (c\<lparr>hc_lru := l\<rparr>) = settings c" "settings (c\<lparr>hc_entries := es\<rparr>) = settings c"
  "settings (removeElement k b c) = settings c" "hc_version (removeElement k b c) = hc_version c"
  by (simp_all add: settings_def removeElement_def Let_def)

lemma length_table: "length (table c) = length (hc_lru c)"
  by (simp add: table_def)

lemma keys_table: "map fst (table c) = hc_lru c"
  by (simp add: table_def comp_def)

lemma drop_last_key:
  assumes "distinct (map fst t)" and "t \<noteq> []"
  shows "filter (\<lambda>(k', e). k' \<noteq> fst (last t)) t = butlast t"
  using assms
proof (induction t rule: rev_induct)
  case (snoc x t)
  then show ?case by (auto simp: filter_id_conv split: prod.splits) (metis fst_conv image_eqI)
qed simp

lemma evict_ok:
  assumes "cache_ok c"
  shows "cache_ok (evict c) \<and> table (evict c) = take (nat (hc_maxEntries c)) (table c) \<and> settings (evict c) = settings c \<and>
    hc_version (evict c) = hc_version c"
  using assms
proof (induction c rule: evict.induct)
  case (1 c)
  show ?case
  proof (cases "int (length (hc_entries c)) > hc_maxEntries c \<and> hc_lru c \<noteq> []")
    case True
    define c1 where "c1 = removeElement (last (hc_lru c)) True c"
    from removeElement_ok [OF 1(2), of "last (hc_lru c)" True] have c1: "cache_ok c1" by (simp add: c1_def)
    have "last (hc_lru c) = fst (last (table c))"
      using True by (metis keys_table last_map length_0_conv length_map)
    moreover have "distinct (map fst (table c))" "table c \<noteq> []"
      using 1(2) True by (simp add: keys_table cache_ok_def, simp add: table_def)
    ultimately have "table c1 = butlast (table c)"
      using removeElement_ok(2) [OF 1(2), of "last (hc_lru c)" True] drop_last_key [of "table c"] by (simp add: c1_def)
    moreover have "nat (hc_maxEntries c) \<le> length (table c) - 1"
      using True length_entries [OF 1(2)] by (simp add: length_table) linarith
    moreover have "settings c1 = settings c" "hc_version c1 = hc_version c" by (simp_all add: c1_def)
    moreover from this have "hc_maxEntries c1 = hc_maxEntries c" by (simp add: settings_def)
    ultimately show ?thesis
      using 1(1) [OF True] c1 True by (simp add: evict.simps [of c] c1_def [symmetric] butlast_conv_take min_def)
  next
    case False
    then have "length (table c) \<le> nat (hc_maxEntries c)"
      using length_entries [OF 1(2)] by (auto simp: length_table)
    with False 1(2) show ?thesis by (auto simp: evict.simps [of c])
  qed
qed

lemma store_ok:
  assumes c: "cache_ok c" and small: "length (table c) \<le> nat (hc_maxEntries c)"
    and e: "e = \<lparr>he_value = v, he_slot = slot, he_expireAt = now + hc_ttl c\<rparr>"
    and on: "Enabled c" "int (length v) \<le> hc_maxValueSize c"
  shows "cache_ok (cache_store k slot (Some v) now c) \<and>
     table (cache_store k slot (Some v) now c) = take (nat (hc_maxEntries c)) ((k, e) # filter (\<lambda>(k', e). k' \<noteq> k) (table c)) \<and>
     settings (cache_store k slot (Some v) now c) = settings c \<and> hc_version (cache_store k slot (Some v) now c) = hc_version c"
proof (cases "map_of (hc_entries c) k")
  case None
  define c1 where "c1 = c\<lparr>hc_lru := k # hc_lru c, hc_entries := AList.update k e (hc_entries c), hc_stores := hc_stores c + 1\<rparr>"
  have k: "k \<notin> set (hc_lru c)" using entry_in_lru [OF c, of k] None by simp
  have "cache_ok c1"
    using c k None by (auto simp: cache_ok_def c1_def distinct_update dom_update)
  moreover have "table c1 = (k, e) # table c"
    using k by (auto simp: table_def c1_def update_conv')
  moreover have "filter (\<lambda>(k', e). k' \<noteq> k) (table c) = table c"
    using k by (auto simp: filter_id_conv table_def)
  moreover have "settings c1 = settings c" "hc_version c1 = hc_version c" "hc_maxEntries c1 = hc_maxEntries c" by (simp_all add: c1_def)
  ultimately show ?thesis using evict_ok [of c1] on None
    by (simp add: cache_store_def Let_def c1_def [symmetric] e [symmetric])
next
  case (Some e0)
  define c1 where "c1 = c\<lparr>hc_entries := AList.update k e (hc_entries c), hc_lru := MoveToFront k (hc_lru c), hc_stores := hc_stores c + 1\<rparr>"
  have k: "k \<in> set (hc_lru c)" using entry_in_lru [OF c, of k] Some by simp
  have "cache_ok c1"
    using c k by (auto simp: cache_ok_def c1_def distinct_update dom_update MoveToFront_def)
  moreover have "remove1 k (hc_lru c) = filter (\<lambda>k'. k' \<noteq> k) (hc_lru c)"
    using c by (simp add: cache_ok_def distinct_remove1_removeAll removeAll_filter_not_eq eq_commute)
  then have t: "table c1 = (k, e) # filter (\<lambda>(k', e). k' \<noteq> k) (table c)"
    by (auto simp: table_def c1_def update_conv' MoveToFront_def filter_map comp_def)
  moreover have "length (table c1) = length (table c)"
    using k by (simp add: length_table c1_def MoveToFront_def length_remove1) (metis Suc_pred length_pos_if_in_set)
  moreover have "settings c1 = settings c" "hc_version c1 = hc_version c" by (simp_all add: c1_def)
  ultimately show ?thesis using on Some small
    by (simp add: cache_store_def Let_def c1_def [symmetric] e [symmetric])
qed

lemma get_ok:
  assumes c: "cache_ok c"
  shows "cache_ok (snd (cache_get k now c)) \<and> settings (snd (cache_get k now c)) = settings c \<and>
    hc_version (snd (cache_get k now c)) = hc_version c \<and>
    (case map_of (table c) k of
       None \<Rightarrow> fst (cache_get k now c) = None \<and> table (snd (cache_get k now c)) = table c
     | Some e \<Rightarrow>
         if now \<ge> he_expireAt e
         then fst (cache_get k now c) = None \<and> table (snd (cache_get k now c)) = filter (\<lambda>(k', e). k' \<noteq> k) (table c)
         else fst (cache_get k now c) = Some (he_value e) \<and>
              table (snd (cache_get k now c)) = (k, e) # filter (\<lambda>(k', e). k' \<noteq> k) (table c))"
proof (cases "map_of (hc_entries c) k")
  case None
  then show ?thesis using c by (simp add: cache_get_def map_of_table)
next
  case (Some e)
  then have k: "k \<in> set (hc_lru c)" using entry_in_lru [OF c, of k] by simp
  have "remove1 k (hc_lru c) = filter (\<lambda>k'. k' \<noteq> k) (hc_lru c)"
    using c by (simp add: cache_ok_def distinct_remove1_removeAll removeAll_filter_not_eq eq_commute)
  then have "table (c\<lparr>hc_lru := MoveToFront k (hc_lru c), hc_hits := hc_hits c + 1\<rparr>) = (k, e) # filter (\<lambda>(k', e). k' \<noteq> k) (table c)"
    using Some by (auto simp: table_def MoveToFront_def filter_map comp_def)
  moreover have "cache_ok (c\<lparr>hc_lru := MoveToFront k (hc_lru c), hc_hits := hc_hits c + 1\<rparr>)"
    using c k by (auto simp: cache_ok_def MoveToFront_def)
  ultimately show ?thesis
    using Some c removeElement_ok [OF c, of k False] by (simp add: cache_get_def map_of_table Let_def)
qed

lemma removeKeys_ok:
  "cache_ok c \<Longrightarrow> removeKeys ks c = (n, c1) \<Longrightarrow>
   cache_ok c1 \<and> table c1 = filter (\<lambda>(k, e). k \<notin> set ks) (table c) \<and> settings c1 = settings c \<and> hc_version c1 = hc_version c"
proof (induction ks c arbitrary: n c1 rule: removeKeys.induct)
  case (2 k ks c)
  show ?case
  proof (cases "map_of (hc_entries c) k")
    case None
    then have "k \<notin> fst ` set (table c)"
      using entry_in_lru [OF 2(3), of k] keys_table [of c] by (metis list.set_map option.distinct(1))
    then have "filter (\<lambda>(k', e). k' \<notin> set ks) (table c) = filter (\<lambda>(k', e). k' \<notin> set (k # ks)) (table c)"
      by (intro filter_cong) (auto intro: rev_image_eqI)
    with 2 None show ?thesis by simp
  next
    case (Some e)
    with 2(4) obtain n1 where r: "removeKeys ks (removeElement k False c) = (n1, c1)" by (auto split: prod.splits)
    from 2(2) [OF Some removeElement_ok(1) [OF 2(3)] r] removeElement_ok(2) [OF 2(3), of k False]
    show ?thesis by (auto intro!: filter_cong)
  qed
qed simp

lemma removeIf_ok:
  assumes c: "cache_ok c"
  shows "cache_ok (removeIf p c)" "table (removeIf p c) = filter (\<lambda>(k, e). \<not> p k e) (table c)"
    "settings (removeIf p c) = settings c" "hc_version (removeIf p c) = hc_version c"
proof -
  define ks where "ks = map fst (filter (\<lambda>(k, e). p k e) (hc_entries c))"
  obtain n c1 where r: "removeKeys ks c = (n, c1)" by fastforce
  note c1 = removeKeys_ok [OF c r]
  have d: "distinct (map fst (hc_entries c))" using c by (simp add: cache_ok_def)
  have "(k \<in> set ks) = p k e" if "(k, e) \<in> set (table c)" for k e
  proof -
    have "map_of (hc_entries c) k = Some e" using that entry_in_lru [OF c, of k] by (auto simp: table_def)
    with d have "(k, e') \<in> set (hc_entries c) \<longleftrightarrow> e' = e" for e' by (metis map_of_eq_Some_iff option.inject)
    then show ?thesis unfolding ks_def by force
  qed
  then have "filter (\<lambda>(k, e). k \<notin> set ks) (table c) = filter (\<lambda>(k, e). \<not> p k e) (table c)"
    by (intro filter_cong) auto
  with c1 r show "cache_ok (removeIf p c)" "table (removeIf p c) = filter (\<lambda>(k, e). \<not> p k e) (table c)"
    "settings (removeIf p c) = settings c" "hc_version (removeIf p c) = hc_version c"
    by (simp_all add: removeIf_def ks_def)
qed

lemma invalidateKey_ok:
  assumes "cache_ok c" and "Enabled c"
  shows "cache_ok (invalidateKey database key c)" "table (invalidateKey database key c) = filter (\<lambda>(k, e). k \<noteq> (database, key)) (table c)"
    "settings (invalidateKey database key c) = settings c" "hc_version (invalidateKey database key c) = hc_version c + 1"
proof -
  define c1 where "c1 = c\<lparr>hc_version := hc_version c + 1\<rparr>"
  have c1: "cache_ok c1" "table c1 = table c" "hc_entries c1 = hc_entries c" using assms(1) by (simp_all add: c1_def)
  have none: "filter (\<lambda>(k, e). k \<noteq> (database, key)) (table c) = table c" if "map_of (hc_entries c) (database, key) = None"
    using entry_in_lru [OF assms(1), of "(database, key)"] that by (auto simp: filter_id_conv table_def)
  show "cache_ok (invalidateKey database key c)" "table (invalidateKey database key c) = filter (\<lambda>(k, e). k \<noteq> (database, key)) (table c)"
    "settings (invalidateKey database key c) = settings c" "hc_version (invalidateKey database key c) = hc_version c + 1"
    using assms(2) c1 none removeElement_ok [OF c1(1), of "(database, key)" False]
    by (auto simp: invalidateKey_def c1_def [symmetric] Let_def split: option.splits) (simp_all add: c1_def)
qed

section \<open>Properties\<close>

datatype cache_op = OpGet hotKeyCacheKey int | OpStore hotKeyCacheKey int "bytes option" int
  | OpInvalidateKey int bytes | OpInvalidateDatabase int | OpInvalidateSlot int | OpInvalidateRemote int "bytes list"

primrec do_cache :: "cache_op \<Rightarrow> HotKeyCache \<Rightarrow> bytes option \<times> HotKeyCache" where
  "do_cache (OpGet k now) c = cache_get k now c"
| "do_cache (OpStore k slot v now) c = (None, cache_store k slot v now c)"
| "do_cache (OpInvalidateKey db key) c = (None, invalidateKey db key c)"
| "do_cache (OpInvalidateDatabase db) c = (None, invalidateDatabase db c)"
| "do_cache (OpInvalidateSlot slot) c = (None, invalidateSlot slot c)"
| "do_cache (OpInvalidateRemote db keys) c = (None, snd (invalidateRemote db keys c))"

fun run_cache :: "cache_op list \<Rightarrow> HotKeyCache \<Rightarrow> bytes option list \<times> HotKeyCache" where
  "run_cache [] c = ([], c)"
| "run_cache (x # xs) c = (case do_cache x c of (r, c1) \<Rightarrow> (case run_cache xs c1 of (rs, c2) \<Rightarrow> (r # rs, c2)))"

text \<open>The same operations on a table of at most \<open>n\<close> entries, the most recently used first.\<close>

type_synonym hot_table = "(hotKeyCacheKey \<times> hotKeyCacheEntry) list"

abbreviation without :: "hotKeyCacheKey \<Rightarrow> hot_table \<Rightarrow> hot_table" where
  "without k t \<equiv> filter (\<lambda>(k', e). k' \<noteq> k) t"

fun do_table :: "nat \<Rightarrow> int \<Rightarrow> int \<Rightarrow> bytes list \<Rightarrow> cache_op \<Rightarrow> hot_table \<Rightarrow> bytes option \<times> hot_table" where
  "do_table n ttl size_limit keys (OpGet k now) t =
     (case map_of t k of
        None \<Rightarrow> (None, t)
      | Some e \<Rightarrow> if now \<ge> he_expireAt e then (None, without k t) else (Some (he_value e), (k, e) # without k t))"
| "do_table n ttl size_limit keys (OpStore k slot v now) t =
     (None, case v of
        None \<Rightarrow> t
      | Some x \<Rightarrow> if int (length x) > size_limit then t
                  else take n ((k, \<lparr>he_value = x, he_slot = slot, he_expireAt = now + ttl\<rparr>) # without k t))"
| "do_table n ttl size_limit keys (OpInvalidateKey db key) t = (None, without (db, key) t)"
| "do_table n ttl size_limit keys (OpInvalidateDatabase db) t = (None, filter (\<lambda>(k, e). fst k \<noteq> db) t)"
| "do_table n ttl size_limit keys (OpInvalidateSlot slot) t = (None, filter (\<lambda>(k, e). he_slot e \<noteq> slot) t)"
| "do_table n ttl size_limit keys (OpInvalidateRemote db ks) t =
     (None, filter (\<lambda>(k, e). \<not> (fst k = db \<and> snd k \<in> set ks \<inter> set keys)) t)"

fun run_table :: "nat \<Rightarrow> int \<Rightarrow> int \<Rightarrow> bytes list \<Rightarrow> cache_op list \<Rightarrow> hot_table \<Rightarrow> bytes option list \<times> hot_table" where
  "run_table n ttl size_limit keys [] t = ([], t)"
| "run_table n ttl size_limit keys (x # xs) t =
     (case do_table n ttl size_limit keys x t of (r, t1) \<Rightarrow> (case run_table n ttl size_limit keys xs t1 of (rs, t2) \<Rightarrow> (r # rs, t2)))"

definition good_cache :: "HotKeyCache \<Rightarrow> bool" where
  "good_cache c \<longleftrightarrow> cache_ok c \<and> Enabled c \<and> length (table c) \<le> nat (hc_maxEntries c)"

lemma invalidateRemote_ok:
  assumes "cache_ok c" and "Enabled c"
  shows "cache_ok (snd (invalidateRemote db ks c)) \<and> settings (snd (invalidateRemote db ks c)) = settings c \<and>
    table (snd (invalidateRemote db ks c)) = filter (\<lambda>(k, e). \<not> (fst k = db \<and> snd k \<in> set ks \<inter> set (hc_keys c))) (table c)"
proof (cases "list_ex (isConfigured c) ks")
  case True
  define rem where "rem = map (Pair db) (filter (\<lambda>key. key \<in> set (hc_keys c)) ks)"
  obtain n c1 where r: "removeKeys rem (c\<lparr>hc_version := hc_version c + 1\<rparr>) = (n, c1)" by fastforce
  have "filter (\<lambda>(k, e). k \<notin> set rem) (table c) =
      filter (\<lambda>(k, e). \<not> (fst k = db \<and> snd k \<in> set ks \<inter> set (hc_keys c))) (table c)"
    by (intro filter_cong) (auto simp: rem_def)
  with removeKeys_ok [OF _ r] assms True r show ?thesis by (simp add: invalidateRemote_def rem_def)
next
  case False
  then have "set ks \<inter> set (hc_keys c) = {}" using assms(2) by (auto simp: list_ex_iff isConfigured_def)
  then have "filter (\<lambda>(k, e). \<not> (fst k = db \<and> snd k \<in> set ks \<inter> set (hc_keys c))) (table c) = table c"
    by (simp add: filter_id_conv)
  with assms False show ?thesis by (simp add: invalidateRemote_def)
qed

lemma length_without: "map_of t k = Some e \<Longrightarrow> length (without k t) < length t"
  by (rule length_filter_less [of "(k, e)"]) (auto dest: map_of_SomeD)

lemma do_cache_table:
  assumes "good_cache c" and "do_cache x c = (r, c1)"
  shows "good_cache c1 \<and> settings c1 = settings c \<and>
    do_table (nat (hc_maxEntries c)) (hc_ttl c) (hc_maxValueSize c) (hc_keys c) x (table c) = (r, table c1)"
proof -
  have c: "cache_ok c" "Enabled c" "length (table c) \<le> nat (hc_maxEntries c)" using assms(1) by (auto simp: good_cache_def)
  have good: "good_cache c2" if "cache_ok c2" "settings c2 = settings c" "length (table c2) \<le> nat (hc_maxEntries c)" for c2
    using that c(2) settings_Enabled [OF that(2)] by (simp add: good_cache_def settings_def)
  note le = length_filter_le [THEN le_trans]
  show ?thesis
  proof (cases x)
    case (OpGet k now)
    then show ?thesis using assms(2) c get_ok [OF c(1), of k now] length_without [of "table c" k]
      by (auto intro!: good simp: le split: option.splits if_splits)
  next
    case (OpStore k slot v now)
    then show ?thesis using assms c store_ok [OF c(1,3) refl c(2), of _ k slot now]
      by (cases v) (auto intro!: good simp: cache_store_def split: if_splits)
  next
    case (OpInvalidateKey db key)
    then show ?thesis using assms(2) c invalidateKey_ok [OF c(1,2), of db key] by (auto intro!: good simp: le)
  next
    case (OpInvalidateDatabase db)
    then show ?thesis using assms(2) c removeIf_ok [of "c\<lparr>hc_version := hc_version c + 1\<rparr>" "\<lambda>k e. fst k = db"]
      by (auto intro!: good simp: le invalidateDatabase_def)
  next
    case (OpInvalidateSlot slot)
    then show ?thesis using assms(2) c removeIf_ok [of "c\<lparr>hc_version := hc_version c + 1\<rparr>" "\<lambda>k e. he_slot e = slot"]
      by (auto intro!: good simp: le invalidateSlot_def)
  next
    case (OpInvalidateRemote db ks)
    then show ?thesis using assms(2) c invalidateRemote_ok [OF c(1,2), of db ks] by (auto intro!: good simp: le)
  qed
qed

lemma run_cache_table:
  assumes "good_cache c" and "run_cache xs c = (rs, c1)"
  shows "good_cache c1 \<and> settings c1 = settings c \<and>
    run_table (nat (hc_maxEntries c)) (hc_ttl c) (hc_maxValueSize c) (hc_keys c) xs (table c) = (rs, table c1)"
  using assms
proof (induction xs arbitrary: c rs)
  case (Cons x xs)
  obtain r c0 where d: "do_cache x c = (r, c0)" by fastforce
  obtain rs' where rs: "run_cache xs c0 = (rs', c1)" "rs = r # rs'" using Cons.prems(2) d by (auto split: prod.splits)
  from do_cache_table [OF Cons.prems(1) d] have c0: "good_cache c0" "settings c0 = settings c"
    "do_table (nat (hc_maxEntries c)) (hc_ttl c) (hc_maxValueSize c) (hc_keys c) x (table c) = (r, table c0)" by auto
  from Cons.IH [OF c0(1) rs(1)] c0 rs(2) show ?case by (simp add: settings_def)
qed simp


definition cache_demo :: "cache_op list" where
  "cache_demo = [OpStore (0, ''a'') 1 (Some ''x'') 10, OpStore (0, ''b'') 2 (Some ''y'') 20, OpGet (0, ''a'') 30,
     OpStore (0, ''c'') 3 (Some ''z'') 40, OpGet (0, ''b'') 50, OpGet (0, ''a'') 60, OpGet (0, ''c'') 140]"


end
