(* ===== verification/GoNet.thy ===== *)
theory GoNet
  imports Prelude
begin

text \<open>
  Go's package \<open>net\<close> as far as the proxy uses it: \<open>SplitHostPort\<close>, \<open>ParseIP\<close> and \<open>IP.String\<close>, and
  \<open>strings.Trim\<close> with a set of ASCII characters.  An address is the list of its 16 bytes, as
  numbers.  The error messages of the library are not distinguished.
\<close>

section \<open>Host and port\<close>

fun LastIndexByte :: "bytes \<Rightarrow> char \<Rightarrow> nat option" where
  "LastIndexByte [] c = None"
| "LastIndexByte (x # xs) c =
     (case LastIndexByte xs c of Some i \<Rightarrow> Some (Suc i) | None \<Rightarrow> if x = c then Some 0 else None)"

definition SplitHostPort :: "bytes \<Rightarrow> (bytes \<times> bytes) option" where
  "SplitHostPort hostport =
     (case LastIndexByte hostport (CHR '':'') of
        None \<Rightarrow> None
      | Some i \<Rightarrow>
          if hd hostport = CHR ''['' then
            (case IndexByte hostport (CHR '']'') of
               None \<Rightarrow> None
             | Some j \<Rightarrow>
                 if j + 1 \<noteq> i then None
                 else if CHR ''['' \<in> set (drop 1 hostport) \<or> CHR '']'' \<in> set (drop (j + 1) hostport) then None
                 else Some (go_slice hostport 1 j, drop (i + 1) hostport))
          else if CHR '':'' \<in> set (take i hostport) then None
          else if CHR ''['' \<in> set hostport \<or> CHR '']'' \<in> set hostport then None
          else Some (take i hostport, drop (i + 1) hostport))"

definition Trim :: "bytes \<Rightarrow> bytes \<Rightarrow> bytes" where
  "Trim s cutset = rev (dropWhile (\<lambda>c. c \<in> set cutset) (rev (dropWhile (\<lambda>c. c \<in> set cutset) s)))"

section \<open>Addresses\<close>

definition digit_of :: "char \<Rightarrow> nat option" where
  "digit_of c = (let n = of_char c in if 48 \<le> n \<and> n \<le> (57::nat) then Some (n - 48) else None)"

definition hex_of :: "char \<Rightarrow> nat option" where
  "hex_of c =
     (let n = of_char c
      in if 48 \<le> n \<and> n \<le> (57::nat) then Some (n - 48)
         else if 97 \<le> n \<and> n \<le> 102 then Some (n - 87)
         else if 65 \<le> n \<and> n \<le> 70 then Some (n - 55) else None)"

text \<open>The loop over the four fields: the fields so far, the value of the current one, and the number of its digits.\<close>

fun ipv4_fields :: "bytes \<Rightarrow> nat list \<Rightarrow> nat \<Rightarrow> nat \<Rightarrow> nat list option" where
  "ipv4_fields [] fields val digLen = (if length fields < 3 \<or> digLen = 0 then None else Some (fields @ [val]))"
| "ipv4_fields (c # s) fields val digLen =
     (case digit_of c of
        Some d \<Rightarrow>
          if digLen = 1 \<and> val = 0 \<or> val * 10 + d > 255 then None
          else ipv4_fields s fields (val * 10 + d) (digLen + 1)
      | None \<Rightarrow>
          if c = CHR ''.'' \<and> digLen \<noteq> 0 \<and> s \<noteq> [] \<and> length fields \<noteq> 3 then ipv4_fields s (fields @ [val]) 0 0
          else None)"

text \<open>The hexadecimal number at the start of a string, with the number of its digits.\<close>

fun hex_number :: "bytes \<Rightarrow> nat \<Rightarrow> nat \<Rightarrow> nat \<times> nat" where
  "hex_number [] acc off = (acc, off)"
| "hex_number (c # s) acc off =
     (case hex_of c of Some d \<Rightarrow> hex_number s (acc * 16 + d) (off + 1) | None \<Rightarrow> (acc, off))"

text \<open>The loop over the groups; the result is the bytes, the position of the ellipsis, and what is left.\<close>

function ipv6_groups :: "bytes \<Rightarrow> nat list \<Rightarrow> nat option \<Rightarrow> (nat list \<times> nat option \<times> bytes) option" where
  "ipv6_groups s ip ellipsis =
     (if length ip \<ge> 16 then Some (ip, ellipsis, s)
      else
        (case hex_number s 0 0 of (acc, off) \<Rightarrow>
           if off = 0 \<or> off > 4 then None
           else if drop off s \<noteq> [] \<and> hd (drop off s) = CHR ''.'' then
             (if ellipsis = None \<and> length ip \<noteq> 12 \<or> length ip + 4 > 16 then None
              else (case ipv4_fields s [] 0 0 of None \<Rightarrow> None | Some f \<Rightarrow> Some (ip @ f, ellipsis, [])))
           else
             let ip1 = ip @ [acc div 256, acc mod 256]; s1 = drop off s
             in if s1 = [] then Some (ip1, ellipsis, [])
                else if hd s1 \<noteq> CHR '':'' \<or> length s1 = 1 then None
                else
                  let s2 = drop 1 s1
                  in if hd s2 = CHR '':'' then
                       if ellipsis \<noteq> None then None
                       else if drop 1 s2 = [] then Some (ip1, Some (length ip1), [])
                       else ipv6_groups (drop 1 s2) ip1 (Some (length ip1))
                     else ipv6_groups s2 ip1 ellipsis))"
  by pat_completeness auto
termination by (relation "measure (\<lambda>(s, ip, ellipsis). 16 - length ip)") auto

declare ipv6_groups.simps [simp del]

definition parseIPv6 :: "bytes \<Rightarrow> nat list option" where
  "parseIPv6 s =
     (let lead = take 2 s = ''::''; s1 = (if lead then drop 2 s else s)
      in if lead \<and> s1 = [] then Some (replicate 16 0)
         else
           (case ipv6_groups s1 [] (if lead then Some 0 else None) of
              None \<Rightarrow> None
            | Some (ip, ellipsis, rest) \<Rightarrow>
                if rest \<noteq> [] then None
                else if length ip < 16 then
                  (case ellipsis of
                     None \<Rightarrow> None
                   | Some e \<Rightarrow> Some (take e ip @ replicate (16 - length ip) 0 @ drop e ip))
                else if ellipsis \<noteq> None then None
                else Some ip))"

text \<open>\<open>ParseIP\<close> rejects a zone, so every \<open>%\<close>.\<close>

definition ParseIP :: "bytes \<Rightarrow> nat list option" where
  "ParseIP s =
     (case filter (\<lambda>c. c \<in> set ''.:%'') s of
        [] \<Rightarrow> None
      | c # _ \<Rightarrow>
          if CHR ''%'' \<in> set s then None
          else if c = CHR ''.'' then map_option (\<lambda>f. replicate 10 0 @ [255, 255] @ f) (ipv4_fields s [] 0 0)
          else parseIPv6 s)"

fun decimal :: "nat \<Rightarrow> bytes" where
  "decimal n = (if n < 10 then [char_of (48 + n)] else decimal (n div 10) @ [char_of (48 + n mod 10)])"

fun hexadecimal :: "nat \<Rightarrow> bytes" where
  "hexadecimal n =
     (if n < 16 then [''0123456789abcdef'' ! n] else hexadecimal (n div 16) @ [''0123456789abcdef'' ! (n mod 16)])"

declare decimal.simps [simp del] hexadecimal.simps [simp del]

definition groups_of :: "nat list \<Rightarrow> nat list" where
  "groups_of ip = map (\<lambda>i. ip ! (2 * i) * 256 + ip ! (2 * i + 1)) [0..<8]"

definition zero_run :: "nat list \<Rightarrow> nat \<Rightarrow> nat" where
  "zero_run gs i = length (takeWhile (\<lambda>g. g = 0) (drop i gs))"

text \<open>The first of the longest runs of at least two zero groups.\<close>

definition longest_zeros :: "nat list \<Rightarrow> (nat \<times> nat) option" where
  "longest_zeros gs =
     foldl (\<lambda>best i.
       let l = zero_run gs i
       in if l \<ge> 2 \<and> (case best of None \<Rightarrow> True | Some (a, b) \<Rightarrow> l > b - a) then Some (i, i + l) else best)
       None [0..<8]"

fun join_groups :: "nat list \<Rightarrow> bytes" where
  "join_groups [] = []"
| "join_groups [g] = hexadecimal g"
| "join_groups (g # h # gs) = hexadecimal g @ '':'' @ join_groups (h # gs)"

definition IP_String :: "nat list \<Rightarrow> bytes" where
  "IP_String ip =
     (if take 12 ip = replicate 10 0 @ [255, 255] then
        decimal (ip ! 12) @ ''.'' @ decimal (ip ! 13) @ ''.'' @ decimal (ip ! 14) @ ''.'' @ decimal (ip ! 15)
      else
        let gs = groups_of ip
        in (case longest_zeros gs of
              None \<Rightarrow> join_groups gs
            | Some (a, b) \<Rightarrow> join_groups (take a gs) @ ''::'' @ join_groups (drop b gs)))"

section \<open>A client and its port\<close>

lemma LastIndexByte_append: "c \<notin> set t \<Longrightarrow> LastIndexByte (s @ c # t) c = Some (length s)"
proof (induction s)
  case Nil
  then have "LastIndexByte t c = None" by (induction t) auto
  then show ?case by simp
qed simp

lemma SplitHostPort_plain:
  assumes "CHR '':'' \<notin> set host" "CHR ''['' \<notin> set host" "CHR '']'' \<notin> set host" "host \<noteq> []"
    and "CHR '':'' \<notin> set port" "CHR ''['' \<notin> set port" "CHR '']'' \<notin> set port"
  shows "SplitHostPort (host @ CHR '':'' # port) = Some (host, port)"
  using assms by (cases host) (auto simp: SplitHostPort_def LastIndexByte_append)

end
