(* ===== verification/Float64.thy ===== *)
theory Float64
  imports Complex_Main "HOL-Library.Log_Nat"
begin

text \<open>
  The part of Go's \<open>float64\<close> that the limiter of requests needs: the non-negative numbers, without the
  overflow to infinity.  A result of an operation is the exact result rounded to 53 significant
  bits, to even in the middle, and never finer than \<open>2^-1074\<close>; an exact number is a \<^typ>\<open>rat\<close>.
  Rounding is monotone, exact on the integers up to \<open>2^53\<close>, and has a relative error of at
  most \<open>2^-53\<close>.
\<close>

section \<open>Rounding\<close>

definition half_even :: "rat \<Rightarrow> int" where
  "half_even y =
     (let f = \<lfloor>y\<rfloor>; d = y - of_int f
      in if d < 1 / 2 then f else if d > 1 / 2 then f + 1 else if even f then f else f + 1)"

text \<open>Rounding in units of \<open>2^-1074\<close>: the number of bits that are lost, and the result.\<close>

definition lost_bits :: "rat \<Rightarrow> nat" where
  "lost_bits x = nat (bitlen \<lfloor>x\<rfloor> - 53)"

definition round_units :: "rat \<Rightarrow> rat" where
  "round_units x = of_int (half_even (x / 2 ^ lost_bits x)) * 2 ^ lost_bits x"

definition units :: rat where
  "units = 2 ^ 1074"

definition fl :: "rat \<Rightarrow> rat" where
  "fl x = round_units (x * units) / units"

section \<open>Laws\<close>

lemma half_even_int [simp]: "half_even (of_int n) = n"
  by (simp add: half_even_def)

lemma half_even_numeral [simp]: "half_even (numeral n) = numeral n" "half_even 0 = 0"
  using half_even_int [of "numeral n"] half_even_int [of 0] by simp_all

lemma units_pos: "0 < units"
  unfolding units_def by (rule zero_less_power) simp

lemma half_even_near: "of_int (half_even y) - y \<le> 1 / 2 \<and> y - of_int (half_even y) \<le> 1 / 2"
  unfolding half_even_def Let_def by (auto simp: not_less) (linarith | fastforce)+

lemma half_even_mono:
  assumes "x \<le> y"
  shows "half_even x \<le> half_even y"
proof (cases "\<lfloor>x\<rfloor> = \<lfloor>y\<rfloor>")
  case True
  with assms show ?thesis by (auto simp: half_even_def Let_def)
next
  case False
  with assms floor_mono [of x y] have "\<lfloor>x\<rfloor> + 1 \<le> \<lfloor>y\<rfloor>" by linarith
  moreover have "half_even x \<le> \<lfloor>x\<rfloor> + 1" "\<lfloor>y\<rfloor> \<le> half_even y" by (auto simp: half_even_def Let_def)
  ultimately show ?thesis by linarith
qed

lemma lost_bits_upper:
  assumes "0 \<le> x"
  shows "x / 2 ^ lost_bits x < 2 ^ 53"
proof -
  have "\<lfloor>x\<rfloor> < 2 ^ (53 + lost_bits x)"
  proof (cases "0 < \<lfloor>x\<rfloor>")
    case True
    then have "\<lfloor>x\<rfloor> < 2 ^ nat (bitlen \<lfloor>x\<rfloor>)" using bitlen_bounds by blast
    also have "\<dots> \<le> 2 ^ (53 + lost_bits x)" by (rule power_increasing) (auto simp: lost_bits_def)
    finally show ?thesis .
  next
    case False
    then show ?thesis by (smt (verit) zero_less_power)
  qed
  then have "x < 2 ^ (53 + lost_bits x)" by (simp add: floor_less_iff)
  then show ?thesis by (simp add: power_add field_simps)
qed

lemma lost_bits_lower:
  assumes "0 < lost_bits x"
  shows "2 ^ 52 \<le> x / 2 ^ lost_bits x"
proof -
  have b: "bitlen \<lfloor>x\<rfloor> = 53 + int (lost_bits x)" using assms by (simp add: lost_bits_def)
  then have "0 < \<lfloor>x\<rfloor>" by (metis add.commute add_pos_nonneg bitlen_eq_zero_iff bitlen_nonneg linorder_not_less of_nat_0_le_iff zero_less_numeral less_irrefl not_le)
  then have "2 ^ nat (bitlen \<lfloor>x\<rfloor> - 1) \<le> \<lfloor>x\<rfloor>" using bitlen_bounds by blast
  then have "2 ^ (52 + lost_bits x) \<le> \<lfloor>x\<rfloor>" using b by (simp add: nat_add_distrib)
  then have "2 ^ (52 + lost_bits x) \<le> x" by (simp add: le_floor_iff)
  then show ?thesis by (simp add: power_add field_simps)
qed

lemma lost_bits_mono: "x \<le> y \<Longrightarrow> lost_bits x \<le> lost_bits y"
proof -
  assume "x \<le> y"
  then have "nat \<lfloor>x\<rfloor> \<le> nat \<lfloor>y\<rfloor>" by (intro nat_mono floor_mono)
  then have "bitlen \<lfloor>x\<rfloor> \<le> bitlen \<lfloor>y\<rfloor>" unfolding bitlen_def by (simp add: floorlog_mono)
  then show ?thesis by (simp add: lost_bits_def)
qed

lemma round_units_mono:
  assumes "0 \<le> x" and "x \<le> y"
  shows "round_units x \<le> round_units y"
proof (cases "lost_bits x = lost_bits y")
  case True
  then show ?thesis using assms half_even_mono [of "x / 2 ^ lost_bits x" "y / 2 ^ lost_bits y"]
    by (simp add: round_units_def divide_right_mono)
next
  case False
  with lost_bits_mono [OF assms(2)] have less: "Suc (lost_bits x) \<le> lost_bits y" by simp
  have "half_even (x / 2 ^ lost_bits x) \<le> half_even (of_int (2 ^ 53))"
    using lost_bits_upper [OF assms(1)] by (intro half_even_mono) simp
  then have "round_units x \<le> 2 ^ 53 * 2 ^ lost_bits x"
    unfolding round_units_def by (intro mult_right_mono) (simp_all flip: of_int_le_iff)
  also have "\<dots> = 2 ^ 52 * 2 ^ Suc (lost_bits x)" by simp
  also have "\<dots> \<le> 2 ^ 52 * 2 ^ lost_bits y" using less by (intro mult_left_mono power_increasing) auto
  also have "half_even (of_int (2 ^ 52)) \<le> half_even (y / 2 ^ lost_bits y)"
    using lost_bits_lower [of y] less by (intro half_even_mono) simp
  then have "2 ^ 52 * 2 ^ lost_bits y \<le> round_units y"
    unfolding round_units_def by (intro mult_right_mono) (simp_all flip: of_int_le_iff)
  finally show ?thesis .
qed

lemma fl_mono: "0 \<le> x \<Longrightarrow> x \<le> y \<Longrightarrow> fl x \<le> fl y"
  unfolding fl_def using units_pos by (intro divide_right_mono round_units_mono mult_right_mono) auto

lemma fl_0 [simp]: "fl 0 = 0"
  by (simp add: fl_def round_units_def)

lemma fl_nonneg: "0 \<le> x \<Longrightarrow> 0 \<le> fl x"
  using fl_mono [of 0 x] by simp

lemma round_units_exact:
  assumes "0 < m" and "m < 2 ^ 53"
  shows "round_units (of_int m * 2 ^ e) = of_int m * 2 ^ e"
proof -
  define x :: rat where "x = of_int m * 2 ^ e"
  have "\<lfloor>x\<rfloor> = m * 2 ^ e" unfolding x_def by (metis floor_of_int of_int_mult of_int_numeral of_int_power)
  then have b: "bitlen \<lfloor>x\<rfloor> = bitlen m + int e" using assms(1) by simp
  have "bitlen m \<le> 53"
  proof (rule ccontr)
    assume "\<not> ?thesis"
    then have "(2::int) ^ 53 \<le> 2 ^ nat (bitlen m - 1)" by (intro power_increasing) auto
    with bitlen_bounds [OF assms(1)] assms(2) show False by linarith
  qed
  with b have le: "lost_bits x \<le> e" by (simp add: lost_bits_def)
  define l where "l = lost_bits x"
  from le obtain d where d: "e = l + d" unfolding l_def using le_Suc_ex by blast
  then have x: "x = of_int (m * 2 ^ d) * 2 ^ l" by (simp add: x_def power_add)
  then have "x / 2 ^ l = of_int (m * 2 ^ d)" by simp
  then have "round_units x = of_int (m * 2 ^ d) * 2 ^ l" by (simp only: round_units_def l_def [symmetric] half_even_int)
  with x show ?thesis unfolding x_def [symmetric] by simp
qed

lemma fl_int:
  assumes "0 \<le> n" and "n \<le> 2 ^ 53"
  shows "fl (of_int n) = of_int n"
proof -
  consider "n = 0" | "0 < n" "n < 2 ^ 53" | "n = 2 ^ 53" using assms by linarith
  then show ?thesis
  proof cases
    case 2
    have "round_units (of_int n * units) = of_int n * units" unfolding units_def by (rule round_units_exact [OF 2])
    then show ?thesis using units_pos by (simp add: fl_def)
  next
    case 3
    have e: "of_int n * units = of_int 1 * 2 ^ (53 + 1074)" unfolding 3 units_def power_add by simp
    have "round_units (of_int n * units) = of_int n * units" unfolding e by (rule round_units_exact) simp_all
    then show ?thesis using units_pos by (simp add: fl_def)
  qed simp
qed

lemma round_units_near:
  assumes "0 \<le> x"
  shows "\<bar>round_units x - x\<bar> \<le> max (x / 2 ^ 53) (1 / 2)"
proof -
  let ?s = "lost_bits x"
  have "\<bar>of_int (half_even (x / 2 ^ ?s)) - x / 2 ^ ?s\<bar> \<le> 1 / 2" using half_even_near [of "x / 2 ^ ?s"] by linarith
  then have "\<bar>of_int (half_even (x / 2 ^ ?s)) - x / 2 ^ ?s\<bar> * 2 ^ ?s \<le> 1 / 2 * 2 ^ ?s" by (rule mult_right_mono) simp
  moreover have "\<bar>of_int (half_even (x / 2 ^ ?s)) - x / 2 ^ ?s\<bar> * 2 ^ ?s = \<bar>round_units x - x\<bar>"
    by (simp add: round_units_def abs_mult_pos left_diff_distrib)
  ultimately have "\<bar>round_units x - x\<bar> \<le> 2 ^ ?s / 2" by simp
  moreover have "(2::rat) ^ ?s / 2 \<le> max (x / 2 ^ 53) (1 / 2)"
  proof (cases "?s = 0")
    case False
    then have "2 ^ 52 * 2 ^ ?s \<le> x" using lost_bits_lower [of x] by (simp add: field_simps)
    then have "(2::rat) ^ ?s / 2 \<le> x / 2 ^ 53" by (simp add: field_simps)
    then show ?thesis by simp
  qed simp
  ultimately show ?thesis by linarith
qed

definition tiny :: rat where
  "tiny = 1 / (2 * units)"

lemma fl_near:
  assumes "0 \<le> x"
  shows "\<bar>fl x - x\<bar> \<le> max (x / 2 ^ 53) tiny"
proof -
  have "\<bar>fl x - x\<bar> = \<bar>round_units (x * units) - x * units\<bar> / units"
    using units_pos by (simp add: fl_def field_simps)
  also have "\<dots> \<le> max (x * units / 2 ^ 53) (1 / 2) / units"
    using round_units_near [of "x * units"] units_pos assms by (intro divide_right_mono) auto
  also have "\<dots> = max (x / 2 ^ 53) tiny" using units_pos by (simp add: tiny_def max_def field_simps)
  finally show ?thesis .
qed

definition eps :: rat where
  "eps = 1 / 2 ^ 53"

lemma eps_pos: "0 < eps"
  by (simp add: eps_def)

lemma tiny_pos: "0 < tiny"
  using units_pos by (simp add: tiny_def)

lemma tiny_eps: "16 * tiny \<le> eps"
proof -
  have "(2::rat) ^ 57 \<le> units" unfolding units_def by (rule power_increasing) auto
  then show ?thesis using units_pos by (simp add: tiny_def eps_def field_simps)
qed

lemma fl_upper: "0 \<le> x \<Longrightarrow> fl x \<le> x * (1 + eps) + tiny"
  using fl_near [of x] tiny_pos eps_pos by (simp add: eps_def algebra_simps max_def abs_le_iff split: if_splits)

section \<open>Time\<close>

text \<open>The difference of two times in nanoseconds, which saturates, and \<open>Duration.Seconds\<close> of one that is not negative.\<close>

definition time_Sub :: "int \<Rightarrow> int \<Rightarrow> int" where
  "time_Sub a b = max (- (2 ^ 63)) (min (2 ^ 63 - 1) (a - b))"

definition Seconds :: "int \<Rightarrow> rat" where
  "Seconds d = fl (fl (of_int (d div 1000000000)) + fl (fl (of_int (d mod 1000000000)) / 1000000000))"

lemma Seconds_parts:
  assumes "0 \<le> d" and "d < 2 ^ 63"
  shows "Seconds d = fl (of_int (d div 1000000000) + fl (of_int (d mod 1000000000) / 1000000000))"
  using assms by (simp add: Seconds_def fl_int)

lemma split_seconds: "(of_int (d div 1000000000) :: rat) + of_int (d mod 1000000000) / 1000000000 = of_int d / 1000000000"
proof -
  have "(of_int d :: rat) = of_int (d div 1000000000 * 1000000000 + d mod 1000000000)" by simp
  also have "\<dots> = of_int (d div 1000000000) * 1000000000 + of_int (d mod 1000000000)" by (simp only: of_int_add of_int_mult of_int_numeral)
  finally show ?thesis by (simp add: field_simps)
qed

lemma Seconds_upper:
  assumes "0 \<le> d" and "d < 2 ^ 63"
  shows "Seconds d \<le> of_int d / 1000000000 * (1 + eps) ^ 2 + 3 * tiny"
proof -
  define a b :: rat where "a = of_int (d div 1000000000)" and "b = of_int (d mod 1000000000) / 1000000000"
  have ab: "0 \<le> a" "0 \<le> b" "a + b = of_int d / 1000000000" using assms split_seconds [of d] by (simp_all add: a_def b_def)
  have "a + fl b \<le> a * (1 + eps) + (b * (1 + eps) + tiny)" using fl_upper [OF ab(2)] ab(1) eps_pos
    by (intro add_mono) (simp_all add: mult_le_cancel_left1)
  also have "\<dots> = (a + b) * (1 + eps) + tiny" by (simp add: algebra_simps)
  finally have sum: "a + fl b \<le> (a + b) * (1 + eps) + tiny" .
  have "Seconds d = fl (a + fl b)" using Seconds_parts [OF assms] by (simp add: a_def b_def)
  also have "\<dots> \<le> (a + fl b) * (1 + eps) + tiny" using ab fl_nonneg by (intro fl_upper) simp
  also have "\<dots> \<le> ((a + b) * (1 + eps) + tiny) * (1 + eps) + tiny" using sum eps_pos by (intro add_right_mono mult_right_mono) simp_all
  also have "\<dots> = (a + b) * (1 + eps) ^ 2 + (tiny * (1 + eps) + tiny)" by (simp add: power2_eq_square algebra_simps)
  also have "\<dots> \<le> (a + b) * (1 + eps) ^ 2 + 3 * tiny" using tiny_pos by (simp add: eps_def algebra_simps)
  finally show ?thesis by (simp add: ab(3))
qed

lemma Seconds_nonneg: "0 \<le> d \<Longrightarrow> 0 \<le> Seconds d"
  unfolding Seconds_def by (intro fl_nonneg add_nonneg_nonneg divide_nonneg_nonneg) simp_all

lemma Seconds_one:
  assumes "1000000000 \<le> d" and "d < 2 ^ 63"
  shows "1 \<le> Seconds d"
proof -
  have "1 \<le> d div 1000000000" using assms(1) by linarith
  then have "(1::rat) \<le> of_int (d div 1000000000)" by (metis of_int_1_le_iff)
  also have "\<dots> \<le> of_int (d div 1000000000) + fl (of_int (d mod 1000000000) / 1000000000)" by (simp add: fl_nonneg)
  finally have "fl (of_int 1) \<le> fl (of_int (d div 1000000000) + fl (of_int (d mod 1000000000) / 1000000000))"
    by (intro fl_mono) simp_all
  then have "fl (of_int 1) \<le> Seconds d" using assms by (simp add: Seconds_parts)
  then show ?thesis using fl_int [of 1] by simp
qed

end
