(* ===== verification/AuthGuard.thy ===== *)
theory AuthGuard
  imports GoNet Float64
begin

text \<open>
  The guard against guessing passwords of \<open>src/pkg/proxy/auth_bruteforce.go\<close>: it counts the failed logins
  of each client address and locks it after too many.  A \<open>time.Time\<close> is a number of nanoseconds, the zero time
  is 0; differences saturate as \<open>time.Duration\<close> does.  The order of the association list stands for the
  order in which Go visits the map.
\<close>

section \<open>The guard\<close>

record authFailureRecord =
  fr_failures :: int
  fr_lastFailureAt :: int
  fr_lockedUntil :: int

record AuthBruteforceStats =
  as_Enabled :: bool
  as_TrackedIPs :: nat
  as_LockedIPs :: nat
  as_Failures :: int
  as_Locks :: int
  as_Unlocks :: int

record AuthBruteforceGuard =
  ag_enabled :: bool
  ag_maxFailures :: int
  ag_lockDuration :: int
  ag_maxTrackedIPs :: nat
  ag_records :: "(string \<times> authFailureRecord) list"
  ag_failures :: int
  ag_locks :: int
  ag_unlocks :: int

definition authBruteforceMaxTrackedIPs :: nat where
  "authBruteforceMaxTrackedIPs = 4096"

definition newAuthBruteforceGuard :: "bool \<Rightarrow> int \<Rightarrow> int \<Rightarrow> AuthBruteforceGuard" where
  "newAuthBruteforceGuard enabled maxFailures lockDuration =
     \<lparr>ag_enabled = enabled, ag_maxFailures = maxFailures, ag_lockDuration = lockDuration,
      ag_maxTrackedIPs = authBruteforceMaxTrackedIPs, ag_records = [], ag_failures = 0, ag_locks = 0, ag_unlocks = 0\<rparr>"

definition authBruteforceClientIP :: "string \<Rightarrow> string" where
  "authBruteforceClientIP remoteAddr =
     (if remoteAddr = [] then []
      else
        let host = (case SplitHostPort remoteAddr of Some (h, p) \<Rightarrow> h | None \<Rightarrow> Trim remoteAddr ''[]'')
        in (case ParseIP host of None \<Rightarrow> [] | Some ip \<Rightarrow> IP_String ip))"

definition active :: "AuthBruteforceGuard \<Rightarrow> bool" where
  "active g \<longleftrightarrow> ag_enabled g \<and> ag_maxFailures g > 0 \<and> ag_lockDuration g > 0"

definition isLocked :: "int \<Rightarrow> authFailureRecord \<Rightarrow> bool" where
  "isLocked now r \<longleftrightarrow> fr_lockedUntil r \<noteq> 0 \<and> now < fr_lockedUntil r"

definition expired :: "AuthBruteforceGuard \<Rightarrow> int \<Rightarrow> authFailureRecord \<Rightarrow> bool" where
  "expired g now r \<longleftrightarrow>
     (if fr_lockedUntil r \<noteq> 0 then \<not> now < fr_lockedUntil r
      else fr_lastFailureAt r \<noteq> 0 \<and> time_Sub now (fr_lastFailureAt r) \<ge> ag_lockDuration g)"

definition expireRecordLocked :: "string \<Rightarrow> authFailureRecord \<Rightarrow> int \<Rightarrow> AuthBruteforceGuard \<Rightarrow> bool \<times> AuthBruteforceGuard" where
  "expireRecordLocked ip r now g =
     (if expired g now r
      then (True, g\<lparr>ag_records := AList.delete ip (ag_records g),
                    ag_unlocks := ag_unlocks g + (if fr_lockedUntil r \<noteq> 0 then 1 else 0)\<rparr>)
      else (False, g))"

definition cleanupExpiredLocked :: "int \<Rightarrow> AuthBruteforceGuard \<Rightarrow> AuthBruteforceGuard" where
  "cleanupExpiredLocked now g = foldl (\<lambda>g (ip, r). snd (expireRecordLocked ip r now g)) g (ag_records g)"

text \<open>The loop that looks for the record to drop: the oldest that is not locked.\<close>

fun evictIP :: "int \<Rightarrow> (string \<times> authFailureRecord) list \<Rightarrow> (string \<times> int) option \<Rightarrow> (string \<times> int) option" where
  "evictIP now [] best = best"
| "evictIP now ((ip, r) # rs) best =
     (if isLocked now r then evictIP now rs best
      else (case best of
         None \<Rightarrow> evictIP now rs (Some (ip, fr_lastFailureAt r))
       | Some (b, oldest) \<Rightarrow> evictIP now rs (if fr_lastFailureAt r < oldest then Some (ip, fr_lastFailureAt r) else best)))"

definition ensureCapacityLocked :: "int \<Rightarrow> AuthBruteforceGuard \<Rightarrow> bool \<times> AuthBruteforceGuard" where
  "ensureCapacityLocked now g =
     (let g1 = cleanupExpiredLocked now g
      in if length (ag_records g1) < ag_maxTrackedIPs g1 then (True, g1)
         else (case evictIP now (ag_records g1) None of
                 None \<Rightarrow> (False, g1)
               | Some (ip, _) \<Rightarrow> (True, g1\<lparr>ag_records := AList.delete ip (ag_records g1)\<rparr>)))"

definition BeforeAuth :: "string \<Rightarrow> bool \<Rightarrow> int \<Rightarrow> AuthBruteforceGuard \<Rightarrow> bool \<times> AuthBruteforceGuard" where
  "BeforeAuth remoteAddr authorized now g =
     (if \<not> active g \<or> authorized then (False, g)
      else
        let ip = authBruteforceClientIP remoteAddr
        in if ip = [] then (False, g)
           else (case map_of (ag_records g) ip of
                   None \<Rightarrow> (False, g)
                 | Some r \<Rightarrow> if isLocked now r then (True, g) else (False, snd (expireRecordLocked ip r now g))))"

text \<open>One more failure in a record, and whether it locks the address.\<close>

definition failedAgain :: "AuthBruteforceGuard \<Rightarrow> int \<Rightarrow> authFailureRecord \<Rightarrow> bool \<times> authFailureRecord" where
  "failedAgain g now r =
     (let n = (if fr_lastFailureAt r \<noteq> 0 \<and> time_Sub now (fr_lastFailureAt r) \<ge> ag_lockDuration g then 0 else fr_failures r) + 1;
          r1 = r\<lparr>fr_failures := n, fr_lastFailureAt := now\<rparr>
      in if n \<ge> ag_maxFailures g then (True, r1\<lparr>fr_lockedUntil := now + ag_lockDuration g\<rparr>) else (False, r1))"

definition countFailure :: "string \<Rightarrow> authFailureRecord \<Rightarrow> int \<Rightarrow> AuthBruteforceGuard \<Rightarrow> bool \<times> AuthBruteforceGuard" where
  "countFailure ip r now g =
     (case failedAgain g now r of
        (locked, r1) \<Rightarrow>
          (locked, g\<lparr>ag_records := AList.update ip r1 (ag_records g), ag_failures := ag_failures g + 1,
                     ag_locks := ag_locks g + (if locked then 1 else 0)\<rparr>))"

definition new_record :: authFailureRecord where
  "new_record = \<lparr>fr_failures = 0, fr_lastFailureAt = 0, fr_lockedUntil = 0\<rparr>"

definition RecordAuthFailure :: "string \<Rightarrow> bool \<Rightarrow> int \<Rightarrow> AuthBruteforceGuard \<Rightarrow> bool \<times> AuthBruteforceGuard" where
  "RecordAuthFailure remoteAddr authorized now g =
     (if \<not> active g \<or> authorized then (False, g)
      else
        let ip = authBruteforceClientIP remoteAddr
        in if ip = [] then (False, g)
           else
             (let fresh = (\<lambda>g1. case ensureCapacityLocked now g1 of
                             (False, g2) \<Rightarrow> (False, g2)
                           | (True, g2) \<Rightarrow> countFailure ip new_record now g2)
              in case map_of (ag_records g) ip of
                   None \<Rightarrow> fresh g
                 | Some r \<Rightarrow>
                     if isLocked now r then (True, g)
                     else (case expireRecordLocked ip r now g of
                             (True, g1) \<Rightarrow> fresh g1
                           | (False, g1) \<Rightarrow> countFailure ip r now g1)))"

definition RecordAuthSuccess :: "string \<Rightarrow> AuthBruteforceGuard \<Rightarrow> AuthBruteforceGuard" where
  "RecordAuthSuccess remoteAddr g =
     (if \<not> active g then g
      else
        let ip = authBruteforceClientIP remoteAddr
        in if ip = [] then g else g\<lparr>ag_records := AList.delete ip (ag_records g)\<rparr>)"

definition Guard_Stats :: "int \<Rightarrow> AuthBruteforceGuard \<Rightarrow> AuthBruteforceStats \<times> AuthBruteforceGuard" where
  "Guard_Stats now g =
     (let g1 = cleanupExpiredLocked now g
      in (\<lparr>as_Enabled = ag_enabled g1, as_TrackedIPs = length (ag_records g1),
           as_LockedIPs = length (filter (\<lambda>(ip, r). isLocked now r) (ag_records g1)),
           as_Failures = ag_failures g1, as_Locks = ag_locks g1, as_Unlocks = ag_unlocks g1\<rparr>, g1))"

section \<open>What it keeps\<close>

definition guard_ok :: "AuthBruteforceGuard \<Rightarrow> bool" where
  "guard_ok g \<longleftrightarrow> distinct (map fst (ag_records g)) \<and> length (ag_records g) \<le> ag_maxTrackedIPs g \<and>
     (\<forall>(ip, r) \<in> set (ag_records g). fr_lockedUntil r = 0 \<longrightarrow> fr_failures r < ag_maxFailures g)"

definition policy :: "AuthBruteforceGuard \<Rightarrow> bool \<times> int \<times> int \<times> nat" where
  "policy g = (ag_enabled g, ag_maxFailures g, ag_lockDuration g, ag_maxTrackedIPs g)"

text \<open>Dropping records: nothing else changes.\<close>

definition drops :: "(string \<Rightarrow> authFailureRecord \<Rightarrow> bool) \<Rightarrow> AuthBruteforceGuard \<Rightarrow> AuthBruteforceGuard \<Rightarrow> bool" where
  "drops p g g1 \<longleftrightarrow> policy g1 = policy g \<and> ag_records g1 = filter (\<lambda>(ip, r). p ip r) (ag_records g)"

lemma delete_filter: "AList.delete k xs = filter (\<lambda>(k', v). k' \<noteq> k) xs"
  by (auto simp: AList.delete_eq case_prod_unfold intro: filter_cong)

lemma cleanup_drops:
  assumes "guard_ok g"
  shows "drops (\<lambda>ip r. \<not> expired g now r) g (cleanupExpiredLocked now g)"
proof -
  have step: "policy (foldl (\<lambda>g (ip, r). snd (expireRecordLocked ip r now g)) h rs) = policy h \<and>
      ag_records (foldl (\<lambda>g (ip, r). snd (expireRecordLocked ip r now g)) h rs) =
      filter (\<lambda>(ip, r). \<not> (\<exists>r'. (ip, r') \<in> set rs \<and> expired h now r')) (ag_records h)" for h rs
  proof (induction rs arbitrary: h)
    case (Cons x rs)
    obtain ip r where x: "x = (ip, r)" by fastforce
    define h1 where "h1 = snd (expireRecordLocked ip r now h)"
    have h1: "policy h1 = policy h" "ag_records h1 = (if expired h now r then filter (\<lambda>(k, v). k \<noteq> ip) (ag_records h) else ag_records h)"
      by (simp_all add: h1_def expireRecordLocked_def policy_def delete_filter)
    then have same: "expired h1 now r' = expired h now r'" for r' by (simp add: expired_def policy_def)
    show ?case using Cons.IH [of h1] h1 by (auto simp: x h1_def [symmetric] same intro!: filter_cong)
  qed simp
  have "filter (\<lambda>(ip, r). \<not> (\<exists>r'. (ip, r') \<in> set (ag_records g) \<and> expired g now r')) (ag_records g) =
      filter (\<lambda>(ip, r). \<not> expired g now r) (ag_records g)"
    using assms by (intro filter_cong) (auto simp: guard_ok_def dest: eq_key_imp_eq_value)
  then show ?thesis using step [of g "ag_records g"] by (simp add: drops_def cleanupExpiredLocked_def)
qed

lemma drops_ok: "guard_ok g \<Longrightarrow> drops p g g1 \<Longrightarrow> guard_ok g1"
  by (auto simp: guard_ok_def drops_def policy_def distinct_map_filter intro: le_trans [OF length_filter_le])

lemma drops_lookup:
  assumes "guard_ok g" and "drops p g g1"
  shows "map_of (ag_records g1) ip = (case map_of (ag_records g) ip of None \<Rightarrow> None | Some r \<Rightarrow> if p ip r then Some r else None)"
proof -
  have d: "distinct (map fst (ag_records g))" using assms(1) by (simp add: guard_ok_def)
  have "distinct (map fst (ag_records g1))" using drops_ok [OF assms] by (simp add: guard_ok_def)
  then have "map_of (ag_records g1) ip = Some r \<longleftrightarrow> map_of (ag_records g) ip = Some r \<and> p ip r" for r
    using d assms(2) by (auto simp: drops_def map_of_eq_Some_iff)
  note same = this
  show ?thesis
  proof (cases "map_of (ag_records g1) ip")
    case None
    with same show ?thesis by (auto split: option.splits)
  next
    case (Some r)
    with same [of r] show ?thesis by simp
  qed
qed

lemma drops_keys: "drops p g g1 \<Longrightarrow> fst ` set (ag_records g1) \<subseteq> fst ` set (ag_records g)"
  by (auto simp: drops_def)

lemma expire_drops:
  assumes "guard_ok g" and "map_of (ag_records g) ip = Some r"
  shows "drops (\<lambda>ip' r'. ip' = ip \<longrightarrow> \<not> expired g now r') g (snd (expireRecordLocked ip r now g))"
    and "fst (expireRecordLocked ip r now g) = expired g now r"
proof -
  have "(ip, r') \<in> set (ag_records g) \<Longrightarrow> r' = r" for r'
    using assms by (auto simp: guard_ok_def dest: map_of_is_SomeI)
  then have "filter (\<lambda>(ip', r'). ip' = ip \<longrightarrow> \<not> expired g now r') (ag_records g) =
      (if expired g now r then filter (\<lambda>(k, v). k \<noteq> ip) (ag_records g) else ag_records g)"
    by (auto simp: filter_id_conv intro!: filter_cong)
  then show "drops (\<lambda>ip' r'. ip' = ip \<longrightarrow> \<not> expired g now r') g (snd (expireRecordLocked ip r now g))"
    by (simp add: drops_def expireRecordLocked_def policy_def delete_filter)
qed (simp add: expireRecordLocked_def)

lemma evictIP_some:
  "evictIP now rs best = Some (ip, t) \<Longrightarrow> best = Some (ip, t) \<or> (\<exists>r. (ip, r) \<in> set rs \<and> \<not> isLocked now r)"
proof (induction rs arbitrary: best)
  case (Cons x rs)
  obtain ip' r where x: "x = (ip', r)" by fastforce
  show ?case
  proof (cases "isLocked now r")
    case True
    with Cons x show ?thesis by auto
  next
    case False
    let ?b = "case best of None \<Rightarrow> Some (ip', fr_lastFailureAt r)
      | Some (b, oldest) \<Rightarrow> if fr_lastFailureAt r < oldest then Some (ip', fr_lastFailureAt r) else best"
    have "evictIP now rs ?b = Some (ip, t)" using Cons.prems x False by (auto split: option.splits)
    from Cons.IH [OF this] False x show ?thesis by (auto split: option.splits if_splits)
  qed
qed simp

lemma capacity_cases:
  assumes ok: "guard_ok g"
  obtains (room) g1 where "ensureCapacityLocked now g = (True, g1)" "drops (\<lambda>ip r. \<not> expired g now r) g g1"
      "length (ag_records g1) < ag_maxTrackedIPs g"
    | (evicted) g1 x where "ensureCapacityLocked now g = (True, g1)" "\<exists>r. map_of (ag_records g) x = Some r \<and> \<not> isLocked now r"
      "drops (\<lambda>ip r. \<not> expired g now r \<and> ip \<noteq> x) g g1" "length (ag_records g1) < ag_maxTrackedIPs g"
      "ag_maxTrackedIPs g \<le> length (ag_records g)"
    | (full) g1 where "ensureCapacityLocked now g = (False, g1)" "drops (\<lambda>ip r. \<not> expired g now r) g g1"
      "ag_maxTrackedIPs g \<le> length (ag_records g)"
proof -
  define h where "h = cleanupExpiredLocked now g"
  have h: "drops (\<lambda>ip r. \<not> expired g now r) g h" using cleanup_drops [OF ok] by (simp add: h_def)
  have hok: "guard_ok h" using drops_ok [OF ok h] .
  have mx: "ag_maxTrackedIPs h = ag_maxTrackedIPs g" and len: "length (ag_records h) \<le> length (ag_records g)"
    using h by (simp_all add: drops_def policy_def)
  show ?thesis
  proof (cases "length (ag_records h) < ag_maxTrackedIPs h")
    case True
    with h mx show ?thesis by - (rule room [of h], simp_all add: ensureCapacityLocked_def h_def)
  next
    case False
    show ?thesis
    proof (cases "evictIP now (ag_records h) None")
      case None
      with False h mx len show ?thesis by - (rule full [of h], simp_all add: ensureCapacityLocked_def h_def [symmetric])
    next
      case (Some b)
      obtain x t where b: "b = (x, t)" by fastforce
      define g1 where "g1 = h\<lparr>ag_records := AList.delete x (ag_records h)\<rparr>"
      from evictIP_some [of now "ag_records h" None x t] Some b obtain r where
        r: "(x, r) \<in> set (ag_records h)" "\<not> isLocked now r" by auto
      have "map_of (ag_records g) x = Some r"
        using r(1) h ok by (auto simp: drops_def guard_ok_def)
      moreover have "drops (\<lambda>ip r. \<not> expired g now r \<and> ip \<noteq> x) g g1"
        using h by (auto simp: drops_def g1_def policy_def delete_filter intro!: filter_cong)
      moreover have "length (ag_records g1) < length (ag_records h)"
        using r(1) by (simp add: g1_def delete_filter) (rule length_filter_less [of "(x, r)"], auto)
      moreover have "length (ag_records h) \<le> ag_maxTrackedIPs h" using hok by (simp add: guard_ok_def)
      moreover have "ensureCapacityLocked now g = (True, g1)"
        using False Some b by (simp add: ensureCapacityLocked_def h_def [symmetric] g1_def)
      ultimately show ?thesis using False mx len r(2) by - (rule evicted [of g1 x], auto)
    qed
  qed
qed

lemma countFailure_ok:
  assumes "guard_ok g" and "0 < now" "0 < ag_lockDuration g" "fr_lockedUntil r = 0" and "ip \<in> fst ` set (ag_records g) \<or> length (ag_records g) < ag_maxTrackedIPs g"
    and "countFailure ip r now g = (b, g1)"
  shows "guard_ok g1 \<and> policy g1 = policy g \<and> fst ` set (ag_records g1) = insert ip (fst ` set (ag_records g)) \<and>
    (\<forall>ip'. ip' \<noteq> ip \<longrightarrow> map_of (ag_records g1) ip' = map_of (ag_records g) ip')"
proof -
  define r1 where "r1 = snd (failedAgain g now r)"
  have r1: "ag_records g1 = AList.update ip r1 (ag_records g)" "policy g1 = policy g"
    using assms(6) by (auto simp: countFailure_def policy_def r1_def split: prod.splits)
  have r1': "fr_lockedUntil r1 = 0 \<Longrightarrow> fr_failures r1 < ag_maxFailures g"
    using assms(2,3) by (auto simp: r1_def failedAgain_def Let_def split: if_splits)
  have "length (ag_records g1) \<le> ag_maxTrackedIPs g"
  proof (cases "ip \<in> fst ` set (ag_records g)")
    case True
    then have "length (ag_records g1) = length (ag_records g)"
      using r1(1) by (metis length_map list.set_map update_keys)
    then show ?thesis using assms(1) by (simp add: guard_ok_def)
  next
    case False
    then have "length (ag_records g1) = Suc (length (ag_records g))"
      using r1(1) by (metis length_append_singleton length_map list.set_map update_keys)
    then show ?thesis using assms(5) False by simp
  qed
  moreover have "distinct (map fst (ag_records g1))" using assms(1) r1(1) by (simp add: guard_ok_def distinct_update)
  moreover have "fr_lockedUntil r' = 0 \<longrightarrow> fr_failures r' < ag_maxFailures g" if "(ip', r') \<in> set (ag_records g1)" for ip' r'
  proof -
    have "map_of (ag_records g1) ip' = Some r'" using that calculation(2) by simp
    then have "map_of (ag_records g) ip' = Some r' \<or> r' = r1" by (auto simp: r1(1) update_conv' split: if_splits)
    then show ?thesis using assms(1) r1' by (auto simp: guard_ok_def dest: map_of_SomeD)
  qed
  ultimately show ?thesis using r1 by (auto simp: guard_ok_def policy_def dom_update update_conv')
qed

section \<open>One address\<close>

text \<open>What the guard does for one address: a machine on the record of that address alone.\<close>

datatype guard_op = GBefore string bool int | GFail string bool int | GSuccess string int | GStats int

primrec do_guard :: "guard_op \<Rightarrow> AuthBruteforceGuard \<Rightarrow> bool \<times> AuthBruteforceGuard" where
  "do_guard (GBefore addr auth now) g = BeforeAuth addr auth now g"
| "do_guard (GFail addr auth now) g = RecordAuthFailure addr auth now g"
| "do_guard (GSuccess addr now) g = (False, RecordAuthSuccess addr g)"
| "do_guard (GStats now) g = (False, snd (Guard_Stats now g))"

primrec op_ip :: "guard_op \<Rightarrow> string" where
  "op_ip (GBefore addr auth now) = authBruteforceClientIP addr"
| "op_ip (GFail addr auth now) = authBruteforceClientIP addr"
| "op_ip (GSuccess addr now) = authBruteforceClientIP addr"
| "op_ip (GStats now) = []"

primrec op_time :: "guard_op \<Rightarrow> int" where
  "op_time (GBefore addr auth now) = now"
| "op_time (GFail addr auth now) = now"
| "op_time (GSuccess addr now) = now"
| "op_time (GStats now) = now"

definition unexpired :: "AuthBruteforceGuard \<Rightarrow> int \<Rightarrow> authFailureRecord option \<Rightarrow> authFailureRecord option" where
  "unexpired g now r = (case r of None \<Rightarrow> None | Some x \<Rightarrow> if expired g now x then None else Some x)"

definition locked_at :: "int \<Rightarrow> authFailureRecord option \<Rightarrow> bool" where
  "locked_at now r = (case r of None \<Rightarrow> False | Some x \<Rightarrow> isLocked now x)"

lemma at_none [simp]: "unexpired g now None = None" "\<not> locked_at now None"
  by (simp_all add: unexpired_def locked_at_def)

fun one_op :: "AuthBruteforceGuard \<Rightarrow> guard_op \<Rightarrow> authFailureRecord option \<Rightarrow> bool \<times> authFailureRecord option" where
  "one_op g (GBefore addr auth now) r =
     (if auth then (False, r) else if locked_at now r then (True, r) else (False, unexpired g now r))"
| "one_op g (GFail addr auth now) r =
     (if auth then (False, r) else if locked_at now r then (True, r)
      else map_prod id Some (failedAgain g now (case unexpired g now r of None \<Rightarrow> new_record | Some x \<Rightarrow> x)))"
| "one_op g (GSuccess addr now) r = (False, None)"
| "one_op g (GStats now) r = (False, r)"

lemma policy_same:
  assumes "policy g1 = policy g"
  shows "active g1 = active g" "expired g1 = expired g" "failedAgain g1 = failedAgain g" "unexpired g1 = unexpired g"
    "ag_lockDuration g1 = ag_lockDuration g" "ag_maxTrackedIPs g1 = ag_maxTrackedIPs g" "ag_maxFailures g1 = ag_maxFailures g"
proof -
  show e: "expired g1 = expired g" using assms by (intro ext) (simp add: expired_def policy_def)
  show "active g1 = active g" "ag_lockDuration g1 = ag_lockDuration g" "ag_maxTrackedIPs g1 = ag_maxTrackedIPs g" "ag_maxFailures g1 = ag_maxFailures g"
    using assms by (simp_all add: active_def policy_def)
  then show "failedAgain g1 = failedAgain g" by (intro ext) (auto simp: failedAgain_def Let_def)
  show "unexpired g1 = unexpired g" by (intro ext) (simp add: unexpired_def e split: option.split)
qed

lemma drops_policy: "drops p g g1 \<Longrightarrow> policy g1 = policy g"
  by (simp add: drops_def)

lemma not_locked: "fr_lockedUntil x = 0 \<or> isLocked now x \<or> expired g now x"
  by (auto simp: isLocked_def expired_def)

lemma failedAgain_locks:
  "0 < now \<Longrightarrow> 0 < ag_lockDuration g \<Longrightarrow> fr_lockedUntil r = 0 \<Longrightarrow> failedAgain g now r = (b, r1) \<Longrightarrow>
   b = isLocked now r1 \<and> (b \<longleftrightarrow> fr_lockedUntil r1 \<noteq> 0)"
  by (auto simp: failedAgain_def isLocked_def Let_def split: if_splits)

text \<open>A failure of an address with a record that is kept, or with room for a new one.\<close>

lemma fail_tracked:
  assumes ok: "guard_ok g" "active g" "0 < now" and ip: "authBruteforceClientIP addr = ip" "ip \<noteq> []"
    and room: "ip \<in> fst ` set (ag_records g) \<or> length (ag_records g) < ag_maxTrackedIPs g"
    and f: "RecordAuthFailure addr False now g = (b, g1)"
  shows "guard_ok g1 \<and> policy g1 = policy g \<and> (b, map_of (ag_records g1) ip) = one_op g (GFail addr False now) (map_of (ag_records g) ip) \<and>
     fst ` set (ag_records g1) \<subseteq> insert ip (fst ` set (ag_records g)) \<and>
     (\<forall>x. x \<noteq> ip \<longrightarrow> map_of (ag_records g1) x = map_of (ag_records g) x \<or>
        map_of (ag_records g1) x = None \<and> unexpired g now (map_of (ag_records g) x) = None)"
proof -
  have d: "0 < ag_lockDuration g" using ok(2) by (simp add: active_def)
  define fresh where "fresh = (\<lambda>h. case ensureCapacityLocked now h of (False, h1) \<Rightarrow> (False, h1) | (True, h1) \<Rightarrow> countFailure ip new_record now h1)"
  have f': "(b, g1) = (case map_of (ag_records g) ip of None \<Rightarrow> fresh g
      | Some r \<Rightarrow> if isLocked now r then (True, g)
                  else (case expireRecordLocked ip r now g of (True, h) \<Rightarrow> fresh h | (False, h) \<Rightarrow> countFailure ip r now h))"
    using f [unfolded RecordAuthFailure_def Let_def ip(1)] ok(2) ip(2) unfolding fresh_def by simp
  have new: ?thesis if h: "drops (\<lambda>ip' r'. ip' = ip \<longrightarrow> \<not> expired g now r') g h" and none: "unexpired g now (map_of (ag_records g) ip) = None"
    and nl: "\<not> locked_at now (map_of (ag_records g) ip)" and e: "(b, g1) = fresh h" for h
  proof -
    have hok: "guard_ok h" using drops_ok [OF ok(1) h] .
    note p = policy_same [OF drops_policy [OF h]]
    have hip: "ip \<notin> fst ` set (ag_records h)"
      using drops_lookup [OF ok(1) h, of ip] none by (auto simp: unexpired_def map_of_eq_None_iff [symmetric] split: option.splits if_splits)
    have less: "length (ag_records h) < ag_maxTrackedIPs h"
    proof (cases "ip \<in> fst ` set (ag_records g)")
      case True
      then obtain r where r: "(ip, r) \<in> set (ag_records g)" by auto
      moreover have "(ip, r) \<notin> set (ag_records h)" using hip by force
      ultimately have "length (ag_records h) < length (ag_records g)"
        using h unfolding drops_def by (auto intro!: length_filter_less [OF r])
      with ok(1) p show ?thesis by (simp add: guard_ok_def)
    next
      case False
      with room h p show ?thesis by (auto simp: drops_def intro: le_less_trans [OF length_filter_le])
    qed
    from hok show ?thesis
    proof (cases rule: capacity_cases [of _ now])
      case (room k)
      have kok: "guard_ok k" using drops_ok [OF hok room(2)] .
      note q = policy_same [OF drops_policy [OF room(2)]]
      have cf: "countFailure ip new_record now k = (b, g1)" using e room(1) by (simp add: fresh_def)
      from countFailure_ok [OF kok ok(3) _ _ _ cf] room(3) d p q
      have c: "guard_ok g1" "policy g1 = policy k" "fst ` set (ag_records g1) = insert ip (fst ` set (ag_records k))"
        "\<And>x. x \<noteq> ip \<Longrightarrow> map_of (ag_records g1) x = map_of (ag_records k) x" by (auto simp: new_record_def)
      have "(b, map_of (ag_records g1) ip) = map_prod id Some (failedAgain g now new_record)"
        using cf p q by (auto simp: countFailure_def update_conv' split: prod.splits)
      moreover have "map_of (ag_records g1) x = map_of (ag_records g) x \<or>
        map_of (ag_records g1) x = None \<and> unexpired g now (map_of (ag_records g) x) = None" if "x \<noteq> ip" for x
        using c(4) [OF that] drops_lookup [OF ok(1) h, of x] drops_lookup [OF hok room(2), of x] that p
        by (auto simp: unexpired_def split: option.splits)
      moreover have "fst ` set (ag_records g1) \<subseteq> insert ip (fst ` set (ag_records g))"
        unfolding c(3) using drops_keys [OF h] drops_keys [OF room(2)] by (meson insert_mono order_trans)
      ultimately show ?thesis
        using c(1,2) none nl drops_policy [OF h] drops_policy [OF room(2)] by auto
    next
      case (evicted k x)
      with less show ?thesis by simp
    next
      case (full k)
      with less show ?thesis by simp
    qed
  qed
  show ?thesis
  proof (cases "map_of (ag_records g) ip")
    case None
    then have "ip \<notin> fst ` set (ag_records g)" by (simp add: map_of_eq_None_iff)
    then have "filter (\<lambda>(ip', r'). ip' = ip \<longrightarrow> \<not> expired g now r') (ag_records g) = ag_records g"
      by (intro filter_True) force
    then have "drops (\<lambda>ip' r'. ip' = ip \<longrightarrow> \<not> expired g now r') g g" by (simp add: drops_def)
    then show ?thesis using new [of g] f' None by (simp add: unexpired_def locked_at_def)
  next
    case (Some r)
    note e = expire_drops [OF ok(1) Some, of now]
    consider "isLocked now r" | "\<not> isLocked now r" "expired g now r" | "\<not> isLocked now r" "\<not> expired g now r" by blast
    then show ?thesis
    proof cases
      case 1
      with f' Some ok(1) show ?thesis by (auto simp: locked_at_def)
    next
      case 2
      with new [OF e(1)] f' Some e(2) show ?thesis by (auto simp: unexpired_def locked_at_def split: prod.splits)
    next
      case 3
      have g: "snd (expireRecordLocked ip r now g) = g" using 3 by (simp add: expireRecordLocked_def)
      have cf: "countFailure ip r now g = (b, g1)" using f' Some 3 by (simp add: expireRecordLocked_def)
      have "fr_lockedUntil r = 0" using not_locked [of r now g] 3 by simp
      from countFailure_ok [OF ok(1,3) d this room cf] cf Some 3 show ?thesis
        by (auto simp: countFailure_def update_conv' locked_at_def unexpired_def split: prod.splits)
    qed
  qed
qed

lemma before_tracked:
  assumes ok: "guard_ok g" "active g" and ip: "authBruteforceClientIP addr = ip" "ip \<noteq> []"
    and f: "BeforeAuth addr False now g = (b, g1)"
  shows "guard_ok g1 \<and> policy g1 = policy g \<and> (b, map_of (ag_records g1) ip) = one_op g (GBefore addr False now) (map_of (ag_records g) ip) \<and>
     fst ` set (ag_records g1) \<subseteq> fst ` set (ag_records g) \<and> (\<forall>x. x \<noteq> ip \<longrightarrow> map_of (ag_records g1) x = map_of (ag_records g) x)"
proof (cases "map_of (ag_records g) ip")
  case None
  with f ok ip show ?thesis by (auto simp: BeforeAuth_def Let_def locked_at_def unexpired_def)
next
  case (Some r)
  note e = expire_drops [OF ok(1) Some, of now]
  have look: "map_of (ag_records (snd (expireRecordLocked ip r now g))) x =
      (if x = ip \<and> expired g now r then None else map_of (ag_records g) x)" for x
    using drops_lookup [OF ok(1) e(1), of x] Some by (auto split: option.splits)
  show ?thesis
  proof (cases "isLocked now r")
    case True
    with f ok ip Some show ?thesis by (auto simp: BeforeAuth_def Let_def locked_at_def)
  next
    case False
    then have "b = False" "g1 = snd (expireRecordLocked ip r now g)"
      using f ok(2) ip Some by (simp_all add: BeforeAuth_def Let_def)
    with False Some look drops_ok [OF ok(1) e(1)] drops_policy [OF e(1)] drops_keys [OF e(1)] show ?thesis
      by (auto simp: locked_at_def unexpired_def)
  qed
qed

lemma success_tracked:
  assumes ok: "guard_ok g" "active g" and ip: "authBruteforceClientIP addr = ip" "ip \<noteq> []"
  shows "guard_ok (RecordAuthSuccess addr g) \<and> policy (RecordAuthSuccess addr g) = policy g \<and>
     map_of (ag_records (RecordAuthSuccess addr g)) ip = None \<and> fst ` set (ag_records (RecordAuthSuccess addr g)) \<subseteq> fst ` set (ag_records g) \<and>
     (\<forall>x. x \<noteq> ip \<longrightarrow> map_of (ag_records (RecordAuthSuccess addr g)) x = map_of (ag_records g) x)"
proof -
  have d: "drops (\<lambda>ip' r'. ip' \<noteq> ip) g (RecordAuthSuccess addr g)"
    using ok(2) ip by (simp add: drops_def RecordAuthSuccess_def policy_def delete_filter Let_def)
  show ?thesis
    using drops_ok [OF ok(1) d] drops_lookup [OF ok(1) d] drops_keys [OF d] drops_policy [OF d] by (simp split: option.split)
qed

lemma stats_tracked:
  assumes "guard_ok g"
  shows "guard_ok (snd (Guard_Stats now g)) \<and> policy (snd (Guard_Stats now g)) = policy g \<and>
     fst ` set (ag_records (snd (Guard_Stats now g))) \<subseteq> fst ` set (ag_records g) \<and>
     (\<forall>x. map_of (ag_records (snd (Guard_Stats now g))) x = unexpired g now (map_of (ag_records g) x))"
  using drops_ok [OF assms cleanup_drops [OF assms]] drops_lookup [OF assms cleanup_drops [OF assms]]
    drops_keys [OF cleanup_drops [OF assms]] drops_policy [OF cleanup_drops [OF assms]]
  by (simp add: Guard_Stats_def Let_def unexpired_def split: option.split)

text \<open>Time passes: an expired record stays expired, and the guard may have dropped it already.\<close>

lemma expired_later: "expired g t r \<Longrightarrow> t \<le> t1 \<Longrightarrow> expired g t1 r"
  by (auto simp: expired_def time_Sub_def split: if_splits)

definition represents :: "AuthBruteforceGuard \<Rightarrow> int \<Rightarrow> authFailureRecord option \<Rightarrow> authFailureRecord option \<Rightarrow> bool" where
  "represents g t r0 r \<longleftrightarrow> r0 = r \<or> r0 = None \<and> unexpired g t r = None"

lemma unexpired_later: "unexpired g t r = None \<Longrightarrow> t \<le> t1 \<Longrightarrow> unexpired g t1 r = None \<and> \<not> locked_at t1 r"
  using expired_later [of g t _ t1] by (auto simp: unexpired_def locked_at_def isLocked_def expired_def split: option.splits if_splits)

lemma one_op_represents:
  assumes "represents g t r0 r" and "t \<le> op_time x" and "x = GBefore addr auth now \<or> x = GFail addr auth now \<or> x = GSuccess addr now"
  shows "fst (one_op g x r0) = fst (one_op g x r) \<and> represents g (op_time x) (snd (one_op g x r0)) (snd (one_op g x r))"
proof (cases "r0 = r")
  case True
  then show ?thesis by (simp add: represents_def)
next
  case False
  then have "r0 = None" "unexpired g t r = None" using assms(1) by (auto simp: represents_def)
  with unexpired_later [OF this(2) assms(2)] assms(3) show ?thesis
    by (cases auth) (auto simp: represents_def)
qed

fun run_guard :: "guard_op list \<Rightarrow> AuthBruteforceGuard \<Rightarrow> (string \<times> bool) list" where
  "run_guard [] g = []"
| "run_guard (x # xs) g = (case do_guard x g of (b, g1) \<Rightarrow> (op_ip x, b) # run_guard xs g1)"

fun run_one :: "AuthBruteforceGuard \<Rightarrow> guard_op list \<Rightarrow> authFailureRecord option \<Rightarrow> bool list" where
  "run_one g [] r = []"
| "run_one g (x # xs) r = (case one_op g x r of (b, r1) \<Rightarrow> b # run_one g xs r1)"

lemma do_guard_tracked:
  assumes ok: "guard_ok g" "active g" "0 < op_time x" and S: "finite S" "card S \<le> ag_maxTrackedIPs g"
    and keys: "fst ` set (ag_records g) \<subseteq> S" and ip: "op_ip x \<in> insert [] S" and d: "do_guard x g = (b, g1)"
  shows "guard_ok g1 \<and> policy g1 = policy g \<and> fst ` set (ag_records g1) \<subseteq> S \<and>
     (op_ip x \<noteq> [] \<longrightarrow> (b, map_of (ag_records g1) (op_ip x)) = one_op g x (map_of (ag_records g) (op_ip x))) \<and>
     (\<forall>i. i \<noteq> [] \<longrightarrow> i \<noteq> op_ip x \<longrightarrow> represents g (op_time x) (map_of (ag_records g1) i) (map_of (ag_records g) i))"
proof (cases "op_ip x = []")
  case True
  show ?thesis
  proof (cases x)
    case (GBefore addr auth now)
    with True d ok keys show ?thesis by (auto simp: BeforeAuth_def represents_def Let_def split: if_splits)
  next
    case (GFail addr auth now)
    with True d ok keys show ?thesis by (auto simp: RecordAuthFailure_def represents_def Let_def split: if_splits)
  next
    case (GSuccess addr now)
    with True d ok keys show ?thesis by (auto simp: RecordAuthSuccess_def represents_def Let_def split: if_splits)
  next
    case (GStats now)
    with True d keys stats_tracked [OF ok(1), of now] show ?thesis by (auto simp: represents_def unexpired_def split: option.splits)
  qed
next
  case False
  have room: "op_ip x \<in> fst ` set (ag_records g) \<or> length (ag_records g) < ag_maxTrackedIPs g"
  proof (rule ccontr)
    assume no: "\<not> ?thesis"
    have "card (insert (op_ip x) (fst ` set (ag_records g))) \<le> card S"
      using keys ip False S(1) by (intro card_mono) auto
    moreover have "card (fst ` set (ag_records g)) = length (ag_records g)"
      using ok(1) by (metis distinct_card guard_ok_def length_map list.set_map)
    ultimately show False using no S(2) by simp
  qed
  show ?thesis
  proof (cases x)
    case (GBefore addr auth now)
    show ?thesis
    proof (cases auth)
      case True
      with GBefore d ok keys show ?thesis by (auto simp: BeforeAuth_def represents_def)
    next
      case False
      with before_tracked [OF ok(1,2) refl, of addr now b g1] GBefore d \<open>op_ip x \<noteq> []\<close>
      have "fst ` set (ag_records g1) \<subseteq> S" using keys by (simp add: order_trans [OF _ keys])
      with before_tracked [OF ok(1,2) refl, of addr now b g1] GBefore d \<open>op_ip x \<noteq> []\<close> False show ?thesis
        by (simp add: represents_def)
    qed
  next
    case (GFail addr auth now)
    show ?thesis
    proof (cases auth)
      case True
      with GFail d ok keys show ?thesis by (auto simp: RecordAuthFailure_def represents_def)
    next
      case False
      have ins: "insert (op_ip x) (fst ` set (ag_records g)) \<subseteq> S" using keys ip \<open>op_ip x \<noteq> []\<close> by simp
      from False fail_tracked [OF ok(1,2) _ refl, of now addr b g1] GFail d ok(3) room \<open>op_ip x \<noteq> []\<close>
      have "fst ` set (ag_records g1) \<subseteq> S" using order_trans [OF _ ins] by simp
      with False fail_tracked [OF ok(1,2) _ refl, of now addr b g1] GFail d ok(3) room \<open>op_ip x \<noteq> []\<close> show ?thesis
        by (simp add: represents_def)
    qed
  next
    case (GSuccess addr now)
    with success_tracked [OF ok(1,2) refl, of addr] d \<open>op_ip x \<noteq> []\<close>
    have "fst ` set (ag_records g1) \<subseteq> S" using order_trans [OF _ keys] by auto
    with GSuccess success_tracked [OF ok(1,2) refl, of addr] d \<open>op_ip x \<noteq> []\<close> show ?thesis by (auto simp: represents_def)
  next
    case (GStats now)
    with \<open>op_ip x \<noteq> []\<close> show ?thesis by simp
  qed
qed

lemma one_op_policy: "policy g1 = policy g \<Longrightarrow> one_op g1 x r = one_op g x r"
  using policy_same [of g1 g] by (cases x) simp_all

lemma run_one_policy:
  assumes "policy g1 = policy g"
  shows "run_one g1 xs r = run_one g xs r"
  by (induction xs arbitrary: r) (simp_all add: one_op_policy [OF assms] split: prod.split)

lemma run_guard_one:
  assumes "guard_ok g" "active g" "finite S" "card S \<le> ag_maxTrackedIPs g" "fst ` set (ag_records g) \<subseteq> S"
    and "\<forall>x \<in> set xs. 0 < op_time x \<and> t \<le> op_time x \<and> op_ip x \<in> insert [] S" "sorted (map op_time xs)"
    and "ip \<noteq> []" "represents g t (map_of (ag_records g) ip) r"
  shows "map snd (filter (\<lambda>(i, b). i = ip) (run_guard xs g)) = run_one g (filter (\<lambda>x. op_ip x = ip) xs) r"
  using assms
proof (induction xs arbitrary: g t r)
  case (Cons x xs)
  obtain b g1 where d: "do_guard x g = (b, g1)" by fastforce
  from Cons.prems have x: "0 < op_time x" "t \<le> op_time x" "op_ip x \<in> insert [] S" by auto
  note tr = do_guard_tracked [OF Cons.prems(1,2) x(1) Cons.prems(3,4,5) x(3) d]
  then have g1: "guard_ok g1" "policy g1 = policy g" "fst ` set (ag_records g1) \<subseteq> S" by auto
  note pol = policy_same [OF g1(2)]
  have later: "\<forall>y \<in> set xs. 0 < op_time y \<and> op_time x \<le> op_time y \<and> op_ip y \<in> insert [] S" "sorted (map op_time xs)"
    using Cons.prems(6,7) by auto
  have rep: "represents g1 = represents g" by (intro ext) (simp add: represents_def pol)
  note IH = Cons.IH [OF g1(1) _ Cons.prems(3) _ g1(3) later Cons.prems(8)]
  show ?case
  proof (cases "op_ip x = ip")
    case True
    then obtain addr auth now where k: "x = GBefore addr auth now \<or> x = GFail addr auth now \<or> x = GSuccess addr now"
      using Cons.prems(8) by (cases x) auto
    have "(b, map_of (ag_records g1) ip) = one_op g x (map_of (ag_records g) ip)" using tr True Cons.prems(8) by auto
    then have "b = fst (one_op g x (map_of (ag_records g) ip))" "map_of (ag_records g1) ip = snd (one_op g x (map_of (ag_records g) ip))"
      by (simp_all add: prod_eq_iff)
    with one_op_represents [OF Cons.prems(9) x(2) k]
    have "b = fst (one_op g x r)" "represents g (op_time x) (map_of (ag_records g1) ip) (snd (one_op g x r))" by simp_all
    with IH [of "snd (one_op g x r)"] Cons.prems(2,4) True d pol rep run_one_policy [OF g1(2)] show ?thesis
      by (simp split: prod.split)
  next
    case False
    have "represents g (op_time x) (map_of (ag_records g1) ip) r"
    proof -
      have "represents g (op_time x) (map_of (ag_records g1) ip) (map_of (ag_records g) ip)" using tr False Cons.prems(8) by auto
      moreover have "represents g (op_time x) (map_of (ag_records g) ip) r"
        using Cons.prems(9) unexpired_later [OF _ x(2)] by (auto simp: represents_def)
      ultimately show ?thesis by (auto simp: represents_def)
    qed
    with IH [of r] Cons.prems(2,4) False d pol rep run_one_policy [OF g1(2)] show ?thesis by simp
  qed
qed simp

text \<open>A failure when the guard may have to make room: locked addresses keep their records.\<close>

lemma locked_not_expired: "isLocked now r \<Longrightarrow> \<not> expired g now r"
  by (simp add: isLocked_def expired_def)

lemma fail_keeps_locks:
  assumes ok: "guard_ok g" "active g" "0 < now" and f: "RecordAuthFailure addr auth now g = (b, g1)"
  shows "guard_ok g1 \<and> policy g1 = policy g \<and>
    (\<forall>ip r. map_of (ag_records g) ip = Some r \<longrightarrow> isLocked now r \<longrightarrow> map_of (ag_records g1) ip = Some r)"
proof -
  define ip where "ip = authBruteforceClientIP addr"
  show ?thesis
  proof (cases "auth \<or> ip = [] \<or> ip \<in> fst ` set (ag_records g) \<or> length (ag_records g) < ag_maxTrackedIPs g")
    case True
    show ?thesis
    proof (cases "auth \<or> ip = []")
      case True
      with f ok show ?thesis by (cases auth) (auto simp: RecordAuthFailure_def ip_def Let_def)
    next
      case False
      with f have f': "RecordAuthFailure addr False now g = (b, g1)" by simp
      from False True have "ip \<in> fst ` set (ag_records g) \<or> length (ag_records g) < ag_maxTrackedIPs g" by blast
      note t = fail_tracked [OF ok ip_def [symmetric] _ this f']
      have "map_of (ag_records g1) x = Some r" if "map_of (ag_records g) x = Some r" "isLocked now r" for x r
        using t False that locked_not_expired [OF that(2), of g]
        by (cases "x = ip") (auto simp: locked_at_def unexpired_def)
      with t False show ?thesis by auto
    qed
  next
    case False
    then have none: "map_of (ag_records g) ip = None" by (simp add: map_of_eq_None_iff)
    have f': "(b, g1) = (case ensureCapacityLocked now g of (False, h) \<Rightarrow> (False, h) | (True, h) \<Rightarrow> countFailure ip new_record now h)"
      using f ok(2) False none by (simp add: RecordAuthFailure_def Let_def ip_def [symmetric])
    have kept: "map_of (ag_records h) x = Some r"
      if "drops p g h" "map_of (ag_records g) x = Some r" "p x r" for p h x r
      using drops_lookup [OF ok(1) that(1), of x] that(2,3) by simp
    have counted: ?thesis if h: "drops p g h" "length (ag_records h) < ag_maxTrackedIPs g" "ensureCapacityLocked now g = (True, h)"
      "\<And>x r. map_of (ag_records g) x = Some r \<Longrightarrow> isLocked now r \<Longrightarrow> p x r" for p h
    proof -
      note pol = policy_same [OF drops_policy [OF h(1)]]
      have cf: "countFailure ip new_record now h = (b, g1)" using f' h(3) by simp
      from countFailure_ok [OF drops_ok [OF ok(1) h(1)] ok(3) _ _ _ cf] h(2) ok(2) pol
      have c: "guard_ok g1" "policy g1 = policy h" "\<And>x. x \<noteq> ip \<Longrightarrow> map_of (ag_records g1) x = map_of (ag_records h) x"
        by (auto simp: new_record_def active_def)
      with drops_policy [OF h(1)] none kept [OF h(1) _ h(4)] show ?thesis by (metis option.distinct(1))
    qed
    from ok(1) show ?thesis
    proof (cases rule: capacity_cases [of _ now])
      case (room h)
      with counted [OF room(2,3,1)] locked_not_expired show ?thesis by blast
    next
      case (evicted h x)
      then show ?thesis using counted [OF evicted(3,4,1)] locked_not_expired by fastforce
    next
      case (full h)
      with f' have "g1 = h" by simp
      with full(2) drops_ok [OF ok(1) full(2)] drops_policy [OF full(2)] kept [OF full(2)] locked_not_expired show ?thesis by blast
    qed
  qed
qed

lemma do_guard_keeps:
  assumes ok: "guard_ok g" "active g" "0 < op_time x" and d: "do_guard x g = (b, g1)"
  shows "guard_ok g1 \<and> policy g1 = policy g \<and>
    (\<forall>ip r. map_of (ag_records g) ip = Some r \<longrightarrow> isLocked (op_time x) r \<longrightarrow> (\<forall>addr now. x = GSuccess addr now \<longrightarrow> ip \<noteq> op_ip x) \<longrightarrow>
       map_of (ag_records g1) ip = Some r)"
proof (cases x)
  case (GFail addr auth now)
  with fail_keeps_locks [OF ok(1,2), of now addr auth b g1] ok(3) d show ?thesis by simp
next
  case (GStats now)
  with stats_tracked [OF ok(1), of now] d locked_not_expired [of now _ g] show ?thesis by (auto simp: unexpired_def)
next
  case (GBefore addr auth now)
  show ?thesis
  proof (cases "auth \<or> authBruteforceClientIP addr = []")
    case True
    with GBefore d ok show ?thesis by (cases auth) (auto simp: BeforeAuth_def Let_def)
  next
    case False
    with before_tracked [OF ok(1,2) refl, of addr now b g1] GBefore d
    have t: "guard_ok g1" "policy g1 = policy g" "\<And>ip. ip \<noteq> op_ip x \<Longrightarrow> map_of (ag_records g1) ip = map_of (ag_records g) ip"
      "(b, map_of (ag_records g1) (op_ip x)) = one_op g x (map_of (ag_records g) (op_ip x))" by auto
    have "map_of (ag_records g1) ip = Some r" if "map_of (ag_records g) ip = Some r" "isLocked now r" for ip r
      using t(3) [of ip] t(4) that GBefore False by (cases "ip = op_ip x") (auto simp: locked_at_def)
    with t GBefore show ?thesis by simp
  qed
next
  case (GSuccess addr now)
  show ?thesis
  proof (cases "authBruteforceClientIP addr = []")
    case True
    with GSuccess d ok show ?thesis by (auto simp: RecordAuthSuccess_def Let_def)
  next
    case False
    with success_tracked [OF ok(1,2) refl, of addr] GSuccess d show ?thesis by auto
  qed
qed

section \<open>Properties\<close>

lemma new_guard:
  "guard_ok (newAuthBruteforceGuard e n d)" "ag_records (newAuthBruteforceGuard e n d) = []"
  "ag_maxTrackedIPs (newAuthBruteforceGuard e n d) = 4096" "active (newAuthBruteforceGuard e n d) \<longleftrightarrow> e \<and> 0 < n \<and> 0 < d"
  by (simp_all add: newAuthBruteforceGuard_def guard_ok_def active_def authBruteforceMaxTrackedIPs_def)

text \<open>
  C23. While at most 4096 addresses are seen, the guard treats each address on its own: what it answers
  about an address, whatever the others do in between, is what a machine on the record of this
  address alone answers to its own logins.
\<close>

theorem guard_per_address:
  assumes "0 < n" "0 < d" and "card (op_ip ` set xs - {[]}) \<le> 4096" and "\<forall>x \<in> set xs. 0 < op_time x" and "sorted (map op_time xs)"
    and "ip \<noteq> []"
  shows "map snd (filter (\<lambda>(i, b). i = ip) (run_guard xs (newAuthBruteforceGuard True n d))) =
    run_one (newAuthBruteforceGuard True n d) (filter (\<lambda>x. op_ip x = ip) xs) None"
  by (rule run_guard_one [where S = "op_ip ` set xs - {[]}" and t = 0])
    (use assms in \<open>auto simp: new_guard represents_def less_imp_le\<close>)

definition guard_demo :: "guard_op list" where
  "guard_demo = [GFail ''1.2.3.4:80'' False 100, GFail ''9.9.9.9:1'' False 110, GFail ''1.2.3.4:81'' False 120,
     GBefore ''9.9.9.9:2'' False 130, GBefore ''1.2.3.4:82'' False 140]"

lemma demo_ips: "authBruteforceClientIP ''1.2.3.4:80'' = ''1.2.3.4''" "authBruteforceClientIP ''1.2.3.4:81'' = ''1.2.3.4''"
  "authBruteforceClientIP ''1.2.3.4:82'' = ''1.2.3.4''" "authBruteforceClientIP ''9.9.9.9:1'' = ''9.9.9.9''"
  "authBruteforceClientIP ''9.9.9.9:2'' = ''9.9.9.9''"
  by code_simp+

theorem guard_per_address_witness:
  "map snd (filter (\<lambda>(i, b). i = ''1.2.3.4'') (run_guard guard_demo (newAuthBruteforceGuard True 2 50))) = [False, True, True]"
proof -
  let ?ips = "op_ip ` set guard_demo - {[]}"
  have "?ips \<subseteq> {''1.2.3.4'', ''9.9.9.9''}" by (auto simp: guard_demo_def demo_ips)
  then have "card ?ips \<le> card {''1.2.3.4'', ''9.9.9.9''}" by (intro card_mono) auto
  also have "\<dots> \<le> 4096" by simp
  finally have "card ?ips \<le> 4096" .
  from guard_per_address [OF _ _ this, of 2 50 "''1.2.3.4''"] show ?thesis
    by (simp add: guard_demo_def demo_ips failedAgain_def new_record_def newAuthBruteforceGuard_def isLocked_def Let_def time_Sub_def
        locked_at_def unexpired_def expired_def)
qed

lemma sub_short: "now - t < d \<Longrightarrow> 0 < d \<Longrightarrow> time_Sub now t < d"
  by (simp add: time_Sub_def)

lemma run_one_fails:
  assumes "0 < d" "sorted (t # ts)" "0 < t" "\<forall>i < length ts. ts ! i - (t # ts) ! i < d" "0 < k" "ts \<noteq> []"
    and g: "ag_lockDuration g = d" "ag_maxFailures g = k + int (length ts)"
  shows "run_one g (map (GFail addr False) ts @ xs) (Some \<lparr>fr_failures = k, fr_lastFailureAt = t, fr_lockedUntil = 0\<rparr>) =
    replicate (length ts - 1) False @
    True # run_one g xs (Some \<lparr>fr_failures = ag_maxFailures g, fr_lastFailureAt = last ts, fr_lockedUntil = last ts + d\<rparr>)"
  using assms
proof (induction ts arbitrary: t k)
  case (Cons u ts)
  have short: "\<not> d \<le> time_Sub u t" using Cons.prems(1,4) sub_short [of u t d] by (force simp: not_le)
  have op: "one_op g (GFail addr False u) (Some \<lparr>fr_failures = k, fr_lastFailureAt = t, fr_lockedUntil = 0\<rparr>) =
    (if ts = [] then (True, Some \<lparr>fr_failures = k + 1, fr_lastFailureAt = u, fr_lockedUntil = u + d\<rparr>)
     else (False, Some \<lparr>fr_failures = k + 1, fr_lastFailureAt = u, fr_lockedUntil = 0\<rparr>))"
    using short Cons.prems(7,8) by (simp add: locked_at_def isLocked_def unexpired_def expired_def failedAgain_def Let_def)
  show ?case
  proof (cases "ts = []")
    case True
    with op Cons.prems(8) show ?thesis by (simp add: algebra_simps)
  next
    case False
    have "\<forall>i < length ts. ts ! i - (u # ts) ! i < d" using Cons.prems(4) by auto
    with Cons.IH [of u "k + 1"] Cons.prems False have
      "run_one g (map (GFail addr False) ts @ xs) (Some \<lparr>fr_failures = k + 1, fr_lastFailureAt = u, fr_lockedUntil = 0\<rparr>) =
       replicate (length ts - 1) False @ True # run_one g xs (Some \<lparr>fr_failures = ag_maxFailures g, fr_lastFailureAt = last ts, fr_lockedUntil = last ts + d\<rparr>)"
      by simp
    with op False show ?thesis by (cases ts) simp_all
  qed
qed simp



text \<open>
  C25. A lock is not lost: whatever logins and failures from however many addresses come before it ends,
  unless a login of the locked address itself succeeds, the address stays locked, also when the
  guard has to drop other records because it tracks too many; and it never tracks more than its
  limit.
\<close>

theorem lock_is_kept:
  assumes "guard_ok g" and "active g" and "map_of (ag_records g) ip = Some r"
    and "\<forall>x \<in> set xs. 0 < op_time x \<and> isLocked (op_time x) r \<and> (\<forall>addr now. x = GSuccess addr now \<longrightarrow> authBruteforceClientIP addr \<noteq> ip)"
  shows "map_of (ag_records (fold (\<lambda>x g. snd (do_guard x g)) xs g)) ip = Some r \<and>
    length (ag_records (fold (\<lambda>x g. snd (do_guard x g)) xs g)) \<le> ag_maxTrackedIPs g"
  using assms
proof (induction xs arbitrary: g)
  case Nil
  then show ?case by (simp add: guard_ok_def)
next
  case (Cons x xs)
  have x: "0 < op_time x" "isLocked (op_time x) r" using Cons.prems(4) by auto
  obtain b g1 where d: "do_guard x g = (b, g1)" by fastforce
  from do_guard_keeps [OF Cons.prems(1,2) x(1) d] have k: "guard_ok g1" "policy g1 = policy g"
    "map_of (ag_records g1) ip = Some r" using Cons.prems(3,4) x(2) by auto
  from Cons.IH [OF k(1) _ k(3)] Cons.prems(2,4) policy_same [OF k(2)] d show ?case by simp
qed

theorem lock_is_kept_witness:
  "let r = \<lparr>fr_failures = 2, fr_lastFailureAt = 120, fr_lockedUntil = 170\<rparr>;
       g = \<lparr>ag_enabled = True, ag_maxFailures = 2, ag_lockDuration = 50, ag_maxTrackedIPs = 1, ag_records = [(''1.2.3.4'', r)],
            ag_failures = 2, ag_locks = 1, ag_unlocks = 0\<rparr>
   in map_of (ag_records (fold (\<lambda>x g. snd (do_guard x g)) [GFail ''9.9.9.9:1'' False 130, GSuccess ''9.9.9.9:1'' 140] g)) ''1.2.3.4'' = Some r"
proof -
  let ?r = "\<lparr>fr_failures = 2, fr_lastFailureAt = 120, fr_lockedUntil = 170\<rparr>"
  let ?g = "\<lparr>ag_enabled = True, ag_maxFailures = 2, ag_lockDuration = 50, ag_maxTrackedIPs = 1, ag_records = [(''1.2.3.4'', ?r)],
            ag_failures = 2, ag_locks = 1, ag_unlocks = 0\<rparr>"
  have "guard_ok ?g" "active ?g" by (simp_all add: guard_ok_def active_def)
  from lock_is_kept [OF this, of "''1.2.3.4''" ?r "[GFail ''9.9.9.9:1'' False 130, GSuccess ''9.9.9.9:1'' 140]"] show ?thesis
    by (simp add: demo_ips isLocked_def)
qed

end
