(* ===== verification/QPSLimiter.thy ===== *)
theory QPSLimiter
  imports Float64
begin

text \<open>
  The limit of the requests per second of a proxy, \<open>src/pkg/proxy/qps_limiter.go\<close>: a bucket of tokens that
  is refilled as time passes.  The tokens are \<open>float64\<close> numbers, computed with the roundings of the code;
  the arithmetic is that of amd64, where a product is rounded before it is added.  Times are in
  nanoseconds, the zero time is 0; the clock is an argument.
\<close>

section \<open>The limiter\<close>

record QPSLimitStats =
  qs_Revision :: int
  qs_Limit :: int
  qs_Enabled :: bool
  qs_Accepted :: int
  qs_Rejected :: int

record QPSLimiter =
  l_revision :: int
  l_limit :: int
  l_accepted :: int
  l_rejected :: int
  l_tokens :: rat
  l_lastRefill :: int

definition SetLimit :: "int \<Rightarrow> int \<Rightarrow> int \<Rightarrow> int \<Rightarrow> QPSLimiter \<Rightarrow> bool \<times> QPSLimiter" where
  "SetLimit clock revision limit now l =
     (if limit < 0 then (False, l)
      else
        let now = (if now = 0 then clock else now); oldLimit = l_limit l
        in (True, l\<lparr>l_revision := revision, l_limit := limit,
               l_tokens := (if limit \<le> 0 then 0
                            else if oldLimit \<le> 0 then fl (of_int limit)
                            else if l_tokens l > fl (of_int limit) then fl (of_int limit)
                            else l_tokens l),
               l_lastRefill := now\<rparr>))"

definition zero_limiter :: QPSLimiter where
  "zero_limiter = \<lparr>l_revision = 0, l_limit = 0, l_accepted = 0, l_rejected = 0, l_tokens = 0, l_lastRefill = 0\<rparr>"

text \<open>\<open>None\<close> is the panic on a negative limit.\<close>

definition newQPSLimiter :: "int \<Rightarrow> int \<Rightarrow> QPSLimiter option" where
  "newQPSLimiter clock limit =
     (case SetLimit clock 0 limit clock zero_limiter of (True, l) \<Rightarrow> Some l | (False, l) \<Rightarrow> None)"

definition refillLocked :: "int \<Rightarrow> int \<Rightarrow> QPSLimiter \<Rightarrow> QPSLimiter" where
  "refillLocked now limit l =
     (if l_lastRefill l = 0 then l\<lparr>l_lastRefill := now, l_tokens := fl (of_int limit)\<rparr>
      else if now < l_lastRefill l then l
      else
        let elapsed = Seconds (time_Sub now (l_lastRefill l))
        in if elapsed \<le> 0 then l
           else
             let tokens = fl (l_tokens l + fl (elapsed * fl (of_int limit))); capacity = fl (of_int limit)
             in l\<lparr>l_tokens := (if tokens > capacity then capacity else tokens), l_lastRefill := now\<rparr>)"

definition Allow :: "int \<Rightarrow> int \<Rightarrow> QPSLimiter \<Rightarrow> bool \<times> QPSLimiter" where
  "Allow clock now l =
     (if l_limit l \<le> 0 then (True, l)
      else
        let now = (if now = 0 then clock else now); l1 = refillLocked now (l_limit l) l
        in if l_tokens l1 \<ge> 1
           then (True, l1\<lparr>l_tokens := fl (l_tokens l1 - 1), l_accepted := l_accepted l1 + 1\<rparr>)
           else (False, l1\<lparr>l_rejected := l_rejected l1 + 1\<rparr>))"

definition Limiter_Stats :: "QPSLimiter \<Rightarrow> QPSLimitStats" where
  "Limiter_Stats l =
     \<lparr>qs_Revision = l_revision l, qs_Limit = l_limit l, qs_Enabled = l_limit l > 0, qs_Accepted = l_accepted l, qs_Rejected = l_rejected l\<rparr>"

definition ResetStats :: "QPSLimiter \<Rightarrow> QPSLimiter" where
  "ResetStats l = l\<lparr>l_accepted := 0, l_rejected := 0\<rparr>"

section \<open>The bucket\<close>

definition limiter_ok :: "QPSLimiter \<Rightarrow> bool" where
  "limiter_ok l \<longleftrightarrow> 0 < l_limit l \<and> l_limit l \<le> 2 ^ 53 \<and> 0 < l_lastRefill l \<and> 0 \<le> l_tokens l \<and> l_tokens l \<le> of_int (l_limit l)"

lemma limit_float: "limiter_ok l \<Longrightarrow> fl (of_int (l_limit l)) = of_int (l_limit l)"
  by (simp add: limiter_ok_def fl_int)

text \<open>What a refill adds at most, with all its roundings.\<close>

definition gain :: "int \<Rightarrow> rat \<Rightarrow> rat" where
  "gain d L = of_int d / 1000000000 * L * (1 + eps) ^ 4"

lemma gain_add: "gain (a - b) L + gain (b - c) L = gain (a - c) L"
  by (simp add: gain_def field_simps)

lemma gain_mono: "0 \<le> L \<Longrightarrow> a \<le> b \<Longrightarrow> gain a L \<le> gain b L"
  unfolding gain_def using eps_pos by (intro mult_right_mono divide_right_mono) auto

lemma gain_0 [simp]: "gain 0 L = 0"
  by (simp add: gain_def)

lemma refill_upper:
  assumes L: "1 \<le> L" and t: "0 \<le> t" "t \<le> L" and d: "0 \<le> d" "d < 2 ^ 63"
  shows "fl (t + fl (Seconds d * L)) \<le> t + gain d L + 2 * (L * eps)"
proof -
  define E :: rat where "E = of_int d / 1000000000"
  define s where "s = Seconds d"
  define x where "x = fl (s * L)"
  have s: "0 \<le> s" "s \<le> E * (1 + eps) ^ 2 + 3 * tiny" using Seconds_nonneg Seconds_upper d by (auto simp: s_def E_def)
  have e: "0 < eps" "1 + eps \<le> 2" "0 < tiny" "16 * tiny \<le> eps" using eps_pos tiny_pos tiny_eps by (auto simp: eps_def)
  have "x \<le> s * L * (1 + eps) + tiny" unfolding x_def using s L by (intro fl_upper mult_nonneg_nonneg) auto
  also have "s * L * (1 + eps) \<le> (E * (1 + eps) ^ 2 + 3 * tiny) * L * (1 + eps)"
    using s L e by (intro mult_right_mono) auto
  also have "\<dots> = E * L * (1 + eps) ^ 3 + 3 * tiny * (L * (1 + eps))" by (simp add: power2_eq_square power3_eq_cube algebra_simps)
  also have "3 * tiny * (L * (1 + eps)) \<le> 3 * tiny * (L * 2)" using L e by (intro mult_left_mono) auto
  finally have x: "x \<le> E * L * (1 + eps) ^ 3 + 6 * tiny * L + tiny" by simp
  have x0: "0 \<le> x" unfolding x_def using s L by (intro fl_nonneg) auto
  have "fl (t + x) \<le> (t + x) * (1 + eps) + tiny" using t x0 by (intro fl_upper) auto
  also have "\<dots> = t + t * eps + x * (1 + eps) + tiny" by (simp add: algebra_simps)
  also have "t * eps \<le> L * eps" using t e by (intro mult_right_mono) auto
  also have "x * (1 + eps) \<le> (E * L * (1 + eps) ^ 3 + 6 * tiny * L + tiny) * (1 + eps)" using x e by (intro mult_right_mono) auto
  also have "\<dots> = E * L * (1 + eps) ^ 4 + (6 * tiny * L + tiny) * (1 + eps)" by (simp add: power3_eq_cube power4_eq_xxxx algebra_simps)
  also have "(6 * tiny * L + tiny) * (1 + eps) \<le> (7 * (tiny * L)) * (1 + eps)"
    using L e by (intro mult_right_mono) (auto simp: mult_le_cancel_left1)
  also have "\<dots> = 7 * (tiny * L) + 7 * tiny * eps * L" by (simp add: algebra_simps)
  also have "7 * tiny * eps * L \<le> 1 / 2 * (tiny * L)"
    using L e by (simp add: eps_def)
  finally have "fl (t + x) \<le> t + E * L * (1 + eps) ^ 4 + L * eps + (15 / 2 * (tiny * L) + tiny)" by simp
  moreover have "15 / 2 * (tiny * L) + tiny \<le> 17 / 2 * (tiny * L)" using L e by (simp add: mult_le_cancel_left1)
  moreover have "17 / 2 * (tiny * L) \<le> L * eps" using mult_right_mono [of "17 / 2 * tiny" eps L] L e by (simp add: mult.commute)
  ultimately show ?thesis unfolding gain_def E_def [symmetric] s_def [symmetric] x_def [symmetric] by linarith
qed

lemma SetLimit_ok:
  assumes "0 < limit" "limit \<le> 2 ^ 53" "0 < now" and "limiter_ok l \<or> l_limit l \<le> 0"
  shows "limiter_ok (snd (SetLimit clock revision limit now l))"
  using assms by (auto simp: SetLimit_def limiter_ok_def fl_int Let_def)

lemma refill_ok:
  assumes l: "limiter_ok l" and now: "0 < now" and r: "l1 = refillLocked now (l_limit l) l"
  shows "limiter_ok l1 \<and> l_limit l1 = l_limit l \<and> l_accepted l1 = l_accepted l \<and> l_lastRefill l \<le> l_lastRefill l1 \<and>
    l_lastRefill l1 \<le> max now (l_lastRefill l) \<and>
    l_tokens l1 \<le> l_tokens l + gain (l_lastRefill l1 - l_lastRefill l) (of_int (l_limit l)) + 2 * (of_int (l_limit l) * eps)"
proof -
  let ?L = "of_int (l_limit l) :: rat"
  define d where "d = time_Sub now (l_lastRefill l)"
  have L: "1 \<le> ?L" "fl ?L = ?L" using l limit_float [OF l] by (auto simp: limiter_ok_def)
  have t: "0 \<le> l_tokens l" "l_tokens l \<le> ?L" "l_lastRefill l \<noteq> 0" using l by (auto simp: limiter_ok_def)
  show ?thesis
  proof (cases "now < l_lastRefill l \<or> Seconds d \<le> 0")
    case True
    then have "l1 = l" using r t by (auto simp: refillLocked_def d_def Let_def)
    then show ?thesis using l L eps_pos by simp
  next
    case False
    define x where "x = fl (l_tokens l + fl (Seconds d * ?L))"
    have d: "0 \<le> d" "d < 2 ^ 63" "d \<le> now - l_lastRefill l" using False by (auto simp: d_def time_Sub_def)
    have l1: "l1 = l\<lparr>l_tokens := min x ?L, l_lastRefill := now\<rparr>"
      using r False t L by (simp add: refillLocked_def d_def [symmetric] Let_def x_def min_def)
    have "0 \<le> x" unfolding x_def using t L Seconds_nonneg [OF d(1)] by (intro fl_nonneg add_nonneg_nonneg mult_nonneg_nonneg) auto
    have "x \<le> l_tokens l + gain d ?L + 2 * (?L * eps)" unfolding x_def by (rule refill_upper [OF L(1) t(1,2) d(1,2)])
    moreover have "gain d ?L \<le> gain (now - l_lastRefill l) ?L" using L(1) d(3) by (intro gain_mono) auto
    ultimately have "min x ?L \<le> l_tokens l + gain (now - l_lastRefill l) ?L + 2 * (?L * eps)" by linarith
    with l1 \<open>0 \<le> x\<close> l now False show ?thesis by (auto simp: limiter_ok_def)
  qed
qed

lemma Allow_ok:
  assumes l: "limiter_ok l" and now: "0 < now" and a: "Allow clock now l = (b, l1)"
  shows "limiter_ok l1 \<and> l_limit l1 = l_limit l \<and> l_lastRefill l \<le> l_lastRefill l1 \<and> l_lastRefill l1 \<le> max now (l_lastRefill l) \<and>
    l_tokens l1 + of_bool b \<le> l_tokens l + gain (l_lastRefill l1 - l_lastRefill l) (of_int (l_limit l)) + 4 * (of_int (l_limit l) * eps)"
proof -
  let ?L = "of_int (l_limit l) :: rat"
  define l0 where "l0 = refillLocked now (l_limit l) l"
  note r = refill_ok [OF l now l0_def]
  have L: "1 \<le> ?L" using l by (simp add: limiter_ok_def)
  show ?thesis
  proof (cases "l_tokens l0 \<ge> 1")
    case True
    define x where "x = fl (l_tokens l0 - 1)"
    have l1: "b = True" "l1 = l0\<lparr>l_tokens := x, l_accepted := l_accepted l0 + 1\<rparr>"
      using a l now True by (simp_all add: Allow_def l0_def [symmetric] Let_def x_def limiter_ok_def)
    have "x \<le> (l_tokens l0 - 1) * (1 + eps) + tiny" unfolding x_def using True by (intro fl_upper) simp
    also have "\<dots> = l_tokens l0 - 1 + (l_tokens l0 - 1) * eps + tiny" by (simp add: algebra_simps)
    also have "(l_tokens l0 - 1) * eps \<le> ?L * eps" using r eps_pos by (intro mult_right_mono) (auto simp: limiter_ok_def)
    also have "tiny \<le> ?L * eps"
    proof -
      have "tiny \<le> eps" using tiny_eps tiny_pos by linarith
      also have "eps \<le> ?L * eps" using L eps_pos by (simp add: mult_le_cancel_right1)
      finally show ?thesis .
    qed
    finally have x: "x + 1 \<le> l_tokens l0 + 2 * (?L * eps)" by linarith
    have "x \<le> fl ?L" unfolding x_def using True r by (intro fl_mono) (auto simp: limiter_ok_def)
    then have "0 \<le> x" "x \<le> ?L" using True limit_float [OF l] fl_nonneg [of "l_tokens l0 - 1"] by (auto simp: x_def)
    moreover have "x + 1 \<le> l_tokens l + gain (l_lastRefill l0 - l_lastRefill l) ?L + 4 * (?L * eps)" using r x by linarith
    ultimately show ?thesis using l1 r by (auto simp: limiter_ok_def)
  next
    case False
    then have l1: "b = False" "l1 = l0\<lparr>l_rejected := l_rejected l0 + 1\<rparr>"
      using a l now by (simp_all add: Allow_def l0_def [symmetric] Let_def limiter_ok_def)
    have "0 \<le> ?L * eps" using L eps_pos by (intro mult_nonneg_nonneg) auto
    then have "l_tokens l0 \<le> l_tokens l + gain (l_lastRefill l0 - l_lastRefill l) ?L + 4 * (?L * eps)" using r by linarith
    with l1 r show ?thesis by (auto simp: limiter_ok_def)
  qed
qed

section \<open>Properties\<close>

fun run_allow :: "int list \<Rightarrow> QPSLimiter \<Rightarrow> bool list \<times> QPSLimiter" where
  "run_allow [] l = ([], l)"
| "run_allow (t # ts) l = (case Allow t t l of (b, l1) \<Rightarrow> (case run_allow ts l1 of (bs, l2) \<Rightarrow> (b # bs, l2)))"

definition accepted :: "bool list \<Rightarrow> rat" where
  "accepted bs = of_nat (length (filter id bs))"

lemma run_allow_upper:
  assumes "limiter_ok l" and "\<forall>t \<in> set ts. 0 < t \<and> t \<le> now" and "l_lastRefill l \<le> now" and "run_allow ts l = (bs, l1)"
  shows "limiter_ok l1 \<and> l_limit l1 = l_limit l \<and> l_lastRefill l \<le> l_lastRefill l1 \<and> l_lastRefill l1 \<le> now \<and>
    l_tokens l1 + accepted bs \<le> l_tokens l + gain (l_lastRefill l1 - l_lastRefill l) (of_int (l_limit l)) +
      of_nat (length ts) * (4 * (of_int (l_limit l) * eps))"
  using assms
proof (induction ts arbitrary: l bs)
  case Nil
  then show ?case by (simp add: accepted_def)
next
  case (Cons t ts)
  obtain b l0 where a: "Allow t t l = (b, l0)" by fastforce
  obtain bs' where bs: "run_allow ts l0 = (bs', l1)" "bs = b # bs'" using Cons.prems(4) a by (auto split: prod.splits)
  have t: "0 < t" "t \<le> now" using Cons.prems(2) by auto
  note l0 = Allow_ok [OF Cons.prems(1) t(1) a]
  have "l_lastRefill l0 \<le> now" using l0 t Cons.prems(3) by auto
  with Cons.IH [OF _ _ _ bs(1)] l0 Cons.prems(2)
  have IH: "limiter_ok l1" "l_limit l1 = l_limit l" "l_lastRefill l0 \<le> l_lastRefill l1" "l_lastRefill l1 \<le> now"
    "l_tokens l1 + accepted bs' \<le> l_tokens l0 + gain (l_lastRefill l1 - l_lastRefill l0) (of_int (l_limit l)) +
      of_nat (length ts) * (4 * (of_int (l_limit l) * eps))" by auto
  have "accepted bs = of_bool b + accepted bs'" by (simp add: bs(2) accepted_def)
  moreover have "of_nat (length (t # ts)) * (4 * (of_int (l_limit l) * eps)) =
      of_nat (length ts) * (4 * (of_int (l_limit l) * eps)) + 4 * (of_int (l_limit l) * eps)" by (simp add: distrib_right)
  ultimately have "l_tokens l1 + accepted bs \<le> l_tokens l + gain (l_lastRefill l1 - l_lastRefill l) (of_int (l_limit l)) +
      of_nat (length (t # ts)) * (4 * (of_int (l_limit l) * eps))"
    using IH(5) l0 gain_add [of "l_lastRefill l1" "l_lastRefill l0" "of_int (l_limit l)" "l_lastRefill l"] by linarith
  with IH l0 show ?case by auto
qed

text \<open>
  C26. The limit holds: in a window of \<open>w\<close> nanoseconds a proxy accepts at most the limit for the burst, plus
  the limit for every second of the window, up to the rounding of the floating point numbers; the
  bound on the rounding, \<open>4 * n * 2^-53\<close> times the limit for \<open>n\<close> requests, is below one request as long
  as \<open>n\<close> times the limit is below \<open>2^51\<close>.
\<close>

theorem rate_is_bounded:
  assumes "limiter_ok l" and "\<forall>t \<in> set ts. 0 < t \<and> t \<le> l_lastRefill l + w" and "0 \<le> w" and "run_allow ts l = (bs, l1)"
  shows "accepted bs \<le> of_int (l_limit l) * (1 + of_int w / 1000000000 * (1 + 5 * eps) + 4 * of_nat (length ts) * eps)"
proof -
  let ?L = "of_int (l_limit l) :: rat" and ?w = "of_int w / 1000000000 :: rat"
  from run_allow_upper [OF assms(1,2) _ assms(4)] assms(3)
  have r: "limiter_ok l1" "l_lastRefill l1 - l_lastRefill l \<le> w"
    "l_tokens l1 + accepted bs \<le> l_tokens l + gain (l_lastRefill l1 - l_lastRefill l) ?L + of_nat (length ts) * (4 * (?L * eps))" by auto
  have L: "0 < ?L" using assms(1) by (simp add: limiter_ok_def)
  have "gain (l_lastRefill l1 - l_lastRefill l) ?L \<le> gain w ?L" using L r(2) by (intro gain_mono) auto
  also have "\<dots> \<le> ?w * ?L * (1 + 5 * eps)"
    unfolding gain_def using L assms(3) by (intro mult_left_mono mult_nonneg_nonneg) (auto simp: eps_def power4_eq_xxxx)
  finally have "accepted bs \<le> ?L + ?w * ?L * (1 + 5 * eps) + of_nat (length ts) * (4 * (?L * eps))"
    using r(1,3) assms(1) by (auto simp: limiter_ok_def)
  then show ?thesis by (simp add: algebra_simps)
qed

text \<open>A limiter of three requests per second.\<close>

definition limiter_demo :: QPSLimiter where
  "limiter_demo = \<lparr>l_revision = 1, l_limit = 3, l_accepted = 0, l_rejected = 0, l_tokens = 3, l_lastRefill = 1000000000\<rparr>"

theorem rate_is_bounded_witness:
  "accepted (fst (run_allow [1000000000, 1000000000, 1000000001, 1500000000] limiter_demo)) \<le> 6"
proof -
  let ?ts = "[1000000000, 1000000000, 1000000001, 1500000000] :: int list"
  obtain bs l1 where r: "run_allow ?ts limiter_demo = (bs, l1)" by fastforce
  have "limiter_ok limiter_demo" by (simp add: limiter_ok_def limiter_demo_def)
  from rate_is_bounded [OF this _ _ r, of 500000000] have "accepted bs \<le> 3 * (1 + 1 / 2 * (1 + 5 * eps) + 16 * eps)"
    by (simp add: limiter_demo_def)
  also have "\<dots> \<le> 6" by (simp add: eps_def)
  finally show ?thesis using r by simp
qed

lemma refill_same: "l_lastRefill l \<noteq> 0 \<Longrightarrow> refillLocked (l_lastRefill l) limit l = l"
  by (simp add: refillLocked_def time_Sub_def Seconds_def Let_def)

lemma run_tokens:
  assumes "0 < l_limit l" "l_lastRefill l = now" "0 < now" "l_tokens l = of_nat k" "k \<le> 2 ^ 53"
  shows "fst (run_allow (replicate (k + m) now) l) = replicate k True @ replicate m False"
  using assms
proof (induction k arbitrary: l)
  case 0
  then show ?case
  proof (induction m arbitrary: l)
    case (Suc m)
    have "Allow now now l = (False, l\<lparr>l_rejected := l_rejected l + 1\<rparr>)"
      using Suc.prems refill_same [of l] by (simp add: Allow_def Let_def)
    with Suc.IH [of "l\<lparr>l_rejected := l_rejected l + 1\<rparr>"] Suc.prems show ?case by (simp add: case_prod_beta)
  qed simp
next
  case (Suc k)
  define l1 where "l1 = l\<lparr>l_tokens := of_nat k, l_accepted := l_accepted l + 1\<rparr>"
  have "fl (of_nat k) = of_nat k" using fl_int [of "int k"] Suc.prems(5) by simp
  then have "Allow now now l = (True, l1)"
    using Suc.prems refill_same [of l] by (simp add: Allow_def Let_def l1_def)
  moreover have "fst (run_allow (replicate (k + m) now) l1) = replicate k True @ replicate m False"
    by (rule Suc.IH) (use Suc.prems in \<open>simp_all add: l1_def\<close>)
  ultimately show ?case by (simp add: case_prod_beta)
qed

text \<open>
  C27. The limit is available: when a second has passed since the last request, as many requests as the
  limit says are accepted at once, and the next ones are refused.
\<close>

theorem full_burst_after_a_second:
  assumes "limiter_ok l" and "l_lastRefill l + 1000000000 \<le> now" and "now < l_lastRefill l + 2 ^ 63"
  shows "fst (run_allow (replicate (nat (l_limit l) + m) now) l) = replicate (nat (l_limit l)) True @ replicate m False"
proof -
  let ?L = "of_int (l_limit l) :: rat"
  define d where "d = time_Sub now (l_lastRefill l)"
  have l: "0 < l_limit l" "l_limit l \<le> 2 ^ 53" "0 < l_lastRefill l" "0 \<le> l_tokens l" "fl ?L = ?L"
    using assms(1) limit_float by (auto simp: limiter_ok_def)
  have d: "1000000000 \<le> d" "d < 2 ^ 63" using assms(2,3) by (auto simp: d_def time_Sub_def)
  have s: "1 \<le> Seconds d" using Seconds_one [OF d] .
  have "?L \<le> Seconds d * ?L" using s l by (simp add: mult_le_cancel_right1)
  then have "?L \<le> fl (Seconds d * ?L)" using fl_mono [of ?L "Seconds d * ?L"] l by simp
  then have full: "?L \<le> fl (l_tokens l + fl (Seconds d * ?L))" using fl_mono [of ?L "l_tokens l + fl (Seconds d * ?L)"] l by simp
  define l0 where "l0 = refillLocked now (l_limit l) l"
  have l0: "l0 = l\<lparr>l_tokens := ?L, l_lastRefill := now\<rparr>"
    using full s l assms(2) by (simp add: l0_def refillLocked_def Let_def d_def [symmetric])
  have same: "fst (run_allow (replicate n now) l) = fst (run_allow (replicate n now) l0)" if "0 < n" for n
  proof -
    have "refillLocked now (l_limit l0) l0 = l0" using refill_same [of l0 "l_limit l0"] l0 l assms(2) by simp
    then have "Allow now now l0 = Allow now now l" using l0 l by (simp add: Allow_def Let_def l0_def [symmetric])
    then show ?thesis using that by (cases n) simp_all
  qed
  have "fst (run_allow (replicate (nat (l_limit l) + m) now) l0) = replicate (nat (l_limit l)) True @ replicate m False"
    by (rule run_tokens) (use l l0 assms(2) in auto)
  with same show ?thesis using l(1) by simp
qed

theorem full_burst_after_a_second_witness:
  "fst (run_allow (replicate 5 2000000000) (limiter_demo\<lparr>l_tokens := 0\<rparr>)) = [True, True, True, False, False]"
proof -
  have "limiter_ok (limiter_demo\<lparr>l_tokens := 0\<rparr>)" by (simp add: limiter_ok_def limiter_demo_def)
  from full_burst_after_a_second [OF this, of 2000000000 2] show ?thesis
    by (simp add: limiter_demo_def numeral_eq_Suc)
qed

end
