(* ===== verification/ProxyConfig.thy ===== *)
theory ProxyConfig
  imports HotKeyCache AuthGuard QPSLimiter
begin

text \<open>
  The configuration of a proxy, \<open>Config\<close> and \<open>Validate\<close> of \<open>src/pkg/proxy/config.go\<close>, and the credentials of
  \<open>src/pkg/utils/redis/auth.go\<close>.  The record has the fields that are checked or read by the modelled parts.
  A duration is a number of nanoseconds, a size a number of bytes, both 64 bits wide.
\<close>

section \<open>Credentials\<close>

record RedisAuthIdentity =
  ai_Username :: string
  ai_Password :: bytes

definition PasswordAuthIdentity :: "bytes \<Rightarrow> RedisAuthIdentity" where
  "PasswordAuthIdentity password = \<lparr>ai_Username = [], ai_Password = password\<rparr>"

definition AuthIdentity_Validate :: "RedisAuthIdentity \<Rightarrow> bool" where
  "AuthIdentity_Validate a \<longleftrightarrow> \<not> (ai_Username a \<noteq> [] \<and> ai_Password a = [])"

definition HasAuth :: "RedisAuthIdentity \<Rightarrow> bool" where
  "HasAuth a \<longleftrightarrow> ai_Password a \<noteq> []"

definition AuthArgs :: "RedisAuthIdentity \<Rightarrow> bytes list" where
  "AuthArgs a =
     (if ai_Username a \<noteq> [] then [ai_Username a, ai_Password a]
      else if ai_Password a \<noteq> [] then [ai_Password a]
      else [])"

section \<open>The configuration\<close>

record Config =
  cf_ProtoType :: string
  cf_ProxyAddr :: string
  cf_AdminAddr :: string
  cf_JodisName :: string
  cf_JodisAddr :: string
  cf_JodisTimeout :: int
  cf_ClusterNodesCompat :: string
  cf_ClusterNodesRefreshPeriod :: int
  cf_ProductName :: string
  cf_ProductAuth :: bytes
  cf_SessionAuth :: bytes
  cf_SessionAuthBruteforceEnabled :: bool
  cf_SessionAuthBruteforceMaxFailures :: int
  cf_SessionAuthBruteforceLockDuration :: int
  cf_CodisACLEnabled :: bool
  cf_BackendAuthUsername :: string
  cf_BackendAuthPassword :: bytes
  cf_ProxyMaxClients :: int
  cf_ProxyQPSLimit :: int
  cf_ProxyMaxOffheapBytes :: int
  cf_ProxyHeapPlaceholder :: int
  cf_BackendPingPeriod :: int
  cf_BackendRecvBufsize :: int
  cf_BackendRecvTimeout :: int
  cf_BackendSendBufsize :: int
  cf_BackendSendTimeout :: int
  cf_BackendMaxPipeline :: int
  cf_BackendPrimaryOnly :: bool
  cf_BackendPrimaryParallel :: int
  cf_BackendReplicaParallel :: int
  cf_BackendKeepAlivePeriod :: int
  cf_BackendNumberDatabases :: int
  cf_SessionRecvBufsize :: int
  cf_SessionRecvTimeout :: int
  cf_SessionSendBufsize :: int
  cf_SessionSendTimeout :: int
  cf_SessionMaxPipeline :: int
  cf_SessionKeepAlivePeriod :: int
  cf_SessionBreakOnFailure :: bool
  cf_HotKeyCacheEnabled :: bool
  cf_HotKeyCacheTTL :: int
  cf_HotKeyCacheMaxEntries :: int
  cf_HotKeyCacheMaxValueSize :: int
  cf_HotKeyCacheKeys :: "bytes list"
  cf_HotKeyCacheBroadcastEnabled :: bool
  cf_HotKeyCacheBroadcastTimeout :: int
  cf_HotKeyCacheBroadcastQueueSize :: int
  cf_MetricsReportPeriod :: int
  cf_MetricsReportInfluxdbPeriod :: int
  cf_MetricsReportStatsdPeriod :: int

definition BackendAuthIdentity :: "Config \<Rightarrow> RedisAuthIdentity" where
  "BackendAuthIdentity c =
     (if cf_BackendAuthUsername c \<noteq> [] \<or> cf_BackendAuthPassword c \<noteq> []
      then \<lparr>ai_Username = cf_BackendAuthUsername c, ai_Password = cf_BackendAuthPassword c\<rparr>
      else PasswordAuthIdentity (cf_ProductAuth c))"

text \<open>The check that fails first decides the error.\<close>

definition firstError :: "(bool \<times> string) list \<Rightarrow> string option" where
  "firstError checks = map_option snd (find fst checks)"

definition bad_size :: "int \<Rightarrow> bool" where
  "bad_size d \<longleftrightarrow> d < 0 \<or> d > 2 ^ 63 - 1"

definition checkIdentity :: "Config \<Rightarrow> (bool \<times> string) list" where
  "checkIdentity c =
     [(cf_ProtoType c = [], ''invalid proto_type''),
      (cf_ProxyAddr c = [], ''invalid proxy_addr''),
      (cf_AdminAddr c = [], ''invalid admin_addr''),
      (cf_JodisName c \<noteq> [] \<and> cf_JodisAddr c = [], ''invalid jodis_addr''),
      (cf_JodisName c \<noteq> [] \<and> cf_JodisTimeout c < 0, ''invalid jodis_timeout'')]"

definition checkCluster :: "Config \<Rightarrow> (bool \<times> string) list" where
  "checkCluster c =
     [(cf_ClusterNodesCompat c \<notin> {''disabled'', ''self'', ''all''}, ''invalid cluster_nodes_compat''),
      (cf_ClusterNodesRefreshPeriod c < 0, ''invalid cluster_nodes_refresh_period''),
      (cf_ClusterNodesCompat c = ''all'' \<and> (cf_JodisName c = [] \<or> cf_JodisAddr c = []),
        ''invalid cluster_nodes_compat, all mode requires jodis_name and jodis_addr''),
      (cf_ClusterNodesCompat c = ''all'' \<and> cf_ClusterNodesRefreshPeriod c \<le> 0, ''invalid cluster_nodes_refresh_period'')]"

definition checkProxy :: "Config \<Rightarrow> (bool \<times> string) list" where
  "checkProxy c =
     [(cf_ProductName c = [], ''invalid product_name''),
      (cf_BackendAuthUsername c \<noteq> [] \<and> cf_BackendAuthPassword c = [], ''invalid backend_auth_password''),
      (cf_SessionAuthBruteforceEnabled c \<and> cf_SessionAuthBruteforceMaxFailures c \<le> 0, ''invalid session_auth_bruteforce_max_failures''),
      (cf_SessionAuthBruteforceEnabled c \<and> cf_SessionAuthBruteforceLockDuration c \<le> 0, ''invalid session_auth_bruteforce_lock_duration''),
      (cf_ProxyMaxClients c < 0, ''invalid proxy_max_clients''),
      (cf_ProxyQPSLimit c < 0, ''invalid proxy_qps_limit''),
      (bad_size (cf_ProxyMaxOffheapBytes c), ''invalid proxy_max_offheap_size''),
      (bad_size (cf_ProxyHeapPlaceholder c), ''invalid proxy_heap_placeholder'')]"

definition checkBackend :: "Config \<Rightarrow> (bool \<times> string) list" where
  "checkBackend c =
     [(cf_BackendPingPeriod c < 0, ''invalid backend_ping_period''),
      (bad_size (cf_BackendRecvBufsize c), ''invalid backend_recv_bufsize''),
      (cf_BackendRecvTimeout c < 0, ''invalid backend_recv_timeout''),
      (bad_size (cf_BackendSendBufsize c), ''invalid backend_send_bufsize''),
      (cf_BackendSendTimeout c < 0, ''invalid backend_send_timeout''),
      (cf_BackendMaxPipeline c < 0, ''invalid backend_max_pipeline''),
      (cf_BackendPrimaryParallel c < 0, ''invalid backend_primary_parallel''),
      (cf_BackendReplicaParallel c < 0, ''invalid backend_replica_parallel''),
      (cf_BackendKeepAlivePeriod c < 0, ''invalid backend_keepalive_period''),
      (cf_BackendNumberDatabases c < 1, ''invalid backend_number_databases'')]"

definition checkSession :: "Config \<Rightarrow> (bool \<times> string) list" where
  "checkSession c =
     [(bad_size (cf_SessionRecvBufsize c), ''invalid session_recv_bufsize''),
      (cf_SessionRecvTimeout c < 0, ''invalid session_recv_timeout''),
      (bad_size (cf_SessionSendBufsize c), ''invalid session_send_bufsize''),
      (cf_SessionSendTimeout c < 0, ''invalid session_send_timeout''),
      (cf_SessionMaxPipeline c < 0, ''invalid session_max_pipeline''),
      (cf_SessionKeepAlivePeriod c < 0, ''invalid session_keepalive_period'')]"

definition checkHotKeys :: "Config \<Rightarrow> (bool \<times> string) list" where
  "checkHotKeys c =
     [(cf_HotKeyCacheTTL c < 0, ''invalid hot_key_cache_ttl''),
      (cf_HotKeyCacheMaxEntries c < 0, ''invalid hot_key_cache_max_entries''),
      (bad_size (cf_HotKeyCacheMaxValueSize c), ''invalid hot_key_cache_max_value_size''),
      (cf_HotKeyCacheEnabled c \<and> cf_HotKeyCacheTTL c \<le> 0, ''invalid hot_key_cache_ttl''),
      (cf_HotKeyCacheEnabled c \<and> cf_HotKeyCacheMaxEntries c = 0, ''invalid hot_key_cache_max_entries''),
      (cf_HotKeyCacheBroadcastTimeout c < 0, ''invalid hot_key_cache_broadcast_timeout''),
      (cf_HotKeyCacheBroadcastQueueSize c < 0, ''invalid hot_key_cache_broadcast_queue_size''),
      (cf_HotKeyCacheBroadcastEnabled c \<and> cf_HotKeyCacheBroadcastTimeout c \<le> 0, ''invalid hot_key_cache_broadcast_timeout''),
      (cf_HotKeyCacheBroadcastEnabled c \<and> cf_HotKeyCacheBroadcastQueueSize c = 0, ''invalid hot_key_cache_broadcast_queue_size'')]"

definition checkMetrics :: "Config \<Rightarrow> (bool \<times> string) list" where
  "checkMetrics c =
     [(cf_MetricsReportPeriod c < 0, ''invalid metrics_report_period''),
      (cf_MetricsReportInfluxdbPeriod c < 0, ''invalid metrics_report_influxdb_period''),
      (cf_MetricsReportStatsdPeriod c < 0, ''invalid metrics_report_statsd_period'')]"

definition Config_Validate :: "Config \<Rightarrow> string option \<times> Config" where
  "Config_Validate c =
     (case firstError (checkIdentity c) of
        Some e \<Rightarrow> (Some e, c)
      | None \<Rightarrow>
          let c1 = (if cf_ClusterNodesCompat c = [] then c\<lparr>cf_ClusterNodesCompat := ''disabled''\<rparr> else c)
          in (firstError (checkCluster c1 @ checkProxy c1 @ checkBackend c1 @ checkSession c1 @ checkHotKeys c1 @ checkMetrics c1), c1))"

section \<open>What a validated configuration gives\<close>

lemma firstError_None: "firstError checks = None \<longleftrightarrow> (\<forall>(b, e) \<in> set checks. \<not> b)"
  by (auto simp: firstError_def find_None_iff)

definition config_limiter :: "int \<Rightarrow> Config \<Rightarrow> QPSLimiter option" where
  "config_limiter clock c = newQPSLimiter clock (cf_ProxyQPSLimit c)"

definition config_guard :: "Config \<Rightarrow> AuthBruteforceGuard" where
  "config_guard c =
     newAuthBruteforceGuard (cf_SessionAuthBruteforceEnabled c) (cf_SessionAuthBruteforceMaxFailures c) (cf_SessionAuthBruteforceLockDuration c)"

definition config_cache :: "Config \<Rightarrow> HotKeyCache" where
  "config_cache c =
     newHotKeyCache (cf_HotKeyCacheEnabled c) (cf_HotKeyCacheTTL c) (cf_HotKeyCacheMaxEntries c) (cf_HotKeyCacheMaxValueSize c) (cf_HotKeyCacheKeys c)"

lemma validated_cases:
  assumes "Config_Validate c0 = (None, c)"
  shows "0 \<le> cf_ProxyQPSLimit c" "1 \<le> cf_BackendNumberDatabases c" "0 \<le> cf_ProxyMaxClients c"
    "cf_SessionAuthBruteforceEnabled c \<Longrightarrow> 0 < cf_SessionAuthBruteforceMaxFailures c \<and> 0 < cf_SessionAuthBruteforceLockDuration c"
    "cf_HotKeyCacheEnabled c \<Longrightarrow> 0 < cf_HotKeyCacheTTL c \<and> 0 < cf_HotKeyCacheMaxEntries c"
    "AuthIdentity_Validate (BackendAuthIdentity c)"
proof -
  have v: "firstError (checkProxy c) = None" "firstError (checkBackend c) = None" "firstError (checkHotKeys c) = None"
    using assms by (auto simp: Config_Validate_def Let_def firstError_None split: option.splits if_splits)
  note facts = v [unfolded firstError_None checkProxy_def checkBackend_def checkHotKeys_def, simplified]
  show "0 \<le> cf_ProxyQPSLimit c" "1 \<le> cf_BackendNumberDatabases c" "0 \<le> cf_ProxyMaxClients c" using facts by auto
  show "cf_SessionAuthBruteforceEnabled c \<Longrightarrow> 0 < cf_SessionAuthBruteforceMaxFailures c \<and> 0 < cf_SessionAuthBruteforceLockDuration c"
    "cf_HotKeyCacheEnabled c \<Longrightarrow> 0 < cf_HotKeyCacheTTL c \<and> 0 < cf_HotKeyCacheMaxEntries c" using facts by auto
  show "AuthIdentity_Validate (BackendAuthIdentity c)"
    using facts by (auto simp: AuthIdentity_Validate_def BackendAuthIdentity_def PasswordAuthIdentity_def)
qed

end
