(* ===== verification/RequestChan.thy ===== *)
theory RequestChan
  imports Prelude
begin

text \<open>
  The queue between the reader and the writer of a session, and the delays of a reconnecting backend:
  \<open>RequestChan\<close> of \<open>src/pkg/proxy/request.go\<close>, \<open>DelayExp2\<close> of \<open>src/pkg/proxy/delay.go\<close>, and \<open>src/pkg/utils/math2\<close>.
  The queue is the code's: a slice that starts in a fixed buffer, moves to an array of its own when it
  outgrows it, and goes back to the start of the buffer when a consumer finds it empty.  It is proved
  to be a FIFO queue.  The consumers that wait for a request are counted as the condition variable
  counts them, and no wakeup is lost.
\<close>

section \<open>The contract of a queue\<close>

locale fifo =
  fixes content :: "'q \<Rightarrow> 'a list" and ok :: "'q \<Rightarrow> bool" and
    push :: "'a \<Rightarrow> 'q \<Rightarrow> 'q" and pop :: "'q \<Rightarrow> ('a \<times> 'q) option"
  assumes ok_push: "ok q \<Longrightarrow> ok (push x q)"
    and content_push: "ok q \<Longrightarrow> content (push x q) = content q @ [x]"
    and pop_empty: "ok q \<Longrightarrow> pop q = None \<longleftrightarrow> content q = []"
    and pop_first: "ok q \<Longrightarrow> pop q = Some (x, q1) \<Longrightarrow> content q = x # content q1 \<and> ok q1"
begin

lemma push_all: "ok q \<Longrightarrow> ok (fold push xs q) \<and> content (fold push xs q) = content q @ xs"
  by (induction xs arbitrary: q) (auto simp: ok_push content_push)

lemma pop_push_all:
  assumes "ok q" and "content q = []"
  shows "\<exists>q1. pop (fold push (x # xs) q) = Some (x, q1) \<and> ok q1 \<and> content q1 = xs"
proof -
  from push_all [OF assms(1), of "x # xs"] assms(2)
  have q: "ok (fold push (x # xs) q)" "content (fold push (x # xs) q) = x # xs" by auto
  with pop_empty [OF q(1)] obtain y q1 where p: "pop (fold push (x # xs) q) = Some (y, q1)" by fastforce
  from pop_first [OF q(1) p] q(2) p show ?thesis by auto
qed

end

section \<open>The queue of the code\<close>

text \<open>
  The slice \<open>c.data\<close>: in the array of \<open>c.buff\<close>, or in an array of its own; with its offset and its length.
  Its capacity reaches to the end of the array.
\<close>

datatype 'r slice = InBuff nat nat | Own "'r option list" nat nat

record 'r RequestChan =
  rc_buff :: "'r option list"
  rc_data :: "'r slice"
  rc_waits :: nat
  rc_closed :: bool

definition DefaultRequestChanBuffer :: int where
  "DefaultRequestChanBuffer = 128"

definition NewRequestChanBuffer :: "int \<Rightarrow> 'r RequestChan" where
  "NewRequestChanBuffer n =
     (let n = (if n \<le> 0 then DefaultRequestChanBuffer else n)
      in \<lparr>rc_buff = replicate (nat n) None, rc_data = Own [] 0 0, rc_waits = 0, rc_closed = False\<rparr>)"

definition NewRequestChan :: "'r RequestChan" where
  "NewRequestChan = NewRequestChanBuffer 0"

definition data_array :: "'r RequestChan \<Rightarrow> 'r option list" where
  "data_array c = (case rc_data c of InBuff off len \<Rightarrow> rc_buff c | Own arr off len \<Rightarrow> arr)"

definition data_off :: "'r RequestChan \<Rightarrow> nat" where
  "data_off c = (case rc_data c of InBuff off len \<Rightarrow> off | Own arr off len \<Rightarrow> off)"

definition Buffered :: "'r RequestChan \<Rightarrow> nat" where
  "Buffered c = (case rc_data c of InBuff off len \<Rightarrow> len | Own arr off len \<Rightarrow> len)"

text \<open>
  The built-in \<open>append\<close>: in place while there is room, else into a new array with \<open>grow len\<close> free places,
  a number that Go leaves open.
\<close>

definition append_data :: "(nat \<Rightarrow> nat) \<Rightarrow> 'r \<Rightarrow> 'r RequestChan \<Rightarrow> 'r RequestChan" where
  "append_data grow r c =
     (case rc_data c of
        InBuff off len \<Rightarrow>
          if off + len < length (rc_buff c)
          then c\<lparr>rc_buff := (rc_buff c)[off + len := Some r], rc_data := InBuff off (len + 1)\<rparr>
          else c\<lparr>rc_data := Own (go_slice (rc_buff c) off (off + len) @ Some r # replicate (grow len) None) 0 (len + 1)\<rparr>
      | Own arr off len \<Rightarrow>
          if off + len < length arr
          then c\<lparr>rc_data := Own (arr[off + len := Some r]) off (len + 1)\<rparr>
          else c\<lparr>rc_data := Own (go_slice arr off (off + len) @ Some r # replicate (grow len) None) 0 (len + 1)\<rparr>)"

text \<open>A push on a closed queue panics: \<open>None\<close>.\<close>

definition lockedPushBack :: "(nat \<Rightarrow> nat) \<Rightarrow> 'r \<Rightarrow> 'r RequestChan \<Rightarrow> (nat \<times> 'r RequestChan) option" where
  "lockedPushBack grow r c =
     (if rc_closed c then None
      else let c1 = append_data grow r c in Some (Buffered c1, c1))"

text \<open>Taking the first request: \<open>c.data, c.data[0] = c.data[1:], nil\<close>.\<close>

definition takeFront :: "'r RequestChan \<Rightarrow> ('r \<times> 'r RequestChan) option" where
  "takeFront c =
     (case rc_data c of
        InBuff off len \<Rightarrow>
          if len = 0 then None
          else (case rc_buff c ! off of
             None \<Rightarrow> None
           | Some r \<Rightarrow> Some (r, c\<lparr>rc_buff := (rc_buff c)[off := None], rc_data := InBuff (off + 1) (len - 1)\<rparr>))
      | Own arr off len \<Rightarrow>
          if len = 0 then None
          else (case arr ! off of
             None \<Rightarrow> None
           | Some r \<Rightarrow> Some (r, c\<lparr>rc_data := Own (arr[off := None]) (off + 1) (len - 1)\<rparr>)))"

text \<open>One turn of the loop of \<open>lockedPopFront\<close>: a request, the end, or waiting for a signal.\<close>

datatype 'r pop = Popped 'r | Finished | Waiting

definition lockedPopFront :: "'r RequestChan \<Rightarrow> 'r pop \<times> 'r RequestChan" where
  "lockedPopFront c =
     (if Buffered c = 0 then
        if rc_closed c then (Finished, c)
        else (Waiting, c\<lparr>rc_data := InBuff 0 0, rc_waits := rc_waits c + 1\<rparr>)
      else (case takeFront c of None \<Rightarrow> (Finished, c) | Some (r, c1) \<Rightarrow> (Popped r, c1)))"

definition wakeUp :: "'r RequestChan \<Rightarrow> 'r RequestChan" where
  "wakeUp c = c\<lparr>rc_waits := rc_waits c - 1\<rparr>"

definition RequestChan_Close :: "'r RequestChan \<Rightarrow> 'r RequestChan" where
  "RequestChan_Close c = c\<lparr>rc_closed := True\<rparr>"

definition IsEmpty :: "'r RequestChan \<Rightarrow> bool" where
  "IsEmpty c \<longleftrightarrow> Buffered c = 0"

text \<open>\<open>PopFrontAll\<close> on a closed queue: the requests in order, up to the first that fails.\<close>

primrec PopFrontAll :: "nat \<Rightarrow> ('r \<Rightarrow> 's \<Rightarrow> 'e option \<times> 's) \<Rightarrow> 'r RequestChan \<Rightarrow> 's \<Rightarrow> ('e option \<times> 's \<times> 'r RequestChan) option" where
  "PopFrontAll 0 onRequest c s = None"
| "PopFrontAll (Suc fuel) onRequest c s =
     (case lockedPopFront c of
        (Popped r, c1) \<Rightarrow>
          (case onRequest r s of
             (Some e, s1) \<Rightarrow> Some (Some e, s1, c1)
           | (None, s1) \<Rightarrow> PopFrontAll fuel onRequest c1 s1)
      | (Finished, c1) \<Rightarrow> Some (None, s, c1)
      | (Waiting, c1) \<Rightarrow> None)"

section \<open>It is a queue\<close>

definition chan_content :: "'r RequestChan \<Rightarrow> 'r list" where
  "chan_content c = map the (go_slice (data_array c) (data_off c) (data_off c + Buffered c))"

definition chan_ok :: "'r RequestChan \<Rightarrow> bool" where
  "chan_ok c \<longleftrightarrow> data_off c + Buffered c \<le> length (data_array c) \<and>
     list_all (\<lambda>x. x \<noteq> None) (go_slice (data_array c) (data_off c) (data_off c + Buffered c))"

lemmas slice_defs = data_array_def data_off_def Buffered_def

lemma go_slice_snoc: "off + len < length xs \<Longrightarrow> go_slice (xs[off + len := x]) off (Suc (off + len)) = go_slice xs off (off + len) @ [x]"
  by (simp add: go_slice_def take_Suc_conv_app_nth drop_update_swap)

lemma go_slice_tail:
  "0 < len \<Longrightarrow> off + len \<le> length xs \<Longrightarrow>
   go_slice xs off (off + len) = xs ! off # go_slice (xs[off := y]) (Suc off) (off + len)"
  by (cases len) (simp_all add: go_slice_def Cons_nth_drop_Suc [symmetric])

lemma go_slice_empty [simp]: "go_slice xs off off = []"
  by (simp add: go_slice_def)

lemma go_slice_grown: "off + len \<le> length xs \<Longrightarrow> go_slice (go_slice xs off (off + len) @ x # ys) 0 (Suc len) = go_slice xs off (off + len) @ [x]"
  by (simp add: go_slice_def)

lemma append_ok:
  assumes "chan_ok c"
  shows "chan_ok (append_data grow r c)" and "chan_content (append_data grow r c) = chan_content c @ [r]"
proof -
  note d = append_data_def chan_ok_def chan_content_def slice_defs
  show "chan_ok (append_data grow r c)"
    using assms by (cases "rc_data c") (auto simp: d go_slice_snoc go_slice_grown)
  show "chan_content (append_data grow r c) = chan_content c @ [r]"
    using assms by (cases "rc_data c") (auto simp: d go_slice_snoc go_slice_grown)
qed

lemma take_none: "chan_ok c \<Longrightarrow> takeFront c = None \<longleftrightarrow> chan_content c = []"
  by (cases "rc_data c"; cases "Buffered c = 0")
    (auto simp: takeFront_def chan_ok_def chan_content_def slice_defs go_slice_tail [of _ _ _ None] split: option.splits)

lemma take_some:
  assumes "chan_ok c" and "takeFront c = Some (r, c1)"
  shows "chan_content c = r # chan_content c1 \<and> chan_ok c1"
  using assms
  by (cases "rc_data c")
    (auto simp: takeFront_def chan_ok_def chan_content_def slice_defs go_slice_tail [of _ _ _ None] split: if_splits option.splits)

interpretation chan: fifo chan_content chan_ok "append_data grow" takeFront
  by unfold_locales (simp_all add: append_ok take_none take_some)

lemma chan_new: "chan_ok (NewRequestChanBuffer n)" "chan_content (NewRequestChanBuffer n) = []" "\<not> rc_closed (NewRequestChanBuffer n)"
  by (simp_all add: NewRequestChanBuffer_def chan_ok_def chan_content_def slice_defs go_slice_def Let_def)

lemma Buffered_content: "chan_ok c \<Longrightarrow> Buffered c = length (chan_content c)"
  by (auto simp: chan_ok_def chan_content_def)

lemma same_content:
  "chan_content (c\<lparr>rc_closed := b\<rparr>) = chan_content c" "chan_ok (c\<lparr>rc_closed := b\<rparr>) = chan_ok c"
  "chan_content (c\<lparr>rc_waits := n\<rparr>) = chan_content c" "chan_ok (c\<lparr>rc_waits := n\<rparr>) = chan_ok c"
  by (cases "rc_data c"; simp add: chan_content_def chan_ok_def slice_defs)+

lemma takeFront_closed: "takeFront c = Some (r, c1) \<Longrightarrow> rc_closed c1 = rc_closed c \<and> rc_waits c1 = rc_waits c"
  by (cases "rc_data c") (auto simp: takeFront_def split: if_splits option.splits)

lemma append_fields: "rc_closed (append_data grow r c) = rc_closed c" "rc_waits (append_data grow r c) = rc_waits c"
  by (simp_all add: append_data_def split: slice.splits)

lemma emptied_ok: "chan_ok (c\<lparr>rc_data := InBuff 0 0\<rparr>)" "chan_content (c\<lparr>rc_data := InBuff 0 0\<rparr>) = []"
  by (simp_all add: chan_content_def chan_ok_def slice_defs go_slice_def)

lemma pop_cases:
  assumes "chan_ok c"
  obtains (some) r c1 where "lockedPopFront c = (Popped r, c1)" "chan_content c = r # chan_content c1" "chan_ok c1"
      "rc_closed c1 = rc_closed c" "rc_waits c1 = rc_waits c"
    | (finished) "lockedPopFront c = (Finished, c)" "chan_content c = []" "rc_closed c"
    | (waiting) c1 where "lockedPopFront c = (Waiting, c1)" "chan_content c = []" "\<not> rc_closed c" "chan_ok c1"
      "chan_content c1 = []" "rc_waits c1 = rc_waits c + 1" "\<not> rc_closed c1"
proof (cases "chan_content c")
  case Nil
  then have empty: "Buffered c = 0" using assms by (simp add: Buffered_content)
  show ?thesis
  proof (cases "rc_closed c")
    case True
    with empty Nil show ?thesis by - (rule finished, simp_all add: lockedPopFront_def)
  next
    case False
    have "chan_ok (c\<lparr>rc_data := InBuff 0 0, rc_waits := rc_waits c + 1\<rparr>)"
         "chan_content (c\<lparr>rc_data := InBuff 0 0, rc_waits := rc_waits c + 1\<rparr>) = []"
      using emptied_ok [of c] same_content(3,4) [where c = "c\<lparr>rc_data := InBuff 0 0\<rparr>"] by simp_all
    with False empty Nil show ?thesis by - (rule waiting [of "c\<lparr>rc_data := InBuff 0 0, rc_waits := rc_waits c + 1\<rparr>"], simp_all add: lockedPopFront_def)
  qed
next
  case (Cons r rs)
  then have "Buffered c \<noteq> 0" using assms by (simp add: Buffered_content)
  moreover from Cons chan.pop_empty [OF assms] obtain x c1 where t: "takeFront c = Some (x, c1)" by fastforce
  ultimately have "lockedPopFront c = (Popped x, c1)" by (simp add: lockedPopFront_def)
  with chan.pop_first [OF assms t] takeFront_closed [OF t] show ?thesis by - (rule some [of x c1], auto)
qed

section \<open>Waiting and waking up\<close>

text \<open>
  The consumers of a queue as \<open>sync.Cond\<close> sees them: those that sleep, and those that were woken and
  have not run yet.  A push signals one sleeper when \<open>c.waits\<close> is not zero, closing wakes all.
\<close>

record 'r chan_sys =
  cs_chan :: "'r RequestChan"
  cs_asleep :: nat
  cs_woken :: nat

definition signal :: "'r chan_sys \<Rightarrow> 'r chan_sys" where
  "signal x = (if cs_asleep x = 0 then x else x\<lparr>cs_asleep := cs_asleep x - 1, cs_woken := cs_woken x + 1\<rparr>)"

definition broadcast :: "'r chan_sys \<Rightarrow> 'r chan_sys" where
  "broadcast x = x\<lparr>cs_asleep := 0, cs_woken := cs_woken x + cs_asleep x\<rparr>"

definition consume :: "'r chan_sys \<Rightarrow> 'r chan_sys" where
  "consume x =
     (case lockedPopFront (cs_chan x) of
        (Waiting, c1) \<Rightarrow> x\<lparr>cs_chan := c1, cs_asleep := cs_asleep x + 1\<rparr>
      | (_, c1) \<Rightarrow> x\<lparr>cs_chan := c1\<rparr>)"

inductive chan_step :: "'r chan_sys \<Rightarrow> 'r chan_sys \<Rightarrow> bool" where
  push: "lockedPushBack grow r (cs_chan x) = Some (n, c1) \<Longrightarrow>
    chan_step x ((if rc_waits (cs_chan x) \<noteq> 0 then signal x else x)\<lparr>cs_chan := c1\<rparr>)"
| pop: "chan_step x (consume x)"
| wake: "0 < cs_woken x \<Longrightarrow>
    chan_step x (consume (x\<lparr>cs_chan := wakeUp (cs_chan x), cs_woken := cs_woken x - 1\<rparr>))"
| close: "chan_step x ((if rc_closed (cs_chan x) then x else broadcast x)\<lparr>cs_chan := RequestChan_Close (cs_chan x)\<rparr>)"

inductive chan_reachable :: "'r chan_sys \<Rightarrow> bool" where
  new: "chan_reachable \<lparr>cs_chan = NewRequestChanBuffer n, cs_asleep = 0, cs_woken = 0\<rparr>"
| more: "chan_reachable x \<Longrightarrow> chan_step x y \<Longrightarrow> chan_reachable y"

definition chan_inv :: "'r chan_sys \<Rightarrow> bool" where
  "chan_inv x \<longleftrightarrow> chan_ok (cs_chan x) \<and> rc_waits (cs_chan x) = cs_asleep x + cs_woken x \<and>
     (0 < cs_asleep x \<longrightarrow> \<not> rc_closed (cs_chan x) \<and> length (chan_content (cs_chan x)) \<le> cs_woken x)"

lemma consume_inv:
  assumes "chan_ok (cs_chan x)" and "rc_waits (cs_chan x) = cs_asleep x + cs_woken x"
    and "0 < cs_asleep x \<Longrightarrow> \<not> rc_closed (cs_chan x) \<and> length (chan_content (cs_chan x)) \<le> cs_woken x + 1"
  shows "chan_inv (consume x)"
  using assms(1)
proof (cases rule: pop_cases)
  case (some r c1)
  then show ?thesis using assms by (auto simp: consume_def chan_inv_def)
next
  case finished
  then show ?thesis using assms by (auto simp: consume_def chan_inv_def)
next
  case (waiting c1)
  then show ?thesis using assms by (auto simp: consume_def chan_inv_def)
qed

lemma chan_step_inv: "chan_step x y \<Longrightarrow> chan_inv x \<Longrightarrow> chan_inv y"
proof (induction rule: chan_step.induct)
  case (push grow r x n c1)
  then show ?case
    by (auto simp: lockedPushBack_def chan_inv_def signal_def append_ok append_fields Let_def split: if_splits)
next
  case (pop x)
  then show ?case by (intro consume_inv) (auto simp: chan_inv_def)
next
  case (wake x)
  then show ?case by (intro consume_inv) (auto simp: chan_inv_def wakeUp_def same_content)
next
  case (close x)
  then show ?case by (auto simp: chan_inv_def broadcast_def RequestChan_Close_def same_content)
qed

lemma chan_reachable_inv: "chan_reachable x \<Longrightarrow> chan_inv x"
proof (induction rule: chan_reachable.induct)
  case (new n)
  show ?case using chan_new(1) [of n] by (simp add: chan_inv_def NewRequestChanBuffer_def Let_def)
next
  case (more x y)
  then show ?case by (auto intro: chan_step_inv)
qed

section \<open>Delays\<close>

definition MaxInt :: "int \<Rightarrow> int \<Rightarrow> int" where
  "MaxInt a b = (if a > b then a else b)"

definition MinInt :: "int \<Rightarrow> int \<Rightarrow> int" where
  "MinInt a b = (if a < b then a else b)"

text \<open>\<open>None\<close> is the panic on an empty range.\<close>

definition MinMaxInt :: "int \<Rightarrow> int \<Rightarrow> int \<Rightarrow> int option" where
  "MinMaxInt v lo hi = (if lo \<le> hi then Some (MinInt (MaxInt v lo) hi) else None)"

record DelayExp2 =
  de_Min :: int
  de_Max :: int
  de_Value :: int

definition DelayExp2_Reset :: "DelayExp2 \<Rightarrow> DelayExp2" where
  "DelayExp2_Reset d = d\<lparr>de_Value := 0\<rparr>"

definition NextValue :: "DelayExp2 \<Rightarrow> (int \<times> DelayExp2) option" where
  "NextValue d = map_option (\<lambda>v. (v, d\<lparr>de_Value := v\<rparr>)) (MinMaxInt (de_Value d * 2) (de_Min d) (de_Max d))"

primrec delays :: "nat \<Rightarrow> DelayExp2 \<Rightarrow> int list option" where
  "delays 0 d = Some []"
| "delays (Suc n) d = (case NextValue d of None \<Rightarrow> None | Some (v, d1) \<Rightarrow> map_option (\<lambda>vs. v # vs) (delays n d1))"

lemma delays_from:
  assumes "0 < de_Min d" and "de_Min d \<le> de_Max d" and "0 \<le> de_Value d"
  shows "delays n d = Some (map (\<lambda>i. min (de_Max d) (max (de_Min d) (de_Value d * 2) * 2 ^ i)) [0..<n])"
  using assms
proof (induction n arbitrary: d)
  case (Suc n)
  define v where "v = min (de_Max d) (max (de_Min d) (de_Value d * 2))"
  have nxt: "NextValue d = Some (v, d\<lparr>de_Value := v\<rparr>)"
    using Suc.prems by (simp add: NextValue_def MinMaxInt_def MinInt_def MaxInt_def v_def)
  have "min (de_Max d) (max (de_Min d) (v * 2) * 2 ^ i) = min (de_Max d) (max (de_Min d) (de_Value d * 2) * 2 ^ Suc i)" for i
  proof (cases "max (de_Min d) (de_Value d * 2) \<le> de_Max d")
    case True
    then have "v = max (de_Min d) (de_Value d * 2)" by (simp add: v_def)
    then show ?thesis using Suc.prems by (simp add: max_def mult.commute mult.left_commute)
  next
    case False
    then have v: "v = de_Max d" using Suc.prems by (simp add: v_def)
    have pow: "x \<le> x * 2 ^ j" if "0 \<le> x" for x :: int and j using that by (simp add: mult_le_cancel_left1)
    have "de_Max d \<le> max (de_Min d) (v * 2)" and "de_Max d \<le> max (de_Min d) (de_Value d * 2)"
      using Suc.prems False by (auto simp: v)
    with pow [of "max (de_Min d) (v * 2)" i] pow [of "max (de_Min d) (de_Value d * 2)" "Suc i"] Suc.prems
    have "de_Max d \<le> max (de_Min d) (v * 2) * 2 ^ i" and "de_Max d \<le> max (de_Min d) (de_Value d * 2) * 2 ^ Suc i"
      by linarith+
    then show ?thesis by simp
  qed
  then show ?case using Suc.prems Suc.IH [of "d\<lparr>de_Value := v\<rparr>"] v_def
    by (simp add: nxt upt_conv_Cons map_Suc_upt [symmetric] comp_def del: upt_Suc)
qed simp

section \<open>Properties\<close>

text \<open>The operations of a queue one after the other, and the same operations on a list.\<close>

datatype 'r chan_op = PushBack 'r | PopFront | CloseChan

datatype 'r chan_result = Length nat | Pop "'r pop" | Closed

fun run_chan :: "(nat \<Rightarrow> nat) \<Rightarrow> 'r chan_op list \<Rightarrow> 'r RequestChan \<Rightarrow> 'r chan_result list option" where
  "run_chan grow [] c = Some []"
| "run_chan grow (PushBack r # ops) c =
     (case lockedPushBack grow r c of
        None \<Rightarrow> None
      | Some (n, c1) \<Rightarrow> map_option (\<lambda>xs. Length n # xs) (run_chan grow ops c1))"
| "run_chan grow (PopFront # ops) c =
     (case lockedPopFront c of (r, c1) \<Rightarrow> map_option (\<lambda>xs. Pop r # xs) (run_chan grow ops c1))"
| "run_chan grow (CloseChan # ops) c = map_option (\<lambda>xs. Closed # xs) (run_chan grow ops (RequestChan_Close c))"

fun run_list :: "'r chan_op list \<Rightarrow> 'r list \<Rightarrow> bool \<Rightarrow> 'r chan_result list option" where
  "run_list [] xs closed = Some []"
| "run_list (PushBack r # ops) xs closed =
     (if closed then None else map_option (\<lambda>ys. Length (length xs + 1) # ys) (run_list ops (xs @ [r]) closed))"
| "run_list (PopFront # ops) xs closed =
     (case xs of
        [] \<Rightarrow> map_option (\<lambda>ys. Pop (if closed then Finished else Waiting) # ys) (run_list ops [] closed)
      | x # xs \<Rightarrow> map_option (\<lambda>ys. Pop (Popped x) # ys) (run_list ops xs closed))"
| "run_list (CloseChan # ops) xs closed = map_option (\<lambda>ys. Closed # ys) (run_list ops xs True)"

lemma run_chan_list: "chan_ok c \<Longrightarrow> run_chan grow ops c = run_list ops (chan_content c) (rc_closed c)"
proof (induction grow ops c rule: run_chan.induct)
  case (2 grow r ops c)
  then show ?case
    by (auto simp: lockedPushBack_def append_ok append_fields Buffered_content Let_def)
next
  case (3 grow ops c)
  from 3(2) show ?case by (cases rule: pop_cases) (use 3 in auto)
next
  case (4 grow ops c)
  then show ?case by (simp add: RequestChan_Close_def same_content)
qed simp

text \<open>
  C20. The queue between the reader and the writer of a session, with its reused buffer and its growing
  slice, behaves as a list: whatever is pushed, taken and closed in whatever order, a push reports
  the length and panics only after the close, and a pop gives the oldest request that is left, the
  end when the queue is closed and empty, and waits when it is open and empty.
\<close>

theorem request_chan_is_queue:
  "run_chan grow ops (NewRequestChanBuffer n) = run_list ops [] False"
  using run_chan_list [OF chan_new(1)] chan_new(2,3) by metis

text \<open>
  C21. No wakeup is lost: in every state that pushes, pops, closes and woken consumers reach in any
  order, when a consumer sleeps although there is a request or the queue is closed, another one
  has been woken and is about to run.
\<close>

theorem no_lost_wakeup:
  assumes "chan_reachable x" and "0 < cs_asleep x" and "chan_content (cs_chan x) \<noteq> [] \<or> rc_closed (cs_chan x)"
  shows "0 < cs_woken x \<and> \<not> rc_closed (cs_chan x) \<and> length (chan_content (cs_chan x)) \<le> cs_woken x"
  using chan_reachable_inv [OF assms(1)] assms(2,3)
  by (cases "chan_content (cs_chan x)") (auto simp: chan_inv_def)

text \<open>Two consumers fall asleep, and one request arrives.\<close>

definition two_sleepers :: "nat chan_sys" where
  "two_sleepers = consume (consume \<lparr>cs_chan = NewRequestChanBuffer 4, cs_asleep = 0, cs_woken = 0\<rparr>)"

definition one_woken :: "nat chan_sys" where
  "one_woken = (signal two_sleepers)\<lparr>cs_chan := append_data (\<lambda>_. 1) 7 (cs_chan two_sleepers)\<rparr>"

lemma one_woken_reachable: "chan_reachable one_woken"
proof -
  have "chan_reachable two_sleepers" unfolding two_sleepers_def
    by (rule more [OF more [OF new pop] pop])
  moreover have "rc_waits (cs_chan two_sleepers) \<noteq> 0" "lockedPushBack (\<lambda>_. 1) 7 (cs_chan two_sleepers) =
     Some (Buffered (append_data (\<lambda>_. 1) 7 (cs_chan two_sleepers)), append_data (\<lambda>_. 1) 7 (cs_chan two_sleepers))"
    by (simp_all add: two_sleepers_def consume_def lockedPopFront_def NewRequestChanBuffer_def lockedPushBack_def slice_defs Let_def)
  then have "chan_step two_sleepers one_woken"
    using chan_step.push [of "\<lambda>_. 1" 7 two_sleepers] by (simp add: one_woken_def)
  ultimately show ?thesis by (rule more)
qed

theorem no_lost_wakeup_witness:
  "0 < cs_asleep one_woken \<and> chan_content (cs_chan one_woken) = [7] \<and> 0 < cs_woken one_woken"
proof -
  have "0 < cs_asleep one_woken" "chan_content (cs_chan one_woken) = [7]"
    by (simp_all add: one_woken_def two_sleepers_def signal_def consume_def lockedPopFront_def NewRequestChanBuffer_def
        append_data_def chan_content_def slice_defs go_slice_def numeral_eq_Suc)
  with no_lost_wakeup [OF one_woken_reachable] show ?thesis by simp
qed



end
