(* ===== verification/Backend.thy ===== *)
theory Backend
  imports ProxyConfig RequestChan "HOL-Library.Multiset"
begin

text \<open>
  The connections to the Redis servers of \<open>src/pkg/proxy/backend.go\<close>: \<open>BackendConn\<close>, the \<open>sharedBackendConn\<close>
  that holds the connections to one server and counts its users, and the pools of these by address.  Objects
  live in a heap and a pointer is an index; \<open>None\<close> is the nil pointer.  The result \<open>None\<close> of an operation is a
  panic.  The counting is proved to be right once, for any client, in a locale.
\<close>

section \<open>Objects\<close>

definition stateConnected :: int where
  "stateConnected = 1"

definition stateDataStale :: int where
  "stateDataStale = 2"

record BackendConn =
  bc_addr :: string
  bc_auth :: RedisAuthIdentity
  bc_database :: int
  bc_state :: int
  bc_closed :: bool

record sharedBackendConn =
  sc_addr :: string
  sc_host :: bytes
  sc_port :: bytes
  sc_owner :: nat
  sc_auth :: RedisAuthIdentity
  sc_conns :: "nat list list"
  sc_single :: "nat list option"
  sc_refcnt :: int

record sharedBackendConnPool =
  sp_parallel :: int
  sp_auth :: RedisAuthIdentity
  sp_closed :: bool
  sp_pool :: "(string \<times> nat) list"

record heap =
  hp_bcs :: "BackendConn list"
  hp_scs :: "sharedBackendConn list"
  hp_pools :: "sharedBackendConnPool list"

definition NewBackendConnWithAuth :: "string \<Rightarrow> int \<Rightarrow> RedisAuthIdentity \<Rightarrow> BackendConn" where
  "NewBackendConnWithAuth addr database auth =
     \<lparr>bc_addr = addr, bc_auth = auth, bc_database = database, bc_state = 0, bc_closed = False\<rparr>"

definition IsConnected :: "BackendConn \<Rightarrow> bool" where
  "IsConnected bc \<longleftrightarrow> bc_state bc = stateConnected"

definition BackendConn_Close :: "BackendConn \<Rightarrow> BackendConn" where
  "BackendConn_Close bc = bc\<lparr>bc_closed := True\<rparr>"

text \<open>The connections of the listed pointers are closed.\<close>

definition closeConns :: "nat list \<Rightarrow> heap \<Rightarrow> heap" where
  "closeConns ids h = h\<lparr>hp_bcs := foldl (\<lambda>bcs i. bcs[i := BackendConn_Close (bcs ! i)]) (hp_bcs h) ids\<rparr>"

section \<open>Shared connections\<close>

text \<open>
  For every database there are as many connections as the pool says; \<open>single\<close> is the list of the only
  connection of each database when there is one.
\<close>

definition newSharedBackendConn :: "Config \<Rightarrow> string \<Rightarrow> nat \<Rightarrow> heap \<Rightarrow> nat \<times> heap" where
  "newSharedBackendConn config addr p h =
     (let pool = hp_pools h ! p; par = nat (sp_parallel pool); n = nat (cf_BackendNumberDatabases config);
          (host, port) = (case SplitHostPort addr of Some hp \<Rightarrow> hp | None \<Rightarrow> ([], []));
          start = length (hp_bcs h);
          conns = map (\<lambda>d. map (\<lambda>i. start + d * par + i) [0..<par]) [0..<n];
          bcs = concat (map (\<lambda>d. replicate par (NewBackendConnWithAuth addr (int d) (sp_auth pool))) [0..<n]);
          s = \<lparr>sc_addr = addr, sc_host = host, sc_port = port, sc_owner = p, sc_auth = sp_auth pool, sc_conns = conns,
               sc_single = (if sp_parallel pool = 1 then Some (map hd conns) else None), sc_refcnt = 1\<rparr>
      in (length (hp_scs h), h\<lparr>hp_bcs := hp_bcs h @ bcs, hp_scs := hp_scs h @ [s]\<rparr>))"

definition Addr :: "heap \<Rightarrow> nat option \<Rightarrow> string" where
  "Addr h s = (case s of None \<Rightarrow> [] | Some i \<Rightarrow> sc_addr (hp_scs h ! i))"

definition setRefcnt :: "nat \<Rightarrow> int \<Rightarrow> heap \<Rightarrow> heap" where
  "setRefcnt i n h = h\<lparr>hp_scs := (hp_scs h)[i := (hp_scs h ! i)\<lparr>sc_refcnt := n\<rparr>]\<rparr>"

definition setPool :: "nat \<Rightarrow> (string \<times> nat) list \<Rightarrow> heap \<Rightarrow> heap" where
  "setPool p entries h = h\<lparr>hp_pools := (hp_pools h)[p := (hp_pools h ! p)\<lparr>sp_pool := entries\<rparr>]\<rparr>"

definition Release :: "nat option \<Rightarrow> heap \<Rightarrow> heap option" where
  "Release s h =
     (case s of
        None \<Rightarrow> Some h
      | Some i \<Rightarrow>
          let sc = hp_scs h ! i
          in if sc_refcnt sc \<le> 0 then None
             else
               let h1 = setRefcnt i (sc_refcnt sc - 1) h
               in if sc_refcnt sc - 1 \<noteq> 0 then Some h1
                  else Some (setPool (sc_owner sc) (filter (\<lambda>(a, j). a \<noteq> sc_addr sc) (sp_pool (hp_pools h ! sc_owner sc)))
                              (closeConns (concat (sc_conns sc)) h1)))"

definition Retain :: "nat \<Rightarrow> heap \<Rightarrow> (nat \<times> heap) option" where
  "Retain i h =
     (let sc = hp_scs h ! i
      in if sc_refcnt sc \<le> 0 then None else Some (i, setRefcnt i (sc_refcnt sc + 1) h))"

text \<open>\<open>BackendConn\<close>: the outer \<open>None\<close> is the panic of an index that is out of range.\<close>

fun nextConnected :: "heap \<Rightarrow> nat list \<Rightarrow> nat \<Rightarrow> nat \<Rightarrow> nat option" where
  "nextConnected h conns 0 i = None"
| "nextConnected h conns (Suc n) i =
     (let i = (i + 1) mod length conns
      in if IsConnected (hp_bcs h ! (conns ! i)) then Some (conns ! i) else nextConnected h conns n i)"

definition BackendConn_of :: "heap \<Rightarrow> nat option \<Rightarrow> int \<Rightarrow> nat \<Rightarrow> bool \<Rightarrow> nat option option" where
  "BackendConn_of h s database seed must =
     (case s of
        None \<Rightarrow> Some None
      | Some i \<Rightarrow>
          let sc = hp_scs h ! i
          in if database < 0 \<or> database \<ge> int (length (sc_conns sc)) then None
             else
               (case sc_single sc of
                  Some single \<Rightarrow>
                    let bc = single ! nat database
                    in Some (if must \<or> IsConnected (hp_bcs h ! bc) then Some bc else None)
                | None \<Rightarrow>
                    let conns = sc_conns sc ! nat database
                    in (case nextConnected h conns (length conns) seed of
                          Some bc \<Rightarrow> Some (Some bc)
                        | None \<Rightarrow> if \<not> must then Some None else if conns = [] then None else Some (Some (hd conns)))))"

section \<open>Pools\<close>

definition newSharedBackendConnPool :: "int \<Rightarrow> RedisAuthIdentity \<Rightarrow> heap \<Rightarrow> nat \<times> heap" where
  "newSharedBackendConnPool parallel auth h =
     (length (hp_pools h),
      h\<lparr>hp_pools := hp_pools h @ [\<lparr>sp_parallel = MaxInt 1 parallel, sp_auth = auth, sp_closed = False, sp_pool = []\<rparr>]\<rparr>)"

definition Pool_Close :: "nat \<Rightarrow> heap \<Rightarrow> heap" where
  "Pool_Close p h =
     (let pool = hp_pools h ! p
      in if sp_closed pool then h
         else
           let h1 = closeConns (concat (concat (map (\<lambda>(a, i). sc_conns (hp_scs h ! i)) (sp_pool pool)))) h
           in h1\<lparr>hp_pools := (hp_pools h1)[p := pool\<lparr>sp_closed := True, sp_pool := []\<rparr>]\<rparr>)"

definition Pool_Get :: "nat \<Rightarrow> string \<Rightarrow> heap \<Rightarrow> nat option" where
  "Pool_Get p addr h = (let pool = hp_pools h ! p in if sp_closed pool then None else map_of (sp_pool pool) addr)"

definition createShared :: "Config \<Rightarrow> nat \<Rightarrow> string \<Rightarrow> heap \<Rightarrow> nat \<times> heap" where
  "createShared config p addr h =
     (let (i, h1) = newSharedBackendConn config addr p h
      in (i, setPool p ((addr, i) # sp_pool (hp_pools h ! p)) h1))"

definition Pool_Retain :: "Config \<Rightarrow> nat \<Rightarrow> string \<Rightarrow> heap \<Rightarrow> (nat option \<times> heap) option" where
  "Pool_Retain config p addr h =
     (let pool = hp_pools h ! p
      in if sp_closed pool then Some (None, h)
         else
           (case map_of (sp_pool pool) addr of
              Some i \<Rightarrow> map_option (\<lambda>(j, h1). (Some j, h1)) (Retain i h)
            | None \<Rightarrow> let (i, h1) = createShared config p addr h in Some (Some i, h1)))"

definition Pool_GetOrCreate :: "Config \<Rightarrow> nat \<Rightarrow> string \<Rightarrow> heap \<Rightarrow> nat option \<times> heap" where
  "Pool_GetOrCreate config p addr h =
     (let pool = hp_pools h ! p
      in if sp_closed pool then (None, h)
         else
           (case map_of (sp_pool pool) addr of
              Some i \<Rightarrow> (Some i, h)
            | None \<Rightarrow> let (i, h1) = createShared config p addr h in (Some i, h1)))"

section \<open>Counting\<close>

abbreviation shared :: "heap \<Rightarrow> nat \<Rightarrow> sharedBackendConn" where
  "shared h i \<equiv> hp_scs h ! i"

definition conns_of :: "heap \<Rightarrow> nat \<Rightarrow> nat list" where
  "conns_of h i = concat (sc_conns (shared h i))"

abbreviation pool_of :: "heap \<Rightarrow> nat \<Rightarrow> sharedBackendConnPool" where
  "pool_of h i \<equiv> hp_pools h ! sc_owner (shared h i)"

text \<open>A shared connection is listed when its pool has it under its address.\<close>

definition listed :: "heap \<Rightarrow> nat \<Rightarrow> bool" where
  "listed h i \<longleftrightarrow> (sc_addr (shared h i), i) \<in> set (sp_pool (pool_of h i))"

text \<open>What every shared connection is made of.\<close>

definition shared_ok :: "Config \<Rightarrow> BackendConn list \<Rightarrow> nat \<Rightarrow> sharedBackendConn \<Rightarrow> bool" where
  "shared_ok config bcs pools sc \<longleftrightarrow>
     sc_owner sc < pools \<and> int (length (sc_conns sc)) = cf_BackendNumberDatabases config \<and>
     (\<forall>s. sc_single sc = Some s \<longrightarrow> s = map hd (sc_conns sc)) \<and>
     (\<forall>d < length (sc_conns sc). sc_conns sc ! d \<noteq> [] \<and>
        (\<forall>c \<in> set (sc_conns sc ! d). c < length bcs \<and> bc_addr (bcs ! c) = sc_addr sc \<and> bc_auth (bcs ! c) = sc_auth sc \<and> bc_database (bcs ! c) = int d))"

definition pool_ok :: "sharedBackendConn list \<Rightarrow> nat \<Rightarrow> sharedBackendConnPool \<Rightarrow> bool" where
  "pool_ok scs p pool \<longleftrightarrow>
     0 < sp_parallel pool \<and> distinct (map fst (sp_pool pool)) \<and> (sp_closed pool \<longrightarrow> sp_pool pool = []) \<and>
     (\<forall>(a, i) \<in> set (sp_pool pool). i < length scs \<and> sc_addr (scs ! i) = a \<and> sc_owner (scs ! i) = p \<and>
        sc_auth (scs ! i) = sp_auth pool \<and> 0 < sc_refcnt (scs ! i))"

definition heap_ok :: "Config \<Rightarrow> heap \<Rightarrow> bool" where
  "heap_ok config h \<longleftrightarrow>
     (\<forall>i < length (hp_scs h). shared_ok config (hp_bcs h) (length (hp_pools h)) (shared h i)) \<and>
     (\<forall>i < length (hp_scs h). \<forall>j < length (hp_scs h). i \<noteq> j \<longrightarrow> set (conns_of h i) \<inter> set (conns_of h j) = {}) \<and>
     (\<forall>p < length (hp_pools h). pool_ok (hp_scs h) p (hp_pools h ! p)) \<and>
     (\<forall>i < length (hp_scs h). 0 < sc_refcnt (shared h i) \<and> \<not> sp_closed (pool_of h i) \<longrightarrow> listed h i) \<and>
     (\<forall>i < length (hp_scs h). \<forall>c \<in> set (conns_of h i). bc_closed (hp_bcs h ! c) \<longleftrightarrow> \<not> listed h i)"

lemma heap_okI:
  assumes "\<And>i. i < length (hp_scs h) \<Longrightarrow> shared_ok config (hp_bcs h) (length (hp_pools h)) (shared h i)"
    and "\<And>i j. i < length (hp_scs h) \<Longrightarrow> j < length (hp_scs h) \<Longrightarrow> i \<noteq> j \<Longrightarrow> set (conns_of h i) \<inter> set (conns_of h j) = {}"
    and "\<And>p. p < length (hp_pools h) \<Longrightarrow> pool_ok (hp_scs h) p (hp_pools h ! p)"
    and "\<And>i. i < length (hp_scs h) \<Longrightarrow> 0 < sc_refcnt (shared h i) \<Longrightarrow> \<not> sp_closed (pool_of h i) \<Longrightarrow> listed h i"
    and "\<And>i c. i < length (hp_scs h) \<Longrightarrow> c \<in> set (conns_of h i) \<Longrightarrow> bc_closed (hp_bcs h ! c) \<longleftrightarrow> \<not> listed h i"
  shows "heap_ok config h"
  using assms unfolding heap_ok_def by blast

lemma heap_okD:
  assumes "heap_ok config h"
  shows "i < length (hp_scs h) \<Longrightarrow> shared_ok config (hp_bcs h) (length (hp_pools h)) (shared h i)"
    and "i < length (hp_scs h) \<Longrightarrow> j < length (hp_scs h) \<Longrightarrow> i \<noteq> j \<Longrightarrow> set (conns_of h i) \<inter> set (conns_of h j) = {}"
    and "p < length (hp_pools h) \<Longrightarrow> pool_ok (hp_scs h) p (hp_pools h ! p)"
    and "i < length (hp_scs h) \<Longrightarrow> 0 < sc_refcnt (shared h i) \<Longrightarrow> \<not> sp_closed (pool_of h i) \<Longrightarrow> listed h i"
    and "i < length (hp_scs h) \<Longrightarrow> c \<in> set (conns_of h i) \<Longrightarrow> bc_closed (hp_bcs h ! c) \<longleftrightarrow> \<not> listed h i"
  using assms unfolding heap_ok_def by blast+

text \<open>\<open>R\<close> is the collection of the references that clients hold to the connections of the pools \<open>P\<close>.\<close>

definition refs_ok :: "Config \<Rightarrow> nat set \<Rightarrow> heap \<Rightarrow> nat multiset \<Rightarrow> bool" where
  "refs_ok config P h R \<longleftrightarrow>
     heap_ok config h \<and> (\<forall>p \<in> P. p < length (hp_pools h) \<and> \<not> sp_closed (hp_pools h ! p)) \<and>
     (\<forall>i \<in># R. i < length (hp_scs h) \<and> sc_owner (shared h i) \<in> P) \<and>
     (\<forall>i < length (hp_scs h). sc_owner (shared h i) \<in> P \<longrightarrow> sc_refcnt (shared h i) = int (count R i))"

text \<open>What no operation changes.\<close>

definition grown :: "heap \<Rightarrow> heap \<Rightarrow> bool" where
  "grown h h' \<longleftrightarrow>
     length (hp_scs h) \<le> length (hp_scs h') \<and> length (hp_pools h) \<le> length (hp_pools h') \<and>
     (\<forall>i < length (hp_scs h). sc_addr (shared h' i) = sc_addr (shared h i) \<and> sc_owner (shared h' i) = sc_owner (shared h i) \<and>
        sc_auth (shared h' i) = sc_auth (shared h i) \<and> sc_conns (shared h' i) = sc_conns (shared h i)) \<and>
     (\<forall>p < length (hp_pools h). sp_auth (hp_pools h' ! p) = sp_auth (hp_pools h ! p))"

lemma grown_refl [simp]: "grown h h"
  by (simp add: grown_def)

lemma grown_trans: "grown h h1 \<Longrightarrow> grown h1 h2 \<Longrightarrow> grown h h2"
  by (fastforce simp: grown_def)

lemma length_closeConns [simp]: "length (hp_bcs (closeConns ids h)) = length (hp_bcs h)"
proof -
  have "length (foldl (\<lambda>bcs i. bcs[i := BackendConn_Close (bcs ! i)]) bcs ids) = length bcs" for bcs
    by (induction ids arbitrary: bcs) auto
  then show ?thesis by (simp add: closeConns_def)
qed

lemma closeConns_nth:
  "c < length (hp_bcs h) \<Longrightarrow>
   hp_bcs (closeConns ids h) ! c = (if c \<in> set ids then BackendConn_Close (hp_bcs h ! c) else hp_bcs h ! c)"
proof -
  have "c < length bcs \<Longrightarrow>
    foldl (\<lambda>bcs i. bcs[i := BackendConn_Close (bcs ! i)]) bcs ids ! c = (if c \<in> set ids then BackendConn_Close (bcs ! c) else bcs ! c)" for bcs
  proof (induction ids arbitrary: bcs)
    case (Cons a ids)
    then show ?case by (cases "a = c") (auto simp: BackendConn_Close_def)
  qed simp
  then show "c < length (hp_bcs h) \<Longrightarrow> ?thesis" by (simp add: closeConns_def)
qed

lemma closeConns_rest [simp]: "hp_scs (closeConns ids h) = hp_scs h" "hp_pools (closeConns ids h) = hp_pools h"
  by (simp_all add: closeConns_def)

lemma BackendConn_Close_simps [simp]:
  "bc_addr (BackendConn_Close bc) = bc_addr bc" "bc_auth (BackendConn_Close bc) = bc_auth bc"
  "bc_database (BackendConn_Close bc) = bc_database bc" "bc_closed (BackendConn_Close bc)"
  by (simp_all add: BackendConn_Close_def)

lemma shared_ok_cong:
  assumes "shared_ok config bcs pools sc" "pools \<le> pools'" "length bcs \<le> length bcs'"
    and "\<And>c. c < length bcs \<Longrightarrow> bc_addr (bcs' ! c) = bc_addr (bcs ! c) \<and> bc_auth (bcs' ! c) = bc_auth (bcs ! c) \<and> bc_database (bcs' ! c) = bc_database (bcs ! c)"
    and "sc_owner sc' = sc_owner sc" "sc_addr sc' = sc_addr sc" "sc_auth sc' = sc_auth sc" "sc_conns sc' = sc_conns sc" "sc_single sc' = sc_single sc"
  shows "shared_ok config bcs' pools' sc'"
proof -
  have "c < length bcs' \<and> bc_addr (bcs' ! c) = sc_addr sc' \<and> bc_auth (bcs' ! c) = sc_auth sc' \<and> bc_database (bcs' ! c) = int d"
    if "d < length (sc_conns sc)" "c \<in> set (sc_conns sc ! d)" for c d
  proof -
    have "c < length bcs" "bc_addr (bcs ! c) = sc_addr sc \<and> bc_auth (bcs ! c) = sc_auth sc \<and> bc_database (bcs ! c) = int d"
      using assms(1) that by (auto simp: shared_ok_def)
    with assms show ?thesis by simp
  qed
  with assms show ?thesis by (simp add: shared_ok_def)
qed

lemma shared_ok_conns:
  assumes "heap_ok config h" "i < length (hp_scs h)" "c \<in> set (conns_of h i)"
  shows "c < length (hp_bcs h)"
proof -
  obtain xs where "xs \<in> set (sc_conns (shared h i))" and c: "c \<in> set xs" using assms(3) by (auto simp: conns_of_def)
  then obtain d where d: "d < length (sc_conns (shared h i))" "xs = sc_conns (shared h i) ! d" by (auto simp: in_set_conv_nth)
  show ?thesis using heap_okD(1) [OF assms(1,2)] c d by (simp add: shared_ok_def)
qed

lemma owner_pool: "heap_ok config h \<Longrightarrow> i < length (hp_scs h) \<Longrightarrow> sc_owner (shared h i) < length (hp_pools h)"
  using heap_okD(1) by (simp add: shared_ok_def)

lemma pool_entry:
  assumes "heap_ok config h" "p < length (hp_pools h)" "(a, i) \<in> set (sp_pool (hp_pools h ! p))"
  shows "i < length (hp_scs h)" "sc_addr (shared h i) = a" "sc_owner (shared h i) = p" "0 < sc_refcnt (shared h i)"
    "sc_auth (shared h i) = sp_auth (hp_pools h ! p)" "listed h i"
  using heap_okD(3) [OF assms(1,2)] assms(3) by (auto simp: pool_ok_def listed_def)

lemma distinct_pool: "heap_ok config h \<Longrightarrow> p < length (hp_pools h) \<Longrightarrow> distinct (map fst (sp_pool (hp_pools h ! p)))"
  using heap_okD(3) by (simp add: pool_ok_def)

lemma listed_unique: "heap_ok config h \<Longrightarrow> i < length (hp_scs h) \<Longrightarrow> listed h i \<longleftrightarrow> map_of (sp_pool (pool_of h i)) (sc_addr (shared h i)) = Some i"
  using distinct_pool [OF _ owner_pool] by (auto simp: listed_def intro: map_of_is_SomeI map_of_SomeD)

lemma setRefcnt_shared:
  "shared (setRefcnt i n h) j = (if j = i \<and> i < length (hp_scs h) then (shared h i)\<lparr>sc_refcnt := n\<rparr> else shared h j)"
  by (cases "i < length (hp_scs h)") (auto simp: setRefcnt_def list_update_beyond not_less)

lemma setRefcnt_simps [simp]:
  "length (hp_scs (setRefcnt i n h)) = length (hp_scs h)" "hp_bcs (setRefcnt i n h) = hp_bcs h" "hp_pools (setRefcnt i n h) = hp_pools h"
  "sc_addr (shared (setRefcnt i n h) j) = sc_addr (shared h j)" "sc_owner (shared (setRefcnt i n h) j) = sc_owner (shared h j)"
  "sc_auth (shared (setRefcnt i n h) j) = sc_auth (shared h j)" "sc_conns (shared (setRefcnt i n h) j) = sc_conns (shared h j)"
  "sc_single (shared (setRefcnt i n h) j) = sc_single (shared h j)"
  by (auto simp: setRefcnt_shared) (simp_all add: setRefcnt_def)

lemma listed_setRefcnt [simp]: "listed (setRefcnt i n h) j = listed h j"
  by (simp add: listed_def)

lemma conns_of_setRefcnt [simp]: "conns_of (setRefcnt i n h) j = conns_of h j"
  by (simp add: conns_of_def)

lemma shared_ok_setRefcnt: "shared_ok config bcs pools (shared h j) \<Longrightarrow> shared_ok config bcs pools (shared (setRefcnt i n h) j)"
  by (erule shared_ok_cong) auto

lemma grown_setRefcnt: "grown h (setRefcnt i n h)"
  by (simp add: grown_def)

lemma heap_ok_retained:
  assumes "heap_ok config h" "0 < n" "i < length (hp_scs h)" "listed h i"
  shows "heap_ok config (setRefcnt i n h)"
proof (rule heap_okI)
  show "pool_ok (hp_scs (setRefcnt i n h)) p (hp_pools (setRefcnt i n h) ! p)" if "p < length (hp_pools (setRefcnt i n h))" for p
    using heap_okD(3) [OF assms(1), of p] that assms(2) by (auto simp: pool_ok_def setRefcnt_shared)
  show "listed (setRefcnt i n h) j" if "j < length (hp_scs (setRefcnt i n h))" "0 < sc_refcnt (shared (setRefcnt i n h) j)" "\<not> sp_closed (pool_of (setRefcnt i n h) j)" for j
    using that assms heap_okD(4) [OF assms(1)] by (cases "j = i") (auto simp: setRefcnt_shared)
qed (use heap_okD [OF assms(1)] in \<open>auto intro: shared_ok_setRefcnt\<close>)

lemma Retain_counts:
  assumes ok: "refs_ok config P h R" and i: "i < length (hp_scs h)" "listed h i" "sc_owner (shared h i) \<in> P"
  shows "\<exists>h1. Retain i h = Some (i, h1) \<and> refs_ok config P h1 (add_mset i R) \<and> grown h h1"
proof -
  have p: "0 < sc_refcnt (shared h i)"
    using ok i pool_entry(4) [OF _ owner_pool] unfolding refs_ok_def listed_def by blast
  have "heap_ok config (setRefcnt i (sc_refcnt (shared h i) + 1) h)"
    by (rule heap_ok_retained) (use ok p i in \<open>auto simp: refs_ok_def\<close>)
  then have "refs_ok config P (setRefcnt i (sc_refcnt (shared h i) + 1) h) (add_mset i R)"
    using ok i by (auto simp: refs_ok_def setRefcnt_shared)
  with p show ?thesis by (simp add: Retain_def grown_setRefcnt)
qed

lemma setPool_simps [simp]:
  "hp_scs (setPool p e h) = hp_scs h" "hp_bcs (setPool p e h) = hp_bcs h" "length (hp_pools (setPool p e h)) = length (hp_pools h)"
  "sp_closed (hp_pools (setPool p e h) ! q) = sp_closed (hp_pools h ! q)" "sp_auth (hp_pools (setPool p e h) ! q) = sp_auth (hp_pools h ! q)"
  "sp_parallel (hp_pools (setPool p e h) ! q) = sp_parallel (hp_pools h ! q)"
  by (cases "p < length (hp_pools h)"; cases "p = q"; simp add: setPool_def list_update_beyond not_less)+

lemma setPool_entries:
  "sp_pool (hp_pools (setPool p e h) ! q) = (if p = q \<and> p < length (hp_pools h) then e else sp_pool (hp_pools h ! q))"
  by (cases "p < length (hp_pools h)") (auto simp: setPool_def list_update_beyond not_less)

text \<open>The last reference goes: the connections are closed and the pool forgets the address.\<close>

definition freed :: "nat \<Rightarrow> heap \<Rightarrow> heap" where
  "freed i h =
     setPool (sc_owner (shared h i)) (filter (\<lambda>(a, j). a \<noteq> sc_addr (shared h i)) (sp_pool (pool_of h i)))
       (closeConns (conns_of h i) (setRefcnt i 0 h))"

lemma freed_simps [simp]:
  "length (hp_scs (freed i h)) = length (hp_scs h)" "length (hp_bcs (freed i h)) = length (hp_bcs h)" "length (hp_pools (freed i h)) = length (hp_pools h)"
  "sc_addr (shared (freed i h) j) = sc_addr (shared h j)" "sc_owner (shared (freed i h) j) = sc_owner (shared h j)"
  "sc_auth (shared (freed i h) j) = sc_auth (shared h j)" "sc_conns (shared (freed i h) j) = sc_conns (shared h j)"
  "sc_single (shared (freed i h) j) = sc_single (shared h j)"
  "conns_of (freed i h) j = conns_of h j" "sp_parallel (hp_pools (freed i h) ! q) = sp_parallel (hp_pools h ! q)"
  "sp_closed (hp_pools (freed i h) ! q) = sp_closed (hp_pools h ! q)" "sp_auth (hp_pools (freed i h) ! q) = sp_auth (hp_pools h ! q)"
  by (simp_all add: freed_def conns_of_def)

lemma freed_refcnt: "i < length (hp_scs h) \<Longrightarrow> sc_refcnt (shared (freed i h) j) = (if j = i then 0 else sc_refcnt (shared h j))"
  by (simp add: freed_def setRefcnt_shared)

lemma freed_conn:
  "c < length (hp_bcs h) \<Longrightarrow> hp_bcs (freed i h) ! c = (if c \<in> set (conns_of h i) then BackendConn_Close (hp_bcs h ! c) else hp_bcs h ! c)"
  by (simp add: freed_def closeConns_nth)

lemma freed_listed:
  assumes "heap_ok config h" "i < length (hp_scs h)" "listed h i" "j < length (hp_scs h)"
  shows "listed (freed i h) j \<longleftrightarrow> j \<noteq> i \<and> listed h j"
proof -
  have "j = i" if "listed h j" "sc_owner (shared h j) = sc_owner (shared h i)" "sc_addr (shared h j) = sc_addr (shared h i)"
    using that assms listed_unique [OF assms(1)] by auto
  moreover have "listed (freed i h) j \<longleftrightarrow> listed h j \<and> \<not> (sc_owner (shared h j) = sc_owner (shared h i) \<and> sc_addr (shared h j) = sc_addr (shared h i))"
    unfolding listed_def freed_simps using owner_pool [OF assms(1,2)] by (simp add: freed_def setPool_entries)
  ultimately show ?thesis using assms(3) by blast
qed

lemma heap_ok_freed:
  assumes ok: "heap_ok config h" and i: "i < length (hp_scs h)" "listed h i"
  shows "heap_ok config (freed i h)"
proof (rule heap_okI)
  fix j assume j: "j < length (hp_scs (freed i h))"
  then show "shared_ok config (hp_bcs (freed i h)) (length (hp_pools (freed i h))) (shared (freed i h) j)"
    using shared_ok_cong [of config "hp_bcs h" "length (hp_pools h)" "shared h j"] heap_okD(1) [OF ok] by (simp add: freed_conn)
  show "set (conns_of (freed i h) j) \<inter> set (conns_of (freed i h) k) = {}" if "k < length (hp_scs (freed i h))" "j \<noteq> k" for k
    using heap_okD(2) [OF ok] j that by simp
  show "listed (freed i h) j" if "0 < sc_refcnt (shared (freed i h) j)" "\<not> sp_closed (pool_of (freed i h) j)"
    using that j heap_okD(4) [OF ok, of j] freed_listed [OF ok i] i by (auto simp: freed_refcnt split: if_splits)
  show "bc_closed (hp_bcs (freed i h) ! c) \<longleftrightarrow> \<not> listed (freed i h) j" if c: "c \<in> set (conns_of (freed i h) j)" for c
  proof -
    have "c \<in> set (conns_of h i) \<longleftrightarrow> j = i" using heap_okD(2) [OF ok i(1), of j] j c by auto
    then show ?thesis
      using heap_okD(5) [OF ok, of j c] freed_listed [OF ok i, of j] shared_ok_conns [OF ok, of j c] j c by (auto simp: freed_conn)
  qed
next
  fix p assume p: "p < length (hp_pools (freed i h))"
  define es where "es = sp_pool (hp_pools (freed i h) ! p)"
  have es: "es = (if sc_owner (shared h i) = p then filter (\<lambda>(a, j). a \<noteq> sc_addr (shared h i)) (sp_pool (hp_pools h ! p)) else sp_pool (hp_pools h ! p))"
    using p by (simp add: es_def freed_def setPool_entries)
  then have "distinct (map fst es)" using distinct_pool [OF ok, of p] p by (simp add: distinct_map_filter)
  moreover have "b < length (hp_scs h) \<and> sc_addr (shared h b) = a \<and> sc_owner (shared h b) = p \<and> sc_auth (shared h b) = sp_auth (hp_pools h ! p) \<and>
      0 < sc_refcnt (shared h b) \<and> b \<noteq> i" if e: "(a, b) \<in> set es" for a b
  proof -
    have "(a, b) \<in> set (sp_pool (hp_pools h ! p))" using e es by (auto split: if_splits)
    note b = pool_entry [OF ok _ this]
    have "b \<noteq> i" using e es b p by (auto split: if_splits)
    with b p show ?thesis by simp
  qed
  moreover have "0 < sp_parallel (hp_pools h ! p)" "sp_closed (hp_pools h ! p) \<longrightarrow> es = []"
    using heap_okD(3) [OF ok, of p] p es by (auto simp: pool_ok_def)
  ultimately show "pool_ok (hp_scs (freed i h)) p (hp_pools (freed i h) ! p)"
    unfolding pool_ok_def es_def [symmetric] freed_simps using i(1) by (fastforce simp: freed_refcnt)
qed

lemma refs_owner: "refs_ok config P h R \<Longrightarrow> i \<in># R \<Longrightarrow> i < length (hp_scs h) \<and> sc_owner (shared h i) \<in> P \<and> listed h i \<and> 0 < count R i \<and> sc_refcnt (shared h i) = int (count R i)"
  unfolding refs_ok_def using heap_okD(4) by fastforce

lemma Release_counts:
  assumes ok: "refs_ok config P h R" and i: "i \<in># R"
  shows "\<exists>h1. Release (Some i) h = Some h1 \<and> refs_ok config P h1 (R - {#i#}) \<and> grown h h1"
proof -
  note r = refs_owner [OF ok i]
  show ?thesis
  proof (cases "count R i = 1")
    case False
    have more: "1 < count R i" using False i count_greater_eq_one_iff [of R i] by linarith
    have "heap_ok config (setRefcnt i (sc_refcnt (shared h i) - 1) h)"
      by (rule heap_ok_retained) (use ok r more in \<open>simp_all add: refs_ok_def\<close>)
    then have "refs_ok config P (setRefcnt i (sc_refcnt (shared h i) - 1) h) (R - {#i#})"
      using ok r unfolding refs_ok_def by (auto simp: setRefcnt_shared dest: in_diffD)
    with r False show ?thesis by (simp add: Release_def Let_def grown_setRefcnt)
  next
    case True
    have "refs_ok config P (freed i h) (R - {#i#})"
      using ok r True heap_ok_freed [of config h i] unfolding refs_ok_def by (auto simp: freed_refcnt dest: in_diffD)
    moreover have "grown h (freed i h)" by (simp add: grown_def)
    moreover have "Release (Some i) h = Some (freed i h)" using r True by (simp add: Release_def freed_def Let_def conns_of_def)
    ultimately show ?thesis by blast
  qed
qed

lemma length_blocks: "length (concat (map (\<lambda>d. replicate k (f d)) [0..<n])) = n * k"
  by (induction n) auto

lemma nth_blocks: "d < n \<Longrightarrow> i < k \<Longrightarrow> concat (map (\<lambda>d. replicate k (f d)) [0..<n]) ! (d * k + i) = f d"
proof (induction n)
  case (Suc n)
  show ?case
  proof (cases "d < n")
    case True
    have "d * k + i < n * k" using True Suc.prems(2) mult_le_mono1 [of "Suc d" n k] by simp
    with Suc True show ?thesis by (simp add: nth_append length_blocks)
  next
    case False
    with Suc.prems show ?thesis by (simp add: less_Suc_eq nth_append length_blocks)
  qed
qed simp

lemma set_blocks: "set (concat (map (\<lambda>d. map (\<lambda>i. b + d * k + i) [0..<k]) [0..<n])) \<subseteq> {b..<b + n * k}"
proof -
  have "d * k + i < n * k" if "d < n" "i < k" for d i :: nat
    using that mult_le_mono1 [of "Suc d" n k] by simp
  then show ?thesis by (auto simp: add.assoc)
qed

text \<open>A new shared connection: it is listed, its connections are new and open.\<close>

lemma newShared_ok:
  assumes "0 \<le> cf_BackendNumberDatabases config" "p < length (hp_pools h)" "0 < sp_parallel (hp_pools h ! p)"
    and new: "newSharedBackendConn config addr p h = (i, h1)"
  shows "i = length (hp_scs h)" "hp_pools h1 = hp_pools h" "length (hp_scs h1) = Suc i" "\<And>j. j < i \<Longrightarrow> shared h1 j = shared h j"
    "length (hp_bcs h) \<le> length (hp_bcs h1)" "\<And>c. c < length (hp_bcs h) \<Longrightarrow> hp_bcs h1 ! c = hp_bcs h ! c"
    "sc_addr (shared h1 i) = addr" "sc_owner (shared h1 i) = p" "sc_auth (shared h1 i) = sp_auth (hp_pools h ! p)" "sc_refcnt (shared h1 i) = 1"
    "shared_ok config (hp_bcs h1) (length (hp_pools h)) (shared h1 i)"
    "\<And>c. c \<in> set (conns_of h1 i) \<Longrightarrow> length (hp_bcs h) \<le> c \<and> \<not> bc_closed (hp_bcs h1 ! c)"
proof -
  define k where "k = nat (sp_parallel (hp_pools h ! p))"
  define n where "n = nat (cf_BackendNumberDatabases config)"
  define b where "b = length (hp_bcs h)"
  define f where "f d = NewBackendConnWithAuth addr (int d) (sp_auth (hp_pools h ! p))" for d :: nat
  define blocks where "blocks = concat (map (\<lambda>d. replicate k (f d)) [0..<n])"
  have k: "0 < k" using assms(3) by (simp add: k_def)
  obtain host port single where h1: "i = length (hp_scs h)"
    "h1 = h\<lparr>hp_bcs := hp_bcs h @ blocks, hp_scs := hp_scs h @ [\<lparr>sc_addr = addr, sc_host = host, sc_port = port, sc_owner = p,
        sc_auth = sp_auth (hp_pools h ! p), sc_conns = map (\<lambda>d. map (\<lambda>i. b + d * k + i) [0..<k]) [0..<n], sc_single = single, sc_refcnt = 1\<rparr>]\<rparr>"
    and single: "single = None \<or> single = Some (map hd (map (\<lambda>d. map (\<lambda>i. b + d * k + i) [0..<k]) [0..<n]))"
    using new unfolding newSharedBackendConn_def Let_def
    by (auto simp: k_def n_def b_def f_def blocks_def split: prod.splits if_splits)
  have at: "hp_bcs h1 ! (b + d * k + j) = f d" "b + d * k + j < length (hp_bcs h1)" if "d < n" "j < k" for d j
    using that nth_blocks [of d n j k f] mult_le_mono1 [of "Suc d" n k]
    by (simp_all add: h1(2) b_def blocks_def length_blocks nth_append add.assoc)
  have block: "length (hp_bcs h) \<le> c \<and> c < length (hp_bcs h1) \<and> hp_bcs h1 ! c = f d" if "d < n" "c \<in> set (map (\<lambda>i. b + d * k + i) [0..<k])" for d c
    using that at [of d] by (auto simp: b_def image_iff simp del: set_upt) simp_all
  have f: "bc_addr (f d) = addr \<and> bc_auth (f d) = sp_auth (hp_pools h ! p) \<and> bc_database (f d) = int d \<and> \<not> bc_closed (f d)" for d
    by (simp add: f_def NewBackendConnWithAuth_def)
  show "i = length (hp_scs h)" by (rule h1(1))
  show "hp_pools h1 = hp_pools h" "length (hp_scs h1) = Suc i" "\<And>j. j < i \<Longrightarrow> shared h1 j = shared h j"
    "length (hp_bcs h) \<le> length (hp_bcs h1)" "\<And>c. c < length (hp_bcs h) \<Longrightarrow> hp_bcs h1 ! c = hp_bcs h ! c"
    "sc_addr (shared h1 i) = addr" "sc_owner (shared h1 i) = p" "sc_auth (shared h1 i) = sp_auth (hp_pools h ! p)" "sc_refcnt (shared h1 i) = 1"
    by (simp_all add: h1 nth_append)
  have sc: "sc_conns (shared h1 i) = map (\<lambda>d. map (\<lambda>i. b + d * k + i) [0..<k]) [0..<n]" "sc_single (shared h1 i) = single" by (simp_all add: h1)
  have "sc_owner (shared h1 i) < length (hp_pools h)" "int (length (sc_conns (shared h1 i))) = cf_BackendNumberDatabases config"
    "sc_addr (shared h1 i) = addr" "sc_auth (shared h1 i) = sp_auth (hp_pools h ! p)" using assms(1,2) by (simp_all add: h1 n_def)
  then show "shared_ok config (hp_bcs h1) (length (hp_pools h)) (shared h1 i)"
    unfolding shared_ok_def using single k block f by (auto simp: sc simp del: set_map)
  fix c assume "c \<in> set (conns_of h1 i)"
  then obtain d where "d < n" "c \<in> set (map (\<lambda>i. b + d * k + i) [0..<k])" by (auto simp: conns_of_def sc)
  with block f show "length (hp_bcs h) \<le> c \<and> \<not> bc_closed (hp_bcs h1 ! c)" by simp
qed

lemma create_ok:
  assumes ok: "heap_ok config h" and n: "0 \<le> cf_BackendNumberDatabases config"
    and p: "p < length (hp_pools h)" "map_of (sp_pool (hp_pools h ! p)) addr = None" "\<not> sp_closed (hp_pools h ! p)" and new: "createShared config p addr h = (i, h2)"
  shows "heap_ok config h2" "grown h h2" "i = length (hp_scs h)" "length (hp_scs h2) = Suc i" "sc_addr (shared h2 i) = addr" "sc_owner (shared h2 i) = p"
    "sc_refcnt (shared h2 i) = 1" "\<And>j. j < i \<Longrightarrow> shared h2 j = shared h j" "length (hp_pools h2) = length (hp_pools h)"
    "\<And>q. sp_closed (hp_pools h2 ! q) = sp_closed (hp_pools h ! q)" "listed h2 i" "\<And>q. q \<noteq> p \<Longrightarrow> hp_pools h2 ! q = hp_pools h ! q"
    "length (hp_bcs h) \<le> length (hp_bcs h2)" "\<And>c. c < length (hp_bcs h) \<Longrightarrow> hp_bcs h2 ! c = hp_bcs h ! c"
proof -
  have par: "0 < sp_parallel (hp_pools h ! p)" using heap_okD(3) [OF ok p(1)] by (simp add: pool_ok_def)
  obtain h1 where h1: "newSharedBackendConn config addr p h = (i, h1)" "h2 = setPool p ((addr, i) # sp_pool (hp_pools h ! p)) h1"
    using new by (auto simp: createShared_def Let_def split: prod.splits)
  note n = newShared_ok [OF n p(1) par h1(1)]
  have entries: "sp_pool (hp_pools h2 ! q) = (if q = p then (addr, i) # sp_pool (hp_pools h ! p) else sp_pool (hp_pools h ! q))" for q
    using p n by (simp add: h1 setPool_entries)
  have old: "listed h2 j \<longleftrightarrow> listed h j" if "j < i" for j
    using that n p(1) entries by (auto simp: listed_def h1(2))
  show new: "listed h2 i" using n entries by (simp add: listed_def h1(2))
  show simps: "i = length (hp_scs h)" "length (hp_scs h2) = Suc i" "sc_addr (shared h2 i) = addr" "sc_owner (shared h2 i) = p" "sc_refcnt (shared h2 i) = 1"
    "\<And>j. j < i \<Longrightarrow> shared h2 j = shared h j" "length (hp_pools h2) = length (hp_pools h)" "\<And>q. sp_closed (hp_pools h2 ! q) = sp_closed (hp_pools h ! q)"
    "length (hp_bcs h) \<le> length (hp_bcs h2)" "\<And>c. c < length (hp_bcs h) \<Longrightarrow> hp_bcs h2 ! c = hp_bcs h ! c"
    using n by (simp_all add: h1(2))
  show "\<And>q. q \<noteq> p \<Longrightarrow> hp_pools h2 ! q = hp_pools h ! q" using n(2) by (simp add: h1(2) setPool_def)
  show "grown h h2" using n by (simp add: grown_def h1(2))
  have conns: "conns_of h2 j = conns_of h j" if "j < i" for j using simps that by (simp add: conns_of_def)
  have fresh: "length (hp_bcs h) \<le> c \<and> \<not> bc_closed (hp_bcs h2 ! c)" if "c \<in> set (conns_of h2 i)" for c
    using n(12) that by (simp add: h1(2) conns_of_def)
  have below: "c < length (hp_bcs h)" if "c \<in> set (conns_of h j)" "j < i" for c j using shared_ok_conns [OF ok] that simps(1) by simp
  show "heap_ok config h2"
  proof (rule heap_okI)
    show "shared_ok config (hp_bcs h2) (length (hp_pools h2)) (shared h2 j)" if "j < length (hp_scs h2)" for j
    proof (cases "j = i")
      case True
      with n(2,11) show ?thesis by (simp add: h1(2))
    next
      case False
      with that simps have j: "j < i" "shared h2 j = shared h j" by auto
      show ?thesis by (rule shared_ok_cong [OF heap_okD(1) [OF ok, of j]]) (use j simps in auto)
    qed
    show "set (conns_of h2 j) \<inter> set (conns_of h2 l) = {}" if jl: "j < length (hp_scs h2)" "l < length (hp_scs h2)" "j \<noteq> l" for j l
    proof -
      consider "j < i" "l < i" | "j = i" "l < i" | "j < i" "l = i" using jl unfolding simps(2) less_Suc_eq by blast
      then show ?thesis
      proof cases
        case 1
        with heap_okD(2) [OF ok, of j l] jl(3) conns simps(1) show ?thesis by simp
      qed (use fresh below conns in \<open>fastforce+\<close>)
    qed
    show "pool_ok (hp_scs h2) q (hp_pools h2 ! q)" if "q < length (hp_pools h2)" for q
    proof -
      have q: "q < length (hp_pools h)" using that simps by simp
      have "j < i \<and> j < length (hp_scs h2) \<and> sc_addr (shared h2 j) = a \<and> sc_owner (shared h2 j) = q \<and> sc_auth (shared h2 j) = sp_auth (hp_pools h2 ! q) \<and> 0 < sc_refcnt (shared h2 j)"
        if "(a, j) \<in> set (sp_pool (hp_pools h ! q))" for a j
        using pool_entry [OF ok q that] simps n(2) by (simp add: h1(2))
      moreover have "sc_auth (shared h2 i) = sp_auth (hp_pools h2 ! p)" using n by (simp add: h1(2))
      moreover have "sp_parallel (hp_pools h2 ! q) = sp_parallel (hp_pools h ! q)" using n(2) by (simp add: h1(2))
      ultimately show ?thesis
        using simps(1-8) p(2,3) distinct_pool [OF ok q] heap_okD(3) [OF ok q] entries [of q] by (auto simp: pool_ok_def map_of_eq_None_iff)
    qed
    show "listed h2 j" if "j < length (hp_scs h2)" "0 < sc_refcnt (shared h2 j)" "\<not> sp_closed (pool_of h2 j)" for j
      using heap_okD(4) [OF ok, of j] that simps new old by (cases "j = i") auto
    show "bc_closed (hp_bcs h2 ! c) \<longleftrightarrow> \<not> listed h2 j" if "j < length (hp_scs h2)" "c \<in> set (conns_of h2 j)" for j c
      using heap_okD(5) [OF ok, of j c] that simps new old conns fresh below [of c j] by (cases "j = i") auto
  qed
qed

lemma Pool_Retain_counts:
  assumes ok: "refs_ok config P h R" and n: "0 \<le> cf_BackendNumberDatabases config" and p: "p \<in> P"
  shows "\<exists>i h1. Pool_Retain config p addr h = Some (Some i, h1) \<and> refs_ok config P h1 (add_mset i R) \<and> grown h h1 \<and>
    i < length (hp_scs h1) \<and> sc_addr (shared h1 i) = addr \<and> sc_owner (shared h1 i) = p"
proof -
  have h: "heap_ok config h" "p < length (hp_pools h)" "\<not> sp_closed (hp_pools h ! p)" using ok p by (auto simp: refs_ok_def)
  show ?thesis
  proof (cases "map_of (sp_pool (hp_pools h ! p)) addr")
    case (Some i)
    note e = pool_entry [OF h(1,2) map_of_SomeD [OF Some]]
    obtain h1 where "Retain i h = Some (i, h1)" "refs_ok config P h1 (add_mset i R)" "grown h h1"
      using Retain_counts [OF ok e(1,6)] e p by auto
    with Some h(3) e show ?thesis by (auto simp: Pool_Retain_def grown_def)
  next
    case None
    obtain i h1 where c: "createShared config p addr h = (i, h1)" by fastforce
    note n = create_ok [OF h(1) n h(2) None h(3) c]
    have "count R i = 0" using ok n(3) unfolding refs_ok_def by (meson count_inI less_irrefl)
    then have "refs_ok config P h1 (add_mset i R)"
      using ok n p unfolding refs_ok_def by (auto simp: less_Suc_eq)
    with None h(3) c n show ?thesis by (simp add: Pool_Retain_def)
  qed
qed

text \<open>The pools of single users: their connections are never given back, the whole pool is closed.\<close>

lemma GetOrCreate_ok:
  assumes ok: "refs_ok config P h R" and n: "0 \<le> cf_BackendNumberDatabases config" and p: "p \<notin> P" "p < length (hp_pools h)"
    and g: "Pool_GetOrCreate config p addr h = (s, h1)"
  shows "refs_ok config P h1 R \<and> grown h h1 \<and> length (hp_pools h1) = length (hp_pools h) \<and> (\<forall>q. sp_closed (hp_pools h1 ! q) = sp_closed (hp_pools h ! q)) \<and>
    (\<forall>i. s = Some i \<longrightarrow> i < length (hp_scs h1) \<and> listed h1 i \<and> sc_owner (shared h1 i) = p \<and> sc_addr (shared h1 i) = addr)"
proof -
  have h: "heap_ok config h" using ok by (auto simp: refs_ok_def)
  show ?thesis
  proof (cases "\<not> sp_closed (hp_pools h ! p) \<and> map_of (sp_pool (hp_pools h ! p)) addr = None")
    case True
    obtain i h2 where c: "createShared config p addr h = (i, h2)" by fastforce
    note n = create_ok [OF h n p(2) _ _ c]
    have "refs_ok config P h2 R" using ok n True p unfolding refs_ok_def by (auto simp: less_Suc_eq)
    with True c g n show ?thesis by (auto simp: Pool_GetOrCreate_def)
  next
    case False
    then have "h1 = h" "\<And>i. s = Some i \<Longrightarrow> (addr, i) \<in> set (sp_pool (hp_pools h ! p))"
      using g by (auto simp: Pool_GetOrCreate_def Let_def split: if_splits option.splits dest: map_of_SomeD)
    with ok pool_entry [OF h p(2)] show ?thesis by auto
  qed
qed

lemma Pool_Close_simps [simp]:
  "hp_scs (Pool_Close p h) = hp_scs h" "length (hp_bcs (Pool_Close p h)) = length (hp_bcs h)" "length (hp_pools (Pool_Close p h)) = length (hp_pools h)"
  "conns_of (Pool_Close p h) i = conns_of h i" "q \<noteq> p \<Longrightarrow> hp_pools (Pool_Close p h) ! q = hp_pools h ! q"
  by (simp_all add: Pool_Close_def Let_def conns_of_def)

lemma Pool_Close_ok:
  assumes ok: "heap_ok config h" and p: "p < length (hp_pools h)"
  shows "heap_ok config (Pool_Close p h)" "grown h (Pool_Close p h)" "sp_closed (hp_pools (Pool_Close p h) ! p)" "sp_pool (hp_pools (Pool_Close p h) ! p) = []"
    "sp_auth (hp_pools (Pool_Close p h) ! p) = sp_auth (hp_pools h ! p)"
proof -
  define h1 where "h1 = Pool_Close p h"
  have empty: "sp_closed (hp_pools h ! p) \<Longrightarrow> sp_pool (hp_pools h ! p) = []" using heap_okD(3) [OF ok p] by (simp add: pool_ok_def)
  have pool: "sp_closed (hp_pools h1 ! p)" "sp_pool (hp_pools h1 ! p) = []" "sp_auth (hp_pools h1 ! p) = sp_auth (hp_pools h ! p)"
    "sp_parallel (hp_pools h1 ! p) = sp_parallel (hp_pools h ! p)"
    using p empty by (auto simp: h1_def Pool_Close_def Let_def)
  then show "sp_closed (hp_pools (Pool_Close p h) ! p)" "sp_pool (hp_pools (Pool_Close p h) ! p) = []" "sp_auth (hp_pools (Pool_Close p h) ! p) = sp_auth (hp_pools h ! p)"
    by (simp_all add: h1_def)
  have listed: "listed h1 i \<longleftrightarrow> sc_owner (shared h i) \<noteq> p \<and> listed h i" for i
    using pool by (cases "sc_owner (shared h i) = p") (auto simp: listed_def h1_def)
  have closed: "c \<in> set (concat (concat (map (\<lambda>(a, i). sc_conns (hp_scs h ! i)) (sp_pool (hp_pools h ! p))))) \<longleftrightarrow> sc_owner (shared h i) = p \<and> listed h i"
    if i: "i < length (hp_scs h)" and c: "c \<in> set (conns_of h i)" for i c
  proof
    assume "sc_owner (shared h i) = p \<and> listed h i"
    then have "(sc_addr (shared h i), i) \<in> set (sp_pool (hp_pools h ! p))" by (auto simp: listed_def)
    with c show "c \<in> set (concat (concat (map (\<lambda>(a, i). sc_conns (hp_scs h ! i)) (sp_pool (hp_pools h ! p)))))" by (force simp: conns_of_def)
  next
    assume "c \<in> set (concat (concat (map (\<lambda>(a, i). sc_conns (hp_scs h ! i)) (sp_pool (hp_pools h ! p)))))"
    then obtain a j where j: "(a, j) \<in> set (sp_pool (hp_pools h ! p))" "c \<in> set (conns_of h j)" by (auto simp: conns_of_def)
    note e = pool_entry [OF ok p j(1)]
    have "j = i" using heap_okD(2) [OF ok e(1) i] c j(2) by auto
    with e show "sc_owner (shared h i) = p \<and> listed h i" by auto
  qed
  have bc: "bc_closed (hp_bcs h1 ! c) \<longleftrightarrow> bc_closed (hp_bcs h ! c) \<or> sc_owner (shared h i) = p \<and> listed h i"
    if "i < length (hp_scs h)" "c \<in> set (conns_of h i)" for i c
    using closed [OF that] shared_ok_conns [OF ok that] empty by (auto simp: h1_def Pool_Close_def Let_def closeConns_nth listed_def)
  have same: "bc_addr (hp_bcs h1 ! c) = bc_addr (hp_bcs h ! c) \<and> bc_auth (hp_bcs h1 ! c) = bc_auth (hp_bcs h ! c) \<and> bc_database (hp_bcs h1 ! c) = bc_database (hp_bcs h ! c)"
    if "c < length (hp_bcs h)" for c
    using that by (simp add: h1_def Pool_Close_def Let_def closeConns_nth)
  show "heap_ok config (Pool_Close p h)" unfolding h1_def [symmetric]
  proof (rule heap_okI)
    fix i assume i: "i < length (hp_scs h1)"
    show "shared_ok config (hp_bcs h1) (length (hp_pools h1)) (shared h1 i)"
      by (rule shared_ok_cong [OF heap_okD(1) [OF ok, of i]]) (use i same in \<open>auto simp: h1_def\<close>)
    show "set (conns_of h1 i) \<inter> set (conns_of h1 j) = {}" if "j < length (hp_scs h1)" "i \<noteq> j" for j
      using heap_okD(2) [OF ok, of i j] i that by (simp add: h1_def)
    show "listed h1 i" if "0 < sc_refcnt (shared h1 i)" "\<not> sp_closed (pool_of h1 i)"
      using that i heap_okD(4) [OF ok, of i] pool listed [of i] by (cases "sc_owner (shared h i) = p") (auto simp: h1_def)
    show "bc_closed (hp_bcs h1 ! c) \<longleftrightarrow> \<not> listed h1 i" if "c \<in> set (conns_of h1 i)" for c
      using bc [of i c] heap_okD(5) [OF ok, of i c] listed [of i] i that by (auto simp: h1_def)
  next
    show "pool_ok (hp_scs h1) q (hp_pools h1 ! q)" if "q < length (hp_pools h1)" for q
      using heap_okD(3) [OF ok, of q] pool that by (cases "q = p") (auto simp: h1_def pool_ok_def)
  qed
  have "sp_auth (hp_pools h1 ! q) = sp_auth (hp_pools h ! q)" for q using pool(3) by (cases "q = p") (simp_all add: h1_def)
  then show "grown h (Pool_Close p h)" by (simp add: grown_def h1_def)
qed

lemma newPool_ok:
  assumes "heap_ok config h" "newSharedBackendConnPool parallel auth h = (p, h1)"
  shows "heap_ok config h1" "grown h h1" "p = length (hp_pools h)" "hp_scs h1 = hp_scs h" "hp_bcs h1 = hp_bcs h"
    "hp_pools h1 = hp_pools h @ [hp_pools h1 ! p]" "sp_auth (hp_pools h1 ! p) = auth" "\<not> sp_closed (hp_pools h1 ! p)" "sp_pool (hp_pools h1 ! p) = []"
proof -
  show p: "p = length (hp_pools h)" "hp_scs h1 = hp_scs h" "hp_bcs h1 = hp_bcs h" "hp_pools h1 = hp_pools h @ [hp_pools h1 ! p]"
    "sp_auth (hp_pools h1 ! p) = auth" "\<not> sp_closed (hp_pools h1 ! p)" "sp_pool (hp_pools h1 ! p) = []"
    using assms(2) by (auto simp: newSharedBackendConnPool_def)
  have par: "0 < sp_parallel (hp_pools h1 ! p)" using assms(2) by (auto simp: newSharedBackendConnPool_def MaxInt_def)
  have old: "hp_pools h1 ! q = hp_pools h ! q" if "q < length (hp_pools h)" for q using p(4) that by (metis nth_append)
  have listed: "listed h1 i = listed h i" if "i < length (hp_scs h)" for i
    using old owner_pool [OF assms(1) that] by (simp add: listed_def p(2))
  have len: "length (hp_pools h1) = Suc p" using p(1,4) by (metis length_append_singleton)
  show "heap_ok config h1"
  proof (rule heap_okI)
    fix i assume i: "i < length (hp_scs h1)"
    show "shared_ok config (hp_bcs h1) (length (hp_pools h1)) (shared h1 i)"
      by (rule shared_ok_cong [OF heap_okD(1) [OF assms(1), of i]]) (use i p(1-3) len in auto)
    show "set (conns_of h1 i) \<inter> set (conns_of h1 j) = {}" if "j < length (hp_scs h1)" "i \<noteq> j" for j
      using heap_okD(2) [OF assms(1), of i j] i that by (simp add: p(2,3) conns_of_def)
    show "listed h1 i" if "0 < sc_refcnt (shared h1 i)" "\<not> sp_closed (pool_of h1 i)"
      using that i heap_okD(4) [OF assms(1), of i] listed [of i] old owner_pool [OF assms(1), of i] by (simp add: p(2))
    show "bc_closed (hp_bcs h1 ! c) \<longleftrightarrow> \<not> listed h1 i" if "c \<in> set (conns_of h1 i)" for c
      using heap_okD(5) [OF assms(1), of i c] listed [of i] i that by (simp add: p(2,3) conns_of_def)
  next
    show "pool_ok (hp_scs h1) q (hp_pools h1 ! q)" if "q < length (hp_pools h1)" for q
      using heap_okD(3) [OF assms(1), of q] old [of q] that p(1,2,5-7) par len by (cases "q = p") (auto simp: pool_ok_def)
  qed
  show "grown h h1" using p(1-3) len old by (simp add: grown_def)
qed

section \<open>Clients\<close>

text \<open>The loops of the clients, which stop at a panic.\<close>

fun each :: "('a \<Rightarrow> 'h \<Rightarrow> 'h option) \<Rightarrow> 'a list \<Rightarrow> 'h \<Rightarrow> 'h option" where
  "each f [] h = Some h"
| "each f (x # xs) h = Option.bind (f x h) (each f xs)"

fun collect :: "('a \<Rightarrow> 'h \<Rightarrow> ('b \<times> 'h) option) \<Rightarrow> 'a list \<Rightarrow> 'h \<Rightarrow> ('b list \<times> 'h) option" where
  "collect f [] h = Some ([], h)"
| "collect f (x # xs) h =
     Option.bind (f x h) (\<lambda>(y, h1). Option.bind (collect f xs h1) (\<lambda>(ys, h2). Some (y # ys, h2)))"

text \<open>The references of a list of pointers.\<close>

definition pointers :: "nat option list \<Rightarrow> nat multiset" where
  "pointers ps = mset (List.map_filter id ps)"

lemma pointers_simps [simp]:
  "pointers [] = {#}" "pointers (Some i # ps) = add_mset i (pointers ps)" "pointers (None # ps) = pointers ps"
  "pointers (ps @ qs) = pointers ps + pointers qs"
  by (simp_all add: pointers_def List.map_filter_def)

text \<open>
  A counted resource, as its clients see it: a reference that a client holds can be given back, and one
  to a resource of any name can be taken.
\<close>

locale counted =
  fixes holds :: "'h \<Rightarrow> nat multiset \<Rightarrow> bool"
    and later :: "'h \<Rightarrow> 'h \<Rightarrow> bool"
    and give :: "nat option \<Rightarrow> 'h \<Rightarrow> 'h option"
    and get :: "'k \<Rightarrow> 'h \<Rightarrow> (nat option \<times> 'h) option"
    and names :: "'h \<Rightarrow> 'k \<Rightarrow> nat \<Rightarrow> bool"
    and known :: "'k \<Rightarrow> bool"
  assumes give: "holds h R \<Longrightarrow> i \<in># R \<Longrightarrow> \<exists>h1. give (Some i) h = Some h1 \<and> holds h1 (R - {#i#}) \<and> later h h1"
    and give_nil: "give None h = Some h"
    and get: "holds h R \<Longrightarrow> known k \<Longrightarrow> \<exists>i h1. get k h = Some (Some i, h1) \<and> holds h1 (add_mset i R) \<and> later h h1 \<and> names h1 k i"
    and later_refl: "later h h"
    and later_trans: "later h h1 \<Longrightarrow> later h1 h2 \<Longrightarrow> later h h2"
    and names_later: "names h k i \<Longrightarrow> later h h1 \<Longrightarrow> names h1 k i"
begin

lemma give_all:
  assumes "holds h (pointers ps + R)"
  shows "\<exists>h1. each give ps h = Some h1 \<and> holds h1 R \<and> later h h1"
  using assms
proof (induction ps arbitrary: h)
  case Nil
  then show ?case by (simp add: later_refl)
next
  case (Cons p ps)
  show ?case
  proof (cases p)
    case None
    with Cons show ?thesis by (simp add: give_nil)
  next
    case (Some i)
    with Cons.prems have "holds h (add_mset i (pointers ps + R))" by simp
    from give [OF this, of i] obtain h1 where h1: "give (Some i) h = Some h1" "holds h1 (pointers ps + R)" "later h h1" by auto
    from Cons.IH [OF h1(2)] obtain h2 where "each give ps h1 = Some h2" "holds h2 R" "later h1 h2" by auto
    with h1 Some later_trans [OF h1(3)] show ?thesis by simp
  qed
qed

lemma get_all:
  assumes "holds h R" "\<forall>k \<in> set ks. known k"
  shows "\<exists>is h1. collect get ks h = Some (map Some is, h1) \<and> holds h1 (mset is + R) \<and> later h h1 \<and> list_all2 (names h1) ks is"
  using assms
proof (induction ks arbitrary: h R)
  case Nil
  then show ?case by (auto simp: later_refl intro!: exI [of _ "[]"])
next
  case (Cons k ks)
  obtain i h1 where h1: "get k h = Some (Some i, h1)" "holds h1 (add_mset i R)" "later h h1" "names h1 k i"
    using get [OF Cons.prems(1), of k] Cons.prems(2) by auto
  obtain "is" h2 where h2: "collect get ks h1 = Some (map Some is, h2)" "holds h2 (mset is + add_mset i R)" "later h1 h2" "list_all2 (names h2) ks is"
    using Cons.IH [OF h1(2)] Cons.prems(2) by auto
  show ?case
    using h1 h2 later_trans [OF h1(3) h2(3)] names_later [OF h1(4) h2(3)] by (auto intro!: exI [of _ "i # is"])
qed

lemma get_groups:
  assumes "holds h R" "\<forall>ks \<in> set kss. \<forall>k \<in> set ks. known k"
  shows "\<exists>iss h1. collect (collect get) kss h = Some (map (map Some) iss, h1) \<and> holds h1 (mset (concat iss) + R) \<and> later h h1 \<and>
    list_all2 (list_all2 (names h1)) kss iss"
  using assms
proof (induction kss arbitrary: h R)
  case Nil
  then show ?case by (auto simp: later_refl intro!: exI [of _ "[]"])
next
  case (Cons ks kss)
  obtain "is" h1 where h1: "collect get ks h = Some (map Some is, h1)" "holds h1 (mset is + R)" "later h h1" "list_all2 (names h1) ks is"
    using get_all [OF Cons.prems(1), of ks] Cons.prems(2) by auto
  obtain iss h2 where h2: "collect (collect get) kss h1 = Some (map (map Some) iss, h2)" "holds h2 (mset (concat iss) + (mset is + R))" "later h1 h2"
    "list_all2 (list_all2 (names h2)) kss iss" using Cons.IH [OF h1(2)] Cons.prems(2) by auto
  have "list_all2 (names h2) ks is" using h1(4) names_later [OF _ h2(3)] by (rule list_all2_mono)
  with h1 h2 later_trans [OF h1(3) h2(3)] show ?case by (auto simp: ac_simps intro!: exI [of _ "is # iss"])
qed

end

lemma collect_map: "collect f (map g xs) = collect (\<lambda>x. f (g x)) xs"
proof
  show "collect f (map g xs) h = collect (\<lambda>x. f (g x)) xs h" for h
    by (induction xs arbitrary: h) simp_all
qed

definition named :: "heap \<Rightarrow> nat \<times> string \<Rightarrow> nat \<Rightarrow> bool" where
  "named h k i \<longleftrightarrow> i < length (hp_scs h) \<and> sc_owner (shared h i) = fst k \<and> sc_addr (shared h i) = snd k"

interpretation sc: counted "\<lambda>h R. refs_ok config P h R \<and> 0 \<le> cf_BackendNumberDatabases config" grown Release
  "\<lambda>(p, addr). Pool_Retain config p addr" named "\<lambda>(p, addr). p \<in> P" for config P
proof unfold_locales
  show "\<exists>h1. Release (Some i) h = Some h1 \<and> (refs_ok config P h1 (R - {#i#}) \<and> 0 \<le> cf_BackendNumberDatabases config) \<and> grown h h1"
    if "refs_ok config P h R \<and> 0 \<le> cf_BackendNumberDatabases config" "i \<in># R" for h R i
    using Release_counts [of config P h R i] that by auto
  show "Release None h = Some h" for h by (simp add: Release_def)
  show "\<exists>i h1. (case k of (p, addr) \<Rightarrow> Pool_Retain config p addr) h = Some (Some i, h1) \<and>
      (refs_ok config P h1 (add_mset i R) \<and> 0 \<le> cf_BackendNumberDatabases config) \<and> grown h h1 \<and> named h1 k i"
    if "refs_ok config P h R \<and> 0 \<le> cf_BackendNumberDatabases config" "case k of (p, addr) \<Rightarrow> p \<in> P" for h R k
    using Pool_Retain_counts [of config P h R "fst k" "snd k"] that by (auto simp: named_def split: prod.splits)
  show "grown h h2" if "grown h h1" "grown h1 h2" for h h1 h2 using grown_trans that .
  show "named h1 k i" if "named h k i" "grown h h1" for h h1 k i using that by (auto simp: named_def grown_def)
qed simp_all

end
