(* ===== verification/Router.thy ===== *)
theory Router
  imports Backend Mapper Models Sha256
begin

text \<open>
  The routing table of a proxy, \<open>Slot\<close> and \<open>Router\<close> of \<open>src/pkg/proxy/slots.go\<close> and \<open>src/pkg/proxy/router.go\<close>, with the
  snapshot of the access list of \<open>src/pkg/proxy/acl.go\<close> and the pools of the users.  The provider of
  cluster nodes and the broadcast of invalidated keys hold no routing state and are left out.
  \<open>None\<close> is a panic.
\<close>

section \<open>State\<close>

datatype forwardMethod = forwardSync | forwardSemiAsync

definition GetId :: "forwardMethod \<Rightarrow> int" where
  "GetId m = (case m of forwardSync \<Rightarrow> ForwardSync | forwardSemiAsync \<Rightarrow> ForwardSemiAsync)"

text \<open>A slot; \<open>hold\<close> is the flag of its lock and \<open>refs\<close> the number of its requests on the way.\<close>

record RouterSlot =
  rs_id :: int
  rs_hold :: bool
  rs_refs :: nat
  rs_switched :: bool
  rs_backend_id :: int
  rs_backend_bc :: "nat option"
  rs_migrate_id :: int
  rs_migrate_bc :: "nat option"
  rs_replicaGroups :: "nat option list list"
  rs_method :: forwardMethod

record ACLSnapshot =
  as_Revision :: int
  as_Enabled :: bool
  as_UpdatedAt :: string
  as_Users :: "(string \<times> ACLUser) list"

record SessionACLIdentity =
  si_Username :: string
  si_CredentialHash :: string
  si_Password :: bytes
  si_Revision :: int
  si_Stale :: bool
  si_ForcedDB :: "int option"

type_synonym userBackendPoolKey = "string \<times> string \<times> int"

record Router =
  r_heap :: heap
  r_primary :: nat
  r_replica :: nat
  r_userPrimary :: "(userBackendPoolKey \<times> nat) list"
  r_userReplica :: "(userBackendPoolKey \<times> nat) list"
  r_slots :: "RouterSlot list"
  r_slotVersions :: "int list"
  r_hotKeyCache :: HotKeyCache
  r_qpsLimiter :: QPSLimiter
  r_acl :: "ACLSnapshot option"
  r_config :: Config
  r_online :: bool
  r_closed :: bool

definition new_slot :: "nat \<Rightarrow> RouterSlot" where
  "new_slot i =
     \<lparr>rs_id = int i, rs_hold = False, rs_refs = 0, rs_switched = False, rs_backend_id = 0, rs_backend_bc = None,
      rs_migrate_id = 0, rs_migrate_bc = None, rs_replicaGroups = [], rs_method = forwardSync\<rparr>"

definition NewRouter :: "int \<Rightarrow> Config \<Rightarrow> Router option" where
  "NewRouter clock config =
     (let (p, h1) = newSharedBackendConnPool (cf_BackendPrimaryParallel config) (BackendAuthIdentity config) \<lparr>hp_bcs = [], hp_scs = [], hp_pools = []\<rparr>;
          (q, h2) = newSharedBackendConnPool (cf_BackendReplicaParallel config) (BackendAuthIdentity config) h1
      in map_option (\<lambda>limiter.
           \<lparr>r_heap = h2, r_primary = p, r_replica = q, r_userPrimary = [], r_userReplica = [],
            r_slots = map new_slot [0..<MaxSlotNum], r_slotVersions = replicate MaxSlotNum 0,
            r_hotKeyCache = config_cache config, r_qpsLimiter = limiter, r_acl = None, r_config = config, r_online = False, r_closed = False\<rparr>)
         (config_limiter clock config))"

section \<open>Slots\<close>

definition snapshot :: "heap \<Rightarrow> RouterSlot \<Rightarrow> Slot" where
  "snapshot h s =
     \<lparr>sl_Id = rs_id s, sl_Locked = rs_hold s, sl_BackendAddr = Addr h (rs_backend_bc s), sl_BackendAddrGroupId = rs_backend_id s,
      sl_MigrateFrom = Addr h (rs_migrate_bc s), sl_MigrateFromGroupId = rs_migrate_id s, sl_ForwardMethod = GetId (rs_method s),
      sl_ReplicaGroups = map (map (Addr h)) (rs_replicaGroups s)\<rparr>"

text \<open>\<open>blockAndWait\<close> sets the flag and waits until the slot has no request on the way.\<close>

definition block :: "RouterSlot \<Rightarrow> RouterSlot" where
  "block s = s\<lparr>rs_hold := True\<rparr>"

definition hotKeyCacheInvalidateSlot :: "nat \<Rightarrow> Router \<Rightarrow> Router" where
  "hotKeyCacheInvalidateSlot i r =
     r\<lparr>r_slotVersions := (r_slotVersions r)[i := r_slotVersions r ! i + 1], r_hotKeyCache := invalidateSlot (int i) (r_hotKeyCache r)\<rparr>"

text \<open>The references a slot holds, in the order in which they are given back.\<close>

definition slot_refs :: "RouterSlot \<Rightarrow> nat option list" where
  "slot_refs s = rs_backend_bc s # rs_migrate_bc s # concat (rs_replicaGroups s)"

definition retainAddr :: "Config \<Rightarrow> nat \<Rightarrow> string \<Rightarrow> heap \<Rightarrow> (nat option \<times> heap) option" where
  "retainAddr config p addr h = (if addr = [] then Some (None, h) else Pool_Retain config p addr h)"

text \<open>
  \<open>fillSlot\<close> after \<open>blockAndWait\<close>: what was referred to is given back, then what the new mapping names is taken.
\<close>

definition refillSlot :: "Slot \<Rightarrow> bool \<Rightarrow> forwardMethod option \<Rightarrow> RouterSlot \<Rightarrow> Config \<Rightarrow> nat \<Rightarrow> nat \<Rightarrow> heap \<Rightarrow> (RouterSlot \<times> heap) option" where
  "refillSlot m switched meth slot config primary replica h =
     Option.bind (each Release (slot_refs slot) h) (\<lambda>h1.
     Option.bind (retainAddr config primary (sl_BackendAddr m) h1) (\<lambda>(b, h2).
     Option.bind (retainAddr config primary (sl_MigrateFrom m) h2) (\<lambda>(f, h3).
     Option.bind (if cf_BackendPrimaryOnly config then Some ([], h3)
                  else collect (collect (\<lambda>a. Pool_Retain config replica a)) (sl_ReplicaGroups m) h3) (\<lambda>(gs, h4).
     Some (slot\<lparr>rs_switched := switched,
                rs_backend_bc := b, rs_backend_id := (if sl_BackendAddr m = [] then 0 else sl_BackendAddrGroupId m),
                rs_migrate_bc := f, rs_migrate_id := (if sl_MigrateFrom m = [] then 0 else sl_MigrateFromGroupId m),
                rs_replicaGroups := filter (\<lambda>g. g \<noteq> []) gs,
                rs_method := (case meth of Some x \<Rightarrow> x | None \<Rightarrow> rs_method slot),
                rs_hold := (if sl_Locked m then rs_hold slot else False)\<rparr>, h4)))))"

definition fillSlot :: "Slot \<Rightarrow> bool \<Rightarrow> forwardMethod option \<Rightarrow> Router \<Rightarrow> Router option" where
  "fillSlot m switched meth r =
     (if sl_Id m < 0 \<or> sl_Id m \<ge> int (length (r_slots r)) then None
      else
        let i = nat (sl_Id m); r1 = hotKeyCacheInvalidateSlot i (r\<lparr>r_slots := (r_slots r)[i := block (r_slots r ! i)]\<rparr>)
        in map_option (\<lambda>(slot, h). r1\<lparr>r_heap := h, r_slots := (r_slots r1)[i := slot]\<rparr>)
             (refillSlot m switched meth (r_slots r1 ! i) (r_config r1) (r_primary r1) (r_replica r1) (r_heap r1)))"

section \<open>Operations\<close>

datatype router_error = ErrClosedRouter | ErrInvalidSlotId | ErrInvalidMethod

definition methodOf :: "int \<Rightarrow> forwardMethod option" where
  "methodOf n = (if n = ForwardSync then Some forwardSync else if n = ForwardSemiAsync then Some forwardSemiAsync else None)"

text \<open>The result \<open>None\<close> is a panic; otherwise the error, if any, and the new state.\<close>

definition FillSlot :: "Slot \<Rightarrow> Router \<Rightarrow> (router_error option \<times> Router) option" where
  "FillSlot m r =
     (if r_closed r then Some (Some ErrClosedRouter, r)
      else if sl_Id m < 0 \<or> sl_Id m \<ge> int MaxSlotNum then Some (Some ErrInvalidSlotId, r)
      else
        (case methodOf (sl_ForwardMethod m) of
           None \<Rightarrow> Some (Some ErrInvalidMethod, r)
         | Some meth \<Rightarrow> map_option (Pair None) (fillSlot m False (Some meth) r)))"

definition Router_Start :: "Router \<Rightarrow> Router" where
  "Router_Start r = (if r_closed r then r else r\<lparr>r_online := True\<rparr>)"

definition offline :: "nat \<Rightarrow> Slot" where
  "offline i =
     \<lparr>sl_Id = int i, sl_Locked = False, sl_BackendAddr = [], sl_BackendAddrGroupId = 0, sl_MigrateFrom = [],
      sl_MigrateFromGroupId = 0, sl_ForwardMethod = ForwardSync, sl_ReplicaGroups = []\<rparr>"

definition Router_Close :: "Router \<Rightarrow> Router option" where
  "Router_Close r =
     (if r_closed r then Some r
      else each (\<lambda>i. fillSlot (offline i) False None) [0..<length (r_slots r)] (r\<lparr>r_closed := True\<rparr>))"

definition isOnline :: "Router \<Rightarrow> bool" where
  "isOnline r \<longleftrightarrow> r_online r \<and> \<not> r_closed r"

definition GetSlots :: "Router \<Rightarrow> Slot list" where
  "GetSlots r = map (snapshot (r_heap r)) (r_slots r)"

definition GetSlot :: "int \<Rightarrow> Router \<Rightarrow> Slot option" where
  "GetSlot i r = (if i < 0 \<or> i \<ge> int MaxSlotNum then None else Some (snapshot (r_heap r) (r_slots r ! nat i)))"

definition HasSwitched :: "Router \<Rightarrow> bool" where
  "HasSwitched r \<longleftrightarrow> list_ex rs_switched (r_slots r)"

text \<open>
  \<open>SwitchMasters\<close>: a server that a sentinel reports as master replaces the one of the slot, unless the two
  addresses lead to the same server.  What the servers answer for their run id is a parameter.
\<close>

definition hasSameRunId :: "(string \<Rightarrow> string) \<Rightarrow> string \<Rightarrow> string \<Rightarrow> bool" where
  "hasSameRunId runid a b \<longleftrightarrow> (if a \<noteq> b then runid a \<noteq> [] \<and> runid a = runid b else True)"

definition newMaster :: "(string \<Rightarrow> string) \<Rightarrow> (int \<Rightarrow> string option) \<Rightarrow> int \<Rightarrow> string \<Rightarrow> string option" where
  "newMaster runid masters gid current =
     (case masters gid of
        Some addr \<Rightarrow> if addr \<noteq> [] \<and> \<not> hasSameRunId runid addr current then Some addr else None
      | None \<Rightarrow> None)"

definition trySwitchMaster :: "(string \<Rightarrow> string) \<Rightarrow> (int \<Rightarrow> string option) \<Rightarrow> nat \<Rightarrow> Router \<Rightarrow> Router option" where
  "trySwitchMaster runid masters i r =
     (let m = snapshot (r_heap r) (r_slots r ! i);
          b = newMaster runid masters (sl_BackendAddrGroupId m) (sl_BackendAddr m);
          f = newMaster runid masters (sl_MigrateFromGroupId m) (sl_MigrateFrom m)
      in if b = None \<and> f = None then Some r
         else fillSlot (m\<lparr>sl_BackendAddr := (case b of Some a \<Rightarrow> a | None \<Rightarrow> sl_BackendAddr m),
                          sl_MigrateFrom := (case f of Some a \<Rightarrow> a | None \<Rightarrow> sl_MigrateFrom m)\<rparr>) True None r)"

definition Router_SwitchMasters :: "(string \<Rightarrow> string) \<Rightarrow> (int \<Rightarrow> string option) \<Rightarrow> Router \<Rightarrow> (router_error option \<times> Router) option" where
  "Router_SwitchMasters runid masters r =
     (if r_closed r then Some (Some ErrClosedRouter, r)
      else map_option (Pair None) (each (trySwitchMaster runid masters) [0..<length (r_slots r)] r))"

section \<open>Access list and pools of users\<close>

definition NewACLSnapshot :: "ACL option \<Rightarrow> ACLSnapshot" where
  "NewACLSnapshot acl =
     (case acl of
        None \<Rightarrow> \<lparr>as_Revision = 0, as_Enabled = False, as_UpdatedAt = [], as_Users = []\<rparr>
      | Some a \<Rightarrow> \<lparr>as_Revision = acl_Revision a, as_Enabled = acl_Enabled a, as_UpdatedAt = acl_UpdatedAt a,
                   as_Users = foldl (\<lambda>us u. (au_Name u, u) # us) [] (acl_Users a)\<rparr>)"

definition aclAuthEnabled :: "Router \<Rightarrow> bool" where
  "aclAuthEnabled r \<longleftrightarrow> cf_CodisACLEnabled (r_config r) \<and> (case r_acl r of Some s \<Rightarrow> as_Enabled s | None \<Rightarrow> False)"

definition userBackendKey :: "SessionACLIdentity option \<Rightarrow> userBackendPoolKey" where
  "userBackendKey identity =
     (case identity of None \<Rightarrow> ([], [], 0) | Some i \<Rightarrow> (si_Username i, si_CredentialHash i, si_Revision i))"

definition aclIdentityCurrent :: "Router \<Rightarrow> SessionACLIdentity option \<Rightarrow> bool" where
  "aclIdentityCurrent r identity \<longleftrightarrow>
     (case identity of
        None \<Rightarrow> False
      | Some i \<Rightarrow> cf_CodisACLEnabled (r_config r) \<and> (case r_acl r of Some s \<Rightarrow> as_Enabled s \<and> as_Revision s = si_Revision i | None \<Rightarrow> False))"

definition userBackendPool :: "bool \<Rightarrow> SessionACLIdentity \<Rightarrow> Router \<Rightarrow> nat option \<times> Router" where
  "userBackendPool replica i r =
     (let key = userBackendKey (Some i)
      in if \<not> aclIdentityCurrent r (Some i) then (None, r)
         else
           (case map_of (if replica then r_userReplica r else r_userPrimary r) key of
              Some p \<Rightarrow> (Some p, r)
            | None \<Rightarrow>
                let parallel = (if replica then cf_BackendReplicaParallel (r_config r) else cf_BackendPrimaryParallel (r_config r));
                    (p, h) = newSharedBackendConnPool parallel \<lparr>ai_Username = si_Username i, ai_Password = si_Password i\<rparr> (r_heap r)
                in (Some p,
                    if replica then r\<lparr>r_heap := h, r_userReplica := (key, p) # r_userReplica r\<rparr>
                    else r\<lparr>r_heap := h, r_userPrimary := (key, p) # r_userPrimary r\<rparr>)))"

definition userBackendConn ::
  "string \<Rightarrow> int \<Rightarrow> nat \<Rightarrow> bool \<Rightarrow> SessionACLIdentity option \<Rightarrow> bool \<Rightarrow> Router \<Rightarrow> (nat option \<times> Router) option" where
  "userBackendConn addr database seed replica identity must r =
     (case identity of
        None \<Rightarrow> Some (None, r)
      | Some i \<Rightarrow>
          (case userBackendPool replica i r of
             (None, r1) \<Rightarrow> Some (None, r1)
           | (Some p, r1) \<Rightarrow>
               let (s, h) = Pool_GetOrCreate (r_config r1) p addr (r_heap r1); r2 = r1\<lparr>r_heap := h\<rparr>
               in (case s of
                     None \<Rightarrow> Some (None, r2)
                   | Some _ \<Rightarrow> map_option (\<lambda>bc. (bc, r2)) (BackendConn_of h s database seed must))))"

definition closeUserBackendPools :: "Router \<Rightarrow> Router" where
  "closeUserBackendPools r =
     r\<lparr>r_heap := foldl (\<lambda>h (key, p). Pool_Close p h) (foldl (\<lambda>h (key, p). Pool_Close p h) (r_heap r) (r_userPrimary r)) (r_userReplica r),
       r_userPrimary := [], r_userReplica := []\<rparr>"

text \<open>What \<open>SetACL\<close> does to the sessions of the proxy is a value, which the sessions interpret.\<close>

datatype acl_effect = KeepSessions | MarkStale int | ClearAuthorization

definition installACL :: "ACL option \<Rightarrow> Router \<Rightarrow> acl_effect \<times> bool \<times> Router" where
  "installACL acl r =
     (let old = r_acl r; nxt = NewACLSnapshot acl; r1 = r\<lparr>r_acl := Some nxt\<rparr>;
          changed = (case old of None \<Rightarrow> True | Some s \<Rightarrow> as_Revision s \<noteq> as_Revision nxt \<or> as_Enabled s \<noteq> as_Enabled nxt)
      in (if \<not> changed then KeepSessions else if as_Enabled nxt then MarkStale (as_Revision nxt) else ClearAuthorization, changed, r1))"

definition Router_SetACL :: "ACL option \<Rightarrow> Router \<Rightarrow> acl_effect \<times> Router" where
  "Router_SetACL acl r =
     (case installACL acl r of (e, changed, r1) \<Rightarrow> (e, if changed then closeUserBackendPools r1 else r1))"

section \<open>Invariant\<close>

text \<open>All references of the slots.\<close>

definition all_refs :: "RouterSlot list \<Rightarrow> nat multiset" where
  "all_refs ss = sum_list (map (\<lambda>s. pointers (slot_refs s)) ss)"

text \<open>The pool of a user logs in with the name and a password of the hash in its key.\<close>

definition logs_in :: "userBackendPoolKey \<Rightarrow> RedisAuthIdentity \<Rightarrow> bool" where
  "logs_in k a \<longleftrightarrow> ai_Username a = fst k \<and> ACLPasswordHash (ai_Password a) = fst (snd k)"

definition users_ok :: "Router \<Rightarrow> bool" where
  "users_ok r \<longleftrightarrow>
     (\<forall>(k, p) \<in> set (r_userPrimary r) \<union> set (r_userReplica r).
        p < length (hp_pools (r_heap r)) \<and> p \<noteq> r_primary r \<and> p \<noteq> r_replica r \<and> logs_in k (sp_auth (hp_pools (r_heap r) ! p)))"

definition slot_ok :: "Router \<Rightarrow> nat \<Rightarrow> RouterSlot \<Rightarrow> bool" where
  "slot_ok r i s \<longleftrightarrow> rs_id s = int i \<and>
     (\<forall>j. rs_backend_bc s = Some j \<or> rs_migrate_bc s = Some j \<longrightarrow> sc_owner (shared (r_heap r) j) = r_primary r) \<and>
     (\<forall>g \<in> set (rs_replicaGroups s). g \<noteq> [] \<and> (\<forall>x \<in> set g. \<exists>j. x = Some j \<and> sc_owner (shared (r_heap r) j) = r_replica r))"

definition router_ok :: "Router \<Rightarrow> bool" where
  "router_ok r \<longleftrightarrow>
     0 \<le> cf_BackendNumberDatabases (r_config r) \<and> length (r_slots r) = MaxSlotNum \<and> length (r_slotVersions r) = MaxSlotNum \<and>
     refs_ok (r_config r) {r_primary r, r_replica r} (r_heap r) (all_refs (r_slots r)) \<and> users_ok r \<and>
     (\<forall>i < length (r_slots r). slot_ok r i (r_slots r ! i))"

text \<open>What a snapshot shows of a mapping that a slot was filled with.\<close>

definition shown :: "Config \<Rightarrow> Slot \<Rightarrow> Slot" where
  "shown config m =
     m\<lparr>sl_BackendAddrGroupId := (if sl_BackendAddr m = [] then 0 else sl_BackendAddrGroupId m),
       sl_MigrateFromGroupId := (if sl_MigrateFrom m = [] then 0 else sl_MigrateFromGroupId m),
       sl_ReplicaGroups := (if cf_BackendPrimaryOnly config then [] else filter (\<lambda>g. g \<noteq> []) (sl_ReplicaGroups m))\<rparr>"

lemma retainAddr_ok:
  assumes "refs_ok config P h R" "0 \<le> cf_BackendNumberDatabases config" "p \<in> P"
  shows "\<exists>b h1. retainAddr config p addr h = Some (b, h1) \<and> refs_ok config P h1 (pointers [b] + R) \<and> grown h h1 \<and> Addr h1 b = addr \<and>
    (\<forall>i. b = Some i \<longrightarrow> named h1 (p, addr) i)"
  using Pool_Retain_counts [OF assms, of addr] assms(1) by (auto simp: retainAddr_def Addr_def named_def)

lemma Addr_grown: "grown h h1 \<Longrightarrow> i < length (hp_scs h) \<Longrightarrow> Addr h1 (Some i) = Addr h (Some i)"
  by (simp add: Addr_def grown_def)

lemma named_addrs: "list_all2 (named h) (map (Pair p) as) is \<Longrightarrow> map (Addr h) (map Some is) = as"
  by (auto simp: list_all2_map1 list_all2_conv_all_nth named_def Addr_def intro!: nth_equalityI)

lemma named_groups:
  "list_all2 (list_all2 (named h)) (map (map (Pair p)) gs) iss \<Longrightarrow> map (map (Addr h)) (map (map Some) iss) = gs"
  by (induction gs arbitrary: iss) (auto simp: list_all2_Cons1 dest: named_addrs)

lemma named_owner: "list_all2 (list_all2 (named h)) (map (map (Pair p)) gs) iss \<Longrightarrow> is \<in> set iss \<Longrightarrow> i \<in> set is \<Longrightarrow> sc_owner (shared h i) = p"
  by (fastforce simp: list_all2_map1 in_set_conv_nth named_def dest: list_all2_nthD2 list_all2_lengthD)

lemma refillSlot_ok:
  assumes ok: "refs_ok config {p, q} h (pointers (slot_refs slot) + R)" and n: "0 \<le> cf_BackendNumberDatabases config" and hold: "rs_hold slot"
  shows "\<exists>slot1 h1. refillSlot m switched meth slot config p q h = Some (slot1, h1) \<and>
    refs_ok config {p, q} h1 (pointers (slot_refs slot1) + R) \<and> grown h h1 \<and> rs_id slot1 = rs_id slot \<and> rs_refs slot1 = rs_refs slot \<and>
    snapshot h1 slot1 = (shown config m)\<lparr>sl_Id := rs_id slot, sl_ForwardMethod := GetId (case meth of Some x \<Rightarrow> x | None \<Rightarrow> rs_method slot)\<rparr> \<and>
    (\<forall>j. rs_backend_bc slot1 = Some j \<or> rs_migrate_bc slot1 = Some j \<longrightarrow> sc_owner (shared h1 j) = p) \<and>
    (\<forall>g \<in> set (rs_replicaGroups slot1). g \<noteq> [] \<and> (\<forall>x \<in> set g. \<exists>j. x = Some j \<and> sc_owner (shared h1 j) = q))"
proof -
  obtain h1 where h1: "each Release (slot_refs slot) h = Some h1" "refs_ok config {p, q} h1 R" "grown h h1"
    using sc.give_all [of config "{p, q}" h "slot_refs slot" R] ok n by auto
  obtain b h2 where h2: "retainAddr config p (sl_BackendAddr m) h1 = Some (b, h2)" "refs_ok config {p, q} h2 (pointers [b] + R)" "grown h1 h2"
    "Addr h2 b = sl_BackendAddr m" "\<And>i. b = Some i \<Longrightarrow> named h2 (p, sl_BackendAddr m) i"
    using retainAddr_ok [OF h1(2) n, of p "sl_BackendAddr m"] by auto
  obtain f h3 where h3: "retainAddr config p (sl_MigrateFrom m) h2 = Some (f, h3)" "refs_ok config {p, q} h3 (pointers [f] + (pointers [b] + R))" "grown h2 h3"
    "Addr h3 f = sl_MigrateFrom m" "\<And>i. f = Some i \<Longrightarrow> named h3 (p, sl_MigrateFrom m) i"
    using retainAddr_ok [OF h2(2) n, of p "sl_MigrateFrom m"] by auto
  define gs where "gs = (if cf_BackendPrimaryOnly config then [] else sl_ReplicaGroups m)"
  obtain iss h4 where h4: "collect (collect (\<lambda>a. Pool_Retain config q a)) gs h3 = Some (map (map Some) iss, h4)"
    "refs_ok config {p, q} h4 (mset (concat iss) + (pointers [f] + (pointers [b] + R)))" "grown h3 h4"
    "list_all2 (list_all2 (named h4)) (map (map (Pair q)) gs) iss"
    using sc.get_groups [of config "{p, q}" h3 "pointers [f] + (pointers [b] + R)" "map (map (Pair q)) gs"] h3(2) n by (auto simp: collect_map)
  have g: "map (map (Addr h4)) (map (map Some) iss) = gs" by (rule named_groups [OF h4(4)])
  then have gs: "map (map (Addr h4)) (filter (\<lambda>g. g \<noteq> []) (map (map Some) iss)) = filter (\<lambda>g. g \<noteq> []) gs"
    by (auto simp: filter_map o_def)
  have mset: "pointers (concat (filter (\<lambda>g. g \<noteq> []) (map (map Some) iss))) = mset (concat iss)"
  proof -
    have "pointers (map Some xs) = mset xs" for xs :: "nat list" by (simp add: pointers_def List.map_filter_def o_def)
    then show ?thesis by (induction iss) auto
  qed
  define slot1 where "slot1 = slot\<lparr>rs_switched := switched,
                rs_backend_bc := b, rs_backend_id := (if sl_BackendAddr m = [] then 0 else sl_BackendAddrGroupId m),
                rs_migrate_bc := f, rs_migrate_id := (if sl_MigrateFrom m = [] then 0 else sl_MigrateFromGroupId m),
                rs_replicaGroups := filter (\<lambda>g. g \<noteq> []) (map (map Some) iss),
                rs_method := (case meth of Some x \<Rightarrow> x | None \<Rightarrow> rs_method slot),
                rs_hold := (if sl_Locked m then rs_hold slot else False)\<rparr>"
  have r: "refillSlot m switched meth slot config p q h = Some (slot1, h4)"
    using h1(1) h2(1) h3(1) h4(1) by (cases "cf_BackendPrimaryOnly config") (simp_all add: refillSlot_def slot1_def gs_def)
  have "pointers (slot_refs slot1) + R = mset (concat iss) + (pointers [f] + (pointers [b] + R))"
    by (cases b; cases f) (simp_all add: slot1_def slot_refs_def mset)
  then have refs: "refs_ok config {p, q} h4 (pointers (slot_refs slot1) + R)" using h4(2) by (simp only:)
  have grown: "grown h1 h4" "grown h2 h4" "grown h h4" using h1(3) h2(3) h3(3) h4(3) by (blast intro: grown_trans)+
  have Ab: "Addr h4 b = sl_BackendAddr m" using h2(4,5) grown(2) by (cases b) (auto simp: named_def Addr_grown, simp add: Addr_def)
  have Af: "Addr h4 f = sl_MigrateFrom m" using h3(4,5) h4(3) by (cases f) (auto simp: named_def Addr_grown, simp add: Addr_def)
  have own: "sc_owner (shared h4 i) = p" if "b = Some i \<or> f = Some i" for i
    using that h2(5) h3(5) grown(2) h4(3) by (auto simp: named_def grown_def)
  have snap: "snapshot h4 slot1 = (shown config m)\<lparr>sl_Id := rs_id slot, sl_ForwardMethod := GetId (case meth of Some x \<Rightarrow> x | None \<Rightarrow> rs_method slot)\<rparr>"
    using hold gs by (simp add: snapshot_def slot1_def shown_def Ab Af gs_def)
  have owners: "\<forall>j. rs_backend_bc slot1 = Some j \<or> rs_migrate_bc slot1 = Some j \<longrightarrow> sc_owner (shared h4 j) = p"
    using own by (auto simp: slot1_def)
  have groups: "\<forall>g \<in> set (rs_replicaGroups slot1). g \<noteq> [] \<and> (\<forall>x \<in> set g. \<exists>j. x = Some j \<and> sc_owner (shared h4 j) = q)"
    using named_owner [OF h4(4)] by (auto simp: slot1_def)
  have "rs_id slot1 = rs_id slot" "rs_refs slot1 = rs_refs slot" by (simp_all add: slot1_def)
  with r refs grown(3) snap owners groups show ?thesis by blast
qed

lemma all_refs_update: "i < length ss \<Longrightarrow> all_refs ss = pointers (slot_refs (ss ! i)) + all_refs (take i ss @ drop (Suc i) ss)"
  by (subst id_take_nth_drop [of i ss]) (simp_all add: all_refs_def ac_simps)

lemma all_refs_put: "i < length ss \<Longrightarrow> all_refs (ss[i := s]) = pointers (slot_refs s) + all_refs (take i ss @ drop (Suc i) ss)"
  using all_refs_update [of i "ss[i := s]"] by simp

lemma slot_ref_in: "router_ok r \<Longrightarrow> i < length (r_slots r) \<Longrightarrow> j \<in># pointers (slot_refs (r_slots r ! i)) \<Longrightarrow> j < length (hp_scs (r_heap r))"
  using refs_owner by (fastforce simp: router_ok_def all_refs_update)

lemma in_pointers: "j \<in># pointers ps \<longleftrightarrow> Some j \<in> set ps"
proof (induction ps)
  case (Cons p ps)
  then show ?case by (cases p) auto
qed simp

lemma slot_ok_grown:
  assumes s: "slot_ok r i s" and j: "\<And>j. j \<in># pointers (slot_refs s) \<Longrightarrow> j < length (hp_scs (r_heap r))" and g: "grown (r_heap r) (r_heap r1)"
    and p: "r_primary r1 = r_primary r" "r_replica r1 = r_replica r"
  shows "slot_ok r1 i s" "snapshot (r_heap r1) s = snapshot (r_heap r) s"
proof -
  have at: "sc_addr (shared (r_heap r1) k) = sc_addr (shared (r_heap r) k) \<and> sc_owner (shared (r_heap r1) k) = sc_owner (shared (r_heap r) k)"
    if "Some k \<in> set (slot_refs s)" for k
    using j [of k] g that by (simp add: grown_def in_pointers)
  then have same: "Addr (r_heap r1) x = Addr (r_heap r) x" if "x \<in> set (slot_refs s)" for x
    using that by (cases x) (simp_all add: Addr_def)
  have refs: "rs_backend_bc s \<in> set (slot_refs s)" "rs_migrate_bc s \<in> set (slot_refs s)" "\<And>g x. g \<in> set (rs_replicaGroups s) \<Longrightarrow> x \<in> set g \<Longrightarrow> x \<in> set (slot_refs s)"
    by (auto simp: slot_refs_def)
  show "snapshot (r_heap r1) s = snapshot (r_heap r) s" using same refs by (auto simp: snapshot_def)
  have "sc_owner (shared (r_heap r1) k) = r_primary r1" if "rs_backend_bc s = Some k \<or> rs_migrate_bc s = Some k" for k
  proof -
    have "Some k \<in> set (slot_refs s)" using that by (auto simp: slot_refs_def)
    with s that at [of k] p show ?thesis by (auto simp: slot_ok_def)
  qed
  moreover have "\<exists>k. x = Some k \<and> sc_owner (shared (r_heap r1) k) = r_replica r1" if gx: "g \<in> set (rs_replicaGroups s)" "x \<in> set g" for g x
  proof -
    obtain k where "x = Some k" "sc_owner (shared (r_heap r) k) = r_replica r" using s gx unfolding slot_ok_def by blast
    with at [of k] refs(3) [OF gx] p show ?thesis by simp
  qed
  ultimately show "slot_ok r1 i s" using s unfolding slot_ok_def by blast
qed

lemma users_pools:
  assumes "router_ok r" "(k, p) \<in> set (r_userPrimary r) \<or> (k, p) \<in> set (r_userReplica r)"
  shows "p \<noteq> r_primary r \<and> p \<noteq> r_replica r \<and> p < length (hp_pools (r_heap r)) \<and> logs_in k (sp_auth (hp_pools (r_heap r) ! p))"
  using assms by (auto simp: router_ok_def users_ok_def)

lemma users_ok_grown:
  assumes "router_ok r" "grown (r_heap r) (r_heap r1)" "r_userPrimary r1 = r_userPrimary r" "r_userReplica r1 = r_userReplica r"
    "r_primary r1 = r_primary r" "r_replica r1 = r_replica r"
  shows "users_ok r1"
proof -
  have "p < length (hp_pools (r_heap r1)) \<and> p \<noteq> r_primary r \<and> p \<noteq> r_replica r \<and> logs_in k (sp_auth (hp_pools (r_heap r1) ! p))" if "(k, p) \<in> set (r_userPrimary r) \<union> set (r_userReplica r)" for k p
    using users_pools [OF assms(1), of k p] that assms(2) unfolding grown_def by (metis Un_iff order_less_le_trans)
  then show ?thesis unfolding users_ok_def assms(3-6) by blast
qed

text \<open>
  Filling a slot never panics and keeps the invariant; its snapshot then shows the mapping and no other
  slot changed.
\<close>

lemma fillSlot_ok:
  assumes ok: "router_ok r" and i: "0 \<le> sl_Id m" "sl_Id m < int MaxSlotNum"
  shows "\<exists>r1. fillSlot m switched meth r = Some r1 \<and> router_ok r1 \<and>
    GetSlots r1 = (GetSlots r)[nat (sl_Id m) := (shown (r_config r) m)\<lparr>sl_ForwardMethod := GetId (case meth of Some x \<Rightarrow> x | None \<Rightarrow> rs_method (r_slots r ! nat (sl_Id m)))\<rparr>] \<and>
    r_config r1 = r_config r \<and> r_closed r1 = r_closed r \<and> r_acl r1 = r_acl r \<and> r_userPrimary r1 = r_userPrimary r \<and> r_userReplica r1 = r_userReplica r \<and>
    map rs_refs (r_slots r1) = map rs_refs (r_slots r) \<and> rs_hold (r_slots r1 ! nat (sl_Id m)) = sl_Locked m \<and>
    (\<forall>j. j \<noteq> nat (sl_Id m) \<longrightarrow> r_slots r1 ! j = r_slots r ! j) \<and> grown (r_heap r) (r_heap r1)"
proof -
  define k where "k = nat (sl_Id m)"
  define c where "c = r_config r"
  define slot where "slot = block (r_slots r ! k)"
  define R where "R = all_refs (take k (r_slots r) @ drop (Suc k) (r_slots r))"
  have k: "k < length (r_slots r)" "int k = sl_Id m" using ok i by (auto simp: k_def router_ok_def)
  have "pointers (slot_refs slot) + R = all_refs (r_slots r)"
    using all_refs_update [OF k(1)] by (simp add: slot_def block_def slot_refs_def R_def)
  then have refs: "refs_ok c {r_primary r, r_replica r} (r_heap r) (pointers (slot_refs slot) + R)" and n: "0 \<le> cf_BackendNumberDatabases c"
    using ok by (simp_all add: router_ok_def c_def)
  have hold: "rs_hold slot" "rs_id slot = int k" "rs_refs slot = rs_refs (r_slots r ! k)" "rs_method slot = rs_method (r_slots r ! k)"
    using ok k by (simp_all add: slot_def block_def router_ok_def slot_ok_def)
  obtain slot1 h1 where s1: "refillSlot m switched meth slot c (r_primary r) (r_replica r) (r_heap r) = Some (slot1, h1)"
    "refs_ok c {r_primary r, r_replica r} h1 (pointers (slot_refs slot1) + R)" "grown (r_heap r) h1" "rs_id slot1 = int k" "rs_refs slot1 = rs_refs (r_slots r ! k)"
    "snapshot h1 slot1 = (shown c m)\<lparr>sl_Id := int k, sl_ForwardMethod := GetId (case meth of Some x \<Rightarrow> x | None \<Rightarrow> rs_method (r_slots r ! k))\<rparr>"
    "\<forall>j. rs_backend_bc slot1 = Some j \<or> rs_migrate_bc slot1 = Some j \<longrightarrow> sc_owner (shared h1 j) = r_primary r"
    "\<forall>g \<in> set (rs_replicaGroups slot1). g \<noteq> [] \<and> (\<forall>x \<in> set g. \<exists>j. x = Some j \<and> sc_owner (shared h1 j) = r_replica r)"
    using refillSlot_ok [OF refs n hold(1), of m switched meth] unfolding hold by blast
  define r1 where "r1 = (hotKeyCacheInvalidateSlot k r)\<lparr>r_heap := h1, r_slots := (r_slots r)[k := slot1]\<rparr>"
  have fill: "fillSlot m switched meth r = Some r1"
    using s1(1) k i by (simp add: fillSlot_def Let_def k_def [symmetric] r1_def hotKeyCacheInvalidateSlot_def slot_def c_def)
  have simps: "r_slots r1 = (r_slots r)[k := slot1]" "r_heap r1 = h1" "r_primary r1 = r_primary r" "r_replica r1 = r_replica r" "r_config r1 = c"
    "r_userPrimary r1 = r_userPrimary r" "r_userReplica r1 = r_userReplica r" "r_closed r1 = r_closed r" "r_acl r1 = r_acl r"
    "length (r_slotVersions r1) = length (r_slotVersions r)"
    by (simp_all add: r1_def hotKeyCacheInvalidateSlot_def c_def)
  have other: "slot_ok r1 j (r_slots r ! j)" "snapshot h1 (r_slots r ! j) = snapshot (r_heap r) (r_slots r ! j)" if "j < length (r_slots r)" for j
    using slot_ok_grown [of r j "r_slots r ! j" r1] slot_ref_in [OF ok that] ok that s1(3) simps by (auto simp: router_ok_def)
  have "slot_ok r1 k slot1" using s1(4,7,8) by (simp add: slot_ok_def simps)
  with other(1) have slots: "slot_ok r1 j (r_slots r1 ! j)" if "j < length (r_slots r1)" for j
    using that k(1) by (cases "j = k") (auto simp: simps)
  have users: "users_ok r1" by (rule users_ok_grown [OF ok]) (use s1(3) simps in auto)
  have "all_refs (r_slots r1) = pointers (slot_refs slot1) + R" by (simp add: simps(1) R_def all_refs_put [OF k(1)])
  then have "router_ok r1" using ok slots users n s1(2) unfolding router_ok_def by (simp add: simps)
  moreover have "GetSlots r1 = (GetSlots r)[k := snapshot h1 slot1]"
    using other(2) k(1) by (auto simp: GetSlots_def simps nth_list_update intro!: nth_equalityI)
  moreover have "(shown c m)\<lparr>sl_Id := int k\<rparr> = shown c m" by (simp add: shown_def k)
  moreover have "map rs_refs (r_slots r1) = map rs_refs (r_slots r)" using s1(5) by (simp add: simps map_update list_update_same_conv k(1))
  ultimately have "router_ok r1" "map rs_refs (r_slots r1) = map rs_refs (r_slots r)"
    "GetSlots r1 = (GetSlots r)[k := (shown c m)\<lparr>sl_ForwardMethod := GetId (case meth of Some x \<Rightarrow> x | None \<Rightarrow> rs_method (r_slots r ! k))\<rparr>]"
    using s1(6) by simp_all
  moreover have "rs_hold slot1 = sl_Locked m" using arg_cong [OF s1(6), of sl_Locked] by (simp add: snapshot_def shown_def)
  then have "rs_hold (r_slots r1 ! k) = sl_Locked m" "\<forall>j. j \<noteq> k \<longrightarrow> r_slots r1 ! j = r_slots r ! j" using k(1) by (simp_all add: simps(1))
  ultimately show ?thesis using fill simps s1(3) unfolding k_def c_def by blast
qed

lemma each_inv:
  assumes "P h" "\<And>x h. x \<in> set xs \<Longrightarrow> P h \<Longrightarrow> \<exists>h1. f x h = Some h1 \<and> P h1"
  shows "\<exists>h1. each f xs h = Some h1 \<and> P h1"
  using assms
proof (induction xs arbitrary: h)
  case (Cons x xs)
  then obtain h1 where "f x h = Some h1" "P h1" by force
  moreover from Cons.IH [OF this(2)] Cons.prems(2) obtain h2 where "each f xs h1 = Some h2" "P h2" by force
  ultimately show ?case by simp
qed simp

lemma NewRouter_ok:
  assumes "NewRouter clock config = Some r" "1 \<le> cf_BackendNumberDatabases config"
  shows "router_ok r" "r_config r = config" "GetSlots r = map (\<lambda>i. snapshot (r_heap r) (new_slot i)) [0..<MaxSlotNum]"
proof -
  define h0 :: heap where "h0 = \<lparr>hp_bcs = [], hp_scs = [], hp_pools = []\<rparr>"
  obtain p h1 q h2 where h: "newSharedBackendConnPool (cf_BackendPrimaryParallel config) (BackendAuthIdentity config) h0 = (p, h1)"
    "newSharedBackendConnPool (cf_BackendReplicaParallel config) (BackendAuthIdentity config) h1 = (q, h2)" by fastforce
  have h0: "heap_ok config h0" by (simp add: heap_ok_def h0_def)
  note n1 = newPool_ok [OF h0 h(1)]
  note n2 = newPool_ok [OF n1(1) h(2)]
  have "p = 0" "q = 1" "length (hp_pools h2) = 2" "hp_scs h2 = []" "\<not> sp_closed (hp_pools h2 ! 0)" "\<not> sp_closed (hp_pools h2 ! 1)"
    using h by (auto simp: newSharedBackendConnPool_def h0_def)
  moreover have "r_heap r = h2" "r_primary r = p" "r_replica r = q" "r_userPrimary r = []" "r_userReplica r = []" "r_slots r = map new_slot [0..<MaxSlotNum]"
    "r_config r = config" "length (r_slotVersions r) = MaxSlotNum"
    using assms(1) h by (auto simp: NewRouter_def h0_def)
  moreover have "all_refs (map new_slot xs) = {#}" for xs
    by (induction xs) (simp_all add: all_refs_def new_slot_def slot_refs_def)
  moreover have "slot_ok r i (new_slot i)" for i by (simp add: slot_ok_def new_slot_def)
  ultimately show "router_ok r" "r_config r = config" "GetSlots r = map (\<lambda>i. snapshot (r_heap r) (new_slot i)) [0..<MaxSlotNum]"
    using assms(2) n2(1) by (auto simp: router_ok_def users_ok_def refs_ok_def GetSlots_def less_2_cases_iff)
qed

lemma router_ok_cong:
  assumes "router_ok r" "r_heap r1 = r_heap r" "r_primary r1 = r_primary r" "r_replica r1 = r_replica r" "r_userPrimary r1 = r_userPrimary r"
    "r_userReplica r1 = r_userReplica r" "r_slots r1 = r_slots r" "r_slotVersions r1 = r_slotVersions r" "r_config r1 = r_config r"
  shows "router_ok r1"
  using assms by (simp add: router_ok_def users_ok_def slot_ok_def)

lemma FillSlot_ok:
  assumes "router_ok r"
  shows "\<exists>e r1. FillSlot m r = Some (e, r1) \<and> router_ok r1 \<and> r_config r1 = r_config r \<and> r_closed r1 = r_closed r \<and>
    (e \<noteq> None \<longrightarrow> r1 = r) \<and>
    (e = None \<longleftrightarrow> \<not> r_closed r \<and> 0 \<le> sl_Id m \<and> sl_Id m < int MaxSlotNum \<and> sl_ForwardMethod m \<in> {ForwardSync, ForwardSemiAsync}) \<and>
    (e = None \<longrightarrow> GetSlots r1 = (GetSlots r)[nat (sl_Id m) := shown (r_config r) m])"
proof (cases "\<not> r_closed r \<and> 0 \<le> sl_Id m \<and> sl_Id m < int MaxSlotNum \<and> sl_ForwardMethod m \<in> {ForwardSync, ForwardSemiAsync}")
  case True
  then obtain meth where meth: "methodOf (sl_ForwardMethod m) = Some meth" "GetId meth = sl_ForwardMethod m"
    by (auto simp: methodOf_def GetId_def ForwardSync_def ForwardSemiAsync_def)
  then have "(shown (r_config r) m)\<lparr>sl_ForwardMethod := GetId meth\<rparr> = shown (r_config r) m" by (simp add: shown_def)
  with fillSlot_ok [OF assms, of m False "Some meth"] True meth show ?thesis by (auto simp: FillSlot_def)
next
  case False
  with assms show ?thesis by (auto simp: FillSlot_def methodOf_def)
qed

lemma fillSlot_safe:
  assumes "router_ok r" "sl_Id m = int i" "i < MaxSlotNum"
  shows "\<exists>r1. fillSlot m switched meth r = Some r1 \<and> router_ok r1 \<and> r_config r1 = r_config r \<and> r_closed r1 = r_closed r"
proof -
  have "0 \<le> sl_Id m" "sl_Id m < int MaxSlotNum" using assms(2,3) by simp_all
  from fillSlot_ok [OF assms(1) this, of switched meth] show ?thesis by blast
qed

text \<open>Neither the invariant nor the routing table is about the limiter, the cache and the flag for being on line.\<close>

lemma router_apart [simp]:
  "router_ok (r\<lparr>r_qpsLimiter := l\<rparr>) \<longleftrightarrow> router_ok r" "router_ok (r\<lparr>r_hotKeyCache := c\<rparr>) \<longleftrightarrow> router_ok r" "router_ok (r\<lparr>r_online := b\<rparr>) \<longleftrightarrow> router_ok r"
  "GetSlots (r\<lparr>r_qpsLimiter := l\<rparr>) = GetSlots r" "GetSlots (r\<lparr>r_hotKeyCache := c\<rparr>) = GetSlots r" "GetSlots (r\<lparr>r_online := b\<rparr>) = GetSlots r"
  by (simp_all add: router_ok_def users_ok_def slot_ok_def GetSlots_def)

lemma router_length: "router_ok r \<Longrightarrow> length (r_slots r) = MaxSlotNum"
  by (simp add: router_ok_def)

lemma Router_Close_ok: "router_ok r \<Longrightarrow> \<exists>r1. Router_Close r = Some r1 \<and> router_ok r1 \<and> r_closed r1 \<and> r_config r1 = r_config r"
proof (cases "r_closed r")
  case False
  assume ok: "router_ok r"
  have "\<exists>r1. each (\<lambda>i. fillSlot (offline i) False None) [0..<length (r_slots r)] (r\<lparr>r_closed := True\<rparr>) = Some r1 \<and> (router_ok r1 \<and> r_closed r1 \<and> r_config r1 = r_config r)"
  proof (rule each_inv)
    show "router_ok (r\<lparr>r_closed := True\<rparr>) \<and> r_closed (r\<lparr>r_closed := True\<rparr>) \<and> r_config (r\<lparr>r_closed := True\<rparr>) = r_config r"
      using router_ok_cong [OF ok] by simp
    fix i r2 assume "i \<in> set [0..<length (r_slots r)]" "router_ok r2 \<and> r_closed r2 \<and> r_config r2 = r_config r"
    with fillSlot_safe [of r2 "offline i" i False None] router_length [OF ok]
    show "\<exists>r1. fillSlot (offline i) False None r2 = Some r1 \<and> router_ok r1 \<and> r_closed r1 \<and> r_config r1 = r_config r" by (auto simp: offline_def)
  qed
  with False show ?thesis by (simp add: Router_Close_def)
qed (simp add: Router_Close_def)

lemma trySwitchMaster_ok:
  assumes "router_ok r" "i < MaxSlotNum"
  shows "\<exists>r1. trySwitchMaster runid masters i r = Some r1 \<and> router_ok r1 \<and> r_config r1 = r_config r \<and> r_closed r1 = r_closed r"
proof -
  have "sl_Id (snapshot (r_heap r) (r_slots r ! i)) = int i" using assms by (simp add: snapshot_def router_ok_def slot_ok_def)
  with fillSlot_safe [OF assms(1) _ assms(2)] assms(1) show ?thesis by (simp add: trySwitchMaster_def Let_def)
qed

lemma Router_SwitchMasters_ok:
  assumes "router_ok r"
  shows "\<exists>e r1. Router_SwitchMasters runid masters r = Some (e, r1) \<and> router_ok r1 \<and> r_config r1 = r_config r"
proof -
  have "\<exists>r1. each (trySwitchMaster runid masters) [0..<length (r_slots r)] r = Some r1 \<and> (router_ok r1 \<and> r_config r1 = r_config r)"
    by (rule each_inv) (use assms trySwitchMaster_ok router_length [OF assms] in fastforce)+
  with assms show ?thesis by (auto simp: Router_SwitchMasters_def)
qed

lemma router_ok_heap:
  assumes ok: "router_ok r" and h: "refs_ok (r_config r) {r_primary r, r_replica r} h (all_refs (r_slots r))" "grown (r_heap r) h"
    and r1: "r_heap r1 = h" "r_primary r1 = r_primary r" "r_replica r1 = r_replica r" "r_slots r1 = r_slots r" "r_slotVersions r1 = r_slotVersions r" "r_config r1 = r_config r"
    and users: "users_ok r1"
  shows "router_ok r1" "GetSlots r1 = GetSlots r"
proof -
  have s: "slot_ok r1 i (r_slots r ! i)" "snapshot h (r_slots r ! i) = snapshot (r_heap r) (r_slots r ! i)" if "i < length (r_slots r)" for i
    using slot_ok_grown [of r i "r_slots r ! i" r1] slot_ref_in [OF ok that] ok that h(2) r1 by (auto simp: router_ok_def)
  show "router_ok r1" using ok h s users by (simp add: router_ok_def r1)
  show "GetSlots r1 = GetSlots r" using s by (auto simp: GetSlots_def r1 in_set_conv_nth)
qed

lemma closePools_ok:
  assumes "refs_ok config P h R" "\<forall>(k, p) \<in> set ps. p \<notin> P \<and> p < length (hp_pools h)"
  shows "refs_ok config P (foldl (\<lambda>h (k, p). Pool_Close p h) h ps) R \<and> grown h (foldl (\<lambda>h (k, p). Pool_Close p h) h ps)"
  using assms
proof (induction ps arbitrary: h)
  case (Cons x ps)
  obtain k p where x: "x = (k, p)" by fastforce
  have p: "p \<notin> P" "p < length (hp_pools h)" using Cons.prems x by auto
  have "refs_ok config P (Pool_Close p h) R"
    using Cons.prems(1) Pool_Close_ok(1) [OF _ p(2), of config] p(1) unfolding refs_ok_def by (auto split: if_splits) (metis Pool_Close_simps(5))+
  with Cons.IH [of "Pool_Close p h"] Cons.prems(2) Pool_Close_ok(2) [OF _ p(2), of config] Cons.prems(1) x show ?case
    by (auto simp: refs_ok_def intro: grown_trans)
qed simp

lemma closeUser_ok:
  assumes ok: "router_ok r"
  shows "router_ok (closeUserBackendPools r)" "GetSlots (closeUserBackendPools r) = GetSlots r" "grown (r_heap r) (r_heap (closeUserBackendPools r))"
    "r_slots (closeUserBackendPools r) = r_slots r"
proof -
  define h1 where "h1 = foldl (\<lambda>h (k, p). Pool_Close p h) (r_heap r) (r_userPrimary r)"
  define h2 where "h2 = foldl (\<lambda>h (k, p). Pool_Close p h) h1 (r_userReplica r)"
  have refs: "refs_ok (r_config r) {r_primary r, r_replica r} (r_heap r) (all_refs (r_slots r))" using ok by (simp add: router_ok_def)
  have "\<forall>(k, p) \<in> set (r_userPrimary r). p \<notin> {r_primary r, r_replica r} \<and> p < length (hp_pools (r_heap r))"
    by (auto dest: users_pools [OF ok, OF disjI1])
  from closePools_ok [OF refs this]
  have h1: "refs_ok (r_config r) {r_primary r, r_replica r} h1 (all_refs (r_slots r))" "grown (r_heap r) h1" by (simp_all add: h1_def)
  from h1(2) have "length (hp_pools (r_heap r)) \<le> length (hp_pools h1)" by (simp add: grown_def)
  then have "\<forall>(k, p) \<in> set (r_userReplica r). p \<notin> {r_primary r, r_replica r} \<and> p < length (hp_pools h1)"
    by (auto dest: users_pools [OF ok, OF disjI2])
  from closePools_ok [OF h1(1) this]
  have h2: "refs_ok (r_config r) {r_primary r, r_replica r} h2 (all_refs (r_slots r))" "grown (r_heap r) h2"
    using h1(2) by (auto simp: h2_def intro: grown_trans)
  have eq: "closeUserBackendPools r = r\<lparr>r_heap := h2, r_userPrimary := [], r_userReplica := []\<rparr>"
    by (simp add: closeUserBackendPools_def h1_def h2_def)
  show "router_ok (closeUserBackendPools r)" "GetSlots (closeUserBackendPools r) = GetSlots r"
    using router_ok_heap [OF ok, of h2 "closeUserBackendPools r"] h2 by (simp_all add: eq users_ok_def)
  show "grown (r_heap r) (r_heap (closeUserBackendPools r))" "r_slots (closeUserBackendPools r) = r_slots r" using h2(2) by (simp_all add: eq)
qed

lemma installACL_ok:
  assumes "router_ok r" "installACL acl r = (e, changed, r1)"
  shows "router_ok r1" "r1 = r\<lparr>r_acl := Some (NewACLSnapshot acl)\<rparr>"
proof -
  show r1: "r1 = r\<lparr>r_acl := Some (NewACLSnapshot acl)\<rparr>" using assms(2) by (auto simp: installACL_def Let_def)
  show "router_ok r1" using router_ok_cong [OF assms(1), of r1] by (simp add: r1)
qed

lemma Router_SetACL_ok:
  assumes ok: "router_ok r" and a: "Router_SetACL acl r = (e, r1)"
  shows "router_ok r1 \<and> r_config r1 = r_config r \<and> GetSlots r1 = GetSlots r \<and> r_closed r1 = r_closed r"
proof -
  obtain e' changed r0 where r0: "installACL acl r = (e', changed, r0)" by (cases "installACL acl r") auto
  note i = installACL_ok [OF ok r0]
  have "GetSlots r0 = GetSlots r" by (simp add: i(2) GetSlots_def)
  moreover have "r1 = r0 \<or> r1 = closeUserBackendPools r0" using a r0 by (auto simp: Router_SetACL_def split: if_splits)
  ultimately show ?thesis using i closeUser_ok [OF i(1)] by (auto simp: closeUserBackendPools_def)
qed

lemma nextConnected_in: "conns \<noteq> [] \<Longrightarrow> nextConnected h conns n i = Some c \<Longrightarrow> c \<in> set conns"
  by (induction n arbitrary: i) (auto simp: Let_def split: if_splits)

text \<open>A connection that is chosen is one of the shared connection for the database.\<close>

lemma BackendConn_of_ok:
  assumes ok: "heap_ok config h" and i: "i < length (hp_scs h)" and db: "0 \<le> database" "database < cf_BackendNumberDatabases config"
  shows "\<exists>bc. BackendConn_of h (Some i) database seed must = Some bc \<and> (must \<longrightarrow> bc \<noteq> None) \<and>
    (\<forall>c. bc = Some c \<longrightarrow> c \<in> set (conns_of h i) \<and> c < length (hp_bcs h) \<and> bc_addr (hp_bcs h ! c) = sc_addr (shared h i) \<and>
       bc_auth (hp_bcs h ! c) = sc_auth (shared h i) \<and> bc_database (hp_bcs h ! c) = database)"
proof -
  define sc where "sc = shared h i"
  define conns where "conns = sc_conns sc ! nat database"
  have sc: "shared_ok config (hp_bcs h) (length (hp_pools h)) sc" using heap_okD(1) [OF ok i] by (simp add: sc_def)
  have d: "nat database < length (sc_conns sc)" "database < int (length (sc_conns sc))" using sc db by (auto simp: shared_ok_def)
  have conns: "conns \<noteq> []" "\<And>c. c \<in> set conns \<Longrightarrow> c \<in> set (conns_of h i) \<and> c < length (hp_bcs h) \<and> bc_addr (hp_bcs h ! c) = sc_addr sc \<and>
      bc_auth (hp_bcs h ! c) = sc_auth sc \<and> bc_database (hp_bcs h ! c) = database"
    using sc d db by (auto simp: shared_ok_def conns_def conns_of_def sc_def [symmetric])
  show ?thesis
  proof (cases "sc_single sc")
    case (Some single)
    then have "single ! nat database = hd conns" using sc d by (simp add: shared_ok_def conns_def)
    with Some conns d db show ?thesis by (simp add: BackendConn_of_def Let_def sc_def [symmetric])
  next
    case None
    show ?thesis
    proof (cases "nextConnected h conns (length conns) seed")
      case (Some c)
      with None d db conns(2) [OF nextConnected_in [OF conns(1) Some]] show ?thesis
        by (simp add: BackendConn_of_def Let_def sc_def [symmetric] conns_def [symmetric])
    qed (use None d db conns in \<open>simp add: BackendConn_of_def Let_def sc_def [symmetric] conns_def [symmetric]\<close>)
  qed
qed

definition identity_ok :: "SessionACLIdentity \<Rightarrow> bool" where
  "identity_ok i \<longleftrightarrow> si_CredentialHash i = ACLPasswordHash (si_Password i)"

lemma userBackendPool_ok:
  assumes ok: "router_ok r" and i: "identity_ok i" and u: "userBackendPool replica i r = (p, r1)"
  shows "router_ok r1 \<and> GetSlots r1 = GetSlots r \<and> r_slots r1 = r_slots r \<and> r_config r1 = r_config r \<and> r_acl r1 = r_acl r \<and> r_closed r1 = r_closed r \<and>
    r_primary r1 = r_primary r \<and> r_replica r1 = r_replica r \<and> grown (r_heap r) (r_heap r1) \<and>
    (\<forall>q. p = Some q \<longrightarrow> aclIdentityCurrent r (Some i) \<and> q \<noteq> r_primary r \<and> q \<noteq> r_replica r \<and> q < length (hp_pools (r_heap r1)) \<and>
       logs_in (userBackendKey (Some i)) (sp_auth (hp_pools (r_heap r1) ! q)))"
proof (cases "aclIdentityCurrent r (Some i) \<and> map_of (if replica then r_userReplica r else r_userPrimary r) (userBackendKey (Some i)) = None")
  case False
  then have "r1 = r" "\<And>q. p = Some q \<Longrightarrow> aclIdentityCurrent r (Some i) \<and>
      ((userBackendKey (Some i), q) \<in> set (r_userPrimary r) \<or> (userBackendKey (Some i), q) \<in> set (r_userReplica r))"
    using u by (auto simp: userBackendPool_def Let_def split: if_splits option.splits dest: map_of_SomeD)
  with ok users_pools [OF ok, of "userBackendKey (Some i)"] show ?thesis by (metis grown_refl)
next
  case True
  define par where "par = (if replica then cf_BackendReplicaParallel (r_config r) else cf_BackendPrimaryParallel (r_config r))"
  define a where "a = \<lparr>ai_Username = si_Username i, ai_Password = si_Password i\<rparr>"
  obtain q h where n: "newSharedBackendConnPool par a (r_heap r) = (q, h)" by fastforce
  have refs: "refs_ok (r_config r) {r_primary r, r_replica r} (r_heap r) (all_refs (r_slots r))" using ok by (simp add: router_ok_def)
  note h = newPool_ok [OF _ n, of "r_config r"]
  have hok: "heap_ok (r_config r) (r_heap r)" using refs by (simp add: refs_ok_def)
  have old: "hp_pools h ! k = hp_pools (r_heap r) ! k" if "k < length (hp_pools (r_heap r))" for k
    using h(6) [OF hok] that by (metis nth_append)
  have len: "length (hp_pools h) = Suc q" using h(3,6) [OF hok] by (metis length_append_singleton)
  have refs1: "refs_ok (r_config r) {r_primary r, r_replica r} h (all_refs (r_slots r))"
    using refs h(1,3,4) [OF hok] old len unfolding refs_ok_def by auto
  have r1: "r1 = (if replica then r\<lparr>r_heap := h, r_userReplica := (userBackendKey (Some i), q) # r_userReplica r\<rparr>
      else r\<lparr>r_heap := h, r_userPrimary := (userBackendKey (Some i), q) # r_userPrimary r\<rparr>)" "p = Some q"
    using u True n by (auto simp: userBackendPool_def Let_def par_def a_def split: if_splits)
  have q: "q \<noteq> r_primary r" "q \<noteq> r_replica r" using refs h(3) [OF hok] by (auto simp: refs_ok_def)
  have login: "logs_in (userBackendKey (Some i)) (sp_auth (hp_pools h ! q))"
    using h(7) [OF hok] i by (simp add: logs_in_def userBackendKey_def a_def identity_ok_def)
  have "users_ok (r\<lparr>r_heap := h\<rparr>)" by (rule users_ok_grown [OF ok]) (use h(2) [OF hok] in auto)
  then have "users_ok r1" using q login len by (auto simp: r1 users_ok_def)
  then have "router_ok r1 \<and> GetSlots r1 = GetSlots r" using router_ok_heap [OF ok refs1 h(2) [OF hok], of r1] by (simp add: r1)
  with q login len True h(2) [OF hok] show ?thesis by (simp add: r1)
qed

text \<open>
  A connection for a user is open and has logged in as that user, and it is only found while the identity is
  the one of the current access list.
\<close>

lemma userBackendConn_ok:
  assumes ok: "router_ok r" and i: "identity_ok i" and db: "0 \<le> database" "database < cf_BackendNumberDatabases (r_config r)"
  shows "\<exists>bc r1. userBackendConn addr database seed replica (Some i) must r = Some (bc, r1) \<and>
    router_ok r1 \<and> GetSlots r1 = GetSlots r \<and> r_slots r1 = r_slots r \<and> r_config r1 = r_config r \<and> r_acl r1 = r_acl r \<and> r_closed r1 = r_closed r \<and>
    r_primary r1 = r_primary r \<and> r_replica r1 = r_replica r \<and> grown (r_heap r) (r_heap r1) \<and>
    (\<forall>c. bc = Some c \<longrightarrow> aclIdentityCurrent r (Some i) \<and> c < length (hp_bcs (r_heap r1)) \<and> \<not> bc_closed (hp_bcs (r_heap r1) ! c) \<and>
       bc_addr (hp_bcs (r_heap r1) ! c) = addr \<and> bc_database (hp_bcs (r_heap r1) ! c) = database \<and>
       logs_in (userBackendKey (Some i)) (bc_auth (hp_bcs (r_heap r1) ! c)))"
proof -
  obtain p r1 where u: "userBackendPool replica i r = (p, r1)" by fastforce
  note r1 = userBackendPool_ok [OF ok i u]
  show ?thesis
  proof (cases p)
    case None
    with u r1 show ?thesis by (simp add: userBackendConn_def)
  next
    case (Some q)
    obtain s h where g: "Pool_GetOrCreate (r_config r1) q addr (r_heap r1) = (s, h)" by fastforce
    have q: "q \<notin> {r_primary r1, r_replica r1}" "q < length (hp_pools (r_heap r1))" "logs_in (userBackendKey (Some i)) (sp_auth (hp_pools (r_heap r1) ! q))"
      using r1 Some by auto
    have refs: "refs_ok (r_config r1) {r_primary r1, r_replica r1} (r_heap r1) (all_refs (r_slots r1))" and n: "0 \<le> cf_BackendNumberDatabases (r_config r1)"
      using r1 by (auto simp: router_ok_def)
    note h = GetOrCreate_ok [OF refs n q(1,2) g]
    have users: "users_ok (r1\<lparr>r_heap := h\<rparr>)" by (rule users_ok_grown [of r1]) (use h r1 in auto)
    have r2: "router_ok (r1\<lparr>r_heap := h\<rparr>) \<and> GetSlots (r1\<lparr>r_heap := h\<rparr>) = GetSlots r1"
      using router_ok_heap [of r1 h "r1\<lparr>r_heap := h\<rparr>"] users h r1 by simp
    have g2: "grown (r_heap r) h" using r1 h grown_trans by blast
    show ?thesis
    proof (cases s)
      case None
      with u Some g r1 r2 g2 show ?thesis by (simp add: userBackendConn_def)
    next
      case (Some k)
      then have k: "k < length (hp_scs h)" "listed h k" "sc_owner (shared h k) = q" "sc_addr (shared h k) = addr" using h by auto
      have hok: "heap_ok (r_config r1) h" using h by (simp add: refs_ok_def)
      obtain bc where bc: "BackendConn_of h (Some k) database seed must = Some bc" "\<And>c. bc = Some c \<Longrightarrow> c \<in> set (conns_of h k) \<and> c < length (hp_bcs h) \<and>
          bc_addr (hp_bcs h ! c) = addr \<and> bc_auth (hp_bcs h ! c) = sc_auth (shared h k) \<and> bc_database (hp_bcs h ! c) = database"
        using BackendConn_of_ok [OF hok k(1) db(1), of seed must] db(2) r1 k(4) by auto
      have "sc_auth (shared h k) = sp_auth (hp_pools h ! q)" using pool_entry(5) [OF hok] k h q(2) by (auto simp: listed_def)
      then have login: "logs_in (userBackendKey (Some i)) (sc_auth (shared h k))" using q(2,3) h by (simp add: grown_def)
      have opened: "\<not> bc_closed (hp_bcs h ! c)" if "c \<in> set (conns_of h k)" for c using heap_okD(5) [OF hok k(1) that] k(2) by simp
      have "userBackendConn addr database seed replica (Some i) must r = Some (bc, r1\<lparr>r_heap := h\<rparr>)"
        using u \<open>p = Some q\<close> g Some bc(1) by (simp add: userBackendConn_def)
      with bc(2) login opened r1 r2 g2 \<open>p = Some q\<close> show ?thesis by auto
    qed
  qed
qed

section \<open>Runs\<close>

datatype router_op = Fill Slot | Switch "string \<Rightarrow> string" "int \<Rightarrow> string option" | Install "ACL option" | Begin | Shut

primrec do_router :: "router_op \<Rightarrow> Router \<Rightarrow> Router option" where
  "do_router (Fill m) r = map_option snd (FillSlot m r)"
| "do_router (Switch runid masters) r = map_option snd (Router_SwitchMasters runid masters r)"
| "do_router (Install acl) r = Some (snd (Router_SetACL acl r))"
| "do_router Begin r = Some (Router_Start r)"
| "do_router Shut r = Router_Close r"

lemma do_router_ok: "router_ok r \<Longrightarrow> \<exists>r1. do_router x r = Some r1 \<and> router_ok r1 \<and> r_config r1 = r_config r"
proof (cases x)
  case (Fill m)
  then show "router_ok r \<Longrightarrow> ?thesis" using FillSlot_ok [of r m] by fastforce
next
  case (Switch runid masters)
  then show "router_ok r \<Longrightarrow> ?thesis" using Router_SwitchMasters_ok [of r runid masters] by fastforce
next
  case (Install acl)
  then show "router_ok r \<Longrightarrow> ?thesis" using Router_SetACL_ok [of r acl] by (cases "Router_SetACL acl r") simp
next
  case Begin
  then show "router_ok r \<Longrightarrow> ?thesis" using router_ok_cong [of r "Router_Start r"] by (simp add: Router_Start_def)
next
  case Shut
  then show "router_ok r \<Longrightarrow> ?thesis" using Router_Close_ok [of r] by auto
qed

lemma run_router_ok: "router_ok r \<Longrightarrow> \<exists>r1. each do_router xs r = Some r1 \<and> router_ok r1 \<and> r_config r1 = r_config r"
  by (rule each_inv) (use do_router_ok in fastforce)+

lemma in_all_refs: "i \<in># all_refs ss \<longleftrightarrow> (\<exists>s \<in> set ss. Some i \<in> set (slot_refs s))"
  by (induction ss) (auto simp: all_refs_def in_pointers)

text \<open>
  C13. Whatever slots are filled, masters switched and access lists installed, the router never gives a
  connection back too often and never uses one that was given back, the two panics of the counting; and
  the connections to a server are open if and only if some slot refers to it.
\<close>

theorem connections_follow_slots:
  assumes "Config_Validate config0 = (None, config)" and "NewRouter clock config = Some r0"
  shows "\<exists>r. each do_router xs r0 = Some r \<and>
    (\<forall>i < length (hp_scs (r_heap r)). sc_owner (shared (r_heap r) i) \<in> {r_primary r, r_replica r} \<longrightarrow>
       (\<forall>c \<in> set (conns_of (r_heap r) i). \<not> bc_closed (hp_bcs (r_heap r) ! c) \<longleftrightarrow> (\<exists>s \<in> set (r_slots r). Some i \<in> set (slot_refs s))))"
proof -
  have "router_ok r0" using NewRouter_ok [OF assms(2) validated_cases(2) [OF assms(1)]] by simp
  from run_router_ok [OF this] obtain r where r: "each do_router xs r0 = Some r" "router_ok r" by blast
  then have refs: "refs_ok (r_config r) {r_primary r, r_replica r} (r_heap r) (all_refs (r_slots r))" by (simp add: router_ok_def)
  then have h: "heap_ok (r_config r) (r_heap r)" by (simp add: refs_ok_def)
  have "\<not> bc_closed (hp_bcs (r_heap r) ! c) \<longleftrightarrow> (\<exists>s \<in> set (r_slots r). Some i \<in> set (slot_refs s))"
    if i: "i < length (hp_scs (r_heap r))" "sc_owner (shared (r_heap r) i) \<in> {r_primary r, r_replica r}" and c: "c \<in> set (conns_of (r_heap r) i)" for i c
  proof -
    have "listed (r_heap r) i \<longleftrightarrow> i \<in># all_refs (r_slots r)"
    proof
      assume "listed (r_heap r) i"
      then have "0 < sc_refcnt (shared (r_heap r) i)" using pool_entry(4) [OF h owner_pool [OF h i(1)]] by (simp add: listed_def)
      with refs i show "i \<in># all_refs (r_slots r)" unfolding refs_ok_def by (metis count_greater_zero_iff of_nat_0_less_iff)
    qed (use refs_owner [OF refs] in blast)
    with heap_okD(5) [OF h i(1) c] in_all_refs show ?thesis by blast
  qed
  with r(1) show ?thesis by blast
qed

definition config_demo :: Config where
  "config_demo =
     \<lparr>cf_ProtoType = ''tcp4'', cf_ProxyAddr = ''0.0.0.0:19000'', cf_AdminAddr = ''0.0.0.0:11080'', cf_JodisName = [], cf_JodisAddr = [], cf_JodisTimeout = 0,
      cf_ClusterNodesCompat = ''disabled'', cf_ClusterNodesRefreshPeriod = 0, cf_ProductName = ''demo'', cf_ProductAuth = [], cf_SessionAuth = ''secret'',
      cf_SessionAuthBruteforceEnabled = True, cf_SessionAuthBruteforceMaxFailures = 3, cf_SessionAuthBruteforceLockDuration = 60000000000,
      cf_CodisACLEnabled = True, cf_BackendAuthUsername = [], cf_BackendAuthPassword = [], cf_ProxyMaxClients = 1000, cf_ProxyQPSLimit = 0,
      cf_ProxyMaxOffheapBytes = 0, cf_ProxyHeapPlaceholder = 0, cf_BackendPingPeriod = 0, cf_BackendRecvBufsize = 131072, cf_BackendRecvTimeout = 0,
      cf_BackendSendBufsize = 131072, cf_BackendSendTimeout = 0, cf_BackendMaxPipeline = 1024, cf_BackendPrimaryOnly = False,
      cf_BackendPrimaryParallel = 1, cf_BackendReplicaParallel = 1, cf_BackendKeepAlivePeriod = 0, cf_BackendNumberDatabases = 16,
      cf_SessionRecvBufsize = 131072, cf_SessionRecvTimeout = 0, cf_SessionSendBufsize = 65536, cf_SessionSendTimeout = 0, cf_SessionMaxPipeline = 1024,
      cf_SessionKeepAlivePeriod = 0, cf_SessionBreakOnFailure = False, cf_HotKeyCacheEnabled = True, cf_HotKeyCacheTTL = 1000000000,
      cf_HotKeyCacheMaxEntries = 100, cf_HotKeyCacheMaxValueSize = 1024, cf_HotKeyCacheKeys = [''hot''], cf_HotKeyCacheBroadcastEnabled = False,
      cf_HotKeyCacheBroadcastTimeout = 0, cf_HotKeyCacheBroadcastQueueSize = 0, cf_MetricsReportPeriod = 0, cf_MetricsReportInfluxdbPeriod = 0,
      cf_MetricsReportStatsdPeriod = 0\<rparr>"

lemma demo_valid: "Config_Validate config_demo = (None, config_demo)"
  by (simp add: Config_Validate_def firstError_def checkIdentity_def checkCluster_def checkProxy_def checkBackend_def checkSession_def
      checkHotKeys_def checkMetrics_def bad_size_def config_demo_def)

lemma NewRouter_some: "0 \<le> cf_ProxyQPSLimit config \<Longrightarrow> \<exists>r. NewRouter clock config = Some r"
  by (auto simp: NewRouter_def config_limiter_def newQPSLimiter_def SetLimit_def Let_def split: prod.splits)

theorem connections_follow_slots_witness:
  "\<exists>r0 r. NewRouter 1 config_demo = Some r0 \<and>
    each do_router [Fill ((offline 5)\<lparr>sl_BackendAddr := ''10.0.0.1:6379''\<rparr>), Shut] r0 = Some r"
proof -
  obtain r0 where "NewRouter 1 config_demo = Some r0" using NewRouter_some [of config_demo 1] by (auto simp: config_demo_def)
  with connections_follow_slots [OF demo_valid this, of "[Fill ((offline 5)\<lparr>sl_BackendAddr := ''10.0.0.1:6379''\<rparr>), Shut]"]
  show ?thesis by blast
qed

end
