(* ===== verification/Forward.thy ===== *)
theory Forward
  imports Router Resp
begin

unbundle bit_operations_syntax

text \<open>
  How a request gets to a server: \<open>Request\<close> of \<open>src/pkg/proxy/request.go\<close>, the forward methods of
  \<open>src/pkg/proxy/forward.go\<close>, the dry runs of \<open>src/pkg/proxy/acl_backend.go\<close> and the dispatch of the router.
  What a server answers to a request that the proxy itself sends is a parameter, a function of the
  connection and the message: the error of the connection or the reply.  The list of these messages is part
  of the result.  The outer \<open>None\<close> is a panic.
\<close>

section \<open>Requests\<close>

text \<open>\<open>ptr\<close> is the address of the request, which \<open>Seed16\<close> mixes with its time.\<close>

record Request =
  rq_Multi :: "Resp list"
  rq_OpStr :: string
  rq_OpFlag :: OpFlag
  rq_Database :: int
  rq_UnixNano :: int
  rq_ptr :: nat
  rq_ACLIdentity :: "SessionACLIdentity option"
  rq_Broken :: bool

definition GOLDEN_RATIO_PRIME_32 :: "32 word" where
  "GOLDEN_RATIO_PRIME_32 = 0x9e370001"

definition Seed16 :: "Request \<Rightarrow> nat" where
  "Seed16 r = unat (drop_bit 16 ((word_of_int (rq_UnixNano r) + of_nat (rq_ptr r)) * GOLDEN_RATIO_PRIME_32))"

datatype forward_error =
  ErrSlotIsNotReady | ErrRespIsRequired | ErrBadSlotId | ErrRequestIsBroken | ErrConn string | ErrBadResp string

type_synonym call = "nat \<Rightarrow> Resp list \<Rightarrow> string + Resp option"

type_synonym calls = "(nat \<times> Resp list) list"

datatype forwarded = Failed forward_error | Push nat | Answered Resp | Retry

abbreviation bulk :: "bytes \<Rightarrow> Resp" where
  "bulk b \<equiv> NewBulkBytes (Some b)"

section \<open>Messages of the proxy\<close>

definition slotsmgrtMulti :: "heap \<Rightarrow> RouterSlot \<Rightarrow> bytes \<Rightarrow> Resp list" where
  "slotsmgrtMulti h s hkey =
     (let sc = shared h (the (rs_backend_bc s))
      in [bulk ''SLOTSMGRTTAGONE'', bulk (sc_host sc), bulk (sc_port sc), bulk ''3000'', bulk hkey])"

definition slotsmgrtReply :: "string + Resp option \<Rightarrow> forward_error option" where
  "slotsmgrtReply reply =
     (case reply of
        Inl e \<Rightarrow> Some (ErrConn e)
      | Inr None \<Rightarrow> Some ErrRespIsRequired
      | Inr (Some resp) \<Rightarrow>
          if IsError resp then Some (ErrBadResp (''bad slotsmgrt resp: '' @ Value_of resp))
          else if IsInt resp then None
          else Some (ErrBadResp (''bad slotsmgrt resp: should be integer, but got '' @ RespType_String (Resp_Type resp))))"

text \<open>A key is moved to the new server; the call goes to the old one.\<close>

definition slotsmgrt :: "call \<Rightarrow> heap \<Rightarrow> RouterSlot \<Rightarrow> bytes \<Rightarrow> int \<Rightarrow> nat \<Rightarrow> (calls \<times> forward_error option) option" where
  "slotsmgrt call h s hkey database seed =
     (case BackendConn_of h (rs_migrate_bc s) database seed True of
        Some (Some c) \<Rightarrow> let m = slotsmgrtMulti h s hkey in Some ([(c, m)], slotsmgrtReply (call c m))
      | _ \<Rightarrow> None)"

definition dryRunMulti :: "string \<Rightarrow> Resp list \<Rightarrow> Resp list" where
  "dryRunMulti username multi = [bulk ''ACL'', bulk ''DRYRUN'', bulk username] @ multi"

text \<open>The reply of a dry run: an error, the refusal to hand to the client, or \<open>Inr None\<close>, permission.\<close>

definition dryRunReply :: "string + Resp option \<Rightarrow> forward_error + Resp option" where
  "dryRunReply reply =
     (case reply of
        Inl e \<Rightarrow> Inl (ErrConn e)
      | Inr None \<Rightarrow> Inl ErrRespIsRequired
      | Inr (Some resp) \<Rightarrow>
          if IsError resp then Inr (Some resp)
          else if IsString resp then Inr None
          else Inl (ErrBadResp (''bad acl dryrun resp: should be string, but got '' @ RespType_String (Resp_Type resp))))"

definition aclDryRunOnBackend ::
  "call \<Rightarrow> heap \<Rightarrow> nat option \<Rightarrow> int \<Rightarrow> nat \<Rightarrow> string \<Rightarrow> Resp list \<Rightarrow> (calls \<times> (forward_error + Resp option)) option" where
  "aclDryRunOnBackend call h bc database seed username multi =
     (if bc = None then Some ([], Inl ErrSlotIsNotReady)
      else
        (case BackendConn_of h bc database seed True of
           Some (Some c) \<Rightarrow> let m = dryRunMulti username multi in Some ([(c, m)], dryRunReply (call c m))
         | _ \<Rightarrow> None))"

definition execMulti :: "bytes \<Rightarrow> Resp list \<Rightarrow> Resp list" where
  "execMulti hkey multi = [bulk ''SLOTSMGRT-EXEC-WRAPPER'', bulk hkey] @ multi"

text \<open>The reply to the wrapped command: moved away, not yet (try again), or the reply of the command.\<close>

datatype wrapped = Moved | Again | Replied Resp

definition execReply :: "string + Resp option \<Rightarrow> forward_error + wrapped" where
  "execReply reply =
     (case reply of
        Inl e \<Rightarrow> Inl (ErrConn e)
      | Inr None \<Rightarrow> Inl ErrRespIsRequired
      | Inr (Some resp) \<Rightarrow>
          if IsError resp then Inl (ErrBadResp (''bad slotsmgrt-exec-wrapper resp: '' @ Value_of resp))
          else if IsArray resp then
            let array = (case Resp_Array resp of Some a \<Rightarrow> a | None \<Rightarrow> [])
            in if length array \<noteq> 2 then Inl (ErrBadResp (''bad slotsmgrt-exec-wrapper resp: array.len = '' @ FormatInt (of_nat (length array))))
               else if \<not> IsInt (array ! 0) \<or> length (Value_of (array ! 0)) \<noteq> 1
               then Inl (ErrBadResp (''bad slotsmgrt-exec-wrapper resp: type(array[0]) = '' @ RespType_String (Resp_Type (array ! 0)) @
                      '', len(array[0].value) = '' @ FormatInt (of_nat (length (Value_of (array ! 0))))))
               else
                 let d = Value_of (array ! 0) ! 0
                 in if d = CHR ''0'' then Inr Moved
                    else if d = CHR ''1'' then Inr Again
                    else if d = CHR ''2'' then Inr (Replied (array ! 1))
                    else Inl (ErrBadResp (''bad slotsmgrt-exec-wrapper resp: ['' @ Value_of (array ! 0) @ ''] '' @ Value_of (array ! 1)))
          else Inl (ErrBadResp (''bad slotsmgrt-exec-wrapper resp: should be integer, but got '' @ RespType_String (Resp_Type resp))))"

definition slotsmgrtExecWrapper ::
  "call \<Rightarrow> heap \<Rightarrow> RouterSlot \<Rightarrow> bytes \<Rightarrow> int \<Rightarrow> nat \<Rightarrow> Resp list \<Rightarrow> SessionACLIdentity option \<Rightarrow> (calls \<times> (forward_error + wrapped)) option" where
  "slotsmgrtExecWrapper call h s hkey database seed multi identity =
     Option.bind
       (case identity of
          None \<Rightarrow> Some ([], Inr None)
        | Some i \<Rightarrow> aclDryRunOnBackend call h (rs_migrate_bc s) database seed (si_Username i) multi)
       (\<lambda>(trace, dry).
          case dry of
            Inl e \<Rightarrow> Some (trace, Inl e)
          | Inr (Some resp) \<Rightarrow> Some (trace, Inr (Replied resp))
          | Inr None \<Rightarrow>
              (case BackendConn_of h (rs_migrate_bc s) database seed True of
                 Some (Some c) \<Rightarrow> let m = execMulti hkey multi in Some (trace @ [(c, m)], execReply (call c m))
               | _ \<Rightarrow> None))"

section \<open>Choice of the connection\<close>

text \<open>A connection of the user, or of the proxy when the request has no user.\<close>

definition pickConn :: "nat option \<Rightarrow> bool \<Rightarrow> bool \<Rightarrow> Request \<Rightarrow> Router \<Rightarrow> (nat option \<times> Router) option" where
  "pickConn x replica must q r =
     (if rq_ACLIdentity q \<noteq> None
      then userBackendConn (Addr (r_heap r) x) (rq_Database q) (Seed16 q) replica (rq_ACLIdentity q) must r
      else map_option (\<lambda>bc. (bc, r)) (BackendConn_of (r_heap r) x (rq_Database q) (Seed16 q) must))"

text \<open>One group of replicas, from the place after the seed on, then the next group.\<close>

fun tryGroup :: "Request \<Rightarrow> nat option list \<Rightarrow> nat \<Rightarrow> nat \<Rightarrow> Router \<Rightarrow> (nat option \<times> Router) option" where
  "tryGroup q g 0 i r = Some (None, r)"
| "tryGroup q g (Suc n) i r =
     (let i = (i + 1) mod length g
      in Option.bind (pickConn (g ! i) True False q r)
           (\<lambda>(bc, r1). case bc of Some c \<Rightarrow> Some (Some c, r1) | None \<Rightarrow> tryGroup q g n i r1))"

fun tryGroups :: "Request \<Rightarrow> nat option list list \<Rightarrow> Router \<Rightarrow> (nat option \<times> Router) option" where
  "tryGroups q [] r = Some (None, r)"
| "tryGroups q (g # gs) r =
     Option.bind (tryGroup q g (length g) (Seed16 q) r) (\<lambda>(bc, r1). case bc of Some c \<Rightarrow> Some (Some c, r1) | None \<Rightarrow> tryGroups q gs r1)"

definition forward2 :: "RouterSlot \<Rightarrow> Request \<Rightarrow> Router \<Rightarrow> (nat option \<times> Router) option" where
  "forward2 s q r =
     Option.bind
       (if rs_migrate_bc s = None \<and> \<not> IsMasterOnly (rq_OpFlag q) \<and> rs_replicaGroups s \<noteq> [] then tryGroups q (rs_replicaGroups s) r
        else Some (None, r))
       (\<lambda>(bc, r1).
          case bc of
            Some c \<Rightarrow> Some (Some c, r1)
          | None \<Rightarrow> pickConn (rs_backend_bc s) False True q r1)"

text \<open>\<open>process\<close> of the two methods, under the read lock of the slot.\<close>

definition finishForward :: "RouterSlot \<Rightarrow> Request \<Rightarrow> calls \<Rightarrow> Router \<Rightarrow> (calls \<times> forwarded \<times> Router) option" where
  "finishForward s q trace r =
     Option.bind (forward2 s q r) (\<lambda>(bc, r1). Some (trace, case bc of Some c \<Rightarrow> Push c | None \<Rightarrow> Failed ErrSlotIsNotReady, r1))"

definition processSync :: "call \<Rightarrow> RouterSlot \<Rightarrow> Request \<Rightarrow> bytes \<Rightarrow> Router \<Rightarrow> (calls \<times> forwarded \<times> Router) option" where
  "processSync call s q hkey r =
     (if rs_backend_bc s = None then Some ([], Failed ErrSlotIsNotReady, r)
      else if rs_migrate_bc s \<noteq> None \<and> hkey \<noteq> [] then
        Option.bind (slotsmgrt call (r_heap r) s hkey (rq_Database q) (Seed16 q)) (\<lambda>(trace, err).
          case err of Some e \<Rightarrow> Some (trace, Failed e, r) | None \<Rightarrow> finishForward s q trace r)
      else finishForward s q [] r)"

definition processSemiAsync :: "call \<Rightarrow> RouterSlot \<Rightarrow> Request \<Rightarrow> bytes \<Rightarrow> Router \<Rightarrow> (calls \<times> forwarded \<times> Router) option" where
  "processSemiAsync call s q hkey r =
     (if rs_backend_bc s = None then Some ([], Failed ErrSlotIsNotReady, r)
      else if rs_migrate_bc s \<noteq> None \<and> hkey \<noteq> [] then
        Option.bind (slotsmgrtExecWrapper call (r_heap r) s hkey (rq_Database q) (Seed16 q) (rq_Multi q) (rq_ACLIdentity q)) (\<lambda>(trace, res).
          case res of
            Inl e \<Rightarrow> Some (trace, Failed e, r)
          | Inr (Replied resp) \<Rightarrow> Some (trace, Answered resp, r)
          | Inr Again \<Rightarrow> Some (trace, Retry, r)
          | Inr Moved \<Rightarrow> finishForward s q trace r)
      else finishForward s q [] r)"

definition processMethod :: "forwardMethod \<Rightarrow> call \<Rightarrow> RouterSlot \<Rightarrow> Request \<Rightarrow> bytes \<Rightarrow> Router \<Rightarrow> (calls \<times> forwarded \<times> Router) option" where
  "processMethod m = (case m of forwardSync \<Rightarrow> processSync | forwardSemiAsync \<Rightarrow> processSemiAsync)"

text \<open>
  \<open>Forward\<close>: the semi-asynchronous method tries again while the key is being moved, until the client is gone.
  Each attempt has its own answers and may find the client gone afterwards; \<open>None\<close> of the inner option is a
  loop that did not end within the attempts given.
\<close>

fun ForwardLoop :: "(call \<times> bool) list \<Rightarrow> nat \<Rightarrow> Request \<Rightarrow> bytes \<Rightarrow> Router \<Rightarrow> (calls \<times> forwarded option \<times> Router) option" where
  "ForwardLoop [] i q hkey r = Some ([], None, r)"
| "ForwardLoop ((call, broken) # attempts) i q hkey r =
     Option.bind (processMethod (rs_method (r_slots r ! i)) call (r_slots r ! i) q hkey r) (\<lambda>(trace, res, r1).
       case res of
         Retry \<Rightarrow> if broken then Some (trace, Some (Failed ErrRequestIsBroken), r1)
                  else Option.bind (ForwardLoop attempts i q hkey r1) (\<lambda>(trace1, res1, r2). Some (trace @ trace1, res1, r2))
       | _ \<Rightarrow> Some (trace, Some res, r1))"

section \<open>Dispatch\<close>

definition dispatchByHashKey :: "(call \<times> bool) list \<Rightarrow> Request \<Rightarrow> bytes \<Rightarrow> Router \<Rightarrow> (calls \<times> forwarded option \<times> Router) option" where
  "dispatchByHashKey attempts q hkey r = ForwardLoop attempts (unat (Hash hkey) mod MaxSlotNum) q hkey r"

definition dispatch :: "(call \<times> bool) list \<Rightarrow> Request \<Rightarrow> Router \<Rightarrow> (calls \<times> forwarded option \<times> Router) option" where
  "dispatch attempts q r =
     dispatchByHashKey attempts q (case getHashKey (rq_Multi q) (rq_OpStr q) of Some k \<Rightarrow> k | None \<Rightarrow> []) r"

definition dispatchSlot :: "(call \<times> bool) list \<Rightarrow> Request \<Rightarrow> int \<Rightarrow> Router \<Rightarrow> (calls \<times> forwarded option \<times> Router) option" where
  "dispatchSlot attempts q i r =
     (if i < 0 \<or> i \<ge> int MaxSlotNum then Some ([], Some (Failed ErrBadSlotId), r) else ForwardLoop attempts (nat i) q [] r)"

definition addrConn :: "nat \<Rightarrow> bool \<Rightarrow> Request \<Rightarrow> string \<Rightarrow> Router \<Rightarrow> (nat option \<times> Router) option" where
  "addrConn p replica q addr r =
     (case Pool_Get p addr (r_heap r) of
        None \<Rightarrow> Some (None, r)
      | Some s \<Rightarrow>
          if rq_ACLIdentity q \<noteq> None then userBackendConn addr (rq_Database q) (Seed16 q) replica (rq_ACLIdentity q) True r
          else map_option (\<lambda>bc. (bc, r)) (BackendConn_of (r_heap r) (Some s) (rq_Database q) (Seed16 q) False))"

definition dispatchAddr :: "Request \<Rightarrow> string \<Rightarrow> Router \<Rightarrow> (nat option \<times> Router) option" where
  "dispatchAddr q addr r =
     Option.bind (addrConn (r_primary r) False q addr r) (\<lambda>(bc, r1).
       case bc of Some c \<Rightarrow> Some (Some c, r1) | None \<Rightarrow> addrConn (r_replica r1) True q addr r1)"

text \<open>The dry runs of commands that the proxy answers itself.\<close>

definition aclDryRunSlot :: "call \<Rightarrow> Request \<Rightarrow> SessionACLIdentity \<Rightarrow> RouterSlot \<Rightarrow> Router \<Rightarrow> (calls \<times> (forward_error + Resp option)) option" where
  "aclDryRunSlot call q i s r =
     aclDryRunOnBackend call (r_heap r) (rs_backend_bc s) (rq_Database q) (Seed16 q) (si_Username i) (rq_Multi q)"

definition aclDryRunAny :: "call \<Rightarrow> Request \<Rightarrow> SessionACLIdentity \<Rightarrow> Router \<Rightarrow> (calls \<times> (forward_error + Resp option)) option" where
  "aclDryRunAny call q i r =
     (case find (\<lambda>s. rs_backend_bc s \<noteq> None) (r_slots r) of
        Some s \<Rightarrow> aclDryRunSlot call q i s r
      | None \<Rightarrow> Some ([], Inl ErrSlotIsNotReady))"

definition aclDryRunLocal :: "call \<Rightarrow> Request \<Rightarrow> Router \<Rightarrow> (calls \<times> (forward_error + Resp option)) option" where
  "aclDryRunLocal call q r =
     (case rq_ACLIdentity q of None \<Rightarrow> Some ([], Inr None) | Some i \<Rightarrow> aclDryRunAny call q i r)"

definition aclDryRunKey :: "call \<Rightarrow> Request \<Rightarrow> bytes \<Rightarrow> Router \<Rightarrow> (calls \<times> (forward_error + Resp option)) option" where
  "aclDryRunKey call q key r =
     (case rq_ACLIdentity q of
        None \<Rightarrow> Some ([], Inr None)
      | Some i \<Rightarrow> aclDryRunSlot call q i (r_slots r ! (unat (Hash key) mod MaxSlotNum)) r)"

section \<open>Where requests go\<close>

definition request_ok :: "Router \<Rightarrow> Request \<Rightarrow> bool" where
  "request_ok r q \<longleftrightarrow> 0 \<le> rq_Database q \<and> rq_Database q < cf_BackendNumberDatabases (r_config r) \<and> (\<forall>i. rq_ACLIdentity q = Some i \<longrightarrow> identity_ok i)"

definition kept :: "Router \<Rightarrow> Router \<Rightarrow> bool" where
  "kept r r1 \<longleftrightarrow> router_ok r1 \<and> GetSlots r1 = GetSlots r \<and> r_slots r1 = r_slots r \<and> r_config r1 = r_config r \<and> r_acl r1 = r_acl r \<and> r_closed r1 = r_closed r \<and>
     r_primary r1 = r_primary r \<and> r_replica r1 = r_replica r \<and> grown (r_heap r) (r_heap r1)"

lemma kept_refl: "router_ok r \<Longrightarrow> kept r r"
  by (simp add: kept_def)

lemma kept_trans: "kept r r1 \<Longrightarrow> kept r1 r2 \<Longrightarrow> kept r r2"
  by (auto simp: kept_def intro: grown_trans)

text \<open>
  An open connection of the shared connection \<open>x\<close> or to its server, for the database of the request, and for
  a user logged in as the user.
\<close>

definition leads_to :: "Request \<Rightarrow> nat option \<Rightarrow> Router \<Rightarrow> nat \<Rightarrow> bool" where
  "leads_to q x r c \<longleftrightarrow>
     c < length (hp_bcs (r_heap r)) \<and> \<not> bc_closed (hp_bcs (r_heap r) ! c) \<and> bc_addr (hp_bcs (r_heap r) ! c) = Addr (r_heap r) x \<and>
     bc_database (hp_bcs (r_heap r) ! c) = rq_Database q \<and>
     (case rq_ACLIdentity q of
        None \<Rightarrow> \<exists>j. x = Some j \<and> c \<in> set (conns_of (r_heap r) j)
      | Some i \<Rightarrow> aclIdentityCurrent r (Some i) \<and> logs_in (userBackendKey (Some i)) (bc_auth (hp_bcs (r_heap r) ! c)))"

lemma slot_ref_listed:
  assumes "router_ok r" "s \<in> set (r_slots r)" "Some j \<in> set (slot_refs s)"
  shows "j < length (hp_scs (r_heap r))" "listed (r_heap r) j"
proof -
  have "j \<in># all_refs (r_slots r)" using assms(2,3) in_all_refs by blast
  with assms(1) refs_owner show "j < length (hp_scs (r_heap r))" "listed (r_heap r) j" unfolding router_ok_def by blast+
qed

lemma kept_Addr:
  assumes "router_ok r" "kept r r1" "s \<in> set (r_slots r)" "x \<in> set (slot_refs s)"
  shows "Addr (r_heap r1) x = Addr (r_heap r) x"
proof (cases x)
  case (Some j)
  with slot_ref_listed [OF assms(1,3)] assms(2,4) show ?thesis by (auto simp: kept_def Addr_grown)
qed (simp add: Addr_def)

lemma request_kept: "kept r r1 \<Longrightarrow> request_ok r1 q = request_ok r q"
  by (simp add: kept_def request_ok_def)

lemma choose_conn:
  assumes ok: "router_ok r" "request_ok r q" and s: "s \<in> set (r_slots r)" and x: "x \<in> set (slot_refs s)" "x \<noteq> None"
  shows "\<exists>bc r1. pickConn x replica must q r = Some (bc, r1) \<and> kept r r1 \<and> (rq_ACLIdentity q = None \<and> must \<longrightarrow> bc \<noteq> None) \<and>
     (\<forall>c. bc = Some c \<longrightarrow> leads_to q x r1 c)"
proof (cases "rq_ACLIdentity q")
  case None
  obtain j where j: "x = Some j" using x(2) by auto
  have h: "heap_ok (r_config r) (r_heap r)" using ok(1) by (simp add: router_ok_def refs_ok_def)
  have db: "0 \<le> rq_Database q" "rq_Database q < cf_BackendNumberDatabases (r_config r)" using ok(2) by (auto simp: request_ok_def)
  have l: "j < length (hp_scs (r_heap r))" "listed (r_heap r) j" using slot_ref_listed [OF ok(1) s] x j by auto
  from BackendConn_of_ok [OF h l(1) db, of "Seed16 q" must] obtain bc where bc: "BackendConn_of (r_heap r) (Some j) (rq_Database q) (Seed16 q) must = Some bc"
    "must \<longrightarrow> bc \<noteq> None" "\<And>c. bc = Some c \<Longrightarrow> c \<in> set (conns_of (r_heap r) j) \<and> c < length (hp_bcs (r_heap r)) \<and> bc_addr (hp_bcs (r_heap r) ! c) = sc_addr (shared (r_heap r) j) \<and>
       bc_auth (hp_bcs (r_heap r) ! c) = sc_auth (shared (r_heap r) j) \<and> bc_database (hp_bcs (r_heap r) ! c) = rq_Database q" by blast
  have "leads_to q x r c" if "bc = Some c" for c
    using bc(3) [OF that] heap_okD(5) [OF h l(1)] l(2) None by (simp add: leads_to_def Addr_def j)
  with bc kept_refl [OF ok(1)] None j show ?thesis by (auto simp: pickConn_def)
next
  case (Some i)
  have "identity_ok i" "0 \<le> rq_Database q" "rq_Database q < cf_BackendNumberDatabases (r_config r)" using ok(2) Some by (auto simp: request_ok_def)
  from userBackendConn_ok [OF ok(1) this, of "Addr (r_heap r) x" "Seed16 q" replica must] obtain bc r1
    where u: "userBackendConn (Addr (r_heap r) x) (rq_Database q) (Seed16 q) replica (Some i) must r = Some (bc, r1)" "kept r r1"
    "\<And>c. bc = Some c \<Longrightarrow> aclIdentityCurrent r (Some i) \<and> c < length (hp_bcs (r_heap r1)) \<and> \<not> bc_closed (hp_bcs (r_heap r1) ! c) \<and>
       bc_addr (hp_bcs (r_heap r1) ! c) = Addr (r_heap r) x \<and> bc_database (hp_bcs (r_heap r1) ! c) = rq_Database q \<and>
       logs_in (userBackendKey (Some i)) (bc_auth (hp_bcs (r_heap r1) ! c))" unfolding kept_def by blast
  have "leads_to q x r1 c" if "bc = Some c" for c
    using u(2) u(3) [OF that] kept_Addr [OF ok(1) u(2) s x(1)] Some by (simp add: leads_to_def aclIdentityCurrent_def kept_def)
  with u Some show ?thesis by (simp add: pickConn_def)
qed

lemma tryGroup_ok:
  assumes "router_ok r" "request_ok r q" "s \<in> set (r_slots r)" "g \<noteq> []" "\<forall>x \<in> set g. x \<in> set (slot_refs s) \<and> x \<noteq> None"
  shows "\<exists>bc r1. tryGroup q g n i r = Some (bc, r1) \<and> kept r r1 \<and> (\<forall>c. bc = Some c \<longrightarrow> (\<exists>x \<in> set g. leads_to q x r1 c))"
  using assms
proof (induction n arbitrary: i r)
  case 0
  then show ?case by (simp add: kept_refl)
next
  case (Suc n)
  define j where "j = Suc i mod length g"
  have x: "g ! j \<in> set g" using Suc.prems(4) by (simp add: j_def)
  from choose_conn [OF Suc.prems(1-3), of "g ! j" True False] x Suc.prems(5)
  obtain bc r1 where r1: "pickConn (g ! j) True False q r = Some (bc, r1)" "kept r r1" "\<forall>c. bc = Some c \<longrightarrow> leads_to q (g ! j) r1 c" by blast
  show ?case
  proof (cases bc)
    case (Some c)
    with r1 x have "tryGroup q g (Suc n) i r = Some (Some c, r1)" by (simp add: j_def Let_def)
    with r1 x Some show ?thesis by auto
  next
    case None
    have "router_ok r1" "s \<in> set (r_slots r1)" "request_ok r1 q" using r1(2) Suc.prems(2,3) by (auto simp: kept_def request_ok_def)
    from Suc.IH [OF this(1,3,2) Suc.prems(4,5), of j] obtain bc2 r2 where r2: "tryGroup q g n j r1 = Some (bc2, r2)" "kept r1 r2"
      "\<forall>c. bc2 = Some c \<longrightarrow> (\<exists>x \<in> set g. leads_to q x r2 c)" by blast
    moreover have "tryGroup q g (Suc n) i r = Some (bc2, r2)" using r1(1) r2(1) None by (simp add: j_def Let_def)
    ultimately show ?thesis using kept_trans [OF r1(2) r2(2)] by auto
  qed
qed

lemma tryGroups_ok:
  assumes "router_ok r" "request_ok r q" "s \<in> set (r_slots r)" "\<forall>g \<in> set gs. g \<noteq> [] \<and> (\<forall>x \<in> set g. x \<in> set (slot_refs s) \<and> x \<noteq> None)"
  shows "\<exists>bc r1. tryGroups q gs r = Some (bc, r1) \<and> kept r r1 \<and> (\<forall>c. bc = Some c \<longrightarrow> (\<exists>g \<in> set gs. \<exists>x \<in> set g. leads_to q x r1 c))"
  using assms
proof (induction gs arbitrary: r)
  case Nil
  then show ?case by (simp add: kept_refl)
next
  case (Cons g gs)
  from tryGroup_ok [OF Cons.prems(1-3), of g "length g" "Seed16 q"] Cons.prems(4)
  obtain bc r1 where r1: "tryGroup q g (length g) (Seed16 q) r = Some (bc, r1)" "kept r r1"
    "\<forall>c. bc = Some c \<longrightarrow> (\<exists>x \<in> set g. leads_to q x r1 c)" by auto
  show ?case
  proof (cases bc)
    case (Some c)
    with r1 show ?thesis by auto
  next
    case None
    have "router_ok r1" "s \<in> set (r_slots r1)" "request_ok r1 q" using r1(2) Cons.prems(2,3) by (auto simp: kept_def request_ok_def)
    from Cons.IH [OF this(1,3,2)] Cons.prems(4) obtain bc2 r2 where r2: "tryGroups q gs r1 = Some (bc2, r2)" "kept r1 r2"
      "\<forall>c. bc2 = Some c \<longrightarrow> (\<exists>g \<in> set gs. \<exists>x \<in> set g. leads_to q x r2 c)" by auto
    with r1(1) None kept_trans [OF r1(2) r2(2)] show ?thesis by auto
  qed
qed

text \<open>The server of the slot, or one of its replicas when the command only reads and no key is on the move.\<close>

definition routed :: "RouterSlot \<Rightarrow> Request \<Rightarrow> Router \<Rightarrow> nat \<Rightarrow> bool" where
  "routed s q r c \<longleftrightarrow>
     leads_to q (rs_backend_bc s) r c \<or>
     rs_migrate_bc s = None \<and> \<not> IsMasterOnly (rq_OpFlag q) \<and> (\<exists>g \<in> set (rs_replicaGroups s). \<exists>x \<in> set g. leads_to q x r c)"

lemma forward2_ok:
  assumes ok: "router_ok r" "request_ok r q" and s: "s \<in> set (r_slots r)" "rs_backend_bc s \<noteq> None"
  shows "\<exists>bc r1. forward2 s q r = Some (bc, r1) \<and> kept r r1 \<and> (rq_ACLIdentity q = None \<longrightarrow> bc \<noteq> None) \<and> (\<forall>c. bc = Some c \<longrightarrow> routed s q r1 c)"
proof -
  define groups where "groups = (if rs_migrate_bc s = None \<and> \<not> IsMasterOnly (rq_OpFlag q) \<and> rs_replicaGroups s \<noteq> [] then tryGroups q (rs_replicaGroups s) r else Some (None, r))"
  have refs: "\<forall>g \<in> set (rs_replicaGroups s). g \<noteq> [] \<and> (\<forall>x \<in> set g. x \<in> set (slot_refs s) \<and> x \<noteq> None)"
  proof -
    obtain i where "slot_ok r i s" using ok(1) s(1) by (auto simp: router_ok_def in_set_conv_nth)
    then have "g \<noteq> [] \<and> (\<forall>x \<in> set g. x \<in> set (slot_refs s) \<and> x \<noteq> None)" if "g \<in> set (rs_replicaGroups s)" for g
      using that by (fastforce simp: slot_ok_def slot_refs_def)
    then show ?thesis by blast
  qed
  have "\<exists>bc r1. groups = Some (bc, r1) \<and> kept r r1 \<and> (\<forall>c. bc = Some c \<longrightarrow> routed s q r1 c)"
    using tryGroups_ok [OF ok s(1) refs] kept_refl [OF ok(1)] by (auto simp: groups_def routed_def)
  then obtain bc r1 where r1: "groups = Some (bc, r1)" "kept r r1" "\<forall>c. bc = Some c \<longrightarrow> routed s q r1 c" by blast
  show ?thesis
  proof (cases bc)
    case (Some c)
    with r1 show ?thesis by (simp add: forward2_def groups_def [symmetric])
  next
    case None
    have b: "rs_backend_bc s \<in> set (slot_refs s)" by (simp add: slot_refs_def)
    have "router_ok r1" "request_ok r1 q" "s \<in> set (r_slots r1)" using r1(2) ok(2) s(1) by (auto simp: kept_def request_ok_def)
    from choose_conn [OF this b s(2), of False True] obtain bc2 r2 where r2: "pickConn (rs_backend_bc s) False True q r1 = Some (bc2, r2)" "kept r1 r2"
      "rq_ACLIdentity q = None \<longrightarrow> bc2 \<noteq> None" "\<forall>c. bc2 = Some c \<longrightarrow> leads_to q (rs_backend_bc s) r2 c" by auto
    with None r1 kept_trans [OF r1(2) r2(2)] show ?thesis
      by (auto simp: forward2_def groups_def [symmetric] routed_def)
  qed
qed

text \<open>
  What each method does to a request.  When a key may be on the move it is moved first: the call that moves it
  went to the old server and was answered with a number, or the wrapped command was answered with \<open>0\<close>.
\<close>

definition movedFirst :: "call \<Rightarrow> forwardMethod \<Rightarrow> RouterSlot \<Rightarrow> Request \<Rightarrow> bytes \<Rightarrow> Router \<Rightarrow> calls \<Rightarrow> bool" where
  "movedFirst call m s q hkey r trace \<longleftrightarrow>
     rs_migrate_bc s \<noteq> None \<and> hkey \<noteq> [] \<longrightarrow>
     (\<exists>c d. trace \<noteq> [] \<and> last trace = (c, d) \<and> bc_addr (hp_bcs (r_heap r) ! c) = Addr (r_heap r) (rs_migrate_bc s) \<and>
        (case m of
           forwardSync \<Rightarrow> d = slotsmgrtMulti (r_heap r) s hkey \<and> slotsmgrtReply (call c d) = None
         | forwardSemiAsync \<Rightarrow> d = execMulti hkey (rq_Multi q) \<and> execReply (call c d) = Inr Moved))"

lemma migrate_conn:
  assumes "router_ok r" "request_ok r q" "s \<in> set (r_slots r)" "rs_migrate_bc s \<noteq> None"
  shows "\<exists>c. BackendConn_of (r_heap r) (rs_migrate_bc s) (rq_Database q) seed True = Some (Some c) \<and> bc_addr (hp_bcs (r_heap r) ! c) = Addr (r_heap r) (rs_migrate_bc s)"
proof -
  obtain j where j: "rs_migrate_bc s = Some j" using assms(4) by auto
  have "Some j \<in> set (slot_refs s)" by (simp add: slot_refs_def j)
  from slot_ref_listed [OF assms(1,3) this] have "j < length (hp_scs (r_heap r))" by simp
  moreover have "heap_ok (r_config r) (r_heap r)" "0 \<le> rq_Database q" "rq_Database q < cf_BackendNumberDatabases (r_config r)"
    using assms(1,2) by (auto simp: router_ok_def refs_ok_def request_ok_def)
  ultimately show ?thesis using BackendConn_of_ok [of "r_config r" "r_heap r" j "rq_Database q" seed True] by (auto simp: j Addr_def)
qed

lemma finishForward_ok:
  assumes "router_ok r" "request_ok r q" "s \<in> set (r_slots r)" "rs_backend_bc s \<noteq> None"
  shows "\<exists>res r1. finishForward s q trace r = Some (trace, res, r1) \<and> kept r r1 \<and> res \<noteq> Retry \<and> (\<forall>x. res \<noteq> Answered x) \<and> (\<forall>c. res = Push c \<longrightarrow> routed s q r1 c)"
  using forward2_ok [OF assms] by (auto simp: finishForward_def split: option.splits)

lemma execWrapper_ok:
  assumes c: "BackendConn_of h (rs_migrate_bc s) database seed True = Some (Some c)" and "rs_migrate_bc s \<noteq> None"
  shows "\<exists>trace res. slotsmgrtExecWrapper call h s hkey database seed multi identity = Some (trace, res) \<and>
    (res = Inr Moved \<longrightarrow> trace \<noteq> [] \<and> last trace = (c, execMulti hkey multi) \<and> execReply (call c (execMulti hkey multi)) = Inr Moved)"
  using assms by (auto simp: slotsmgrtExecWrapper_def aclDryRunOnBackend_def Let_def split: option.splits sum.splits)

lemma process_ok:
  assumes ok: "router_ok r" "request_ok r q" and s: "s \<in> set (r_slots r)"
  shows "\<exists>trace res r1. processMethod m call s q hkey r = Some (trace, res, r1) \<and> kept r r1 \<and>
    (\<forall>c. res = Push c \<longrightarrow> routed s q r1 c \<and> movedFirst call m s q hkey r trace)"
proof (cases "rs_backend_bc s \<noteq> None \<and> rs_migrate_bc s \<noteq> None \<and> hkey \<noteq> []")
  case False
  show ?thesis
  proof (cases "rs_backend_bc s")
    case None
    then have "processMethod m call s q hkey r = Some ([], Failed ErrSlotIsNotReady, r)"
      by (cases m) (simp_all add: processMethod_def processSync_def processSemiAsync_def)
    with kept_refl [OF ok(1)] show ?thesis by simp
  next
    case (Some b)
    with False have "processMethod m call s q hkey r = finishForward s q [] r" "movedFirst call m s q hkey r []"
      by (cases m; auto simp: processMethod_def processSync_def processSemiAsync_def movedFirst_def)+
    with finishForward_ok [OF ok s, of "[]"] Some show ?thesis by auto
  qed
next
  case True
  then have b: "rs_backend_bc s \<noteq> None" "rs_migrate_bc s \<noteq> None" "hkey \<noteq> []" by auto
  obtain c where c: "BackendConn_of (r_heap r) (rs_migrate_bc s) (rq_Database q) (Seed16 q) True = Some (Some c)"
    "bc_addr (hp_bcs (r_heap r) ! c) = Addr (r_heap r) (rs_migrate_bc s)" using migrate_conn [OF ok s b(2)] by blast
  show ?thesis
  proof (cases m)
    case forwardSync
    define d where "d = slotsmgrtMulti (r_heap r) s hkey"
    have "slotsmgrt call (r_heap r) s hkey (rq_Database q) (Seed16 q) = Some ([(c, d)], slotsmgrtReply (call c d))"
      by (simp add: slotsmgrt_def c d_def Let_def)
    with forwardSync b c finishForward_ok [OF ok s b(1), of "[(c, d)]"] kept_refl [OF ok(1)] show ?thesis
      by (cases "slotsmgrtReply (call c d)") (auto simp: processMethod_def processSync_def movedFirst_def d_def)
  next
    case forwardSemiAsync
    obtain trace res where e: "slotsmgrtExecWrapper call (r_heap r) s hkey (rq_Database q) (Seed16 q) (rq_Multi q) (rq_ACLIdentity q) = Some (trace, res)"
      "res = Inr Moved \<Longrightarrow> trace \<noteq> [] \<and> last trace = (c, execMulti hkey (rq_Multi q)) \<and> execReply (call c (execMulti hkey (rq_Multi q))) = Inr Moved"
      using execWrapper_ok [OF c(1) b(2), of call hkey "rq_Multi q" "rq_ACLIdentity q"] by blast
    show ?thesis
    proof (cases "res = Inr Moved")
      case True
      with forwardSemiAsync b c e finishForward_ok [OF ok s b(1), of trace] show ?thesis
        by (auto simp: processMethod_def processSemiAsync_def movedFirst_def)
    next
      case False
      with forwardSemiAsync b e kept_refl [OF ok(1)] show ?thesis
        by (auto simp: processMethod_def processSemiAsync_def split: sum.splits wrapped.splits)
    qed
  qed
qed

lemma ForwardLoop_ok:
  assumes "router_ok r" "request_ok r q" "i < MaxSlotNum"
  shows "\<exists>trace res r1. ForwardLoop attempts i q hkey r = Some (trace, res, r1) \<and> kept r r1 \<and>
    (\<forall>c. res = Some (Push c) \<longrightarrow> routed (r_slots r ! i) q r1 c \<and>
       (\<exists>call b r0 tr0 tr. (call, b) \<in> set attempts \<and> kept r r0 \<and> trace = tr0 @ tr \<and> movedFirst call (rs_method (r_slots r ! i)) (r_slots r ! i) q hkey r0 tr))"
  using assms
proof (induction attempts arbitrary: r)
  case Nil
  then show ?case by (simp add: kept_refl)
next
  case (Cons a attempts)
  obtain call b where a: "a = (call, b)" by fastforce
  define s where "s = r_slots r ! i"
  have s: "s \<in> set (r_slots r)" using Cons.prems(1,3) by (simp add: s_def router_length)
  obtain trace res r1 where p: "processMethod (rs_method s) call s q hkey r = Some (trace, res, r1)" "kept r r1"
    "\<And>c. res = Push c \<Longrightarrow> routed s q r1 c \<and> movedFirst call (rs_method s) s q hkey r trace"
    using process_ok [OF Cons.prems(1,2) s, of "rs_method s" call hkey] by blast
  show ?case
  proof (cases "res = Retry \<and> \<not> b")
    case True
    have r1: "router_ok r1" "request_ok r1 q" "r_slots r1 = r_slots r" using p(2) Cons.prems(2) by (auto simp: kept_def request_ok_def)
    from Cons.IH [OF r1(1,2) Cons.prems(3)] obtain trace2 res2 r2 where l: "ForwardLoop attempts i q hkey r1 = Some (trace2, res2, r2)" "kept r1 r2"
      "\<And>c. res2 = Some (Push c) \<Longrightarrow> routed s q r2 c \<and>
         (\<exists>call b r0 tr0 tr. (call, b) \<in> set attempts \<and> kept r1 r0 \<and> trace2 = tr0 @ tr \<and> movedFirst call (rs_method s) s q hkey r0 tr)"
      unfolding r1(3) s_def [symmetric] by blast
    have eq: "ForwardLoop (a # attempts) i q hkey r = Some (trace @ trace2, res2, r2)" using True p(1) l(1) by (simp add: a s_def [symmetric])
    have "\<exists>call b r0 tr0 tr. (call, b) \<in> set (a # attempts) \<and> kept r r0 \<and> trace @ trace2 = tr0 @ tr \<and> movedFirst call (rs_method s) s q hkey r0 tr"
      if "res2 = Some (Push c)" for c
      using l(3) [OF that] kept_trans [OF p(2)] by (metis append.assoc list.set_intros(2))
    with eq l kept_trans [OF p(2) l(2)] show ?thesis unfolding s_def [symmetric] by blast
  next
    case False
    define res1 where "res1 = (if res = Retry then Failed ErrRequestIsBroken else res)"
    have eq: "ForwardLoop (a # attempts) i q hkey r = Some (trace, Some res1, r1)"
      using False p(1) by (cases res) (simp_all add: a s_def [symmetric] res1_def)
    have "routed s q r1 c \<and> movedFirst call (rs_method s) s q hkey r trace" if "res1 = Push c" for c
      using p(3) [of c] that by (simp add: res1_def split: if_splits)
    then have "\<forall>c. Some res1 = Some (Push c) \<longrightarrow> routed s q r1 c \<and>
       (\<exists>call b r0 tr0 tr. (call, b) \<in> set (a # attempts) \<and> kept r r0 \<and> trace = tr0 @ tr \<and> movedFirst call (rs_method s) s q hkey r0 tr)"
      using kept_refl [OF Cons.prems(1)] by (metis append_Nil a list.set_intros(1) option.inject)
    with eq p(2) show ?thesis unfolding s_def [symmetric] by blast
  qed
qed

section \<open>Properties\<close>

text \<open>
  C14. A request that is sent is sent over an open connection to the server of the slot of its key, for the database of
  the request; only a command that does not write may go to a replica instead, and only while the slot has no
  second server.  The request of a user goes over a connection that has logged in as this user, and only while
  the identity is the one of the current access list.  When the slot has a second server, the key was moved
  away from there before.  Nothing panics.
\<close>

theorem requests_reach_their_server:
  assumes "Config_Validate config0 = (None, config)" and "NewRouter clock config = Some r0" and "each do_router xs r0 = Some r"
    and "0 \<le> rq_Database q" and "rq_Database q < cf_BackendNumberDatabases (r_config r)" and "\<And>i. rq_ACLIdentity q = Some i \<Longrightarrow> identity_ok i"
  shows "\<exists>trace res r1. dispatch attempts q r = Some (trace, res, r1) \<and> GetSlots r1 = GetSlots r \<and>
    (\<forall>c. res = Some (Push c) \<longrightarrow>
      (let hkey = (case getHashKey (rq_Multi q) (rq_OpStr q) of Some k \<Rightarrow> k | None \<Rightarrow> []); s = r_slots r ! (unat (Hash hkey) mod MaxSlotNum)
       in routed s q r1 c \<and> (\<exists>call b ra tr0 tr. (call, b) \<in> set attempts \<and> kept r ra \<and> trace = tr0 @ tr \<and> movedFirst call (rs_method s) s q hkey ra tr)))"
proof -
  have "router_ok r0" using NewRouter_ok [OF assms(2) validated_cases(2) [OF assms(1)]] by simp
  from run_router_ok [OF this, of xs] assms(3) have ok: "router_ok r" by simp
  have q: "request_ok r q" using assms(4-6) by (simp add: request_ok_def)
  have "unat (Hash hkey) mod MaxSlotNum < MaxSlotNum" for hkey by (simp add: MaxSlotNum_def)
  from ForwardLoop_ok [OF ok q this, of attempts] show ?thesis
    unfolding dispatch_def dispatchByHashKey_def Let_def kept_def by (metis (no_types, lifting))
qed

definition request_demo :: Request where
  "request_demo =
     \<lparr>rq_Multi = [bulk ''GET'', bulk ''a''], rq_OpStr = ''GET'', rq_OpFlag = 0, rq_Database = 3, rq_UnixNano = 1, rq_ptr = 8, rq_ACLIdentity = None, rq_Broken = False\<rparr>"

theorem requests_reach_their_server_witness:
  "\<exists>r0 r trace res r1. NewRouter 1 config_demo = Some r0 \<and> each do_router [Fill ((offline 5)\<lparr>sl_BackendAddr := ''10.0.0.1:6379''\<rparr>), Begin] r0 = Some r \<and>
    dispatch [(\<lambda>c m. Inl [], False)] request_demo r = Some (trace, res, r1) \<and> GetSlots r1 = GetSlots r"
proof -
  obtain r0 where r0: "NewRouter 1 config_demo = Some r0" using NewRouter_some [of config_demo 1] by (auto simp: config_demo_def)
  have "router_ok r0" "r_config r0 = config_demo" using NewRouter_ok [OF r0] by (auto simp: config_demo_def)
  with run_router_ok [of r0 "[Fill ((offline 5)\<lparr>sl_BackendAddr := ''10.0.0.1:6379''\<rparr>), Begin]"]
  obtain r where r: "each do_router [Fill ((offline 5)\<lparr>sl_BackendAddr := ''10.0.0.1:6379''\<rparr>), Begin] r0 = Some r" "r_config r = config_demo" by metis
  have q: "0 \<le> rq_Database request_demo" "rq_Database request_demo < cf_BackendNumberDatabases (r_config r)" "\<And>i. rq_ACLIdentity request_demo = Some i \<Longrightarrow> identity_ok i"
    by (simp_all add: request_demo_def r(2) config_demo_def)
  from requests_reach_their_server [OF demo_valid r0 r(1) q] r0 r(1) show ?thesis by blast
qed

end
