(* ===== verification/Traffic.thy ===== *)
theory Traffic
  imports Forward
begin

text \<open>
  Requests on the way while slots are filled: the interplay of \<open>Forward\<close>, \<open>blockAndWait\<close>, \<open>fillSlot\<close>, \<open>setResponse\<close> and \<open>SetACL\<close>
  of \<open>src/pkg/proxy\<close>.  The goroutines that forward requests are a list of workers; each step is one that the
  locks let happen at once.  A send on a closed connection is the panic of a closed channel.
\<close>

section \<open>Steps\<close>

text \<open>
  A worker reads a slot under its read lock, has chosen a connection and counted itself, has given the lock
  back, or has sent the request and waits for the reply; \<open>u\<close> tells whether the connection is a user's.
\<close>

datatype worker = Reading nat | Picked nat nat bool | Chosen nat nat bool | OnWay nat nat bool

text \<open>A fill waits for the lock of the slot, or has it and waits for the requests on the way.\<close>

datatype filling = Blocking Slot bool "forwardMethod option" | Waiting Slot bool "forwardMethod option"

record traffic =
  t_router :: Router
  t_workers :: "worker list"
  t_locked :: "nat \<Rightarrow> bool"
  t_filling :: "filling option"
  t_closing :: bool
  t_panic :: "(nat \<times> nat \<times> bool) option"

primrec at_slot :: "worker \<Rightarrow> nat" where
  "at_slot (Reading i) = i"
| "at_slot (Picked i c u) = i"
| "at_slot (Chosen i c u) = i"
| "at_slot (OnWay i c u) = i"

definition reads :: "worker \<Rightarrow> bool" where
  "reads w \<longleftrightarrow> (case w of Reading i \<Rightarrow> True | Picked i c u \<Rightarrow> True | _ \<Rightarrow> False)"

definition counted :: "worker \<Rightarrow> bool" where
  "counted w \<longleftrightarrow> (case w of Reading i \<Rightarrow> False | _ \<Rightarrow> True)"

definition addRefs :: "nat \<Rightarrow> (nat \<Rightarrow> nat) \<Rightarrow> Router \<Rightarrow> Router" where
  "addRefs i f r = r\<lparr>r_slots := (r_slots r)[i := (r_slots r ! i)\<lparr>rs_refs := f (rs_refs (r_slots r ! i))\<rparr>]\<rparr>"

definition holdSlot :: "nat \<Rightarrow> Router \<Rightarrow> Router" where
  "holdSlot i r = r\<lparr>r_slots := (r_slots r)[i := block (r_slots r ! i)]\<rparr>"

inductive traffic_step :: "traffic \<Rightarrow> traffic \<Rightarrow> bool" where
  enter: "i < MaxSlotNum \<Longrightarrow> \<not> t_locked s i \<Longrightarrow> traffic_step s (s\<lparr>t_workers := Reading i # t_workers s\<rparr>)"
| pick: "t_workers s = us @ Reading i # vs \<Longrightarrow> request_ok (t_router s) q \<Longrightarrow>
    processMethod (rs_method (r_slots (t_router s) ! i)) call (r_slots (t_router s) ! i) q hkey (t_router s) = Some (trace, Push c, r1) \<Longrightarrow>
    traffic_step s (s\<lparr>t_router := addRefs i Suc r1, t_workers := us @ Picked i c (rq_ACLIdentity q \<noteq> None) # vs\<rparr>)"
| fail: "t_workers s = us @ Reading i # vs \<Longrightarrow> request_ok (t_router s) q \<Longrightarrow>
    processMethod (rs_method (r_slots (t_router s) ! i)) call (r_slots (t_router s) ! i) q hkey (t_router s) = Some (trace, res, r1) \<Longrightarrow> (\<And>c. res \<noteq> Push c) \<Longrightarrow>
    traffic_step s (s\<lparr>t_router := r1, t_workers := us @ vs\<rparr>)"
| leave: "t_workers s = us @ Picked i c u # vs \<Longrightarrow> traffic_step s (s\<lparr>t_workers := us @ Chosen i c u # vs\<rparr>)"
| push: "t_workers s = us @ Chosen i c u # vs \<Longrightarrow> \<not> bc_closed (hp_bcs (r_heap (t_router s)) ! c) \<Longrightarrow>
    traffic_step s (s\<lparr>t_workers := us @ OnWay i c u # vs\<rparr>)"
| crash: "t_workers s = us @ Chosen i c u # vs \<Longrightarrow> bc_closed (hp_bcs (r_heap (t_router s)) ! c) \<Longrightarrow>
    traffic_step s (s\<lparr>t_panic := Some (i, c, u)\<rparr>)"
| respond: "t_workers s = us @ OnWay i c u # vs \<Longrightarrow>
    traffic_step s (s\<lparr>t_router := addRefs i (\<lambda>n. n - 1) (t_router s), t_workers := us @ vs\<rparr>)"
| block: "t_filling s = None \<Longrightarrow> sl_Id m = int i \<Longrightarrow> i < MaxSlotNum \<Longrightarrow>
    traffic_step s (s\<lparr>t_router := holdSlot i (t_router s),
      t_filling := Some (if rs_hold (r_slots (t_router s) ! i) then Waiting m sw me else Blocking m sw me)\<rparr>)"
| lock: "t_filling s = Some (Blocking m sw me) \<Longrightarrow> sl_Id m = int i \<Longrightarrow> (\<And>w. w \<in> set (t_workers s) \<Longrightarrow> at_slot w = i \<Longrightarrow> \<not> reads w) \<Longrightarrow>
    traffic_step s (s\<lparr>t_locked := (t_locked s)(i := True), t_filling := Some (Waiting m sw me)\<rparr>)"
| fill: "t_filling s = Some (Waiting m sw me) \<Longrightarrow> sl_Id m = int i \<Longrightarrow> rs_refs (r_slots (t_router s) ! i) = 0 \<Longrightarrow>
    fillSlot m sw me (t_router s) = Some r1 \<Longrightarrow>
    traffic_step s (s\<lparr>t_router := r1, t_locked := (t_locked s)(i := sl_Locked m), t_filling := None\<rparr>)"
| install: "installACL acl (t_router s) = (e, changed, r1) \<Longrightarrow>
    traffic_step s (s\<lparr>t_router := r1, t_closing := t_closing s \<or> changed\<rparr>)"
| close: "t_closing s \<Longrightarrow> traffic_step s (s\<lparr>t_router := closeUserBackendPools (t_router s), t_closing := False\<rparr>)"

definition traffic_start :: "Router \<Rightarrow> traffic" where
  "traffic_start r = \<lparr>t_router = r, t_workers = [], t_locked = (\<lambda>i. False), t_filling = None, t_closing = False, t_panic = None\<rparr>"

inductive traffic_reachable :: "Router \<Rightarrow> traffic \<Rightarrow> bool" for r where
  start: "traffic_reachable r (traffic_start r)"
| step: "traffic_reachable r s \<Longrightarrow> traffic_step s s1 \<Longrightarrow> traffic_reachable r s1"

section \<open>Invariant\<close>

definition filling_at :: "filling option \<Rightarrow> nat \<Rightarrow> bool" where
  "filling_at f i \<longleftrightarrow> (case f of None \<Rightarrow> False | Some (Blocking m sw me) \<Rightarrow> sl_Id m = int i | Some (Waiting m sw me) \<Rightarrow> sl_Id m = int i)"

definition blocking_at :: "filling option \<Rightarrow> nat \<Rightarrow> bool" where
  "blocking_at f i \<longleftrightarrow> (case f of Some (Blocking m sw me) \<Rightarrow> sl_Id m = int i | _ \<Rightarrow> False)"

text \<open>The connection of a worker belongs to a server that its slot refers to, unless it is a user's.\<close>

definition worker_ok :: "Router \<Rightarrow> worker \<Rightarrow> bool" where
  "worker_ok r w \<longleftrightarrow> at_slot w < MaxSlotNum \<and>
     (case w of
        Reading i \<Rightarrow> True
      | Picked i c u \<Rightarrow> u \<or> (\<exists>j. Some j \<in> set (slot_refs (r_slots r ! i)) \<and> c \<in> set (conns_of (r_heap r) j))
      | Chosen i c u \<Rightarrow> u \<or> (\<exists>j. Some j \<in> set (slot_refs (r_slots r ! i)) \<and> c \<in> set (conns_of (r_heap r) j))
      | OnWay i c u \<Rightarrow> u \<or> (\<exists>j. Some j \<in> set (slot_refs (r_slots r ! i)) \<and> c \<in> set (conns_of (r_heap r) j)))"

definition on_way :: "nat \<Rightarrow> worker list \<Rightarrow> nat" where
  "on_way i ws = length (filter (\<lambda>w. counted w \<and> at_slot w = i) ws)"

definition traffic_ok :: "traffic \<Rightarrow> bool" where
  "traffic_ok s \<longleftrightarrow>
     router_ok (t_router s) \<and>
     (\<forall>i < MaxSlotNum. rs_refs (r_slots (t_router s) ! i) = on_way i (t_workers s)) \<and>
     (\<forall>w \<in> set (t_workers s). worker_ok (t_router s) w \<and> (t_locked s (at_slot w) \<longrightarrow> \<not> reads w)) \<and>
     (\<forall>i < MaxSlotNum. rs_hold (r_slots (t_router s) ! i) \<longleftrightarrow> t_locked s i \<or> blocking_at (t_filling s) i) \<and>
     (\<forall>i < MaxSlotNum. t_locked s i \<and> \<not> filling_at (t_filling s) i \<longrightarrow> on_way i (t_workers s) = 0) \<and>
     (\<forall>m sw me. t_filling s = Some (Blocking m sw me) \<or> t_filling s = Some (Waiting m sw me) \<longrightarrow> 0 \<le> sl_Id m \<and> sl_Id m < int MaxSlotNum) \<and>
     (\<forall>m sw me. t_filling s = Some (Blocking m sw me) \<longrightarrow> \<not> t_locked s (nat (sl_Id m))) \<and>
     (\<forall>m sw me. t_filling s = Some (Waiting m sw me) \<longrightarrow> t_locked s (nat (sl_Id m))) \<and>
     (\<forall>i c u. t_panic s = Some (i, c, u) \<longrightarrow> u)"

lemma on_way_simps [simp]:
  "on_way i [] = 0" "on_way i (w # ws) = (if counted w \<and> at_slot w = i then Suc (on_way i ws) else on_way i ws)"
  "on_way i (us @ vs) = on_way i us + on_way i vs"
  by (simp_all add: on_way_def)

lemma worker_simps [simp]:
  "counted (Reading i) = False" "counted (Picked i c u)" "counted (Chosen i c u)" "counted (OnWay i c u)"
  "reads (Reading i)" "reads (Picked i c u)" "reads (Chosen i c u) = False" "reads (OnWay i c u) = False"
  by (simp_all add: counted_def reads_def)

lemma router_ok_slots:
  assumes "router_ok r" "r1 = r\<lparr>r_slots := (r_slots r)[i := s]\<rparr>" "slot_refs s = slot_refs (r_slots r ! i)" "rs_id s = rs_id (r_slots r ! i)"
    "rs_backend_bc s = rs_backend_bc (r_slots r ! i)" "rs_migrate_bc s = rs_migrate_bc (r_slots r ! i)" "rs_replicaGroups s = rs_replicaGroups (r_slots r ! i)"
  shows "router_ok r1"
proof (cases "i < length (r_slots r)")
  case True
  have "all_refs (r_slots r1) = all_refs (r_slots r)"
    using all_refs_put [OF True, of s] all_refs_update [OF True] assms(2,3) by simp
  moreover have "slot_ok r1 j (r_slots r1 ! j)" if "j < length (r_slots r)" for j
    using assms that by (cases "j = i") (auto simp: router_ok_def slot_ok_def)
  ultimately show ?thesis using assms(1,2) by (simp add: router_ok_def users_ok_def)
next
  case False
  with assms(2) have "r1 = r" by (simp add: list_update_beyond)
  with assms(1) show ?thesis by simp
qed

lemma addRefs_ok: "router_ok r \<Longrightarrow> router_ok (addRefs i f r)"
  by (rule router_ok_slots [OF _ addRefs_def]) (auto simp: slot_refs_def)

lemma holdSlot_ok: "router_ok r \<Longrightarrow> router_ok (holdSlot i r)"
  by (rule router_ok_slots [OF _ holdSlot_def]) (auto simp: block_def slot_refs_def)

lemma slot_after:
  "slot_refs (r_slots (addRefs i f r) ! j) = slot_refs (r_slots r ! j)" "slot_refs (r_slots (holdSlot i r) ! j) = slot_refs (r_slots r ! j)"
  "rs_hold (r_slots (addRefs i f r) ! j) = rs_hold (r_slots r ! j)" "rs_refs (r_slots (holdSlot i r) ! j) = rs_refs (r_slots r ! j)"
  by (cases "i < length (r_slots r)"; cases "i = j"; simp add: addRefs_def holdSlot_def block_def slot_refs_def list_update_beyond)+

lemma refs_after: "i < length (r_slots r) \<Longrightarrow> rs_refs (r_slots (addRefs i f r) ! j) = (if j = i then f (rs_refs (r_slots r ! i)) else rs_refs (r_slots r ! j))"
  by (simp add: addRefs_def)

lemma hold_after: "i < length (r_slots r) \<Longrightarrow> rs_hold (r_slots (holdSlot i r) ! j) = (j = i \<or> rs_hold (r_slots r ! j))"
  by (auto simp: holdSlot_def block_def nth_list_update)

lemma heap_after [simp]: "r_heap (addRefs i f r) = r_heap r" "r_heap (holdSlot i r) = r_heap r"
  by (simp_all add: addRefs_def holdSlot_def)

text \<open>A worker stays right when its slot refers to the same servers and the heap only grew.\<close>

lemma worker_ok_later:
  assumes "router_ok r" "worker_ok r w" "slot_refs (r_slots r1 ! at_slot w) = slot_refs (r_slots r ! at_slot w)" "grown (r_heap r) (r_heap r1)"
  shows "worker_ok r1 w"
proof -
  have at: "r_slots r ! at_slot w \<in> set (r_slots r)" using assms(1,2) by (simp add: worker_ok_def router_length)
  have conns: "conns_of (r_heap r1) j = conns_of (r_heap r) j" if "Some j \<in> set (slot_refs (r_slots r ! at_slot w))" for j
    using slot_ref_listed(1) [OF assms(1) at that] assms(4) by (simp add: conns_of_def grown_def)
  show ?thesis using assms(2,3) conns by (cases w) (auto simp: worker_ok_def)
qed

lemma routed_refs:
  assumes "routed s q r c" "rq_ACLIdentity q = None"
  shows "\<exists>j. Some j \<in> set (slot_refs s) \<and> c \<in> set (conns_of (r_heap r) j)"
  using assms by (fastforce simp: routed_def leads_to_def slot_refs_def)

lemma service_open:
  assumes "traffic_ok s" "w \<in> set (t_workers s)" "w = Picked i c False \<or> w = Chosen i c False \<or> w = OnWay i c False"
  shows "\<not> bc_closed (hp_bcs (r_heap (t_router s)) ! c)"
proof -
  have w: "router_ok (t_router s)" "worker_ok (t_router s) w" using assms(1,2) by (auto simp: traffic_ok_def)
  then obtain j where j: "i < MaxSlotNum" "Some j \<in> set (slot_refs (r_slots (t_router s) ! i))" "c \<in> set (conns_of (r_heap (t_router s)) j)"
    using assms(3) by (auto simp: worker_ok_def)
  have at: "r_slots (t_router s) ! i \<in> set (r_slots (t_router s))" using w(1) j(1) by (simp add: router_length)
  have "heap_ok (r_config (t_router s)) (r_heap (t_router s))" using w(1) by (simp add: router_ok_def refs_ok_def)
  from heap_okD(5) [OF this _ j(3)] slot_ref_listed [OF w(1) at j(2)] show ?thesis by simp
qed

lemma traffic_okI:
  assumes "router_ok (t_router s)"
    and "\<And>i. i < MaxSlotNum \<Longrightarrow> rs_refs (r_slots (t_router s) ! i) = on_way i (t_workers s)"
    and "\<And>w. w \<in> set (t_workers s) \<Longrightarrow> worker_ok (t_router s) w"
    and "\<And>w. w \<in> set (t_workers s) \<Longrightarrow> t_locked s (at_slot w) \<Longrightarrow> \<not> reads w"
    and "\<And>i. i < MaxSlotNum \<Longrightarrow> rs_hold (r_slots (t_router s) ! i) \<longleftrightarrow> t_locked s i \<or> blocking_at (t_filling s) i"
    and "\<And>i. i < MaxSlotNum \<Longrightarrow> t_locked s i \<Longrightarrow> \<not> filling_at (t_filling s) i \<Longrightarrow> on_way i (t_workers s) = 0"
    and "\<And>m sw me. t_filling s = Some (Blocking m sw me) \<or> t_filling s = Some (Waiting m sw me) \<Longrightarrow> 0 \<le> sl_Id m \<and> sl_Id m < int MaxSlotNum"
    and "\<And>m sw me. t_filling s = Some (Blocking m sw me) \<Longrightarrow> \<not> t_locked s (nat (sl_Id m))"
    and "\<And>m sw me. t_filling s = Some (Waiting m sw me) \<Longrightarrow> t_locked s (nat (sl_Id m))"
    and "\<And>i c u. t_panic s = Some (i, c, u) \<Longrightarrow> u"
  shows "traffic_ok s"
  using assms unfolding traffic_ok_def by blast

lemma traffic_okD:
  assumes "traffic_ok s"
  shows "router_ok (t_router s)"
    and "i < MaxSlotNum \<Longrightarrow> rs_refs (r_slots (t_router s) ! i) = on_way i (t_workers s)"
    and "w \<in> set (t_workers s) \<Longrightarrow> worker_ok (t_router s) w"
    and "w \<in> set (t_workers s) \<Longrightarrow> t_locked s (at_slot w) \<Longrightarrow> \<not> reads w"
    and "i < MaxSlotNum \<Longrightarrow> rs_hold (r_slots (t_router s) ! i) \<longleftrightarrow> t_locked s i \<or> blocking_at (t_filling s) i"
    and "i < MaxSlotNum \<Longrightarrow> t_locked s i \<Longrightarrow> \<not> filling_at (t_filling s) i \<Longrightarrow> on_way i (t_workers s) = 0"
    and "t_filling s = Some (Blocking m sw me) \<or> t_filling s = Some (Waiting m sw me) \<Longrightarrow> 0 \<le> sl_Id m \<and> sl_Id m < int MaxSlotNum"
    and "t_filling s = Some (Blocking m sw me) \<Longrightarrow> \<not> t_locked s (nat (sl_Id m))"
    and "t_filling s = Some (Waiting m sw me) \<Longrightarrow> t_locked s (nat (sl_Id m))"
    and "t_panic s = Some (i, c, u) \<Longrightarrow> u"
  using assms unfolding traffic_ok_def by blast+

text \<open>Steps that change only the workers and, apart from the counts, keep the slots.\<close>

lemma workers_step:
  assumes ok: "traffic_ok s" and r1: "router_ok r1" "grown (r_heap (t_router s)) (r_heap r1)"
    and slots: "\<And>i. slot_refs (r_slots r1 ! i) = slot_refs (r_slots (t_router s) ! i)" "\<And>i. rs_hold (r_slots r1 ! i) = rs_hold (r_slots (t_router s) ! i)"
    and refs: "\<And>i. i < MaxSlotNum \<Longrightarrow> rs_refs (r_slots r1 ! i) = on_way i ws"
    and ws: "\<And>w. w \<in> set ws \<Longrightarrow> w \<in> set (t_workers s) \<or> worker_ok r1 w \<and> (t_locked s (at_slot w) \<longrightarrow> \<not> reads w)"
    and quiet: "\<And>i. i < MaxSlotNum \<Longrightarrow> t_locked s i \<Longrightarrow> \<not> filling_at (t_filling s) i \<Longrightarrow> on_way i ws = 0"
  shows "traffic_ok (s\<lparr>t_router := r1, t_workers := ws\<rparr>)"
proof (rule traffic_okI)
  fix w assume w: "w \<in> set (t_workers (s\<lparr>t_router := r1, t_workers := ws\<rparr>))"
  then show "worker_ok (t_router (s\<lparr>t_router := r1, t_workers := ws\<rparr>)) w"
    using ws [of w] worker_ok_later [OF traffic_okD(1) [OF ok] traffic_okD(3) [OF ok], of w r1] slots(1) r1(2) by auto
  show "\<not> reads w" if "t_locked (s\<lparr>t_router := r1, t_workers := ws\<rparr>) (at_slot w)"
    using ws [of w] w that traffic_okD(4) [OF ok, of w] by auto
qed (use r1(1) refs quiet slots(2) traffic_okD(5,7-10) [OF ok] in \<open>simp_all\<close>)

lemma kept_later:
  assumes "traffic_ok s" "kept (t_router s) r1"
  shows "router_ok r1" "grown (r_heap (t_router s)) (r_heap r1)" "r_slots r1 = r_slots (t_router s)"
  using assms(2) by (simp_all add: kept_def)

lemma process_step:
  assumes ok: "traffic_ok s" and w: "Reading i \<in> set (t_workers s)" and q: "request_ok (t_router s) q"
    and p: "processMethod (rs_method (r_slots (t_router s) ! i)) call (r_slots (t_router s) ! i) q hkey (t_router s) = Some (trace, res, r1)"
  shows "kept (t_router s) r1" "i < MaxSlotNum" "\<And>c. res = Push c \<Longrightarrow> routed (r_slots (t_router s) ! i) q r1 c"
proof -
  show i: "i < MaxSlotNum" using traffic_okD(3) [OF ok w] by (simp add: worker_ok_def)
  then have "r_slots (t_router s) ! i \<in> set (r_slots (t_router s))" using router_length [OF traffic_okD(1) [OF ok]] by simp
  from process_ok [OF traffic_okD(1) [OF ok] q this] p
  show "kept (t_router s) r1" "\<And>c. res = Push c \<Longrightarrow> routed (r_slots (t_router s) ! i) q r1 c" by (metis option.inject prod.inject)+
qed

lemma swap_worker:
  assumes ok: "traffic_ok s" and w: "t_workers s = us @ w # vs" and w1: "at_slot w1 = at_slot w" "counted w1 = counted w" "reads w1 \<Longrightarrow> reads w" "worker_ok (t_router s) w1"
  shows "traffic_ok (s\<lparr>t_workers := us @ w1 # vs\<rparr>)"
proof -
  have "on_way i (us @ w1 # vs) = on_way i (t_workers s)" for i using w w1(1,2) by simp
  moreover have "w2 \<in> set (t_workers s) \<or> worker_ok (t_router s) w2 \<and> (t_locked s (at_slot w2) \<longrightarrow> \<not> reads w2)" if "w2 \<in> set (us @ w1 # vs)" for w2
    using that w w1 traffic_okD(4) [OF ok, of w] by auto
  ultimately have "traffic_ok (s\<lparr>t_router := t_router s, t_workers := us @ w1 # vs\<rparr>)"
    by (intro workers_step [OF ok]) (use traffic_okD [OF ok] in auto)
  then show ?thesis by simp
qed

lemma pick_step:
  assumes ok: "traffic_ok s" and w: "t_workers s = us @ Reading i # vs" and q: "request_ok (t_router s) q"
    and p: "processMethod (rs_method (r_slots (t_router s) ! i)) call (r_slots (t_router s) ! i) q hkey (t_router s) = Some (trace, Push c, r1)"
  shows "traffic_ok (s\<lparr>t_router := addRefs i Suc r1, t_workers := us @ Picked i c (rq_ACLIdentity q \<noteq> None) # vs\<rparr>)"
proof -
  have in_ws: "Reading i \<in> set (t_workers s)" using w by simp
  note k = process_step [OF ok in_ws q p]
  note l = kept_later [OF ok k(1)]
  have i: "i < length (r_slots r1)" using k(2) router_length [OF l(1)] by simp
  have free: "\<not> t_locked s i" using traffic_okD(4) [OF ok in_ws] by auto
  have new: "worker_ok (addRefs i Suc r1) (Picked i c (rq_ACLIdentity q \<noteq> None))"
    using routed_refs [OF k(3)] k(2) by (auto simp: worker_ok_def slot_after l(3))
  show ?thesis
  proof (rule workers_step [OF ok])
    show "router_ok (addRefs i Suc r1)" using l(1) by (rule addRefs_ok)
    show "grown (r_heap (t_router s)) (r_heap (addRefs i Suc r1))" using l(2) by simp
    show "slot_refs (r_slots (addRefs i Suc r1) ! j) = slot_refs (r_slots (t_router s) ! j)"
      "rs_hold (r_slots (addRefs i Suc r1) ! j) = rs_hold (r_slots (t_router s) ! j)" for j by (simp_all add: slot_after l(3))
    show "rs_refs (r_slots (addRefs i Suc r1) ! j) = on_way j (us @ Picked i c (rq_ACLIdentity q \<noteq> None) # vs)" if "j < MaxSlotNum" for j
      using traffic_okD(2) [OF ok that] w k(2) traffic_okD(2) [OF ok k(2)] by (simp add: refs_after [OF i] l(3))
    show "w' \<in> set (t_workers s) \<or> worker_ok (addRefs i Suc r1) w' \<and> (t_locked s (at_slot w') \<longrightarrow> \<not> reads w')"
      if "w' \<in> set (us @ Picked i c (rq_ACLIdentity q \<noteq> None) # vs)" for w' using that new free w by auto
    show "on_way j (us @ Picked i c (rq_ACLIdentity q \<noteq> None) # vs) = 0" if "j < MaxSlotNum" "t_locked s j" "\<not> filling_at (t_filling s) j" for j
      using traffic_okD(6) [OF ok that] free that(2) w by auto
  qed
qed

lemma drop_worker:
  assumes ok: "traffic_ok s" and w: "t_workers s = us @ w # vs" and r1: "router_ok r1" "grown (r_heap (t_router s)) (r_heap r1)"
    and slots: "\<And>j. slot_refs (r_slots r1 ! j) = slot_refs (r_slots (t_router s) ! j)" "\<And>j. rs_hold (r_slots r1 ! j) = rs_hold (r_slots (t_router s) ! j)"
    and refs: "\<And>j. j < MaxSlotNum \<Longrightarrow> rs_refs (r_slots r1 ! j) = (if counted w \<and> j = at_slot w then rs_refs (r_slots (t_router s) ! j) - 1 else rs_refs (r_slots (t_router s) ! j))"
  shows "traffic_ok (s\<lparr>t_router := r1, t_workers := us @ vs\<rparr>)"
proof (rule workers_step [OF ok r1 slots])
  show "rs_refs (r_slots r1 ! j) = on_way j (us @ vs)" if "j < MaxSlotNum" for j
    using refs [OF that] traffic_okD(2) [OF ok that] w by auto
  show "on_way j (us @ vs) = 0" if "j < MaxSlotNum" "t_locked s j" "\<not> filling_at (t_filling s) j" for j
    using traffic_okD(6) [OF ok that] w by (auto split: if_splits)
qed (use w in auto)

lemma fill_step:
  assumes ok: "traffic_ok s" and f: "t_filling s = Some (Waiting m sw me)" "sl_Id m = int i" "rs_refs (r_slots (t_router s) ! i) = 0"
    and r1: "fillSlot m sw me (t_router s) = Some r1"
  shows "traffic_ok (s\<lparr>t_router := r1, t_locked := (t_locked s)(i := sl_Locked m), t_filling := None\<rparr>)" (is "traffic_ok ?s")
proof -
  have i: "i < MaxSlotNum" "nat (sl_Id m) = i" "0 \<le> sl_Id m" "sl_Id m < int MaxSlotNum" using traffic_okD(7) [OF ok] f by auto
  have l: "t_locked s i" using traffic_okD(9) [OF ok f(1)] i(2) by simp
  from fillSlot_ok [OF traffic_okD(1) [OF ok] i(3,4), of sw me] r1 i(2)
  have n: "router_ok r1" "map rs_refs (r_slots r1) = map rs_refs (r_slots (t_router s))" "rs_hold (r_slots r1 ! i) = sl_Locked m"
    "\<And>j. j \<noteq> i \<Longrightarrow> r_slots r1 ! j = r_slots (t_router s) ! j" "grown (r_heap (t_router s)) (r_heap r1)" by auto
  have refs: "rs_refs (r_slots r1 ! j) = rs_refs (r_slots (t_router s) ! j)" if "j < MaxSlotNum" for j
    using arg_cong [OF n(2), of "\<lambda>xs. xs ! j"] that router_length [OF n(1)] router_length [OF traffic_okD(1) [OF ok]] by simp
  have none: "on_way i (t_workers s) = 0" using traffic_okD(2) [OF ok i(1)] f(3) by simp
  have away: "at_slot w \<noteq> i" if "w \<in> set (t_workers s)" for w
  proof
    assume a: "at_slot w = i"
    with traffic_okD(4) [OF ok that] l have "\<not> reads w" by simp
    then have "counted w" by (cases w) auto
    with a that none show False by (auto simp: on_way_def filter_empty_conv)
  qed
  have blocking: "\<not> blocking_at (t_filling s) j" for j using f(1) by (simp add: blocking_at_def)
  show ?thesis
  proof (rule traffic_okI)
    fix w assume w: "w \<in> set (t_workers ?s)"
    then have w': "w \<in> set (t_workers s)" by simp
    show "worker_ok (t_router ?s) w"
      using worker_ok_later [OF traffic_okD(1) [OF ok] traffic_okD(3) [OF ok w'], of r1] n(4) [OF away [OF w']] n(5) by simp
    show "\<not> reads w" if "t_locked ?s (at_slot w)" using that traffic_okD(4) [OF ok w'] away [OF w'] by simp
  next
    fix j assume j: "j < MaxSlotNum"
    show "rs_hold (r_slots (t_router ?s) ! j) \<longleftrightarrow> t_locked ?s j \<or> blocking_at (t_filling ?s) j"
      using n(3) n(4) [of j] traffic_okD(5) [OF ok j] blocking by (cases "j = i") (auto simp: blocking_at_def)
    show "on_way j (t_workers ?s) = 0" if "t_locked ?s j" "\<not> filling_at (t_filling ?s) j"
      using that none traffic_okD(6) [OF ok j] f by (cases "j = i") (auto simp: filling_at_def)
  qed (use n(1) refs traffic_okD(2) [OF ok] traffic_okD(10) [OF ok] in \<open>simp_all\<close>)
qed

lemma filling_step:
  assumes ok: "traffic_ok s" and r1: "router_ok r1" "r_heap r1 = r_heap (t_router s)"
    and slots: "\<And>j. slot_refs (r_slots r1 ! j) = slot_refs (r_slots (t_router s) ! j)" "\<And>j. rs_refs (r_slots r1 ! j) = rs_refs (r_slots (t_router s) ! j)"
    and l: "\<And>j. t_locked s j \<Longrightarrow> l j" "\<And>w. w \<in> set (t_workers s) \<Longrightarrow> l (at_slot w) \<Longrightarrow> \<not> t_locked s (at_slot w) \<Longrightarrow> \<not> reads w"
    and hold: "\<And>j. j < MaxSlotNum \<Longrightarrow> rs_hold (r_slots r1 ! j) \<longleftrightarrow> l j \<or> blocking_at f j"
    and f: "\<And>m sw me. f = Some (Blocking m sw me) \<or> f = Some (Waiting m sw me) \<Longrightarrow> 0 \<le> sl_Id m \<and> sl_Id m < int MaxSlotNum"
      "\<And>m sw me. f = Some (Blocking m sw me) \<Longrightarrow> \<not> l (nat (sl_Id m))" "\<And>m sw me. f = Some (Waiting m sw me) \<Longrightarrow> l (nat (sl_Id m))"
      "\<And>j. l j \<Longrightarrow> \<not> filling_at f j \<Longrightarrow> t_locked s j \<and> \<not> filling_at (t_filling s) j"
  shows "traffic_ok (s\<lparr>t_router := r1, t_locked := l, t_filling := f\<rparr>)"
proof (rule traffic_okI)
  fix w assume "w \<in> set (t_workers (s\<lparr>t_router := r1, t_locked := l, t_filling := f\<rparr>))"
  then have w: "w \<in> set (t_workers s)" by simp
  show "worker_ok (t_router (s\<lparr>t_router := r1, t_locked := l, t_filling := f\<rparr>)) w"
    using worker_ok_later [OF traffic_okD(1) [OF ok] traffic_okD(3) [OF ok w], of r1] slots(1) r1(2) by simp
  show "\<not> reads w" if "t_locked (s\<lparr>t_router := r1, t_locked := l, t_filling := f\<rparr>) (at_slot w)"
    using that l(2) [OF w] traffic_okD(4) [OF ok w] by auto
qed (use r1(1) slots(2) hold f traffic_okD(2,6,10) [OF ok] in \<open>simp_all\<close>)

lemma block_step:
  assumes ok: "traffic_ok s" and b: "t_filling s = None" "sl_Id m = int i" "i < MaxSlotNum"
  shows "traffic_ok (s\<lparr>t_router := holdSlot i (t_router s),
      t_filling := Some (if rs_hold (r_slots (t_router s) ! i) then Waiting m sw me else Blocking m sw me)\<rparr>)"
proof -
  define f where "f = Some (if rs_hold (r_slots (t_router s) ! i) then Waiting m sw me else Blocking m sw me)"
  have len: "i < length (r_slots (t_router s))" using router_length [OF traffic_okD(1) [OF ok]] b(3) by simp
  have hold: "rs_hold (r_slots (t_router s) ! j) \<longleftrightarrow> t_locked s j" if "j < MaxSlotNum" for j
    using traffic_okD(5) [OF ok that] b(1) by (simp add: blocking_at_def)
  have "traffic_ok (s\<lparr>t_router := holdSlot i (t_router s), t_locked := t_locked s, t_filling := f\<rparr>)"
  proof (rule filling_step [OF ok holdSlot_ok [OF traffic_okD(1) [OF ok]]])
    show "rs_hold (r_slots (holdSlot i (t_router s)) ! j) \<longleftrightarrow> t_locked s j \<or> blocking_at f j" if "j < MaxSlotNum" for j
      using hold [OF that] hold [OF b(3)] b(2) by (auto simp: hold_after [OF len] blocking_at_def f_def)
    show "t_locked s j \<and> \<not> filling_at (t_filling s) j" if "t_locked s j" "\<not> filling_at f j" for j
      using that b(1) by (simp add: filling_at_def)
  qed (use b hold [OF b(3)] in \<open>auto simp: slot_after f_def split: if_splits\<close>)
  then show ?thesis by (simp add: f_def)
qed

lemma lock_step:
  assumes ok: "traffic_ok s" and b: "t_filling s = Some (Blocking m sw me)" "sl_Id m = int i" "\<And>w. w \<in> set (t_workers s) \<Longrightarrow> at_slot w = i \<Longrightarrow> \<not> reads w"
  shows "traffic_ok (s\<lparr>t_locked := (t_locked s)(i := True), t_filling := Some (Waiting m sw me)\<rparr>)"
proof -
  have i: "i < MaxSlotNum" using traffic_okD(7) [OF ok, of m sw me] b by simp
  have "traffic_ok (s\<lparr>t_router := t_router s, t_locked := (t_locked s)(i := True), t_filling := Some (Waiting m sw me)\<rparr>)"
  proof (rule filling_step [OF ok traffic_okD(1) [OF ok]])
    show "rs_hold (r_slots (t_router s) ! j) \<longleftrightarrow> ((t_locked s)(i := True)) j \<or> blocking_at (Some (Waiting m sw me)) j" if "j < MaxSlotNum" for j
      using traffic_okD(5) [OF ok that] b by (auto simp: blocking_at_def)
    show "\<not> reads w" if "w \<in> set (t_workers s)" "((t_locked s)(i := True)) (at_slot w)" "\<not> t_locked s (at_slot w)" for w
      using that b(3) [OF that(1)] by (auto split: if_splits)
    show "t_locked s j \<and> \<not> filling_at (t_filling s) j" if "((t_locked s)(i := True)) j" "\<not> filling_at (Some (Waiting m sw me)) j" for j
      using that b(1,2) by (auto simp: filling_at_def split: if_splits)
  qed (use b i in \<open>auto split: if_splits\<close>)
  then show ?thesis by simp
qed

lemma closing_ok:
  assumes "traffic_ok (s\<lparr>t_router := r\<rparr>)"
  shows "traffic_ok (s\<lparr>t_router := r, t_closing := b\<rparr>)"
  by (rule traffic_okI) (use traffic_okD [OF assms] in simp_all)

lemma traffic_step_ok:
  assumes "traffic_step s s1" "traffic_ok s"
  shows "traffic_ok s1"
  using assms
proof (cases rule: traffic_step.cases)
  case (enter i)
  have "traffic_ok (s\<lparr>t_router := t_router s, t_workers := Reading i # t_workers s\<rparr>)"
    by (rule workers_step [OF assms(2)]) (use enter traffic_okD [OF assms(2)] in \<open>auto simp: worker_ok_def\<close>)
  with enter show ?thesis by simp
next
  case (pick us i vs q call hkey trace c r1)
  with pick_step [OF assms(2)] show ?thesis by simp
next
  case (fail us i vs q call hkey trace res r1)
  have "Reading i \<in> set (t_workers s)" using fail by simp
  note k = process_step [OF assms(2) this fail(3,4)]
  note l = kept_later [OF assms(2) k(1)]
  show ?thesis unfolding fail(1) by (rule drop_worker [OF assms(2) fail(2) l(1,2)]) (simp_all add: l(3))
next
  case (leave us i c u vs)
  have "worker_ok (t_router s) (Picked i c u)" using traffic_okD(3) [OF assms(2)] leave by simp
  then have "worker_ok (t_router s) (Chosen i c u)" by (simp add: worker_ok_def)
  with swap_worker [OF assms(2) leave(2), of "Chosen i c u"] leave show ?thesis by simp
next
  case (push us i c u vs)
  have "worker_ok (t_router s) (Chosen i c u)" using traffic_okD(3) [OF assms(2)] push by simp
  then have "worker_ok (t_router s) (OnWay i c u)" by (simp add: worker_ok_def)
  with swap_worker [OF assms(2) push(2), of "OnWay i c u"] push show ?thesis by simp
next
  case (crash us i c u vs)
  have "u" using service_open [OF assms(2), of "Chosen i c False" i c] crash by (cases u) auto
  then show ?thesis using assms(2) crash by (simp add: traffic_ok_def)
next
  case (respond us i c u vs)
  have i: "i < MaxSlotNum" using traffic_okD(3) [OF assms(2), of "OnWay i c u"] respond by (simp add: worker_ok_def)
  then have len: "i < length (r_slots (t_router s))" using router_length [OF traffic_okD(1) [OF assms(2)]] by simp
  show ?thesis unfolding respond(1)
    by (rule drop_worker [OF assms(2) respond(2) addRefs_ok [OF traffic_okD(1) [OF assms(2)]]]) (simp_all add: slot_after refs_after [OF len])
next
  case (block m i sw me)
  with block_step [OF assms(2)] show ?thesis by simp
next
  case (lock m sw me i)
  with lock_step [OF assms(2)] show ?thesis by simp
next
  case (fill m sw me i r1)
  with fill_step [OF assms(2)] show ?thesis by simp
next
  case (install acl e changed r1)
  note n = installACL_ok [OF traffic_okD(1) [OF assms(2)] install(2)]
  have "traffic_ok (s\<lparr>t_router := r1, t_workers := t_workers s\<rparr>)"
    by (rule workers_step [OF assms(2) n(1)]) (use n(2) traffic_okD [OF assms(2)] in auto)
  then have "traffic_ok (s\<lparr>t_router := r1\<rparr>)" by simp
  then show ?thesis unfolding install(1) by (rule closing_ok)
next
  case close
  note n = closeUser_ok [OF traffic_okD(1) [OF assms(2)]]
  have "traffic_ok (s\<lparr>t_router := closeUserBackendPools (t_router s), t_workers := t_workers s\<rparr>)"
    by (rule workers_step [OF assms(2) n(1,3)]) (use n(4) traffic_okD [OF assms(2)] in auto)
  then have "traffic_ok (s\<lparr>t_router := closeUserBackendPools (t_router s)\<rparr>)" by simp
  then show ?thesis unfolding close(1) by (rule closing_ok)
qed

lemma start_ok:
  assumes "NewRouter clock config = Some r" "1 \<le> cf_BackendNumberDatabases config"
  shows "traffic_ok (traffic_start r)"
proof -
  have "r_slots r = map new_slot [0..<MaxSlotNum]" using assms(1) by (auto simp: NewRouter_def split: prod.splits)
  with NewRouter_ok(1) [OF assms] show ?thesis by (simp add: traffic_ok_def traffic_start_def new_slot_def blocking_at_def)
qed

lemma traffic_reachable_ok:
  assumes "NewRouter clock config = Some r" "1 \<le> cf_BackendNumberDatabases config" "traffic_reachable r s"
  shows "traffic_ok s"
  using assms(3)
proof induction
  case start
  show ?case by (rule start_ok [OF assms(1,2)])
next
  case (step s s1)
  then show ?case using traffic_step_ok by blast
qed

section \<open>Connections of users\<close>

text \<open>The first request of a user gets a connection of a new pool.\<close>

lemma first_user_conn:
  assumes ok: "router_ok r" and i: "identity_ok i" "aclIdentityCurrent r (Some i)" and new: "r_userPrimary r = []"
    and db: "0 \<le> database" "database < cf_BackendNumberDatabases (r_config r)"
  shows "\<exists>c k p r1. userBackendConn addr database seed False (Some i) True r = Some (Some c, r1) \<and> k < length (hp_scs (r_heap r1)) \<and>
    c \<in> set (conns_of (r_heap r1) k) \<and> sc_owner (shared (r_heap r1) k) = p \<and> (userBackendKey (Some i), p) \<in> set (r_userPrimary r1)"
proof -
  obtain p h where n: "newSharedBackendConnPool (cf_BackendPrimaryParallel (r_config r)) \<lparr>ai_Username = si_Username i, ai_Password = si_Password i\<rparr> (r_heap r) = (p, h)" by fastforce
  define r1 where "r1 = r\<lparr>r_heap := h, r_userPrimary := [(userBackendKey (Some i), p)]\<rparr>"
  have u: "userBackendPool False i r = (Some p, r1)" using i(2) new n by (simp add: userBackendPool_def r1_def)
  have "router_ok r1" "p < length (hp_pools h)" using userBackendPool_ok [OF ok i(1) u] by (auto simp: r1_def)
  then have h: "heap_ok (r_config r) h" "p < length (hp_pools h)" "0 \<le> cf_BackendNumberDatabases (r_config r)"
    by (auto simp: r1_def router_ok_def refs_ok_def)
  have "heap_ok (r_config r) (r_heap r)" using ok by (simp add: router_ok_def refs_ok_def)
  note np = newPool_ok [OF this n]
  obtain k h2 where c: "createShared (r_config r) p addr h = (k, h2)" by fastforce
  have empty: "map_of (sp_pool (hp_pools h ! p)) addr = None" using np(9) by simp
  note k = create_ok [OF h(1,3,2) empty np(8) c]
  obtain bc where bc: "BackendConn_of h2 (Some k) database seed True = Some (Some bc)" "bc \<in> set (conns_of h2 k)"
    using BackendConn_of_ok [OF k(1) _ db, of k seed True] k(3,4) by auto
  have "Pool_GetOrCreate (r_config r) p addr h = (Some k, h2)" using np(8,9) c by (simp add: Pool_GetOrCreate_def)
  then have "userBackendConn addr database seed False (Some i) True r = Some (Some bc, r1\<lparr>r_heap := h2\<rparr>)"
    using u bc(1) by (simp add: userBackendConn_def r1_def)
  with bc(2) k(3,4,6) show ?thesis by (auto simp: r1_def)
qed

text \<open>Closing the pools of the users closes their connections.\<close>

lemma closed_pool_stays: "sp_closed (hp_pools h ! p) \<Longrightarrow> sp_closed (hp_pools (foldl (\<lambda>h (k, q). Pool_Close q h) h ps) ! p)"
proof (induction ps arbitrary: h)
  case (Cons x ps)
  obtain k q where x: "x = (k, q)" by fastforce
  have "sp_closed (hp_pools (Pool_Close q h) ! p)" using Cons.prems by (cases "q = p") (simp_all add: Pool_Close_def Let_def)
  with Cons.IH x show ?case by simp
qed simp

lemma closed_pools: "(k, p) \<in> set ps \<Longrightarrow> p < length (hp_pools h) \<Longrightarrow> sp_closed (hp_pools (foldl (\<lambda>h (k, q). Pool_Close q h) h ps) ! p)"
proof (induction ps arbitrary: h)
  case (Cons x ps)
  obtain k' q where x: "x = (k', q)" by fastforce
  show ?case
  proof (cases "q = p")
    case True
    have "sp_closed (hp_pools (Pool_Close p h) ! p)" using Cons.prems(2) by (auto simp: Pool_Close_def Let_def)
    with True x show ?thesis by (simp add: closed_pool_stays)
  qed (use Cons x in auto)
qed simp

lemma closed_users:
  assumes ok: "router_ok r" and k: "k < length (hp_scs (r_heap r))" "c \<in> set (conns_of (r_heap r) k)" "(key, sc_owner (shared (r_heap r) k)) \<in> set (r_userPrimary r)"
  shows "bc_closed (hp_bcs (r_heap (closeUserBackendPools r)) ! c)"
proof -
  define p where "p = sc_owner (shared (r_heap r) k)"
  define h where "h = r_heap (closeUserBackendPools r)"
  note n = closeUser_ok [OF ok]
  have hok: "heap_ok (r_config r) h" using n(1) by (simp add: router_ok_def refs_ok_def h_def closeUserBackendPools_def)
  have g: "grown (r_heap r) h" using n(3) by (simp add: h_def)
  have p: "p < length (hp_pools (r_heap r))" using users_pools [OF ok, of key p] k(3) by (simp add: p_def)
  have "sp_closed (hp_pools (foldl (\<lambda>h (k, q). Pool_Close q h) (r_heap r) (r_userPrimary r)) ! p)"
    by (rule closed_pools [of key]) (use k(3) p in \<open>simp_all add: p_def\<close>)
  then have "sp_closed (hp_pools h ! p)" by (simp add: h_def closeUserBackendPools_def closed_pool_stays)
  moreover have "p < length (hp_pools h)" using g p by (simp add: grown_def)
  ultimately have "sp_pool (hp_pools h ! p) = []" using heap_okD(3) [OF hok] by (simp add: pool_ok_def)
  moreover have "sc_owner (shared h k) = p" "k < length (hp_scs h)" "conns_of h k = conns_of (r_heap r) k" using g k(1) by (simp_all add: grown_def p_def conns_of_def)
  ultimately show ?thesis using heap_okD(5) [OF hok, of k c] k(2) by (simp add: listed_def h_def)
qed

section \<open>Properties\<close>


text \<open>
  C18. A request without a user is never sent on a closed connection, whatever fills and access lists come in
  between: the connection it was given stays open until the reply is there.
\<close>

theorem service_connection_open:
  assumes "Config_Validate config0 = (None, config)" and "NewRouter clock config = Some r" and "traffic_reachable r s"
  shows "(\<forall>i c. Chosen i c False \<in> set (t_workers s) \<or> OnWay i c False \<in> set (t_workers s) \<longrightarrow> \<not> bc_closed (hp_bcs (r_heap (t_router s)) ! c)) \<and>
    (\<forall>i c. t_panic s \<noteq> Some (i, c, False))"
proof -
  have ok: "traffic_ok s" using traffic_reachable_ok [OF assms(2) validated_cases(2) [OF assms(1)] assms(3)] .
  show ?thesis using service_open [OF ok] traffic_okD(10) [OF ok] by blast
qed

text \<open>A proxy with one server for slot 5 and a user of the access list, and a request of this user.\<close>

definition acl_demo :: "int \<Rightarrow> ACL" where
  "acl_demo n =
     \<lparr>acl_Revision = n, acl_Enabled = True,
      acl_Users = [\<lparr>au_Name = ''alice'', au_Enabled = True, au_DB = None, au_PasswordHashes = [ACLPasswordHash ''pw''], au_Rules = [''+@all'']\<rparr>],
      acl_UpdatedAt = []\<rparr>"

definition identity_demo :: SessionACLIdentity where
  "identity_demo =
     \<lparr>si_Username = ''alice'', si_CredentialHash = ACLPasswordHash ''pw'', si_Password = ''pw'', si_Revision = 1, si_Stale = False, si_ForcedDB = None\<rparr>"

definition user_request :: Request where
  "user_request =
     \<lparr>rq_Multi = [bulk ''SET'', bulk ''a'', bulk ''1''], rq_OpStr = ''SET'', rq_OpFlag = FlagWrite, rq_Database = 0, rq_UnixNano = 1, rq_ptr = 8,
      rq_ACLIdentity = Some identity_demo, rq_Broken = False\<rparr>"

lemma IsMasterOnly_write: "IsMasterOnly FlagWrite"
  by (simp add: IsMasterOnly_def op_flags)

lemma user_pick:
  assumes ok: "router_ok r" and s: "i < MaxSlotNum" "rs_backend_bc (r_slots r ! i) \<noteq> None" and acl: "r_acl r = Some (NewACLSnapshot (Some (acl_demo 1)))"
    and new: "r_userPrimary r = []" and config: "r_config r = config_demo"
  shows "\<exists>c k r1. processMethod (rs_method (r_slots r ! i)) call (r_slots r ! i) user_request [] r = Some ([], Push c, r1) \<and> kept r r1 \<and>
    k < length (hp_scs (r_heap r1)) \<and> c \<in> set (conns_of (r_heap r1) k) \<and> (userBackendKey (Some identity_demo), sc_owner (shared (r_heap r1) k)) \<in> set (r_userPrimary r1)"
proof -
  have i: "identity_ok identity_demo" "aclIdentityCurrent r (Some identity_demo)"
    using acl config by (simp_all add: identity_ok_def identity_demo_def aclIdentityCurrent_def NewACLSnapshot_def acl_demo_def config_demo_def)
  have q: "request_ok r user_request" using i config by (simp add: request_ok_def user_request_def config_demo_def)
  have db: "0 \<le> rq_Database user_request" "rq_Database user_request < cf_BackendNumberDatabases (r_config r)" using q by (auto simp: request_ok_def)
  obtain c k r1 where u: "userBackendConn (Addr (r_heap r) (rs_backend_bc (r_slots r ! i))) (rq_Database user_request) (Seed16 user_request) False (Some identity_demo) True r = Some (Some c, r1)"
    "k < length (hp_scs (r_heap r1))" "c \<in> set (conns_of (r_heap r1) k)" "(userBackendKey (Some identity_demo), sc_owner (shared (r_heap r1) k)) \<in> set (r_userPrimary r1)"
    using first_user_conn [OF ok i new db] by blast
  have "forward2 (r_slots r ! i) user_request r = Some (Some c, r1)"
    using u(1) IsMasterOnly_write by (simp add: forward2_def pickConn_def user_request_def)
  then have "processMethod (rs_method (r_slots r ! i)) call (r_slots r ! i) user_request [] r = Some ([], Push c, r1)"
    using s(2) by (cases "rs_method (r_slots r ! i)") (simp_all add: processMethod_def processSync_def processSemiAsync_def finishForward_def)
  moreover have "r_slots r ! i \<in> set (r_slots r)" using s(1) router_length [OF ok] by simp
  ultimately show ?thesis using process_ok [OF ok q, of "r_slots r ! i" "rs_method (r_slots r ! i)" call "[]"] u(2-4) by auto
qed

lemma NewRouter_fresh:
  "NewRouter clock config = Some r \<Longrightarrow> r_acl r = None \<and> r_userPrimary r = [] \<and> r_slots r = map new_slot [0..<MaxSlotNum] \<and> r_config r = config"
  by (auto simp: NewRouter_def split: prod.splits)

text \<open>With no request on the way a fill runs through.\<close>

lemma fill_run:
  assumes "NewRouter clock config = Some r" "1 \<le> cf_BackendNumberDatabases config" and s: "traffic_reachable r s" "t_filling s = None" "t_workers s = []"
    and i: "sl_Id m = int i" "i < MaxSlotNum" "\<not> t_locked s i"
  shows "\<exists>rb. fillSlot m sw me (holdSlot i (t_router s)) = Some rb \<and> traffic_reachable r (s\<lparr>t_router := rb, t_locked := (t_locked s)(i := sl_Locked m), t_filling := None\<rparr>)"
proof -
  have ok: "traffic_ok s" by (rule traffic_reachable_ok [OF assms(1-3)])
  have slot: "rs_refs (r_slots (t_router s) ! i) = 0" "\<not> rs_hold (r_slots (t_router s) ! i)"
    using traffic_okD(2) [OF ok i(2)] traffic_okD(5) [OF ok i(2)] s(2,3) i(3) by (simp_all add: blocking_at_def)
  define s2 where "s2 = s\<lparr>t_router := holdSlot i (t_router s), t_filling := Some (Blocking m sw me)\<rparr>"
  have 2: "traffic_step s s2" using traffic_step.block [OF s(2) i(1,2), of sw me] slot by (simp add: s2_def)
  define s3 where "s3 = s2\<lparr>t_locked := (t_locked s)(i := True), t_filling := Some (Waiting m sw me)\<rparr>"
  have 3: "traffic_step s2 s3" using traffic_step.lock [of s2 m sw me i] i(1) s(3) by (simp add: s2_def s3_def)
  obtain rb where rb: "fillSlot m sw me (holdSlot i (t_router s)) = Some rb"
    using fillSlot_safe [OF holdSlot_ok [OF traffic_okD(1) [OF ok]] i(1,2)] by blast
  have 4: "traffic_step s3 (s\<lparr>t_router := rb, t_locked := (t_locked s)(i := sl_Locked m), t_filling := None\<rparr>)"
    using traffic_step.fill [of s3 m sw me i rb] i(1) rb slot(1) by (simp add: s2_def s3_def slot_after)
  show ?thesis using rb s(1) 2 3 4 traffic_reachable.step by meson
qed

lemma demo_filled:
  assumes "NewRouter 1 config_demo = Some r"
  shows "\<exists>s. traffic_reachable r s \<and> traffic_ok s \<and> \<not> t_locked s 5 \<and> rs_backend_bc (r_slots (t_router s) ! 5) \<noteq> None \<and> t_workers s = [] \<and>
    r_acl (t_router s) = Some (NewACLSnapshot (Some (acl_demo 1))) \<and> r_userPrimary (t_router s) = [] \<and> r_config (t_router s) = config_demo"
proof -
  define ra where "ra = r\<lparr>r_acl := Some (NewACLSnapshot (Some (acl_demo 1)))\<rparr>"
  define m where "m = (offline 5)\<lparr>sl_BackendAddr := ''10.0.0.1:6379''\<rparr>"
  note fresh = NewRouter_fresh [OF assms]
  have m: "5 < MaxSlotNum" "0 \<le> sl_Id m" "sl_Id m < int MaxSlotNum" "sl_Id m = int 5" "\<not> sl_Locked m" by (simp_all add: MaxSlotNum_def m_def offline_def)
  have db: "1 \<le> cf_BackendNumberDatabases config_demo" by (simp add: config_demo_def)
  define s1 where "s1 = (traffic_start r)\<lparr>t_router := ra, t_closing := True\<rparr>"
  have "installACL (Some (acl_demo 1)) r = (MarkStale 1, True, ra)"
    using fresh by (simp add: installACL_def ra_def Let_def NewACLSnapshot_def acl_demo_def)
  with traffic_step.install [of "Some (acl_demo 1)" "traffic_start r" "MarkStale 1" True ra]
  have R1: "traffic_reachable r s1" using traffic_reachable.intros by (fastforce simp: s1_def traffic_start_def)
  obtain rb where rb: "fillSlot m False None (holdSlot 5 ra) = Some rb" and R2: "traffic_reachable r (s1\<lparr>t_router := rb, t_locked := (t_locked s1)(5 := sl_Locked m), t_filling := None\<rparr>)"
    using fill_run [OF assms db R1 _ _ m(4,1), of False None] by (auto simp: s1_def traffic_start_def)
  have hold: "router_ok (holdSlot 5 ra)" using holdSlot_ok [OF traffic_okD(1) [OF traffic_reachable_ok [OF assms db R1]]] by (simp add: s1_def)
  from fillSlot_ok [OF hold m(2,3), of False None] rb
  have f: "r_config rb = r_config ra" "r_acl rb = r_acl ra" "r_userPrimary rb = r_userPrimary ra" "router_ok rb"
    "GetSlots rb = (GetSlots (holdSlot 5 ra))[5 := (shown (r_config ra) m)\<lparr>sl_ForwardMethod := GetId (rs_method (r_slots (holdSlot 5 ra) ! 5))\<rparr>]"
    by (auto simp: m(4)) (simp_all add: holdSlot_def)
  have "length (GetSlots (holdSlot 5 ra)) = MaxSlotNum" using router_length [OF hold] by (simp add: GetSlots_def)
  then have "sl_BackendAddr (GetSlots rb ! 5) = ''10.0.0.1:6379''" unfolding f(5) using m(1) by (simp add: shown_def m_def)
  then have "Addr (r_heap rb) (rs_backend_bc (r_slots rb ! 5)) = ''10.0.0.1:6379''"
    using m(1) router_length [OF f(4)] by (simp add: GetSlots_def snapshot_def)
  then have "rs_backend_bc (r_slots rb ! 5) \<noteq> None" by (auto simp: Addr_def split: option.splits)
  with R2 traffic_reachable_ok [OF assms db R2] f fresh m(5) show ?thesis
    by (intro exI [of _ "s1\<lparr>t_router := rb, t_locked := (t_locked s1)(5 := sl_Locked m), t_filling := None\<rparr>"]) (simp add: s1_def ra_def traffic_start_def)
qed

lemma demo_locked:
  assumes "NewRouter 1 config_demo = Some r"
  shows "\<exists>s. traffic_reachable r s \<and> t_filling s = None \<and> rs_hold (r_slots (t_router s) ! 5) \<and> t_workers s = [Reading 7]"
proof -
  define m where "m = (offline 5)\<lparr>sl_Locked := True\<rparr>"
  have m: "5 < MaxSlotNum" "7 < MaxSlotNum" "sl_Id m = int 5" "sl_Locked m" by (simp_all add: MaxSlotNum_def m_def offline_def)
  have db: "1 \<le> cf_BackendNumberDatabases config_demo" by (simp add: config_demo_def)
  obtain rb where "traffic_reachable r ((traffic_start r)\<lparr>t_router := rb, t_locked := (t_locked (traffic_start r))(5 := sl_Locked m), t_filling := None\<rparr>)"
    using fill_run [OF assms db traffic_reachable.start _ _ m(3,1), of False None] by (auto simp: traffic_start_def)
  from traffic_reachable.step [OF this traffic_step.enter [OF m(2)]]
  have R: "traffic_reachable r ((traffic_start r)\<lparr>t_router := rb, t_locked := (\<lambda>i. False)(5 := True), t_workers := [Reading 7]\<rparr>)"
    using m(4) by (simp add: traffic_start_def)
  from traffic_okD(5) [OF traffic_reachable_ok [OF assms db R] m(1)] R show ?thesis
    by (intro exI [of _ "(traffic_start r)\<lparr>t_router := rb, t_locked := (\<lambda>i. False)(5 := True), t_workers := [Reading 7]\<rparr>"]) (simp add: traffic_start_def)
qed


theorem service_connection_open_witness:
  "\<exists>r s. NewRouter 1 config_demo = Some r \<and> traffic_reachable r s \<and> t_workers s = [Reading 7] \<and> (\<forall>i c. t_panic s \<noteq> Some (i, c, False))"
proof -
  obtain r where r: "NewRouter 1 config_demo = Some r" using NewRouter_some [of config_demo 1] by (auto simp: config_demo_def)
  from demo_locked [OF r] obtain s where s: "traffic_reachable r s" "t_workers s = [Reading 7]" by blast
  with service_connection_open [OF demo_valid r s(1)] r show ?thesis by blast
qed

text \<open>
  C19. The connections of users have no such protection: there is a run in which a user's request has been given its
  connection, an update of the access list closes the pools of the users, and the request is then sent on the closed
  connection, the panic that ends the proxy.
\<close>

theorem user_connection_crash:
  "\<exists>r s c. NewRouter 1 config_demo = Some r \<and> traffic_reachable r s \<and> t_panic s = Some (5, c, True)"
proof -
  obtain r where r: "NewRouter 1 config_demo = Some r" using NewRouter_some [of config_demo 1] by (auto simp: config_demo_def)
  obtain s where s: "traffic_reachable r s" "traffic_ok s" "\<not> t_locked s 5" "rs_backend_bc (r_slots (t_router s) ! 5) \<noteq> None" "t_workers s = []"
    "r_acl (t_router s) = Some (NewACLSnapshot (Some (acl_demo 1)))" "r_userPrimary (t_router s) = []" "r_config (t_router s) = config_demo"
    using demo_filled [OF r] by blast
  have five: "5 < MaxSlotNum" by (simp add: MaxSlotNum_def)
  obtain c k r1 where p: "processMethod (rs_method (r_slots (t_router s) ! 5)) (\<lambda>c m. Inl []) (r_slots (t_router s) ! 5) user_request [] (t_router s) = Some ([], Push c, r1)"
    "kept (t_router s) r1" "k < length (hp_scs (r_heap r1))" "c \<in> set (conns_of (r_heap r1) k)"
    "(userBackendKey (Some identity_demo), sc_owner (shared (r_heap r1) k)) \<in> set (r_userPrimary r1)"
    using user_pick [OF traffic_okD(1) [OF s(2)] five s(4,6,7,8)] by blast
  define s1 where "s1 = s\<lparr>t_workers := [Reading 5]\<rparr>"
  define s2 where "s2 = s1\<lparr>t_router := addRefs 5 Suc r1, t_workers := [Picked 5 c True]\<rparr>"
  define s3 where "s3 = s2\<lparr>t_workers := [Chosen 5 c True]\<rparr>"
  define rb where "rb = (addRefs 5 Suc r1)\<lparr>r_acl := Some (NewACLSnapshot (Some (acl_demo 2)))\<rparr>"
  define s4 where "s4 = s3\<lparr>t_router := rb, t_closing := True\<rparr>"
  define s5 where "s5 = s4\<lparr>t_router := closeUserBackendPools rb, t_closing := False\<rparr>"
  have q: "request_ok (t_router s1) user_request" using s(8) by (simp add: s1_def request_ok_def user_request_def config_demo_def identity_ok_def identity_demo_def)
  have 1: "traffic_step s s1" using traffic_step.enter [OF five s(3)] s(5) by (simp add: s1_def)
  have 2: "traffic_step s1 s2"
    using traffic_step.pick [of s1 "[]" 5 "[]" user_request _ "[]" "[]" c r1, OF _ q] p(1) by (simp add: s1_def s2_def user_request_def)
  have 3: "traffic_step s2 s3" using traffic_step.leave [of s2 "[]" 5 c True "[]"] by (simp add: s2_def s3_def)
  have "r_acl (addRefs 5 Suc r1) = Some (NewACLSnapshot (Some (acl_demo 1)))" using p(2) s(6) by (simp add: kept_def addRefs_def)
  then have "installACL (Some (acl_demo 2)) (addRefs 5 Suc r1) = (MarkStale 2, True, rb)"
    by (simp add: installACL_def rb_def Let_def NewACLSnapshot_def acl_demo_def)
  with traffic_step.install [of "Some (acl_demo 2)" s3 "MarkStale 2" True rb] have 4: "traffic_step s3 s4" by (simp add: s4_def s3_def s2_def)
  have 5: "traffic_step s4 s5" using traffic_step.close [of s4] by (simp add: s4_def s5_def)
  have "router_ok rb" using router_ok_cong [OF addRefs_ok [of r1 5 Suc], of rb] p(2) by (simp add: rb_def kept_def)
  from closed_users [OF this, of k c] p(3-5) have "bc_closed (hp_bcs (r_heap (closeUserBackendPools rb)) ! c)" by (simp add: rb_def addRefs_def)
  then have 6: "traffic_step s5 (s5\<lparr>t_panic := Some (5, c, True)\<rparr>)"
    using traffic_step.crash [of s5 "[]" 5 c True "[]"] by (simp add: s5_def s4_def s3_def)
  have "traffic_reachable r (s5\<lparr>t_panic := Some (5, c, True)\<rparr>)" using s(1) 1 2 3 4 5 6 traffic_reachable.step by meson
  with r show ?thesis by (intro exI [of _ r] exI [of _ "s5\<lparr>t_panic := Some (5, c, True)\<rparr>"] exI [of _ c]) simp
qed

end
