(* ===== verification/ProxyServer.thy ===== *)
theory ProxyServer
  imports Forward TopomProxy
begin

text \<open>
  The proxy process, \<open>Proxy\<close> of \<open>src/pkg/proxy/proxy.go\<close>, as the dashboard sees it: life cycle, filling of slots,
  masters, access list, limit and invalidation.  Listeners, metrics, jodis and the goroutines of the sentinel are left
  out.  The slots that a proxy serves are proved to be those the dashboard believes it has.
\<close>

section \<open>The proxy\<close>

record ProxyServer =
  px_online :: bool
  px_closed :: bool
  px_router :: Router
  px_guard :: AuthBruteforceGuard
  px_masters :: "int \<rightharpoonup> string"
  px_servers :: "string list"
  px_monitor :: bool

datatype proxy_error = ErrClosedProxy | ErrRouter router_error | ErrConfig string | ErrBadProduct | ErrMissingLimit | ErrInvalidLimit

definition word_char :: "char \<Rightarrow> bool" where
  "word_char c \<longleftrightarrow>
     list_ex (\<lambda>(low, high). low \<le> c \<and> c \<le> high) [(CHR ''0'', CHR ''9''), (CHR ''A'', CHR ''Z''), (CHR ''_'', CHR ''_''), (CHR ''a'', CHR ''z'')]"

definition ValidateProduct :: "string \<Rightarrow> bool" where
  "ValidateProduct name \<longleftrightarrow>
     name \<noteq> [] \<and> word_char (hd name) \<and> list_all (\<lambda>c. word_char c \<or> c = CHR ''.'' \<or> c = CHR ''-'') (tl name)"

text \<open>The outer \<open>None\<close> is a panic.\<close>

definition Proxy_New :: "int \<Rightarrow> Config \<Rightarrow> (proxy_error + ProxyServer) option" where
  "Proxy_New clock config0 =
     (case Config_Validate config0 of
        (Some e, c) \<Rightarrow> Some (Inl (ErrConfig e))
      | (None, c) \<Rightarrow>
          if \<not> ValidateProduct (cf_ProductName c) then Some (Inl ErrBadProduct)
          else
            map_option (\<lambda>r. Inr \<lparr>px_online = False, px_closed = False, px_router = r, px_guard = config_guard c, px_masters = Map.empty, px_servers = [], px_monitor = False\<rparr>)
              (NewRouter clock c))"

definition Proxy_Start :: "ProxyServer \<Rightarrow> proxy_error option \<times> ProxyServer" where
  "Proxy_Start p =
     (if px_closed p then (Some ErrClosedProxy, p)
      else if px_online p then (None, p)
      else (None, p\<lparr>px_online := True, px_router := Router_Start (px_router p)\<rparr>))"

definition Proxy_Close :: "ProxyServer \<Rightarrow> ProxyServer option" where
  "Proxy_Close p =
     (if px_closed p then Some p else map_option (\<lambda>r. p\<lparr>px_closed := True, px_router := r\<rparr>) (Router_Close (px_router p)))"

definition Proxy_IsOnline :: "ProxyServer \<Rightarrow> bool" where
  "Proxy_IsOnline p \<longleftrightarrow> px_online p \<and> \<not> px_closed p"

definition Proxy_IsClosed :: "ProxyServer \<Rightarrow> bool" where
  "Proxy_IsClosed p \<longleftrightarrow> px_closed p"

definition Proxy_HasSwitched :: "ProxyServer \<Rightarrow> bool" where
  "Proxy_HasSwitched p \<longleftrightarrow> HasSwitched (px_router p)"

definition Proxy_Slots :: "ProxyServer \<Rightarrow> Slot list" where
  "Proxy_Slots p = GetSlots (px_router p)"

definition Proxy_FillSlot :: "Slot \<Rightarrow> ProxyServer \<Rightarrow> (proxy_error option \<times> ProxyServer) option" where
  "Proxy_FillSlot m p =
     (if px_closed p then Some (Some ErrClosedProxy, p)
      else map_option (\<lambda>(e, r). (map_option ErrRouter e, p\<lparr>px_router := r\<rparr>)) (FillSlot m (px_router p)))"

fun fillAll :: "Slot list \<Rightarrow> Router \<Rightarrow> (router_error option \<times> Router) option" where
  "fillAll [] r = Some (None, r)"
| "fillAll (m # ms) r =
     Option.bind (FillSlot m r) (\<lambda>(e, r1). case e of Some x \<Rightarrow> Some (Some x, r1) | None \<Rightarrow> fillAll ms r1)"

definition Proxy_FillSlots :: "Slot list \<Rightarrow> ProxyServer \<Rightarrow> (proxy_error option \<times> ProxyServer) option" where
  "Proxy_FillSlots ms p =
     (if px_closed p then Some (Some ErrClosedProxy, p)
      else map_option (\<lambda>(e, r). (map_option ErrRouter e, p\<lparr>px_router := r\<rparr>)) (fillAll ms (px_router p)))"

definition Proxy_SwitchMasters :: "(string \<Rightarrow> string) \<Rightarrow> (int \<rightharpoonup> string) \<Rightarrow> ProxyServer \<Rightarrow> (proxy_error option \<times> ProxyServer) option" where
  "Proxy_SwitchMasters runid masters p =
     (if px_closed p then Some (Some ErrClosedProxy, p)
      else
        let p1 = p\<lparr>px_masters := masters\<rparr>
        in if masters = Map.empty then Some (None, p1)
           else map_option (\<lambda>(e, r). (None, p1\<lparr>px_router := r\<rparr>)) (Router_SwitchMasters runid masters (px_router p1)))"

definition GetSentinels :: "ProxyServer \<Rightarrow> string list \<times> (int \<rightharpoonup> string)" where
  "GetSentinels p = (if px_closed p then ([], Map.empty) else (px_servers p, px_masters p))"

text \<open>The monitor in place is cancelled and what it reported forgotten.  A monitor calls \<open>SwitchMasters\<close>.\<close>

definition rewatchSentinels :: "string list \<Rightarrow> ProxyServer \<Rightarrow> ProxyServer" where
  "rewatchSentinels servers p =
     (let p1 = (if px_monitor p then p\<lparr>px_monitor := False, px_masters := Map.empty\<rparr> else p)
      in if servers \<noteq> [] then p1\<lparr>px_monitor := True\<rparr> else p1)"

definition Proxy_SetSentinels :: "string list \<Rightarrow> ProxyServer \<Rightarrow> proxy_error option \<times> ProxyServer" where
  "Proxy_SetSentinels servers p =
     (if px_closed p then (Some ErrClosedProxy, p)
      else let p1 = p\<lparr>px_servers := servers\<rparr> in (None, rewatchSentinels (px_servers p1) p1))"

definition Proxy_RewatchSentinels :: "ProxyServer \<Rightarrow> proxy_error option \<times> ProxyServer" where
  "Proxy_RewatchSentinels p =
     (if px_closed p then (Some ErrClosedProxy, p) else (None, rewatchSentinels (px_servers p) p))"

definition Proxy_SetACL :: "ACL option \<Rightarrow> ProxyServer \<Rightarrow> proxy_error option \<times> acl_effect \<times> ProxyServer" where
  "Proxy_SetACL acl p =
     (if Proxy_IsClosed p then (Some ErrClosedProxy, KeepSessions, p)
      else (case Router_SetACL acl (px_router p) of (e, r) \<Rightarrow> (None, e, p\<lparr>px_router := r\<rparr>)))"

definition Proxy_SetQPSLimit :: "int \<Rightarrow> (int \<times> int) option \<Rightarrow> ProxyServer \<Rightarrow> proxy_error option \<times> ProxyServer" where
  "Proxy_SetQPSLimit now limit p =
     (case limit of
        None \<Rightarrow> (Some ErrMissingLimit, p)
      | Some (revision, n) \<Rightarrow>
          (case SetLimit now revision n now (r_qpsLimiter (px_router p)) of
             (False, l) \<Rightarrow> (Some ErrInvalidLimit, p)
           | (True, l) \<Rightarrow> (None, p\<lparr>px_router := (px_router p)\<lparr>r_qpsLimiter := l\<rparr>\<rparr>)))"

definition Proxy_ResetStats :: "ProxyServer \<Rightarrow> ProxyServer" where
  "Proxy_ResetStats p = p\<lparr>px_router := (px_router p)\<lparr>r_qpsLimiter := ResetStats (r_qpsLimiter (px_router p))\<rparr>\<rparr>"

definition InvalidateHotKeyCache :: "int \<Rightarrow> bytes list \<Rightarrow> ProxyServer \<Rightarrow> (proxy_error + int) \<times> ProxyServer" where
  "InvalidateHotKeyCache database keys p =
     (if px_closed p then (Inl ErrClosedProxy, p)
      else (case invalidateRemote database keys (r_hotKeyCache (px_router p)) of
              (n, c) \<Rightarrow> (Inr n, p\<lparr>px_router := (px_router p)\<lparr>r_hotKeyCache := c\<rparr>\<rparr>)))"

section \<open>What the dashboard sees\<close>

definition proxy_ok :: "ProxyServer \<Rightarrow> bool" where
  "proxy_ok p \<longleftrightarrow> router_ok (px_router p)"

text \<open>The proxy shows what the dashboard believes it was told.\<close>

definition shows_view :: "(int \<rightharpoonup> Slot) \<Rightarrow> Router \<Rightarrow> bool" where
  "shows_view v r \<longleftrightarrow> (\<forall>i x. v i = Some x \<longrightarrow> GetSlot i r = Some (shown (r_config r) x))"

definition told :: "Slot list \<Rightarrow> (int \<rightharpoonup> Slot) \<Rightarrow> int \<rightharpoonup> Slot" where
  "told ms v = foldl (\<lambda>v x. v(sl_Id x \<mapsto> x)) v ms"

lemma told_simps [simp]: "told [] v = v" "told (m # ms) v = told ms (v(sl_Id m \<mapsto> m))"
  by (simp_all add: told_def)

lemma told_applySlots: "t_views (applySlots token ms s) token = told ms (t_views s token)"
  by (simp add: applySlots_def told_def)

definition sendable :: "Slot \<Rightarrow> bool" where
  "sendable m \<longleftrightarrow> 0 \<le> sl_Id m \<and> sl_Id m < int MaxSlotNum \<and> sl_ForwardMethod m \<in> {ForwardSync, ForwardSemiAsync}"

lemma GetSlot_nth: "router_ok r \<Longrightarrow> GetSlot i r = (if i < 0 \<or> i \<ge> int MaxSlotNum then None else Some (GetSlots r ! nat i))"
  by (auto simp: GetSlot_def GetSlots_def router_length)

lemma fillAll_ok:
  assumes "router_ok r" "shows_view v r"
  shows "\<exists>e r1 k. fillAll ms r = Some (e, r1) \<and> router_ok r1 \<and> r_config r1 = r_config r \<and> k \<le> length ms \<and> (e = None \<longleftrightarrow> k = length ms) \<and>
    shows_view (told (take k ms) v) r1 \<and>
    (list_all sendable ms \<and> \<not> r_closed r \<longrightarrow> e = None)"
  using assms
proof (induction ms arbitrary: r v)
  case Nil
  then show ?case by simp
next
  case (Cons m ms)
  obtain e r1 where f: "FillSlot m r = Some (e, r1)" "router_ok r1" "r_config r1 = r_config r" "r_closed r1 = r_closed r" "e \<noteq> None \<longrightarrow> r1 = r"
    "e = None \<longleftrightarrow> \<not> r_closed r \<and> sendable m"
    "e = None \<longrightarrow> GetSlots r1 = (GetSlots r)[nat (sl_Id m) := shown (r_config r) m]"
    using FillSlot_ok [OF Cons.prems(1), of m] unfolding sendable_def by blast
  show ?case
  proof (cases e)
    case (Some x)
    with f Cons.prems show ?thesis by (auto intro!: exI [of _ 0])
  next
    case None
    have "shows_view (v(sl_Id m \<mapsto> m)) r1" unfolding shows_view_def
    proof (intro allI impI)
      fix i x assume x: "(v(sl_Id m \<mapsto> m)) i = Some x"
      show "GetSlot i r1 = Some (shown (r_config r1) x)"
      proof (cases "i = sl_Id m")
        case True
        have "nat (sl_Id m) < length (GetSlots r)" using f(6) None router_length [OF Cons.prems(1)] by (auto simp: GetSlots_def sendable_def)
        with True x f None show ?thesis by (simp add: GetSlot_nth [OF f(2)] sendable_def)
      next
        case False
        with x Cons.prems(2) have g: "GetSlot i r = Some (shown (r_config r) x)" by (simp add: shows_view_def)
        with False f None show ?thesis by (auto simp: GetSlot_nth [OF f(2)] GetSlot_nth [OF Cons.prems(1)] sendable_def split: if_splits)
      qed
    qed
    from Cons.IH [OF f(2) this] obtain e2 r2 k where n: "fillAll ms r1 = Some (e2, r2)" "router_ok r2" "r_config r2 = r_config r1" "k \<le> length ms"
      "e2 = None \<longleftrightarrow> k = length ms" "shows_view (told (take k ms) (v(sl_Id m \<mapsto> m))) r2"
      "list_all sendable ms \<and> \<not> r_closed r1 \<longrightarrow> e2 = None" by blast
    show ?thesis
      by (intro exI [of _ e2] exI [of _ r2] exI [of _ "Suc k"]) (use n f None in auto)
  qed
qed

section \<open>Runs\<close>

datatype proxy_op =
    OpStart | OpClose | OpFillSlot Slot | OpFillSlots "Slot list" | OpSwitchMasters "string \<Rightarrow> string" "int \<rightharpoonup> string"
  | OpSetSentinels "string list" | OpRewatchSentinels | OpSetACL "ACL option" | OpSetQPSLimit int "(int \<times> int) option"
  | OpResetStats | OpInvalidateHotKeyCache int "bytes list"

primrec do_proxy :: "proxy_op \<Rightarrow> ProxyServer \<Rightarrow> ProxyServer option" where
  "do_proxy OpStart p = Some (snd (Proxy_Start p))"
| "do_proxy OpClose p = Proxy_Close p"
| "do_proxy (OpFillSlot m) p = map_option snd (Proxy_FillSlot m p)"
| "do_proxy (OpFillSlots ms) p = map_option snd (Proxy_FillSlots ms p)"
| "do_proxy (OpSwitchMasters runid masters) p = map_option snd (Proxy_SwitchMasters runid masters p)"
| "do_proxy (OpSetSentinels servers) p = Some (snd (Proxy_SetSentinels servers p))"
| "do_proxy OpRewatchSentinels p = Some (snd (Proxy_RewatchSentinels p))"
| "do_proxy (OpSetACL acl) p = Some (snd (snd (Proxy_SetACL acl p)))"
| "do_proxy (OpSetQPSLimit now limit) p = Some (snd (Proxy_SetQPSLimit now limit p))"
| "do_proxy OpResetStats p = Some (Proxy_ResetStats p)"
| "do_proxy (OpInvalidateHotKeyCache database keys) p = Some (snd (InvalidateHotKeyCache database keys p))"

text \<open>The operations that leave the routing table as it is.\<close>

primrec keeps_slots :: "proxy_op \<Rightarrow> bool" where
  "keeps_slots OpStart = True"
| "keeps_slots OpClose = False"
| "keeps_slots (OpFillSlot m) = False"
| "keeps_slots (OpFillSlots ms) = False"
| "keeps_slots (OpSwitchMasters runid masters) = False"
| "keeps_slots (OpSetSentinels servers) = True"
| "keeps_slots OpRewatchSentinels = True"
| "keeps_slots (OpSetACL acl) = True"
| "keeps_slots (OpSetQPSLimit now limit) = True"
| "keeps_slots OpResetStats = True"
| "keeps_slots (OpInvalidateHotKeyCache database keys) = True"

lemma shows_view_cong:
  assumes v: "shows_view v r" and same: "GetSlots r1 = GetSlots r" "r_config r1 = r_config r" "router_ok r" "router_ok r1"
  shows "shows_view v r1"
proof -
  have "GetSlot i r1 = GetSlot i r" for i using same by (simp add: GetSlot_nth)
  with v same show ?thesis by (simp add: shows_view_def)
qed

lemma do_proxy_keeps:
  assumes "proxy_ok p" "keeps_slots x"
  shows "\<exists>p1. do_proxy x p = Some p1 \<and> proxy_ok p1 \<and> r_config (px_router p1) = r_config (px_router p) \<and> GetSlots (px_router p1) = GetSlots (px_router p)"
  using assms Router_SetACL_ok [of "px_router p"]
  by (cases x) (auto simp: proxy_ok_def Proxy_Start_def Router_Start_def Proxy_SetSentinels_def Proxy_RewatchSentinels_def rewatchSentinels_def Proxy_SetACL_def
      Proxy_SetQPSLimit_def Proxy_ResetStats_def InvalidateHotKeyCache_def Let_def split: option.splits prod.splits bool.splits)

lemma shows_nothing: "shows_view Map.empty r"
  by (simp add: shows_view_def)

lemma do_proxy_ok:
  assumes ok: "proxy_ok p"
  shows "\<exists>p1. do_proxy x p = Some p1 \<and> proxy_ok p1"
proof (cases "keeps_slots x")
  case False
  then show ?thesis
  proof (cases x)
    case OpClose
    with ok Router_Close_ok [of "px_router p"] show ?thesis by (auto simp: proxy_ok_def Proxy_Close_def)
  next
    case (OpFillSlot m)
    with ok FillSlot_ok [of "px_router p" m] show ?thesis by (auto simp: proxy_ok_def Proxy_FillSlot_def)
  next
    case (OpFillSlots ms)
    with ok fillAll_ok [OF _ shows_nothing, of "px_router p" ms] show ?thesis by (auto simp: proxy_ok_def Proxy_FillSlots_def)
  next
    case (OpSwitchMasters runid masters)
    with ok Router_SwitchMasters_ok [of "px_router p" runid masters] show ?thesis by (auto simp: proxy_ok_def Proxy_SwitchMasters_def Let_def)
  qed simp_all
qed (use do_proxy_keeps [OF ok] in blast)

lemma Proxy_New_ok: "Proxy_New clock config0 = Some (Inr p) \<Longrightarrow> proxy_ok p"
  using NewRouter_ok(1) validated_cases(2)
  by (fastforce simp: Proxy_New_def proxy_ok_def split: prod.splits option.splits if_splits)

lemma proxy_run_ok: "Proxy_New clock config0 = Some (Inr p0) \<Longrightarrow> \<exists>p. each do_proxy xs p0 = Some p \<and> proxy_ok p"
  by (rule each_inv) (use do_proxy_ok Proxy_New_ok in fastforce)+

lemma Proxy_FillSlots_ok:
  assumes "proxy_ok p" and "shows_view v (px_router p)"
  shows "\<exists>e p1 k. Proxy_FillSlots ms p = Some (e, p1) \<and> k \<le> length ms \<and> (e = None \<longrightarrow> k = length ms) \<and>
    shows_view (told (take k ms) v) (px_router p1) \<and> (Proxy_IsClosed p \<or> r_closed (px_router p) \<or> \<not> list_all sendable ms \<or> e = None)"
proof (cases "px_closed p")
  case True
  with assms show ?thesis by (auto simp: Proxy_FillSlots_def Proxy_IsClosed_def intro!: exI [of _ 0])
next
  case False
  from fillAll_ok [OF _ assms(2), of ms] assms(1) obtain e r1 k where f: "fillAll ms (px_router p) = Some (e, r1)" "router_ok r1" "k \<le> length ms"
    "e = None \<longleftrightarrow> k = length ms" "shows_view (told (take k ms) v) r1" "list_all sendable ms \<and> \<not> r_closed (px_router p) \<longrightarrow> e = None"
    by (auto simp: proxy_ok_def)
  show ?thesis
    by (intro exI [of _ "map_option ErrRouter e"] exI [of _ "p\<lparr>px_router := r1\<rparr>"] exI [of _ k]) (use False f in \<open>auto simp: Proxy_FillSlots_def\<close>)
qed

text \<open>
  C11. A proxy that shows what the dashboard believes it was told goes on to do so: it takes over the slots it
  is sent one by one up to the first it refuses, which is what the dashboard's record of the call says, also when the
  call fails half-way; none of the other calls the dashboard makes, on the access list, the limit, the sentinels or the cache,
  changes the routing table.  An open proxy refuses no slot the dashboard can send, and no call makes the proxy panic.
\<close>

theorem proxy_implements_view:
  assumes "Proxy_New clock config0 = Some (Inr p0)"
  shows "\<exists>p. each do_proxy xs p0 = Some p \<and>
    (shows_view (t_views s token) (px_router p) \<longrightarrow>
      (\<exists>e p1 k. Proxy_FillSlots ms p = Some (e, p1) \<and> k \<le> length ms \<and> (e = None \<longrightarrow> k = length ms) \<and>
         shows_view (t_views (applySlots token (take k ms) s) token) (px_router p1) \<and>
         (Proxy_IsClosed p \<or> r_closed (px_router p) \<or> \<not> list_all sendable ms \<or> e = None)) \<and>
      (\<forall>x. keeps_slots x \<longrightarrow> (\<exists>p1. do_proxy x p = Some p1 \<and> shows_view (t_views s token) (px_router p1))))"
proof -
  obtain p where p: "each do_proxy xs p0 = Some p" "proxy_ok p" using proxy_run_ok [OF assms] by blast
  have "\<exists>p1. do_proxy x p = Some p1 \<and> shows_view v (px_router p1)" if "shows_view v (px_router p)" "keeps_slots x" for v x
    using do_proxy_keeps [OF p(2) that(2)] shows_view_cong [OF that(1)] p(2) by (auto simp: proxy_ok_def)
  with p(1) Proxy_FillSlots_ok [OF p(2)] show ?thesis by (auto simp: told_applySlots)
qed

lemma demo_proxy: "\<exists>p. Proxy_New 1 config_demo = Some (Inr p)"
proof -
  have "ValidateProduct (cf_ProductName config_demo)" "0 \<le> cf_ProxyQPSLimit config_demo"
    by (simp_all add: ValidateProduct_def word_char_def config_demo_def)
  with NewRouter_some [of config_demo 1] show ?thesis by (auto simp: Proxy_New_def demo_valid)
qed

theorem proxy_implements_view_witness:
  "\<exists>p0 p. Proxy_New 1 config_demo = Some (Inr p0) \<and>
    each do_proxy [OpStart, OpFillSlots [(offline 5)\<lparr>sl_BackendAddr := ''10.0.0.1:6379''\<rparr>], OpResetStats] p0 = Some p"
proof -
  obtain p0 where "Proxy_New 1 config_demo = Some (Inr p0)" using demo_proxy by blast
  with proxy_implements_view [OF this, of "[OpStart, OpFillSlots [(offline 5)\<lparr>sl_BackendAddr := ''10.0.0.1:6379''\<rparr>], OpResetStats]"]
  show ?thesis by blast
qed

end
