(* ===== verification/HotKeys.thy ===== *)
theory HotKeys
  imports Forward
begin

text \<open>
  What a proxy does with a request beside forwarding it: the hot key handlers of \<open>src/pkg/proxy/hot_key_cache.go\<close>
  (tokens, lookups, the plans that invalidate written keys) and \<open>handleRequestStream\<close> of \<open>src/pkg/proxy/stream_commands.go\<close>.
  A handler returns what it leaves to be done when the answers are there: the requests that were sent and how their answers
  are put together, the function \<open>Coalesce\<close> of the source.
\<close>

section \<open>Requests in the hands of the proxy\<close>

text \<open>A handler hangs when a forward loop does not end within the attempts given; \<open>None\<close> around it is a panic.\<close>

datatype 'a outcome = Hanging | Error string | Value 'a

definition errText :: "forward_error \<Rightarrow> string" where
  "errText e =
     (case e of
        ErrSlotIsNotReady \<Rightarrow> ''slot is not ready, may be offline''
      | ErrRespIsRequired \<Rightarrow> ''resp is required''
      | ErrBadSlotId \<Rightarrow> ''use of invalid slot id''
      | ErrRequestIsBroken \<Rightarrow> ''request is broken''
      | ErrConn m \<Rightarrow> m
      | ErrBadResp m \<Rightarrow> m)"

text \<open>
  What is outside while a request is handled: the clock, which stands still meanwhile, the answers to the calls of the
  proxy, the attempts of every dispatch, the addresses of the sub-requests, the Unicode tables of Go, the answer to
  \<open>CLUSTER\<close>, and the reply that has arrived when the handler looks at the request again, if it has.
\<close>

record env =
  e_now :: int
  e_call :: call
  e_attempts :: "nat \<Rightarrow> (call \<times> bool) list"
  e_ptr :: "nat \<Rightarrow> nat"
  e_upper :: "bytes \<Rightarrow> bytes"
  e_lower :: "bytes \<Rightarrow> bytes"
  e_quote :: "bytes \<Rightarrow> bytes"
  e_cluster :: "Request \<Rightarrow> string + Resp"
  e_early :: "Resp option"

text \<open>The router, and what it has called, sent and announced so far.\<close>

record gate =
  g_router :: Router
  g_calls :: calls
  g_pushed :: calls
  g_events :: "(int \<times> bytes list) list"

datatype sent = Sent nat "Resp list" | Got Resp

definition send :: "(calls \<times> forwarded option \<times> Router) option \<Rightarrow> Request \<Rightarrow> gate \<Rightarrow> (sent outcome \<times> gate) option" where
  "send d q g =
     map_option (\<lambda>(trace, res, r).
       let g1 = g\<lparr>g_router := r, g_calls := g_calls g @ trace\<rparr>
       in case res of
            None \<Rightarrow> (Hanging, g1)
          | Some Retry \<Rightarrow> (Hanging, g1)
          | Some (Failed e) \<Rightarrow> (Error (errText e), g1)
          | Some (Answered x) \<Rightarrow> (Value (Got x), g1)
          | Some (Push c) \<Rightarrow> (Value (Sent c (rq_Multi q)), g1\<lparr>g_pushed := g_pushed g1 @ [(c, rq_Multi q)]\<rparr>)) d"

definition sendKey :: "('e) env_scheme \<Rightarrow> nat \<Rightarrow> Request \<Rightarrow> gate \<Rightarrow> (sent outcome \<times> gate) option" where
  "sendKey e k q g = send (dispatch (e_attempts e k) q (g_router g)) q g"

text \<open>The loop that dispatches the sub-requests and stops at the first error.\<close>

fun sendAll :: "('e) env_scheme \<Rightarrow> nat \<Rightarrow> Request list \<Rightarrow> gate \<Rightarrow> (sent list outcome \<times> gate) option" where
  "sendAll e k [] g = Some (Value [], g)"
| "sendAll e k (q # qs) g =
     Option.bind (sendKey e k q g) (\<lambda>(x, g1).
       case x of
         Hanging \<Rightarrow> Some (Hanging, g1)
       | Error m \<Rightarrow> Some (Error m, g1)
       | Value s \<Rightarrow>
           Option.bind (sendAll e (Suc k) qs g1) (\<lambda>(y, g2).
             Some (case y of Hanging \<Rightarrow> Hanging | Error m \<Rightarrow> Error m | Value ss \<Rightarrow> Value (s # ss), g2)))"

text \<open>A dry run of the access list: an error, a refusal to hand to the client, or permission.\<close>

definition dryRun :: "(calls \<times> (forward_error + Resp option)) option \<Rightarrow> gate \<Rightarrow> ((string + Resp option) \<times> gate) option" where
  "dryRun d g =
     map_option (\<lambda>(trace, res). (case res of Inl e \<Rightarrow> Inl (errText e) | Inr x \<Rightarrow> Inr x, g\<lparr>g_calls := g_calls g @ trace\<rparr>)) d"

section \<open>The cache of a router\<close>

record hotKeyCacheToken =
  tk_ok :: bool
  tk_database :: int
  tk_key :: bytes
  tk_slot :: nat
  tk_slotVersion :: int
  tk_cacheVersion :: int

definition no_token :: hotKeyCacheToken where
  "no_token = \<lparr>tk_ok = False, tk_database = 0, tk_key = [], tk_slot = 0, tk_slotVersion = 0, tk_cacheVersion = 0\<rparr>"

definition hotKeyCacheEnabled :: "Router \<Rightarrow> bool" where
  "hotKeyCacheEnabled r \<longleftrightarrow> Enabled (r_hotKeyCache r)"

text \<open>The write lock of a slot is held while its flag is set.\<close>

definition hotKeyCacheSlotStable :: "nat \<Rightarrow> Router \<Rightarrow> bool" where
  "hotKeyCacheSlotStable i r \<longleftrightarrow>
     i < MaxSlotNum \<and> \<not> rs_hold (r_slots r ! i) \<and> rs_backend_bc (r_slots r ! i) \<noteq> None \<and> rs_migrate_bc (r_slots r ! i) = None"

definition hotKeyCacheToken_of :: "int \<Rightarrow> bytes \<Rightarrow> Router \<Rightarrow> hotKeyCacheToken" where
  "hotKeyCacheToken_of database key r =
     (if \<not> hotKeyCacheEnabled r \<or> \<not> isConfigured (r_hotKeyCache r) key then no_token
      else
        let slot = unat (Hash key) mod MaxSlotNum
        in if \<not> hotKeyCacheSlotStable slot r then no_token
           else \<lparr>tk_ok = True, tk_database = database, tk_key = key, tk_slot = slot,
                 tk_slotVersion = r_slotVersions r ! slot, tk_cacheVersion = hc_version (r_hotKeyCache r)\<rparr>)"

definition hotKeyCacheLookup :: "int \<Rightarrow> int \<Rightarrow> bytes \<Rightarrow> Router \<Rightarrow> Resp option \<times> Router" where
  "hotKeyCacheLookup now database key r =
     (if \<not> tk_ok (hotKeyCacheToken_of database key r) then (None, r)
      else (case cache_get (database, key) now (r_hotKeyCache r) of
              (v, c) \<Rightarrow> (map_option (\<lambda>b. NewBulkBytes (Some b)) v, r\<lparr>r_hotKeyCache := c\<rparr>)))"

definition hotKeyCacheStore :: "int \<Rightarrow> hotKeyCacheToken \<Rightarrow> Resp option \<Rightarrow> Router \<Rightarrow> Router" where
  "hotKeyCacheStore now token resp r =
     (case resp of
        None \<Rightarrow> r
      | Some x \<Rightarrow>
          if \<not> tk_ok token \<or> \<not> IsBulkBytes x \<or> Resp_Value x = None then r
          else if r_slotVersions r ! tk_slot token \<noteq> tk_slotVersion token \<or> hc_version (r_hotKeyCache r) \<noteq> tk_cacheVersion token \<or>
                  \<not> hotKeyCacheSlotStable (tk_slot token) r then r
          else r\<lparr>r_hotKeyCache := cache_store (tk_database token, tk_key token) (int (tk_slot token)) (Resp_Value x) now (r_hotKeyCache r)\<rparr>)"

section \<open>Plans\<close>

text \<open>\<open>pl_router\<close> tells whether the plan has a router, which the empty plan has not.\<close>

record hotKeyCacheInvalidationPlan =
  pl_router :: bool
  pl_database :: int
  pl_clearDB :: bool
  pl_keys :: "bytes list"

definition no_plan :: hotKeyCacheInvalidationPlan where
  "no_plan = \<lparr>pl_router = False, pl_database = 0, pl_clearDB = False, pl_keys = []\<rparr>"

definition plan_active :: "hotKeyCacheInvalidationPlan \<Rightarrow> bool" where
  "plan_active p \<longleftrightarrow> pl_router p \<and> (pl_clearDB p \<or> pl_keys p \<noteq> [])"

fun dedup :: "(bytes \<Rightarrow> bool) \<Rightarrow> bytes list \<Rightarrow> bytes list \<Rightarrow> bytes list" where
  "dedup ok seen [] = []"
| "dedup ok seen (k # ks) = (if k \<in> set seen \<or> \<not> ok k then dedup ok seen ks else k # dedup ok (k # seen) ks)"

definition broadcastKeys :: "hotKeyCacheInvalidationPlan \<Rightarrow> Router \<Rightarrow> bytes list" where
  "broadcastKeys p r = (if \<not> plan_active p \<or> pl_clearDB p then [] else dedup (isConfigured (r_hotKeyCache r)) [] (pl_keys p))"

definition HotKeyCacheBroadcastMaxKeys :: nat where
  "HotKeyCacheBroadcastMaxKeys = 1024"

text \<open>
  The keys that are handed to the reporter, in portions.  Whether the reporter is enabled is also the first thing \<open>Enqueue\<close> asks,
  so a portion that is handed over while it is not is the same as one that is kept back.
\<close>

definition hotKeyCacheBroadcastKeys :: "int \<Rightarrow> bytes list \<Rightarrow> (int \<times> bytes list) list" where
  "hotKeyCacheBroadcastKeys database keys = map (Pair database) (chunks HotKeyCacheBroadcastMaxKeys keys)"

definition plan_apply :: "hotKeyCacheInvalidationPlan \<Rightarrow> Resp option \<Rightarrow> gate \<Rightarrow> gate" where
  "plan_apply p resp g =
     (let r = g_router g; c = r_hotKeyCache r
      in if \<not> plan_active p then g
         else if pl_clearDB p then g\<lparr>g_router := r\<lparr>r_hotKeyCache := invalidateDatabase (pl_database p) c\<rparr>\<rparr>
         else
           let keys = (case resp of Some x \<Rightarrow> if IsError x then [] else broadcastKeys p r | None \<Rightarrow> [])
           in g\<lparr>g_router := r\<lparr>r_hotKeyCache := foldl (\<lambda>c key. invalidateKey (pl_database p) key c) c (pl_keys p)\<rparr>,
                g_events := g_events g @ hotKeyCacheBroadcastKeys (pl_database p) keys\<rparr>)"

fun msetKeys :: "Resp list \<Rightarrow> bytes list" where
  "msetKeys (k # v # xs) = Value_of k # msetKeys xs"
| "msetKeys xs = []"

definition mayWriteOnly :: "OpFlag \<Rightarrow> bool" where
  "mayWriteOnly f \<longleftrightarrow> f AND FlagMayWrite \<noteq> 0 \<and> f AND FlagWrite = 0"

definition hotKeyCacheInvalidationPlanForRequest :: "Request \<Rightarrow> Router \<Rightarrow> hotKeyCacheInvalidationPlan" where
  "hotKeyCacheInvalidationPlanForRequest q r =
     (if \<not> hotKeyCacheEnabled r \<or> IsReadOnly (rq_OpFlag q) then no_plan
      else
        let plan = no_plan\<lparr>pl_router := True, pl_database := rq_Database q\<rparr>
        in if rq_OpStr q \<in> {''GET'', ''MGET''} then no_plan
           else if rq_OpStr q \<in> {''EVAL'', ''EVALSHA''} then plan\<lparr>pl_clearDB := True\<rparr>
           else if rq_OpStr q = ''MSET'' then plan\<lparr>pl_keys := msetKeys (drop 1 (rq_Multi q))\<rparr>
           else if rq_OpStr q = ''DEL'' then plan\<lparr>pl_keys := map Value_of (drop 1 (rq_Multi q))\<rparr>
           else if mayWriteOnly (rq_OpFlag q) then plan\<lparr>pl_clearDB := True\<rparr>
           else if length (rq_Multi q) > 1 then plan\<lparr>pl_keys := [Value_of (rq_Multi q ! 1)]\<rparr>
           else plan)"

definition hotKeyCacheInvalidationPlanForKeys :: "Request \<Rightarrow> bytes list \<Rightarrow> Router \<Rightarrow> hotKeyCacheInvalidationPlan" where
  "hotKeyCacheInvalidationPlanForKeys q keys r =
     (if \<not> hotKeyCacheEnabled r \<or> IsReadOnly (rq_OpFlag q) then no_plan
      else
        let plan = no_plan\<lparr>pl_router := True, pl_database := rq_Database q\<rparr>
        in if mayWriteOnly (rq_OpFlag q) then plan\<lparr>pl_clearDB := True\<rparr> else plan\<lparr>pl_keys := keys\<rparr>)"

section \<open>Handlers\<close>

text \<open>
  How the answers are put together.  \<open>Plain\<close> is a request without \<open>Coalesce\<close>; \<open>MGetCache\<close> has the places and tokens of the keys
  that were not in the cache, and the values of the others.
\<close>

datatype coalesce =
    Plain
  | CoGet hotKeyCacheToken
  | CoMGet
  | CoMSet
  | CoDel
  | CoExists
  | CoMGetCache "(nat \<times> hotKeyCacheToken) list" "Resp option list"
  | CoPlan coalesce hotKeyCacheInvalidationPlan

record handled =
  hd_req :: Request
  hd_resp :: "Resp option"
  hd_sent :: "sent list"
  hd_co :: coalesce
  hd_skip :: bool

definition answer :: "Request \<Rightarrow> Resp \<Rightarrow> handled" where
  "answer q x = \<lparr>hd_req = q, hd_resp = Some x, hd_sent = [], hd_co = Plain, hd_skip = False\<rparr>"

text \<open>The request itself was sent, or answered on the way.\<close>

definition direct :: "Request \<Rightarrow> sent \<Rightarrow> handled" where
  "direct q s = \<lparr>hd_req = q, hd_resp = (case s of Got x \<Rightarrow> Some x | Sent c m \<Rightarrow> None), hd_sent = [s], hd_co = Plain, hd_skip = False\<rparr>"

definition divided :: "Request \<Rightarrow> coalesce \<Rightarrow> sent list \<Rightarrow> handled" where
  "divided q co ss = \<lparr>hd_req = q, hd_resp = None, hd_sent = ss, hd_co = co, hd_skip = False\<rparr>"

primrec mapOutcome :: "('a \<Rightarrow> 'b) \<Rightarrow> 'a outcome \<Rightarrow> 'b outcome" where
  "mapOutcome f Hanging = Hanging"
| "mapOutcome f (Error m) = Error m"
| "mapOutcome f (Value x) = Value (f x)"

type_synonym handler = "Request \<Rightarrow> gate \<Rightarrow> (handled outcome \<times> gate) option"

definition forwardOne :: "('e) env_scheme \<Rightarrow> handler" where
  "forwardOne e q g = map_option (map_prod (mapOutcome (direct q)) id) (sendKey e 0 q g)"

text \<open>What the code sees in the request when it looks at it after the dispatch: the reply may have come in already.\<close>

definition respSeen :: "('e) env_scheme \<Rightarrow> handled \<Rightarrow> Resp option" where
  "respSeen e h = (case hd_sent h of [Sent c m] \<Rightarrow> e_early e | _ \<Rightarrow> hd_resp h)"

definition withPlan :: "('e) env_scheme \<Rightarrow> hotKeyCacheInvalidationPlan \<Rightarrow> handled \<Rightarrow> handled" where
  "withPlan e p h =
     (if \<not> plan_active p \<or> respSeen e h \<noteq> None \<and> hd_co h = Plain then h else h\<lparr>hd_co := CoPlan (hd_co h) p\<rparr>)"

definition handleRequestWithHotKeyCacheInvalidationPlan :: "('e) env_scheme \<Rightarrow> hotKeyCacheInvalidationPlan \<Rightarrow> handler \<Rightarrow> handler" where
  "handleRequestWithHotKeyCacheInvalidationPlan e p f q g = map_option (map_prod (mapOutcome (withPlan e p)) id) (f q g)"

definition handleRequestWithHotKeyCacheInvalidation :: "('e) env_scheme \<Rightarrow> handler \<Rightarrow> handler" where
  "handleRequestWithHotKeyCacheInvalidation e f q g =
     handleRequestWithHotKeyCacheInvalidationPlan e (hotKeyCacheInvalidationPlanForRequest q (g_router g)) f q g"

definition handleRequestWithHotKeyCacheInvalidationKeys :: "('e) env_scheme \<Rightarrow> bytes list \<Rightarrow> handler \<Rightarrow> handler" where
  "handleRequestWithHotKeyCacheInvalidationKeys e keys f q g =
     handleRequestWithHotKeyCacheInvalidationPlan e (hotKeyCacheInvalidationPlanForKeys q keys (g_router g)) f q g"

definition handleRequestStream :: "('e) env_scheme \<Rightarrow> handler" where
  "handleRequestStream e q g =
     (case resolveStreamRoute (rq_Multi q) (rq_OpStr q) of
        Inl resp \<Rightarrow> Some (Value (answer q resp), g)
      | Inr route \<Rightarrow>
          handleRequestWithHotKeyCacheInvalidationKeys e (sr_keys route)
            (\<lambda>q g. map_option (map_prod (mapOutcome (direct q)) id)
               (send (dispatchByHashKey (e_attempts e 0) q (sr_hashKey route) (g_router g)) q g)) q g)"

definition handleRequestGet :: "('e) env_scheme \<Rightarrow> handler" where
  "handleRequestGet e q g =
     (if length (rq_Multi q) \<noteq> 2 \<or> \<not> hotKeyCacheEnabled (g_router g) then forwardOne e q g
      else
        let key = Value_of (rq_Multi q ! 1); (hit, r) = hotKeyCacheLookup (e_now e) (rq_Database q) key (g_router g); g1 = g\<lparr>g_router := r\<rparr>
        in (case hit of
              Some x \<Rightarrow>
                map_option (\<lambda>(res, g2).
                  (case res of Inl m \<Rightarrow> Error m | Inr (Some refusal) \<Rightarrow> Value (answer q refusal) | Inr None \<Rightarrow> Value (answer q x), g2))
                  (dryRun (aclDryRunKey (e_call e) q key r) g1)
            | None \<Rightarrow>
                let token = hotKeyCacheToken_of (rq_Database q) key r
                in map_option (map_prod (mapOutcome (\<lambda>h. if tk_ok token then h\<lparr>hd_co := CoGet token\<rparr> else h)) id) (forwardOne e q g1)))"

end
