(* ===== verification/Stats.thy ===== *)
theory Stats
  imports GoStrings Resp
begin

text \<open>
  The counters of commands: those of a session, in \<open>src/pkg/proxy/session.go\<close>, and those of the process they are added to from
  time to time, in \<open>src/pkg/proxy/stats.go\<close>.  The rate measured in the background and the usage of the host are left out.
\<close>

section \<open>Counters of the process\<close>

record opStats =
  os_calls :: int
  os_nsecs :: int
  os_fails :: int
  os_errors :: int

definition no_stats :: opStats where
  "no_stats = \<lparr>os_calls = 0, os_nsecs = 0, os_fails = 0, os_errors = 0\<rparr>"

record cmdstats =
  cs_opmap :: "(string \<times> opStats) list"
  cs_total :: int
  cs_fails :: int
  cs_errors :: int
  cs_sessions :: int

record OpStats =
  oo_OpStr :: string
  oo_Calls :: int
  oo_Usecs :: int
  oo_UsecsPercall :: int
  oo_Fails :: int
  oo_RedisErrType :: int

text \<open>Go divides towards zero.\<close>

definition OpStats_of :: "string \<Rightarrow> opStats \<Rightarrow> OpStats" where
  "OpStats_of opstr s =
     (let usecs = sgn (os_nsecs s) * (\<bar>os_nsecs s\<bar> div 1000)
      in \<lparr>oo_OpStr = opstr, oo_Calls = os_calls s, oo_Usecs = usecs,
          oo_UsecsPercall = (if os_calls s \<noteq> 0 then sgn (usecs * os_calls s) * (\<bar>usecs\<bar> div \<bar>os_calls s\<bar>) else 0),
          oo_Fails = os_fails s, oo_RedisErrType = os_errors s\<rparr>)"

definition getOpStats :: "string \<Rightarrow> (string \<times> opStats) list \<Rightarrow> opStats" where
  "getOpStats opstr m = (case map_of m opstr of Some s \<Rightarrow> s | None \<Rightarrow> no_stats)"

definition GetOpStatsAll :: "cmdstats \<Rightarrow> OpStats list" where
  "GetOpStatsAll cs = sort_key oo_OpStr (map (\<lambda>(opstr, s). OpStats_of opstr s) (cs_opmap cs))"

definition ResetCmdStats :: "int \<Rightarrow> cmdstats \<Rightarrow> cmdstats" where
  "ResetCmdStats alive cs = \<lparr>cs_opmap = [], cs_total = 0, cs_fails = 0, cs_errors = 0, cs_sessions = alive\<rparr>"

definition addStats :: "opStats \<Rightarrow> opStats \<Rightarrow> opStats" where
  "addStats a b =
     \<lparr>os_calls = os_calls a + os_calls b, os_nsecs = os_nsecs a + os_nsecs b, os_fails = os_fails a + os_fails b,
      os_errors = os_errors a + os_errors b\<rparr>"

text \<open>The counters of a session for one command are added to those of the process; the session's become zero.\<close>

definition incrCmdStats :: "string \<Rightarrow> opStats \<Rightarrow> cmdstats \<Rightarrow> cmdstats" where
  "incrCmdStats opstr e cs =
     cs\<lparr>cs_opmap := AList.update opstr (addStats (getOpStats opstr (cs_opmap cs)) e) (cs_opmap cs),
        cs_fails := cs_fails cs + os_fails e, cs_errors := cs_errors cs + os_errors e\<rparr>"

section \<open>Counters of a session\<close>

record sessionStats =
  ss_opmap :: "(string \<times> opStats) list"
  ss_total :: int
  ss_fails :: int
  ss_flushes :: nat
  ss_flushed :: int

definition new_stats :: sessionStats where
  "new_stats = \<lparr>ss_opmap = [], ss_total = 0, ss_fails = 0, ss_flushes = 0, ss_flushed = 0\<rparr>"

definition updOpStats :: "string \<Rightarrow> (opStats \<Rightarrow> opStats) \<Rightarrow> sessionStats \<Rightarrow> sessionStats" where
  "updOpStats opstr f s = s\<lparr>ss_opmap := AList.update opstr (f (getOpStats opstr (ss_opmap s))) (ss_opmap s)\<rparr>"

definition incrOpTotal :: "sessionStats \<Rightarrow> sessionStats" where
  "incrOpTotal s = s\<lparr>ss_total := ss_total s + 1\<rparr>"

definition incrOpStats :: "string \<Rightarrow> int \<Rightarrow> bool \<Rightarrow> sessionStats \<Rightarrow> sessionStats" where
  "incrOpStats opstr nsecs redisError =
     updOpStats opstr (\<lambda>e. e\<lparr>os_calls := os_calls e + 1, os_nsecs := os_nsecs e + nsecs,
                             os_errors := os_errors e + (if redisError then 1 else 0)\<rparr>)"

text \<open>\<open>incrOpFails\<close>, with a request or without one.\<close>

definition incrOpFails :: "string option \<Rightarrow> sessionStats \<Rightarrow> sessionStats" where
  "incrOpFails q s =
     (case q of
        Some opstr \<Rightarrow> updOpStats opstr (\<lambda>e. e\<lparr>os_fails := os_fails e + 1\<rparr>) s
      | None \<Rightarrow> s\<lparr>ss_fails := ss_fails s + 1\<rparr>)"

text \<open>The loop over the commands of the session; an entry without calls and failures stays as it is.\<close>

fun flushOps :: "(string \<times> opStats) list \<Rightarrow> cmdstats \<Rightarrow> (string \<times> opStats) list \<times> cmdstats" where
  "flushOps [] cs = ([], cs)"
| "flushOps ((opstr, e) # m) cs =
     (if os_calls e \<noteq> 0 \<or> os_fails e \<noteq> 0
      then (case flushOps m (incrCmdStats opstr e cs) of (m1, cs1) \<Rightarrow> ((opstr, no_stats) # m1, cs1))
      else (case flushOps m cs of (m1, cs1) \<Rightarrow> ((opstr, e) # m1, cs1)))"

definition flushOpStats :: "bool \<Rightarrow> int \<Rightarrow> sessionStats \<Rightarrow> cmdstats \<Rightarrow> sessionStats \<times> cmdstats" where
  "flushOpStats force nano s cs =
     (if \<not> force \<and> nano - ss_flushed s < 100000000 then (s, cs)
      else
        (case flushOps (ss_opmap s) (cs\<lparr>cs_total := cs_total cs + ss_total s, cs_fails := cs_fails cs + ss_fails s\<rparr>) of
           (m, cs1) \<Rightarrow>
             (s\<lparr>ss_flushed := nano, ss_total := 0, ss_fails := 0, ss_flushes := ss_flushes s + 1,
                ss_opmap := (if length m > 32 \<and> (ss_flushes s + 1) mod 16384 = 0 then [] else m)\<rparr>, cs1)))"

section \<open>Nothing is lost\<close>

lemma getOpStats_update: "getOpStats a (AList.update b e m) = (if a = b then e else getOpStats a m)"
  by (simp add: getOpStats_def update_conv')

lemma addStats_zero [simp]: "addStats no_stats e = e" "addStats e no_stats = e"
  by (simp_all add: addStats_def no_stats_def)

lemma addStats_assoc: "addStats (addStats a b) c = addStats a (addStats b c)"
  by (simp add: addStats_def)

lemma getOpStats_absent: "a \<notin> fst ` set m \<Longrightarrow> getOpStats a m = no_stats"
  by (simp add: getOpStats_def map_of_eq_None_iff [THEN iffD2])

lemma getOpStats_Cons: "getOpStats a ((b, e) # m) = (if a = b then e else getOpStats a m)"
  by (simp add: getOpStats_def)

definition stats_ok :: "(string \<times> opStats) list \<Rightarrow> bool" where
  "stats_ok m \<longleftrightarrow> distinct (map fst m) \<and> (\<forall>(a, e) \<in> set m. os_calls e = 0 \<and> os_fails e = 0 \<longrightarrow> e = no_stats)"

lemma flushOps_all:
  assumes "flushOps m cs = (m1, cs1)" "stats_ok m"
  shows "map fst m1 = map fst m \<and> stats_ok m1 \<and> (\<forall>(a, e) \<in> set m1. e = no_stats) \<and>
    getOpStats a (cs_opmap cs1) = addStats (getOpStats a (cs_opmap cs)) (getOpStats a m) \<and>
    cs_total cs1 = cs_total cs \<and> cs_sessions cs1 = cs_sessions cs \<and>
    cs_fails cs1 = cs_fails cs + sum_list (map (\<lambda>x. os_fails (snd x)) m) \<and> cs_errors cs1 = cs_errors cs + sum_list (map (\<lambda>x. os_errors (snd x)) m)"
  using assms
proof (induction m arbitrary: cs m1 cs1)
  case (Cons x m)
  obtain b e where x: "x = (b, e)" by fastforce
  define ds where "ds = (if os_calls e \<noteq> 0 \<or> os_fails e \<noteq> 0 then incrCmdStats b e cs else cs)"
  have ok: "stats_ok m" "b \<notin> fst ` set m" "e = no_stats \<or> os_calls e \<noteq> 0 \<or> os_fails e \<noteq> 0"
    using Cons.prems(2) by (auto simp: stats_ok_def x)
  obtain m2 where m2: "flushOps m ds = (m2, cs1)" "m1 = (b, no_stats) # m2"
    using Cons.prems(1) ok(3) by (auto simp: x ds_def no_stats_def split: if_splits prod.splits)
  note IH = Cons.IH [OF m2(1) ok(1)]
  have "stats_ok m1" using IH m2(2) ok(2) by (auto simp: stats_ok_def simp flip: set_map)
  moreover have "getOpStats a (cs_opmap cs1) = addStats (getOpStats a (cs_opmap cs)) (getOpStats a (x # m))"
    using IH ok(2,3) getOpStats_absent [OF ok(2)]
    by (auto simp: x ds_def incrCmdStats_def getOpStats_update getOpStats_Cons)
  moreover have "cs_fails cs1 = cs_fails cs + sum_list (map (\<lambda>x. os_fails (snd x)) (x # m))"
    "cs_errors cs1 = cs_errors cs + sum_list (map (\<lambda>x. os_errors (snd x)) (x # m))"
    using IH ok(3) by (auto simp: x ds_def incrCmdStats_def no_stats_def)
  moreover have "cs_total ds = cs_total cs" "cs_sessions ds = cs_sessions cs" by (simp_all add: ds_def incrCmdStats_def)
  ultimately show ?case using IH m2(2) by (simp add: x)
qed (auto simp: getOpStats_def stats_ok_def)

lemma flushOps_ok:
  assumes "flushOps m cs = (m1, cs1)" "stats_ok m"
  shows "stats_ok m1" "getOpStats a m1 = no_stats"
    "getOpStats a (cs_opmap cs1) = addStats (getOpStats a (cs_opmap cs)) (getOpStats a m)" "cs_total cs1 = cs_total cs"
proof -
  show "getOpStats a m1 = no_stats"
    using flushOps_all [OF assms] by (auto simp: getOpStats_def split: option.splits dest: map_of_SomeD)
qed (use flushOps_all [OF assms] in blast)+

lemma flush_conserves:
  assumes "stats_ok (ss_opmap s)" "flushOpStats force nano s cs = (s1, cs1)"
  shows "stats_ok (ss_opmap s1)"
    "addStats (getOpStats a (cs_opmap cs1)) (getOpStats a (ss_opmap s1)) = addStats (getOpStats a (cs_opmap cs)) (getOpStats a (ss_opmap s))"
    "cs_total cs1 + ss_total s1 = cs_total cs + ss_total s"
proof -
  define cs0 where "cs0 = cs\<lparr>cs_total := cs_total cs + ss_total s, cs_fails := cs_fails cs + ss_fails s\<rparr>"
  obtain m cs2 where m: "flushOps (ss_opmap s) cs0 = (m, cs2)" by fastforce
  note ok = flushOps_ok [OF m assms(1)]
  have "s1 = s \<and> cs1 = cs \<or> cs1 = cs2 \<and> ss_total s1 = 0 \<and> (ss_opmap s1 = m \<or> ss_opmap s1 = [])"
    using assms(2) m by (auto simp: flushOpStats_def cs0_def split: if_splits)
  then show "stats_ok (ss_opmap s1)"
    "addStats (getOpStats a (cs_opmap cs1)) (getOpStats a (ss_opmap s1)) = addStats (getOpStats a (cs_opmap cs)) (getOpStats a (ss_opmap s))"
    "cs_total cs1 + ss_total s1 = cs_total cs + ss_total s"
    using assms(1) ok by (auto simp: cs0_def stats_ok_def getOpStats_def [of a "[]"])
qed

end
