(* ===== verification/Session.thy ===== *)
theory Session
  imports HotKeys Stats
begin

text \<open>
  The sessions of the clients: \<open>Session\<close> and its handlers of \<open>src/pkg/proxy/session.go\<close>, authorization of \<open>src/pkg/proxy/session_auth.go\<close>
  and the list of clients of \<open>src/pkg/proxy/client_list.go\<close>.  A handler works on the session, the guard against guessed
  passwords and the router; the sockets and the flushing of replies are left out.
\<close>

section \<open>Sessions\<close>

record Session =
  se_Id :: int
  se_remote :: string
  se_local :: string
  se_CreateUnix :: int
  se_Ops :: int
  se_LastOpUnix :: int
  se_lastOpStr :: string
  se_database :: int
  se_quit :: bool
  se_broken :: bool
  se_authorized :: bool
  se_aclIdentity :: "SessionACLIdentity option"
  se_stats :: sessionStats

definition NewSession :: "int \<Rightarrow> string \<Rightarrow> string \<Rightarrow> int \<Rightarrow> Session" where
  "NewSession sid remote loc now =
     \<lparr>se_Id = sid, se_remote = remote, se_local = loc, se_CreateUnix = now div 1000000000, se_Ops = 0, se_LastOpUnix = 0, se_lastOpStr = [],
      se_database = 0, se_quit = False, se_broken = False, se_authorized = False, se_aclIdentity = None, se_stats = new_stats\<rparr>"

definition setACLIdentity :: "SessionACLIdentity \<Rightarrow> Session \<Rightarrow> Session" where
  "setACLIdentity i s = s\<lparr>se_aclIdentity := Some i\<rparr>"

definition clearACLIdentity :: "Session \<Rightarrow> Session" where
  "clearACLIdentity s = s\<lparr>se_aclIdentity := None\<rparr>"

definition clearACLAuthorization :: "Session \<Rightarrow> Session" where
  "clearACLAuthorization s = (clearACLIdentity s)\<lparr>se_authorized := False\<rparr>"

definition markACLStale :: "int \<Rightarrow> Session \<Rightarrow> Session" where
  "markACLStale revision s =
     (case se_aclIdentity s of
        Some i \<Rightarrow> if si_Revision i \<noteq> revision then s\<lparr>se_aclIdentity := Some (i\<lparr>si_Stale := True\<rparr>)\<rparr> else s
      | None \<Rightarrow> s)"

text \<open>What an update of the access list does to a session.\<close>

definition applyEffect :: "acl_effect \<Rightarrow> Session \<Rightarrow> Session" where
  "applyEffect x s =
     (case x of KeepSessions \<Rightarrow> s | MarkStale revision \<Rightarrow> markACLStale revision s | ClearAuthorization \<Rightarrow> clearACLAuthorization s)"

definition CloseWithError :: "Session \<Rightarrow> Session" where
  "CloseWithError s = (clearACLIdentity s)\<lparr>se_broken := True\<rparr>"

definition recordOperationStart :: "int \<Rightarrow> Session \<Rightarrow> Session" where
  "recordOperationStart start s = s\<lparr>se_LastOpUnix := start div 1000000000, se_Ops := se_Ops s + 1\<rparr>"

record world =
  w_session :: Session
  w_guard :: AuthBruteforceGuard
  w_gate :: gate

type_synonym session_handler = "Request \<Rightarrow> world \<Rightarrow> (handled outcome \<times> world) option"

definition onSession :: "(Session \<Rightarrow> Session) \<Rightarrow> world \<Rightarrow> world" where
  "onSession f w = w\<lparr>w_session := f (w_session w)\<rparr>"

definition onGate :: "handler \<Rightarrow> session_handler" where
  "onGate f q w = map_option (\<lambda>(x, g). (x, w\<lparr>w_gate := g\<rparr>)) (f q (w_gate w))"

definition replyWith :: "Resp \<Rightarrow> session_handler" where
  "replyWith x q w = Some (Value (answer q x), w)"

definition errorReply :: "string \<Rightarrow> Resp" where
  "errorReply m = NewError (Some m)"

definition RespOK :: Resp where
  "RespOK = NewString (Some ''OK'')"

abbreviation router :: "world \<Rightarrow> Router" where
  "router w \<equiv> g_router (w_gate w)"

abbreviation config :: "world \<Rightarrow> Config" where
  "config w \<equiv> r_config (router w)"

section \<open>Authorization\<close>

definition authBruteforceLockedMessage :: string where
  "authBruteforceLockedMessage = ''ERR too many invalid AUTH attempts, try again later''"

definition handleLegacyAuth :: "('e) env_scheme \<Rightarrow> session_handler" where
  "handleLegacyAuth e q w =
     (if length (rq_Multi q) \<noteq> 2 then replyWith (wrongArity ''AUTH'') q w
      else if cf_SessionAuth (config w) = [] then replyWith (errorReply ''ERR Client sent AUTH, but no password is set'') q w
      else
        let s = w_session w; was = se_authorized s;
            (locked, g) = BeforeAuth (se_remote s) was (e_now e) (w_guard w); w1 = w\<lparr>w_guard := g\<rparr>
        in if locked then replyWith (errorReply authBruteforceLockedMessage) q w1
           else if cf_SessionAuth (config w) \<noteq> Value_of (rq_Multi q ! 1) then
             replyWith (errorReply ''ERR invalid password'') q
               (w1\<lparr>w_session := s\<lparr>se_authorized := False\<rparr>,
                   w_guard := (if was then g else snd (RecordAuthFailure (se_remote s) was (e_now e) g))\<rparr>)
           else replyWith RespOK q (w1\<lparr>w_session := s\<lparr>se_authorized := True\<rparr>, w_guard := RecordAuthSuccess (se_remote s) g\<rparr>))"

definition aclPasswordAllowed :: "ACLUser \<Rightarrow> string \<Rightarrow> bool" where
  "aclPasswordAllowed user hash \<longleftrightarrow> list_ex (\<lambda>rule. EqualFoldASCII rule ''nopass'') (au_Rules user) \<or> hash \<in> set (au_PasswordHashes user)"

text \<open>The decision on a name and a password against a snapshot of the access list, then its effect on the session.\<close>

datatype login = WrongPass | BadDB int | LoggedIn SessionACLIdentity

definition aclLogin :: "ACLSnapshot \<Rightarrow> int \<Rightarrow> string \<Rightarrow> bytes \<Rightarrow> login" where
  "aclLogin a databases username password =
     (let hash = ACLPasswordHash password
      in case map_of (as_Users a) username of
           None \<Rightarrow> WrongPass
         | Some user \<Rightarrow>
             if \<not> au_Enabled user \<or> \<not> aclPasswordAllowed user hash then WrongPass
             else
               let i = \<lparr>si_Username = username, si_CredentialHash = hash, si_Password = password, si_Revision = as_Revision a,
                        si_Stale = False, si_ForcedDB = au_DB user\<rparr>
               in (case au_DB user of
                     Some db \<Rightarrow> if db < 0 \<or> db \<ge> databases then BadDB db else LoggedIn i
                   | None \<Rightarrow> LoggedIn i))"

definition finishLogin :: "int \<Rightarrow> bool \<Rightarrow> string \<Rightarrow> login \<Rightarrow> session_handler" where
  "finishLogin now was username l q w =
     (let s = w_session w
      in case l of
           WrongPass \<Rightarrow>
             replyWith (errorReply ''WRONGPASS invalid username-password pair or user is disabled'') q
               (w\<lparr>w_guard := snd (RecordAuthFailure (se_remote s) False now (w_guard w)),
                  w_session := (if was then s else (clearACLIdentity s)\<lparr>se_authorized := False\<rparr>)\<rparr>)
         | BadDB db \<Rightarrow>
             replyWith (errorReply (''ERR acl user '' @ username @ '' bound db '' @ Itoa db @ '' exceeds backend db count '' @
               Itoa (cf_BackendNumberDatabases (config w)))) q w
         | LoggedIn i \<Rightarrow>
             replyWith RespOK q
               (w\<lparr>w_session := (setACLIdentity i s)\<lparr>se_database := (case si_ForcedDB i of Some db \<Rightarrow> db | None \<Rightarrow> se_database s), se_authorized := True\<rparr>,
                  w_guard := RecordAuthSuccess (se_remote s) (w_guard w)\<rparr>))"

definition handleACLAuth :: "('e) env_scheme \<Rightarrow> session_handler" where
  "handleACLAuth e q w =
     (if length (rq_Multi q) \<noteq> 2 \<and> length (rq_Multi q) \<noteq> 3 then replyWith (wrongArity ''AUTH'') q w
      else
        (case r_acl (router w) of
           None \<Rightarrow> replyWith (errorReply ''ERR Client sent AUTH, but no password is set'') q w
         | Some a \<Rightarrow>
             if \<not> as_Enabled a then replyWith (errorReply ''ERR Client sent AUTH, but no password is set'') q w
             else
               let (username, password) =
                     (if length (rq_Multi q) = 3 then (Value_of (rq_Multi q ! 1), Value_of (rq_Multi q ! 2)) else (''default'', Value_of (rq_Multi q ! 1)));
                   s = w_session w; was = se_authorized s;
                   (locked, g) = BeforeAuth (se_remote s) False (e_now e) (w_guard w); w1 = w\<lparr>w_guard := g\<rparr>
               in if locked then replyWith (errorReply authBruteforceLockedMessage) q w1
                  else finishLogin (e_now e) was username (aclLogin a (cf_BackendNumberDatabases (config w)) username password) q w1))"

definition handleAuth :: "('e) env_scheme \<Rightarrow> session_handler" where
  "handleAuth e q w = (if aclAuthEnabled (router w) then handleACLAuth e q w else handleLegacyAuth e q w)"

definition isACLAuthorized :: "world \<Rightarrow> bool \<times> world" where
  "isACLAuthorized w =
     (case se_aclIdentity (w_session w) of
        None \<Rightarrow> (False, w)
      | Some i \<Rightarrow>
          if (case r_acl (router w) of None \<Rightarrow> True | Some a \<Rightarrow> \<not> as_Enabled a \<or> si_Stale i \<or> si_Revision i \<noteq> as_Revision a)
          then (False, onSession (\<lambda>s. (clearACLIdentity s)\<lparr>se_authorized := False\<rparr>) w)
          else (True, w))"

text \<open>The gate before the commands: the request gets the identity of its session, or the client must log in.\<close>

definition authorize :: "Request \<Rightarrow> world \<Rightarrow> Request option \<times> world" where
  "authorize q w =
     (if aclAuthEnabled (router w) then
        (case isACLAuthorized w of (ok, w1) \<Rightarrow> (if ok then Some (q\<lparr>rq_ACLIdentity := se_aclIdentity (w_session w1)\<rparr>) else None, w1))
      else if \<not> se_authorized (w_session w) then
        if cf_SessionAuth (config w) \<noteq> [] then (None, w) else (Some q, onSession (\<lambda>s. s\<lparr>se_authorized := True\<rparr>) w)
      else (Some q, w))"

definition handleRequestACL :: session_handler where
  "handleRequestACL q w =
     (if aclAuthEnabled (router w) \<and> length (rq_Multi q) = 2 \<and> EqualFoldASCII (Value_of (rq_Multi q ! 1)) ''whoami'' then
        (case se_aclIdentity (w_session w) of
           None \<Rightarrow> replyWith (errorReply ''NOAUTH Authentication required'') q w
         | Some i \<Rightarrow>
             if si_Stale i then replyWith (errorReply ''NOAUTH Authentication required'') q w
             else replyWith (NewBulkBytes (Some (si_Username i))) q w)
      else replyWith (errorReply (''ERR unsupported ACL subcommand '' @ quoted (if length (rq_Multi q) < 2 then [] else Value_of (rq_Multi q ! 1)))) q w)"

section \<open>Clients\<close>

record clientListEntry =
  cl_ID :: int
  cl_Addr :: string
  cl_LAddr :: string
  cl_Age :: int
  cl_Idle :: int
  cl_DB :: int
  cl_Cmd :: string
  cl_User :: string

definition clientListEntry_of :: "int \<Rightarrow> Config \<Rightarrow> Session \<Rightarrow> clientListEntry" where
  "clientListEntry_of now c s =
     (let unix = now div 1000000000; age = max 0 (unix - se_CreateUnix s)
      in \<lparr>cl_ID = se_Id s, cl_Addr = se_remote s, cl_LAddr = se_local s, cl_Age = age,
          cl_Idle = (if se_LastOpUnix s \<noteq> 0 then max 0 (unix - se_LastOpUnix s) else age), cl_DB = se_database s,
          cl_Cmd = (if se_lastOpStr s \<noteq> [] then se_lastOpStr s else ''NULL''),
          cl_User = (case se_aclIdentity s of
                       Some i \<Rightarrow> si_Username i
                     | None \<Rightarrow> if se_authorized s \<or> cf_SessionAuth c = [] then ''default'' else [])\<rparr>)"

definition client_snapshot :: "int \<Rightarrow> Config \<Rightarrow> Session list \<Rightarrow> clientListEntry list" where
  "client_snapshot now c ss = sort_key cl_ID (map (clientListEntry_of now c) ss)"

definition snapshotByIDs :: "int list \<Rightarrow> int \<Rightarrow> Config \<Rightarrow> Session list \<Rightarrow> clientListEntry list" where
  "snapshotByIDs ids now c ss =
     map (clientListEntry_of now c) (List.map_filter (\<lambda>sid. find (\<lambda>s. se_Id s = sid) ss) ids)"

definition formatClient :: "clientListEntry \<Rightarrow> bytes" where
  "formatClient x =
     Join [''id='' @ Itoa (cl_ID x), ''addr='' @ cl_Addr x, ''laddr='' @ cl_LAddr x, ''name='', ''age='' @ Itoa (cl_Age x),
       ''idle='' @ Itoa (cl_Idle x), ''flags=N'', ''db='' @ Itoa (cl_DB x), ''sub=0'', ''psub=0'', ''ssub=0'', ''multi=-1'', ''qbuf=0'',
       ''qbuf-free=0'', ''obl=0'', ''oll=0'', ''omem=0'', ''events=r'', ''cmd='' @ cl_Cmd x, ''user='' @ cl_User x, ''redir=-1'', ''resp=2''] '' '' @ [CHR 0x0A]"

definition formatClientList :: "clientListEntry list \<Rightarrow> bytes" where
  "formatClientList xs = concat (map formatClient xs)"

fun parseIDs :: "Resp list \<Rightarrow> int list option" where
  "parseIDs [] = Some []"
| "parseIDs (x # xs) =
     (case Btoi64 (Value_of x) of
        Inl _ \<Rightarrow> None
      | Inr n \<Rightarrow> map_option ((#) (sint n)) (parseIDs xs))"

definition parseClientListEntries :: "('e) env_scheme \<Rightarrow> Config \<Rightarrow> Session list \<Rightarrow> Resp list \<Rightarrow> Resp + clientListEntry list" where
  "parseClientListEntries e c ss multi =
     (if length multi = 2 then Inr (client_snapshot (e_now e) c ss)
      else if length multi = 4 \<and> EqualFoldASCII (Value_of (multi ! 2)) ''type'' then
        (let typ = e_lower e (Value_of (multi ! 3))
         in if typ = ''normal'' then Inr (client_snapshot (e_now e) c ss)
            else if typ \<in> {''master'', ''replica'', ''pubsub''} then Inr []
            else Inl (errorReply (''ERR Unknown client type '' @ quoted (Value_of (multi ! 3)))))
      else if length multi > 3 \<and> EqualFoldASCII (Value_of (multi ! 2)) ''id'' then
        (case parseIDs (drop 3 multi) of
           None \<Rightarrow> Inl (errorReply ''ERR Invalid client ID'')
         | Some ids \<Rightarrow> Inr (snapshotByIDs ids (e_now e) c ss))
      else Inl (errorReply ''ERR syntax error''))"

definition handleRequestClient :: "('e) env_scheme \<Rightarrow> Session list \<Rightarrow> session_handler" where
  "handleRequestClient e others q w =
     (if length (rq_Multi q) < 2 then replyWith (wrongArity ''CLIENT'') q w
      else if e_upper e (Value_of (rq_Multi q ! 1)) = ''LIST'' then
        (case parseClientListEntries e (config w) (w_session w # others) (rq_Multi q) of
           Inl x \<Rightarrow> replyWith x q w
         | Inr xs \<Rightarrow> replyWith (NewBulkBytes (Some (formatClientList xs))) q w)
      else replyWith (errorReply (''ERR unsupported CLIENT subcommand '' @ quoted (Value_of (rq_Multi q ! 1)))) q w)"

section \<open>Commands\<close>

definition handleQuit :: session_handler where
  "handleQuit q w = replyWith RespOK q (onSession (\<lambda>s. s\<lparr>se_quit := True\<rparr>) w)"

text \<open>\<open>Atoi\<close> agrees with \<open>ParseInt\<close>.\<close>

definition handleSelect :: session_handler where
  "handleSelect q w =
     (if length (rq_Multi q) \<noteq> 2 then replyWith (wrongArity ''SELECT'') q w
      else
        (case ParseInt (Value_of (rq_Multi q ! 1)) of
           Inl _ \<Rightarrow> replyWith (errorReply ''ERR invalid DB index'') q w
         | Inr n \<Rightarrow>
             if sint n < 0 \<or> sint n \<ge> cf_BackendNumberDatabases (config w)
             then replyWith (errorReply (''ERR invalid DB index, only accept DB [0,'' @ Itoa (cf_BackendNumberDatabases (config w)) @ '')'')) q w
             else replyWith RespOK q (onSession (\<lambda>s. s\<lparr>se_database := sint n\<rparr>) w)))"

text \<open>The first argument is the address of a server and is taken out of the request.\<close>

definition sendAddr :: handler where
  "sendAddr q g =
     (let addr = Value_of (rq_Multi q ! 1); q1 = q\<lparr>rq_Multi := hd (rq_Multi q) # drop 2 (rq_Multi q)\<rparr>
      in map_option (\<lambda>(bc, r).
           case bc of
             Some c \<Rightarrow> (Value (direct q1 (Sent c (rq_Multi q1))), g\<lparr>g_router := r, g_pushed := g_pushed g @ [(c, rq_Multi q1)]\<rparr>)
           | None \<Rightarrow> (Value (answer q1 (errorReply (''ERR backend server '' @ quoted addr @ '' not found''))), g\<lparr>g_router := r\<rparr>))
         (dispatchAddr q1 addr (g_router g)))"

definition sendSlot :: "('e) env_scheme \<Rightarrow> int \<Rightarrow> handler" where
  "sendSlot e i q g = map_option (map_prod (mapOutcome (direct q)) id) (send (dispatchSlot (e_attempts e 0) q i (g_router g)) q g)"

definition handleRequestPing :: "('e) env_scheme \<Rightarrow> handler" where
  "handleRequestPing e q g =
     (if length (rq_Multi q) = 1 then sendSlot e ((e_now e mod 1000000000) mod int MaxSlotNum) q g else sendAddr q g)"

definition handleRequestInfo :: "('e) env_scheme \<Rightarrow> handler" where
  "handleRequestInfo e q g =
     (if length (rq_Multi q) = 1 then sendSlot e ((e_now e mod 1000000000) mod int MaxSlotNum) q g else sendAddr q g)"

definition handleRequestSlotsInfo :: handler where
  "handleRequestSlotsInfo q g =
     (if length (rq_Multi q) \<noteq> 2 then Some (Value (answer q (wrongArity ''SLOTSINFO'')), g) else sendAddr q g)"

text \<open>\<open>MakeSubRequest\<close> and the dispatch of the parts.\<close>

definition subRequest :: "('e) env_scheme \<Rightarrow> Request \<Rightarrow> nat \<times> Resp list \<Rightarrow> Request" where
  "subRequest e q x = q\<lparr>rq_Multi := snd x, rq_ptr := e_ptr e (fst x)\<rparr>"

definition divide :: "('e) env_scheme \<Rightarrow> coalesce \<Rightarrow> Resp list list \<Rightarrow> handler" where
  "divide e co parts q g =
     map_option (map_prod (mapOutcome (divided q co)) id) (sendAll e 0 (map (subRequest e q) (enumerate 0 parts)) g)"

definition perKey :: "Request \<Rightarrow> Resp list list" where
  "perKey q = map (\<lambda>k. [hd (rq_Multi q), k]) (tl (rq_Multi q))"

fun perPair :: "Resp \<Rightarrow> Resp list \<Rightarrow> Resp list list" where
  "perPair op (k # v # xs) = [op, k, v] # perPair op xs"
| "perPair op xs = []"

definition handleRequestMGet :: "('e) env_scheme \<Rightarrow> handler" where
  "handleRequestMGet e q g =
     (if length (rq_Multi q) = 1 then Some (Value (answer q (wrongArity ''MGET'')), g)
      else if length (rq_Multi q) = 2 then forwardOne e q g
      else divide e CoMGet (perKey q) q g)"

definition handleRequestMSet :: "('e) env_scheme \<Rightarrow> handler" where
  "handleRequestMSet e q g =
     (let nblks = length (rq_Multi q) - 1
      in if nblks = 0 \<or> odd nblks then Some (Value (answer q (wrongArity ''MSET'')), g)
         else if nblks = 2 then forwardOne e q g
         else divide e CoMSet (perPair (hd (rq_Multi q)) (tl (rq_Multi q))) q g)"

definition handleRequestDel :: "('e) env_scheme \<Rightarrow> handler" where
  "handleRequestDel e q g =
     (if length (rq_Multi q) = 1 then Some (Value (answer q (wrongArity ''DEL'')), g)
      else if length (rq_Multi q) = 2 then forwardOne e q g
      else divide e CoDel (perKey q) q g)"

definition handleRequestExists :: "('e) env_scheme \<Rightarrow> handler" where
  "handleRequestExists e q g =
     (if length (rq_Multi q) = 1 then Some (Value (answer q (wrongArity ''EXISTS'')), g)
      else if length (rq_Multi q) = 2 then forwardOne e q g
      else divide e CoExists (perKey q) q g)"

text \<open>The keys that are in the cache, and the places and tokens of the others.\<close>

fun lookupKeys :: "int \<Rightarrow> int \<Rightarrow> nat \<Rightarrow> bytes list \<Rightarrow> Router \<Rightarrow> Resp option list \<times> (nat \<times> hotKeyCacheToken) list \<times> Router" where
  "lookupKeys now database i [] r = ([], [], r)"
| "lookupKeys now database i (k # ks) r =
     (case hotKeyCacheLookup now database k r of
        (hit, r1) \<Rightarrow>
          let misses = (if hit = None then [(i, hotKeyCacheToken_of database k r1)] else [])
          in (case lookupKeys now database (Suc i) ks r1 of (vs, ms, r2) \<Rightarrow> (hit # vs, misses @ ms, r2)))"

definition handleRequestMGetWithHotKeyCache :: "('e) env_scheme \<Rightarrow> handler" where
  "handleRequestMGetWithHotKeyCache e q g =
     (if length (rq_Multi q) = 1 then Some (Value (answer q (wrongArity ''MGET'')), g)
      else if \<not> hotKeyCacheEnabled (g_router g) then handleRequestMGet e q g
      else
        let (values, misses, r) = lookupKeys (e_now e) (rq_Database q) 0 (map Value_of (tl (rq_Multi q))) (g_router g); g1 = g\<lparr>g_router := r\<rparr>
        in Option.bind
             (if list_ex (\<lambda>v. v \<noteq> None) values then dryRun (aclDryRunKey (e_call e) q (Value_of (rq_Multi q ! 1)) r) g1 else Some (Inr None, g1))
             (\<lambda>(res, g2).
                case res of
                  Inl m \<Rightarrow> Some (Error m, g2)
                | Inr (Some refusal) \<Rightarrow> Some (Value (answer q refusal), g2)
                | Inr None \<Rightarrow>
                    map_option (map_prod (mapOutcome (divided q (CoMGetCache misses values))) id)
                      (sendAll e 0 (map (\<lambda>(i, token). subRequest e q (i, [hd (rq_Multi q), rq_Multi q ! Suc i])) misses) g2)))"

definition numText :: "('e) env_scheme \<Rightarrow> bytes \<Rightarrow> num_error \<Rightarrow> string" where
  "numText e b x = ''strconv.ParseInt: parsing '' @ e_quote e b @ (case x of ErrSyntax \<Rightarrow> '': invalid syntax'' | ErrRange \<Rightarrow> '': value out of range'')"

text \<open>The number of a slot, or what to say about it.\<close>

definition parseSlot :: "('e) env_scheme \<Rightarrow> bytes \<Rightarrow> Resp + int" where
  "parseSlot e b =
     (case Btoi64 b of
        Inl x \<Rightarrow> Inl (errorReply (''ERR parse slotnum '' @ quoted b @ '' failed, '' @ numText e b x))
      | Inr n \<Rightarrow>
          if sint n < 0 \<or> sint n \<ge> int MaxSlotNum then Inl (errorReply (''ERR parse slotnum '' @ quoted b @ '' failed, out of range''))
          else Inr (sint n))"

definition handleRequestSlotsScan :: "('e) env_scheme \<Rightarrow> handler" where
  "handleRequestSlotsScan e q g =
     (if length (rq_Multi q) \<le> 2 then Some (Value (answer q (wrongArity ''SLOTSSCAN'')), g)
      else
        (case parseSlot e (Value_of (rq_Multi q ! 1)) of
           Inl x \<Rightarrow> Some (Value (answer q x), g)
         | Inr i \<Rightarrow> sendSlot e i q g))"

definition marshalToResp :: "Slot option \<Rightarrow> Resp" where
  "marshalToResp m =
     (case m of
        None \<Rightarrow> NewArray None
      | Some s \<Rightarrow>
          let nilable = (\<lambda>xs. if xs = [] then None else Some xs); text = (\<lambda>b. NewString (Some b))
          in NewArray (Some [text (Itoa (sl_Id s)), text (sl_BackendAddr s), text (sl_MigrateFrom s),
               NewArray (nilable (map (\<lambda>g. NewArray (nilable (map text g))) (sl_ReplicaGroups s)))]))"

definition handleRequestSlotsMapping :: "('e) env_scheme \<Rightarrow> handler" where
  "handleRequestSlotsMapping e q g =
     (if length (rq_Multi q) \<ge> 3 then Some (Value (answer q (wrongArity ''SLOTSMAPPING'')), g)
      else if length (rq_Multi q) = 1 then Some (Value (answer q (NewArray (Some (map (marshalToResp \<circ> Some) (GetSlots (g_router g)))))), g)
      else
        (case parseSlot e (Value_of (rq_Multi q ! 1)) of
           Inl x \<Rightarrow> Some (Value (answer q x), g)
         | Inr i \<Rightarrow> Some (Value (answer q (marshalToResp (GetSlot i (g_router g)))), g)))"

text \<open>A command that the proxy answers itself is tried on a server first when the request has a user.\<close>

definition afterDryRun :: "('e) env_scheme \<Rightarrow> session_handler \<Rightarrow> session_handler" where
  "afterDryRun e f q w =
     Option.bind (dryRun (aclDryRunLocal (e_call e) q (router w)) (w_gate w)) (\<lambda>(res, g).
       let w1 = w\<lparr>w_gate := g\<rparr>
       in case res of
            Inl m \<Rightarrow> Some (Error m, w1)
          | Inr (Some refusal) \<Rightarrow> replyWith refusal q w1
          | Inr None \<Rightarrow> f q w1)"

definition handleCluster :: "('e) env_scheme \<Rightarrow> session_handler" where
  "handleCluster e q w = (case e_cluster e q of Inl m \<Rightarrow> Some (Error m, w) | Inr x \<Rightarrow> replyWith x q w)"

definition handleCommand :: "('e) env_scheme \<Rightarrow> Session list \<Rightarrow> session_handler" where
  "handleCommand e others q w =
     (let op = rq_OpStr q
      in if op = ''ACL'' then handleRequestACL q w
         else if op = ''SELECT'' then
           (if (case rq_ACLIdentity q of Some i \<Rightarrow> si_ForcedDB i \<noteq> None | None \<Rightarrow> False) then replyWith RespOK q w
            else afterDryRun e handleSelect q w)
         else if op = ''PING'' then onGate (handleRequestPing e) q w
         else if op = ''INFO'' then onGate (handleRequestInfo e) q w
         else if op = ''CLIENT'' then afterDryRun e (handleRequestClient e others) q w
         else if op = ''CLUSTER'' then afterDryRun e (handleCluster e) q w
         else if op = ''GET'' then onGate (handleRequestGet e) q w
         else if op = ''MGET'' then onGate (handleRequestMGetWithHotKeyCache e) q w
         else if op = ''MSET'' then onGate (handleRequestWithHotKeyCacheInvalidation e (handleRequestMSet e)) q w
         else if op = ''DEL'' then onGate (handleRequestWithHotKeyCacheInvalidation e (handleRequestDel e)) q w
         else if op = ''EXISTS'' then onGate (handleRequestExists e) q w
         else if op = ''SLOTSINFO'' then onGate handleRequestSlotsInfo q w
         else if op = ''SLOTSSCAN'' then onGate (handleRequestSlotsScan e) q w
         else if op = ''SLOTSMAPPING'' then afterDryRun e (onGate (handleRequestSlotsMapping e)) q w
         else if isStreamCommand op then onGate (handleRequestStream e) q w
         else onGate (handleRequestWithHotKeyCacheInvalidation e (forwardOne e)) q w)"

definition opErrText :: "op_error \<Rightarrow> string" where
  "opErrText x = (case x of ErrBadMultiBulk \<Rightarrow> ''bad multi-bulk for command'' | ErrBadOpStrLen \<Rightarrow> ''bad command length, too short or too long'')"

definition notAllowed :: "string \<Rightarrow> string" where
  "notAllowed op = ''command '' @ quoted op @ '' is not allowed''"

definition qpsLimitExceededMessage :: string where
  "qpsLimitExceededMessage = ''ERR proxy qps limit exceeded''"

text \<open>After authorization: the limit of requests, then the command.\<close>

definition limited :: "('e) env_scheme \<Rightarrow> Session list \<Rightarrow> session_handler" where
  "limited e others q w =
     (case Allow (e_now e) (e_now e) (r_qpsLimiter (router w)) of
        (allowed, l) \<Rightarrow>
          let w1 = w\<lparr>w_gate := (w_gate w)\<lparr>g_router := (router w)\<lparr>r_qpsLimiter := l\<rparr>\<rparr>\<rparr>
          in if allowed then handleCommand e others q w1
             else Some (Value ((answer q (errorReply qpsLimitExceededMessage))\<lparr>hd_skip := True\<rparr>),
                        onSession (\<lambda>s. s\<lparr>se_stats := incrOpFails (Some (rq_OpStr q)) (se_stats s)\<rparr>) w1))"

definition handleRequest :: "('e) env_scheme \<Rightarrow> Session list \<Rightarrow> session_handler" where
  "handleRequest e others q w =
     (case getOpInfo (e_upper e) (rq_Multi q) of
        Inl x \<Rightarrow> Some (Error (opErrText x), w)
      | Inr (op, flag) \<Rightarrow>
          let q1 = q\<lparr>rq_OpStr := op, rq_OpFlag := flag, rq_Broken := se_broken (w_session w)\<rparr>;
              w1 = onSession (\<lambda>s. s\<lparr>se_lastOpStr := op\<rparr>) w
          in if op = ''CLUSTER'' \<and> cf_ClusterNodesCompat (config w) = ''disabled'' then Some (Error (notAllowed op), w1)
             else if IsNotAllowed flag then Some (Error (notAllowed op), w1)
             else if op = ''QUIT'' then handleQuit q1 w1
             else if op = ''AUTH'' then handleAuth e q1 w1
             else
               (case authorize q1 w1 of
                  (None, w2) \<Rightarrow> replyWith (errorReply ''NOAUTH Authentication required'') q1 w2
                | (Some q2, w2) \<Rightarrow> limited e others q2 w2))"

end
