(* ===== verification/Conversation.thy ===== *)
theory Conversation
  imports Session
begin

text \<open>
  The two loops of a session, \<open>loopReader\<close> and \<open>loopWriter\<close> of \<open>src/pkg/proxy/session.go\<close>, with the functions that put the answers of
  the parts of a request together, and the process around them: sessions come and go, and the dashboard changes
  the router meanwhile.
\<close>

section \<open>Answers\<close>

text \<open>What a backend sets in a request: an error, or a reply that may be nil.\<close>

type_synonym answer = "string + Resp option"

definition answerOf :: "sent \<Rightarrow> answer \<Rightarrow> answer" where
  "answerOf s a = (case s of Got x \<Rightarrow> Inr (Some x) | Sent c m \<Rightarrow> a)"

definition required :: "answer \<Rightarrow> string + Resp" where
  "required a = (case a of Inl m \<Rightarrow> Inl m | Inr None \<Rightarrow> Inl (errText ErrRespIsRequired) | Inr (Some x) \<Rightarrow> Inr x)"

definition arrayLen :: "Resp \<Rightarrow> nat" where
  "arrayLen x = (case Resp_Array x of Some a \<Rightarrow> length a | None \<Rightarrow> 0)"

definition oneOf :: "Resp \<Rightarrow> string + Resp" where
  "oneOf x =
     (if IsArray x \<and> arrayLen x = 1 then Inr (hd (the (Resp_Array x)))
      else Inl (''bad mget resp: '' @ RespType_String (Resp_Type x) @ '' array.len = '' @ Itoa (int (arrayLen x))))"

fun coMGet :: "answer list \<Rightarrow> string + Resp list" where
  "coMGet [] = Inr []"
| "coMGet (a # as) =
     (case required a of
        Inl m \<Rightarrow> Inl m
      | Inr x \<Rightarrow> (case oneOf x of Inl m \<Rightarrow> Inl m | Inr y \<Rightarrow> (case coMGet as of Inl m \<Rightarrow> Inl m | Inr ys \<Rightarrow> Inr (y # ys))))"

definition badLen :: "string \<Rightarrow> Resp \<Rightarrow> string" where
  "badLen op x = ''bad '' @ op @ '' resp: '' @ RespType_String (Resp_Type x) @ '' value.len = '' @ Itoa (int (length (Value_of x)))"

text \<open>The reply of the request is set by each part in turn, also when a later one fails.\<close>

fun coMSet :: "answer list \<Rightarrow> Resp option \<Rightarrow> string option \<times> Resp option" where
  "coMSet [] resp = (None, resp)"
| "coMSet (a # as) resp =
     (case required a of
        Inl m \<Rightarrow> (Some m, resp)
      | Inr x \<Rightarrow> if IsString x then coMSet as (Some x) else (Some (badLen ''mset'' x), resp))"

text \<open>The difference to the digit zero is a byte.\<close>

definition digitOf :: "char \<Rightarrow> int" where
  "digitOf c = (int (of_char c :: nat) - 48) mod 256"

fun coSum :: "string \<Rightarrow> (char \<Rightarrow> int) \<Rightarrow> answer list \<Rightarrow> string + int" where
  "coSum op f [] = Inr 0"
| "coSum op f (a # as) =
     (case required a of
        Inl m \<Rightarrow> Inl m
      | Inr x \<Rightarrow>
          if IsInt x \<and> length (Value_of x) = 1
          then (case coSum op f as of Inl m \<Rightarrow> Inl m | Inr n \<Rightarrow> Inr (f (hd (Value_of x)) + n))
          else Inl (badLen op x))"

fun coMGetCache :: "int \<Rightarrow> (nat \<times> hotKeyCacheToken) list \<Rightarrow> answer list \<Rightarrow> Resp option list \<Rightarrow> Router \<Rightarrow> (string + Resp option list) \<times> Router" where
  "coMGetCache now ((i, token) # ms) (a # as) vs r =
     (case required a of
        Inl m \<Rightarrow> (Inl m, r)
      | Inr x \<Rightarrow> (case oneOf x of Inl m \<Rightarrow> (Inl m, r) | Inr y \<Rightarrow> coMGetCache now ms as (vs[i := Some y]) (hotKeyCacheStore now token (Some y) r)))"
| "coMGetCache now ms as vs r = (Inr vs, r)"

section \<open>Responses\<close>

text \<open>Whether the answer is to the request itself.\<close>

primrec isDirect :: "coalesce \<Rightarrow> bool" where
  "isDirect Plain = True"
| "isDirect (CoGet token) = True"
| "isDirect CoMGet = False"
| "isDirect CoMSet = False"
| "isDirect CoDel = False"
| "isDirect CoExists = False"
| "isDirect (CoMGetCache ms vs) = False"
| "isDirect (CoPlan co p) = isDirect co"

definition own :: "handled \<Rightarrow> answer list \<Rightarrow> string option \<times> Resp option" where
  "own h as =
     (if isDirect (hd_co h) \<and> as \<noteq> [] then (case hd as of Inl m \<Rightarrow> (Some m, None) | Inr x \<Rightarrow> (None, x)) else (None, hd_resp h))"

definition summed :: "string + int \<Rightarrow> Resp option \<Rightarrow> string option \<times> Resp option" where
  "summed x resp = (case x of Inl m \<Rightarrow> (Some m, resp) | Inr n \<Rightarrow> (None, Some (NewInt (Some (Itoa n)))))"

text \<open>\<open>Coalesce\<close>: its error, the reply of the request after it, and the router.\<close>

primrec runCoalesce :: "int \<Rightarrow> coalesce \<Rightarrow> answer list \<Rightarrow> string option \<Rightarrow> Resp option \<Rightarrow> gate \<Rightarrow> (string option \<times> Resp option) \<times> gate" where
  "runCoalesce now Plain as err resp g = ((None, resp), g)"
| "runCoalesce now (CoGet token) as err resp g =
     ((None, resp), if err \<noteq> None then g else g\<lparr>g_router := hotKeyCacheStore now token resp (g_router g)\<rparr>)"
| "runCoalesce now CoMGet as err resp g =
     (case coMGet as of Inl m \<Rightarrow> (Some m, resp) | Inr xs \<Rightarrow> (None, Some (NewArray (Some xs))), g)"
| "runCoalesce now CoMSet as err resp g = (coMSet as resp, g)"
| "runCoalesce now CoDel as err resp g = (summed (coSum ''del'' digitOf as) resp, g)"
| "runCoalesce now CoExists as err resp g = (summed (coSum ''exists'' (\<lambda>c. if c \<noteq> CHR ''0'' then 1 else 0) as) resp, g)"
| "runCoalesce now (CoMGetCache ms vs) as err resp g =
     (case coMGetCache now ms as vs (g_router g) of
        (x, r) \<Rightarrow> (case x of Inl m \<Rightarrow> (Some m, resp) | Inr ys \<Rightarrow> (None, Some (NewArray (Some (map the ys)))), g\<lparr>g_router := r\<rparr>))"
| "runCoalesce now (CoPlan co p) as err resp g =
     (case runCoalesce now co as err resp g of ((m, x), g1) \<Rightarrow> ((m, x), plan_apply p x g1))"

definition handleResponse :: "int \<Rightarrow> handled \<Rightarrow> answer list \<Rightarrow> gate \<Rightarrow> (string + Resp) \<times> gate" where
  "handleResponse now h answers g =
     (let as = map2 answerOf (hd_sent h) answers; (err, resp) = own h as; ((m, x), g1) = runCoalesce now (hd_co h) as err resp g
      in (case m of
            Some t \<Rightarrow> Inl t
          | None \<Rightarrow> (case err of Some t \<Rightarrow> Inl t | None \<Rightarrow> (case x of Some y \<Rightarrow> Inr y | None \<Rightarrow> Inl (errText ErrRespIsRequired))), g1))"

section \<open>The loops\<close>

text \<open>
  A conversation: its session, the requests between reader and writer, the replies sent so far, and whether reader and
  writer run.  A session is registered while its writer runs.  A reader is stuck when a forward loop has not ended yet.
\<close>

record conversation =
  cv_session :: Session
  cv_tasks :: "handled list"
  cv_replies :: "Resp list"
  cv_reading :: bool
  cv_stuck :: bool
  cv_writing :: bool

record process =
  py_convs :: "conversation list"
  py_guard :: AuthBruteforceGuard
  py_gate :: gate
  py_stats :: cmdstats

definition newRequest :: "('e) env_scheme \<Rightarrow> Resp list \<Rightarrow> Session \<Rightarrow> Request" where
  "newRequest e multi s =
     \<lparr>rq_Multi = multi, rq_OpStr = [], rq_OpFlag = 0, rq_Database = se_database s, rq_UnixNano = e_now e, rq_ptr = e_ptr e 0,
      rq_ACLIdentity = None, rq_Broken = False\<rparr>"

definition setConv :: "nat \<Rightarrow> conversation \<Rightarrow> process \<Rightarrow> process" where
  "setConv i c p = p\<lparr>py_convs := (py_convs p)[i := c]\<rparr>"

definition registered :: "process \<Rightarrow> nat \<Rightarrow> Session list" where
  "registered p i = map (cv_session \<circ> snd) (filter (\<lambda>(j, c). j \<noteq> i \<and> cv_writing c) (enumerate 0 (py_convs p)))"

text \<open>One round of the reader; \<open>None\<close> is a panic.\<close>

definition loopReader :: "env \<Rightarrow> Resp list \<Rightarrow> nat \<Rightarrow> process \<Rightarrow> process option" where
  "loopReader e multi i p =
     (let c = py_convs p ! i; cf = r_config (g_router (py_gate p))
      in if \<not> cv_reading c \<or> cv_stuck c \<or> se_quit (cv_session c) \<or> multi = [] then Some p
         else
           let s1 = (cv_session c)\<lparr>se_stats := incrOpTotal (se_stats (cv_session c))\<rparr>
           in if int (length (cv_tasks c)) > cf_SessionMaxPipeline cf
              then Some (setConv i (c\<lparr>cv_session := s1\<lparr>se_stats := incrOpFails None (se_stats s1)\<rparr>, cv_reading := False\<rparr>) p)
              else
                let s2 = recordOperationStart (e_now e) s1; q = newRequest e multi s2
                in map_option (\<lambda>(x, w).
                     let c1 = c\<lparr>cv_session := w_session w\<rparr>; p1 = p\<lparr>py_guard := w_guard w, py_gate := w_gate w\<rparr>
                     in case x of
                          Hanging \<Rightarrow> setConv i (c1\<lparr>cv_stuck := True\<rparr>) p1
                        | Error m \<Rightarrow>
                            setConv i (c1\<lparr>cv_tasks := cv_tasks c1 @ [answer q (errorReply (''ERR handle request, '' @ m))],
                                          cv_reading := \<not> cf_SessionBreakOnFailure cf\<rparr>) p1
                        | Value h \<Rightarrow> setConv i (c1\<lparr>cv_tasks := cv_tasks c1 @ [h]\<rparr>) p1)
                     (handleRequest e (registered p i) q \<lparr>w_session = s2, w_guard = py_guard p, w_gate = py_gate p\<rparr>))"

text \<open>The end of the writer: the requests that are left count as failed.\<close>

definition closeWriter :: "int \<Rightarrow> nat \<Rightarrow> process \<Rightarrow> process" where
  "closeWriter now i p =
     (let c = py_convs p ! i; s = CloseWithError (cv_session c);
          s1 = s\<lparr>se_stats := foldl (\<lambda>st h. incrOpFails (Some (rq_OpStr (hd_req h))) st) (se_stats s) (cv_tasks c)\<rparr>;
          (st, cs) = flushOpStats True now (se_stats s1) (py_stats p)
      in setConv i (c\<lparr>cv_session := s1\<lparr>se_stats := st\<rparr>, cv_tasks := [], cv_writing := False\<rparr>) (p\<lparr>py_stats := cs\<rparr>))"

text \<open>One round of the writer: the first request is answered, when the answers of its parts are there.\<close>

definition loopWriter :: "int \<Rightarrow> answer list \<Rightarrow> nat \<Rightarrow> process \<Rightarrow> process" where
  "loopWriter now answers i p =
     (let c = py_convs p ! i; cf = r_config (g_router (py_gate p))
      in if \<not> cv_writing c then p
         else
           (case cv_tasks c of
              [] \<Rightarrow> if cv_reading c \<and> \<not> se_quit (cv_session c) then p else closeWriter now i p
            | h # hs \<Rightarrow>
                (case handleResponse now h answers (py_gate p) of
                   (res, g) \<Rightarrow>
                     let p1 = p\<lparr>py_gate := g\<rparr>; s = cv_session c; op = rq_OpStr (hd_req h);
                         resp = (case res of Inl m \<Rightarrow> errorReply (''ERR handle response, '' @ m) | Inr x \<Rightarrow> x)
                     in if cf_SessionBreakOnFailure cf \<and> (case res of Inl m \<Rightarrow> True | Inr x \<Rightarrow> False)
                        then closeWriter now i (setConv i (c\<lparr>cv_tasks := hs, cv_replies := cv_replies c @ [resp],
                               cv_session := s\<lparr>se_stats := incrOpFails (Some op) (se_stats s)\<rparr>\<rparr>) p1)
                        else
                          let st = incrOpStats op (now - rq_UnixNano (hd_req h)) (IsError resp \<and> \<not> hd_skip h) (se_stats s);
                              (st1, cs) = (if hs = [] then flushOpStats False now st (py_stats p) else (st, py_stats p))
                          in setConv i (c\<lparr>cv_tasks := hs, cv_replies := cv_replies c @ [resp], cv_session := s\<lparr>se_stats := st1\<rparr>\<rparr>) (p1\<lparr>py_stats := cs\<rparr>))))"

text \<open>\<open>Start\<close>: a session beyond the limit, or before the router is on line, gets an error and is closed.\<close>

definition refused :: "string \<Rightarrow> int \<Rightarrow> Session \<Rightarrow> process \<Rightarrow> process" where
  "refused m now s p =
     (case flushOpStats True now (incrOpFails None (se_stats s)) (py_stats p) of
        (st, cs) \<Rightarrow>
          p\<lparr>py_convs := py_convs p @ [\<lparr>cv_session = (CloseWithError s)\<lparr>se_stats := st\<rparr>, cv_tasks = [], cv_replies = [errorReply m],
                                       cv_reading = False, cv_stuck = False, cv_writing = False\<rparr>], py_stats := cs\<rparr>)"

definition startSession :: "string \<Rightarrow> string \<Rightarrow> int \<Rightarrow> process \<Rightarrow> process" where
  "startSession remote loc now p =
     (let s = NewSession (int (length (py_convs p)) + 1) remote loc now; p1 = p\<lparr>py_stats := (py_stats p)\<lparr>cs_sessions := cs_sessions (py_stats p) + 1\<rparr>\<rparr>
      in if int (length (filter cv_writing (py_convs p))) \<ge> cf_ProxyMaxClients (r_config (g_router (py_gate p)))
         then refused ''ERR max number of clients reached'' now s p1
         else if \<not> isOnline (g_router (py_gate p)) then refused ''ERR router is not online'' now s p1
         else p1\<lparr>py_convs := py_convs p1 @ [\<lparr>cv_session = s, cv_tasks = [], cv_replies = [], cv_reading = True, cv_stuck = False, cv_writing = True\<rparr>]\<rparr>)"

section \<open>The process\<close>

text \<open>
  A connection that fails ends the writer; the reader goes on with what it has buffered until its input ends.
\<close>

datatype event =
    Connect string string int
  | Receive nat env "Resp list"
  | Deliver nat int "answer list"
  | EndOfInput nat
  | Hangup nat int
  | Admin router_op
  | Limit int int int
  | Invalidate int "bytes list"

definition onRouter :: "(Router \<Rightarrow> Router) \<Rightarrow> process \<Rightarrow> process" where
  "onRouter f p = p\<lparr>py_gate := (py_gate p)\<lparr>g_router := f (g_router (py_gate p))\<rparr>\<rparr>"

text \<open>Of what the dashboard does, a new access list also reaches the sessions.\<close>

definition admin :: "router_op \<Rightarrow> process \<Rightarrow> process option" where
  "admin x p =
     (let effect = (case x of Install acl \<Rightarrow> fst (Router_SetACL acl (g_router (py_gate p))) | _ \<Rightarrow> KeepSessions)
      in map_option (\<lambda>r. (onRouter (\<lambda>_. r) p)\<lparr>py_convs := map (\<lambda>c. if cv_writing c then c\<lparr>cv_session := applyEffect effect (cv_session c)\<rparr> else c) (py_convs p)\<rparr>)
           (do_router x (g_router (py_gate p))))"

fun react :: "event \<Rightarrow> process \<Rightarrow> process option" where
  "react (Connect remote loc now) p = Some (startSession remote loc now p)"
| "react (Receive i e multi) p = (if i < length (py_convs p) then loopReader e multi i p else Some p)"
| "react (Deliver i now answers) p = Some (if i < length (py_convs p) then loopWriter now answers i p else p)"
| "react (Hangup i now) p =
     Some (if i < length (py_convs p) \<and> cv_writing (py_convs p ! i) then closeWriter now i p else p)"
| "react (EndOfInput i) p = Some (if i < length (py_convs p) then setConv i ((py_convs p ! i)\<lparr>cv_reading := False\<rparr>) p else p)"
| "react (Admin x) p = admin x p"
| "react (Limit now revision n) p = Some (onRouter (\<lambda>r. r\<lparr>r_qpsLimiter := snd (SetLimit now revision n now (r_qpsLimiter r))\<rparr>) p)"
| "react (Invalidate database keys) p = Some (onRouter (\<lambda>r. r\<lparr>r_hotKeyCache := snd (invalidateRemote database keys (r_hotKeyCache r))\<rparr>) p)"

definition newProcess :: "Router \<Rightarrow> process" where
  "newProcess r =
     \<lparr>py_convs = [], py_guard = config_guard (r_config r), py_gate = \<lparr>g_router = r, g_calls = [], g_pushed = [], g_events = []\<rparr>,
      py_stats = \<lparr>cs_opmap = [], cs_total = 0, cs_fails = 0, cs_errors = 0, cs_sessions = 0\<rparr>\<rparr>"

end
