(* ===== verification/SessionInv.thy ===== *)
theory SessionInv
  imports Conversation
begin

text \<open>
  What the handlers of a session keep: no handler panics, the router stays well-formed, its access list and configuration are
  left alone, and the session changes only where the command says so.
\<close>

section \<open>Handlers return\<close>

definition gkept :: "gate \<Rightarrow> gate \<Rightarrow> bool" where
  "gkept g g1 \<longleftrightarrow>
     router_ok (g_router g1) \<and> r_config (g_router g1) = r_config (g_router g) \<and> r_acl (g_router g1) = r_acl (g_router g)"

lemma gkept_trans: "gkept g g1 \<Longrightarrow> gkept g1 g2 \<Longrightarrow> gkept g g2"
  by (simp add: gkept_def)

lemma gkept_refl: "router_ok (g_router g) \<Longrightarrow> gkept g g"
  by (simp add: gkept_def)

definition ready :: "gate \<Rightarrow> Request \<Rightarrow> bool" where
  "ready g q \<longleftrightarrow> router_ok (g_router g) \<and> request_ok (g_router g) q"

lemma ready_gkept: "ready g q \<Longrightarrow> gkept g g1 \<Longrightarrow> ready g1 q"
  by (simp add: ready_def gkept_def request_ok_def)

lemma ready_multi: "ready g (q\<lparr>rq_Multi := m\<rparr>) = ready g q" "ready g (subRequest e q x) = ready g q"
  by (simp_all add: ready_def request_ok_def subRequest_def)

text \<open>A handler that returns and keeps what \<open>gkept\<close> says.\<close>

definition serves :: "handler \<Rightarrow> bool" where
  "serves f \<longleftrightarrow> (\<forall>q g. ready g q \<longrightarrow> (\<exists>x g1. f q g = Some (x, g1) \<and> gkept g g1))"

lemma servesI: "(\<And>q g. ready g q \<Longrightarrow> \<exists>x g1. f q g = Some (x, g1) \<and> gkept g g1) \<Longrightarrow> serves f"
  by (simp add: serves_def)

lemma servesD: "serves f \<Longrightarrow> ready g q \<Longrightarrow> \<exists>x g1. f q g = Some (x, g1) \<and> gkept g g1"
  by (simp add: serves_def)

lemma slot_bound: "unat (Hash k) mod MaxSlotNum < MaxSlotNum"
  by (simp add: MaxSlotNum_def)

lemma send_ok:
  assumes "ready g q" "\<exists>trace res r. d = Some (trace, res, r) \<and> kept (g_router g) r"
  shows "\<exists>x g1. send d q g = Some (x, g1) \<and> gkept g g1"
proof -
  obtain trace res r where d: "d = Some (trace, res, r)" "kept (g_router g) r" using assms(2) by blast
  then have "router_ok r" "r_config r = r_config (g_router g)" "r_acl r = r_acl (g_router g)" by (auto simp: kept_def)
  then show ?thesis by (auto simp: send_def d(1) gkept_def Let_def split: option.split forwarded.split)
qed

lemma dispatch_returns:
  assumes "ready g q"
  shows "\<exists>trace res r. dispatchByHashKey attempts q k (g_router g) = Some (trace, res, r) \<and> kept (g_router g) r"
    "\<exists>trace res r. dispatch attempts q (g_router g) = Some (trace, res, r) \<and> kept (g_router g) r"
    "\<exists>trace res r. dispatchSlot attempts q i (g_router g) = Some (trace, res, r) \<and> kept (g_router g) r"
proof -
  have ok: "router_ok (g_router g)" "request_ok (g_router g) q" using assms by (auto simp: ready_def)
  show *: "\<exists>trace res r. dispatchByHashKey attempts q k (g_router g) = Some (trace, res, r) \<and> kept (g_router g) r" for k
    using ForwardLoop_ok [OF ok slot_bound, of attempts k k] by (auto simp: dispatchByHashKey_def)
  show "\<exists>trace res r. dispatch attempts q (g_router g) = Some (trace, res, r) \<and> kept (g_router g) r" by (simp add: dispatch_def *)
  show "\<exists>trace res r. dispatchSlot attempts q i (g_router g) = Some (trace, res, r) \<and> kept (g_router g) r"
    using ForwardLoop_ok [OF ok, of "nat i" attempts "[]"] kept_refl [OF ok(1)] by (fastforce simp: dispatchSlot_def)
qed

lemma sendKey_ok: "ready g q \<Longrightarrow> \<exists>x g1. sendKey e k q g = Some (x, g1) \<and> gkept g g1"
  unfolding sendKey_def by (rule send_ok [OF _ dispatch_returns(2)])

lemma sendAll_ok:
  assumes "router_ok (g_router g)" "\<forall>q \<in> set qs. ready g q"
  shows "\<exists>x g1. sendAll e k qs g = Some (x, g1) \<and> gkept g g1"
  using assms
proof (induction qs arbitrary: g k)
  case Nil
  then show ?case by (simp add: gkept_refl)
next
  case (Cons q qs)
  obtain x g1 where x: "sendKey e k q g = Some (x, g1)" "gkept g g1" using sendKey_ok [of g q e k] Cons.prems(2) by auto
  have "router_ok (g_router g1)" "\<forall>q \<in> set qs. ready g1 q" using x(2) Cons.prems(2) ready_gkept by (auto simp: gkept_def)
  from Cons.IH [OF this] obtain y g2 where y: "sendAll e (Suc k) qs g1 = Some (y, g2)" "gkept g1 g2" by blast
  with x gkept_trans [OF x(2) y(2)] show ?case by (cases x) auto
qed

lemma backend_conn:
  assumes "router_ok r" "0 \<le> database" "database < cf_BackendNumberDatabases (r_config r)" "s \<in> set (r_slots r)" "rs_backend_bc s \<noteq> None"
  shows "\<exists>c. BackendConn_of (r_heap r) (rs_backend_bc s) database seed True = Some (Some c)"
proof -
  obtain j where j: "rs_backend_bc s = Some j" using assms(5) by auto
  have "Some j \<in> set (slot_refs s)" by (simp add: slot_refs_def j)
  from slot_ref_listed [OF assms(1,4) this] have "j < length (hp_scs (r_heap r))" by simp
  moreover have "heap_ok (r_config r) (r_heap r)" using assms(1) by (auto simp: router_ok_def refs_ok_def)
  ultimately show ?thesis using BackendConn_of_ok [of "r_config r" "r_heap r" j database seed True] assms(2,3) by (auto simp: j)
qed

lemma dryRunSlot_ok:
  assumes "ready g q" "s \<in> set (r_slots (g_router g))"
  shows "\<exists>t x. aclDryRunSlot call q i s (g_router g) = Some (t, x)"
  using backend_conn [of "g_router g" "rq_Database q" s "Seed16 q"] assms
  by (cases "rs_backend_bc s") (auto simp: aclDryRunSlot_def aclDryRunOnBackend_def ready_def request_ok_def Let_def)

lemma dryRun_ok: "ready g q \<Longrightarrow> \<exists>t x. d = Some (t, x) \<Longrightarrow> \<exists>x g1. dryRun d g = Some (x, g1) \<and> gkept g g1"
  by (auto simp: dryRun_def gkept_def ready_def)

lemma dryRuns_return:
  assumes "ready g q"
  shows "\<exists>t x. aclDryRunKey call q k (g_router g) = Some (t, x)" "\<exists>t x. aclDryRunLocal call q (g_router g) = Some (t, x)"
proof -
  have "r_slots (g_router g) ! (unat (Hash k) mod MaxSlotNum) \<in> set (r_slots (g_router g))"
    using assms slot_bound router_length by (simp add: ready_def)
  with dryRunSlot_ok [OF assms] show "\<exists>t x. aclDryRunKey call q k (g_router g) = Some (t, x)"
    by (auto simp: aclDryRunKey_def split: option.splits)
  show "\<exists>t x. aclDryRunLocal call q (g_router g) = Some (t, x)"
    using dryRunSlot_ok [OF assms] by (auto simp: aclDryRunLocal_def aclDryRunAny_def find_Some_iff split: option.splits)
qed

lemma addrConn_ok:
  assumes ok: "router_ok r" "request_ok r q" and p: "p \<in> {r_primary r, r_replica r}"
  shows "\<exists>bc r1. addrConn p replica q addr r = Some (bc, r1) \<and> kept r r1"
proof (cases "Pool_Get p addr (r_heap r)")
  case None
  then show ?thesis by (simp add: addrConn_def kept_refl [OF ok(1)])
next
  case (Some s)
  have h: "heap_ok (r_config r) (r_heap r)" "p < length (hp_pools (r_heap r))" using ok(1) p by (auto simp: router_ok_def refs_ok_def)
  have "s < length (hp_scs (r_heap r))"
    using Some pool_entry(1) [OF h] by (auto simp: Pool_Get_def Let_def split: if_splits dest: map_of_SomeD)
  moreover have db: "0 \<le> rq_Database q" "rq_Database q < cf_BackendNumberDatabases (r_config r)" using ok(2) by (auto simp: request_ok_def)
  ultimately obtain bc where "BackendConn_of (r_heap r) (Some s) (rq_Database q) (Seed16 q) False = Some bc"
    using BackendConn_of_ok [OF h(1), of s "rq_Database q" "Seed16 q" False] by blast
  moreover have "\<exists>bc r1. userBackendConn addr (rq_Database q) (Seed16 q) replica (Some i) True r = Some (bc, r1) \<and> kept r r1"
    if "rq_ACLIdentity q = Some i" for i
    using userBackendConn_ok [OF ok(1) _ db, of i addr "Seed16 q" replica True] ok(2) that by (fastforce simp: request_ok_def kept_def)
  ultimately show ?thesis using Some kept_refl [OF ok(1)] by (cases "rq_ACLIdentity q") (auto simp: addrConn_def)
qed

lemma dispatchAddr_ok:
  assumes "router_ok r" "request_ok r q"
  shows "\<exists>bc r1. dispatchAddr q addr r = Some (bc, r1) \<and> kept r r1"
proof -
  obtain bc r1 where r1: "addrConn (r_primary r) False q addr r = Some (bc, r1)" "kept r r1"
    using addrConn_ok [OF assms, of "r_primary r" False addr] by auto
  have "router_ok r1" "request_ok r1 q" using r1(2) assms(2) by (auto simp: kept_def request_ok_def)
  from addrConn_ok [OF this, of "r_replica r1" True addr] obtain bc2 r2 where "addrConn (r_replica r1) True q addr r1 = Some (bc2, r2)" "kept r1 r2" by auto
  with r1 kept_trans [OF r1(2)] show ?thesis by (cases bc) (auto simp: dispatchAddr_def)
qed

text \<open>The cache and the limiter are not part of what is kept.\<close>

lemma gkept_cache:
  "router_ok (g_router g) \<Longrightarrow> gkept g (g\<lparr>g_router := (g_router g)\<lparr>r_hotKeyCache := c\<rparr>\<rparr>)"
  "router_ok (g_router g) \<Longrightarrow> gkept g (g\<lparr>g_router := (g_router g)\<lparr>r_qpsLimiter := l\<rparr>\<rparr>)"
  by (simp_all add: gkept_def)

lemma lookup_kept: "hotKeyCacheLookup now db k r = (x, r1) \<Longrightarrow> \<exists>c. r1 = r\<lparr>r_hotKeyCache := c\<rparr>"
  by (cases r) (auto simp: hotKeyCacheLookup_def split: if_splits prod.splits)

lemma lookupKeys_kept: "lookupKeys now db i ks r = (vs, ms, r1) \<Longrightarrow> \<exists>c. r1 = r\<lparr>r_hotKeyCache := c\<rparr>"
proof (induction ks arbitrary: i r vs ms r1)
  case Nil
  then show ?case by (cases r) auto
next
  case (Cons k ks)
  obtain hit r2 where h: "hotKeyCacheLookup now db k r = (hit, r2)" by fastforce
  obtain vs2 ms2 r3 where l: "lookupKeys now db (Suc i) ks r2 = (vs2, ms2, r3)" using prod_cases3 by blast
  from lookup_kept [OF h] Cons.IH [OF l] obtain c d where "r2 = r\<lparr>r_hotKeyCache := c\<rparr>" "r3 = r2\<lparr>r_hotKeyCache := d\<rparr>" by blast
  moreover have "r1 = r3" using Cons.prems by (simp add: h l)
  ultimately show ?case by auto
qed

named_theorems serving

lemma forwardOne_serves [serving]: "serves (forwardOne e)"
  by (rule servesI) (use sendKey_ok [of _ _ e 0] in \<open>fastforce simp: forwardOne_def\<close>)

lemma sendSlot_serves [serving]: "serves (sendSlot e i)"
proof (rule servesI)
  fix q g assume r: "ready g q"
  from send_ok [OF r dispatch_returns(3) [OF r, of "e_attempts e 0" i]] show "\<exists>x g1. sendSlot e i q g = Some (x, g1) \<and> gkept g g1"
    by (fastforce simp: sendSlot_def)
qed

lemma sendAddr_serves [serving]: "serves sendAddr"
proof (rule servesI)
  fix q g assume r: "ready g q"
  define q1 where "q1 = q\<lparr>rq_Multi := hd (rq_Multi q) # drop 2 (rq_Multi q)\<rparr>"
  have "router_ok (g_router g)" "request_ok (g_router g) q1" using r by (auto simp: ready_def request_ok_def q1_def)
  from dispatchAddr_ok [OF this] obtain bc r1 where "dispatchAddr q1 (Value_of (rq_Multi q ! 1)) (g_router g) = Some (bc, r1)" "kept (g_router g) r1" by blast
  then show "\<exists>x g1. sendAddr q g = Some (x, g1) \<and> gkept g g1"
    by (cases bc) (auto simp: sendAddr_def q1_def [symmetric] gkept_def kept_def)
qed

lemma answer_serves [serving]: "serves (\<lambda>q g. Some (Value (x q g), g))"
  by (auto simp: serves_def ready_def gkept_refl)

lemma if_serves [serving]:
  assumes "serves a" "serves b"
  shows "serves (\<lambda>q g. if c q g then a q g else b q g)"
  using assms by (auto simp: serves_def)

lemma mapOutcome_serves:
  assumes "serves f"
  shows "serves (\<lambda>q g. map_option (map_prod (mapOutcome (h q g)) id) (f q g))"
  using assms by (fastforce simp: serves_def)

lemma divide_serves [serving]: "serves (\<lambda>q. divide e co (parts q) q)"
proof (rule servesI)
  fix q g assume r: "ready g q"
  then have "\<forall>x \<in> set (map (subRequest e q) (enumerate 0 (parts q))). ready g x" by (auto simp: ready_multi)
  with sendAll_ok [of g _ e 0] r show "\<exists>x g1. divide e co (parts q) q g = Some (x, g1) \<and> gkept g g1"
    by (fastforce simp: divide_def ready_def)
qed

lemma withPlan_serves [serving]:
  assumes "serves f"
  shows "serves (handleRequestWithHotKeyCacheInvalidation e f)" "serves (handleRequestWithHotKeyCacheInvalidationKeys e keys f)"
  using assms by (fastforce simp: serves_def handleRequestWithHotKeyCacheInvalidation_def handleRequestWithHotKeyCacheInvalidationKeys_def
      handleRequestWithHotKeyCacheInvalidationPlan_def)+


lemma sum_serves [serving]:
  assumes "\<And>x. serves (a x)" "\<And>y. serves (b y)"
  shows "serves (\<lambda>q g. case f q g of Inl x \<Rightarrow> a x q g | Inr y \<Rightarrow> b y q g)"
  using assms by (auto simp: serves_def split: sum.split)

lemma keys_serves [serving]: "serves (handleRequestMGet e)" "serves (handleRequestMSet e)" "serves (handleRequestDel e)" "serves (handleRequestExists e)"
  unfolding handleRequestMGet_def handleRequestMSet_def handleRequestDel_def handleRequestExists_def Let_def
  by (intro if_serves answer_serves forwardOne_serves divide_serves)+

lemma slots_serves [serving]: "serves (handleRequestPing e)" "serves (handleRequestInfo e)" "serves handleRequestSlotsInfo"
    "serves (handleRequestSlotsScan e)" "serves (handleRequestSlotsMapping e)"
  unfolding handleRequestPing_def handleRequestInfo_def handleRequestSlotsInfo_def handleRequestSlotsScan_def handleRequestSlotsMapping_def
  by (intro if_serves answer_serves sendSlot_serves sendAddr_serves sum_serves)+

lemma stream_serves [serving]: "serves (handleRequestStream e)"
proof -
  have "serves (\<lambda>q g. map_option (map_prod (mapOutcome (direct q)) id) (send (dispatchByHashKey (e_attempts e 0) q k (g_router g)) q g))" for k
  proof (rule servesI)
    fix q g assume r: "ready g q"
    from send_ok [OF r dispatch_returns(1) [OF r, of "e_attempts e 0" k]]
    show "\<exists>x g1. map_option (map_prod (mapOutcome (direct q)) id) (send (dispatchByHashKey (e_attempts e 0) q k (g_router g)) q g) = Some (x, g1) \<and> gkept g g1"
      by fastforce
  qed
  note s = this
  show ?thesis unfolding handleRequestStream_def by (intro sum_serves answer_serves withPlan_serves s)
qed

lemma get_serves [serving]: "serves (handleRequestGet e)"
proof (rule servesI)
  fix q g assume r: "ready g q"
  define k where "k = Value_of (rq_Multi q ! Suc 0)"
  obtain hit r1 where h: "hotKeyCacheLookup (e_now e) (rq_Database q) k (g_router g) = (hit, r1)" by fastforce
  have k1: "gkept g (g\<lparr>g_router := r1\<rparr>)" using lookup_kept [OF h] r gkept_cache by (auto simp: ready_def)
  have r1: "ready (g\<lparr>g_router := r1\<rparr>) q" by (rule ready_gkept [OF r k1])
  obtain t x where "aclDryRunKey (e_call e) q k r1 = Some (t, x)" using dryRuns_return(1) [OF r1, of "e_call e" k] by auto
  then obtain y g2 where d: "dryRun (aclDryRunKey (e_call e) q k r1) (g\<lparr>g_router := r1\<rparr>) = Some (y, g2)" "gkept (g\<lparr>g_router := r1\<rparr>) g2"
    using dryRun_ok [OF r1] by metis
  obtain z g3 where f: "forwardOne e q (g\<lparr>g_router := r1\<rparr>) = Some (z, g3)" "gkept (g\<lparr>g_router := r1\<rparr>) g3"
    using servesD [OF forwardOne_serves r1, of e] by blast
  show "\<exists>x g1. handleRequestGet e q g = Some (x, g1) \<and> gkept g g1"
    using servesD [OF forwardOne_serves r, of e] d f gkept_trans [OF k1]
    by (auto simp: handleRequestGet_def Let_def k_def [symmetric] h split: option.split)
qed

lemma mgetCache_serves [serving]: "serves (handleRequestMGetWithHotKeyCache e)"
proof (rule servesI)
  fix q g assume r: "ready g q"
  obtain vs ms r1 where l: "lookupKeys (e_now e) (rq_Database q) 0 (map Value_of (tl (rq_Multi q))) (g_router g) = (vs, ms, r1)" using prod_cases3 by blast
  define k where "k = Value_of (rq_Multi q ! Suc 0)"
  define g1 where "g1 = g\<lparr>g_router := r1\<rparr>"
  have k1: "gkept g g1" using lookupKeys_kept [OF l] r gkept_cache by (auto simp: ready_def g1_def)
  have r1: "ready g1 q" by (rule ready_gkept [OF r k1])
  obtain t x where "aclDryRunKey (e_call e) q k r1 = Some (t, x)" using dryRuns_return(1) [OF r1, of "e_call e" k] by (auto simp: g1_def)
  then obtain y g2 where d: "dryRun (aclDryRunKey (e_call e) q k r1) g1 = Some (y, g2)" "gkept g1 g2"
    using dryRun_ok [OF r1] by metis
  have s: "\<exists>z g4. sendAll e 0 (map (\<lambda>(i, token). subRequest e q (i, [hd (rq_Multi q), rq_Multi q ! Suc i])) ms) g3 = Some (z, g4) \<and> gkept g g4" if "gkept g1 g3" for g3
  proof -
    have "ready g3 q" by (rule ready_gkept [OF r1 that])
    then have "\<exists>z g4. sendAll e 0 (map (\<lambda>(i, token). subRequest e q (i, [hd (rq_Multi q), rq_Multi q ! Suc i])) ms) g3 = Some (z, g4) \<and> gkept g3 g4"
      by (intro sendAll_ok) (auto simp: ready_multi, simp add: ready_def)
    with gkept_trans [OF k1] gkept_trans that show ?thesis by blast
  qed
  have "\<exists>y g2. (if list_ex (\<lambda>v. v \<noteq> None) vs then dryRun (aclDryRunKey (e_call e) q k r1) g1 else Some (Inr None, g1)) = Some (y, g2) \<and> gkept g1 g2"
    using d gkept_refl [of g1] r1 by (auto simp: ready_def)
  then obtain y2 g3 where y: "(if list_ex (\<lambda>v. v \<noteq> None) vs then dryRun (aclDryRunKey (e_call e) q k r1) g1 else Some (Inr None, g1)) = Some (y2, g3)" "gkept g1 g3"
    by blast
  show "\<exists>x g1. handleRequestMGetWithHotKeyCache e q g = Some (x, g1) \<and> gkept g g1"
    using servesD [OF answer_serves r, of "\<lambda>q g. answer q (wrongArity ''MGET'')"] servesD [OF keys_serves(1) r, of e] y(1) s [OF y(2)] gkept_trans [OF k1 y(2)]
    by (auto simp: handleRequestMGetWithHotKeyCache_def Let_def l k_def [symmetric] g1_def [symmetric] split: sum.split option.split)
qed

section \<open>Commands and sessions\<close>

text \<open>What a session handler keeps beside that: the guard, and of the session all but the database.\<close>

definition scope :: "Request \<Rightarrow> world \<Rightarrow> world \<Rightarrow> bool" where
  "scope q w w1 \<longleftrightarrow>
     gkept (w_gate w) (w_gate w1) \<and> w_guard w1 = w_guard w \<and>
     (\<exists>d. w_session w1 = (w_session w)\<lparr>se_database := d\<rparr> \<and>
        (d = se_database (w_session w) \<or>
         0 \<le> d \<and> d < cf_BackendNumberDatabases (config w) \<and> (\<forall>i. rq_ACLIdentity q = Some i \<longrightarrow> si_ForcedDB i = None)))"

definition sserves :: "Request \<Rightarrow> session_handler \<Rightarrow> bool" where
  "sserves q f \<longleftrightarrow> (\<forall>w. ready (w_gate w) q \<longrightarrow> (\<exists>x w1. f q w = Some (x, w1) \<and> scope q w w1))"

lemma scope_refl: "ready (w_gate w) q \<Longrightarrow> scope q w w"
  by (auto simp: scope_def ready_def gkept_refl intro!: exI [of _ "se_database (w_session w)"])

lemma scope_gate: "gkept (w_gate w) g \<Longrightarrow> scope q w (w\<lparr>w_gate := g\<rparr>)"
  by (auto simp: scope_def intro!: exI [of _ "se_database (w_session w)"])

lemma onGate_sserves: "serves f \<Longrightarrow> sserves q (onGate f)"
  unfolding sserves_def onGate_def serves_def using scope_gate by fastforce

lemma reply_sserves: "(\<And>w. ready (w_gate w) q \<Longrightarrow> \<exists>x. f q w = replyWith x q w) \<Longrightarrow> sserves q f"
  unfolding sserves_def by (metis replyWith_def scope_refl)

lemma afterDryRun_sserves:
  assumes "sserves q f"
  shows "sserves q (afterDryRun e f)"
  unfolding sserves_def
proof (intro allI impI)
  fix w :: world
  assume r: "ready (w_gate w) q"
  obtain t x where "aclDryRunLocal (e_call e) q (router w) = Some (t, x)" using dryRuns_return(2) [OF r] by blast
  then obtain y g where d: "dryRun (aclDryRunLocal (e_call e) q (router w)) (w_gate w) = Some (y, g)" "gkept (w_gate w) g"
    using dryRun_ok [OF r] by metis
  have r1: "ready (w_gate (w\<lparr>w_gate := g\<rparr>)) q" using ready_gkept [OF r d(2)] by simp
  from assms r1 obtain z w2 where z: "f q (w\<lparr>w_gate := g\<rparr>) = Some (z, w2)" "scope q (w\<lparr>w_gate := g\<rparr>) w2" unfolding sserves_def by blast
  have "scope q w w2" using z(2) d(2) gkept_trans by (fastforce simp: scope_def gkept_def)
  with d z scope_gate [OF d(2), of q] show "\<exists>x w1. afterDryRun e f q w = Some (x, w1) \<and> scope q w w1"
    by (auto simp: afterDryRun_def replyWith_def Let_def split: sum.split option.split)
qed

lemma select_sserves: "(\<forall>i. rq_ACLIdentity q = Some i \<longrightarrow> si_ForcedDB i = None) \<Longrightarrow> sserves q handleSelect"
  unfolding sserves_def
  using scope_refl [of _ q] by (auto simp: handleSelect_def replyWith_def scope_def onSession_def ready_def gkept_refl split: sum.split)

lemma if_sserves: "sserves q a \<Longrightarrow> sserves q b \<Longrightarrow> sserves q (\<lambda>q w. if c q w then a q w else b q w)"
  by (auto simp: sserves_def)

lemma local_sserves: "sserves q (replyWith x)" "sserves q handleRequestACL" "sserves q (handleRequestClient e others)" "sserves q (handleCluster e)"
proof -
  show "sserves q (replyWith x)" by (rule reply_sserves) blast
  show "sserves q handleRequestACL"
    by (rule reply_sserves) (auto simp: handleRequestACL_def split: option.split)
  show "sserves q (handleRequestClient e others)"
    by (rule reply_sserves) (auto simp: handleRequestClient_def split: sum.split)
  show "sserves q (handleCluster e)"
    using scope_refl [of _ q] by (auto simp: sserves_def handleCluster_def replyWith_def split: sum.split)
qed

lemma select_case:
  "sserves q (\<lambda>q w. if (case rq_ACLIdentity q of Some i \<Rightarrow> si_ForcedDB i \<noteq> None | None \<Rightarrow> False) then replyWith RespOK q w else afterDryRun e handleSelect q w)"
proof (cases "case rq_ACLIdentity q of Some i \<Rightarrow> si_ForcedDB i \<noteq> None | None \<Rightarrow> False")
  case True
  with local_sserves(1) [of q RespOK] show ?thesis by (simp add: sserves_def)
next
  case False
  then have "\<forall>i. rq_ACLIdentity q = Some i \<longrightarrow> si_ForcedDB i = None" by auto
  from afterDryRun_sserves [OF select_sserves [OF this], of e] False show ?thesis by (simp add: sserves_def)
qed

lemma handleCommand_sserves: "sserves q (handleCommand e others)"
  unfolding handleCommand_def Let_def
  by (intro select_case if_sserves local_sserves afterDryRun_sserves onGate_sserves serving)

section \<open>Logins\<close>

definition credentials :: "Resp list \<Rightarrow> string \<times> bytes" where
  "credentials multi =
     (if length multi = 3 then (Value_of (multi ! 1), Value_of (multi ! 2)) else (''default'', Value_of (multi ! 1)))"

text \<open>A command that logs in with the password of the proxy, or as a user of the access list.\<close>

definition legacy_login :: "Router \<Rightarrow> Resp list \<Rightarrow> bool" where
  "legacy_login r multi \<longleftrightarrow>
     \<not> aclAuthEnabled r \<and> length multi = 2 \<and> cf_SessionAuth (r_config r) \<noteq> [] \<and> Value_of (multi ! 1) = cf_SessionAuth (r_config r)"

definition user_login :: "Router \<Rightarrow> Resp list \<Rightarrow> ACLUser \<Rightarrow> int \<Rightarrow> bool" where
  "user_login r multi user revision \<longleftrightarrow>
     aclAuthEnabled r \<and> length multi \<in> {2, 3} \<and>
     (case r_acl r of
        None \<Rightarrow> False
      | Some a \<Rightarrow>
          as_Revision a = revision \<and> map_of (as_Users a) (fst (credentials multi)) = Some user \<and> au_Enabled user \<and>
          aclPasswordAllowed user (ACLPasswordHash (snd (credentials multi))))"

definition logged_in :: "Router \<Rightarrow> Resp list \<Rightarrow> SessionACLIdentity \<Rightarrow> bool" where
  "logged_in r multi i \<longleftrightarrow>
     (\<exists>user. user_login r multi user (si_Revision i) \<and> si_ForcedDB i = au_DB user \<and> si_Username i = fst (credentials multi)) \<and>
     identity_ok i \<and> (\<forall>d. si_ForcedDB i = Some d \<longrightarrow> 0 \<le> d \<and> d < cf_BackendNumberDatabases (r_config r))"

lemma aclLogin_ok:
  assumes "aclLogin a n username password = LoggedIn i"
  shows "\<exists>user. map_of (as_Users a) username = Some user \<and> au_Enabled user \<and> aclPasswordAllowed user (ACLPasswordHash password) \<and>
    si_ForcedDB i = au_DB user" "si_Username i = username" "si_Revision i = as_Revision a" "identity_ok i"
    "\<forall>d. si_ForcedDB i = Some d \<longrightarrow> 0 \<le> d \<and> d < n" "\<not> si_Stale i"
  using assms by (auto simp: aclLogin_def Let_def identity_ok_def split: option.splits if_splits)

text \<open>What a command can do to the authorization of a session.\<close>

definition unchanged :: "Session \<Rightarrow> Session \<Rightarrow> bool" where
  "unchanged s s1 \<longleftrightarrow>
     (se_aclIdentity s1 = se_aclIdentity s \<or> se_aclIdentity s1 = None) \<and> se_database s1 = se_database s \<and> (se_authorized s1 \<longrightarrow> se_authorized s)"

definition entered :: "SessionACLIdentity \<Rightarrow> Session \<Rightarrow> Session \<Rightarrow> bool" where
  "entered i s s1 \<longleftrightarrow>
     se_aclIdentity s1 = Some i \<and> se_database s1 = (case si_ForcedDB i of Some d \<Rightarrow> d | None \<Rightarrow> se_database s)"

lemma handleAuth_ok:
  "\<exists>x w1. handleAuth e q w = Some (x, w1) \<and> w_gate w1 = w_gate w \<and>
     (unchanged (w_session w) (w_session w1) \<or>
      (legacy_login (router w) (rq_Multi q) \<and> se_aclIdentity (w_session w1) = se_aclIdentity (w_session w) \<and> se_database (w_session w1) = se_database (w_session w)) \<or>
      (\<exists>i. logged_in (router w) (rq_Multi q) i \<and> entered i (w_session w) (w_session w1)))"
proof (cases "aclAuthEnabled (router w)")
  case False
  then show ?thesis
    by (auto simp: handleAuth_def handleLegacyAuth_def replyWith_def unchanged_def legacy_login_def Let_def split: prod.split)
next
  case True
  then obtain a where a: "r_acl (router w) = Some a" "as_Enabled a" by (auto simp: aclAuthEnabled_def split: option.splits)
  obtain username password where c: "credentials (rq_Multi q) = (username, password)" by fastforce
  have i: "logged_in (router w) (rq_Multi q) i"
    if "aclLogin a (cf_BackendNumberDatabases (config w)) username password = LoggedIn i" "length (rq_Multi q) = 2 \<or> length (rq_Multi q) = 3" for i
    using aclLogin_ok [OF that(1)] that(2) True by (auto simp: logged_in_def user_login_def a c)
  then show ?thesis
    using True c by (auto simp: handleAuth_def handleACLAuth_def a credentials_def finishLogin_def replyWith_def unchanged_def entered_def setACLIdentity_def
        clearACLIdentity_def Let_def split: prod.split login.split)
qed

text \<open>What authorization means when it was given.\<close>

lemma authorize_None: "authorize q w = (None, w1) \<Longrightarrow> w_gate w1 = w_gate w \<and> unchanged (w_session w) (w_session w1)"
  by (auto simp: authorize_def isACLAuthorized_def onSession_def unchanged_def clearACLIdentity_def split: if_splits option.splits)

lemma authorize_Some:
  assumes "authorize q w = (Some q1, w1)"
  shows "w_gate w1 = w_gate w \<and> w_guard w1 = w_guard w \<and>
    (if aclAuthEnabled (router w)
     then w1 = w \<and> q1 = q\<lparr>rq_ACLIdentity := se_aclIdentity (w_session w)\<rparr> \<and>
       (\<exists>i a. se_aclIdentity (w_session w) = Some i \<and> r_acl (router w) = Some a \<and> si_Revision i = as_Revision a \<and> \<not> si_Stale i)
     else q1 = q \<and> w_session w1 = (w_session w)\<lparr>se_authorized := True\<rparr> \<and> (se_authorized (w_session w) \<or> cf_SessionAuth (config w) = []))"
proof -
  have "s\<lparr>se_authorized := True\<rparr> = s" if "se_authorized s" for s :: Session using that by (cases s) simp
  with assms show ?thesis by (auto simp: authorize_def isACLAuthorized_def onSession_def split: if_splits option.splits)
qed

text \<open>A session that may give commands.\<close>

definition admitted :: "world \<Rightarrow> bool" where
  "admitted w \<longleftrightarrow>
     (if aclAuthEnabled (router w)
      then (case (se_aclIdentity (w_session w), r_acl (router w)) of (Some i, Some a) \<Rightarrow> si_Revision i = as_Revision a \<and> \<not> si_Stale i | _ \<Rightarrow> False)
      else se_authorized (w_session w) \<or> cf_SessionAuth (config w) = [])"

definition is_auth :: "('e) env_scheme \<Rightarrow> Resp list \<Rightarrow> bool" where
  "is_auth e multi \<longleftrightarrow> (case getOpInfo (e_upper e) multi of Inl _ \<Rightarrow> False | Inr (op, flag) \<Rightarrow> op = ''AUTH'')"

text \<open>No command, or one of a login.\<close>

definition silent :: "('e) env_scheme \<Rightarrow> Resp list \<Rightarrow> world \<Rightarrow> world \<Rightarrow> bool" where
  "silent e multi w w1 \<longleftrightarrow>
     w_gate w1 = w_gate w \<and>
     (unchanged (w_session w) (w_session w1) \<or>
      is_auth e multi \<and>
        (legacy_login (router w) multi \<and> se_aclIdentity (w_session w1) = se_aclIdentity (w_session w) \<and> se_database (w_session w1) = se_database (w_session w) \<or>
         (\<exists>i. logged_in (router w) multi i \<and> entered i (w_session w) (w_session w1))))"

definition executed :: "world \<Rightarrow> world \<Rightarrow> bool" where
  "executed w w1 \<longleftrightarrow>
     admitted w \<and> gkept (w_gate w) (w_gate w1) \<and> se_aclIdentity (w_session w1) = se_aclIdentity (w_session w) \<and>
     (se_authorized (w_session w1) \<longrightarrow> se_authorized (w_session w) \<or> \<not> aclAuthEnabled (router w) \<and> cf_SessionAuth (config w) = []) \<and>
     (se_database (w_session w1) = se_database (w_session w) \<or>
      0 \<le> se_database (w_session w1) \<and> se_database (w_session w1) < cf_BackendNumberDatabases (config w) \<and>
      (aclAuthEnabled (router w) \<longrightarrow> (\<forall>i. se_aclIdentity (w_session w) = Some i \<longrightarrow> si_ForcedDB i = None)))"

lemma limited_ok:
  assumes "ready (w_gate w) q"
  shows "\<exists>x w1. limited e others q w = Some (x, w1) \<and> gkept (w_gate w) (w_gate w1) \<and>
    se_aclIdentity (w_session w1) = se_aclIdentity (w_session w) \<and> se_authorized (w_session w1) = se_authorized (w_session w) \<and>
    (se_database (w_session w1) = se_database (w_session w) \<or> 0 \<le> se_database (w_session w1) \<and> se_database (w_session w1) < cf_BackendNumberDatabases (config w) \<and>
       (\<forall>i. rq_ACLIdentity q = Some i \<longrightarrow> si_ForcedDB i = None))"
proof -
  obtain allowed l where a: "Allow (e_now e) (e_now e) (r_qpsLimiter (router w)) = (allowed, l)" by fastforce
  define w1 where "w1 = w\<lparr>w_gate := (w_gate w)\<lparr>g_router := (router w)\<lparr>r_qpsLimiter := l\<rparr>\<rparr>\<rparr>"
  have k: "gkept (w_gate w) (w_gate w1)" "w_session w1 = w_session w" "config w1 = config w" using assms by (auto simp: gkept_def w1_def ready_def)
  from ready_gkept [OF assms k(1)] handleCommand_sserves [of q e others] obtain x w2 where c: "handleCommand e others q w1 = Some (x, w2)" "scope q w1 w2"
    unfolding sserves_def by blast
  show ?thesis
  proof (cases allowed)
    case True
    with c k gkept_trans [OF k(1)] show ?thesis by (auto simp: limited_def a Let_def w1_def [symmetric] scope_def)
  next
    case False
    with k show ?thesis by (auto simp: limited_def a Let_def w1_def [symmetric] onSession_def)
  qed
qed

lemma handleRequest_ok:
  assumes "router_ok (router w)" "0 \<le> rq_Database q" "rq_Database q < cf_BackendNumberDatabases (config w)" "rq_ACLIdentity q = None"
    and "\<And>i. se_aclIdentity (w_session w) = Some i \<Longrightarrow> identity_ok i"
  shows "\<exists>x w1. handleRequest e others q w = Some (x, w1) \<and> (silent e (rq_Multi q) w w1 \<or> executed w w1)"
proof (cases "getOpInfo (e_upper e) (rq_Multi q)")
  case (Inl x)
  then show ?thesis by (auto simp: handleRequest_def silent_def unchanged_def)
next
  case (Inr y)
  then obtain op flag where op: "getOpInfo (e_upper e) (rq_Multi q) = Inr (op, flag)" by (cases y) auto
  define q1 where "q1 = q\<lparr>rq_OpStr := op, rq_OpFlag := flag, rq_Broken := se_broken (w_session w)\<rparr>"
  define w1 where "w1 = onSession (\<lambda>s. s\<lparr>se_lastOpStr := op\<rparr>) w"
  have w1: "w_gate w1 = w_gate w" "se_aclIdentity (w_session w1) = se_aclIdentity (w_session w)" "se_authorized (w_session w1) = se_authorized (w_session w)"
    "se_database (w_session w1) = se_database (w_session w)" by (simp_all add: w1_def onSession_def)
  define bad where "bad \<longleftrightarrow> op = ''CLUSTER'' \<and> cf_ClusterNodesCompat (config w) = ''disabled'' \<or> IsNotAllowed flag"
  have eq: "handleRequest e others q w =
    (if bad then Some (Error (notAllowed op), w1) else if op = ''QUIT'' then handleQuit q1 w1 else if op = ''AUTH'' then handleAuth e q1 w1
     else (case authorize q1 w1 of (None, w2) \<Rightarrow> replyWith (errorReply ''NOAUTH Authentication required'') q1 w2 | (Some q2, w2) \<Rightarrow> limited e others q2 w2))"
    unfolding handleRequest_def op q1_def w1_def bad_def Let_def by simp
  consider "bad" | "\<not> bad" "op = ''QUIT''" | "\<not> bad" "op = ''AUTH''" | "\<not> bad" "op \<noteq> ''QUIT''" "op \<noteq> ''AUTH''" by blast
  then show ?thesis
  proof cases
    case 1
    then show ?thesis by (simp add: eq silent_def unchanged_def w1)
  next
    case 2
    then show ?thesis by (simp add: eq handleQuit_def replyWith_def silent_def unchanged_def w1 onSession_def)
  next
    case 3
    then have "is_auth e (rq_Multi q)" by (simp add: is_auth_def op)
    moreover have "entered i (w_session w1) s = entered i (w_session w) s" "unchanged (w_session w1) s = unchanged (w_session w) s" for i s
      by (simp_all add: entered_def unchanged_def w1 split: option.split)
    ultimately show ?thesis using 3 handleAuth_ok [of e q1 w1] by (auto simp: eq silent_def w1) (auto simp: q1_def)
  next
    case 4
    obtain a w2 where a: "authorize q1 w1 = (a, w2)" by fastforce
    show ?thesis
    proof (cases a)
      case None
      with 4 a authorize_None [of q1 w1 w2] show ?thesis by (auto simp: eq replyWith_def silent_def unchanged_def w1)
    next
      case (Some q2)
      note s = authorize_Some [OF a [unfolded Some]]
      have "ready (w_gate w2) q2" using assms s w1 by (auto simp: ready_def request_ok_def q1_def split: if_splits)
      from limited_ok [OF this, of e others] 4 a Some eq obtain x w3 where "handleRequest e others q w = Some (x, w3)" "gkept (w_gate w2) (w_gate w3)"
        "se_aclIdentity (w_session w3) = se_aclIdentity (w_session w2)" "se_authorized (w_session w3) = se_authorized (w_session w2)"
        "se_database (w_session w3) = se_database (w_session w2) \<or> 0 \<le> se_database (w_session w3) \<and> se_database (w_session w3) < cf_BackendNumberDatabases (config w2) \<and>
         (\<forall>i. rq_ACLIdentity q2 = Some i \<longrightarrow> si_ForcedDB i = None)" by auto
      with s w1 show ?thesis by (auto simp: executed_def admitted_def split: if_splits)
    qed
  qed
qed

end
