(* ===== verification/SessionSafety.thy ===== *)
theory SessionSafety
  imports SessionInv
begin

text \<open>
  The histories of the sessions of a proxy: clients connect, send commands and are answered, while the dashboard fills
  slots and installs access lists.  No history makes a handler panic, and no command is executed for a client that has not
  logged in.
\<close>

section \<open>Responses keep the router\<close>

definition recached :: "Router \<Rightarrow> Router \<Rightarrow> bool" where
  "recached r r1 \<longleftrightarrow> (\<exists>c. r1 = r\<lparr>r_hotKeyCache := c\<rparr>)"

lemma recached_refl: "recached r r"
  by (auto simp: recached_def intro!: exI [of _ "r_hotKeyCache r"])

lemma recached_trans: "recached r r1 \<Longrightarrow> recached r1 r2 \<Longrightarrow> recached r r2"
  by (auto simp: recached_def)

lemma recached_gkept: "recached (g_router g) r \<Longrightarrow> router_ok (g_router g) \<Longrightarrow> gkept g (g\<lparr>g_router := r\<rparr>)"
  using gkept_cache(1) by (auto simp: recached_def)

lemma store_recached: "recached r (hotKeyCacheStore now token resp r)"
proof -
  have "recached r (r\<lparr>r_hotKeyCache := c\<rparr>)" for c by (auto simp: recached_def)
  with recached_refl show ?thesis by (simp add: hotKeyCacheStore_def split: option.split)
qed

lemma coMGetCache_recached: "coMGetCache now ms as vs r = (x, r1) \<Longrightarrow> recached r r1"
proof (induction now ms as vs r rule: coMGetCache.induct)
  case (1 now i token ms a as vs r)
  from 1 show ?case by (auto simp: recached_refl intro: recached_trans [OF store_recached] split: sum.splits)
qed (auto simp: recached_refl)

lemma plan_apply_kept: "router_ok (g_router g) \<Longrightarrow> gkept g (plan_apply p resp g)"
  by (auto simp: plan_apply_def gkept_def Let_def)

lemma runCoalesce_kept:
  assumes "router_ok (g_router g)" "runCoalesce now co as err resp g = (x, g1)"
  shows "gkept g g1"
  using assms
proof (induction co arbitrary: x g1)
  case (CoPlan co p)
  obtain y g2 where r: "runCoalesce now co as err resp g = (y, g2)" by fastforce
  with CoPlan.IH [OF CoPlan.prems(1) this] CoPlan.prems(2) plan_apply_kept gkept_trans show ?case
    by (auto simp: gkept_def split: prod.splits)
next
  case (CoMGetCache ms vs)
  then show ?case using coMGetCache_recached recached_gkept by (fastforce split: prod.splits)
qed (auto simp: gkept_refl recached_gkept [OF store_recached] split: if_splits)

lemma handleResponse_kept: "router_ok (g_router g) \<Longrightarrow> handleResponse now h answers g = (x, g1) \<Longrightarrow> gkept g g1"
  using runCoalesce_kept by (fastforce simp: handleResponse_def Let_def split: prod.splits)

section \<open>The invariant\<close>

text \<open>
  What holds of a conversation: its database is one of the databases; its identity, if it has one, satisfies \<open>A\<close>; while it
  is registered it has an identity only under an access list, a user bound to a database is in this database, and when
  it is authorized without an access list \<open>B\<close> holds.
\<close>

definition conv_ok :: "Router \<Rightarrow> (SessionACLIdentity \<Rightarrow> bool) \<Rightarrow> bool \<Rightarrow> conversation \<Rightarrow> bool" where
  "conv_ok r A B c \<longleftrightarrow>
     (let s = cv_session c
      in 0 \<le> se_database s \<and> se_database s < cf_BackendNumberDatabases (r_config r) \<and>
         (\<forall>i. se_aclIdentity s = Some i \<longrightarrow> identity_ok i \<and> A i) \<and>
         (cv_writing c \<longrightarrow>
            (\<forall>i. se_aclIdentity s = Some i \<longrightarrow> aclAuthEnabled r \<and> (\<forall>d. si_ForcedDB i = Some d \<longrightarrow> se_database s = d)) \<and>
            (se_authorized s \<longrightarrow> aclAuthEnabled r \<or> B)))"

abbreviation prouter :: "process \<Rightarrow> Router" where
  "prouter p \<equiv> g_router (py_gate p)"

definition process_ok :: "Config \<Rightarrow> (nat \<Rightarrow> SessionACLIdentity \<Rightarrow> bool) \<Rightarrow> (nat \<Rightarrow> bool) \<Rightarrow> process \<Rightarrow> bool" where
  "process_ok cfg A B p \<longleftrightarrow>
     router_ok (prouter p) \<and> r_config (prouter p) = cfg \<and> 1 \<le> cf_BackendNumberDatabases cfg \<and>
     (\<forall>i < length (py_convs p). conv_ok (prouter p) (A i) (B i) (py_convs p ! i))"

text \<open>Marking an identity as stale does not change what \<open>A\<close> is about.\<close>

definition stable :: "(SessionACLIdentity \<Rightarrow> bool) \<Rightarrow> bool" where
  "stable A \<longleftrightarrow> (\<forall>i. A i \<longrightarrow> A (i\<lparr>si_Stale := True\<rparr>))"

lemma conv_okI:
  assumes "0 \<le> se_database (cv_session c)" "se_database (cv_session c) < cf_BackendNumberDatabases (r_config r)"
    and "\<And>i. se_aclIdentity (cv_session c) = Some i \<Longrightarrow> identity_ok i \<and> A i"
    and "\<And>i d. cv_writing c \<Longrightarrow> se_aclIdentity (cv_session c) = Some i \<Longrightarrow> aclAuthEnabled r \<and> (si_ForcedDB i = Some d \<longrightarrow> se_database (cv_session c) = d)"
    and "cv_writing c \<Longrightarrow> se_authorized (cv_session c) \<Longrightarrow> aclAuthEnabled r \<or> B"
  shows "conv_ok r A B c"
  using assms by (simp add: conv_ok_def)

lemma conv_okD:
  assumes "conv_ok r A B c"
  shows "0 \<le> se_database (cv_session c)" "se_database (cv_session c) < cf_BackendNumberDatabases (r_config r)"
    and "se_aclIdentity (cv_session c) = Some i \<Longrightarrow> identity_ok i \<and> A i"
    and "cv_writing c \<Longrightarrow> se_aclIdentity (cv_session c) = Some i \<Longrightarrow> aclAuthEnabled r"
    and "cv_writing c \<Longrightarrow> se_aclIdentity (cv_session c) = Some i \<Longrightarrow> si_ForcedDB i = Some d \<Longrightarrow> se_database (cv_session c) = d"
    and "cv_writing c \<Longrightarrow> se_authorized (cv_session c) \<Longrightarrow> aclAuthEnabled r \<or> B"
  using assms by (auto simp: conv_ok_def Let_def)

lemma conv_ok_mono: "conv_ok r A B c \<Longrightarrow> (\<And>i. A i \<Longrightarrow> A1 i) \<Longrightarrow> (B \<Longrightarrow> B1) \<Longrightarrow> conv_ok r A1 B1 c"
  by (auto simp: conv_ok_def Let_def)

lemma conv_ok_router: "r_config r1 = r_config r \<Longrightarrow> r_acl r1 = r_acl r \<Longrightarrow> conv_ok r1 A B c = conv_ok r A B c"
  by (simp add: conv_ok_def aclAuthEnabled_def)

lemma conv_ok_stats:
  "conv_ok r A B c \<Longrightarrow> conv_ok r A B (c\<lparr>cv_tasks := ts, cv_replies := rs, cv_session := (cv_session c)\<lparr>se_stats := st\<rparr>\<rparr>)"
  "conv_ok r A B c \<Longrightarrow> conv_ok r A B (c\<lparr>cv_reading := b\<rparr>)"
  "conv_ok r A B c \<Longrightarrow> conv_ok r A B (c\<lparr>cv_session := (cv_session c)\<lparr>se_stats := st\<rparr>, cv_reading := b\<rparr>)"
  by (simp_all add: conv_ok_def Let_def)

lemma conv_ok_closed:
  "0 \<le> se_database s \<Longrightarrow> se_database s < cf_BackendNumberDatabases (r_config r) \<Longrightarrow> se_aclIdentity s = None \<Longrightarrow> \<not> cv_writing c \<Longrightarrow> cv_session c = s \<Longrightarrow>
   conv_ok r A B c"
  by (simp add: conv_ok_def)

lemma applyEffect_ok:
  assumes c: "conv_ok r A B c" and A: "stable A" and i: "installACL acl r = (x, changed, r1)"
  shows "conv_ok r1 A B (if cv_writing c then c\<lparr>cv_session := applyEffect x (cv_session c)\<rparr> else c)"
proof -
  have r1: "r_config r1 = r_config r" "r_acl r1 = Some (NewACLSnapshot acl)" using i by (auto simp: installACL_def Let_def)
  have e: "x = ClearAuthorization \<or> aclAuthEnabled r1 \<or> \<not> aclAuthEnabled r"
    using i by (auto simp: installACL_def aclAuthEnabled_def Let_def split: if_splits option.splits)
  have "identity_ok (k\<lparr>si_Stale := True\<rparr>) = identity_ok k" for k by (simp add: identity_ok_def)
  with c e A r1 show ?thesis
    by (cases x) (auto simp: conv_ok_def applyEffect_def markACLStale_def clearACLAuthorization_def clearACLIdentity_def stable_def Let_def split: option.splits)
qed

section \<open>Every event\<close>

text \<open>A conversation may change in one place when the router keeps access list and configuration.\<close>

lemma process_set:
  assumes p: "process_ok cfg A B p" and g: "gkept (py_gate p) g" and py: "py_convs p1 = (py_convs p)[i := c]" "py_gate p1 = g"
    and c: "i < length (py_convs p) \<Longrightarrow> conv_ok (prouter p) (A1 i) (B1 i) c"
    and mono: "\<And>j k. A j k \<Longrightarrow> A1 j k" "\<And>j. B j \<Longrightarrow> B1 j"
  shows "process_ok cfg A1 B1 p1"
proof -
  have r: "router_ok (prouter p1)" "r_config (prouter p1) = r_config (prouter p)" "r_acl (prouter p1) = r_acl (prouter p)"
    using g py(2) by (auto simp: gkept_def)
  have "conv_ok (prouter p1) (A1 j) (B1 j) (py_convs p1 ! j)" if "j < length (py_convs p1)" for j
  proof (cases "j = i")
    case True
    with c that show ?thesis by (simp add: conv_ok_router [OF r(2,3)] py(1))
  next
    case False
    with p that have "conv_ok (prouter p) (A j) (B j) (py_convs p1 ! j)" by (simp add: process_ok_def py(1))
    then show ?thesis unfolding conv_ok_router [OF r(2,3)] by (rule conv_ok_mono) (use mono in auto)
  qed
  with p r show ?thesis by (simp add: process_ok_def)
qed

lemma process_mono:
  "process_ok cfg A B p \<Longrightarrow> (\<And>j k. A j k \<Longrightarrow> A1 j k) \<Longrightarrow> (\<And>j. B j \<Longrightarrow> B1 j) \<Longrightarrow> process_ok cfg A1 B1 p"
  by (auto simp: process_ok_def intro: conv_ok_mono)

lemma closeWriter_ok:
  assumes "process_ok cfg A B p" "i < length (py_convs p)"
  shows "process_ok cfg A B (closeWriter now i p)"
proof -
  have "conv_ok (prouter p) (A i) (B i) (py_convs p ! i)" using assms by (simp add: process_ok_def)
  then have c: "conv_ok (prouter p) (A i) (B i) (py_convs (closeWriter now i p) ! i)"
    using assms(2) by (auto simp: closeWriter_def conv_ok_def CloseWithError_def clearACLIdentity_def setConv_def Let_def split: prod.split)
  have eqs: "py_convs (closeWriter now i p) = (py_convs p)[i := py_convs (closeWriter now i p) ! i]" "py_gate (closeWriter now i p) = py_gate p"
    using assms(2) by (auto simp: closeWriter_def setConv_def Let_def split: prod.split)
  have "router_ok (prouter p)" using assms(1) by (simp add: process_ok_def)
  from process_set [OF assms(1) gkept_refl [OF this] eqs, of A B] c show ?thesis by simp
qed

lemma loopWriter_ok:
  assumes p: "process_ok cfg A B p" and i: "i < length (py_convs p)"
  shows "process_ok cfg A B (loopWriter now answers i p)"
proof -
  define c where "c = py_convs p ! i"
  have c: "conv_ok (prouter p) (A i) (B i) c" "router_ok (prouter p)" using p i by (simp_all add: process_ok_def c_def)
  show ?thesis
  proof (cases "\<not> cv_writing c \<or> cv_tasks c = []")
    case True
    with p closeWriter_ok [OF p i, of now] show ?thesis by (auto simp: loopWriter_def c_def Let_def split: list.split)
  next
    case False
    then obtain h hs where t: "cv_writing c" "cv_tasks c = h # hs" by (cases "cv_tasks c") auto
    obtain res g where h: "handleResponse now h answers (py_gate p) = (res, g)" by fastforce
    note g = handleResponse_kept [OF c(2) h]
    have set: "process_ok cfg A B (setConv i (c\<lparr>cv_tasks := ts, cv_replies := rs, cv_session := (cv_session c)\<lparr>se_stats := st\<rparr>\<rparr>) (p\<lparr>py_gate := g, py_stats := cs\<rparr>))"
      for ts rs st cs
      by (rule process_set [OF p g]) (use conv_ok_stats(1) [OF c(1)] in \<open>auto simp: setConv_def\<close>)
    have set0: "process_ok cfg A B (setConv i (c\<lparr>cv_tasks := ts, cv_replies := rs, cv_session := (cv_session c)\<lparr>se_stats := st\<rparr>\<rparr>) (p\<lparr>py_gate := g\<rparr>))"
      for ts rs st
      by (rule process_set [OF p g]) (use conv_ok_stats(1) [OF c(1)] in \<open>auto simp: setConv_def\<close>)
    show ?thesis
      using t set set0 closeWriter_ok [OF set0] i
      by (auto simp: loopWriter_def c_def [symmetric] h Let_def setConv_def split: prod.split)
  qed
qed

text \<open>The reader: what the handler did to the session is what the invariant asks for.\<close>

lemma handled_ok:
  assumes c: "conv_ok r A B c" and w: "w_session w = s" "router w = r"
    and s: "se_database s = se_database (cv_session c)" "se_aclIdentity s = se_aclIdentity (cv_session c)" "se_authorized s = se_authorized (cv_session c)"
    and h: "silent e multi w w1 \<or> executed w w1" and n: "1 \<le> cf_BackendNumberDatabases (r_config r)"
    and A: "\<And>k. is_auth e multi \<Longrightarrow> logged_in r multi k \<Longrightarrow> A1 k" "\<And>k. A k \<Longrightarrow> A1 k"
    and B: "is_auth e multi \<Longrightarrow> legacy_login r multi \<Longrightarrow> B1" "cf_SessionAuth (r_config r) = [] \<Longrightarrow> B1" "B \<Longrightarrow> B1"
    and c1: "cv_session c1 = w_session w1" "cv_writing c1 \<Longrightarrow> cv_writing c"
  shows "conv_ok r A1 B1 c1"
proof -
  note d = conv_okD [OF c, folded s]
  consider "executed w w1" | "unchanged s (w_session w1)" | "silent e multi w w1" "\<not> unchanged s (w_session w1)" using h by blast
  then show ?thesis
  proof cases
    case 1
    then have x: "se_aclIdentity (w_session w1) = se_aclIdentity s" "se_authorized (w_session w1) \<Longrightarrow> se_authorized s \<or> cf_SessionAuth (r_config r) = []"
      "se_database (w_session w1) = se_database s \<or> 0 \<le> se_database (w_session w1) \<and> se_database (w_session w1) < cf_BackendNumberDatabases (r_config r) \<and>
        (aclAuthEnabled r \<longrightarrow> (\<forall>i. se_aclIdentity s = Some i \<longrightarrow> si_ForcedDB i = None))" unfolding executed_def w by blast+
    show ?thesis
    proof (rule conv_okI)
      fix i d assume "cv_writing c1" "se_aclIdentity (cv_session c1) = Some i"
      with d(4,5) x(1,3) c1 show "aclAuthEnabled r \<and> (si_ForcedDB i = Some d \<longrightarrow> se_database (cv_session c1) = d)" by fastforce
    qed (use d x c1 A B in auto)
  next
    case 2
    then have x: "\<And>i. se_aclIdentity (w_session w1) = Some i \<Longrightarrow> se_aclIdentity s = Some i" "se_database (w_session w1) = se_database s"
      "se_authorized (w_session w1) \<Longrightarrow> se_authorized s" by (auto simp: unchanged_def)
    show ?thesis by (rule conv_okI) (use d x c1 A B in auto)
  next
    case 3
    then have l: "is_auth e multi" "(legacy_login r multi \<and> se_aclIdentity (w_session w1) = se_aclIdentity s \<and> se_database (w_session w1) = se_database s) \<or>
        (\<exists>i. logged_in r multi i \<and> entered i s (w_session w1))" by (simp_all add: silent_def w)
    from l(2) show ?thesis
    proof (elim disjE exE conjE)
      assume "legacy_login r multi" "se_aclIdentity (w_session w1) = se_aclIdentity s" "se_database (w_session w1) = se_database s"
      then show ?thesis by (intro conv_okI) (use l(1) d c1 A(2) B(1) in auto)
    next
      fix i assume i: "logged_in r multi i" "entered i s (w_session w1)"
      then have "aclAuthEnabled r" "identity_ok i" "A1 i" "\<forall>d. si_ForcedDB i = Some d \<longrightarrow> 0 \<le> d \<and> d < cf_BackendNumberDatabases (r_config r)"
        using A(1) l(1) by (auto simp: logged_in_def user_login_def)
      with i(2) show ?thesis by (cases "si_ForcedDB i") (simp_all add: conv_ok_def entered_def Let_def c1 d)
    qed
  qed
qed

lemma loopReader_ok:
  assumes p: "process_ok cfg A B p" and i: "i < length (py_convs p)"
    and mono: "\<And>j k. A j k \<Longrightarrow> A1 j k" "\<And>j. B j \<Longrightarrow> B1 j"
    and A: "\<And>k. is_auth e multi \<Longrightarrow> logged_in (prouter p) multi k \<Longrightarrow> A1 i k"
    and B: "is_auth e multi \<Longrightarrow> legacy_login (prouter p) multi \<Longrightarrow> B1 i" "cf_SessionAuth (r_config (prouter p)) = [] \<Longrightarrow> B1 i"
  shows "\<exists>p1. loopReader e multi i p = Some p1 \<and> process_ok cfg A1 B1 p1 \<and>
    (p1 = p \<or> py_gate p1 = py_gate p \<or>
     (\<exists>w1 w. executed w w1 \<and> w_gate w = py_gate p \<and> se_aclIdentity (w_session w) = se_aclIdentity (cv_session (py_convs p ! i)) \<and>
        se_authorized (w_session w) = se_authorized (cv_session (py_convs p ! i)) \<and> py_gate p1 = w_gate w1))"
proof -
  define c where "c = py_convs p ! i"
  define s1 where "s1 = (cv_session c)\<lparr>se_stats := incrOpTotal (se_stats (cv_session c))\<rparr>"
  define s2 where "s2 = recordOperationStart (e_now e) s1"
  define w where "w = \<lparr>w_session = s2, w_guard = py_guard p, w_gate = py_gate p\<rparr>"
  define q where "q = newRequest e multi s2"
  have ok: "conv_ok (prouter p) (A i) (B i) c" "router_ok (prouter p)" "1 \<le> cf_BackendNumberDatabases (r_config (prouter p))"
    using p i by (simp_all add: process_ok_def c_def)
  have s2: "se_database s2 = se_database (cv_session c)" "se_aclIdentity s2 = se_aclIdentity (cv_session c)" "se_authorized s2 = se_authorized (cv_session c)"
    by (simp_all add: s2_def s1_def recordOperationStart_def)
  have "\<exists>x w1. handleRequest e (registered p i) q w = Some (x, w1) \<and> (silent e (rq_Multi q) w w1 \<or> executed w w1)"
    by (rule handleRequest_ok) (use ok s2 in \<open>auto simp: w_def q_def newRequest_def conv_ok_def Let_def\<close>)
  then obtain x w1 where h: "handleRequest e (registered p i) q w = Some (x, w1)" "silent e multi w w1 \<or> executed w w1" by (auto simp: q_def newRequest_def)
  have g: "gkept (py_gate p) (w_gate w1)" using h(2) gkept_refl [of "py_gate p"] ok(2) by (auto simp: silent_def executed_def w_def)
  have set: "process_ok cfg A1 B1 (setConv i c1 (p\<lparr>py_guard := gd, py_gate := w_gate w1\<rparr>))"
    if "cv_session c1 = w_session w1" "cv_writing c1 \<Longrightarrow> cv_writing c" for c1 gd
  proof (rule process_set [OF p g])
    show "conv_ok (prouter p) (A1 i) (B1 i) c1"
      by (rule handled_ok [OF ok(1) _ _ s2 h(2) ok(3)]) (use A B mono that in \<open>auto simp: w_def\<close>)
  qed (use mono in \<open>auto simp: setConv_def\<close>)
  have full: "process_ok cfg A1 B1 (setConv i (c\<lparr>cv_session := s1\<lparr>se_stats := st\<rparr>, cv_reading := b\<rparr>) p)" for st b
    by (rule process_set [OF p gkept_refl]) (use ok conv_ok_mono [OF conv_ok_stats(3) [OF ok(1)]] mono in \<open>auto simp: setConv_def s1_def\<close>)
  have trace: "w_gate w1 = py_gate p \<or> executed w w1" using h(2) by (auto simp: silent_def w_def)
  show ?thesis
  proof (cases "\<not> cv_reading c \<or> cv_stuck c \<or> se_quit (cv_session c) \<or> multi = []")
    case True
    with process_mono [OF p mono] show ?thesis by (auto simp: loopReader_def c_def Let_def)
  next
    case False
    show ?thesis
    proof (cases "int (length (cv_tasks c)) > cf_SessionMaxPipeline (r_config (prouter p))")
      case True
      with False full show ?thesis by (auto simp: loopReader_def c_def [symmetric] s1_def [symmetric] Let_def setConv_def)
    next
      case len: False
      define p1 where "p1 = p\<lparr>py_guard := w_guard w1, py_gate := w_gate w1\<rparr>"
      have "\<exists>c1. loopReader e multi i p = Some (setConv i c1 p1) \<and> cv_session c1 = w_session w1 \<and> cv_writing c1 = cv_writing c"
        using False len h(1)
        by (cases x) (auto simp: loopReader_def c_def [symmetric] s1_def [symmetric] s2_def [symmetric] q_def [symmetric] w_def [symmetric] p1_def Let_def)
      then obtain c1 where "loopReader e multi i p = Some (setConv i c1 p1)" "cv_session c1 = w_session w1" "cv_writing c1 = cv_writing c" by blast
      moreover have "process_ok cfg A1 B1 (setConv i c1 p1)" "py_gate (setConv i c1 p1) = w_gate w1"
        using set [of c1 "w_guard w1"] calculation by (auto simp: p1_def setConv_def)
      moreover have "w_gate w = py_gate p" "w_session w = s2" by (simp_all add: w_def)
      ultimately show ?thesis using trace s2(2,3) unfolding c_def by metis
    qed
  qed
qed

lemma startSession_ok:
  assumes p: "process_ok cfg A B p"
  shows "process_ok cfg A B (startSession remote loc now p)"
proof -
  define s where "s = NewSession (int (length (py_convs p)) + 1) remote loc now"
  have "conv_ok (prouter p) (A j) (B j) c" if "cv_session c = s\<lparr>se_stats := st\<rparr> \<or> cv_session c = (CloseWithError s)\<lparr>se_stats := st\<rparr>" for j c st
    using p that by (auto simp: conv_ok_def process_ok_def s_def NewSession_def CloseWithError_def clearACLIdentity_def Let_def)
  moreover have "s = s\<lparr>se_stats := se_stats s\<rparr>" by simp
  ultimately have new: "conv_ok (prouter p) (A j) (B j) c" if "cv_session c = s \<or> (\<exists>st. cv_session c = (CloseWithError s)\<lparr>se_stats := st\<rparr>)" for j c
    using that by metis
  obtain c where c: "py_convs (startSession remote loc now p) = py_convs p @ [c]" "py_gate (startSession remote loc now p) = py_gate p"
    "cv_session c = s \<or> (\<exists>st. cv_session c = (CloseWithError s)\<lparr>se_stats := st\<rparr>)"
  proof -
    have refused: "\<exists>c. py_convs (refused m now s q) = py_convs q @ [c] \<and> py_gate (refused m now s q) = py_gate q \<and> (\<exists>st. cv_session c = (CloseWithError s)\<lparr>se_stats := st\<rparr>)" for m q
      by (simp add: refused_def split: prod.split) blast
    have "\<exists>c. py_convs (startSession remote loc now p) = py_convs p @ [c] \<and> py_gate (startSession remote loc now p) = py_gate p \<and>
        (cv_session c = s \<or> (\<exists>st. cv_session c = (CloseWithError s)\<lparr>se_stats := st\<rparr>))"
    proof (cases "int (length (filter cv_writing (py_convs p))) \<ge> cf_ProxyMaxClients (r_config (prouter p)) \<or> \<not> isOnline (prouter p)")
      case True
      with refused [of _ "p\<lparr>py_stats := (py_stats p)\<lparr>cs_sessions := cs_sessions (py_stats p) + 1\<rparr>\<rparr>"] show ?thesis
        unfolding startSession_def s_def [symmetric] Let_def by (cases "int (length (filter cv_writing (py_convs p))) \<ge> cf_ProxyMaxClients (r_config (prouter p))") fastforce+
    qed (simp add: startSession_def s_def)
    with that show thesis by blast
  qed
  from p new [OF c(3)] show ?thesis by (auto simp: process_ok_def c(1,2) nth_append less_Suc_eq)
qed

lemma fillSlot_acl: "fillSlot m switched meth r = Some r1 \<Longrightarrow> r_acl r1 = r_acl r"
  by (auto simp: fillSlot_def hotKeyCacheInvalidateSlot_def Let_def split: if_splits)

lemma each_keeps: "each f xs h = Some h1 \<Longrightarrow> (\<And>x h h1. f x h = Some h1 \<Longrightarrow> g h1 = g h) \<Longrightarrow> g h1 = g h"
  by (induction xs arbitrary: h) (auto split: Option.bind_splits)

lemma do_router_acl: "do_router x r = Some r1 \<Longrightarrow> (\<And>acl. x \<noteq> Install acl) \<Longrightarrow> r_acl r1 = r_acl r"
proof (cases x)
  case (Fill m)
  then show "do_router x r = Some r1 \<Longrightarrow> ?thesis" using fillSlot_acl by (auto simp: FillSlot_def split: if_splits option.splits)
next
  case (Switch runid masters)
  have "r_acl h1 = r_acl h" if "trySwitchMaster runid masters i h = Some h1" for i h h1
    using that fillSlot_acl by (auto simp: trySwitchMaster_def Let_def split: if_splits)
  note step = this
  show "?thesis" if "do_router x r = Some r1"
  proof (cases "r_closed r")
    case False
    with that Switch have "each (trySwitchMaster runid masters) [0..<length (r_slots r)] r = Some r1" by (auto simp: Router_SwitchMasters_def)
    from each_keeps [OF this, of r_acl] step show ?thesis by simp
  qed (use that Switch in \<open>simp add: Router_SwitchMasters_def\<close>)
next
  case Shut
  show "?thesis" if "do_router x r = Some r1"
  proof (cases "r_closed r")
    case False
    with that Shut have "each (\<lambda>i. fillSlot (offline i) False None) [0..<length (r_slots r)] (r\<lparr>r_closed := True\<rparr>) = Some r1" by (simp add: Router_Close_def)
    from each_keeps [OF this, of r_acl] fillSlot_acl show ?thesis by simp
  qed (use that Shut in \<open>simp add: Router_Close_def\<close>)
qed (auto simp: Router_Start_def)

lemma admin_ok:
  assumes p: "process_ok cfg A B p" and A: "\<And>j. stable (A j)"
  shows "\<exists>p1. admin x p = Some p1 \<and> process_ok cfg A B p1"
proof -
  have ok: "router_ok (prouter p)" using p by (simp add: process_ok_def)
  obtain r1 where r1: "do_router x (prouter p) = Some r1" "router_ok r1" "r_config r1 = r_config (prouter p)" using do_router_ok [OF ok] by blast
  define effect where "effect = (case x of Install acl \<Rightarrow> fst (Router_SetACL acl (prouter p)) | _ \<Rightarrow> KeepSessions)"
  have "conv_ok r1 (A j) (B j) (if cv_writing c then c\<lparr>cv_session := applyEffect effect (cv_session c)\<rparr> else c)" if c: "conv_ok (prouter p) (A j) (B j) c" for j c
  proof (cases "\<exists>acl. x = Install acl")
    case True
    then obtain acl where x: "x = Install acl" by blast
    obtain e changed r0 where i: "installACL acl (prouter p) = (e, changed, r0)" by (cases "installACL acl (prouter p)") auto
    then have "r1 = (if changed then closeUserBackendPools r0 else r0)" "effect = e" using r1(1) by (auto simp: x effect_def Router_SetACL_def)
    then have "r_config r1 = r_config r0" "r_acl r1 = r_acl r0" "effect = e" by (simp_all add: closeUserBackendPools_def)
    with applyEffect_ok [OF c A i] show ?thesis by (simp only: conv_ok_router [of r1 r0])
  next
    case False
    then have "r_acl r1 = r_acl (prouter p)" "effect = KeepSessions" using do_router_acl [OF r1(1)] by (auto simp: effect_def split: router_op.split)
    with c conv_ok_router [OF r1(3)] show ?thesis by (simp add: applyEffect_def)
  qed
  with p r1 show ?thesis by (simp add: admin_def process_ok_def onRouter_def effect_def [symmetric])
qed

lemma onRouter_ok:
  assumes "process_ok cfg A B p" "router_ok (f (prouter p)) = router_ok (prouter p)" "r_config (f (prouter p)) = r_config (prouter p)"
    "r_acl (f (prouter p)) = r_acl (prouter p)"
  shows "process_ok cfg A B (onRouter f p)"
  using assms conv_ok_router [OF assms(3,4)] by (simp add: process_ok_def onRouter_def)

theorem react_ok:
  assumes p: "process_ok cfg A B p" and A: "\<And>j. stable (A j)" and mono: "\<And>j k. A j k \<Longrightarrow> A1 j k" "\<And>j. B j \<Longrightarrow> B1 j"
    and login: "\<And>j e multi k. ev = Receive j e multi \<Longrightarrow> is_auth e multi \<Longrightarrow> logged_in (prouter p) multi k \<Longrightarrow> A1 j k"
      "\<And>j e multi. ev = Receive j e multi \<Longrightarrow> is_auth e multi \<Longrightarrow> legacy_login (prouter p) multi \<Longrightarrow> B1 j"
      "\<And>j. cf_SessionAuth (r_config (prouter p)) = [] \<Longrightarrow> B1 j"
  shows "\<exists>p1. react ev p = Some p1 \<and> process_ok cfg A1 B1 p1"
proof (cases ev)
  case (Receive j e multi)
  show ?thesis
  proof (cases "j < length (py_convs p)")
    case True
    have "\<exists>p1. loopReader e multi j p = Some p1 \<and> process_ok cfg A1 B1 p1"
      using loopReader_ok [of cfg A B p j A1 B1 e multi, OF p True mono] login(1,2) [of j e multi] login(3) Receive by blast
    with True show ?thesis by (simp add: Receive)
  qed (use process_mono [OF p mono] in \<open>simp add: Receive\<close>)
next
  case (EndOfInput j)
  have "process_ok cfg A1 B1 (setConv j ((py_convs p ! j)\<lparr>cv_reading := False\<rparr>) p)" if "j < length (py_convs p)"
  proof -
    have "router_ok (prouter p)" "conv_ok (prouter p) (A j) (B j) (py_convs p ! j)" using p that by (simp_all add: process_ok_def)
    then show ?thesis
      by (intro process_set [OF p gkept_refl]) (use conv_ok_mono [OF conv_ok_stats(2)] mono in \<open>auto simp: setConv_def\<close>)
  qed
  with process_mono [OF p mono] show ?thesis by (simp add: EndOfInput)
next
  case (Admin x)
  from admin_ok [OF p A] process_mono [OF _ mono] show ?thesis by (fastforce simp: Admin)
next
  case (Connect remote loc now)
  from process_mono [OF startSession_ok [OF p] mono] show ?thesis by (simp add: Connect)
next
  case (Deliver j now answers)
  from process_mono [OF loopWriter_ok [OF p] mono] process_mono [OF p mono] show ?thesis by (simp add: Deliver)
next
  case (Hangup j now)
  from process_mono [OF closeWriter_ok [OF p] mono] process_mono [OF p mono] show ?thesis by (simp add: Hangup)
next
  case (Limit now revision n)
  show ?thesis using process_mono [OF onRouter_ok [OF p] mono] by (simp add: Limit)
next
  case (Invalidate database keys)
  show ?thesis using process_mono [OF onRouter_ok [OF p] mono] by (simp add: Invalidate)
qed

section \<open>Histories\<close>

definition login_before :: "process \<Rightarrow> event list \<Rightarrow> nat \<Rightarrow> (Router \<Rightarrow> Resp list \<Rightarrow> bool) \<Rightarrow> bool" where
  "login_before p0 es i P \<longleftrightarrow>
     (\<exists>es1 e multi es2 p. es = es1 @ Receive i e multi # es2 \<and> each react es1 p0 = Some p \<and> is_auth e multi \<and> P (prouter p) multi)"

definition user_history :: "process \<Rightarrow> event list \<Rightarrow> nat \<Rightarrow> SessionACLIdentity \<Rightarrow> bool" where
  "user_history p0 es i k \<longleftrightarrow>
     login_before p0 es i (\<lambda>r multi. \<exists>user. user_login r multi user (si_Revision k) \<and> si_ForcedDB k = au_DB user \<and> si_Username k = fst (credentials multi))"

definition legacy_history :: "process \<Rightarrow> event list \<Rightarrow> nat \<Rightarrow> bool" where
  "legacy_history p0 es i \<longleftrightarrow> cf_SessionAuth (r_config (prouter p0)) = [] \<or> login_before p0 es i legacy_login"

lemma login_before_mono: "login_before p0 es i P \<Longrightarrow> login_before p0 (es @ [ev]) i P"
  unfolding login_before_def by (metis append_Cons append_assoc)

lemma login_before_weaken: "login_before p0 es i P \<Longrightarrow> (\<And>r m. P r m \<Longrightarrow> Q r m) \<Longrightarrow> login_before p0 es i Q"
  unfolding login_before_def by blast

lemma login_before_last: "each react es p0 = Some p \<Longrightarrow> is_auth e multi \<Longrightarrow> P (prouter p) multi \<Longrightarrow> login_before p0 (es @ [Receive i e multi]) i P"
  by (auto simp: login_before_def)

lemma each_append: "each f (xs @ ys) h = Option.bind (each f xs h) (each f ys)"
  by (induction xs arbitrary: h) (auto split: bind_split)

lemma history_ok:
  assumes "process_ok cfg (user_history p0 []) (legacy_history p0 []) p0"
  shows "\<exists>p. each react es p0 = Some p \<and> process_ok cfg (user_history p0 es) (legacy_history p0 es) p"
proof (induction es rule: rev_induct)
  case (snoc ev es)
  then obtain p where p: "each react es p0 = Some p" "process_ok cfg (user_history p0 es) (legacy_history p0 es) p" by blast
  have config: "r_config (prouter p) = r_config (prouter p0)" using p(2) assms by (simp add: process_ok_def)
  have "\<exists>p1. react ev p = Some p1 \<and> process_ok cfg (user_history p0 (es @ [ev])) (legacy_history p0 (es @ [ev])) p1"
  proof (rule react_ok [OF p(2)])
    show "stable (user_history p0 es j)" for j by (simp add: stable_def user_history_def)
    show "user_history p0 es j k \<Longrightarrow> user_history p0 (es @ [ev]) j k" for j k by (simp add: user_history_def login_before_mono)
    show "legacy_history p0 es j \<Longrightarrow> legacy_history p0 (es @ [ev]) j" for j by (auto simp: legacy_history_def login_before_mono)
    show "user_history p0 (es @ [ev]) j k" if "ev = Receive j e multi" "is_auth e multi" "logged_in (prouter p) multi k" for j e multi k
      using that login_before_last [OF p(1)] by (auto simp: user_history_def logged_in_def)
    show "legacy_history p0 (es @ [ev]) j" if "ev = Receive j e multi" "is_auth e multi" "legacy_login (prouter p) multi" for j e multi
      using that login_before_last [OF p(1)] by (auto simp: legacy_history_def)
    show "legacy_history p0 (es @ [ev]) j" if "cf_SessionAuth (r_config (prouter p)) = []" for j
      using that config by (simp add: legacy_history_def)
  qed
  with p(1) show ?case by (auto simp: each_append)
qed (use assms in simp)

lemma newProcess_ok:
  assumes "Config_Validate config0 = (None, cfg)" "NewRouter clock cfg = Some r0"
  shows "process_ok cfg A B (newProcess r0)"
  using NewRouter_ok [OF assms(2) validated_cases(2) [OF assms(1)]] validated_cases(2) [OF assms(1)] by (simp add: process_ok_def newProcess_def)



section \<open>A run\<close>

definition env_demo :: env where
  "env_demo =
     \<lparr>e_now = 5, e_call = (\<lambda>_ _. Inl []), e_attempts = (\<lambda>_. []), e_ptr = id, e_upper = id, e_lower = id, e_quote = id,
      e_cluster = (\<lambda>_. Inl []), e_early = None\<rparr>"

definition command :: "bytes list \<Rightarrow> Resp list" where
  "command = map (\<lambda>b. NewBulkBytes (Some b))"

definition login_run :: "event list" where
  "login_run = [Admin Begin, Limit 5 1 10, Connect ''10.0.0.9:5000'' ''10.0.0.2:19000'' 5, Receive 0 env_demo (command [''AUTH'', ''secret''])]"

lemma demo_info:
  "getOpInfo id (command [''AUTH'', pw]) = Inr (''AUTH'', 0)"
  "getOpInfo id (command [''SELECT'', db]) = Inr (''SELECT'', 0)"
proof -
  have "OpInfo_of ''AUTH'' 0 \<in> set opInfos" "OpInfo_of ''SELECT'' 0 \<in> set opInfos" by (simp_all add: opInfos_def opInfos1_def opInfos2_def)
  note t = this [THEN opTable_lookup]
  have "map charmap ''AUTH'' = ''AUTH''" "map charmap ''SELECT'' = ''SELECT''" by code_simp+
  with t show "getOpInfo id (command [''AUTH'', pw]) = Inr (''AUTH'', 0)" "getOpInfo id (command [''SELECT'', db]) = Inr (''SELECT'', 0)"
    by (simp_all add: getOpInfo_def command_def MaxOpStrLen_def Value_of_def NewBulkBytes_def Let_def)
qed

lemma demo_new:
  assumes "NewRouter 1 config_demo = Some r0"
  shows "r_config r0 = config_demo" "r_acl r0 = None" "\<not> r_closed r0"
  using assms by (auto simp: NewRouter_def Let_def split: prod.splits)

lemma login_run_ends:
  assumes "NewRouter 1 config_demo = Some r0"
  shows "\<exists>p. each react login_run (newProcess r0) = Some p \<and> length (py_convs p) = 1 \<and> cv_writing (py_convs p ! 0) \<and> cv_reading (py_convs p ! 0) \<and>
    \<not> cv_stuck (py_convs p ! 0) \<and> \<not> se_quit (cv_session (py_convs p ! 0)) \<and> length (cv_tasks (py_convs p ! 0)) = 1 \<and>
    se_authorized (cv_session (py_convs p ! 0)) \<and> l_limit (r_qpsLimiter (prouter p)) = 10 \<and> r_acl (prouter p) = None \<and> r_config (prouter p) = config_demo"
proof -
  note new = demo_new [OF assms]
  have f: "cf_ProxyMaxClients config_demo = 1000" "cf_SessionMaxPipeline config_demo = 1024" "cf_SessionAuth config_demo = ''secret''"
    "cf_ClusterNodesCompat config_demo = ''disabled''" by (simp_all add: config_demo_def)
  have g: "BeforeAuth remote False now (config_guard config_demo) = (False, config_guard config_demo)" for remote now
    by (simp add: BeforeAuth_def config_guard_def newAuthBruteforceGuard_def Let_def)
  have e: "e_now env_demo = 5" "e_upper env_demo = id" by (simp_all add: env_demo_def)
  have c: "command [''AUTH'', ''secret''] \<noteq> []" "length (command [''AUTH'', ''secret'']) = 2" "Value_of (command [''AUTH'', ''secret''] ! Suc 0) = ''secret''"
    by (simp_all add: command_def Value_of_def NewBulkBytes_def)
  show ?thesis
    by (simp add: login_run_def admin_def onRouter_def newProcess_def Router_Start_def startSession_def isOnline_def new f loopReader_def c handleRequest_def
      newRequest_def e demo_info IsNotAllowed_def handleAuth_def aclAuthEnabled_def onSession_def handleLegacyAuth_def g replyWith_def setConv_def NewSession_def
      recordOperationStart_def SetLimit_def Let_def answer_def)
qed

lemma demo_limiter: "0 < l_limit l \<Longrightarrow> Allow clock now l = (b, l1) \<Longrightarrow> l1 \<noteq> l"
proof -
  have k: "l_accepted (refillLocked n m l) = l_accepted l" "l_rejected (refillLocked n m l) = l_rejected l" for n m
    by (simp_all add: refillLocked_def Let_def)
  assume "0 < l_limit l" "Allow clock now l = (b, l1)"
  then have "l_accepted l1 = l_accepted l + 1 \<or> l_rejected l1 = l_rejected l + 1" by (auto simp: Allow_def Let_def k split: if_splits)
  then show ?thesis by auto
qed

lemma handleSelect_gate: "\<exists>x w1. handleSelect q w = Some (Value x, w1) \<and> w_gate w1 = w_gate w"
  by (auto simp: handleSelect_def replyWith_def onSession_def split: sum.split)



section \<open>A login that the access list does not outlive\<close>

text \<open>
  C16. A login is decided on a snapshot of the access list and carried out later.  When the list is switched off in between, all sessions lose
  their authorization, but the session of the login gets it afterwards: its next command is executed although the proxy has a password
  and the session has not sent it.
\<close>

theorem login_outlives_access_list:
  assumes "r_acl (router w) = Some a" and "as_Enabled a" and "aclLogin a n username password = LoggedIn i"
    and "\<not> as_Enabled (NewACLSnapshot acl)" and "Router_SetACL acl (router w) = (effect, r1)"
    and "w1 = (onSession (applyEffect effect) w)\<lparr>w_gate := (w_gate w)\<lparr>g_router := r1\<rparr>\<rparr>"
    and "finishLogin now was username (LoggedIn i) q w1 = Some (x, w2)"
  shows "\<not> se_authorized (w_session w1) \<and> se_aclIdentity (w_session w1) = None \<and> \<not> aclAuthEnabled (router w2) \<and> authorize q2 w2 = (Some q2, w2)"
proof -
  obtain e changed r0 where i: "installACL acl (router w) = (e, changed, r0)" by (cases "installACL acl (router w)") auto
  have e: "e = ClearAuthorization" "changed" "r_acl r0 = Some (NewACLSnapshot acl)"
    using i assms(1,2,4) by (auto simp: installACL_def Let_def)
  then have "effect = ClearAuthorization" "r_acl r1 = Some (NewACLSnapshot acl)"
    using assms(5) i by (auto simp: Router_SetACL_def closeUserBackendPools_def)
  then have "\<not> se_authorized (w_session w1) \<and> se_aclIdentity (w_session w1) = None" "\<not> aclAuthEnabled (router w1)"
    using assms(4,6) by (simp_all add: applyEffect_def clearACLAuthorization_def clearACLIdentity_def onSession_def aclAuthEnabled_def)
  moreover have "se_authorized (w_session w2)" "w_gate w2 = w_gate w1"
    using assms(7) by (auto simp: finishLogin_def replyWith_def setACLIdentity_def Let_def split: option.splits)
  ultimately show ?thesis by (simp add: authorize_def)
qed

definition user_demo :: ACLUser where
  "user_demo = \<lparr>au_Name = ''app'', au_Enabled = True, au_DB = None, au_PasswordHashes = [], au_Rules = [''nopass'']\<rparr>"

definition snapshot_demo :: ACLSnapshot where
  "snapshot_demo = \<lparr>as_Revision = 1, as_Enabled = True, as_UpdatedAt = [], as_Users = [(''app'', user_demo)]\<rparr>"

theorem login_outlives_access_list_witness:
  "\<exists>r0 r1 i w2. NewRouter 1 config_demo = Some r0 \<and> aclLogin snapshot_demo 16 ''app'' [] = LoggedIn i \<and>
     Router_SetACL None (r0\<lparr>r_acl := Some snapshot_demo\<rparr>) = (ClearAuthorization, r1) \<and> cf_SessionAuth (r_config r0) = ''secret'' \<and>
     authorize request_demo w2 = (Some request_demo, w2) \<and> g_router (w_gate w2) = r1"
proof -
  obtain r0 where r0: "NewRouter 1 config_demo = Some r0" using NewRouter_some [of config_demo 1] by (auto simp: config_demo_def)
  define w where "w = \<lparr>w_session = NewSession 1 [] [] 5, w_guard = config_guard config_demo,
    w_gate = \<lparr>g_router = r0\<lparr>r_acl := Some snapshot_demo\<rparr>, g_calls = [], g_pushed = [], g_events = []\<rparr>\<rparr>"
  have "EqualFoldASCII ''nopass'' ''nopass''" by code_simp
  then have "aclPasswordAllowed user_demo h" for h by (simp add: aclPasswordAllowed_def user_demo_def del: EqualFoldASCII.simps)
  moreover have "au_Enabled user_demo" "au_DB user_demo = None" by (simp_all add: user_demo_def)
  ultimately obtain i where i: "aclLogin snapshot_demo 16 ''app'' [] = LoggedIn i" by (simp add: aclLogin_def snapshot_demo_def Let_def)
  obtain effect r1 where s: "Router_SetACL None (router w) = (effect, r1)" by fastforce
  have effect: "effect = ClearAuthorization" using s by (auto simp: Router_SetACL_def installACL_def w_def snapshot_demo_def NewACLSnapshot_def Let_def)
  define w1 where "w1 = (onSession (applyEffect effect) w)\<lparr>w_gate := (w_gate w)\<lparr>g_router := r1\<rparr>\<rparr>"
  obtain x w2 where f: "finishLogin 5 False ''app'' (LoggedIn i) request_demo w1 = Some (x, w2)" "w_gate w2 = w_gate w1"
    by (auto simp: finishLogin_def replyWith_def Let_def split: option.splits)
  have "authorize request_demo w2 = (Some request_demo, w2)"
    using login_outlives_access_list [OF _ _ i _ s w1_def f(1), of request_demo] by (simp add: w_def snapshot_demo_def NewACLSnapshot_def)
  moreover have "g_router (w_gate w2) = r1" by (simp add: f(2) w1_def)
  moreover have "cf_SessionAuth (r_config r0) = ''secret''" using demo_new(1) [OF r0] by (simp add: config_demo_def)
  ultimately show ?thesis using r0 i s effect by (auto simp: w_def)
qed

end
