(* ===== verification/Serving.thy ===== *)
theory Serving
  imports Conversation
begin

text \<open>
  Routers whose slots have a server, and what they do with a request that has no user: it is sent.
\<close>

definition slotOf :: "bytes \<Rightarrow> nat" where
  "slotOf key = unat (Hash key) mod MaxSlotNum"

definition online :: "Router \<Rightarrow> nat \<Rightarrow> bool" where
  "online r i \<longleftrightarrow> i < MaxSlotNum \<and> rs_backend_bc (r_slots r ! i) \<noteq> None \<and> rs_migrate_bc (r_slots r ! i) = None \<and> \<not> rs_hold (r_slots r ! i)"

lemma slotOf_less: "slotOf key < MaxSlotNum"
  by (simp add: slotOf_def MaxSlotNum_def)

definition serverAt :: "string \<Rightarrow> nat \<Rightarrow> router_op" where
  "serverAt addr i = Fill ((offline i)\<lparr>sl_BackendAddr := addr\<rparr>)"

lemma fill_unmigrated: "fillSlot m switched meth r = Some r1 \<Longrightarrow> sl_MigrateFrom m = [] \<Longrightarrow> rs_migrate_bc (r_slots r1 ! nat (sl_Id m)) = None"
  by (auto simp: fillSlot_def refillSlot_def retainAddr_def hotKeyCacheInvalidateSlot_def Let_def split: if_splits Option.bind_splits)

lemma serverAt_online:
  assumes ok: "router_ok r" "\<not> r_closed r" and i: "i < MaxSlotNum" and addr: "addr \<noteq> []"
  shows "\<exists>r1. do_router (serverAt addr i) r = Some r1 \<and> router_ok r1 \<and> \<not> r_closed r1 \<and> r_config r1 = r_config r \<and> r_acl r1 = r_acl r \<and> online r1 i \<and> (\<forall>j. online r j \<longrightarrow> online r1 j)"
proof -
  define m where "m = (offline i)\<lparr>sl_BackendAddr := addr\<rparr>"
  have m: "sl_Id m = int i" "sl_BackendAddr m = addr" "sl_MigrateFrom m = []" "\<not> sl_Locked m" "sl_ForwardMethod m = ForwardSync"
    by (simp_all add: m_def offline_def)
  have bounds: "0 \<le> sl_Id m" "sl_Id m < int MaxSlotNum" using m(1) i by simp_all
  from fillSlot_ok [OF ok(1) bounds, of False "Some forwardSync"] obtain r1 where r1: "fillSlot m False (Some forwardSync) r = Some r1" "router_ok r1"
    "GetSlots r1 = (GetSlots r)[i := (shown (r_config r) m)\<lparr>sl_ForwardMethod := GetId forwardSync\<rparr>]" "r_config r1 = r_config r" "r_closed r1 = r_closed r" "r_acl r1 = r_acl r"
    "rs_hold (r_slots r1 ! i) = sl_Locked m" "\<forall>j. j \<noteq> i \<longrightarrow> r_slots r1 ! j = r_slots r ! j"
    unfolding m(1) by auto
  have len: "length (r_slots r1) = MaxSlotNum" "length (r_slots r) = MaxSlotNum" using r1(2) ok(1) by (simp_all add: router_ok_def)
  have "sl_BackendAddr (GetSlots r1 ! i) = addr" using len i unfolding r1(3) by (simp add: GetSlots_def shown_def m(2))
  then have "Addr (r_heap r1) (rs_backend_bc (r_slots r1 ! i)) = addr" using len i by (simp add: GetSlots_def snapshot_def)
  with addr have "rs_backend_bc (r_slots r1 ! i) \<noteq> None" unfolding Addr_def by (metis option.simps(4))
  moreover have "rs_migrate_bc (r_slots r1 ! i) = None" using fill_unmigrated [OF r1(1) m(3)] m(1) by simp
  ultimately have "online r1 i" using r1(7) m(4) i by (simp add: online_def)
  moreover have "online r1 j" if "online r j" for j using that r1(8) \<open>online r1 i\<close> by (cases "j = i") (auto simp: online_def)
  moreover have "do_router (serverAt addr i) r = Some r1"
    using r1(1) ok(2) bounds m(5) by (simp add: serverAt_def m_def [symmetric] FillSlot_def methodOf_def)
  ultimately show ?thesis using r1 ok(2) by blast
qed

lemma servers_online:
  assumes "router_ok r" "\<not> r_closed r" "\<forall>i \<in> set is. i < MaxSlotNum" "addr \<noteq> []"
  shows "\<exists>r1. each do_router (map (serverAt addr) is) r = Some r1 \<and> router_ok r1 \<and> \<not> r_closed r1 \<and> r_config r1 = r_config r \<and> r_acl r1 = r_acl r \<and> (\<forall>i \<in> set is. online r1 i)"
proof -
  have "\<exists>r1. each do_router (map (serverAt addr) is) r = Some r1 \<and> router_ok r1 \<and> \<not> r_closed r1 \<and> r_config r1 = r_config r \<and> r_acl r1 = r_acl r \<and>
      (\<forall>i \<in> set is. online r1 i) \<and> (\<forall>j. online r j \<longrightarrow> online r1 j)" using assms
  proof (induction "is" arbitrary: r)
    case (Cons i "is")
    from serverAt_online [OF Cons.prems(1,2) _ assms(4), of i] Cons.prems(3) obtain r1 where r1: "do_router (serverAt addr i) r = Some r1" "router_ok r1"
      "\<not> r_closed r1" "r_config r1 = r_config r" "r_acl r1 = r_acl r" "online r1 i" "\<forall>j. online r j \<longrightarrow> online r1 j" by auto
    from Cons.IH [OF r1(2,3)] Cons.prems(3,4) obtain r2 where "each do_router (map (serverAt addr) is) r1 = Some r2" "router_ok r2" "\<not> r_closed r2"
      "r_config r2 = r_config r1" "r_acl r2 = r_acl r1" "\<forall>i \<in> set is. online r2 i" "\<forall>j. online r1 j \<longrightarrow> online r2 j" by auto
    with r1 show ?case by auto
  qed simp
  then show ?thesis by blast
qed

text \<open>A request without a user for a slot with a server is sent.\<close>

lemma forward_pushes:
  assumes "router_ok r" "request_ok r q" "rq_ACLIdentity q = None" "online r i"
  shows "\<exists>c r1. ForwardLoop ((call, b) # attempts) i q hkey r = Some ([], Some (Push c), r1) \<and> kept r r1 \<and> r_slots r1 = r_slots r"
proof -
  define s where "s = r_slots r ! i"
  have s: "s \<in> set (r_slots r)" "rs_backend_bc s \<noteq> None" "rs_migrate_bc s = None" using assms(1,4) by (simp_all add: s_def online_def router_length)
  obtain bc r1 where f: "forward2 s q r = Some (Some bc, r1)" "kept r r1" using forward2_ok [OF assms(1,2) s(1,2)] assms(3) by auto
  have "processMethod m call s q hkey r = Some ([], Push bc, r1)" for m
    using s f by (cases m) (auto simp: processMethod_def processSync_def processSemiAsync_def finishForward_def)
  with f(2) show ?thesis by (auto simp: s_def [symmetric] kept_def)
qed

lemma online_kept: "r_slots r1 = r_slots r \<Longrightarrow> online r1 i = online r i"
  by (simp add: online_def)

lemma sendKey_pushes:
  assumes "router_ok (g_router g)" "request_ok (g_router g) q" "rq_ACLIdentity q = None" "getHashKey (rq_Multi q) (rq_OpStr q) = Some key"
    "online (g_router g) (slotOf key)" "e_attempts e k \<noteq> []"
  shows "\<exists>c g1. sendKey e k q g = Some (Value (Sent c (rq_Multi q)), g1) \<and> kept (g_router g) (g_router g1) \<and> r_slots (g_router g1) = r_slots (g_router g)"
proof -
  obtain call b attempts where a: "e_attempts e k = (call, b) # attempts" using assms(6) by (cases "e_attempts e k") auto
  from forward_pushes [OF assms(1-3,5), of call b attempts key] obtain c r1 where "dispatch (e_attempts e k) q (g_router g) = Some ([], Some (Push c), r1)"
    "kept (g_router g) r1" "r_slots r1 = r_slots (g_router g)" by (auto simp: a dispatch_def dispatchByHashKey_def assms(4) slotOf_def)
  then show ?thesis by (auto simp: sendKey_def send_def)
qed

section \<open>A router with servers for two keys\<close>

definition env_serving :: "Resp option \<Rightarrow> env" where
  "env_serving early =
     \<lparr>e_now = 5, e_call = (\<lambda>_ _. Inl []), e_attempts = (\<lambda>_. [(\<lambda>_ _. Inl [], False)]), e_ptr = id, e_upper = id, e_lower = id, e_quote = id,
      e_cluster = (\<lambda>_. Inl []), e_early = early\<rparr>"

definition gate_of :: "Router \<Rightarrow> gate" where
  "gate_of r = \<lparr>g_router = r, g_calls = [], g_pushed = [], g_events = []\<rparr>"

lemma serving_demo: "\<exists>r. router_ok r \<and> r_config r = config_demo \<and> online r (slotOf ''hot'') \<and> online r (slotOf ''a'')"
proof -
  obtain r0 where r0: "NewRouter 1 config_demo = Some r0" using NewRouter_some [of config_demo 1] by (auto simp: config_demo_def)
  have "router_ok r0" "r_config r0 = config_demo" using NewRouter_ok [OF r0] by (auto simp: config_demo_def)
  moreover have "\<not> r_closed r0" using r0 by (auto simp: NewRouter_def Let_def split: prod.splits)
  ultimately show ?thesis
    using servers_online [of r0 "[slotOf ''hot'', slotOf ''a'']" "''10.0.0.1:6379''"] slotOf_less by fastforce
qed

end
