(* ===== verification/MultiKey.thy ===== *)
theory MultiKey
  imports Serving
begin

text \<open>
  The commands on several keys.  Their parts go to the servers of the keys and the session puts the replies together
  (\<open>handleRequestMGet\<close>, \<open>handleRequestMSet\<close>, \<open>handleRequestDel\<close>, \<open>handleRequestExists\<close> and
  \<open>handleRequestMGetWithHotKeyCache\<close>); the reference is one server that has all the keys.
\<close>

section \<open>One server\<close>

type_synonym keyspace = "bytes \<Rightarrow> bytes option"

fun stored :: "Resp list \<Rightarrow> keyspace \<Rightarrow> keyspace" where
  "stored (k # v # xs) db = stored xs (db(Value_of k \<mapsto> Value_of v))"
| "stored xs db = db"

fun deleted :: "Resp list \<Rightarrow> keyspace \<Rightarrow> int \<times> keyspace" where
  "deleted [] db = (0, db)"
| "deleted (k # xs) db =
     (case deleted xs (db(Value_of k := None)) of (n, db1) \<Rightarrow> ((if db (Value_of k) = None then 0 else 1) + n, db1))"

definition existing :: "Resp list \<Rightarrow> keyspace \<Rightarrow> int" where
  "existing xs db = sum_list (map (\<lambda>k. if db (Value_of k) = None then 0 else 1) xs)"

definition server :: "string \<Rightarrow> Resp list \<Rightarrow> keyspace \<Rightarrow> Resp \<times> keyspace" where
  "server op multi db =
     (let args = tl multi
      in if op = ''MGET'' then (NewArray (Some (map (\<lambda>k. NewBulkBytes (db (Value_of k))) args)), db)
         else if op = ''MSET'' then (RespOK, stored args db)
         else if op = ''DEL'' then (case deleted args db of (n, db1) \<Rightarrow> (NewInt (Some (Itoa n)), db1))
         else (NewInt (Some (Itoa (existing args db))), db))"

text \<open>The parts one after the other, each on the server that has its key.\<close>

fun servers :: "string \<Rightarrow> Resp list list \<Rightarrow> keyspace \<Rightarrow> Resp list \<times> keyspace" where
  "servers op [] db = ([], db)"
| "servers op (m # ms) db = (case server op m db of (x, db1) \<Rightarrow> (case servers op ms db1 of (xs, db2) \<Rightarrow> (x # xs, db2)))"

definition splitHandler :: "string \<Rightarrow> ('e) env_scheme \<Rightarrow> handler" where
  "splitHandler op =
     (if op = ''MGET'' then handleRequestMGet else if op = ''MSET'' then handleRequestMSet
      else if op = ''DEL'' then handleRequestDel else handleRequestExists)"

section \<open>Parts\<close>

definition sentMulti :: "sent \<Rightarrow> Resp list" where
  "sentMulti s = (case s of Sent c m \<Rightarrow> m | Got x \<Rightarrow> [])"

definition isSent :: "sent \<Rightarrow> bool" where
  "isSent s = (case s of Sent c m \<Rightarrow> True | Got x \<Rightarrow> False)"

lemma send_multi: "send d q g = Some (Value s, g1) \<Longrightarrow> isSent s \<Longrightarrow> sentMulti s = rq_Multi q"
proof -
  assume s: "send d q g = Some (Value s, g1)" "isSent s"
  then obtain trace res r where d: "d = Some (trace, res, r)" by (auto simp: send_def)
  show ?thesis
  proof (cases res)
    case (Some x)
    with s d show ?thesis by (cases x) (auto simp: send_def isSent_def sentMulti_def Let_def)
  qed (use s d in \<open>simp add: send_def Let_def\<close>)
qed

lemma mapOutcome_Value: "mapOutcome f x = Value y \<longleftrightarrow> (\<exists>z. x = Value z \<and> y = f z)"
  by (cases x) auto

lemma sendAll_multi: "sendAll e k qs g = Some (Value ss, g1) \<Longrightarrow> list_all isSent ss \<Longrightarrow> map sentMulti ss = map rq_Multi qs"
proof (induction qs arbitrary: k g ss g1)
  case (Cons q qs)
  then obtain s g2 ss1 where s: "sendKey e k q g = Some (Value s, g2)" "sendAll e (Suc k) qs g2 = Some (Value ss1, g1)" "ss = s # ss1"
    by (auto split: Option.bind_splits outcome.splits)
  with Cons.IH [OF s(2)] Cons.prems(2) send_multi show ?case by (auto simp: sendKey_def)
qed simp

lemma answers_sent: "list_all isSent ss \<Longrightarrow> length as = length ss \<Longrightarrow> map2 answerOf ss as = as"
  by (induction ss arbitrary: as) (auto simp: isSent_def answerOf_def length_Suc_conv split: sent.splits)

lemma divide_parts:
  assumes "divide e co parts q g = Some (Value h, g1)" "list_all isSent (hd_sent h)"
  shows "map sentMulti (hd_sent h) = parts" "hd_co h = co" "hd_resp h = None"
proof -
  obtain ss where ss: "sendAll e 0 (map (subRequest e q) (enumerate 0 parts)) g = Some (Value ss, g1)" "h = divided q co ss"
    using assms(1) by (auto simp: divide_def mapOutcome_Value)
  from sendAll_multi [OF ss(1)] assms(2) ss(2) show "map sentMulti (hd_sent h) = parts" "hd_co h = co" "hd_resp h = None"
    by (simp_all add: divided_def subRequest_def comp_def)
qed

lemma forwardOne_parts:
  assumes "forwardOne e q g = Some (Value h, g1)" "list_all isSent (hd_sent h)"
  shows "map sentMulti (hd_sent h) = [rq_Multi q]" "hd_co h = Plain"
proof -
  obtain s where s: "sendKey e 0 q g = Some (Value s, g1)" "h = direct q s" using assms(1) by (auto simp: forwardOne_def mapOutcome_Value)
  with send_multi assms(2) show "map sentMulti (hd_sent h) = [rq_Multi q]" "hd_co h = Plain" by (auto simp: direct_def sendKey_def)
qed

section \<open>Replies\<close>

lemma server_keeps: "op \<noteq> ''MSET'' \<Longrightarrow> op \<noteq> ''DEL'' \<Longrightarrow> snd (server op m db) = db"
  by (simp add: server_def Let_def)

lemma mget_parts: "servers ''MGET'' (map (\<lambda>k. [op, k]) ks) db = (map (\<lambda>k. NewArray (Some [NewBulkBytes (db (Value_of k))])) ks, db)"
  by (induction ks) (auto simp: server_def)

lemma mget_put: "coMGet (map (Inr \<circ> Some) (map (\<lambda>v. NewArray (Some [v])) vs)) = Inr vs"
  by (induction vs) (auto simp: required_def oneOf_def arrayLen_def IsArray_def NewArray_def)

lemma mset_parts: "even (length xs) \<Longrightarrow> servers ''MSET'' (perPair op xs) db = (replicate (length xs div 2) RespOK, stored xs db)"
  by (induction op xs arbitrary: db rule: perPair.induct) (auto simp: server_def)

lemma mset_put: "coMSet (map (Inr \<circ> Some) (replicate (Suc n) RespOK)) x = (None, Some RespOK)"
  by (induction n arbitrary: x) (auto simp: required_def RespOK_def IsString_def NewString_def)

lemma digits: "Itoa 0 = ''0''" "Itoa 1 = ''1''" "digitOf (CHR ''0'') = 0" "digitOf (CHR ''1'') = 1"
  by code_simp+

definition bit_of :: "bool \<Rightarrow> int" where
  "bit_of b = (if b then 1 else 0)"

lemma sum_put:
  assumes "f (CHR ''0'') = 0" "f (CHR ''1'') = 1"
  shows "coSum op f (map (Inr \<circ> Some) (map (\<lambda>b. NewInt (Some (Itoa (bit_of b)))) bs)) = Inr (sum_list (map bit_of bs))"
  using assms by (induction bs) (auto simp: required_def NewInt_def IsInt_def Value_of_def bit_of_def digits)

fun deletions :: "Resp list \<Rightarrow> keyspace \<Rightarrow> bool list" where
  "deletions [] db = []"
| "deletions (k # ks) db = (db (Value_of k) \<noteq> None) # deletions ks (db(Value_of k := None))"

lemma del_parts:
  "servers ''DEL'' (map (\<lambda>k. [op, k]) ks) db = (map (\<lambda>b. NewInt (Some (Itoa (bit_of b)))) (deletions ks db), snd (deleted ks db))"
  by (induction ks arbitrary: db) (auto simp: server_def bit_of_def split: prod.split)

lemma del_sum: "fst (deleted ks db) = sum_list (map bit_of (deletions ks db))"
  by (induction ks arbitrary: db) (auto simp: bit_of_def case_prod_beta)

lemma exists_parts:
  "servers ''EXISTS'' (map (\<lambda>k. [op, k]) ks) db = (map (\<lambda>b. NewInt (Some (Itoa (bit_of b)))) (map (\<lambda>k. db (Value_of k) \<noteq> None) ks), db)"
  by (induction ks) (auto simp: server_def existing_def bit_of_def)

lemma exists_sum: "existing ks db = sum_list (map bit_of (map (\<lambda>k. db (Value_of k) \<noteq> None) ks))"
  by (induction ks) (auto simp: existing_def bit_of_def)

section \<open>Commands\<close>

lemma servers_length: "servers op ms db = (xs, db1) \<Longrightarrow> length xs = length ms"
  by (induction ms arbitrary: db xs) (auto split: prod.splits)

lemma respond:
  assumes "list_all isSent (hd_sent h)" "servers op (map sentMulti (hd_sent h)) db = (xs, db1)"
  shows "handleResponse now h (map (Inr \<circ> Some) xs) g =
    (let as = map (Inr \<circ> Some) xs; (err, resp) = own h as; ((m, x), g1) = runCoalesce now (hd_co h) as err resp g
     in (case m of
           Some t \<Rightarrow> Inl t
         | None \<Rightarrow> (case err of Some t \<Rightarrow> Inl t | None \<Rightarrow> (case x of Some y \<Rightarrow> Inr y | None \<Rightarrow> Inl (errText ErrRespIsRequired))), g1))"
proof -
  have "map2 answerOf (hd_sent h) (map (Inr \<circ> Some) xs) = map (Inr \<circ> Some) xs"
    using servers_length [OF assms(2)] by (intro answers_sent [OF assms(1)]) simp
  then show ?thesis unfolding handleResponse_def by (simp only: Let_def)
qed

lemma respond_one:
  assumes "list_all isSent (hd_sent h)" "map sentMulti (hd_sent h) = [m]" "hd_co h = Plain" "server op m db = (x, db1)"
  shows "servers op (map sentMulti (hd_sent h)) db = ([x], db1)" "handleResponse now h (map (Inr \<circ> Some) [x]) g = (Inr x, g)"
proof -
  show s: "servers op (map sentMulti (hd_sent h)) db = ([x], db1)" using assms(2,4) by simp
  show "handleResponse now h (map (Inr \<circ> Some) [x]) g = (Inr x, g)"
    unfolding respond [OF assms(1) s] by (simp add: assms(3) own_def)
qed

lemma respond_parts:
  assumes "list_all isSent (hd_sent h)" "servers op (map sentMulti (hd_sent h)) db = (xs, db1)" "hd_co h = co" "hd_resp h = None"
    "\<not> isDirect co" "runCoalesce now co (map (Inr \<circ> Some) xs) None None g = ((None, Some x), g)"
  shows "handleResponse now h (map (Inr \<circ> Some) xs) g = (Inr x, g)"
  unfolding respond [OF assms(1,2)] using assms(3-6) by (simp add: own_def)

lemma perKey_args: "rq_Multi q = op # ks \<Longrightarrow> perKey q = map (\<lambda>k. [op, k]) ks"
  by (simp add: perKey_def)

lemma divided_replies:
  assumes "op \<in> {''MGET'', ''MSET'', ''DEL'', ''EXISTS''}" "rq_Multi q = name # ks" "ks \<noteq> []"
    and "co = (if op = ''MGET'' then CoMGet else if op = ''MSET'' then CoMSet else if op = ''DEL'' then CoDel else CoExists)"
    and "parts = (if op = ''MSET'' then perPair name ks else perKey q)" and "op = ''MSET'' \<Longrightarrow> even (length ks)"
    and "servers op parts db = (xs, db1)"
  shows "\<exists>x. server op (rq_Multi q) db = (x, db1) \<and> runCoalesce now co (map (Inr \<circ> Some) xs) None None g = ((None, Some x), g)"
proof -
  consider "op = ''MGET''" | "op = ''MSET''" | "op = ''DEL''" | "op = ''EXISTS''" using assms(1) by blast
  then show ?thesis
  proof cases
    case 1
    with assms(2,4,5,7) have "xs = map (\<lambda>v. NewArray (Some [v])) (map (\<lambda>k. NewBulkBytes (db (Value_of k))) ks)" "db1 = db"
      by (auto simp: perKey_args mget_parts)
    then show ?thesis using 1 assms(2,4) mget_put [of "map (\<lambda>k. NewBulkBytes (db (Value_of k))) ks"] by (simp add: server_def)
  next
    case 2
    with assms(5-7) have "xs = replicate (length ks div 2) RespOK" "db1 = stored ks db" by (simp_all add: mset_parts)
    moreover obtain n where "length ks div 2 = Suc n"
      using 2 assms(3,6) by (cases "length ks div 2") (auto simp: div_eq_0_iff less_2_cases_iff)
    ultimately show ?thesis using 2 assms(2,4) mset_put [of n] by (simp add: server_def)
  next
    case 3
    with assms(2,5,7) have "xs = map (\<lambda>b. NewInt (Some (Itoa (bit_of b)))) (deletions ks db)" "db1 = snd (deleted ks db)"
      by (simp_all add: perKey_args del_parts)
    then show ?thesis
      using 3 assms(2,4) sum_put [of digitOf, OF digits(3,4), of "''del''"] by (simp add: server_def summed_def del_sum case_prod_beta)
  next
    case 4
    with assms(2,5,7) have "xs = map (\<lambda>b. NewInt (Some (Itoa (bit_of b)))) (map (\<lambda>k. db (Value_of k) \<noteq> None) ks)" "db1 = db"
      by (auto simp: perKey_args exists_parts)
    then show ?thesis
      using 4 assms(2,4) sum_put [of "\<lambda>c. if c \<noteq> CHR ''0'' then 1 else 0" "''exists''"] by (simp add: server_def summed_def exists_sum del: map_map)
  qed
qed

text \<open>
  C8. The reply to a command on several keys is the reply of one server that has all the keys: when the parts of an \<open>MGET\<close>, \<open>MSET\<close>,
  \<open>DEL\<close> or \<open>EXISTS\<close> are all sent and executed, the session answers what a single server answers to the whole command, and the keys
  hold afterwards what they hold on that server.
\<close>

theorem split_command_is_whole:
  assumes "op \<in> {''MGET'', ''MSET'', ''DEL'', ''EXISTS''}" and "splitHandler op e q g = Some (Value h, g1)"
    and "hd_sent h \<noteq> []" and "list_all isSent (hd_sent h)" and "servers op (map sentMulti (hd_sent h)) db = (xs, db1)"
  shows "\<exists>x. server op (rq_Multi q) db = (x, db1) \<and> handleResponse now h (map (Inr \<circ> Some) xs) g2 = (Inr x, g2)"
proof -
  define co where "co = (if op = ''MGET'' then CoMGet else if op = ''MSET'' then CoMSet else if op = ''DEL'' then CoDel else CoExists)"
  define parts where "parts = (if op = ''MSET'' then perPair (hd (rq_Multi q)) (tl (rq_Multi q)) else perKey q)"
  have "h = answer q y \<Longrightarrow> False" for y using assms(3) by (simp add: answer_def)
  with assms(1,2) consider "forwardOne e q g = Some (Value h, g1)"
    | "divide e co parts q g = Some (Value h, g1)" "op = ''MSET'' \<longrightarrow> even (length (rq_Multi q) - 1)" "length (rq_Multi q) \<noteq> 1"
    by (fastforce simp: splitHandler_def handleRequestMGet_def handleRequestMSet_def handleRequestDel_def handleRequestExists_def co_def parts_def Let_def
        split: if_splits)
  then show ?thesis
  proof cases
    case 1
    from forwardOne_parts [OF 1 assms(4)] respond_one(1) [OF assms(4)] respond_one(2) [OF assms(4)] assms(5) show ?thesis
      by (cases "server op (rq_Multi q) db") auto
  next
    case 2
    note p = divide_parts [OF 2(1) assms(4)]
    have "parts \<noteq> []" using p(1) assms(3) by auto
    then obtain name ks where m: "rq_Multi q = name # ks" "ks \<noteq> []" using 2(3)
      by (cases "rq_Multi q") (auto simp: parts_def perKey_def split: if_splits)
    have "\<exists>x. server op (rq_Multi q) db = (x, db1) \<and> runCoalesce now co (map (Inr \<circ> Some) xs) None None g2 = ((None, Some x), g2)"
      by (rule divided_replies [OF assms(1) m co_def]) (use assms(5) p(1) 2(2) m in \<open>simp_all add: parts_def\<close>)
    then obtain x where x: "server op (rq_Multi q) db = (x, db1)" "runCoalesce now co (map (Inr \<circ> Some) xs) None None g2 = ((None, Some x), g2)" by blast
    from respond_parts [OF assms(4,5) p(2,3) _ x(2)] x(1) show ?thesis by (simp add: co_def)
  qed
qed

definition exists_demo :: Request where
  "exists_demo = request_demo\<lparr>rq_Multi := [bulk ''EXISTS'', bulk ''hot'', bulk ''a'', bulk ''hot''], rq_OpStr := ''EXISTS''\<rparr>"

lemma sendAll_pushes:
  assumes "router_ok (g_router g)" "\<forall>q \<in> set qs. request_ok (g_router g) q \<and> rq_ACLIdentity q = None \<and>
      (\<exists>key. getHashKey (rq_Multi q) (rq_OpStr q) = Some key \<and> online (g_router g) (slotOf key))" "\<And>k. e_attempts e k \<noteq> []"
  shows "\<exists>ss g1. sendAll e k qs g = Some (Value ss, g1) \<and> list_all isSent ss \<and> length ss = length qs"
  using assms
proof (induction qs arbitrary: k g)
  case (Cons q qs)
  then obtain c g1 where s: "sendKey e k q g = Some (Value (Sent c (rq_Multi q)), g1)" "kept (g_router g) (g_router g1)" "r_slots (g_router g1) = r_slots (g_router g)"
    using sendKey_pushes [of g q _ e k] by fastforce
  then have "router_ok (g_router g1)" "request_ok (g_router g1) x = request_ok (g_router g) x" "online (g_router g1) i = online (g_router g) i" for x i
    by (auto simp: kept_def request_ok_def online_def)
  with Cons.IH [of g1 "Suc k"] Cons.prems obtain ss g2 where "sendAll e (Suc k) qs g1 = Some (Value ss, g2)" "list_all isSent ss" "length ss = length qs" by auto
  moreover have "isSent (Sent c (rq_Multi q))" by (simp add: isSent_def)
  ultimately show ?case using s(1) by auto
qed simp

theorem split_command_is_whole_witness:
  "\<exists>r h g1 xs db1. handleRequestExists (env_serving None) exists_demo (gate_of r) = Some (Value h, g1) \<and> length (hd_sent h) = 3 \<and>
     servers ''EXISTS'' (map sentMulti (hd_sent h)) [''hot'' \<mapsto> ''v''] = (xs, db1) \<and> fst (handleResponse 9 h (map (Inr \<circ> Some) xs) g1) = Inr (NewInt (Some ''2''))"
proof -
  obtain r where r: "router_ok r" "r_config r = config_demo" "online r (slotOf ''hot'')" "online r (slotOf ''a'')" using serving_demo by blast
  define qs where "qs = map (subRequest (env_serving None) exists_demo) (enumerate 0 (perKey exists_demo))"
  have "\<exists>ss g1. sendAll (env_serving None) 0 qs (gate_of r) = Some (Value ss, g1) \<and> list_all isSent ss \<and> length ss = length qs"
    by (rule sendAll_pushes) (use r in \<open>auto simp: qs_def gate_of_def env_serving_def perKey_def exists_demo_def request_demo_def subRequest_def request_ok_def config_demo_def
        getHashKey_def NewBulkBytes_def\<close>)
  then obtain ss g1 where s: "sendAll (env_serving None) 0 qs (gate_of r) = Some (Value ss, g1)" "list_all isSent ss" "length ss = 3"
    by (auto simp: qs_def perKey_def exists_demo_def)
  define h where "h = divided exists_demo CoExists ss"
  have h: "handleRequestExists (env_serving None) exists_demo (gate_of r) = Some (Value h, g1)" "hd_sent h = ss"
    using s(1) by (simp_all add: handleRequestExists_def divide_def qs_def [symmetric] h_def divided_def) (simp add: exists_demo_def)
  then have f: "splitHandler ''EXISTS'' (env_serving None) exists_demo (gate_of r) = Some (Value h, g1)" by (simp add: splitHandler_def)
  obtain xs db1 where x: "servers ''EXISTS'' (map sentMulti (hd_sent h)) [''hot'' \<mapsto> ''v''] = (xs, db1)" by fastforce
  have ne: "hd_sent h \<noteq> []" "list_all isSent (hd_sent h)" using s h(2) by auto
  have "fst (server ''EXISTS'' (rq_Multi exists_demo) [''hot'' \<mapsto> ''v'']) = NewInt (Some (Itoa 2))"
    by (simp add: server_def existing_def exists_demo_def Value_of_def NewBulkBytes_def)
  moreover have "Itoa 2 = ''2''" by code_simp
  ultimately have "fst (handleResponse 9 h (map (Inr \<circ> Some) xs) g1) = Inr (NewInt (Some ''2''))"
    using split_command_is_whole [OF _ f ne x, of 9 g1] by auto
  with h s(3) x show ?thesis by metis
qed

end
