(* ===== verification/Invalidation.thy ===== *)
theory Invalidation
  imports MultiKey
begin

text \<open>
  Writes and the cache of hot keys: what the plans of \<open>src/pkg/proxy/hot_key_cache.go\<close> do to the entries of the cache, from the
  request to its reply, and the case in which no plan is carried out.
\<close>

section \<open>Entries\<close>

abbreviation entry :: "HotKeyCache \<Rightarrow> hotKeyCacheKey \<rightharpoonup> hotKeyCacheEntry" where
  "entry c \<equiv> map_of (hc_entries c)"

lemma removeElement_entry: "entry (removeElement k b c) x = (if x = k then None else entry c x)"
  by (simp add: removeElement_def Let_def delete_conv')

lemma removeElement_settings: "settings (removeElement k b c) = settings c"
  by (simp add: removeElement_def Let_def settings_def)

lemma removeKeys_entry: "removeKeys ks c = (n, c1) \<Longrightarrow> entry c1 x = (if x \<in> set ks then None else entry c x) \<and> settings c1 = settings c"
proof (induction ks c arbitrary: n c1 rule: removeKeys.induct)
  case (2 k ks c)
  show ?case
  proof (cases "entry c k")
    case None
    with 2 show ?thesis by auto
  next
    case (Some e)
    with 2(3) obtain n1 where r: "removeKeys ks (removeElement k False c) = (n1, c1)" by (auto split: prod.splits)
    from 2(2) [OF Some r] show ?thesis by (simp add: removeElement_entry removeElement_settings)
  qed
qed simp

lemma invalidateKey_entry:
  "Enabled c \<Longrightarrow> entry (invalidateKey d key c) x = (if x = (d, key) then None else entry c x)"
  "settings (invalidateKey d key c) = settings c"
proof -
  show "entry (invalidateKey d key c) x = (if x = (d, key) then None else entry c x)" if "Enabled c"
    using that by (simp add: invalidateKey_def removeElement_entry Let_def split: option.split)
  show "settings (invalidateKey d key c) = settings c"
    by (simp add: invalidateKey_def removeElement_def settings_def Let_def split: option.split)
qed

text \<open>What the plans rely on: dropping a key takes this key out and nothing else, and leaves the cache in use.\<close>

locale invalidating =
  fixes live :: "'c \<Rightarrow> bool" and has :: "'c \<Rightarrow> 'k \<Rightarrow> bool" and dropKey :: "'k \<Rightarrow> 'c \<Rightarrow> 'c"
  assumes live_drop: "live c \<Longrightarrow> live (dropKey k c)"
    and has_drop: "live c \<Longrightarrow> has (dropKey k c) x \<longleftrightarrow> has c x \<and> x \<noteq> k"
begin

lemma live_all: "live c \<Longrightarrow> live (foldl (\<lambda>c k. dropKey k c) c ks)"
  by (induction ks arbitrary: c) (simp_all add: live_drop)

lemma has_all: "live c \<Longrightarrow> has (foldl (\<lambda>c k. dropKey k c) c ks) x \<longleftrightarrow> has c x \<and> x \<notin> set ks"
  by (induction ks arbitrary: c) (auto simp: live_drop has_drop)

end

interpretation ik: invalidating Enabled "\<lambda>c x. entry c x \<noteq> None" "\<lambda>k c. invalidateKey (fst k) (snd k) c"
proof unfold_locales
  show "Enabled (invalidateKey (fst k) (snd k) c)" if "Enabled c" for c k
    using that invalidateKey_entry(2) settings_Enabled by blast
  show "(entry (invalidateKey (fst k) (snd k) c) x \<noteq> None) = (entry c x \<noteq> None \<and> x \<noteq> k)" if "Enabled c" for c k x
    using that by (simp add: invalidateKey_entry(1))
qed

lemma invalidateKeys_entry:
  assumes "Enabled c" "key \<in> set keys"
  shows "entry (foldl (\<lambda>c key. invalidateKey d key c) c keys) (d, key) = None"
proof -
  have "foldl (\<lambda>c key. invalidateKey d key c) c keys = foldl (\<lambda>c k. invalidateKey (fst k) (snd k) c) c (map (Pair d) keys)" by (simp add: foldl_map)
  with ik.has_all [OF assms(1), of "map (Pair d) keys" "(d, key)"] assms(2) show ?thesis by auto
qed

lemma invalidateDatabase_entry: "Enabled c \<Longrightarrow> fst x = d \<Longrightarrow> entry (invalidateDatabase d c) x = None"
proof -
  assume c: "Enabled c" "fst x = d"
  define c0 where "c0 = c\<lparr>hc_version := hc_version c + 1\<rparr>"
  define ks where "ks = map fst (filter (\<lambda>(k, e). fst k = d) (hc_entries c0))"
  obtain n c1 where r: "removeKeys ks c0 = (n, c1)" by fastforce
  have "x \<in> set ks \<or> entry c0 x = None" using c(2) map_of_SomeD [of "hc_entries c0" x] by (cases "entry c0 x") (force simp: ks_def)+
  with removeKeys_entry [OF r, of x] have "entry c1 x = None" by auto
  with c(1) r show ?thesis by (simp add: invalidateDatabase_def removeIf_def c0_def ks_def)
qed

section \<open>Plans\<close>

text \<open>The keys that a command writes, as the plans see them.\<close>

definition writtenKeys :: "Request \<Rightarrow> bytes set" where
  "writtenKeys q =
     (if rq_OpStr q = ''MSET'' then set (msetKeys (drop 1 (rq_Multi q)))
      else if rq_OpStr q = ''DEL'' then Value_of ` set (drop 1 (rq_Multi q))
      else if length (rq_Multi q) > 1 then {Value_of (rq_Multi q ! 1)} else {})"

lemma plan_covers:
  assumes "hotKeyCacheEnabled r" "\<not> IsReadOnly (rq_OpFlag q)" "rq_OpStr q \<notin> {''GET'', ''MGET''}" "key \<in> writtenKeys q"
  shows "plan_active (hotKeyCacheInvalidationPlanForRequest q r)" "pl_database (hotKeyCacheInvalidationPlanForRequest q r) = rq_Database q"
    "pl_clearDB (hotKeyCacheInvalidationPlanForRequest q r) \<or> key \<in> set (pl_keys (hotKeyCacheInvalidationPlanForRequest q r))"
proof -
  have "drop 1 (rq_Multi q) \<noteq> []" using assms(4) by (cases "drop 1 (rq_Multi q)") (auto simp: writtenKeys_def split: if_splits)
  then have n: "Suc 0 < length (rq_Multi q)" by simp
  have "rq_OpStr q = ''MSET'' \<Longrightarrow> msetKeys (drop 1 (rq_Multi q)) \<noteq> []" using assms(4) by (auto simp: writtenKeys_def)
  with n show "plan_active (hotKeyCacheInvalidationPlanForRequest q r)" "pl_database (hotKeyCacheInvalidationPlanForRequest q r) = rq_Database q"
    "pl_clearDB (hotKeyCacheInvalidationPlanForRequest q r) \<or> key \<in> set (pl_keys (hotKeyCacheInvalidationPlanForRequest q r))"
    using assms by (auto simp: hotKeyCacheInvalidationPlanForRequest_def plan_active_def writtenKeys_def no_plan_def Let_def split: if_splits)
qed

lemma plan_apply_entry:
  assumes "plan_active p" "pl_clearDB p \<or> key \<in> set (pl_keys p)" "hotKeyCacheEnabled (g_router g)"
  shows "entry (r_hotKeyCache (g_router (plan_apply p x g))) (pl_database p, key) = None"
  using assms by (auto simp: plan_apply_def hotKeyCacheEnabled_def invalidateDatabase_entry invalidateKeys_entry Let_def)

lemma dedup_set: "set (dedup ok seen xs) = {x \<in> set xs. ok x} - set seen"
  by (induction ok seen xs rule: dedup.induct) auto

lemma chunks_concat: "0 < n \<Longrightarrow> concat (chunks n xs) = xs"
  by (induction n xs rule: chunks.induct) (subst chunks.simps, simp)

lemma broadcast_covers: "\<Union> (set ` snd ` set (hotKeyCacheBroadcastKeys d keys)) = set keys"
proof -
  have "(\<Union>ks \<in> set (chunks HotKeyCacheBroadcastMaxKeys keys). set ks) = set keys"
    using arg_cong [OF chunks_concat [of HotKeyCacheBroadcastMaxKeys keys], of set] by (simp add: HotKeyCacheBroadcastMaxKeys_def)
  then show ?thesis by (simp add: hotKeyCacheBroadcastKeys_def image_image)
qed

text \<open>A handler that leaves the cache to the plan.\<close>

definition writeHandler :: "('e) env_scheme \<Rightarrow> Request \<Rightarrow> handler" where
  "writeHandler e q = (if rq_OpStr q = ''MSET'' then handleRequestMSet e else if rq_OpStr q = ''DEL'' then handleRequestDel e else forwardOne e)"

lemma writeHandler_co:
  assumes "writeHandler e q q g = Some (Value h, g1)"
  shows "hd_co h \<in> {Plain, CoMSet, CoDel}" "hd_co h = Plain \<Longrightarrow> hd_sent h \<noteq> [] \<Longrightarrow> \<exists>s. h = direct q s"
  using assms
  by (auto simp: writeHandler_def handleRequestMSet_def handleRequestDel_def divide_def forwardOne_def mapOutcome_Value divided_def direct_def answer_def Let_def
      split: if_splits)

lemma planned_response:
  assumes "handleRequestWithHotKeyCacheInvalidation e (writeHandler e q) q g = Some (Value h, g1)" "hd_sent h \<noteq> []"
    "plan_active (hotKeyCacheInvalidationPlanForRequest q (g_router g))" "e_early e = None" "list_all isSent (hd_sent h)"
    "handleResponse now h answers g2 = (res, g3)"
  shows "\<exists>x. g3 = plan_apply (hotKeyCacheInvalidationPlanForRequest q (g_router g)) x g2 \<and> (\<forall>y. res = Inr y \<longrightarrow> x = Some y)"
proof -
  define p where "p = hotKeyCacheInvalidationPlanForRequest q (g_router g)"
  obtain h0 where h0: "writeHandler e q q g = Some (Value h0, g1)" "h = withPlan e p h0"
    using assms(1) by (auto simp: handleRequestWithHotKeyCacheInvalidation_def handleRequestWithHotKeyCacheInvalidationPlan_def mapOutcome_Value p_def)
  note co = writeHandler_co [OF h0(1)]
  have sent: "hd_sent h0 = hd_sent h" using h0(2) by (simp add: withPlan_def)
  have "\<not> (respSeen e h0 \<noteq> None \<and> hd_co h0 = Plain)"
  proof
    assume a: "respSeen e h0 \<noteq> None \<and> hd_co h0 = Plain"
    with co(2) sent assms(2) obtain s where "h0 = direct q s" by auto
    moreover have "list_all isSent (hd_sent h0)" using assms(5) by (simp add: sent)
    ultimately show False using a assms(4) by (auto simp: respSeen_def direct_def isSent_def split: sent.splits)
  qed
  then have h: "hd_co h = CoPlan (hd_co h0) p" using h0(2) assms(3) by (auto simp: withPlan_def p_def)
  have gate: "snd (runCoalesce now (hd_co h0) as err resp g2) = g2" for as err resp using co(1) by auto
  obtain err resp where o: "own h (map2 answerOf (hd_sent h) answers) = (err, resp)" by fastforce
  obtain m x where "runCoalesce now (hd_co h0) (map2 answerOf (hd_sent h) answers) err resp g2 = ((m, x), g2)"
    using gate [of "map2 answerOf (hd_sent h) answers" err resp] by (metis surj_pair prod.sel(2))
  then have "handleResponse now h answers g2 =
      (case m of Some t \<Rightarrow> Inl t | None \<Rightarrow> (case err of Some t \<Rightarrow> Inl t | None \<Rightarrow> (case x of Some y \<Rightarrow> Inr y | None \<Rightarrow> Inl (errText ErrRespIsRequired))),
       plan_apply p x g2)" by (simp add: handleResponse_def h o)
  with assms(6) show ?thesis by (auto simp: p_def [symmetric] split: option.splits)
qed


text \<open>
  C17. When the reply has already come in while the proxy looks at the request it has just sent, the plan is not carried out: the
  client gets the reply to its write and the cache keeps what it has of the key.
\<close>

theorem fast_reply_skips_invalidation:
  assumes "e_early e = Some x" and "handleRequestWithHotKeyCacheInvalidation e (forwardOne e) q g = Some (Value h, g1)" and "list_all isSent (hd_sent h)"
  shows "handleResponse now h [Inr (Some x)] g2 = (Inr x, g2)"
proof -
  obtain s where "h = withPlan e (hotKeyCacheInvalidationPlanForRequest q (g_router g)) (direct q s)"
    using assms(2) by (auto simp: handleRequestWithHotKeyCacheInvalidation_def handleRequestWithHotKeyCacheInvalidationPlan_def mapOutcome_Value forwardOne_def)
  moreover have "isSent s" using calculation assms(3) by (auto simp: withPlan_def direct_def split: if_splits)
  ultimately have "h = direct q s" "isSent s" using assms(1) by (auto simp: withPlan_def respSeen_def direct_def isSent_def split: sent.splits)
  then show ?thesis by (auto simp: handleResponse_def direct_def isSent_def answerOf_def own_def split: sent.splits)
qed

section \<open>A write of a cached key\<close>

definition cache_old :: HotKeyCache where
  "cache_old = cache_store (3, ''hot'') 0 (Some ''old'') 5 (newHotKeyCache True 1000 10 100 [''hot''])"

definition write_demo :: Request where
  "write_demo = request_demo\<lparr>rq_Multi := [bulk ''SET'', bulk ''hot'', bulk ''new''], rq_OpStr := ''SET'', rq_OpFlag := FlagWrite\<rparr>"

lemma write_demo_key: "writtenKeys write_demo = {''hot''}" "hotKeyCacheEnabled (r\<lparr>r_hotKeyCache := cache_old\<rparr>)"
  "entry cache_old (3, ''hot'') = Some \<lparr>he_value = ''old'', he_slot = 0, he_expireAt = 1005\<rparr>" "rq_Database write_demo = 3"
  "\<not> IsReadOnly (rq_OpFlag write_demo)" "rq_OpStr write_demo = ''SET''"
proof -
  show "writtenKeys write_demo = {''hot''}" "rq_Database write_demo = 3" "rq_OpStr write_demo = ''SET''"
    by (simp_all add: writtenKeys_def write_demo_def request_demo_def Value_of_def NewBulkBytes_def)
  show "entry cache_old (3, ''hot'') = Some \<lparr>he_value = ''old'', he_slot = 0, he_expireAt = 1005\<rparr>" "hotKeyCacheEnabled (r\<lparr>r_hotKeyCache := cache_old\<rparr>)"
    by (simp_all add: cache_old_def cache_store_def newHotKeyCache_def Enabled_def hotKeyCacheEnabled_def evict.simps Let_def)
  show "\<not> IsReadOnly (rq_OpFlag write_demo)" unfolding write_demo_def by (simp add: IsReadOnly_def FlagMasterOnly_def FlagWrite_def FlagMayWrite_def)
qed

lemma write_demo_sent:
  assumes "router_ok r" "r_config r = config_demo" "online r (slotOf ''hot'')"
  shows "\<exists>c h g1. handleRequestWithHotKeyCacheInvalidation (env_serving x) (forwardOne (env_serving x)) write_demo (gate_of (r\<lparr>r_hotKeyCache := cache_old\<rparr>)) = Some (Value h, g1) \<and>
    hd_sent h = [Sent c (rq_Multi write_demo)]"
proof -
  define g where "g = gate_of (r\<lparr>r_hotKeyCache := cache_old\<rparr>)"
  have g: "router_ok (g_router g)" "request_ok (g_router g) write_demo" "rq_ACLIdentity write_demo = None" "online (g_router g) (slotOf ''hot'')"
    "getHashKey (rq_Multi write_demo) (rq_OpStr write_demo) = Some ''hot''"
    using assms by (simp_all add: g_def gate_of_def request_ok_def write_demo_def request_demo_def config_demo_def online_def getHashKey_def NewBulkBytes_def)
  from sendKey_pushes [OF g(1-3) g(5,4), of "env_serving x" 0] obtain c g1 where "sendKey (env_serving x) 0 write_demo g = Some (Value (Sent c (rq_Multi write_demo)), g1)"
    by (auto simp: env_serving_def)
  then show ?thesis
    by (auto simp: handleRequestWithHotKeyCacheInvalidation_def handleRequestWithHotKeyCacheInvalidationPlan_def forwardOne_def withPlan_def direct_def g_def)
qed


theorem fast_reply_skips_invalidation_witness:
  "\<exists>r h g1. handleRequestWithHotKeyCacheInvalidation (env_serving (Some RespOK)) (forwardOne (env_serving (Some RespOK))) write_demo (gate_of (r\<lparr>r_hotKeyCache := cache_old\<rparr>)) = Some (Value h, g1) \<and>
     handleResponse 9 h [Inr (Some RespOK)] (gate_of (r\<lparr>r_hotKeyCache := cache_old\<rparr>)) = (Inr RespOK, gate_of (r\<lparr>r_hotKeyCache := cache_old\<rparr>)) \<and>
     fst (hotKeyCacheLookup 10 3 ''hot'' (r\<lparr>r_hotKeyCache := cache_old\<rparr>)) = Some (bulk ''old'')"
proof -
  obtain r where r: "router_ok r" "r_config r = config_demo" "online r (slotOf ''hot'')" using serving_demo by blast
  obtain c h g1 where h: "handleRequestWithHotKeyCacheInvalidation (env_serving (Some RespOK)) (forwardOne (env_serving (Some RespOK))) write_demo (gate_of (r\<lparr>r_hotKeyCache := cache_old\<rparr>)) = Some (Value h, g1)"
    "hd_sent h = [Sent c (rq_Multi write_demo)]" using write_demo_sent [OF r] by blast
  have "tk_ok (hotKeyCacheToken_of 3 ''hot'' (r\<lparr>r_hotKeyCache := cache_old\<rparr>))"
  proof -
    have "hotKeyCacheSlotStable (slotOf ''hot'') (r\<lparr>r_hotKeyCache := cache_old\<rparr>)" using r(3) by (simp add: hotKeyCacheSlotStable_def online_def)
    moreover have "isConfigured cache_old ''hot''"
      by (simp add: isConfigured_def cache_old_def cache_store_def newHotKeyCache_def Enabled_def evict.simps Let_def)
    ultimately show ?thesis using write_demo_key(2) [of r] by (simp add: hotKeyCacheToken_of_def slotOf_def [symmetric] Let_def)
  qed
  then have "fst (hotKeyCacheLookup 10 3 ''hot'' (r\<lparr>r_hotKeyCache := cache_old\<rparr>)) = Some (bulk ''old'')"
    by (simp add: hotKeyCacheLookup_def cache_get_def write_demo_key(3) NewBulkBytes_def)
  moreover have "handleResponse 9 h [Inr (Some RespOK)] g2 = (Inr RespOK, g2)" for g2
    by (rule fast_reply_skips_invalidation [OF _ h(1)]) (simp_all add: env_serving_def h(2) isSent_def)
  ultimately show ?thesis using h(1) by blast
qed

end
