(* ===== verification/Broadcast.thy ===== *)
theory Broadcast
  imports Safety ProxyServer Invalidation
begin

text \<open>
  Announcing written keys to the other proxies: the reporter of a proxy (\<open>src/pkg/proxy/hot_key_cache_broadcast.go\<close>) collects the keys
  and hands them to the dashboard, which hands them to the other proxies (\<open>src/pkg/topom/topom_hot_key_cache.go\<close>), where they leave
  the cache (\<open>HotKeyCacheInvalidate\<close> of \<open>src/pkg/proxy/proxy_api.go\<close>).  Every call may not arrive, or arrive and lose its reply.
\<close>

section \<open>The dashboard\<close>

datatype delivery = Delivered | Unanswered | Unreached

type_synonym fleet = "string \<Rightarrow> ProxyServer"

text \<open>Whether a call to the proxy with this token is answered within the time.\<close>

type_synonym net = "int \<Rightarrow> string \<Rightarrow> delivery"

record HotKeyCacheBroadcastRequest =
  bq_SourceProxyToken :: string
  bq_Database :: int
  bq_Keys :: "bytes list"
  bq_TimeoutMillis :: int

record HotKeyCacheBroadcastResult =
  br_TotalProxies :: nat
  br_FailedProxies :: nat
  br_Invalidated :: int

definition no_result :: HotKeyCacheBroadcastResult where
  "no_result = \<lparr>br_TotalProxies = 0, br_FailedProxies = 0, br_Invalidated = 0\<rparr>"

datatype broadcast_error = MissingSource | TooManyKeys nat | Dashboard topom_error | NoSuchProxy string | BadXAuth

definition normalizeHotKeyCacheBroadcastTimeout :: "int \<Rightarrow> int" where
  "normalizeHotKeyCacheBroadcastTimeout timeoutMillis =
     (if timeoutMillis \<le> 0 then 100000000
      else if timeoutMillis < 10 then 10000000
      else if timeoutMillis > 1000 then 1000000000
      else timeoutMillis * 1000000)"

definition Api_HotKeyCacheInvalidate :: "int \<Rightarrow> bytes list \<Rightarrow> ProxyServer \<Rightarrow> int option \<times> ProxyServer" where
  "Api_HotKeyCacheInvalidate database keys p =
     (if length keys > HotKeyCacheBroadcastMaxKeys then (None, p)
      else (case InvalidateHotKeyCache database keys p of
              (Inl _, p1) \<Rightarrow> (None, p1)
            | (Inr n, p1) \<Rightarrow> (Some n, p1)))"

definition hotKeyCacheFanoutTargets :: "string \<Rightarrow> Topom \<Rightarrow> (broadcast_error + Proxy list) \<times> Topom" where
  "hotKeyCacheFanoutTargets source s =
     (if t_closed s then (Inl (Dashboard ErrClosedTopom), s)
      else
        (case newContext s of
           (Inl e, s1) \<Rightarrow> (Inl (Dashboard e), s1)
         | (Inr _, s1) \<Rightarrow>
             (if map_of (ctx_proxy s1) source = None then Inl (NoSuchProxy source)
              else Inr (filter (\<lambda>p. p_Token p \<noteq> source) (map snd (ctx_proxy s1))), s1)))"

text \<open>The calls to the proxies: how many failed, how many entries were removed, and the proxies afterwards.\<close>

fun fanOut :: "(string \<Rightarrow> delivery) \<Rightarrow> int \<Rightarrow> bytes list \<Rightarrow> string list \<Rightarrow> fleet \<Rightarrow> (nat \<times> int) \<times> fleet" where
  "fanOut reach database keys [] ps = ((0, 0), ps)"
| "fanOut reach database keys (t # ts) ps =
     (let (res, p) = Api_HotKeyCacheInvalidate database keys (ps t); ps1 = (if reach t = Unreached then ps else ps(t := p));
          ((failed, removed), ps2) = fanOut reach database keys ts ps1
      in (case (reach t, res) of
            (Delivered, Some n) \<Rightarrow> (failed, n + removed)
          | _ \<Rightarrow> (Suc failed, removed), ps2))"

definition HotKeyCacheInvalidate :: "net \<Rightarrow> HotKeyCacheBroadcastRequest \<Rightarrow> Topom \<Rightarrow> fleet \<Rightarrow> (broadcast_error + HotKeyCacheBroadcastResult) \<times> Topom \<times> fleet" where
  "HotKeyCacheInvalidate net req s ps =
     (if bq_SourceProxyToken req = [] then (Inl MissingSource, s, ps)
      else if bq_Keys req = [] then (Inr no_result, s, ps)
      else if length (bq_Keys req) > HotKeyCacheBroadcastMaxKeys then (Inl (TooManyKeys (length (bq_Keys req))), s, ps)
      else
        (case hotKeyCacheFanoutTargets (bq_SourceProxyToken req) s of
           (Inl e, s1) \<Rightarrow> (Inl e, s1, ps)
         | (Inr targets, s1) \<Rightarrow>
             (case fanOut (net (normalizeHotKeyCacheBroadcastTimeout (bq_TimeoutMillis req))) (bq_Database req) (bq_Keys req) (map p_Token targets) ps of
                ((failed, removed), ps1) \<Rightarrow>
                  (Inr \<lparr>br_TotalProxies = length targets, br_FailedProxies = failed, br_Invalidated = removed\<rparr>, s1, ps1))))"

section \<open>The reporter\<close>

record reporter =
  rp_enabled :: bool
  rp_timeout :: int
  rp_capacity :: "nat option"
  rp_queue :: "(int \<times> bytes list) list"
  rp_pending :: "(int \<times> bytes list) list"
  rp_timer :: bool
  rp_topomAdminAddr :: string
  rp_sourceProxyToken :: string
  rp_xauth :: string
  rp_attempts :: int
  rp_failures :: int
  rp_dropped :: int
  rp_coalesced :: int

definition newHotKeyCacheBroadcastReporter :: "Config \<Rightarrow> reporter" where
  "newHotKeyCacheBroadcastReporter c =
     (let queueSize = (if cf_HotKeyCacheBroadcastQueueSize c = 0 then 1024 else cf_HotKeyCacheBroadcastQueueSize c)
      in \<lparr>rp_enabled = cf_HotKeyCacheBroadcastEnabled c, rp_timeout = cf_HotKeyCacheBroadcastTimeout c,
          rp_capacity = (if cf_HotKeyCacheBroadcastEnabled c \<and> cf_HotKeyCacheBroadcastTimeout c > 0 \<and> queueSize > 0 then Some (nat queueSize) else None),
          rp_queue = [], rp_pending = [], rp_timer = False, rp_topomAdminAddr = [], rp_sourceProxyToken = [], rp_xauth = [],
          rp_attempts = 0, rp_failures = 0, rp_dropped = 0, rp_coalesced = 0\<rparr>)"

definition SetSource :: "string \<Rightarrow> string \<Rightarrow> reporter \<Rightarrow> reporter" where
  "SetSource token xauth r = r\<lparr>rp_sourceProxyToken := token, rp_xauth := xauth\<rparr>"

definition SetTopomAdminAddr :: "string \<Rightarrow> reporter \<Rightarrow> reporter" where
  "SetTopomAdminAddr addr r = r\<lparr>rp_topomAdminAddr := addr\<rparr>"

definition Reporter_Enabled :: "reporter \<Rightarrow> bool" where
  "Reporter_Enabled r \<longleftrightarrow>
     rp_enabled r \<and> rp_timeout r > 0 \<and> rp_capacity r \<noteq> None \<and> rp_topomAdminAddr r \<noteq> [] \<and> rp_sourceProxyToken r \<noteq> [] \<and> rp_xauth r \<noteq> []"

definition Enqueue :: "int \<Rightarrow> bytes list \<Rightarrow> reporter \<Rightarrow> bool \<times> reporter" where
  "Enqueue database keys r =
     (if keys = [] \<or> \<not> Reporter_Enabled r then (False, r)
      else if length (rp_queue r) < the (rp_capacity r) then (True, r\<lparr>rp_queue := rp_queue r @ [(database, keys)]\<rparr>)
      else (False, r\<lparr>rp_dropped := rp_dropped r + 1\<rparr>))"

fun mergeKeys :: "bytes list \<Rightarrow> bytes list \<Rightarrow> bytes list \<times> int" where
  "mergeKeys [] ks = (ks, 0)"
| "mergeKeys (key # keys) ks =
     (if key \<in> set ks then (case mergeKeys keys ks of (ks1, n) \<Rightarrow> (ks1, n + 1)) else mergeKeys keys (ks @ [key]))"

definition mergePending :: "int \<times> bytes list \<Rightarrow> reporter \<Rightarrow> reporter" where
  "mergePending event r =
     (case mergeKeys (snd event) (case map_of (rp_pending r) (fst event) of Some ks \<Rightarrow> ks | None \<Rightarrow> []) of
        (ks, n) \<Rightarrow> r\<lparr>rp_pending := AList.update (fst event) ks (rp_pending r), rp_coalesced := rp_coalesced r + n\<rparr>)"

text \<open>One report: whether it ended with an error, the dashboard and the proxies.  A link says how the call to the dashboard went and those it makes.\<close>

type_synonym link = "delivery \<times> net"

definition report :: "link \<Rightarrow> int \<Rightarrow> bytes list \<Rightarrow> reporter \<Rightarrow> Topom \<Rightarrow> fleet \<Rightarrow> bool \<times> Topom \<times> fleet" where
  "report l database keys r s ps =
     (if keys = [] \<or> \<not> (rp_enabled r \<and> rp_timeout r > 0) \<or> rp_topomAdminAddr r = [] \<or> rp_sourceProxyToken r = [] \<or> rp_xauth r = [] then (False, s, ps)
      else
        let req = \<lparr>bq_SourceProxyToken = rp_sourceProxyToken r, bq_Database = database, bq_Keys = keys, bq_TimeoutMillis = rp_timeout r div 1000000\<rparr>
        in if fst l = Unreached then (True, s, ps)
           else
             (case (if rp_xauth r \<noteq> t_xauth s then (Inl BadXAuth, s, ps) else HotKeyCacheInvalidate (snd l) req s ps) of
                (Inl e, s1, ps1) \<Rightarrow> (True, s1, ps1)
              | (Inr result, s1, ps1) \<Rightarrow> (fst l = Unanswered \<or> br_FailedProxies result \<noteq> 0, s1, ps1)))"

type_synonym announcing = "reporter \<times> Topom \<times> fleet"

fun flushPortions :: "(int \<Rightarrow> link) \<Rightarrow> int \<Rightarrow> bytes list list \<Rightarrow> announcing \<Rightarrow> announcing" where
  "flushPortions links database [] st = st"
| "flushPortions links database (keys # kss) (r, s, ps) =
     (case report (links (rp_attempts r)) database keys r s ps of
        (err, s1, ps1) \<Rightarrow>
          flushPortions links database kss
            (r\<lparr>rp_attempts := rp_attempts r + 1, rp_failures := rp_failures r + (if err then 1 else 0)\<rparr>, s1, ps1))"

definition flushDatabase :: "(int \<Rightarrow> link) \<Rightarrow> announcing \<Rightarrow> int \<times> bytes list \<Rightarrow> announcing" where
  "flushDatabase links st x =
     (if snd x = [] \<or> \<not> Reporter_Enabled (fst st) then st
      else flushPortions links (fst x) (chunks HotKeyCacheBroadcastMaxKeys (snd x)) st)"

definition flushPending :: "(int \<Rightarrow> link) \<Rightarrow> announcing \<Rightarrow> announcing" where
  "flushPending links st = foldl (flushDatabase links) st (rp_pending (fst st))"

text \<open>The loop of the reporter, with the calls that offer keys to it.\<close>

datatype reporter_event = Offer int "bytes list" | Take | Fire

fun reporter_loop :: "(int \<Rightarrow> link) \<Rightarrow> reporter_event \<Rightarrow> announcing \<Rightarrow> announcing" where
  "reporter_loop links (Offer database keys) (r, s, ps) = (snd (Enqueue database keys r), s, ps)"
| "reporter_loop links Take (r, s, ps) =
     (case rp_queue r of
        [] \<Rightarrow> (r, s, ps)
      | x # xs \<Rightarrow> ((mergePending x r)\<lparr>rp_queue := xs, rp_timer := True\<rparr>, s, ps))"
| "reporter_loop links Fire (r, s, ps) =
     (if \<not> rp_timer r then (r, s, ps)
      else (case flushPending links (r, s, ps) of (r1, s1, ps1) \<Rightarrow> (r1\<lparr>rp_pending := [], rp_timer := False\<rparr>, s1, ps1)))"

section \<open>Caches only shrink\<close>

abbreviation cache_of :: "fleet \<Rightarrow> string \<Rightarrow> HotKeyCache" where
  "cache_of ps t \<equiv> r_hotKeyCache (px_router (ps t))"

definition shrinks :: "fleet \<Rightarrow> fleet \<Rightarrow> bool" where
  "shrinks ps ps1 \<longleftrightarrow>
     (\<forall>t. settings (cache_of ps1 t) = settings (cache_of ps t) \<and> (\<forall>x. entry (cache_of ps t) x = None \<longrightarrow> entry (cache_of ps1 t) x = None))"

lemma shrinks_refl: "shrinks ps ps"
  by (simp add: shrinks_def)

lemma shrinks_trans: "shrinks ps ps1 \<Longrightarrow> shrinks ps1 ps2 \<Longrightarrow> shrinks ps ps2"
  by (simp add: shrinks_def)

lemma settings_configured: "settings c1 = settings c \<Longrightarrow> isConfigured c1 key = isConfigured c key"
  by (auto simp: isConfigured_def settings_def Enabled_def)

lemma shrinksD:
  assumes "shrinks ps ps1"
  shows "isConfigured (cache_of ps1 t) key = isConfigured (cache_of ps t) key" "entry (cache_of ps t) x = None \<Longrightarrow> entry (cache_of ps1 t) x = None"
proof -
  have "settings (cache_of ps1 t) = settings (cache_of ps t)" using assms unfolding shrinks_def by blast
  then show "isConfigured (cache_of ps1 t) key = isConfigured (cache_of ps t) key" by (rule settings_configured)
  show "entry (cache_of ps t) x = None \<Longrightarrow> entry (cache_of ps1 t) x = None" using assms unfolding shrinks_def by blast
qed

lemma invalidateRemote_entry:
  "entry (snd (invalidateRemote d keys c)) x = (if fst x = d \<and> snd x \<in> set keys \<and> isConfigured c (snd x) then None else entry c x)"
  "settings (snd (invalidateRemote d keys c)) = settings c"
proof -
  define ks where "ks = map (Pair d) (filter (\<lambda>key. key \<in> set (hc_keys c)) keys)"
  obtain n c1 where r: "removeKeys ks (c\<lparr>hc_version := hc_version c + 1\<rparr>) = (n, c1)" by fastforce
  note e = removeKeys_entry [OF r, of x]
  have eq: "snd (invalidateRemote d keys c) = (if \<not> Enabled c \<or> \<not> list_ex (isConfigured c) keys then c
      else c1\<lparr>hc_invalidations := hc_invalidations c1 + n, hc_remoteInvalidations := hc_remoteInvalidations c1 + n\<rparr>)"
    using r by (simp add: invalidateRemote_def ks_def)
  have "x \<in> set ks \<longleftrightarrow> fst x = d \<and> snd x \<in> set keys \<and> snd x \<in> set (hc_keys c)" by (cases x) (auto simp: ks_def)
  with e show "entry (snd (invalidateRemote d keys c)) x = (if fst x = d \<and> snd x \<in> set keys \<and> isConfigured c (snd x) then None else entry c x)"
    by (auto simp: eq isConfigured_def list_ex_iff)
  show "settings (snd (invalidateRemote d keys c)) = settings c" using e by (simp add: eq settings_def)
qed

lemma api_entry:
  assumes "Api_HotKeyCacheInvalidate d keys p = (res, p1)"
  shows "settings (r_hotKeyCache (px_router p1)) = settings (r_hotKeyCache (px_router p))"
    "entry (r_hotKeyCache (px_router p)) x = None \<Longrightarrow> entry (r_hotKeyCache (px_router p1)) x = None"
    "res \<noteq> None \<Longrightarrow> key \<in> set keys \<Longrightarrow> isConfigured (r_hotKeyCache (px_router p)) key \<Longrightarrow> entry (r_hotKeyCache (px_router p1)) (d, key) = None"
proof -
  obtain n c where i: "invalidateRemote d keys (r_hotKeyCache (px_router p)) = (n, c)" by fastforce
  note e = invalidateRemote_entry [of d keys "r_hotKeyCache (px_router p)", unfolded i, simplified]
  have "p1 = p \<and> res = None \<or> r_hotKeyCache (px_router p1) = c"
    using assms i by (auto simp: Api_HotKeyCacheInvalidate_def InvalidateHotKeyCache_def split: if_splits)
  then show "settings (r_hotKeyCache (px_router p1)) = settings (r_hotKeyCache (px_router p))"
    "entry (r_hotKeyCache (px_router p)) x = None \<Longrightarrow> entry (r_hotKeyCache (px_router p1)) x = None"
    "res \<noteq> None \<Longrightarrow> key \<in> set keys \<Longrightarrow> isConfigured (r_hotKeyCache (px_router p)) key \<Longrightarrow> entry (r_hotKeyCache (px_router p1)) (d, key) = None"
    by (elim disjE; simp add: e)+
qed

lemma fanOut_ok:
  "fanOut reach d keys ts ps = ((failed, removed), ps1) \<Longrightarrow>
   shrinks ps ps1 \<and> (failed = 0 \<longrightarrow> (\<forall>t \<in> set ts. \<forall>key \<in> set keys. isConfigured (cache_of ps t) key \<longrightarrow> entry (cache_of ps1 t) (d, key) = None))"
proof (induction reach d keys ts ps arbitrary: failed removed ps1 rule: fanOut.induct)
  case (2 reach d keys t ts ps)
  obtain res p where a: "Api_HotKeyCacheInvalidate d keys (ps t) = (res, p)" by fastforce
  define ps0 where "ps0 = (if reach t = Unreached then ps else ps(t := p))"
  obtain f n where r: "fanOut reach d keys ts ps0 = ((f, n), ps1)" using 2(2) a by (auto simp: ps0_def Let_def split: prod.splits)
  have s: "shrinks ps ps0" using api_entry(1,2) [OF a] by (auto simp: shrinks_def ps0_def)
  from 2(1) [OF a [symmetric] refl ps0_def r] have ih: "shrinks ps0 ps1"
    "f = 0 \<longrightarrow> (\<forall>t \<in> set ts. \<forall>key \<in> set keys. isConfigured (cache_of ps0 t) key \<longrightarrow> entry (cache_of ps1 t) (d, key) = None)" by auto
  have "f = 0 \<and> reach t = Delivered \<and> res \<noteq> None" if "failed = 0"
    using 2(2) a r that by (auto simp: ps0_def [symmetric] Let_def split: delivery.splits option.splits)
  moreover have "entry (cache_of ps0 t) (d, key) = None" if "reach t = Delivered" "res \<noteq> None" "key \<in> set keys" "isConfigured (cache_of ps t) key" for key
    using api_entry(3) [OF a that(2-4)] that(1) by (simp add: ps0_def)
  ultimately have "entry (cache_of ps1 u) (d, key) = None" if "failed = 0" "u \<in> set (t # ts)" "key \<in> set keys" "isConfigured (cache_of ps u) key" for u key
    using that ih(2) shrinksD(2) [OF ih(1)] shrinksD(1) [OF s, of u key] by (metis set_ConsD)
  with shrinks_trans [OF s ih(1)] show ?case by blast
qed (simp add: shrinks_refl)

section \<open>Reports\<close>

text \<open>A key has left the caches of all registered proxies but one.\<close>

definition gone :: "Topom \<Rightarrow> string \<Rightarrow> fleet \<Rightarrow> int \<Rightarrow> bytes \<Rightarrow> bool" where
  "gone s source ps d key \<longleftrightarrow>
     (\<forall>t p. map_of (st_proxy (t_store s)) t = Some p \<longrightarrow> t \<noteq> source \<longrightarrow> isConfigured (cache_of ps t) key \<longrightarrow> entry (cache_of ps t) (d, key) = None)"

lemma gone_shrinks: "gone s source ps d key \<Longrightarrow> shrinks ps ps1 \<Longrightarrow> t_store s1 = t_store s \<Longrightarrow> gone s1 source ps1 d key"
  unfolding gone_def using shrinksD by metis

definition holds :: "Topom \<Rightarrow> Topom \<Rightarrow> bool" where
  "holds s s1 \<longleftrightarrow> good {} s1 \<and> t_store s1 = t_store s"

lemma targets_ok:
  assumes "good {} s" "hotKeyCacheFanoutTargets source s = (res, s1)"
  shows "holds s s1" "res = Inr targets \<Longrightarrow> map_of (st_proxy (t_store s)) t = Some p \<Longrightarrow> t \<noteq> source \<Longrightarrow> t \<in> set (map p_Token targets)"
proof -
  obtain r s2 where n: "newContext s = (r, s2)" by fastforce
  note c = newContext_ok [OF assms(1) n]
  then have st: "t_store s2 = t_store s" by (auto simp: cache_step_def)
  then show "holds s s1" using assms n c by (auto simp: hotKeyCacheFanoutTargets_def holds_def split: if_splits sum.splits)
  assume r: "res = Inr targets" "map_of (st_proxy (t_store s)) t = Some p" "t \<noteq> source"
  then have r2: "r = Inr ()" "targets = filter (\<lambda>p. p_Token p \<noteq> source) (map snd (ctx_proxy s2))"
    using assms(2) n by (auto simp: hotKeyCacheFanoutTargets_def split: if_splits sum.splits)
  have "map_of (ctx_proxy s2) t = Some p" using ctx_proxy_store [of "{}" s2 t] c r2(1) r(2) st by (simp add: stale_def)
  then have m: "(t, p) \<in> set (ctx_proxy s2)" by (rule map_of_SomeD)
  moreover have "p_Token p = t" using ctx_proxy_in [OF _ m] c by blast
  ultimately show "t \<in> set (map p_Token targets)" using r(3) r2(2) by force
qed

lemma invalidate_ok:
  assumes "good {} s" "HotKeyCacheInvalidate net req s ps = (res, s1, ps1)"
  shows "holds s s1 \<and> shrinks ps ps1 \<and>
    (\<forall>result. res = Inr result \<longrightarrow> br_FailedProxies result = 0 \<longrightarrow> (\<forall>key \<in> set (bq_Keys req). gone s (bq_SourceProxyToken req) ps1 (bq_Database req) key))"
proof (cases "bq_SourceProxyToken req = [] \<or> bq_Keys req = [] \<or> length (bq_Keys req) > HotKeyCacheBroadcastMaxKeys")
  case True
  with assms show ?thesis by (auto simp: HotKeyCacheInvalidate_def holds_def shrinks_refl split: if_splits)
next
  case False
  obtain x s2 where t: "hotKeyCacheFanoutTargets (bq_SourceProxyToken req) s = (x, s2)" by fastforce
  note k = targets_ok [OF assms(1) t]
  show ?thesis
  proof (cases x)
    case (Inl e)
    with False assms(2) t have "res = Inl e" "s1 = s2" "ps1 = ps" by (simp_all add: HotKeyCacheInvalidate_def)
    with k(1) shrinks_refl show ?thesis by simp
  next
    case (Inr targets)
    obtain failed removed ps2 where f: "fanOut (net (normalizeHotKeyCacheBroadcastTimeout (bq_TimeoutMillis req))) (bq_Database req) (bq_Keys req) (map p_Token targets) ps =
        ((failed, removed), ps2)" by (metis surj_pair)
    note o = fanOut_ok [OF f]
    have eq: "s1 = s2" "ps1 = ps2" "res = Inr \<lparr>br_TotalProxies = length targets, br_FailedProxies = failed, br_Invalidated = removed\<rparr>"
      using False assms(2) t Inr f by (simp_all add: HotKeyCacheInvalidate_def)
    have "gone s (bq_SourceProxyToken req) ps1 (bq_Database req) key" if "failed = 0" "key \<in> set (bq_Keys req)" for key
      unfolding gone_def eq(2)
    proof (intro allI impI)
      fix t p assume t: "map_of (st_proxy (t_store s)) t = Some p" "t \<noteq> bq_SourceProxyToken req" "isConfigured (cache_of ps2 t) key"
      have "isConfigured (cache_of ps t) key" using t(3) shrinksD(1) o by blast
      with o that k(2) [OF Inr t(1,2)] show "entry (cache_of ps2 t) (bq_Database req, key) = None" by blast
    qed
    with k(1) o eq show ?thesis by auto
  qed
qed

lemma report_ok:
  assumes "good {} s" "Reporter_Enabled r" "report l d keys r s ps = (err, s1, ps1)"
  shows "holds s s1" "shrinks ps ps1" "\<not> err \<Longrightarrow> key \<in> set keys \<Longrightarrow> gone s (rp_sourceProxyToken r) ps1 d key"
proof -
  have "holds s s1 \<and> shrinks ps ps1 \<and> (\<not> err \<longrightarrow> (\<forall>key \<in> set keys. gone s (rp_sourceProxyToken r) ps1 d key))"
  proof (cases "keys = [] \<or> fst l = Unreached \<or> rp_xauth r \<noteq> t_xauth s")
    case True
    with assms show ?thesis by (auto simp: report_def Reporter_Enabled_def Let_def holds_def shrinks_refl split: if_splits)
  next
    case False
    define req where "req = \<lparr>bq_SourceProxyToken = rp_sourceProxyToken r, bq_Database = d, bq_Keys = keys, bq_TimeoutMillis = rp_timeout r div 1000000\<rparr>"
    obtain res s2 ps2 where h: "HotKeyCacheInvalidate (snd l) req s ps = (res, s2, ps2)" by (metis surj_pair)
    note k = invalidate_ok [OF assms(1) h]
    have "s1 = s2 \<and> ps1 = ps2 \<and> (\<not> err \<longrightarrow> (\<exists>result. res = Inr result \<and> br_FailedProxies result = 0))"
      using False assms(2,3) h by (auto simp: report_def Reporter_Enabled_def req_def Let_def split: sum.splits)
    with k show ?thesis by (auto simp: req_def)
  qed
  then show "holds s s1" "shrinks ps ps1" "\<not> err \<Longrightarrow> key \<in> set keys \<Longrightarrow> gone s (rp_sourceProxyToken r) ps1 d key" by auto
qed

section \<open>The loop\<close>

definition tallied :: "reporter \<Rightarrow> reporter \<Rightarrow> bool" where
  "tallied r r1 \<longleftrightarrow> r1 = r\<lparr>rp_attempts := rp_attempts r1, rp_failures := rp_failures r1\<rparr> \<and> rp_failures r \<le> rp_failures r1"

lemma tallied_refl: "tallied r r"
  by (simp add: tallied_def)

lemma tallied_trans: "tallied r r1 \<Longrightarrow> tallied r1 r2 \<Longrightarrow> tallied r r2"
  by (cases r; cases r1; cases r2) (simp add: tallied_def)

lemma talliedD:
  assumes "tallied r r1"
  shows "Reporter_Enabled r1 = Reporter_Enabled r" "rp_sourceProxyToken r1 = rp_sourceProxyToken r" "rp_queue r1 = rp_queue r" "rp_failures r \<le> rp_failures r1"
  using assms by (cases r; cases r1; simp add: tallied_def Reporter_Enabled_def)+

text \<open>What part of a flush does, for the keys it is about.\<close>

definition flushes :: "announcing \<Rightarrow> announcing \<Rightarrow> (int \<times> bytes) set \<Rightarrow> bool" where
  "flushes st st1 K \<longleftrightarrow>
     (case st of (r, s, ps) \<Rightarrow> case st1 of (r1, s1, ps1) \<Rightarrow>
        holds s s1 \<and> shrinks ps ps1 \<and> tallied r r1 \<and>
        (rp_failures r1 = rp_failures r \<longrightarrow> (\<forall>(d, key) \<in> K. gone s (rp_sourceProxyToken r) ps1 d key)))"

lemma flushes_trans:
  assumes "flushes st st1 K" "flushes st1 st2 L"
  shows "flushes st st2 (K \<union> L)"
proof -
  obtain r s ps r1 s1 ps1 r2 s2 ps2 where st: "st = (r, s, ps)" "st1 = (r1, s1, ps1)" "st2 = (r2, s2, ps2)" by (metis surj_pair)
  have h: "holds s s1" "shrinks ps ps1" "tallied r r1" "rp_failures r1 = rp_failures r \<Longrightarrow> (d, key) \<in> K \<Longrightarrow> gone s (rp_sourceProxyToken r) ps1 d key"
    and i: "holds s1 s2" "shrinks ps1 ps2" "tallied r1 r2" "rp_failures r2 = rp_failures r1 \<Longrightarrow> (d, key) \<in> L \<Longrightarrow> gone s1 (rp_sourceProxyToken r1) ps2 d key" for d key
    using assms by (auto simp: flushes_def st)
  have "holds s s2" using h(1) i(1) by (simp add: holds_def)
  moreover have "gone s (rp_sourceProxyToken r) ps2 d key" if "rp_failures r2 = rp_failures r" "(d, key) \<in> K \<union> L" for d key
  proof -
    have f: "rp_failures r1 = rp_failures r" "rp_failures r2 = rp_failures r1" using that(1) talliedD(4) [OF h(3)] talliedD(4) [OF i(3)] by simp_all
    have "gone s1 (rp_sourceProxyToken r) ps2 d key" if "(d, key) \<in> L" using i(4) [OF f(2) that] talliedD(2) [OF h(3)] by simp
    moreover have "t_store s1 = t_store s" using h(1) by (simp add: holds_def)
    ultimately show ?thesis using that(2) gone_shrinks [OF h(4) [OF f(1)] i(2)] by (auto simp: gone_def)
  qed
  ultimately show ?thesis using shrinks_trans [OF h(2) i(2)] tallied_trans [OF h(3) i(3)] by (auto simp: flushes_def st)
qed

lemma flushes_none: "good {} s \<Longrightarrow> flushes (r, s, ps) (r, s, ps) {}"
  by (simp add: flushes_def holds_def shrinks_refl tallied_refl)

lemma flushPortions_ok:
  "good {} s \<Longrightarrow> Reporter_Enabled r \<Longrightarrow> flushes (r, s, ps) (flushPortions links d kss (r, s, ps)) {(d, key) |key. \<exists>keys \<in> set kss. key \<in> set keys}"
proof (induction kss arbitrary: r s ps)
  case (Cons keys kss)
  obtain err s1 ps1 where p: "report (links (rp_attempts r)) d keys r s ps = (err, s1, ps1)" by (metis surj_pair)
  define r1 where "r1 = r\<lparr>rp_attempts := rp_attempts r + 1, rp_failures := rp_failures r + (if err then 1 else 0)\<rparr>"
  note k = report_ok [OF Cons.prems p]
  have c: "tallied r r1" by (simp add: tallied_def r1_def)
  have one: "flushes (r, s, ps) (r1, s1, ps1) {(d, key) |key. key \<in> set keys}" using k c by (auto simp: flushes_def r1_def)
  have "flushes (r1, s1, ps1) (flushPortions links d kss (r1, s1, ps1)) {(d, key) |key. \<exists>keys \<in> set kss. key \<in> set keys}"
    by (rule Cons.IH) (use k(1) talliedD(1) [OF c] Cons.prems(2) in \<open>auto simp: holds_def\<close>)
  from flushes_trans [OF one this]
  have "flushes (r, s, ps) (flushPortions links d (keys # kss) (r, s, ps)) ({(d, key) |key. key \<in> set keys} \<union> {(d, key) |key. \<exists>keys \<in> set kss. key \<in> set keys})"
    by (simp add: p r1_def)
  then show ?case by (rule back_subst [of "flushes _ _"]) auto
qed (simp add: flushes_none)

lemma flushDatabases_ok:
  "good {} s \<Longrightarrow> Reporter_Enabled r \<Longrightarrow> flushes (r, s, ps) (foldl (flushDatabase links) (r, s, ps) xs) {(d, key). \<exists>keys. (d, keys) \<in> set xs \<and> key \<in> set keys}"
proof (induction xs arbitrary: r s ps)
  case (Cons x xs)
  obtain r1 s1 ps1 where f: "flushDatabase links (r, s, ps) x = (r1, s1, ps1)" by (metis surj_pair)
  have one: "flushes (r, s, ps) (r1, s1, ps1) {(fst x, key) |key. key \<in> set (snd x)}"
  proof (cases "snd x = []")
    case True
    with f Cons.prems flushes_none show ?thesis by (auto simp: flushDatabase_def)
  next
    case False
    have "(\<exists>keys \<in> set (chunks HotKeyCacheBroadcastMaxKeys (snd x)). key \<in> set keys) \<longleftrightarrow> key \<in> set (snd x)" for key
      using arg_cong [OF chunks_concat [of HotKeyCacheBroadcastMaxKeys "snd x"], of set] by (auto simp: HotKeyCacheBroadcastMaxKeys_def)
    with flushPortions_ok [OF Cons.prems, of ps links "fst x" "chunks HotKeyCacheBroadcastMaxKeys (snd x)"] False f Cons.prems(2) show ?thesis
      by (simp add: flushDatabase_def)
  qed
  then have g: "good {} s1" "Reporter_Enabled r1" using talliedD(1) Cons.prems(2) by (auto simp: flushes_def holds_def)
  from flushes_trans [OF one Cons.IH [OF g]] f
  have "flushes (r, s, ps) (foldl (flushDatabase links) (r, s, ps) (x # xs)) ({(fst x, key) |key. key \<in> set (snd x)} \<union> {(d, key). \<exists>keys. (d, keys) \<in> set xs \<and> key \<in> set keys})"
    by simp
  then show ?case by (rule back_subst [of "flushes _ _"]) (cases x, auto)
qed (simp add: flushes_none)

text \<open>A run, with the portions of keys that were accepted.\<close>

fun run_reporter :: "(int \<Rightarrow> link) \<Rightarrow> reporter_event list \<Rightarrow> announcing \<Rightarrow> (int \<times> bytes list) list \<times> announcing" where
  "run_reporter links [] st = ([], st)"
| "run_reporter links (ev # evs) st =
     (let acc = (case ev of Offer database keys \<Rightarrow> if fst (Enqueue database keys (fst st)) then [(database, keys)] else [] | _ \<Rightarrow> [])
      in (case run_reporter links evs (reporter_loop links ev st) of (accs, st1) \<Rightarrow> (acc @ accs, st1)))"

definition on_the_way :: "reporter \<Rightarrow> int \<Rightarrow> bytes \<Rightarrow> bool" where
  "on_the_way r d key \<longleftrightarrow> (\<exists>keys. (d, keys) \<in> set (rp_queue r) \<and> key \<in> set keys) \<or> (\<exists>keys. map_of (rp_pending r) d = Some keys \<and> key \<in> set keys)"

definition announced :: "Topom \<Rightarrow> string \<Rightarrow> (int \<times> bytes list) list \<Rightarrow> announcing \<Rightarrow> bool" where
  "announced s0 source acc st \<longleftrightarrow>
     (case st of (r, s, ps) \<Rightarrow>
        good {} s \<and> t_store s = t_store s0 \<and> Reporter_Enabled r \<and> rp_sourceProxyToken r = source \<and> 0 \<le> rp_failures r \<and>
        (rp_failures r = 0 \<longrightarrow> (\<forall>(d, keys) \<in> set acc. \<forall>key \<in> set keys. on_the_way r d key \<or> gone s0 source ps d key)))"

lemma mergeKeys_set: "mergeKeys keys ks = (ks1, n) \<Longrightarrow> set ks1 = set ks \<union> set keys"
proof (induction keys ks arbitrary: ks1 n rule: mergeKeys.induct)
  case (2 key keys ks)
  show ?case
  proof (cases "key \<in> set ks")
    case True
    with 2(3) obtain m where "mergeKeys keys ks = (ks1, m)" by (auto split: prod.splits)
    with 2(1) [OF True] True show ?thesis by auto
  next
    case False
    with 2(2) [OF False] 2(3) show ?thesis by simp
  qed
qed simp

lemma merge_on_the_way:
  assumes "rp_queue r = x # xs"
  shows "on_the_way r d key \<Longrightarrow> on_the_way ((mergePending x r)\<lparr>rp_queue := xs, rp_timer := True\<rparr>) d key"
proof -
  obtain e ks0 where x: "x = (e, ks0)" by fastforce
  define old where "old = (case map_of (rp_pending r) e of Some ks \<Rightarrow> ks | None \<Rightarrow> [])"
  obtain ks n where m: "mergeKeys ks0 old = (ks, n)" by fastforce
  note ks = mergeKeys_set [OF m]
  define r1 where "r1 = (mergePending x r)\<lparr>rp_queue := xs, rp_timer := True\<rparr>"
  have r1: "map_of (rp_pending r1) = (map_of (rp_pending r))(e \<mapsto> ks)" "rp_queue r1 = xs"
    by (simp_all add: r1_def mergePending_def x m old_def [symmetric] update_conv')
  assume "on_the_way r d key"
  then consider keys where "(d, keys) \<in> set xs" "key \<in> set keys" | "d = e" "key \<in> set ks0" | keys where "map_of (rp_pending r) d = Some keys" "key \<in> set keys"
    using assms x by (auto simp: on_the_way_def)
  then have "on_the_way r1 d key" using ks r1 by cases (auto simp: on_the_way_def old_def)
  then show "on_the_way ((mergePending x r)\<lparr>rp_queue := xs, rp_timer := True\<rparr>) d key" by (simp add: r1_def)
qed

lemma announced_same:
  assumes "announced s0 source acc (r, s, ps)" "Reporter_Enabled r1 = Reporter_Enabled r" "rp_sourceProxyToken r1 = rp_sourceProxyToken r" "rp_failures r1 = rp_failures r"
    and "\<And>d key. on_the_way r d key \<Longrightarrow> on_the_way r1 d key"
    and "\<And>d keys key. (d, keys) \<in> set acc1 \<Longrightarrow> (d, keys) \<in> set acc \<or> (\<forall>key \<in> set keys. on_the_way r1 d key)"
  shows "announced s0 source acc1 (r1, s, ps)"
  using assms unfolding announced_def by (simp, blast)

lemma announced_Offer:
  assumes "announced s0 source acc (r, s, ps)" "Enqueue d keys r = (ok, r1)"
  shows "announced s0 source (acc @ (if ok then [(d, keys)] else [])) (r1, s, ps)"
proof -
  have e: "Reporter_Enabled (r\<lparr>rp_dropped := n\<rparr>) = Reporter_Enabled r" "Reporter_Enabled (r\<lparr>rp_queue := xs\<rparr>) = Reporter_Enabled r" for n xs
    by (simp_all add: Reporter_Enabled_def)
  have w: "on_the_way (r\<lparr>rp_dropped := n\<rparr>) x key = on_the_way r x key"
    "on_the_way r x key \<Longrightarrow> on_the_way (r\<lparr>rp_queue := rp_queue r @ [(d, keys)]\<rparr>) x key"
    "key \<in> set keys \<Longrightarrow> on_the_way (r\<lparr>rp_queue := rp_queue r @ [(d, keys)]\<rparr>) d key" for n x key
    by (auto simp: on_the_way_def)
  show ?thesis
  proof (cases "keys = [] \<or> \<not> Reporter_Enabled r")
    case True
    then have "r1 = r" "\<not> ok" using assms(2) by (auto simp: Enqueue_def)
    with assms(1) show ?thesis by simp
  next
    case False
    show ?thesis
    proof (cases "length (rp_queue r) < the (rp_capacity r)")
      case True
      with False assms(2) have r1: "r1 = r\<lparr>rp_queue := rp_queue r @ [(d, keys)]\<rparr>" "ok" by (simp_all add: Enqueue_def)
      show ?thesis unfolding r1(1) by (rule announced_same [OF assms(1)]) (use e w r1(2) in auto)
    next
      case full: False
      with False assms(2) have r1: "r1 = r\<lparr>rp_dropped := rp_dropped r + 1\<rparr>" "\<not> ok" by (auto simp: Enqueue_def)
      show ?thesis unfolding r1(1) by (rule announced_same [OF assms(1)]) (use e w r1(2) in auto)
    qed
  qed
qed

lemma announced_Take:
  assumes "announced s0 source acc (r, s, ps)"
  shows "announced s0 source acc (reporter_loop links Take (r, s, ps))"
proof (cases "rp_queue r")
  case (Cons x xs)
  define r1 where "r1 = (mergePending x r)\<lparr>rp_queue := xs, rp_timer := True\<rparr>"
  have "Reporter_Enabled r1 = Reporter_Enabled r" "rp_sourceProxyToken r1 = rp_sourceProxyToken r" "rp_failures r1 = rp_failures r"
    by (simp_all add: r1_def mergePending_def Reporter_Enabled_def split: prod.split)
  then have "announced s0 source acc (r1, s, ps)"
    by (rule announced_same [OF assms]) (use merge_on_the_way [OF Cons] in \<open>auto simp: r1_def\<close>)
  then show ?thesis by (simp add: Cons r1_def)
qed (use assms in simp)

lemma announced_Fire:
  assumes "announced s0 source acc (r, s, ps)"
  shows "announced s0 source acc (reporter_loop links Fire (r, s, ps))"
proof (cases "rp_timer r")
  case True
  have a: "good {} s" "t_store s = t_store s0" "Reporter_Enabled r" "rp_sourceProxyToken r = source" "0 \<le> rp_failures r"
    "rp_failures r = 0 \<Longrightarrow> (d, keys) \<in> set acc \<Longrightarrow> key \<in> set keys \<Longrightarrow> on_the_way r d key \<or> gone s0 source ps d key" for d keys key
    using assms by (auto simp: announced_def)
  obtain r1 s1 ps1 where f: "flushPending links (r, s, ps) = (r1, s1, ps1)" by (metis surj_pair)
  have "flushes (r, s, ps) (r1, s1, ps1) {(d, key). \<exists>keys. (d, keys) \<in> set (rp_pending r) \<and> key \<in> set keys}"
    using flushDatabases_ok [OF a(1,3), of ps links "rp_pending r"] f by (simp add: flushPending_def)
  then have h: "holds s s1" "shrinks ps ps1" "tallied r r1"
    "rp_failures r1 = rp_failures r \<Longrightarrow> (d, keys) \<in> set (rp_pending r) \<Longrightarrow> key \<in> set keys \<Longrightarrow> gone s source ps1 d key" for d keys key
    using a(4) by (auto simp: flushes_def)
  define r2 where "r2 = r1\<lparr>rp_pending := [], rp_timer := False\<rparr>"
  have r2: "Reporter_Enabled r2" "rp_sourceProxyToken r2 = source" "rp_queue r2 = rp_queue r" "rp_failures r2 = rp_failures r1" "0 \<le> rp_failures r1"
    using talliedD [OF h(3)] a(3-5) by (simp_all add: r2_def Reporter_Enabled_def)
  have "on_the_way r2 d key \<or> gone s0 source ps1 d key" if "rp_failures r1 = 0" "(d, keys) \<in> set acc" "key \<in> set keys" for d keys key
  proof -
    have z: "rp_failures r = 0" "rp_failures r1 = rp_failures r" using that(1) talliedD(4) [OF h(3)] a(5) by simp_all
    have g: "gone s0 source ps1 e k = gone s source ps1 e k" for e k by (simp add: gone_def a(2))
    show ?thesis
    proof (cases "gone s0 source ps d key")
      case True
      then show ?thesis using gone_shrinks [OF True h(2) refl] by blast
    next
      case False
      then have "on_the_way r d key" using a(6) [OF z(1) that(2,3)] by blast
      then show ?thesis using h(4) [OF z(2) map_of_SomeD] r2(3) g by (auto simp: on_the_way_def)
    qed
  qed
  with h(1) a(2) r2 True f show ?thesis by (auto simp: announced_def r2_def [symmetric] holds_def)
qed (use assms in simp)

lemma run_announced:
  "announced s0 source acc st \<Longrightarrow> run_reporter links evs st = (accs, st1) \<Longrightarrow> announced s0 source (acc @ accs) st1"
proof (induction evs arbitrary: acc accs st)
  case (Cons ev evs)
  obtain r s ps where st: "st = (r, s, ps)" by (metis surj_pair)
  define acc1 where "acc1 = (case ev of Offer database keys \<Rightarrow> if fst (Enqueue database keys (fst st)) then [(database, keys)] else [] | _ \<Rightarrow> [])"
  obtain accs1 where r: "run_reporter links evs (reporter_loop links ev st) = (accs1, st1)" "accs = acc1 @ accs1"
    using Cons.prems(2) by (auto simp: acc1_def [symmetric] Let_def split: prod.splits)
  have "announced s0 source (acc @ acc1) (reporter_loop links ev st)"
  proof (cases ev)
    case (Offer d keys)
    obtain ok r1 where e: "Enqueue d keys r = (ok, r1)" by fastforce
    from announced_Offer [OF Cons.prems(1) [unfolded st] e] e show ?thesis by (simp add: Offer acc1_def st)
  qed (use announced_Take announced_Fire Cons.prems(1) in \<open>simp_all add: st acc1_def\<close>)
  from Cons.IH [OF this r(1)] r(2) show ?case by simp
qed simp


section \<open>An announcement\<close>

definition config_announcing :: Config where
  "config_announcing = config_demo\<lparr>cf_HotKeyCacheBroadcastEnabled := True, cf_HotKeyCacheBroadcastTimeout := 100000000\<rparr>"

definition reporter_demo :: reporter where
  "reporter_demo = SetTopomAdminAddr ''10.0.0.3:18080'' (SetSource ''p1'' ''x'' (newHotKeyCacheBroadcastReporter config_announcing))"

lemma reporter_demo_enabled: "Reporter_Enabled reporter_demo"
  by (simp add: reporter_demo_def Reporter_Enabled_def SetTopomAdminAddr_def SetSource_def newHotKeyCacheBroadcastReporter_def config_announcing_def config_demo_def)

lemma demo_targets:
  "\<exists>targets s1. hotKeyCacheFanoutTargets ''p1'' demo_online = (Inr targets, s1)"
proof -
  have "map_of (ctx_proxy (snd (newContext demo_online))) ''p1'' = map_of (st_proxy demo_store) ''p1''"
  proof -
    have "good {} demo_online" using reachable_inv [OF demo_reachable] by (simp add: topom_inv_def)
    from newContext_ok [OF this demo_context(1)] ctx_proxy_store [of "{}" "snd (newContext demo_online)" "''p1''"] demo_context(2) show ?thesis by (simp add: stale_def)
  qed
  then have "map_of (ctx_proxy (snd (newContext demo_online))) ''p1'' \<noteq> None" by (simp add: demo_store_def)
  moreover have "\<not> t_closed demo_online" by (simp add: demo_online_eq demo_def)
  ultimately show ?thesis by (subst hotKeyCacheFanoutTargets_def, subst demo_context(1)) auto
qed

lemma fanOut_succeeds:
  assumes "\<And>t. \<not> px_closed (ps t)" "length keys \<le> HotKeyCacheBroadcastMaxKeys"
  shows "\<exists>removed ps1. fanOut (\<lambda>_. Delivered) d keys ts ps = ((0, removed), ps1)"
  using assms(1)
proof (induction ts arbitrary: ps)
  case (Cons t ts)
  obtain n p where a: "Api_HotKeyCacheInvalidate d keys (ps t) = (Some n, p)" "\<not> px_closed p"
    using Cons.prems [of t] assms(2) that by (cases "invalidateRemote d keys (cache_of ps t)") (simp add: Api_HotKeyCacheInvalidate_def InvalidateHotKeyCache_def)
  have "\<not> px_closed ((ps(t := p)) u)" for u using Cons.prems a(2) by simp
  from Cons.IH [of "ps(t := p)", OF this] obtain m ps1 where "fanOut (\<lambda>_. Delivered) d keys ts (ps(t := p)) = ((0, m), ps1)" by blast
  with a(1) show ?case by (simp add: Let_def)
qed simp


end
